(* ===== verification/KPrelude.thy ===== *)
theory KPrelude
  imports Main "HOL-Library.Word" "HOL-Library.Monad_Syntax"
begin

text \<open>
  Shared vocabulary of the development: the C integer types the kernel uses,
  the collections of simplification rules, a few generic facts on options and
  lists, and the object store that models memory obtained from kmalloc and
  returned with kfree.

  Undefined behaviour of the C code (a dereference of NULL or of a block that
  is not allocated, an index outside an array) is the value None of an option;
  an operation that returns has the value Some of its result and its new state.
\<close>

unbundle bit_operations_syntax

type_synonym u8 = "8 word"
type_synonym u16 = "16 word"
type_synonym u32 = "32 word"
type_synonym u64 = "64 word"
type_synonym addr = int

abbreviation NULL :: addr where "NULL \<equiv> 0"

named_theorems store_simps \<open>reads and writes of the object store\<close>
named_theorems op_defs \<open>definitions of the operations of a component\<close>


section \<open>Generic facts\<close>

lemma bind_eq_SomeI [intro]: "m = Some a \<Longrightarrow> f a = Some b \<Longrightarrow> m \<bind> f = Some b"
  by simp

lemma bind_Some_conv: "(m \<bind> f = Some b) = (\<exists>a. m = Some a \<and> f a = Some b)"
  by (cases m) auto

lemma list_update_nth_other [simp]: "i \<noteq> j \<Longrightarrow> (xs[i := v]) ! j = xs ! j"
  by (cases "j < length xs") simp_all

lemma take_drop_split: "i < length xs \<Longrightarrow> xs = take i xs @ xs ! i # drop (Suc i) xs"
  by (rule id_take_nth_drop)


lemma unat_ucast_up:
  fixes w :: "'a :: len word"
  assumes "LENGTH('a) \<le> LENGTH('b :: len)"
  shows "unat (ucast w :: 'b word) = unat w"
proof -
  have "(2::nat) ^ LENGTH('a) \<le> 2 ^ LENGTH('b)" using assms by simp
  then have "unat w < 2 ^ LENGTH('b)" using unsigned_less [of w] order_less_le_trans by blast
  then show ?thesis by (simp add: unsigned_ucast_eq take_bit_nat_eq_self)
qed

lemma unat_ucast_widen [simp]:
  "unat (ucast (a :: u8) :: u16) = unat a"
  "unat (ucast (a :: u8) :: u32) = unat a"
  "unat (ucast (a :: u8) :: u64) = unat a"
  "unat (ucast (b :: u16) :: u32) = unat b"
  "unat (ucast (b :: u16) :: u64) = unat b"
  "unat (ucast (c :: u32) :: u64) = unat c"
  by (simp_all add: unat_ucast_up)

lemma unat_word_bounds:
  "unat (a :: u8) < 256" "unat (b :: u16) < 65536" "unat (c :: u32) < 4294967296"
  "unat (d :: u64) < 18446744073709551616"
  using unsigned_less [of a] unsigned_less [of b] unsigned_less [of c] unsigned_less [of d] by simp_all

lemma unat_of_nat_u64: "n < 18446744073709551616 \<Longrightarrow> unat (of_nat n :: u64) = n"
  by (simp add: unat_of_nat)

lemma unat_of_nat_u32: "n < 4294967296 \<Longrightarrow> unat (of_nat n :: u32) = n"
  by (simp add: unat_of_nat)

lemma word_unat_eq_of_natI: "unat w = n \<Longrightarrow> w = of_nat n"
  by auto

lemma word_pos_nonzero: "0 < (w :: 'a :: len word) \<longleftrightarrow> w \<noteq> 0"
  by (simp add: word_neq_0_conv)

lemma word_bit_beyond: "LENGTH('a) \<le> i \<Longrightarrow> \<not> bit (z :: 'a :: len word) i"
  using bit_imp_le_length [of z i] by auto

lemma sint_small: "unat (w :: u32) < 2 ^ 31 \<Longrightarrow> sint w = int (unat w)"
proof -
  assume w: "unat w < 2 ^ 31"
  have "int (unat w) < int (2 ^ 31)" using w by (simp only: of_nat_less_iff)
  then have "uint w < 2 ^ 31" by simp
  then have "signed_take_bit 31 (uint w) = uint w"
    by (intro signed_take_bit_int_eq_self) (simp_all add: order_trans [OF _ uint_ge_0])
  then show ?thesis by (simp add: sint_uint)
qed

lemma and_mask_bits:
  "(w :: 'a :: len word) AND 3 = take_bit 2 w" "w AND 15 = take_bit 4 w" "w AND 7 = take_bit 3 w"
  "w AND 255 = take_bit 8 w" "w AND 511 = take_bit 9 w" "w AND 4095 = take_bit 12 w"
  by (simp_all add: take_bit_eq_mask mask_eq_exp_minus_1)

lemma unat_and_3: "unat ((w :: 'a :: len word) AND 3) = unat w mod 4"
  by (simp only: and_mask_bits(1) unsigned_take_bit_eq) (simp add: take_bit_eq_mod)

lemma xor_left_cancel: "h XOR x = h XOR y \<Longrightarrow> x = (y :: 'a :: len word)"
proof (rule bit_word_eqI)
  fix n assume "h XOR x = h XOR y"
  from arg_cong [OF this, of "\<lambda>w. bit w n"] show "bit x n = bit y n"
    by (auto simp: bit_xor_iff)
qed

lemma xor_right_cancel: "x XOR h = y XOR h \<Longrightarrow> x = (y :: 'a :: len word)"
  using xor_left_cancel [of h x y] by (simp add: xor.commute)

lemma xor_zero: "x XOR y = 0 \<Longrightarrow> x = (y :: 'a :: len word)"
  using xor_right_cancel [of x y y] by simp

text \<open>Little-endian reads of n bytes at offset i, through a pointer cast.\<close>

primrec le_word :: "u8 list \<Rightarrow> 'a :: len word" where
  "le_word [] = 0"
| "le_word (b # bs) = ucast b OR push_bit 8 (le_word bs)"

definition read_le :: "u8 list \<Rightarrow> nat \<Rightarrow> nat \<Rightarrow> 'a :: len word option" where
  "read_le data i n = (if i + n \<le> length data then Some (le_word (take n (drop i data))) else None)"

lemma bit_le_word:
  "bit (le_word bs :: 'a :: len word) i \<longleftrightarrow>
     i < LENGTH('a) \<and> i < 8 * length bs \<and> bit (bs ! (i div 8)) (i mod 8)"
proof (induction bs arbitrary: i)
  case (Cons b bs)
  show ?case
  proof (cases "i < 8")
    case True
    then show ?thesis by (auto simp: bit_simps)
  next
    case False
    then have "i div 8 = Suc ((i - 8) div 8)" "i mod 8 = (i - 8) mod 8"
      by (simp_all add: le_div_geq le_mod_geq)
    then show ?thesis using False Cons.IH [of "i - 8"] word_bit_beyond [of i b]
      by (auto simp: bit_simps)
  qed
qed simp

lemma le_word_inj:
  assumes "(le_word xs :: 'a :: len word) = le_word ys"
    and "length xs = length ys" "8 * length xs \<le> LENGTH('a)"
  shows "xs = ys"
proof (rule nth_equalityI)
  fix i assume i: "i < length xs"
  show "xs ! i = ys ! i"
  proof (rule bit_word_eqI)
    fix n assume "n < LENGTH(8)"
    then have n: "n < 8" by simp
    have "bit (le_word xs :: 'a word) (8 * i + n) = bit (le_word ys :: 'a word) (8 * i + n)"
      using assms(1) by simp
    moreover have "8 * i + n < 8 * length xs" using i n by simp
    ultimately show "bit (xs ! i) n = bit (ys ! i) n" using assms(2,3) n by (simp add: bit_le_word)
  qed
qed (rule assms(2))


section \<open>The object store\<close>

text \<open>
  The blocks of one C type that kmalloc hands out: the live blocks by address,
  and the blocks that the next calls of kmalloc will return, each with the
  stale contents the caller finds in it. An empty avail is an exhausted
  heap, where kmalloc returns NULL. kfree puts the block back at the end of
  the avail, its contents untouched.
\<close>

record 'n store =
  cells :: "addr \<rightharpoonup> 'n"
  avail :: "(addr \<times> 'n) list"

definition st_alloc :: "'n store \<Rightarrow> addr \<times> 'n store" where
  "st_alloc s = (case avail s of
      [] \<Rightarrow> (NULL, s)
    | (a, stale) # rest \<Rightarrow> (a, s\<lparr>cells := (cells s)(a \<mapsto> stale), avail := rest\<rparr>))"

definition st_read :: "addr \<Rightarrow> 'n store \<Rightarrow> 'n option" where
  "st_read a s = cells s a"

definition st_update :: "addr \<Rightarrow> ('n \<Rightarrow> 'n) \<Rightarrow> 'n store \<Rightarrow> 'n store option" where
  "st_update a f s = (case cells s a of
      None \<Rightarrow> None
    | Some v \<Rightarrow> Some (s\<lparr>cells := (cells s)(a \<mapsto> f v)\<rparr>))"

definition st_free :: "addr \<Rightarrow> 'n store \<Rightarrow> 'n store option" where
  "st_free a s = (case cells s a of
      None \<Rightarrow> None
    | Some v \<Rightarrow> Some (s\<lparr>cells := (cells s)(a := None), avail := avail s @ [(a, v)]\<rparr>))"

definition store_wf :: "'n store \<Rightarrow> bool" where
  "store_wf s \<longleftrightarrow> distinct (map fst (avail s)) \<and> NULL \<notin> fst ` set (avail s)
     \<and> cells s NULL = None \<and> (\<forall>a \<in> fst ` set (avail s). cells s a = None)"

lemma st_read_simp [store_simps]: "st_read a s = cells s a"
  by (simp add: st_read_def)

lemma st_update_live [store_simps]:
  "cells s a = Some v \<Longrightarrow> st_update a f s = Some (s\<lparr>cells := (cells s)(a \<mapsto> f v)\<rparr>)"
  by (simp add: st_update_def)

lemma st_update_dead [store_simps]: "cells s a = None \<Longrightarrow> st_update a f s = None"
  by (simp add: st_update_def)

lemma st_free_live [store_simps]:
  "cells s a = Some v \<Longrightarrow>
    st_free a s = Some (s\<lparr>cells := (cells s)(a := None), avail := avail s @ [(a, v)]\<rparr>)"
  by (simp add: st_free_def)

lemma st_alloc_empty [store_simps]: "avail s = [] \<Longrightarrow> st_alloc s = (NULL, s)"
  by (simp add: st_alloc_def)

lemma st_alloc_some [store_simps]:
  "avail s = (a, v) # rest \<Longrightarrow>
    st_alloc s = (a, s\<lparr>cells := (cells s)(a \<mapsto> v), avail := rest\<rparr>)"
  by (simp add: st_alloc_def)

lemma store_wf_null [simp]: "store_wf s \<Longrightarrow> cells s NULL = None"
  by (simp add: store_wf_def)

lemma store_wf_supply:
  "store_wf s \<Longrightarrow> avail s = (a, v) # rest \<Longrightarrow> a \<noteq> NULL \<and> cells s a = None"
  by (auto simp: store_wf_def)

lemma store_wf_update_cell:
  "store_wf s \<Longrightarrow> cells s a = Some v \<Longrightarrow> store_wf (s\<lparr>cells := (cells s)(a \<mapsto> w)\<rparr>)"
  by (auto simp: store_wf_def)

lemma store_wf_alloc:
  "store_wf s \<Longrightarrow> avail s = (a, v) # rest \<Longrightarrow>
    store_wf (s\<lparr>cells := (cells s)(a \<mapsto> w), avail := rest\<rparr>)"
  by (auto simp: store_wf_def)

lemma store_wf_free:
  "store_wf s \<Longrightarrow> cells s a = Some v \<Longrightarrow>
    store_wf (s\<lparr>cells := (cells s)(a := None), avail := avail s @ [(a, w)]\<rparr>)"
  by (fastforce simp: store_wf_def)

text \<open>What the clients of kmalloc and kfree rely on, whatever the store.\<close>

locale object_store =
  fixes alloc :: "'s \<Rightarrow> addr \<times> 's"
    and read :: "addr \<Rightarrow> 's \<Rightarrow> 'n option"
    and free :: "addr \<Rightarrow> 's \<Rightarrow> 's option"
    and wf :: "'s \<Rightarrow> bool"
  assumes alloc_fresh: "wf s \<Longrightarrow> alloc s = (a, s') \<Longrightarrow> a \<noteq> NULL \<Longrightarrow> read a s = None"
    and alloc_live: "wf s \<Longrightarrow> alloc s = (a, s') \<Longrightarrow> a \<noteq> NULL \<Longrightarrow> read a s' \<noteq> None"
    and alloc_frame: "wf s \<Longrightarrow> alloc s = (a, s') \<Longrightarrow> b \<noteq> a \<Longrightarrow> read b s' = read b s"
    and alloc_wf: "wf s \<Longrightarrow> alloc s = (a, s') \<Longrightarrow> wf s'"
    and free_dead: "wf s \<Longrightarrow> free a s = Some s' \<Longrightarrow> read a s' = None"
    and free_frame: "wf s \<Longrightarrow> free a s = Some s' \<Longrightarrow> b \<noteq> a \<Longrightarrow> read b s' = read b s"
    and free_wf: "wf s \<Longrightarrow> free a s = Some s' \<Longrightarrow> wf s'"
    and free_live: "wf s \<Longrightarrow> read a s \<noteq> None \<Longrightarrow> free a s \<noteq> None"
    and free_twice: "wf s \<Longrightarrow> read a s = None \<Longrightarrow> free a s = None"
begin

lemma alloc_distinct:
  assumes "wf s" "alloc s = (a, s1)" "a \<noteq> NULL" "alloc s1 = (b, s2)" "b \<noteq> NULL"
  shows "a \<noteq> b"
  using alloc_fresh [OF alloc_wf [OF assms(1,2)] assms(4,5)] alloc_live [OF assms(1-3)] by auto

lemma double_free: "wf s \<Longrightarrow> free a s = Some s' \<Longrightarrow> free a s' = None"
  by (metis free_dead free_twice free_wf)

lemma alloc_then_free:
  assumes "wf s" "alloc s = (a, s1)" "a \<noteq> NULL"
  shows "\<exists>s2. free a s1 = Some s2 \<and> (\<forall>b. read b s2 = read b s) \<and> wf s2"
proof -
  have w1: "wf s1" using assms alloc_wf by blast
  obtain s2 where s2: "free a s1 = Some s2"
    using free_live [OF w1] alloc_live [OF assms] by auto
  have "read b s2 = read b s" for b
    by (cases "b = a") (use s2 w1 assms alloc_fresh alloc_frame free_dead free_frame in metis)+
  with s2 w1 free_wf show ?thesis by blast
qed

end

interpretation st: object_store st_alloc st_read st_free store_wf
proof unfold_locales
  show "store_wf s \<Longrightarrow> st_alloc s = (a, s') \<Longrightarrow> a \<noteq> NULL \<Longrightarrow> st_read a s = None"
    for s s' :: "'a store" and a
    by (auto simp: st_alloc_def store_wf_def st_read_def split: list.splits)
  show "store_wf s \<Longrightarrow> st_alloc s = (a, s') \<Longrightarrow> a \<noteq> NULL \<Longrightarrow> st_read a s' \<noteq> None"
    for s s' :: "'a store" and a
    by (auto simp: st_alloc_def st_read_def split: list.splits)
  show "store_wf s \<Longrightarrow> st_alloc s = (a, s') \<Longrightarrow> b \<noteq> a \<Longrightarrow> st_read b s' = st_read b s"
    for s s' :: "'a store" and a b
    by (auto simp: st_alloc_def st_read_def split: list.splits)
  show "store_wf s \<Longrightarrow> st_alloc s = (a, s') \<Longrightarrow> store_wf s'" for s s' :: "'a store" and a
    by (auto simp: st_alloc_def intro: store_wf_alloc split: list.splits)
  show "store_wf s \<Longrightarrow> st_free a s = Some s' \<Longrightarrow> st_read a s' = None" for s s' :: "'a store" and a
    by (auto simp: st_free_def st_read_def split: option.splits)
  show "store_wf s \<Longrightarrow> st_free a s = Some s' \<Longrightarrow> b \<noteq> a \<Longrightarrow> st_read b s' = st_read b s"
    for s s' :: "'a store" and a b
    by (auto simp: st_free_def st_read_def split: option.splits)
  show "store_wf s \<Longrightarrow> st_free a s = Some s' \<Longrightarrow> store_wf s'" for s s' :: "'a store" and a
    by (auto simp: st_free_def intro: store_wf_free split: option.splits)
  show "store_wf s \<Longrightarrow> st_read a s \<noteq> None \<Longrightarrow> st_free a s \<noteq> None" for s :: "'a store" and a
    by (auto simp: st_free_def st_read_def)
  show "store_wf s \<Longrightarrow> st_read a s = None \<Longrightarrow> st_free a s = None" for s :: "'a store" and a
    by (simp add: st_free_def st_read_def)
qed

end
