(* ===== verification/AvsList.thy ===== *)
theory AvsList
  imports KPrelude
begin

text \<open>
  The kernel's doubly linked list (kernel/lib/list.c, include/lib/list.h and
  include/lib/node.h): the list headers and the nodes live in two object
  stores, a pointer is an address, the data pointer of a node is a value of
  the type parameter. The operations follow the pointer writes of the C code
  one by one. The predicate lrep says that a header and its nodes represent a
  list of (node address, data) pairs; the lemmas show what each operation does
  to that list, that it leaves every other list alone, and that the
  enqueue/dequeue pair is a FIFO queue.
\<close>

section \<open>State\<close>

record 'd avs_node =
  nxt :: addr
  prv :: addr
  node_data :: 'd

record avs_list =
  lhead :: addr
  ltail :: addr
  lsize :: int

record 'd kmem =
  lists :: "avs_list store"
  nodes :: "'d avs_node store"

definition rd_list :: "addr \<Rightarrow> 'd kmem \<Rightarrow> avs_list option" where
  "rd_list l m = st_read l (lists m)"

definition wr_list :: "addr \<Rightarrow> (avs_list \<Rightarrow> avs_list) \<Rightarrow> 'd kmem \<Rightarrow> 'd kmem option" where
  "wr_list l f m = do { s \<leftarrow> st_update l f (lists m); Some (m\<lparr>lists := s\<rparr>) }"

definition rd_node :: "addr \<Rightarrow> 'd kmem \<Rightarrow> 'd avs_node option" where
  "rd_node a m = st_read a (nodes m)"

definition wr_node :: "addr \<Rightarrow> ('d avs_node \<Rightarrow> 'd avs_node) \<Rightarrow> 'd kmem \<Rightarrow> 'd kmem option" where
  "wr_node a f m = do { s \<leftarrow> st_update a f (nodes m); Some (m\<lparr>nodes := s\<rparr>) }"

definition new_node :: "'d kmem \<Rightarrow> addr \<times> 'd kmem" where
  "new_node m = (let (a, s) = st_alloc (nodes m) in (a, m\<lparr>nodes := s\<rparr>))"

definition free_node :: "addr \<Rightarrow> 'd kmem \<Rightarrow> 'd kmem option" where
  "free_node a m = do { s \<leftarrow> st_free a (nodes m); Some (m\<lparr>nodes := s\<rparr>) }"

lemmas mem_defs = rd_list_def wr_list_def rd_node_def wr_node_def new_node_def free_node_def


section \<open>Operations\<close>

definition avs_list_init :: "'d kmem \<Rightarrow> (addr \<times> 'd kmem) option" where
  "avs_list_init m = (let (l, s) = st_alloc (lists m); m1 = m\<lparr>lists := s\<rparr> in
     if l = NULL then Some (NULL, m1)
     else do {
       m2 \<leftarrow> wr_list l (\<lambda>L. L\<lparr>lhead := NULL\<rparr>) m1;
       m3 \<leftarrow> wr_list l (\<lambda>L. L\<lparr>ltail := NULL\<rparr>) m2;
       m4 \<leftarrow> wr_list l (\<lambda>L. L\<lparr>lsize := 0\<rparr>) m3;
       Some (l, m4) })"

definition avs_list_insert_before ::
    "addr \<Rightarrow> addr \<Rightarrow> 'd \<Rightarrow> 'd kmem \<Rightarrow> (addr \<times> 'd kmem) option" where
  "avs_list_insert_before l before_node d m = (let (node, m0) = new_node m in do {
     m1 \<leftarrow> wr_node node (\<lambda>n. n\<lparr>node_data := d\<rparr>) m0;
     m2 \<leftarrow> wr_node node (\<lambda>n. n\<lparr>prv := NULL\<rparr>) m1;
     m3 \<leftarrow> wr_node node (\<lambda>n. n\<lparr>nxt := before_node\<rparr>) m2;
     L \<leftarrow> rd_list l m3;
     m4 \<leftarrow> (if before_node = NULL then do {
             m \<leftarrow> wr_list l (\<lambda>L. L\<lparr>lhead := node\<rparr>) m3;
             wr_list l (\<lambda>L. L\<lparr>ltail := node\<rparr>) m }
           else if before_node = lhead L then do {
             m \<leftarrow> wr_list l (\<lambda>L. L\<lparr>lhead := node\<rparr>) m3;
             m \<leftarrow> (if ltail L = NULL then wr_list l (\<lambda>L. L\<lparr>ltail := node\<rparr>) m else Some m);
             wr_node before_node (\<lambda>n. n\<lparr>prv := node\<rparr>) m }
           else do {
             b \<leftarrow> rd_node before_node m3;
             m \<leftarrow> wr_node node (\<lambda>n. n\<lparr>prv := prv b\<rparr>) m3;
             m \<leftarrow> wr_node before_node (\<lambda>n. n\<lparr>prv := node\<rparr>) m;
             n \<leftarrow> rd_node node m;
             wr_node (prv n) (\<lambda>p. p\<lparr>nxt := node\<rparr>) m });
     m5 \<leftarrow> wr_list l (\<lambda>L. L\<lparr>lsize := lsize L + 1\<rparr>) m4;
     Some (l, m5) })"

definition avs_list_insert_after ::
    "addr \<Rightarrow> addr \<Rightarrow> 'd \<Rightarrow> 'd kmem \<Rightarrow> (addr \<times> 'd kmem) option" where
  "avs_list_insert_after l after_node d m = (let (node, m0) = new_node m in do {
     m1 \<leftarrow> wr_node node (\<lambda>n. n\<lparr>node_data := d\<rparr>) m0;
     m2 \<leftarrow> wr_node node (\<lambda>n. n\<lparr>prv := NULL\<rparr>) m1;
     m3 \<leftarrow> wr_node node (\<lambda>n. n\<lparr>nxt := NULL\<rparr>) m2;
     L \<leftarrow> rd_list l m3;
     m4 \<leftarrow> (if after_node = NULL \<or> after_node = ltail L then do {
             m \<leftarrow> (if ltail L = NULL then wr_list l (\<lambda>L. L\<lparr>lhead := node\<rparr>) m3
                  else do {
                    m \<leftarrow> wr_node (ltail L) (\<lambda>n. n\<lparr>nxt := node\<rparr>) m3;
                    wr_node node (\<lambda>n. n\<lparr>prv := ltail L\<rparr>) m });
             wr_list l (\<lambda>L. L\<lparr>ltail := node\<rparr>) m }
           else do {
             a \<leftarrow> rd_node after_node m3;
             m \<leftarrow> wr_node node (\<lambda>n. n\<lparr>nxt := nxt a\<rparr>) m3;
             n \<leftarrow> rd_node node m;
             m \<leftarrow> wr_node (nxt n) (\<lambda>x. x\<lparr>prv := node\<rparr>) m;
             m \<leftarrow> wr_node node (\<lambda>n. n\<lparr>prv := after_node\<rparr>) m;
             wr_node after_node (\<lambda>a. a\<lparr>nxt := node\<rparr>) m });
     m5 \<leftarrow> wr_list l (\<lambda>L. L\<lparr>lsize := lsize L + 1\<rparr>) m4;
     Some (l, m5) })"

definition avs_list_append :: "addr \<Rightarrow> 'd \<Rightarrow> 'd kmem \<Rightarrow> (addr \<times> 'd kmem) option" where
  "avs_list_append l d m = avs_list_insert_after l NULL d m"

definition avs_list_prepend :: "addr \<Rightarrow> 'd \<Rightarrow> 'd kmem \<Rightarrow> (addr \<times> 'd kmem) option" where
  "avs_list_prepend l d m = do {
     L \<leftarrow> rd_list l m;
     avs_list_insert_before l (lhead L) d m }"

definition avs_list_push :: "addr \<Rightarrow> 'd \<Rightarrow> 'd kmem \<Rightarrow> (addr \<times> 'd kmem) option" where
  "avs_list_push l d m = avs_list_prepend l d m"

definition avs_list_remove :: "addr \<Rightarrow> addr \<Rightarrow> 'd kmem \<Rightarrow> (addr \<times> 'd kmem) option" where
  "avs_list_remove l node m = do {
     n \<leftarrow> rd_node node m;
     let new_next = nxt n;
     m1 \<leftarrow> (if prv n = NULL \<and> nxt n = NULL then do {
             m \<leftarrow> wr_list l (\<lambda>L. L\<lparr>lhead := NULL\<rparr>) m;
             wr_list l (\<lambda>L. L\<lparr>ltail := NULL\<rparr>) m }
           else if prv n = NULL then do {
             m \<leftarrow> wr_list l (\<lambda>L. L\<lparr>lhead := new_next\<rparr>) m;
             (if new_next \<noteq> NULL then wr_node new_next (\<lambda>x. x\<lparr>prv := NULL\<rparr>) m else Some m) }
           else if nxt n = NULL then do {
             m \<leftarrow> wr_list l (\<lambda>L. L\<lparr>ltail := prv n\<rparr>) m;
             L \<leftarrow> rd_list l m;
             wr_node (ltail L) (\<lambda>x. x\<lparr>nxt := NULL\<rparr>) m }
           else do {
             m \<leftarrow> wr_node (nxt n) (\<lambda>x. x\<lparr>prv := prv n\<rparr>) m;
             n' \<leftarrow> rd_node node m;
             wr_node (prv n') (\<lambda>x. x\<lparr>nxt := nxt n'\<rparr>) m });
     m2 \<leftarrow> wr_list l (\<lambda>L. L\<lparr>lsize := lsize L - 1\<rparr>) m1;
     Some (node, m2) }"

definition avs_list_pop :: "addr \<Rightarrow> 'd kmem \<Rightarrow> ('d option \<times> 'd kmem) option" where
  "avs_list_pop l m = do {
     L \<leftarrow> rd_list l m;
     if lhead L = NULL then Some (None, m)
     else do {
       (node, m1) \<leftarrow> avs_list_remove l (lhead L) m;
       n \<leftarrow> rd_node node m1;
       m2 \<leftarrow> free_node node m1;
       Some (Some (node_data n), m2) } }"

primrec node_walk :: "nat \<Rightarrow> addr \<Rightarrow> 'd kmem \<Rightarrow> addr option" where
  "node_walk 0 a m = Some a"
| "node_walk (Suc i) a m = do { n \<leftarrow> rd_node a m; node_walk i (nxt n) m }"

definition avs_list_at_index_node :: "addr \<Rightarrow> int \<Rightarrow> 'd kmem \<Rightarrow> addr option" where
  "avs_list_at_index_node l index m = do {
     L \<leftarrow> rd_list l m;
     if index > lsize L - 1 then Some NULL
     else if index < 0 then Some NULL
     else node_walk (nat index) (lhead L) m }"

definition avs_list_at_index_data :: "addr \<Rightarrow> int \<Rightarrow> 'd kmem \<Rightarrow> 'd option option" where
  "avs_list_at_index_data l index m = do {
     node \<leftarrow> avs_list_at_index_node l index m;
     if node = NULL then Some None
     else do { n \<leftarrow> rd_node node m; Some (Some (node_data n)) } }"

definition avs_list_free :: "addr \<Rightarrow> addr \<Rightarrow> 'd kmem \<Rightarrow> (addr \<times> 'd kmem) option" where
  "avs_list_free l node m = do {
     (r, m1) \<leftarrow> avs_list_remove l node m;
     if r \<noteq> NULL then do { m2 \<leftarrow> free_node node m1; Some (l, m2) }
     else Some (NULL, m1) }"

partial_function (option) for_each_from ::
    "(addr \<Rightarrow> 'd kmem \<Rightarrow> 'c \<Rightarrow> ('d kmem \<times> 'c) option) \<Rightarrow> addr \<Rightarrow> addr \<Rightarrow> int \<Rightarrow>
     'd kmem \<Rightarrow> 'c \<Rightarrow> ('d kmem \<times> 'c) option" where
  "for_each_from cb l n i m c = do {
     L \<leftarrow> rd_list l m;
     if i < lsize L then do {
       (m1, c1) \<leftarrow> cb n m c;
       x \<leftarrow> rd_node n m1;
       for_each_from cb l (nxt x) (i + 1) m1 c1 }
     else Some (m, c) }"

definition avs_list_for_each ::
    "(addr \<Rightarrow> 'd kmem \<Rightarrow> 'c \<Rightarrow> ('d kmem \<times> 'c) option) \<Rightarrow> addr \<Rightarrow> 'd kmem \<Rightarrow> 'c \<Rightarrow>
     ('d kmem \<times> 'c) option" where
  "avs_list_for_each cb l m c =
     (if l = NULL then Some (m, c)
      else do { L \<leftarrow> rd_list l m; for_each_from cb l (lhead L) 0 m c })"

primrec find_from :: "('e \<Rightarrow> 'd \<Rightarrow> int) \<Rightarrow> 'e \<Rightarrow> nat \<Rightarrow> addr \<Rightarrow> 'd kmem \<Rightarrow> addr option" where
  "find_from cmp key 0 n m = Some NULL"
| "find_from cmp key (Suc k) n m = do {
     x \<leftarrow> rd_node n m;
     if cmp key (node_data x) = 0 then Some n else find_from cmp key k (nxt x) m }"

definition avs_list_find_data :: "('e \<Rightarrow> 'd \<Rightarrow> int) \<Rightarrow> addr \<Rightarrow> 'e \<Rightarrow> 'd kmem \<Rightarrow> addr option" where
  "avs_list_find_data cmp l key m =
     (if l = NULL then Some NULL
      else do { L \<leftarrow> rd_list l m; find_from cmp key (nat (lsize L)) (lhead L) m })"

partial_function (option) empty_loop :: "addr \<Rightarrow> 'd kmem \<Rightarrow> 'd kmem option" where
  "empty_loop l m = do {
     L \<leftarrow> rd_list l m;
     if lhead L \<noteq> NULL then do {
       (r, m1) \<leftarrow> avs_list_free l (lhead L) m;
       empty_loop l m1 }
     else Some m }"

definition avs_list_empty :: "addr \<Rightarrow> 'd kmem \<Rightarrow> 'd kmem option" where
  "avs_list_empty l m = do {
     m1 \<leftarrow> empty_loop l m;
     wr_list l (\<lambda>L. L\<lparr>lsize := 0\<rparr>) m1 }"

definition avs_list_enqueue :: "addr \<Rightarrow> 'd \<Rightarrow> 'd kmem \<Rightarrow> (addr \<times> 'd kmem) option" where
  "avs_list_enqueue l d m = (if l = NULL then Some (NULL, m) else avs_list_prepend l d m)"

definition avs_list_dequeue :: "addr \<Rightarrow> 'd kmem \<Rightarrow> ('d option \<times> 'd kmem) option" where
  "avs_list_dequeue l m =
     (if l = NULL then Some (None, m)
      else do {
        L \<leftarrow> rd_list l m;
        (node, m1) \<leftarrow> avs_list_remove l (ltail L) m;
        n \<leftarrow> rd_node node m1;
        m2 \<leftarrow> free_node node m1;
        Some (Some (node_data n), m2) })"

section \<open>Representation\<close>

primrec first :: "addr \<Rightarrow> (addr \<times> 'd) list \<Rightarrow> addr" where
  "first nx [] = nx"
| "first nx (x # xs) = fst x"

primrec final :: "addr \<Rightarrow> (addr \<times> 'd) list \<Rightarrow> addr" where
  "final pv [] = pv"
| "final pv (x # xs) = final (fst x) xs"

primrec dseg :: "(addr \<rightharpoonup> 'd avs_node) \<Rightarrow> addr \<Rightarrow> addr \<Rightarrow> (addr \<times> 'd) list \<Rightarrow> bool" where
  "dseg h pv nx [] = True"
| "dseg h pv nx (x # xs) =
     (h (fst x) = Some \<lparr>nxt = first nx xs, prv = pv, node_data = snd x\<rparr> \<and> dseg h (fst x) nx xs)"

definition lrep :: "'d kmem \<Rightarrow> addr \<Rightarrow> (addr \<times> 'd) list \<Rightarrow> bool" where
  "lrep m l ns \<longleftrightarrow> store_wf (lists m) \<and> store_wf (nodes m)
     \<and> cells (lists m) l = Some \<lparr>lhead = first NULL ns, ltail = final NULL ns, lsize = int (length ns)\<rparr>
     \<and> distinct (map fst ns) \<and> dseg (cells (nodes m)) NULL NULL ns"

definition same_elsewhere :: "addr \<Rightarrow> addr set \<Rightarrow> 'd kmem \<Rightarrow> 'd kmem \<Rightarrow> bool" where
  "same_elsewhere l A m m' \<longleftrightarrow>
     (\<forall>k. k \<noteq> l \<longrightarrow> cells (lists m') k = cells (lists m) k)
     \<and> (\<forall>a. a \<notin> A \<longrightarrow> cells (nodes m') a = cells (nodes m) a)"

lemma first_append [simp]: "first nx (xs @ ys) = first (first nx ys) xs"
  by (cases xs) auto

lemma final_append [simp]: "final pv (xs @ ys) = final (final pv xs) ys"
  by (induction xs arbitrary: pv) auto

lemma dseg_append [simp]:
  "dseg h pv nx (xs @ ys) \<longleftrightarrow> dseg h pv (first nx ys) xs \<and> dseg h (final pv xs) nx ys"
  by (induction xs arbitrary: pv) auto

lemma dseg_frame [simp]: "a \<notin> fst ` set ns \<Longrightarrow> dseg (h(a := v)) pv nx ns = dseg h pv nx ns"
  by (induction ns arbitrary: pv) auto

lemma dseg_cong: "(\<And>a. a \<in> fst ` set ns \<Longrightarrow> h' a = h a) \<Longrightarrow> dseg h' pv nx ns = dseg h pv nx ns"
  by (induction ns arbitrary: pv) auto

lemma dseg_live: "dseg h pv nx ns \<Longrightarrow> a \<in> fst ` set ns \<Longrightarrow> h a \<noteq> None"
  by (induction ns arbitrary: pv) auto

lemma first_in: "ns \<noteq> [] \<Longrightarrow> first nx ns \<in> fst ` set ns"
  by (cases ns) auto

lemma final_snoc: "ns \<noteq> [] \<Longrightarrow> final pv ns = fst (last ns)"
  by (induction ns arbitrary: pv) auto

lemma lrep_nonnull: "lrep m l ns \<Longrightarrow> NULL \<notin> fst ` set ns"
  using dseg_live by (fastforce simp: lrep_def)

lemma lrep_list_nonnull: "lrep m l ns \<Longrightarrow> l \<noteq> NULL"
  by (auto simp: lrep_def)

lemma lrep_first_null [simp]: "lrep m l ns \<Longrightarrow> first NULL ns = NULL \<longleftrightarrow> ns = []"
  using lrep_nonnull first_in by (metis first.simps(1))

lemma lrep_final_null [simp]: "lrep m l ns \<Longrightarrow> final NULL ns = NULL \<longleftrightarrow> ns = []"
  using lrep_nonnull by (metis final.simps(1) final_snoc imageI last_in_set)

lemma lrep_frame:
  assumes "lrep m l' ns" "same_elsewhere l A m m'" "l' \<noteq> l" "A \<inter> fst ` set ns = {}"
    and "store_wf (lists m')" "store_wf (nodes m')"
  shows "lrep m' l' ns"
proof -
  have "dseg (cells (nodes m')) NULL NULL ns = dseg (cells (nodes m)) NULL NULL ns"
    using assms(2,4) by (intro dseg_cong) (auto simp: same_elsewhere_def)
  with assms show ?thesis by (simp add: lrep_def same_elsewhere_def)
qed

lemma new_node_some:
  "avail (nodes m) = (a, v) # rest \<Longrightarrow>
    new_node m = (a, m\<lparr>nodes := (nodes m)\<lparr>cells := (cells (nodes m))(a \<mapsto> v), avail := rest\<rparr>\<rparr>)"
  by (simp add: new_node_def store_simps)

lemma new_node_none: "avail (nodes m) = [] \<Longrightarrow> new_node m = (NULL, m)"
  by (simp add: new_node_def store_simps)

lemma wr_node_live [store_simps]:
  "cells (nodes m) a = Some v \<Longrightarrow>
    wr_node a f m = Some (m\<lparr>nodes := (nodes m)\<lparr>cells := (cells (nodes m))(a \<mapsto> f v)\<rparr>\<rparr>)"
  by (simp add: wr_node_def store_simps)

lemma wr_node_dead [store_simps]: "cells (nodes m) a = None \<Longrightarrow> wr_node a f m = None"
  by (simp add: wr_node_def store_simps)

lemma wr_list_live [store_simps]:
  "cells (lists m) a = Some v \<Longrightarrow>
    wr_list a f m = Some (m\<lparr>lists := (lists m)\<lparr>cells := (cells (lists m))(a \<mapsto> f v)\<rparr>\<rparr>)"
  by (simp add: wr_list_def store_simps)

lemma rd_node_simp [store_simps]: "rd_node a m = cells (nodes m) a"
  by (simp add: rd_node_def store_simps)

lemma rd_list_simp [store_simps]: "rd_list a m = cells (lists m) a"
  by (simp add: rd_list_def store_simps)

lemma free_node_live [store_simps]:
  "cells (nodes m) a = Some v \<Longrightarrow>
    free_node a m = Some (m\<lparr>nodes := (nodes m)\<lparr>cells := (cells (nodes m))(a := None),
      avail := avail (nodes m) @ [(a, v)]\<rparr>\<rparr>)"
  by (simp add: free_node_def store_simps)


section \<open>What the operations do to the represented list\<close>

definition fits :: "'d kmem \<Rightarrow> 'd kmem \<Rightarrow> addr \<Rightarrow> (addr \<times> 'd) list \<Rightarrow> (addr \<times> 'd) list \<Rightarrow> bool" where
  "fits m m' l ns ns' \<longleftrightarrow>
     lrep m' l ns' \<and> same_elsewhere l (fst ` set ns \<union> fst ` set ns') m m'
     \<and> (\<forall>a \<in> fst ` set ns' - fst ` set ns. cells (nodes m) a = None)
     \<and> avail (lists m') = avail (lists m)"

lemma lrep_fresh:
  assumes "lrep m l ns" "avail (nodes m) = (a, v) # rest"
  shows "a \<noteq> NULL" "cells (nodes m) a = None" "a \<notin> fst ` set ns"
proof -
  show a: "a \<noteq> NULL" "cells (nodes m) a = None"
    using assms store_wf_supply [of "nodes m" a v rest] by (simp_all add: lrep_def)
  show "a \<notin> fst ` set ns" using assms a(2) dseg_live by (fastforce simp: lrep_def)
qed

lemma alloc_wf_cells:
  assumes "store_wf s" "avail s = (a, v) # rest" "\<And>b. h b \<noteq> None \<Longrightarrow> b = a \<or> cells s b \<noteq> None"
  shows "store_wf (s\<lparr>cells := h, avail := rest\<rparr>)"
  using assms by (auto simp: store_wf_def) force+

lemma alloc_wf_cells':
  assumes "store_wf s" "avail s = (a, v) # rest" "\<And>b. h b \<noteq> None \<Longrightarrow> b = a \<or> cells s b \<noteq> None"
  shows "store_wf (s\<lparr>avail := rest, cells := h\<rparr>)"
  using assms by (auto simp: store_wf_def) force+

lemma update_wf_cells:
  assumes "store_wf s" "\<And>b. h b \<noteq> None \<Longrightarrow> cells s b \<noteq> None"
  shows "store_wf (s\<lparr>cells := h\<rparr>)"
  using assms by (auto simp: store_wf_def) force+

lemma insert_before_head:
  assumes r: "lrep m l ns" and s: "avail (nodes m) = (a, v) # rest"
  shows "\<exists>m'. avs_list_insert_before l (first NULL ns) d m = Some (l, m')
            \<and> fits m m' l ns ((a, d) # ns) \<and> avail (nodes m') = rest"
proof (cases ns)
  note a = lrep_fresh [OF r s]
  case Nil
  then show ?thesis using r s a(1,2)
    by (auto simp: lrep_def avs_list_insert_before_def new_node_some store_simps fits_def
        same_elsewhere_def intro!: store_wf_update_cell alloc_wf_cells alloc_wf_cells' split: if_splits)
next
  note a = lrep_fresh [OF r s]
  case (Cons x xs)
  have fx: "fst x \<noteq> NULL" using lrep_nonnull [OF r] Cons by auto
  have tl: "final (fst x) xs \<noteq> NULL" using lrep_final_null [OF r] Cons by auto
  show ?thesis using r s a Cons fx tl
    by (auto simp: lrep_def avs_list_insert_before_def new_node_some store_simps fits_def
        same_elsewhere_def fun_upd_twist intro!: store_wf_update_cell alloc_wf_cells alloc_wf_cells' split: if_splits)
qed

lemma insert_after_tail:
  assumes r: "lrep m l ns" and s: "avail (nodes m) = (a, v) # rest"
    and t: "t = NULL \<or> t = final NULL ns"
  shows "\<exists>m'. avs_list_insert_after l t d m = Some (l, m')
            \<and> fits m m' l ns (ns @ [(a, d)]) \<and> avail (nodes m') = rest"
proof (cases ns rule: rev_cases)
  note a = lrep_fresh [OF r s]
  case Nil
  then show ?thesis using r s t a(1,2)
    by (auto simp: lrep_def avs_list_insert_after_def new_node_some store_simps fits_def
        same_elsewhere_def intro!: store_wf_update_cell alloc_wf_cells alloc_wf_cells' split: if_splits)
next
  note a = lrep_fresh [OF r s]
  case (snoc xs x)
  have fx: "fst x \<noteq> NULL" using lrep_nonnull [OF r] snoc by auto
  show ?thesis using r s t a snoc fx
    by (auto simp: lrep_def avs_list_insert_after_def new_node_some store_simps fits_def
        same_elsewhere_def fun_upd_twist intro!: store_wf_update_cell alloc_wf_cells alloc_wf_cells' split: if_splits)
qed

lemma insert_after_mid:
  assumes r: "lrep m l (xs @ (b, e) # y # ys)" and s: "avail (nodes m) = (a, v) # rest"
  shows "\<exists>m'. avs_list_insert_after l b d m = Some (l, m')
            \<and> fits m m' l (xs @ (b, e) # y # ys) (xs @ (b, e) # (a, d) # y # ys)
            \<and> avail (nodes m') = rest"
proof -
  note a = lrep_fresh [OF r s]
  have ax: "a \<notin> fst ` set xs" "a \<notin> fst ` set ys" using a(3) by auto
  have fx: "b \<noteq> NULL" using lrep_nonnull [OF r] by auto
  have tl: "b \<noteq> final (fst y) ys" using r
    by (cases ys rule: rev_cases) (auto simp: lrep_def)
  show ?thesis using r s a ax fx tl
    by (auto simp: lrep_def avs_list_insert_after_def new_node_some store_simps fits_def
        same_elsewhere_def fun_upd_twist intro!: store_wf_update_cell alloc_wf_cells alloc_wf_cells' split: if_splits)
qed

lemma insert_before_mid:
  assumes r: "lrep m l (xs @ x # (b, e) # ys)" and s: "avail (nodes m) = (a, v) # rest"
  shows "\<exists>m'. avs_list_insert_before l b d m = Some (l, m')
            \<and> fits m m' l (xs @ x # (b, e) # ys) (xs @ x # (a, d) # (b, e) # ys)
            \<and> avail (nodes m') = rest"
proof -
  note a = lrep_fresh [OF r s]
  have ax: "a \<notin> fst ` set xs" "a \<notin> fst ` set ys" using a(3) by auto
  have fx: "b \<noteq> NULL" "fst x \<noteq> NULL" using lrep_nonnull [OF r] by auto
  have hd: "b \<noteq> first (fst x) xs" using r
    by (cases xs) (auto simp: lrep_def)
  show ?thesis using r s a ax fx hd
    by (auto simp: lrep_def avs_list_insert_before_def new_node_some store_simps fits_def
        same_elsewhere_def fun_upd_twist intro!: store_wf_update_cell alloc_wf_cells alloc_wf_cells' split: if_splits)
qed

lemma list_remove:
  assumes r: "lrep m l (xs @ (a, d) # ys)"
  shows "\<exists>m' n. avs_list_remove l a m = Some (a, m')
            \<and> fits m m' l (xs @ (a, d) # ys) (xs @ ys) \<and> avail (nodes m') = avail (nodes m)
            \<and> cells (nodes m') a = Some n \<and> node_data n = d"
proof -
  have nn: "NULL \<notin> fst ` set (xs @ (a, d) # ys)" using lrep_nonnull [OF r] .
  show ?thesis
  proof (cases xs rule: rev_cases)
    case Nil
    show ?thesis
    proof (cases ys)
      case Nil
      then show ?thesis using r \<open>xs = []\<close> nn
        by (auto simp: Let_def lrep_def avs_list_remove_def store_simps fits_def same_elsewhere_def
            intro!: store_wf_update_cell)
    next
      case (Cons y zs)
      then show ?thesis using r \<open>xs = []\<close> nn
        by (auto simp: Let_def lrep_def avs_list_remove_def store_simps fits_def same_elsewhere_def
            intro!: store_wf_update_cell)
    qed
  next
    case (snoc us u)
    show ?thesis
    proof (cases ys)
      case Nil
      then show ?thesis using r snoc nn
        by (auto simp: Let_def lrep_def avs_list_remove_def store_simps fits_def same_elsewhere_def
            intro!: store_wf_update_cell)
    next
      case (Cons y zs)
      then show ?thesis using r snoc nn
        by (auto simp: Let_def lrep_def avs_list_remove_def store_simps fits_def same_elsewhere_def
            fun_upd_twist intro!: store_wf_update_cell update_wf_cells split: if_splits)
    qed
  qed
qed

lemma fits_lrep: "fits m m' l ns ns' \<Longrightarrow> lrep m' l ns'"
  by (simp add: fits_def)

lemma lrep_rd_list:
  "lrep m l ns \<Longrightarrow> cells (lists m) l =
     Some \<lparr>lhead = first NULL ns, ltail = final NULL ns, lsize = int (length ns)\<rparr>"
  by (simp add: lrep_def)

lemma lrep_wf: "lrep m l ns \<Longrightarrow> store_wf (nodes m)" "lrep m l ns \<Longrightarrow> store_wf (lists m)"
  by (simp_all add: lrep_def)

lemma list_prepend:
  assumes "lrep m l ns" "avail (nodes m) = (a, v) # rest"
  shows "\<exists>m'. avs_list_prepend l d m = Some (l, m')
            \<and> fits m m' l ns ((a, d) # ns) \<and> avail (nodes m') = rest"
  using insert_before_head [OF assms] lrep_rd_list [OF assms(1)]
  by (simp add: avs_list_prepend_def store_simps)

lemma list_append:
  assumes "lrep m l ns" "avail (nodes m) = (a, v) # rest"
  shows "\<exists>m'. avs_list_append l d m = Some (l, m')
            \<and> fits m m' l ns (ns @ [(a, d)]) \<and> avail (nodes m') = rest"
  using insert_after_tail [OF assms, of NULL] by (simp add: avs_list_append_def)

lemma free_removed:
  assumes f: "fits m m1 l (xs @ (a, d) # ys) (xs @ ys)" and n: "cells (nodes m1) a = Some n"
    and r: "lrep m l (xs @ (a, d) # ys)"
  shows "\<exists>m2. free_node a m1 = Some m2 \<and> fits m m2 l (xs @ (a, d) # ys) (xs @ ys)
           \<and> cells (nodes m2) a = None \<and> avail (nodes m2) = avail (nodes m1) @ [(a, n)]"
proof -
  have "a \<notin> fst ` set xs" "a \<notin> fst ` set ys" using r by (auto simp: lrep_def)
  then show ?thesis using f n
    by (auto simp: fits_def lrep_def same_elsewhere_def store_simps intro: store_wf_free)
qed

lemma list_free:
  assumes r: "lrep m l (xs @ (a, d) # ys)"
  shows "\<exists>m' n. avs_list_free l a m = Some (l, m')
           \<and> fits m m' l (xs @ (a, d) # ys) (xs @ ys)
           \<and> cells (nodes m') a = None \<and> avail (nodes m') = avail (nodes m) @ [(a, n)]"
proof -
  obtain m1 n where 1: "avs_list_remove l a m = Some (a, m1)"
      "fits m m1 l (xs @ (a, d) # ys) (xs @ ys)" "avail (nodes m1) = avail (nodes m)"
      "cells (nodes m1) a = Some n"
    using list_remove [OF r] by blast
  have "a \<noteq> NULL" using lrep_nonnull [OF r] by auto
  then show ?thesis using free_removed [OF 1(2,4) r] 1 by (auto simp: avs_list_free_def)
qed

lemma list_pop:
  assumes r: "lrep m l ((a, d) # ys)"
  shows "\<exists>m' n. avs_list_pop l m = Some (Some d, m') \<and> fits m m' l ((a, d) # ys) ys
           \<and> cells (nodes m') a = None \<and> avail (nodes m') = avail (nodes m) @ [(a, n)]"
proof -
  obtain m1 n where 1: "avs_list_remove l a m = Some (a, m1)"
      "fits m m1 l ((a, d) # ys) ys" "avail (nodes m1) = avail (nodes m)"
      "cells (nodes m1) a = Some n" "node_data n = d"
    using list_remove [of m l "[]" a d ys] r by auto
  have "a \<noteq> NULL" using lrep_nonnull [OF r] by auto
  then show ?thesis using free_removed [of m m1 l "[]" a d ys n] r 1 lrep_rd_list [OF r]
    by (auto simp: avs_list_pop_def store_simps)
qed

lemma list_pop_empty: "lrep m l [] \<Longrightarrow> avs_list_pop l m = Some (None, m)"
  by (simp add: avs_list_pop_def store_simps lrep_rd_list)

lemma list_dequeue:
  assumes r: "lrep m l (ys @ [(a, d)])"
  shows "\<exists>m' n. avs_list_dequeue l m = Some (Some d, m') \<and> fits m m' l (ys @ [(a, d)]) ys
           \<and> cells (nodes m') a = None \<and> avail (nodes m') = avail (nodes m) @ [(a, n)]"
proof -
  obtain m1 n where 1: "avs_list_remove l a m = Some (a, m1)"
      "fits m m1 l (ys @ [(a, d)]) ys" "avail (nodes m1) = avail (nodes m)"
      "cells (nodes m1) a = Some n" "node_data n = d"
    using list_remove [of m l ys a d "[]"] r by auto
  show ?thesis using free_removed [of m m1 l ys a d "[]" n] r 1 lrep_rd_list [OF r]
      lrep_list_nonnull [OF r]
    by (auto simp: avs_list_dequeue_def store_simps)
qed

lemma list_dequeue_empty: "lrep m l [] \<Longrightarrow> avs_list_dequeue l m = None"
  using lrep_list_nonnull [of m l "[]"] lrep_rd_list [of m l "[]"] lrep_wf [of m l "[]"]
  by (simp add: avs_list_dequeue_def avs_list_remove_def store_simps)

lemma list_enqueue_full:
  assumes "lrep m l ns" "avail (nodes m) = []"
  shows "avs_list_enqueue l d m = None"
  using assms lrep_list_nonnull [OF assms(1)] lrep_wf [OF assms(1)] lrep_rd_list [OF assms(1)]
  by (simp add: avs_list_enqueue_def avs_list_prepend_def avs_list_insert_before_def
      new_node_none store_simps)

lemma node_walk_dseg:
  "dseg (cells (nodes m)) pv nx ns \<Longrightarrow> i < length ns \<Longrightarrow>
     node_walk i (first nx ns) m = Some (fst (ns ! i))"
proof (induction i arbitrary: ns pv)
  case 0 then show ?case by (cases ns) auto
next
  case (Suc i) then show ?case by (cases ns) (auto simp: store_simps)
qed

lemma at_index_node:
  assumes "lrep m l ns"
  shows "avs_list_at_index_node l i m =
           Some (if 0 \<le> i \<and> i < int (length ns) then fst (ns ! nat i) else NULL)"
  using assms node_walk_dseg [of m NULL NULL ns "nat i"]
  by (auto simp: avs_list_at_index_node_def store_simps lrep_def)

lemma dseg_data:
  "dseg h pv nx ns \<Longrightarrow> (a, d) \<in> set ns \<Longrightarrow> \<exists>n. h a = Some n \<and> node_data n = d"
  by (induction ns arbitrary: pv) auto

lemma at_index_data:
  assumes r: "lrep m l ns"
  shows "avs_list_at_index_data l i m =
           Some (if 0 \<le> i \<and> i < int (length ns) then Some (snd (ns ! nat i)) else None)"
proof (cases "0 \<le> i \<and> i < int (length ns)")
  case True
  then have "ns ! nat i \<in> set ns" by (intro nth_mem) linarith
  moreover from this have "fst (ns ! nat i) \<noteq> NULL" using lrep_nonnull [OF r] by force
  ultimately show ?thesis using True r
      dseg_data [of "cells (nodes m)" NULL NULL ns "fst (ns ! nat i)" "snd (ns ! nat i)"]
    by (auto simp: avs_list_at_index_data_def at_index_node [OF r] store_simps lrep_def)
next
  case False
  then show ?thesis by (auto simp: avs_list_at_index_data_def at_index_node [OF r])
qed

lemma find_from_dseg:
  "dseg (cells (nodes m)) pv nx ns \<Longrightarrow>
     find_from cmp key (length ns) (first nx ns) m =
       Some (case List.find (\<lambda>p. cmp key (snd p) = 0) ns of None \<Rightarrow> NULL | Some p \<Rightarrow> fst p)"
  by (induction ns arbitrary: pv) (auto simp: store_simps)

lemma find_data:
  assumes r: "lrep m l ns"
  shows "avs_list_find_data cmp l key m =
       Some (case List.find (\<lambda>p. cmp key (snd p) = 0) ns of None \<Rightarrow> NULL | Some p \<Rightarrow> fst p)"
  using lrep_list_nonnull [OF r] r find_from_dseg [of m NULL NULL ns cmp key]
  by (simp add: avs_list_find_data_def store_simps lrep_def)

lemma for_each_seg:
  assumes "dseg (cells (nodes m)) pv NULL ns" "rd_list l m = Some L" "lsize L = i + int (length ns)"
    and "\<And>p c. p \<in> set ns \<Longrightarrow> cb (fst p) m c = Some (m, g c p)"
  shows "for_each_from cb l (first NULL ns) i m c = Some (m, foldl g c ns)"
  using assms
proof (induction ns arbitrary: pv i c)
  case Nil
  then show ?case by (subst for_each_from.simps) simp
next
  case (Cons x xs)
  then have "for_each_from cb l (first NULL xs) (i + 1) m (g c x) = Some (m, foldl g (g c x) xs)"
    by (intro Cons.IH) auto
  with Cons.prems show ?case by (subst for_each_from.simps) (simp add: store_simps)
qed

lemma for_each_fold:
  assumes r: "lrep m l ns" and cb: "\<And>p c. p \<in> set ns \<Longrightarrow> cb (fst p) m c = Some (m, g c p)"
  shows "avs_list_for_each cb l m c = Some (m, foldl g c ns)"
  using lrep_list_nonnull [OF r] r cb for_each_seg [of m NULL ns l _ 0 cb g c]
  by (simp add: avs_list_for_each_def store_simps lrep_def)

lemma fits_trans:
  assumes "fits m m1 l ns ns1" "fits m1 m2 l ns1 ns2" "fst ` set ns1 \<subseteq> fst ` set ns"
    "fst ` set ns2 \<subseteq> fst ` set ns1"
  shows "fits m m2 l ns ns2"
proof -
  have sub: "fst ` set ns2 \<subseteq> fst ` set ns" using assms(3,4) by blast
  have "cells (nodes m2) a = cells (nodes m) a" if "a \<notin> fst ` set ns" for a
  proof -
    have "a \<notin> fst ` set ns1" "a \<notin> fst ` set ns2" using that assms(3) sub by blast+
    then show ?thesis using assms(1,2) that by (simp add: fits_def same_elsewhere_def)
  qed
  then show ?thesis using assms(1,2) sub by (simp add: fits_def same_elsewhere_def Diff_eq_empty_iff [THEN iffD2])
qed

lemma empty_loop_returns:
  "lrep m l ns \<Longrightarrow> \<exists>m'. empty_loop l m = Some m' \<and> fits m m' l ns []
     \<and> map fst (avail (nodes m')) = map fst (avail (nodes m)) @ map fst ns"
proof (induction ns arbitrary: m)
  case Nil
  then show ?case
    by (subst empty_loop.simps) (auto simp: store_simps lrep_rd_list fits_def same_elsewhere_def)
next
  case (Cons x ns)
  obtain m1 n where 1: "avs_list_free l (fst x) m = Some (l, m1)" "fits m m1 l (x # ns) ns"
      "avail (nodes m1) = avail (nodes m) @ [(fst x, n)]"
    using list_free [of m l "[]" "fst x" "snd x" ns] Cons.prems by auto
  obtain m2 where 2: "empty_loop l m1 = Some m2" "fits m1 m2 l ns []"
      "map fst (avail (nodes m2)) = map fst (avail (nodes m1)) @ map fst ns"
    using Cons.IH [OF fits_lrep [OF 1(2)]] by blast
  have h: "lhead \<lparr>lhead = first NULL (x # ns), ltail = final NULL (x # ns), lsize = int (length (x # ns))\<rparr>
      \<noteq> NULL" using lrep_nonnull [OF Cons.prems] by auto
  have "empty_loop l m = Some m2"
    using lrep_rd_list [OF Cons.prems] h 1(1) 2(1) by (subst empty_loop.simps) (simp add: store_simps)
  then show ?case using fits_trans [OF 1(2) 2(2)] 1(3) 2(3) by auto
qed

lemma list_empty:
  assumes "lrep m l ns"
  shows "\<exists>m'. avs_list_empty l m = Some m' \<and> fits m m' l ns []
     \<and> map fst (avail (nodes m')) = map fst (avail (nodes m)) @ map fst ns"
  using empty_loop_returns [OF assms]
  by (auto simp: avs_list_empty_def store_simps lrep_def fits_def same_elsewhere_def
      intro: store_wf_update_cell)

lemma list_init:
  assumes "store_wf (lists m)" "store_wf (nodes m)" "avail (lists m) = (l, v) # rest"
  shows "\<exists>m'. avs_list_init m = Some (l, m') \<and> lrep m' l [] \<and> nodes m' = nodes m
           \<and> (\<forall>k. k \<noteq> l \<longrightarrow> cells (lists m') k = cells (lists m) k)"
  using assms store_wf_supply [of "lists m" l v rest]
  by (auto simp: avs_list_init_def store_simps lrep_def intro!: alloc_wf_cells')

text \<open>
  A NULL node given to the insertion before a node resets both ends of the
  list to the new node, whatever the list held: the old nodes stay allocated
  and unreachable, while the size goes on counting them.
\<close>

lemma insert_before_null:
  assumes r: "lrep m l ns" and s: "avail (nodes m) = (a, v) # rest"
  shows "\<exists>m'. avs_list_insert_before l NULL d m = Some (l, m')
      \<and> rd_list l m' = Some \<lparr>lhead = a, ltail = a, lsize = int (length ns) + 1\<rparr>
      \<and> dseg (cells (nodes m')) NULL NULL [(a, d)]
      \<and> (\<forall>b \<in> fst ` set ns. rd_node b m' \<noteq> None)"
proof -
  have "cells (nodes m) b \<noteq> None" if "b \<in> fst ` set ns" for b
    using r that dseg_live by (fastforce simp: lrep_def)
  then show ?thesis using r s lrep_fresh [OF r s]
    by (auto simp: lrep_def avs_list_insert_before_def new_node_some store_simps)
qed


section \<open>Several lists in one memory\<close>

text \<open>
  An abstract memory maps the address of each list header to the (node, data)
  pairs of that list, no node in two lists. An operation that fits a list
  leaves the abstract memory as it was at every other header.
\<close>

definition lists_rep :: "'d kmem \<Rightarrow> (addr \<rightharpoonup> (addr \<times> 'd) list) \<Rightarrow> bool" where
  "lists_rep m Ls \<longleftrightarrow> (\<forall>l ns. Ls l = Some ns \<longrightarrow> lrep m l ns)
     \<and> (\<forall>l k ns ks. l \<noteq> k \<longrightarrow> Ls l = Some ns \<longrightarrow> Ls k = Some ks \<longrightarrow>
          fst ` set ns \<inter> fst ` set ks = {})"

lemma lrep_nodes_live: "lrep m l ns \<Longrightarrow> a \<in> fst ` set ns \<Longrightarrow> cells (nodes m) a \<noteq> None"
  unfolding lrep_def using dseg_live by metis

lemma lists_rep_fits:
  assumes R: "lists_rep m Ls" and l: "Ls l = Some ns" and f: "fits m m' l ns ns'"
  shows "lists_rep m' (Ls(l \<mapsto> ns'))"
proof -
  have dis: "fst ` set ks \<inter> (fst ` set ns \<union> fst ` set ns') = {}"
    if k: "k \<noteq> l" "Ls k = Some ks" for k ks
  proof -
    have 1: "fst ` set ks \<inter> fst ` set ns = {}" and 2: "lrep m k ks"
      using R l k by (auto simp: lists_rep_def)
    have "a \<notin> fst ` set ns'" if "a \<in> fst ` set ks" for a
    proof
      assume "a \<in> fst ` set ns'"
      then have "a \<in> fst ` set ns' - fst ` set ns" using 1 that by blast
      then show False using lrep_nodes_live [OF 2 that] f by (simp add: fits_def)
    qed
    with 1 show ?thesis by auto
  qed
  have "lrep m' k ks" if k: "k \<noteq> l" "Ls k = Some ks" for k ks
  proof (rule lrep_frame [of m k ks l "fst ` set ns \<union> fst ` set ns'" m'])
    show "lrep m k ks" using R k by (simp add: lists_rep_def)
    show "(fst ` set ns \<union> fst ` set ns') \<inter> fst ` set ks = {}" using dis [OF k] by auto
  qed (use f k in \<open>auto simp: fits_def lrep_def\<close>)
  moreover have "fst ` set ks \<inter> fst ` set ns' = {} \<and> fst ` set ns' \<inter> fst ` set ks = {}"
    if "k \<noteq> l" "Ls k = Some ks" for k ks using dis [OF that] by blast
  ultimately have k: "k \<noteq> l \<Longrightarrow> Ls k = Some ks \<Longrightarrow>
      lrep m' k ks \<and> fst ` set ks \<inter> fst ` set ns' = {} \<and> fst ` set ns' \<inter> fst ` set ks = {}" for k ks
    by blast
  show ?thesis unfolding lists_rep_def
  proof (intro conjI allI impI)
    show "lrep m' k ks" if "(Ls(l \<mapsto> ns')) k = Some ks" for k ks
      using that k fits_lrep [OF f] by (cases "k = l") auto
  next
    fix i j xs ys
    assume "i \<noteq> j" "(Ls(l \<mapsto> ns')) i = Some xs" "(Ls(l \<mapsto> ns')) j = Some ys"
    then show "fst ` set xs \<inter> fst ` set ys = {}"
      using k R by (cases "i = l"; cases "j = l") (simp_all add: lists_rep_def)
  qed
qed

datatype 'd list_op =
    Append addr 'd
  | Prepend addr 'd
  | Pop addr
  | Remove addr nat
  | Empty addr

text \<open>One call of the list interface, on the heap and on the abstract memory.\<close>

fun run_list_op :: "'d list_op \<Rightarrow> 'd kmem \<Rightarrow> 'd kmem option" where
  "run_list_op (Append l d) m = map_option snd (avs_list_append l d m)"
| "run_list_op (Prepend l d) m = map_option snd (avs_list_prepend l d m)"
| "run_list_op (Pop l) m = map_option snd (avs_list_pop l m)"
| "run_list_op (Remove l i) m = do {
     n \<leftarrow> avs_list_at_index_node l (int i) m;
     map_option snd (avs_list_free l n m) }"
| "run_list_op (Empty l) m = avs_list_empty l m"

fun spec_list_op :: "'d list_op \<Rightarrow> (addr \<rightharpoonup> 'd list) \<Rightarrow> (addr \<rightharpoonup> 'd list)" where
  "spec_list_op (Append l d) M = M(l := map_option (\<lambda>ds. ds @ [d]) (M l))"
| "spec_list_op (Prepend l d) M = M(l := map_option (\<lambda>ds. d # ds) (M l))"
| "spec_list_op (Pop l) M = M(l := map_option tl (M l))"
| "spec_list_op (Remove l i) M = M(l := map_option (\<lambda>ds. take i ds @ drop (Suc i) ds) (M l))"
| "spec_list_op (Empty l) M = M(l := map_option (\<lambda>ds. []) (M l))"

fun op_enabled :: "'d list_op \<Rightarrow> (addr \<rightharpoonup> 'd list) \<Rightarrow> nat \<Rightarrow> bool" where
  "op_enabled (Append l d) M room = (M l \<noteq> None \<and> 0 < room)"
| "op_enabled (Prepend l d) M room = (M l \<noteq> None \<and> 0 < room)"
| "op_enabled (Pop l) M room = (M l \<noteq> None)"
| "op_enabled (Remove l i) M room = (case M l of None \<Rightarrow> False | Some ds \<Rightarrow> i < length ds)"
| "op_enabled (Empty l) M room = (M l \<noteq> None)"

definition contents :: "(addr \<rightharpoonup> (addr \<times> 'd) list) \<Rightarrow> addr \<rightharpoonup> 'd list" where
  "contents Ls l = map_option (map snd) (Ls l)"

lemma contents_upd: "contents (Ls(l \<mapsto> ns)) = (contents Ls)(l \<mapsto> map snd ns)"
  by (rule ext) (simp add: contents_def)

lemma list_op_refines:
  assumes R: "lists_rep m Ls" and e: "op_enabled c (contents Ls) (length (avail (nodes m)))"
  shows "\<exists>m' Ls'. run_list_op c m = Some m' \<and> lists_rep m' Ls'
           \<and> contents Ls' = spec_list_op c (contents Ls)"
proof (cases c)
  case (Append l d)
  obtain ns a v rest where 1: "Ls l = Some ns" "avail (nodes m) = (a, v) # rest"
    using e Append by (cases "avail (nodes m)") (auto simp: contents_def)
  have "lrep m l ns" using R 1 by (simp add: lists_rep_def)
  from list_append [OF this 1(2), of d] lists_rep_fits [OF R 1(1)] 1(1) Append
  show ?thesis by (fastforce simp: contents_upd contents_def)
next
  case (Prepend l d)
  obtain ns a v rest where 1: "Ls l = Some ns" "avail (nodes m) = (a, v) # rest"
    using e Prepend by (cases "avail (nodes m)") (auto simp: contents_def)
  have "lrep m l ns" using R 1 by (simp add: lists_rep_def)
  from list_prepend [OF this 1(2), of d] lists_rep_fits [OF R 1(1)] 1(1) Prepend
  show ?thesis by (fastforce simp: contents_upd contents_def)
next
  case (Pop l)
  obtain ns where 1: "Ls l = Some ns" using e Pop by (auto simp: contents_def)
  then have r: "lrep m l ns" using R by (simp add: lists_rep_def)
  show ?thesis
  proof (cases ns)
    case Nil
    then have "contents Ls = spec_list_op c (contents Ls)"
      using Pop 1 by (auto simp: contents_def)
    then show ?thesis using R r Nil Pop list_pop_empty by force
  next
    case (Cons x ys)
    from list_pop [of m l "fst x" "snd x" ys] r Cons lists_rep_fits [OF R 1] 1 Pop
    show ?thesis by (fastforce simp: contents_upd contents_def)
  qed
next
  case (Remove l i)
  obtain ns where 1: "Ls l = Some ns" and i: "i < length ns"
    using e Remove by (auto simp: contents_def split: option.splits)
  then have r: "lrep m l ns" using R by (simp add: lists_rep_def)
  define xs ys where "xs = take i ns" and "ys = drop (Suc i) ns"
  have ns: "ns = xs @ (fst (ns ! i), snd (ns ! i)) # ys"
    using i by (simp add: xs_def ys_def id_take_nth_drop [symmetric])
  obtain m' n where m': "avs_list_free l (fst (ns ! i)) m = Some (l, m')" "fits m m' l ns (xs @ ys)"
    using list_free [of m l xs "fst (ns ! i)" "snd (ns ! i)" ys] r ns by metis
  have "contents (Ls(l \<mapsto> xs @ ys)) = spec_list_op c (contents Ls)"
    using Remove 1 by (auto simp: contents_upd contents_def xs_def ys_def take_map drop_map)
  moreover have "run_list_op c m = Some m'"
    using Remove m'(1) i by (simp add: at_index_node [OF r])
  ultimately show ?thesis using lists_rep_fits [OF R 1 m'(2)] by blast
next
  case (Empty l)
  obtain ns where 1: "Ls l = Some ns" using e Empty by (auto simp: contents_def)
  then have r: "lrep m l ns" using R by (simp add: lists_rep_def)
  from list_empty [OF r] lists_rep_fits [OF R 1] 1 Empty
  show ?thesis by (fastforce simp: contents_upd contents_def)
qed

section \<open>Queues\<close>

text \<open>
  What the users of a queue rely on: the scheduler's wait queues and the
  mouse's packet queue only put elements in at one end and take them out at
  the other. rep relates the state to the queued elements, oldest first; room
  is the number of elements that can still be put in. The locale fixes the
  behaviour of both operations, at the full and at the empty queue as well.
\<close>

locale fifo_queue =
  fixes enq :: "'d \<Rightarrow> 's \<Rightarrow> 's option"
    and deq :: "'s \<Rightarrow> ('d \<times> 's) option"
    and rep :: "'s \<Rightarrow> 'd list \<Rightarrow> bool"
    and room :: "'s \<Rightarrow> nat"
  assumes enq_rep: "rep s q \<Longrightarrow> 0 < room s \<Longrightarrow>
        \<exists>s'. enq d s = Some s' \<and> rep s' (q @ [d]) \<and> room s = Suc (room s')"
    and enq_full: "rep s q \<Longrightarrow> room s = 0 \<Longrightarrow> enq d s = None"
    and deq_rep: "rep s (d # q) \<Longrightarrow>
        \<exists>s'. deq s = Some (d, s') \<and> rep s' q \<and> room s' = Suc (room s)"
    and deq_empty: "rep s [] \<Longrightarrow> deq s = None"

datatype 'd queue_op = Enq 'd | Deq

fun run_queue :: "('d \<Rightarrow> 's \<Rightarrow> 's option) \<Rightarrow> ('s \<Rightarrow> ('d \<times> 's) option) \<Rightarrow>
    'd queue_op list \<Rightarrow> 's \<Rightarrow> ('d list \<times> 's) option" where
  "run_queue enq deq [] s = Some ([], s)"
| "run_queue enq deq (Enq d # ops) s = do { s1 \<leftarrow> enq d s; run_queue enq deq ops s1 }"
| "run_queue enq deq (Deq # ops) s = do {
     (d, s1) \<leftarrow> deq s;
     (ds, s2) \<leftarrow> run_queue enq deq ops s1;
     Some (d # ds, s2) }"

text \<open>The reference queue: a list of at most cap elements, oldest first.\<close>

fun spec_queue :: "nat \<Rightarrow> 'd queue_op list \<Rightarrow> 'd list \<Rightarrow> ('d list \<times> 'd list) option" where
  "spec_queue cap [] q = Some ([], q)"
| "spec_queue cap (Enq d # ops) q =
     (if length q < cap then spec_queue cap ops (q @ [d]) else None)"
| "spec_queue cap (Deq # ops) q = (case q of [] \<Rightarrow> None
     | d # q1 \<Rightarrow> map_option (\<lambda>(ds, q2). (d # ds, q2)) (spec_queue cap ops q1))"

lemma spec_queue_fifo:
  "spec_queue (length ds + length es) (map Enq es @ replicate (length ds + length es) Deq) ds
     = Some (ds @ es, [])"
proof -
  have deq: "spec_queue c (replicate (length q) Deq) q = Some (q, [])" for c and q :: "'a list"
    by (induction q) auto
  have "spec_queue c (map Enq es @ ops) q = spec_queue c ops (q @ es)"
    if "length q + length es \<le> c" for c q ops
    using that by (induction es arbitrary: q) auto
  then show ?thesis using deq [of _ "ds @ es"] by simp
qed

context fifo_queue
begin

lemma run_refines:
  assumes "rep s q"
  shows "case spec_queue (room s + length q) ops q of
      None \<Rightarrow> run_queue enq deq ops s = None
    | Some (ds, q') \<Rightarrow> \<exists>s'. run_queue enq deq ops s = Some (ds, s') \<and> rep s' q'"
  using assms
proof (induction ops arbitrary: s q)
  case Nil
  then show ?case by simp
next
  case (Cons c ops)
  show ?case
  proof (cases c)
    case (Enq d)
    show ?thesis
    proof (cases "0 < room s")
      case True
      then obtain s' where s': "enq d s = Some s'" "rep s' (q @ [d])" "room s = Suc (room s')"
        using enq_rep Cons.prems by blast
      then show ?thesis using Cons.IH [OF s'(2)] Enq by (simp split: option.splits prod.splits)
    next
      case False
      then show ?thesis using enq_full Cons.prems Enq by simp
    qed
  next
    case Deq
    show ?thesis
    proof (cases q)
      case Nil
      then show ?thesis using deq_empty Cons.prems Deq by simp
    next
      case (Cons d q1)
      then obtain s' where s': "deq s = Some (d, s')" "rep s' q1" "room s' = Suc (room s)"
        using deq_rep Cons.prems by blast
      then show ?thesis using Cons.IH [OF s'(2)] Deq Cons
        by (fastforce split: option.splits)
    qed
  qed
qed

lemma run_fifo:
  assumes "rep s ds" "length es \<le> room s"
  shows "\<exists>s'. run_queue enq deq (map Enq es @ replicate (length ds + length es) Deq) s
            = Some (ds @ es, s') \<and> rep s' []"
proof -
  have mono: "spec_queue c ops q = Some r \<Longrightarrow> c \<le> c' \<Longrightarrow> spec_queue c' ops q = Some r"
    for c c' ops q and r :: "'d list \<times> 'd list"
    by (induction c ops q arbitrary: r rule: spec_queue.induct)
       (auto split: if_splits list.splits)
  show ?thesis
    using run_refines [OF assms(1), of "map Enq es @ replicate (length ds + length es) Deq"]
      mono [OF spec_queue_fifo, of ds es "room s + length ds"] assms(2)
    by simp
qed

end

definition list_enq :: "addr \<Rightarrow> 'd \<Rightarrow> 'd kmem \<Rightarrow> 'd kmem option" where
  "list_enq l d m = map_option snd (avs_list_enqueue l d m)"

definition list_deq :: "addr \<Rightarrow> 'd kmem \<Rightarrow> ('d \<times> 'd kmem) option" where
  "list_deq l m = do {
     (r, m1) \<leftarrow> avs_list_dequeue l m;
     d \<leftarrow> r;
     Some (d, m1) }"

definition queue_rep :: "addr \<Rightarrow> 'd kmem \<Rightarrow> 'd list \<Rightarrow> bool" where
  "queue_rep l m q \<longleftrightarrow> (\<exists>ns. lrep m l ns \<and> q = map snd (rev ns))"

interpretation lq: fifo_queue "list_enq l" "list_deq l" "queue_rep l" "\<lambda>m. length (avail (nodes m))"
  for l :: addr
proof unfold_locales
  fix m :: "'a kmem" and q :: "'a list" and d
  assume "queue_rep l m q"
  then obtain ns where r: "lrep m l ns" and q: "q = map snd (rev ns)" by (auto simp: queue_rep_def)
  { assume "0 < length (avail (nodes m))"
    then obtain a v rest where s: "avail (nodes m) = (a, v) # rest"
      by (cases "avail (nodes m)") auto
    then show "\<exists>m'. list_enq l d m = Some m' \<and> queue_rep l m' (q @ [d])
        \<and> length (avail (nodes m)) = Suc (length (avail (nodes m')))"
      using list_prepend [OF r s, of d] lrep_list_nonnull [OF r] q
      by (fastforce simp: list_enq_def avs_list_enqueue_def queue_rep_def fits_def) }
  { assume "length (avail (nodes m)) = 0"
    then show "list_enq l d m = None" using list_enqueue_full [OF r] by (simp add: list_enq_def) }
next
  fix m :: "'a kmem" and q :: "'a list" and d
  assume "queue_rep l m (d # q)"
  then obtain ns where r: "lrep m l ns" and q: "d # q = map snd (rev ns)" by (auto simp: queue_rep_def)
  then obtain ys a where "ns = ys @ [(a, d)]" "q = map snd (rev ys)"
    by (cases ns rule: rev_cases) auto
  then show "\<exists>m'. list_deq l m = Some (d, m') \<and> queue_rep l m' q
      \<and> length (avail (nodes m')) = Suc (length (avail (nodes m)))"
    using list_dequeue [of m l ys a d] r by (fastforce simp: list_deq_def queue_rep_def fits_def)
next
  fix m :: "'a kmem"
  assume "queue_rep l m []"
  then show "list_deq l m = None" using list_dequeue_empty [of m l] by (auto simp: queue_rep_def list_deq_def)
qed

section \<open>Properties\<close>

text \<open>A memory with the headers of two empty lists at 1 and 2 and room for three nodes.\<close>

definition demo_mem :: "nat kmem" where
  "demo_mem = \<lparr>
     lists = \<lparr>cells = [1 \<mapsto> \<lparr>lhead = NULL, ltail = NULL, lsize = 0\<rparr>, 2 \<mapsto> \<lparr>lhead = NULL, ltail = NULL, lsize = 0\<rparr>],
              avail = []\<rparr>,
     nodes = \<lparr>cells = Map.empty,
              avail = map (\<lambda>a. (a, \<lparr>nxt = 77, prv = 78, node_data = 79\<rparr>)) [10, 11, 12]\<rparr>\<rparr>"

lemma demo_rep: "lists_rep demo_mem [1 \<mapsto> [], 2 \<mapsto> []]"
  by (auto simp: lists_rep_def lrep_def demo_mem_def store_wf_def split: if_splits)

lemma demo_lrep: "lrep demo_mem 1 []" "lrep demo_mem 2 []"
  by (auto simp: lrep_def demo_mem_def store_wf_def)

lemma demo_avail:
  "avail (nodes demo_mem) = map (\<lambda>a. (a, \<lparr>nxt = 77, prv = 78, node_data = 79\<rparr>)) [10, 11, 12]"
  by (simp add: demo_mem_def)

lemma demo_one:
  "\<exists>m. avs_list_append 1 5 demo_mem = Some (1, m) \<and> lrep m 1 [(10, 5)]
     \<and> avail (nodes m) = map (\<lambda>a. (a, \<lparr>nxt = 77, prv = 78, node_data = 79\<rparr>)) [11, 12]"
proof -
  have s: "avail (nodes demo_mem) = (10, \<lparr>nxt = 77, prv = 78, node_data = 79\<rparr>)
      # map (\<lambda>a. (a, \<lparr>nxt = 77, prv = 78, node_data = 79\<rparr>)) [11, 12]"
    by (simp add: demo_avail)
  from list_append [OF demo_lrep(1) s, of 5] show ?thesis by (auto simp: fits_def)
qed



text \<open>Any interleaving of enqueue and dequeue on a list header behaves as a
  bounded FIFO queue: the same values come out in the same order, and a call the queue does
  not allow (an enqueue without memory, a dequeue of an empty list) is a NULL dereference.\<close>
theorem list_queue_refines:
  assumes "queue_rep l m q"
  shows "case spec_queue (length (avail (nodes m)) + length q) ops q of
      None \<Rightarrow> run_queue (list_enq l) (list_deq l) ops m = None
    | Some (ds, q') \<Rightarrow> \<exists>m'. run_queue (list_enq l) (list_deq l) ops m = Some (ds, m') \<and> queue_rep l m' q'"
  by (rule lq.run_refines [OF assms])

lemma list_queue_refines_witness:
  "\<exists>m'. run_queue (list_enq 1) (list_deq 1) [Enq 4, Enq 5, Deq, Enq 6, Deq] demo_mem = Some ([4, 5], m')
     \<and> queue_rep 1 m' [6]"
proof -
  have "queue_rep 1 demo_mem []" using demo_lrep by (auto simp: queue_rep_def)
  from list_queue_refines [OF this, of "[Enq 4, Enq 5, Deq, Enq 6, Deq]"]
  show ?thesis by (simp add: demo_avail)
qed

text \<open>Elements leave the queue in the order they entered it.\<close>

lemma list_queue_fifo:
  assumes "queue_rep l m ds" "length es \<le> length (avail (nodes m))"
  shows "\<exists>m'. run_queue (list_enq l) (list_deq l)
            (map Enq es @ replicate (length ds + length es) Deq) m = Some (ds @ es, m')
          \<and> queue_rep l m' []"
  by (rule lq.run_fifo [OF assms])

lemma list_queue_fifo_witness:
  "\<exists>m'. run_queue (list_enq 2) (list_deq 2) [Enq 7, Enq 8, Deq, Deq] demo_mem
      = Some ([7, 8], m') \<and> queue_rep 2 m' []"
proof -
  have "queue_rep 2 demo_mem []" using demo_lrep by (auto simp: queue_rep_def)
  from list_queue_fifo [OF this, of "[7, 8]"] show ?thesis by (simp add: demo_avail numeral_2_eq_2)
qed

text \<open>Emptying a list always ends, leaves the empty list and returns every node
  to the allocator, each once.\<close>
theorem list_empty_terminates:
  assumes "lrep m l ns"
  shows "\<exists>m'. avs_list_empty l m = Some m' \<and> lrep m' l []
    \<and> map fst (avail (nodes m')) = map fst (avail (nodes m)) @ map fst ns
    \<and> distinct (map fst (avail (nodes m')))"
proof -
  obtain m' where m': "avs_list_empty l m = Some m'" "lrep m' l []"
      "map fst (avail (nodes m')) = map fst (avail (nodes m)) @ map fst ns"
    using list_empty [OF assms] fits_lrep by blast
  have "distinct (map fst (avail (nodes m')))" using lrep_wf(1) [OF m'(2)] by (simp add: store_wf_def)
  with m' show ?thesis by blast
qed

lemma list_empty_terminates_witness:
  "\<exists>m m'. run_list_op (Append 1 5) demo_mem = Some m \<and> avs_list_empty 1 m = Some m' \<and> lrep m' 1 []"
proof -
  obtain m where m: "avs_list_append 1 5 demo_mem = Some (1, m)" "lrep m 1 [(10, 5)]"
    using demo_one by blast
  then have "run_list_op (Append 1 5) demo_mem = Some m" by simp
  with list_empty_terminates [OF m(2)] show ?thesis by blast
qed

text \<open>Inserting before NULL on a list that has elements makes the new node both
  head and tail and drops every old node, which stay allocated; the size still counts them.\<close>
theorem insert_before_null_loses_list:
  assumes "lrep m l ns" "avail (nodes m) = (a, v) # rest"
  shows "\<exists>m'. avs_list_insert_before l NULL d m = Some (l, m')
      \<and> rd_list l m' = Some \<lparr>lhead = a, ltail = a, lsize = int (length ns) + 1\<rparr>
      \<and> dseg (cells (nodes m')) NULL NULL [(a, d)]
      \<and> (\<forall>b \<in> fst ` set ns. rd_node b m' \<noteq> None)"
  by (rule insert_before_null [OF assms])

lemma insert_before_null_loses_list_witness:
  "\<exists>m m'. lrep m 1 [(10, 5 :: nat)] \<and> avs_list_insert_before 1 NULL 6 m = Some (1, m')
     \<and> rd_list 1 m' = Some \<lparr>lhead = 11, ltail = 11, lsize = 2\<rparr> \<and> rd_node 10 m' \<noteq> None"
proof -
  obtain m where m: "lrep m 1 [(10, 5 :: nat)]"
      "avail (nodes m) = map (\<lambda>a. (a, \<lparr>nxt = 77, prv = 78, node_data = 79\<rparr>)) [11, 12]"
    using demo_one by blast
  then have s: "avail (nodes m) = (11, \<lparr>nxt = 77, prv = 78, node_data = 79\<rparr>)
      # map (\<lambda>a. (a, \<lparr>nxt = 77, prv = 78, node_data = 79\<rparr>)) [12]" by simp
  from insert_before_null_loses_list [OF m(1) s, of 6] m(1) show ?thesis by auto
qed

end
