(* ===== verification/Bitmap.thy ===== *)
theory Bitmap
  imports KPrelude
begin

text \<open>
  The bitmap of kernel/lib/bitmap.c and include/lib/bitmap.h: bits packed in
  64-bit fields. A bitmap pointer is an option (None is NULL), the fields
  pointer an option of the list of words it points at. An access outside the
  fields is None. The lemmas relate testing and setting to the set of the set
  bits; clearing, as written, empties the whole field of the bit. vmalloc is
  a parameter: the block it returns, with its stale contents, or None.
\<close>

record vi_bitmap =
  bm_fields :: "u64 list option"
  field_count :: u32
  bit_count :: u64

abbreviation VI_BITMAP_FIELD_SIZE :: u64 where "VI_BITMAP_FIELD_SIZE \<equiv> 64"
abbreviation VI_BITMAP_MAX_BIT_COUNT :: u64 where "VI_BITMAP_MAX_BIT_COUNT \<equiv> 2147483648"

definition vi_bitmap_create ::
    "(u64 \<Rightarrow> u64 list option) \<Rightarrow> vi_bitmap option \<Rightarrow> u64 \<Rightarrow> (bool \<times> vi_bitmap option) option" where
  "vi_bitmap_create vmalloc p sz = (case p of None \<Rightarrow> Some (False, None)
   | Some b \<Rightarrow>
     if sz < 1 then Some (False, p)
     else if sz \<ge> VI_BITMAP_MAX_BIT_COUNT then Some (False, p)
     else let b1 = b\<lparr>field_count := ucast (sz div VI_BITMAP_FIELD_SIZE)\<rparr>;
              b2 = (if sz mod VI_BITMAP_FIELD_SIZE \<noteq> 0 then b1\<lparr>field_count := field_count b1 + 1\<rparr> else b1);
              b3 = b2\<lparr>bm_fields := vmalloc (8 * ucast (field_count b2))\<rparr>
          in (case bm_fields b3 of
                None \<Rightarrow> Some (False, Some b3)
              | Some mem \<Rightarrow>
                  let n = unat (field_count b3) in
                  if length mem < n then None
                  else Some (True, Some (b3\<lparr>bit_count := sz, bm_fields := Some (replicate n 0 @ drop n mem)\<rparr>))))"

definition vi_bitmap_test :: "vi_bitmap option \<Rightarrow> u64 \<Rightarrow> bool option" where
  "vi_bitmap_test p bit_num =
     (let field = ucast (bit_num div VI_BITMAP_FIELD_SIZE) :: u32;
          bt = bit_num mod VI_BITMAP_FIELD_SIZE in
      case p of None \<Rightarrow> Some False
      | Some b \<Rightarrow>
        if bit_num > bit_count b then Some False
        else (case bm_fields b of None \<Rightarrow> None
              | Some fs \<Rightarrow>
                  if unat field < length fs
                  then Some ((fs ! unat field) AND (push_bit (unat bt) 1) \<ge> 1)
                  else None))"

definition vi_bitmap_set_to ::
    "vi_bitmap option \<Rightarrow> u64 \<Rightarrow> bool \<Rightarrow> (bool \<times> vi_bitmap option) option" where
  "vi_bitmap_set_to p bit_num val =
     (let field = ucast (bit_num div VI_BITMAP_FIELD_SIZE) :: u32;
          bt = bit_num mod VI_BITMAP_FIELD_SIZE in
      case p of None \<Rightarrow> Some (False, None)
      | Some b \<Rightarrow>
        if bit_num > bit_count b then Some (False, p)
        else (case bm_fields b of None \<Rightarrow> None
              | Some fs \<Rightarrow>
                  if unat field < length fs
                  then Some (True, Some (b\<lparr>bm_fields := Some (fs[unat field :=
                         (if val then (fs ! unat field) OR (push_bit (unat bt) 1)
                          else (fs ! unat field) AND (push_bit (unat bt) 0))])\<rparr>))
                  else None))"

definition vi_bitmap_set :: "vi_bitmap option \<Rightarrow> u64 \<Rightarrow> (bool \<times> vi_bitmap option) option" where
  "vi_bitmap_set p bit_num = vi_bitmap_set_to p bit_num True"

definition vi_bitmap_clear :: "vi_bitmap option \<Rightarrow> u64 \<Rightarrow> (bool \<times> vi_bitmap option) option" where
  "vi_bitmap_clear p bit_num = vi_bitmap_set_to p bit_num False"

text \<open>
  The loop over the set bits; the callback gets the bit and the data pointer,
  here a state it returns updated. k is the number of bits still to visit.
\<close>

primrec for_each_set_from :: "(u64 \<Rightarrow> 'c \<Rightarrow> 'c option) \<Rightarrow> vi_bitmap \<Rightarrow> nat \<Rightarrow> nat \<Rightarrow> 'c \<Rightarrow> 'c option" where
  "for_each_set_from f b 0 i c = Some c"
| "for_each_set_from f b (Suc k) i c = do {
     t \<leftarrow> vi_bitmap_test (Some b) (of_nat i);
     c' \<leftarrow> (if t then f (of_nat i) c else Some c);
     for_each_set_from f b k (Suc i) c' }"

definition vi_bitmap_for_each_set :: "(u64 \<Rightarrow> 'c \<Rightarrow> 'c option) \<Rightarrow> vi_bitmap option \<Rightarrow> 'c \<Rightarrow> 'c option" where
  "vi_bitmap_for_each_set f p c = (case p of None \<Rightarrow> Some c
     | Some b \<Rightarrow> for_each_set_from f b (unat (bit_count b)) 0 c)"


section \<open>The set of set bits\<close>

definition bitmap_ok :: "vi_bitmap \<Rightarrow> bool" where
  "bitmap_ok b \<longleftrightarrow> (\<exists>fs. bm_fields b = Some fs \<and> unat (bit_count b) \<le> 64 * length fs)
     \<and> 0 < bit_count b \<and> bit_count b < VI_BITMAP_MAX_BIT_COUNT"

definition elems :: "vi_bitmap \<Rightarrow> nat set" where
  "elems b = {i. i < unat (bit_count b) \<and> (case bm_fields b of None \<Rightarrow> False
                  | Some fs \<Rightarrow> bit (fs ! (i div 64)) (i mod 64))}"

lemma and_exp_ge_1 [simp]: "1 \<le> (w AND 2 ^ n :: u64) \<longleftrightarrow> bit w n"
proof -
  have "1 \<le> (v :: u64) \<longleftrightarrow> v \<noteq> 0" for v
    by (metis linorder_not_less word_less_1)
  then show ?thesis by (simp add: and_exp_eq_0_iff_not_bit)
qed

lemma field_index:
  "i < 2147483648 \<Longrightarrow> unat (ucast ((of_nat i :: u64) div 64) :: u32) = i div 64"
  by (simp add: unat_div unat_of_nat unsigned_ucast_eq take_bit_eq_mod)

lemma bit_index: "i < 2147483648 \<Longrightarrow> unat ((of_nat i :: u64) mod 64) = i mod 64"
  by (simp add: unat_mod unat_of_nat)

lemma bitmap_ok_bound:
  assumes "bitmap_ok b"
  shows "0 < unat (bit_count b)" "unat (bit_count b) < 2147483648"
  using assms by (auto simp: bitmap_ok_def word_less_nat_alt)

lemma test_elems:
  assumes "bitmap_ok b" "i < unat (bit_count b)"
  shows "vi_bitmap_test (Some b) (of_nat i) = Some (i \<in> elems b)"
proof -
  note bd = bitmap_ok_bound [OF assms(1)]
  obtain fs where fs: "bm_fields b = Some fs" "unat (bit_count b) \<le> 64 * length fs"
    using assms by (auto simp: bitmap_ok_def)
  have i: "i < 2147483648" using assms bd by simp
  have "\<not> bit_count b < of_nat i" using assms(2) i by (simp add: word_less_nat_alt unat_of_nat)
  moreover have "i div 64 < length fs" using assms(2) fs by auto
  ultimately show ?thesis using fs assms(2)
    by (simp add: vi_bitmap_test_def Let_def field_index [OF i] bit_index [OF i] elems_def)
qed

lemma test_beyond:
  assumes "bit_count b < n"
  shows "vi_bitmap_test (Some b) n = Some False"
  using assms by (simp add: vi_bitmap_test_def Let_def)

lemma set_elems:
  assumes "bitmap_ok b" "i < unat (bit_count b)"
  shows "\<exists>b'. vi_bitmap_set (Some b) (of_nat i) = Some (True, Some b') \<and> bitmap_ok b'
           \<and> elems b' = insert i (elems b) \<and> bit_count b' = bit_count b"
proof -
  note bd = bitmap_ok_bound [OF assms(1)]
  obtain fs where fs: "bm_fields b = Some fs" "unat (bit_count b) \<le> 64 * length fs"
    using assms by (auto simp: bitmap_ok_def)
  have i: "i < 2147483648" using assms bd by simp
  have nb: "\<not> bit_count b < of_nat i" using assms(2) i by (simp add: word_less_nat_alt unat_of_nat)
  have len: "i div 64 < length fs" using assms(2) fs by auto
  let ?fs = "fs[i div 64 := (fs ! (i div 64)) OR push_bit (i mod 64) 1]"
  have "bit (?fs ! (j div 64)) (j mod 64) \<longleftrightarrow> j = i \<or> bit (fs ! (j div 64)) (j mod 64)" for j
  proof (cases "j div 64 = i div 64")
    case True
    then have "j mod 64 = i mod 64 \<longleftrightarrow> j = i" by (metis div_mult_mod_eq)
    then show ?thesis using True len by (auto simp: bit_simps)
  next
    case False
    then show ?thesis by auto
  qed
  then have "elems (b\<lparr>bm_fields := Some ?fs\<rparr>) = insert i (elems b)"
    using fs assms(2) by (auto simp: elems_def)
  moreover have "vi_bitmap_set (Some b) (of_nat i) = Some (True, Some (b\<lparr>bm_fields := Some ?fs\<rparr>))"
    using nb fs len
    by (simp add: vi_bitmap_set_def vi_bitmap_set_to_def Let_def field_index [OF i] bit_index [OF i])
  ultimately show ?thesis using assms(1) fs by (auto simp: bitmap_ok_def)
qed

lemma clear_elems:
  assumes "bitmap_ok b" "i < unat (bit_count b)"
  shows "\<exists>b'. vi_bitmap_clear (Some b) (of_nat i) = Some (True, Some b') \<and> bitmap_ok b'
           \<and> elems b' = {j \<in> elems b. j div 64 \<noteq> i div 64} \<and> bit_count b' = bit_count b"
proof -
  note bd = bitmap_ok_bound [OF assms(1)]
  obtain fs where fs: "bm_fields b = Some fs" "unat (bit_count b) \<le> 64 * length fs"
    using assms by (auto simp: bitmap_ok_def)
  have i: "i < 2147483648" using assms bd by simp
  have nb: "\<not> bit_count b < of_nat i" using assms(2) i by (simp add: word_less_nat_alt unat_of_nat)
  have len: "i div 64 < length fs" using assms(2) fs by auto
  let ?fs = "fs[i div 64 := 0]"
  have "bit (?fs ! (j div 64)) (j mod 64) \<longleftrightarrow> j div 64 \<noteq> i div 64 \<and> bit (fs ! (j div 64)) (j mod 64)"
    for j using len by (cases "j div 64 = i div 64") auto
  then have "elems (b\<lparr>bm_fields := Some ?fs\<rparr>) = {j \<in> elems b. j div 64 \<noteq> i div 64}"
    using fs assms(2) by (auto simp: elems_def)
  moreover have "vi_bitmap_clear (Some b) (of_nat i) = Some (True, Some (b\<lparr>bm_fields := Some ?fs\<rparr>))"
    using nb fs len
    by (simp add: vi_bitmap_clear_def vi_bitmap_set_to_def Let_def field_index [OF i] bit_index [OF i])
  ultimately show ?thesis using assms(1) fs by (auto simp: bitmap_ok_def)
qed

lemma create_refused:
  "vi_bitmap_create vmalloc p 0 = Some (False, p)"
  "VI_BITMAP_MAX_BIT_COUNT \<le> sz \<Longrightarrow> vi_bitmap_create vmalloc p sz = Some (False, p)"
  by (auto simp: vi_bitmap_create_def split: option.splits)

definition fields_needed :: "u64 \<Rightarrow> nat" where
  "fields_needed sz = (unat sz + 63) div 64"

lemma div_round_up: "((n::nat) + 63) div 64 = (if n mod 64 = 0 then n div 64 else Suc (n div 64))"
proof -
  have "(r + 63) div 64 = (if r = 0 then 0 else 1)" if "r < 64" for r :: nat
    using that by (auto intro: div_nat_eqI)
  then show ?thesis using div_add1_eq [of n 63 64] by simp
qed

lemma field_covers: "(i::nat) < n \<Longrightarrow> i div 64 < (n + 63) div 64"
proof -
  assume "i < n"
  moreover have "n \<le> (n + 63) div 64 * 64"
    using div_mult_mod_eq [of "n + 63" 64] mod_less_divisor [of 64 "n + 63"] by linarith
  ultimately show ?thesis by (simp add: div_less_iff_less_mult)
qed

lemma fields_needed_count:
  assumes "sz < VI_BITMAP_MAX_BIT_COUNT"
  shows "unat ((if sz mod 64 \<noteq> 0 then ucast (sz div 64) + 1 else ucast (sz div 64)) :: u32)
           = fields_needed sz"
proof -
  have s: "unat sz < 2147483648" using assms by (simp add: word_less_nat_alt)
  then have d: "unat (ucast (sz div 64) :: u32) = unat sz div 64"
    by (simp add: unat_div unsigned_ucast_eq take_bit_eq_mod)
  have "unat (ucast (sz div 64) + 1 :: u32) = unat sz div 64 + 1"
    using s d by (subst unat_add_lem [THEN iffD1]) auto
  moreover have "sz mod 64 = 0 \<longleftrightarrow> unat sz mod 64 = 0"
    using unat_eq_0 [of "sz mod 64"] by (simp add: unat_mod)
  ultimately show ?thesis using d by (simp add: fields_needed_def div_round_up)
qed

lemma create_empty:
  assumes "0 < sz" "sz < VI_BITMAP_MAX_BIT_COUNT"
    and m: "vmalloc (of_nat (8 * fields_needed sz)) = Some mem" "fields_needed sz \<le> length mem"
  shows "\<exists>b'. vi_bitmap_create vmalloc (Some b) sz = Some (True, Some b') \<and> bitmap_ok b'
           \<and> elems b' = {} \<and> bit_count b' = sz"
proof -
  define c where "c = (if sz mod 64 \<noteq> 0 then ucast (sz div 64) + 1 else ucast (sz div 64) :: u32)"
  have c: "unat c = fields_needed sz" unfolding c_def by (rule fields_needed_count [OF assms(2)])
  have u: "8 * ucast c = (of_nat (8 * unat c) :: u64)"
    by (simp add: word_unat_eq_iff unsigned_ucast_eq)
  have nz: "\<not> sz < 1" using assms(1) by (metis word_less_1 less_irrefl)
  have nb: "\<not> VI_BITMAP_MAX_BIT_COUNT \<le> sz" using assms(2) by simp
  define b' where "b' = \<lparr>bm_fields = Some (replicate (unat c) 0 @ drop (unat c) mem),
    field_count = c, bit_count = sz\<rparr>"
  have "vi_bitmap_create vmalloc (Some b) sz =
      (let b3 = b\<lparr>field_count := c, bm_fields := vmalloc (8 * ucast c)\<rparr> in
       case bm_fields b3 of None \<Rightarrow> Some (False, Some b3)
       | Some mem \<Rightarrow> if length mem < unat c then None
           else Some (True, Some (b3\<lparr>bit_count := sz, bm_fields := Some (replicate (unat c) 0 @ drop (unat c) mem)\<rparr>)))"
    using nb nz
    by (cases "sz mod 64 = 0")
       (simp_all add: vi_bitmap_create_def Let_def c_def cong: option.case_cong if_cong)
  also have "\<dots> = Some (True, Some b')"
    using m c u by (simp add: b'_def)
  finally have "vi_bitmap_create vmalloc (Some b) sz = Some (True, Some b')" .
  moreover have "bitmap_ok b'" using assms c
    by (auto simp: bitmap_ok_def b'_def fields_needed_def)
  moreover have "i div 64 < unat c" if "i < unat sz" for i
    using field_covers [OF that] by (simp add: c fields_needed_def)
  then have "elems b' = {}"
    by (auto simp: elems_def b'_def nth_append)
  ultimately show ?thesis by (intro exI [of _ b']) (simp add: b'_def)
qed

lemma for_each_set_elems:
  assumes "bitmap_ok b" "i + k \<le> unat (bit_count b)"
    and "\<And>j c. f (of_nat j) c = Some (g j c)"
  shows "for_each_set_from f b k i c
           = Some (fold g (filter (\<lambda>j. j \<in> elems b) [i ..< i + k]) c)"
  using assms(2)
proof (induction k arbitrary: i c)
  case 0
  then show ?case by simp
next
  case (Suc k)
  have "[i ..< i + Suc k] = i # [Suc i ..< Suc i + k]" by (simp add: upt_rec)
  then show ?case using Suc by (simp add: test_elems [OF assms(1)] assms(3) del: upt_Suc)
qed


section \<open>A bitmap as an allocator\<close>

text \<open>
  The scan for the first clear bit, with k bits left to look at, and the
  contract of the bitmap that an allocator over it needs.
\<close>

primrec first_clear :: "(nat \<Rightarrow> bool option) \<Rightarrow> nat \<Rightarrow> nat \<Rightarrow> nat option option" where
  "first_clear t 0 i = Some None"
| "first_clear t (Suc k) i = do {
     b \<leftarrow> t i;
     if b then first_clear t k (Suc i) else Some (Some i) }"


locale bit_alloc =
  fixes tst :: "'b \<Rightarrow> nat \<Rightarrow> bool option"
    and set1 :: "'b \<Rightarrow> nat \<Rightarrow> 'b option"
    and ok :: "'b \<Rightarrow> bool"
    and els :: "'b \<Rightarrow> nat set"
    and cap :: "'b \<Rightarrow> nat"
  assumes tst_law: "ok b \<Longrightarrow> i < cap b \<Longrightarrow> tst b i = Some (i \<in> els b)"
    and set_law: "ok b \<Longrightarrow> i < cap b \<Longrightarrow>
        \<exists>b'. set1 b i = Some b' \<and> ok b' \<and> els b' = insert i (els b) \<and> cap b' = cap b"
begin

lemma first_clear_least:
  assumes "ok b" "i + k \<le> cap b"
  shows "first_clear (tst b) k i =
     Some (if {i ..< i + k} \<subseteq> els b then None else Some (LEAST j. i \<le> j \<and> j \<notin> els b))"
  using assms(2)
proof (induction k arbitrary: i)
  case 0
  then show ?case by simp
next
  case (Suc k)
  show ?case
  proof (cases "i \<in> els b")
    case True
    have *: "{i ..< i + Suc k} \<subseteq> els b \<longleftrightarrow> {Suc i ..< Suc i + k} \<subseteq> els b"
    proof -
      have "{i ..< i + Suc k} = insert i {Suc i ..< Suc i + k}" by auto
      then show ?thesis using True by simp
    qed
    have "(i \<le> j \<and> j \<notin> els b) = (Suc i \<le> j \<and> j \<notin> els b)" for j
      using True by (metis Suc_leD Suc_leI le_neq_implies_less)
    then show ?thesis using Suc True by (simp only: first_clear.simps * tst_law [OF assms(1)]) simp
  next
    case False
    then have "(LEAST j. i \<le> j \<and> j \<notin> els b) = i" by (intro Least_equality) auto
    moreover have "i \<in> {i ..< i + Suc k}" by simp
    then have "\<not> {i ..< i + Suc k} \<subseteq> els b" using False by blast
    ultimately show ?thesis using Suc.prems False tst_law [OF assms(1)] by simp
  qed
qed

lemma first_clear_free:
  assumes "ok b" "first_clear (tst b) (cap b) 0 = Some (Some j)"
  shows "j < cap b" "j \<notin> els b" "{0 ..< j} \<subseteq> els b"
proof -
  have j: "\<not> {0 ..< cap b} \<subseteq> els b" "j = (LEAST j. j \<notin> els b)"
    using first_clear_least [OF assms(1), of 0 "cap b"] assms(2) by (auto split: if_splits)
  then obtain k where k: "k < cap b" "k \<notin> els b" unfolding subset_eq by (metis atLeastLessThan_iff)
  show "j < cap b" using j(2) k Least_le [of "\<lambda>j. j \<notin> els b" k] by simp
  show "j \<notin> els b" using j(2) LeastI [of "\<lambda>j. j \<notin> els b" k] k by simp
  show "{0 ..< j} \<subseteq> els b"
  proof
    fix x assume "x \<in> {0 ..< j}"
    then have "x < (LEAST j. j \<notin> els b)" using j(2) by simp
    from not_less_Least [OF this] show "x \<in> els b" by simp
  qed
qed

lemma first_clear_full:
  assumes "ok b"
  shows "first_clear (tst b) (cap b) 0 = Some None \<longleftrightarrow> {0 ..< cap b} \<subseteq> els b"
  using first_clear_least [OF assms, of 0 "cap b"] by simp

lemma first_clear_prefix:
  assumes "ok b" "els b = {0 ..< j}" "j < cap b"
  shows "first_clear (tst b) (cap b) 0 = Some (Some j)"
proof -
  have "(LEAST i. i \<notin> els b) = j" using assms(2) by (intro Least_equality) auto
  then show ?thesis using first_clear_least [OF assms(1), of 0 "cap b"] assms(2,3) by auto
qed

end

definition bm_test :: "vi_bitmap \<Rightarrow> nat \<Rightarrow> bool option" where
  "bm_test b i = vi_bitmap_test (Some b) (of_nat i)"

definition bm_set :: "vi_bitmap \<Rightarrow> nat \<Rightarrow> vi_bitmap option" where
  "bm_set b i = do { (r, p) \<leftarrow> vi_bitmap_set (Some b) (of_nat i); p }"

definition bm_cap :: "vi_bitmap \<Rightarrow> nat" where
  "bm_cap b = unat (bit_count b)"

interpretation bm: bit_alloc bm_test bm_set bitmap_ok elems bm_cap
proof unfold_locales
  show "bitmap_ok b \<Longrightarrow> i < bm_cap b \<Longrightarrow> bm_test b i = Some (i \<in> elems b)" for b i
    by (simp add: bm_test_def bm_cap_def test_elems)
  show "bitmap_ok b \<Longrightarrow> i < bm_cap b \<Longrightarrow> \<exists>b'. bm_set b i = Some b' \<and> bitmap_ok b'
      \<and> elems b' = insert i (elems b) \<and> bm_cap b' = bm_cap b" for b i
    using set_elems [of b i] by (auto simp: bm_set_def bm_cap_def)
qed



section \<open>Properties\<close>

text \<open>After a bit is set, every bit in range tests as it did before, except the
  one that was set; no other bit and no other word of the bitmap is disturbed.\<close>
theorem bitmap_set_then_test:
  assumes "bitmap_ok b" "i < unat (bit_count b)" "j < unat (bit_count b)"
  shows "\<exists>b'. vi_bitmap_set (Some b) (of_nat i) = Some (True, Some b') \<and> bitmap_ok b'
     \<and> vi_bitmap_test (Some b') (of_nat j)
         = (if j = i then Some True else vi_bitmap_test (Some b) (of_nat j))"
  using set_elems [OF assms(1,2)] test_elems [OF assms(1,3)] test_elems assms(3) by fastforce

lemma bitmap_set_then_test_witness:
  "\<exists>b'. vi_bitmap_set (Some \<lparr>bm_fields = Some [1], field_count = 1, bit_count = 9\<rparr>) 4 = Some (True, Some b')
     \<and> vi_bitmap_test (Some b') 4 = Some True"
  using bitmap_set_then_test [of "\<lparr>bm_fields = Some [1], field_count = 1, bit_count = 9\<rparr>" 4 4]
  by (auto simp: bitmap_ok_def)

text \<open>Clearing a bit succeeds and clears every bit of its 64-bit field: the mask
  is 0 shifted, not the complement of 1 shifted.\<close>
theorem bitmap_clear_wipes_field:
  assumes "bitmap_ok b" "i < unat (bit_count b)" "j < unat (bit_count b)"
  shows "\<exists>b'. vi_bitmap_clear (Some b) (of_nat i) = Some (True, Some b')
     \<and> vi_bitmap_test (Some b') (of_nat j)
         = (if j div 64 = i div 64 then Some False else vi_bitmap_test (Some b) (of_nat j))"
  using clear_elems [OF assms(1,2)] test_elems [OF assms(1,3)] test_elems assms(3) by fastforce

lemma bitmap_clear_wipes_field_witness:
  "\<exists>b'. vi_bitmap_clear (Some \<lparr>bm_fields = Some [3], field_count = 1, bit_count = 9\<rparr>) 0 = Some (True, Some b')
     \<and> vi_bitmap_test (Some b') 1 = Some False"
  using bitmap_clear_wipes_field [of "\<lparr>bm_fields = Some [3], field_count = 1, bit_count = 9\<rparr>" 0 1]
  by (auto simp: bitmap_ok_def)

end
