(* ===== verification/PageGroup.thy ===== *)
theory PageGroup
  imports Bitmap
begin

text \<open>
  Physical page groups (kernel/mem/pagegroup.c, include/page_group.h) and the
  boot-time synchronisation of the main group with the pages the kernel had
  already taken (paging_initalize_page_groups in kernel/arch/x86_64/page.c).
  A set bit of the bitmap is an allocated page. Address 0 stands for no page
  found. Bit to address is a 32-bit product, as in the C code, where both
  factors are uint32_t.
\<close>

record page_group =
  page_bitmap :: vi_bitmap
  physical_base :: u64
  num_pages :: u32
  page_size :: u32

definition PAGE_GROUP_ADDR_TO_BIT :: "page_group \<Rightarrow> u64 \<Rightarrow> u64" where
  "PAGE_GROUP_ADDR_TO_BIT g a = (a - physical_base g) div ucast (page_size g)"

definition PAGE_GROUP_BIT_TO_ADDR :: "page_group \<Rightarrow> u32 \<Rightarrow> u64" where
  "PAGE_GROUP_BIT_TO_ADDR g b = ucast (b * page_size g) + physical_base g"

text \<open>
  On success the C function falls off its end; its only caller ignores the
  value, so the model returns the group alone.
\<close>

definition page_group_setup_bitmap :: "(u64 \<Rightarrow> u64 list option) \<Rightarrow> page_group \<Rightarrow> u64 \<Rightarrow> page_group option" where
  "page_group_setup_bitmap vmalloc g sz =
     (if page_size g = 0 then None
      else do {
        let g1 = g\<lparr>num_pages := ucast (sz div ucast (page_size g))\<rparr>;
        (res, p) \<leftarrow> vi_bitmap_create vmalloc (Some (page_bitmap g1)) (ucast (num_pages g1));
        b \<leftarrow> p;
        Some (g1\<lparr>page_bitmap := b\<rparr>) })"

definition page_group_get_next_free :: "page_group \<Rightarrow> u64 option" where
  "page_group_get_next_free g = do {
     r \<leftarrow> first_clear (bm_test (page_bitmap g)) (unat (num_pages g)) 0;
     case r of Some i \<Rightarrow> Some (PAGE_GROUP_BIT_TO_ADDR g (of_nat i))
     | None \<Rightarrow> Some 0 }"

definition page_group_allocate_next_free :: "page_group \<Rightarrow> (u64 \<times> page_group) option" where
  "page_group_allocate_next_free g = do {
     a \<leftarrow> page_group_get_next_free g;
     if a = 0 then Some (0, g)
     else if page_size g = 0 then None
     else do {
       (r, p) \<leftarrow> vi_bitmap_set (Some (page_bitmap g)) (PAGE_GROUP_ADDR_TO_BIT g a);
       b \<leftarrow> p;
       Some (a, g\<lparr>page_bitmap := b\<rparr>) } }"

text \<open>
  The inner loop over the pages behind a candidate, with k iterations left: it
  bails out with the page to go on from, or ends normally (None).
\<close>

primrec block_scan :: "page_group \<Rightarrow> nat \<Rightarrow> nat \<Rightarrow> nat option option" where
  "block_scan g 0 n = Some None"
| "block_scan g (Suc k) n =
     (if n \<ge> unat (num_pages g) then Some (Some n)
      else do {
        t \<leftarrow> bm_test (page_bitmap g) n;
        if t = False then Some (Some n) else block_scan g k (Suc n) })"

text \<open>The outer loop; f bounds its iterations, i grows in each of them.\<close>

primrec block_from :: "page_group \<Rightarrow> nat \<Rightarrow> nat \<Rightarrow> nat \<Rightarrow> u64 option" where
  "block_from g num 0 i = Some 0"
| "block_from g num (Suc f) i =
     (if i < unat (num_pages g) then do {
        t \<leftarrow> bm_test (page_bitmap g) i;
        if t = False then
          (if num = 1 then Some (PAGE_GROUP_BIT_TO_ADDR g (of_nat i))
           else do {
             r \<leftarrow> block_scan g (num - Suc i) (Suc i);
             case r of Some n \<Rightarrow> block_from g num f (Suc n)
             | None \<Rightarrow> Some (PAGE_GROUP_BIT_TO_ADDR g (of_nat i)) })
        else block_from g num f (Suc i) }
      else Some 0)"

definition page_group_get_page_block :: "page_group option \<Rightarrow> u32 \<Rightarrow> u64 option" where
  "page_group_get_page_block p num = (case p of None \<Rightarrow> Some 0
   | Some g \<Rightarrow>
       if num < 1 \<or> num > num_pages g then Some 0
       else block_from g (unat num) (Suc (unat (num_pages g))) 0)"

definition page_group_is_free :: "page_group \<Rightarrow> u64 \<Rightarrow> bool option" where
  "page_group_is_free g a =
     (if a < physical_base g \<or> a > physical_base g + ucast (num_pages g * page_size g) then Some False
      else if page_size g = 0 then None
      else vi_bitmap_test (Some (page_bitmap g)) (PAGE_GROUP_ADDR_TO_BIT g a))"

definition page_group_is_num_free :: "page_group \<Rightarrow> u32 \<Rightarrow> bool option" where
  "page_group_is_num_free g n = vi_bitmap_test (Some (page_bitmap g)) (ucast n)"


section \<open>Taking the pages in use at boot\<close>

primrec take_pages :: "nat \<Rightarrow> u64 \<Rightarrow> page_group \<Rightarrow> (u64 \<times> page_group) option" where
  "take_pages 0 last_addr g = Some (last_addr, g)"
| "take_pages (Suc k) last_addr g = do {
     (a, g1) \<leftarrow> page_group_allocate_next_free g;
     take_pages k a g1 }"

text \<open>
  The group, whether the synchronisation succeeded (use_page_group, false
  before) and the state after it. heap_next is
  kernel_heap_physical_memory_next.
\<close>

definition paging_initalize_page_groups ::
    "(u64 \<Rightarrow> u64 list option) \<Rightarrow> u64 \<Rightarrow> u64 \<Rightarrow> u64 \<Rightarrow> page_group \<Rightarrow> (bool \<times> page_group) option" where
  "paging_initalize_page_groups vmalloc start sz heap_next g = do {
     let g1 = g\<lparr>physical_base := start, page_size := 4096\<rparr>;
     g2 \<leftarrow> page_group_setup_bitmap vmalloc g1 sz;
     let taken = (heap_next - start) div 4096;
     (a, g3) \<leftarrow> take_pages (unat taken) 0 g2;
     Some (a + 0x1000 = heap_next, g3) }"

section \<open>Addresses\<close>

definition group_ok :: "page_group \<Rightarrow> bool" where
  "group_ok g \<longleftrightarrow> bitmap_ok (page_bitmap g) \<and> bit_count (page_bitmap g) = ucast (num_pages g)
     \<and> 0 < page_size g \<and> unat (num_pages g) * unat (page_size g) < 2 ^ 32
     \<and> 0 < physical_base g \<and> unat (physical_base g) + 2 ^ 32 < 2 ^ 64"

abbreviation taken :: "page_group \<Rightarrow> nat set" where
  "taken g \<equiv> elems (page_bitmap g)"

definition page_addr :: "page_group \<Rightarrow> nat \<Rightarrow> nat" where
  "page_addr g i = i * unat (page_size g) + unat (physical_base g)"

lemma group_ok_cap: "group_ok g \<Longrightarrow> bm_cap (page_bitmap g) = unat (num_pages g)"
  by (simp add: group_ok_def bm_cap_def)

lemma unat_bit_to_addr:
  assumes "group_ok g" "i < unat (num_pages g)"
  shows "unat (PAGE_GROUP_BIT_TO_ADDR g (of_nat i)) = page_addr g i"
proof -
  let ?p = "unat (page_size g)"
  have "i * ?p \<le> unat (num_pages g) * ?p" using assms(2) by (intro mult_right_mono) simp_all
  also have "\<dots> < 2 ^ 32" using assms(1) by (simp only: group_ok_def)
  finally have lt: "i * ?p < 2 ^ 32" .
  have i: "unat (of_nat i :: u32) = i"
    using assms(2) unat_word_bounds(3) [of "num_pages g"] by (simp add: unat_of_nat)
  have "unat (of_nat i * page_size g) = i * ?p"
    using lt i unat_mult_lem [of "of_nat i :: u32" "page_size g"] by simp
  then have u: "unat (ucast (of_nat i * page_size g) :: u64) = i * ?p"
    by simp
  have "i * ?p + unat (physical_base g) < 2 ^ 64" using lt assms(1) by (auto simp: group_ok_def)
  then show ?thesis
    using unat_add_lem [of "ucast (of_nat i * page_size g) :: u64" "physical_base g"] u
    by (simp add: PAGE_GROUP_BIT_TO_ADDR_def page_addr_def)
qed

lemma bit_to_addr_nonzero:
  assumes "group_ok g" "i < unat (num_pages g)"
  shows "PAGE_GROUP_BIT_TO_ADDR g (of_nat i) \<noteq> 0"
proof -
  have "0 < unat (physical_base g)" using assms(1) by (simp add: group_ok_def word_less_nat_alt)
  then have "0 < unat (PAGE_GROUP_BIT_TO_ADDR g (of_nat i))"
    by (simp add: unat_bit_to_addr [OF assms] page_addr_def)
  then show ?thesis by auto
qed

lemma addr_to_bit_to_addr:
  assumes "group_ok g" "i < unat (num_pages g)"
  shows "PAGE_GROUP_ADDR_TO_BIT g (PAGE_GROUP_BIT_TO_ADDR g (of_nat i)) = of_nat i"
proof -
  have p: "0 < unat (page_size g)" using assms(1) by (simp add: group_ok_def word_less_nat_alt)
  have le: "physical_base g \<le> PAGE_GROUP_BIT_TO_ADDR g (of_nat i)"
    by (simp add: word_le_nat_alt unat_bit_to_addr [OF assms] page_addr_def)
  have "unat (PAGE_GROUP_ADDR_TO_BIT g (PAGE_GROUP_BIT_TO_ADDR g (of_nat i))) = i"
    using p by (simp add: PAGE_GROUP_ADDR_TO_BIT_def unat_div unat_sub [OF le]
        unat_bit_to_addr [OF assms] page_addr_def)
  moreover have "i < 2 ^ 64" using assms(2) unat_word_bounds(3) [of "num_pages g"] by simp
  ultimately show ?thesis by (simp add: word_unat_eq_iff unat_of_nat)
qed

lemma page_addr_inj:
  assumes "group_ok g" "page_addr g i = page_addr g j"
  shows "i = j"
  using assms by (simp add: page_addr_def group_ok_def word_less_nat_alt)


section \<open>Allocation\<close>

lemma next_free_result:
  assumes "group_ok g"
  shows "page_group_get_next_free g = Some (if {0 ..< unat (num_pages g)} \<subseteq> taken g then 0
           else PAGE_GROUP_BIT_TO_ADDR g (of_nat (LEAST j. j \<notin> taken g)))"
  using assms bm.first_clear_least [of "page_bitmap g" 0 "unat (num_pages g)"] group_ok_cap [OF assms]
  by (simp add: page_group_get_next_free_def group_ok_def)

lemma allocate_full:
  assumes "group_ok g" "{0 ..< unat (num_pages g)} \<subseteq> taken g"
  shows "page_group_allocate_next_free g = Some (0, g)"
  using assms by (simp add: page_group_allocate_next_free_def next_free_result)

lemma allocate_least:
  assumes ok: "group_ok g" and i: "i < unat (num_pages g)" "i \<notin> taken g" "{0 ..< i} \<subseteq> taken g"
  shows "\<exists>g'. page_group_allocate_next_free g = Some (PAGE_GROUP_BIT_TO_ADDR g (of_nat i), g')
           \<and> group_ok g' \<and> taken g' = insert i (taken g)
           \<and> physical_base g' = physical_base g \<and> num_pages g' = num_pages g
           \<and> page_size g' = page_size g"
proof -
  have "\<not> {0 ..< unat (num_pages g)} \<subseteq> taken g" using i(1,2) by auto
  moreover have "(LEAST j. j \<notin> taken g) = i"
    using i(2,3) by (intro Least_equality) (auto simp: subset_eq not_le [symmetric])
  ultimately have n: "page_group_get_next_free g = Some (PAGE_GROUP_BIT_TO_ADDR g (of_nat i))"
    by (simp add: next_free_result [OF ok])
  have b: "bitmap_ok (page_bitmap g)" "i < unat (bit_count (page_bitmap g))"
    using ok i(1) by (simp_all add: group_ok_def)
  obtain b' where b': "vi_bitmap_set (Some (page_bitmap g)) (of_nat i) = Some (True, Some b')"
      "bitmap_ok b'" "elems b' = insert i (taken g)" "bit_count b' = bit_count (page_bitmap g)"
    using set_elems [OF b] by blast
  have "page_size g \<noteq> 0" using ok by (auto simp: group_ok_def)
  then have "page_group_allocate_next_free g
      = Some (PAGE_GROUP_BIT_TO_ADDR g (of_nat i), g\<lparr>page_bitmap := b'\<rparr>)"
    by (simp add: page_group_allocate_next_free_def n bit_to_addr_nonzero [OF ok i(1)]
        addr_to_bit_to_addr [OF ok i(1)] b'(1))
  then show ?thesis using b' ok by (simp add: group_ok_def)
qed

lemma least_free_exists:
  assumes "\<not> {0 ..< n} \<subseteq> (A :: nat set)"
  obtains i where "i < n" "i \<notin> A" "{0 ..< i} \<subseteq> A"
proof
  let ?i = "LEAST j. j \<notin> A"
  obtain k where k: "k < n" "k \<notin> A" using assms by (auto simp: subset_eq)
  show "?i < n" using Least_le [of "\<lambda>j. j \<notin> A" k] k by simp
  show "?i \<notin> A" using LeastI [of "\<lambda>j. j \<notin> A" k] k by simp
  show "{0 ..< ?i} \<subseteq> A"
  proof
    fix x assume "x \<in> {0 ..< ?i}"
    then have "x < ?i" by simp
    from not_less_Least [OF this] show "x \<in> A" by simp
  qed
qed

text \<open>A caller that asks for pages again and again, as the heap provider does.\<close>

primrec allocate_many :: "nat \<Rightarrow> page_group \<Rightarrow> (u64 list \<times> page_group) option" where
  "allocate_many 0 g = Some ([], g)"
| "allocate_many (Suc k) g = do {
     (a, g1) \<leftarrow> page_group_allocate_next_free g;
     (as, g2) \<leftarrow> allocate_many k g1;
     Some (a # as, g2) }"

lemma allocate_many_pages:
  assumes "group_ok g"
  shows "\<exists>as g'. allocate_many k g = Some (as, g') \<and> group_ok g'
     \<and> num_pages g' = num_pages g \<and> page_size g' = page_size g \<and> physical_base g' = physical_base g
     \<and> distinct (filter (\<lambda>a. a \<noteq> 0) as)
     \<and> (\<forall>a \<in> set as. a \<noteq> 0 \<longrightarrow>
          (\<exists>i < unat (num_pages g). i \<notin> taken g \<and> i \<in> taken g' \<and> unat a = page_addr g i))
     \<and> taken g \<subseteq> taken g'"
  using assms
proof (induction k arbitrary: g)
  case 0
  then show ?case by simp
next
  case (Suc k)
  show ?case
  proof (cases "{0 ..< unat (num_pages g)} \<subseteq> taken g")
    case True
    then show ?thesis using Suc.IH [OF Suc.prems] allocate_full [OF Suc.prems] by auto
  next
    case False
    then obtain i where i: "i < unat (num_pages g)" "i \<notin> taken g" "{0 ..< i} \<subseteq> taken g"
      by (rule least_free_exists)
    let ?a = "PAGE_GROUP_BIT_TO_ADDR g (of_nat i)"
    have ua: "unat ?a = page_addr g i" by (rule unat_bit_to_addr [OF Suc.prems i(1)])
    obtain g1 where g1: "page_group_allocate_next_free g = Some (?a, g1)" "group_ok g1"
        "taken g1 = insert i (taken g)" "num_pages g1 = num_pages g" "page_size g1 = page_size g"
        "physical_base g1 = physical_base g"
      using allocate_least [OF Suc.prems i] by metis
    have pa: "page_addr g1 = page_addr g" using g1 by (auto simp: page_addr_def)
    obtain as g2 where g2: "allocate_many k g1 = Some (as, g2)" "group_ok g2"
        "num_pages g2 = num_pages g" "page_size g2 = page_size g" "physical_base g2 = physical_base g"
        "distinct (filter (\<lambda>a. a \<noteq> 0) as)" "taken g1 \<subseteq> taken g2"
        "\<And>a. a \<in> set as \<Longrightarrow> a \<noteq> 0 \<Longrightarrow> \<exists>j < unat (num_pages g). j \<notin> taken g1
            \<and> j \<in> taken g2 \<and> unat a = page_addr g j"
      using Suc.IH [OF g1(2)] g1 pa by (fastforce simp: pa)
    have na: "?a \<notin> set (filter (\<lambda>a. a \<noteq> 0) as)"
    proof
      assume "?a \<in> set (filter (\<lambda>a. a \<noteq> 0) as)"
      then obtain j where "j \<notin> taken g1" "unat ?a = page_addr g j" using g2(8) [of ?a] by auto
      then show False using page_addr_inj [OF Suc.prems] ua g1(3) by simp
    qed
    then have "distinct (filter (\<lambda>a. a \<noteq> 0) (?a # as))" using g2(6) by auto
    moreover have "\<exists>j < unat (num_pages g). j \<notin> taken g \<and> j \<in> taken g2 \<and> unat a = page_addr g j"
      if "a \<in> set (?a # as)" "a \<noteq> 0" for a
      using that g2(7,8) g1(3) i ua by (cases "a = ?a") (auto, blast?)
    moreover have "allocate_many (Suc k) g = Some (?a # as, g2)" using g1(1) g2(1) by simp
    moreover have "taken g \<subseteq> taken g2" using g1(3) g2(7) by blast
    ultimately show ?thesis using g2(2-5) by blast
  qed
qed

lemma take_pages_prefix:
  assumes "group_ok g" "taken g = {0 ..< j}" "j + k \<le> unat (num_pages g)"
    and "last_addr = 0 \<or> 0 < j \<and> last_addr = PAGE_GROUP_BIT_TO_ADDR g (of_nat (j - 1))"
  shows "\<exists>g'. take_pages k last_addr g
     = Some (if k = 0 then last_addr else PAGE_GROUP_BIT_TO_ADDR g (of_nat (j + k - 1)), g')
     \<and> group_ok g' \<and> taken g' = {0 ..< j + k}
     \<and> physical_base g' = physical_base g \<and> num_pages g' = num_pages g \<and> page_size g' = page_size g"
  using assms
proof (induction k arbitrary: g j last_addr)
  case 0
  then show ?case by simp
next
  case (Suc k)
  let ?a = "PAGE_GROUP_BIT_TO_ADDR g (of_nat j)"
  have "j < unat (num_pages g)" "j \<notin> taken g" "{0 ..< j} \<subseteq> taken g" using Suc.prems by auto
  then obtain g1 where g1: "page_group_allocate_next_free g = Some (?a, g1)" "group_ok g1"
      "taken g1 = insert j (taken g)" "num_pages g1 = num_pages g" "page_size g1 = page_size g"
      "physical_base g1 = physical_base g"
    using allocate_least [OF Suc.prems(1)] by metis
  have ad: "PAGE_GROUP_BIT_TO_ADDR g1 = PAGE_GROUP_BIT_TO_ADDR g"
    using g1 by (auto simp: PAGE_GROUP_BIT_TO_ADDR_def)
  have t1: "taken g1 = {0 ..< Suc j}" using g1(3) Suc.prems(2) by auto
  have n1: "Suc j + k \<le> unat (num_pages g1)" using Suc.prems(3) g1(4) by simp
  have la: "?a = 0 \<or> 0 < Suc j \<and> ?a = PAGE_GROUP_BIT_TO_ADDR g1 (of_nat (Suc j - 1))"
    by (simp add: ad)
  show ?case using Suc.IH [OF g1(2) t1 n1 la] g1 by (cases k) (auto simp: ad)
qed

lemma setup_bitmap_group:
  assumes p: "page_size g = 4096" and b: "0 < physical_base g" "unat (physical_base g) + 2 ^ 32 < 2 ^ 64"
    and sz: "4096 \<le> unat sz" "unat sz < 2 ^ 32"
    and m: "\<And>n. n < 2 ^ 32 \<Longrightarrow> \<exists>mem. vmalloc (of_nat (8 * n)) = Some mem \<and> n \<le> length mem"
  shows "\<exists>g'. page_group_setup_bitmap vmalloc g sz = Some g' \<and> group_ok g' \<and> taken g' = {}
     \<and> unat (num_pages g') = unat sz div 4096 \<and> page_size g' = 4096 \<and> physical_base g' = physical_base g"
proof -
  let ?n = "ucast (sz div ucast (page_size g)) :: u32"
  have "unat sz div 4096 < 2 ^ 32" using sz by (simp add: div_less_iff_less_mult)
  then have n: "unat ?n = unat sz div 4096"
    using p by (simp add: unsigned_ucast_eq take_bit_eq_mod unat_div)
  have "1 \<le> unat sz div 4096" "unat sz div 4096 < 2147483648"
    using sz by (simp_all add: div_less_iff_less_mult)
  then have c: "0 < (ucast ?n :: u64)" "(ucast ?n :: u64) < VI_BITMAP_MAX_BIT_COUNT"
    using n by (simp_all add: word_less_nat_alt del: ucast_id)
  have "fields_needed (ucast ?n) < 2 ^ 32"
    using unat_word_bounds(3) [of ?n] by (simp add: fields_needed_def div_less_iff_less_mult)
  then obtain mem where "vmalloc (of_nat (8 * fields_needed (ucast ?n))) = Some mem"
      "fields_needed (ucast ?n) \<le> length mem" using m [of "fields_needed (ucast ?n)"] by blast
  then obtain bm' where bm': "vi_bitmap_create vmalloc (Some (page_bitmap g)) (ucast ?n) = Some (True, Some bm')"
      "bitmap_ok bm'" "elems bm' = {}" "bit_count bm' = ucast ?n"
    using create_empty [OF c] by blast
  let ?g = "g\<lparr>num_pages := ?n, page_bitmap := bm'\<rparr>"
  have "page_group_setup_bitmap vmalloc g sz = Some ?g"
    using p bm'(1) by (simp add: page_group_setup_bitmap_def)
  moreover have "unat sz div 4096 * 4096 \<le> unat sz" by simp
  then have "group_ok ?g" using p b bm' n sz by (simp add: group_ok_def)
  ultimately show ?thesis using bm' n p by auto
qed

lemma is_num_free_taken:
  assumes "group_ok g" "unat i < unat (num_pages g)"
  shows "page_group_is_num_free g i = Some (unat i \<in> taken g)"
proof -
  have "(ucast i :: u64) = of_nat (unat i)" by simp
  moreover have "bitmap_ok (page_bitmap g)" "unat i < unat (bit_count (page_bitmap g))"
    using assms by (simp_all add: group_ok_def)
  ultimately show ?thesis
    using test_elems [of "page_bitmap g" "unat i"] by (simp add: page_group_is_num_free_def)
qed

lemma block_from_skip:
  assumes "group_ok g" "i < unat (num_pages g)" "{j ..< i} \<subseteq> taken g" "j \<le> i"
  shows "block_from g num (f + (i - j)) j = block_from g num f i"
  using assms(3,4)
proof (induction "i - j" arbitrary: j)
  case 0
  then show ?case by simp
next
  case (Suc d)
  then have j: "j < i" "d = i - Suc j" "j \<in> taken g" by auto
  have "bm_test (page_bitmap g) j = Some True"
    using bm.tst_law [of "page_bitmap g" j] assms(1,2) j group_ok_cap [OF assms(1)]
    by (simp add: group_ok_def)
  moreover have "f + (i - j) = Suc (f + (i - Suc j))" using j by simp
  moreover have "block_from g num (f + (i - Suc j)) (Suc j) = block_from g num f i"
    using Suc.hyps(1) [OF j(2)] Suc.prems j(1) by (simp add: subset_eq)
  ultimately show ?case using j assms(2) by simp
qed

lemma page_block_unchecked:
  assumes ok: "group_ok g" and i: "i < unat (num_pages g)" "i \<notin> taken g" "{0 ..< i} \<subseteq> taken g"
    and n: "0 < unat num" "unat num \<le> Suc i"
  shows "page_group_get_page_block (Some g) num = Some (PAGE_GROUP_BIT_TO_ADDR g (of_nat i))"
proof -
  have "\<not> num < 1" "\<not> num_pages g < num"
    using n i(1) by (auto simp: word_less_nat_alt)
  moreover have "block_from g (unat num) (Suc (unat (num_pages g))) 0
      = block_from g (unat num) (Suc (unat (num_pages g) - i)) i"
    using block_from_skip [OF ok i(1), of 0 "unat num" "Suc (unat (num_pages g) - i)"] i by simp
  moreover have "bm_test (page_bitmap g) i = Some False"
    using bm.tst_law [of "page_bitmap g" i] ok i group_ok_cap [OF ok] by (simp add: group_ok_def)
  ultimately show ?thesis using i n by (simp add: page_group_get_page_block_def)
qed


section \<open>Properties\<close>

text \<open>A group of eight 4 KiB pages at 0x10000, its pages 0 and 2 allocated.\<close>

definition demo_group :: page_group where
  "demo_group = \<lparr>page_bitmap = \<lparr>bm_fields = Some [5], field_count = 1, bit_count = 8\<rparr>,
     physical_base = 0x10000, num_pages = 8, page_size = 4096\<rparr>"

lemma demo_group_ok: "group_ok demo_group"
  by (simp add: group_ok_def demo_group_def bitmap_ok_def)

lemma demo_group_bits: "0 \<in> taken demo_group" "1 \<notin> taken demo_group" "2 \<in> taken demo_group"
  "unat (num_pages demo_group) = 8"
  by (simp_all add: demo_group_def elems_def)

text \<open>Property C34: repeated allocation hands out pairwise different pages, each of them
  inside the group, free before and allocated after, and never frees one; this is what
  keeps two users of physical memory apart.\<close>
theorem page_group_allocations_disjoint:
  assumes "group_ok g" "allocate_many k g = Some (as, g')"
  shows "distinct (filter (\<lambda>a. a \<noteq> 0) as) \<and> taken g \<subseteq> taken g' \<and> group_ok g'
    \<and> (\<forall>a \<in> set as. a \<noteq> 0 \<longrightarrow> (\<exists>i < unat (num_pages g). i \<notin> taken g \<and> i \<in> taken g'
          \<and> unat a = i * unat (page_size g) + unat (physical_base g)))"
  using allocate_many_pages [OF assms(1), of k] assms(2) by (fastforce simp: page_addr_def)

lemma page_group_allocations_disjoint_witness:
  "\<exists>as g'. allocate_many 3 demo_group = Some (as, g') \<and> distinct (filter (\<lambda>a. a \<noteq> 0) as)"
  using allocate_many_pages [OF demo_group_ok, of 3] page_group_allocations_disjoint [OF demo_group_ok]
  by blast

text \<open>One allocation, on both branches: it takes the lowest free page and marks
  exactly that page, or returns 0 and leaves the group alone when every page is allocated.\<close>
theorem page_group_allocate_lowest:
  assumes "group_ok g"
  shows "\<exists>a g'. page_group_allocate_next_free g = Some (a, g') \<and>
    (if {0 ..< unat (num_pages g)} \<subseteq> taken g then a = 0 \<and> g' = g
     else \<exists>i. i < unat (num_pages g) \<and> i \<notin> taken g \<and> {0 ..< i} \<subseteq> taken g
            \<and> a = PAGE_GROUP_BIT_TO_ADDR g (of_nat i) \<and> a \<noteq> 0 \<and> taken g' = insert i (taken g)
            \<and> group_ok g')"
proof (cases "{0 ..< unat (num_pages g)} \<subseteq> taken g")
  case True
  then show ?thesis using allocate_full [OF assms] by simp
next
  case False
  then obtain i where i: "i < unat (num_pages g)" "i \<notin> taken g" "{0 ..< i} \<subseteq> taken g"
    by (rule least_free_exists)
  from allocate_least [OF assms this] bit_to_addr_nonzero [OF assms i(1)] i False
  show ?thesis by auto
qed

lemma page_group_allocate_lowest_witness:
  "\<exists>a g'. page_group_allocate_next_free demo_group = Some (a, g') \<and> a \<noteq> 0 \<and> group_ok g'"
proof -
  have "\<not> {0 ..< unat (num_pages demo_group)} \<subseteq> taken demo_group"
    using demo_group_bits(2,4) by (auto simp: subset_eq)
  then show ?thesis using page_group_allocate_lowest [OF demo_group_ok] by auto
qed

text \<open>At boot, with memory below 4 GiB, the synchronisation of the page group with
  the k pages the kernel already took succeeds and leaves exactly those pages allocated.\<close>
theorem boot_page_sync:
  assumes "0 < start" "unat start + 2 ^ 32 < 2 ^ 64"
    and "4096 \<le> unat sz" "unat sz < 2 ^ 32" "0 < k" "k \<le> unat sz div 4096"
    and "\<And>n. n < 2 ^ 32 \<Longrightarrow> \<exists>mem. vmalloc (of_nat (8 * n)) = Some mem \<and> n \<le> length mem"
  shows "\<exists>g'. paging_initalize_page_groups vmalloc start sz (start + of_nat (k * 4096)) g
            = Some (True, g') \<and> taken g' = {0 ..< k} \<and> group_ok g'"
proof -
  let ?g1 = "g\<lparr>physical_base := start, page_size := 4096\<rparr>"
  obtain g2 where g2: "page_group_setup_bitmap vmalloc ?g1 sz = Some g2" "group_ok g2" "taken g2 = {}"
      "unat (num_pages g2) = unat sz div 4096" "page_size g2 = 4096" "physical_base g2 = start"
    using setup_bitmap_group [of ?g1 sz vmalloc] assms by auto
  have k: "0 + k \<le> unat (num_pages g2)" using assms(6) g2(4) by simp
  have t0: "taken g2 = {0 ..< 0}" using g2(3) by simp
  obtain g3 where g3: "take_pages k 0 g2 = Some (PAGE_GROUP_BIT_TO_ADDR g2 (of_nat (k - 1)), g3)"
      "group_ok g3" "taken g3 = {0 ..< k}"
    using take_pages_prefix [OF g2(2) t0 k, of 0] assms(5) by auto
  have "k * 4096 < 2 ^ 64" using assms(4,6) by (simp add: div_le_mono less_eq_div_iff_mult_less_eq)
  then have u: "unat (of_nat (k * 4096) :: u64) = k * 4096" by (intro unat_of_nat_u64) simp
  then have t: "unat ((start + of_nat (k * 4096) - start) div 4096) = k"
    by (simp add: unat_div)
  have "unat (PAGE_GROUP_BIT_TO_ADDR g2 (of_nat (k - 1))) = (k - 1) * 4096 + unat start"
    using unat_bit_to_addr [OF g2(2), of "k - 1"] k assms(5) g2 by (simp add: page_addr_def)
  then have "PAGE_GROUP_BIT_TO_ADDR g2 (of_nat (k - 1)) = of_nat ((k - 1) * 4096 + unat start)"
    by (metis word_unat_eq_of_natI)
  moreover have "(k - 1) * 4096 + 4096 = k * 4096" using assms(5) by (cases k) auto
  then have "(of_nat ((k - 1) * 4096) :: u64) + 4096 = of_nat (k * 4096)"
    by (metis of_nat_add of_nat_numeral)
  ultimately have "PAGE_GROUP_BIT_TO_ADDR g2 (of_nat (k - 1)) + 0x1000 = start + of_nat (k * 4096)"
    by (simp add: algebra_simps)
  with g2 g3 t show ?thesis by (simp add: paging_initalize_page_groups_def Let_def)
qed

lemma boot_page_sync_witness:
  "\<exists>g'. paging_initalize_page_groups (\<lambda>n. Some (replicate (unat n) 7)) 0x10000 0x8000 0x13000 demo_group
     = Some (True, g') \<and> taken g' = {0 ..< 3}"
proof -
  have "\<exists>mem. Some (replicate (unat (of_nat (8 * n) :: u64)) (7 :: u64)) = Some mem \<and> n \<le> length mem"
    if "n < 2 ^ 32" for n
    using that by (simp add: unat_of_nat_u64 del: of_nat_mult)
  from boot_page_sync [where start = "0x10000" and sz = "0x8000" and k = 3
      and vmalloc = "\<lambda>n. Some (replicate (unat n) 7)" and g = demo_group, OF _ _ _ _ _ _ this]
  show ?thesis by auto
qed

text \<open>Page_group_is_num_free answers the opposite of its name: true for the
  allocated pages, false for the free ones.\<close>
theorem page_group_is_num_free_inverted:
  assumes "group_ok g" "unat i < unat (num_pages g)"
  shows "page_group_is_num_free g i = Some (unat i \<in> taken g)"
  by (rule is_num_free_taken [OF assms])

lemma page_group_is_num_free_inverted_witness:
  "page_group_is_num_free demo_group 2 = Some True \<and> page_group_is_num_free demo_group 1 = Some False"
  using page_group_is_num_free_inverted [OF demo_group_ok, of 2]
    page_group_is_num_free_inverted [OF demo_group_ok, of 1] demo_group_bits by simp

text \<open>A request for a block of num pages that finds its first free page at or
  behind page num - 1 returns that page without testing any page behind it; the block it
  hands out may overlap allocated pages or reach past the end of the group.\<close>
theorem page_group_block_unchecked:
  assumes "group_ok g" "i < unat (num_pages g)" "i \<notin> taken g" "{0 ..< i} \<subseteq> taken g"
    and "0 < unat num" "unat num \<le> Suc i"
  shows "page_group_get_page_block (Some g) num = Some (PAGE_GROUP_BIT_TO_ADDR g (of_nat i))"
  by (rule page_block_unchecked [OF assms])

lemma page_group_block_unchecked_witness:
  "page_group_get_page_block (Some demo_group) 2 = Some 0x11000 \<and> 2 \<in> taken demo_group"
proof -
  have "{0 ..< 1} \<subseteq> taken demo_group" using demo_group_bits(1) by auto
  from page_group_block_unchecked [OF demo_group_ok _ demo_group_bits(2) this, of 2]
  show ?thesis using demo_group_bits(3,4) by (simp add: PAGE_GROUP_BIT_TO_ADDR_def demo_group_def)
qed

text \<open>Page numbers are multiplied in 32 bits, so with 4 KiB pages the page number
  2 ^ 20 has the address of page 0: a group of more than 4 GiB hands out a page twice.\<close>
theorem page_addr_wraps:
  "page_size g = 4096 \<Longrightarrow>
     PAGE_GROUP_BIT_TO_ADDR g (n + 0x100000) = PAGE_GROUP_BIT_TO_ADDR g n"
proof -
  assume p: "page_size g = 4096"
  have "(0x100000 :: u32) * 4096 = 0" by simp
  then have "(n + 0x100000) * 4096 = n * 4096" by (simp only: distrib_right add_0_right)
  then show ?thesis by (simp only: PAGE_GROUP_BIT_TO_ADDR_def p)
qed

lemma page_addr_wraps_witness:
  "PAGE_GROUP_BIT_TO_ADDR demo_group 0x100003 = PAGE_GROUP_BIT_TO_ADDR demo_group 3"
  using page_addr_wraps [of demo_group 3] by (simp add: demo_group_def)

end
