(* ===== verification/CString.thy ===== *)
theory CString
  imports KPrelude
begin

text \<open>
  The string routines of kernel/arch/x86_64/bootstrap.c on a byte memory: a
  partial map from addresses to bytes, where an unmapped address is one the
  program may not touch. A loop that runs to a terminating NUL is a partial
  function: without a NUL it has no result. cstr relates a memory and a
  pointer to the bytes of the string there.
\<close>

type_synonym bytes_mem = "nat \<rightharpoonup> u8"

definition rd8 :: "bytes_mem \<Rightarrow> nat \<Rightarrow> u8 option" where
  "rd8 m a = m a"

definition wr8 :: "bytes_mem \<Rightarrow> nat \<Rightarrow> u8 \<Rightarrow> bytes_mem option" where
  "wr8 m a v = (if m a = None then None else Some (m(a \<mapsto> v)))"

partial_function (option) find_nul :: "bytes_mem \<Rightarrow> nat \<Rightarrow> nat option" where
  "find_nul m a = do { c \<leftarrow> rd8 m a; if c \<noteq> 0 then find_nul m (a + 1) else Some a }"

definition kstrlen :: "bytes_mem \<Rightarrow> nat \<Rightarrow> nat option" where
  "kstrlen m s = do { sc \<leftarrow> find_nul m s; Some (sc - s) }"

partial_function (option) copy_to_nul :: "bytes_mem \<Rightarrow> nat \<Rightarrow> nat \<Rightarrow> bytes_mem option" where
  "copy_to_nul m dest src = do {
     c \<leftarrow> rd8 m src;
     m1 \<leftarrow> wr8 m dest c;
     if c \<noteq> 0 then copy_to_nul m1 (dest + 1) (src + 1) else Some m1 }"

definition kstrcpy :: "bytes_mem \<Rightarrow> nat \<Rightarrow> nat \<Rightarrow> (nat \<times> bytes_mem) option" where
  "kstrcpy m dest src = do { m1 \<leftarrow> copy_to_nul m dest src; Some (dest, m1) }"

definition kstrcat :: "bytes_mem \<Rightarrow> nat \<Rightarrow> nat \<Rightarrow> (nat \<times> bytes_mem) option" where
  "kstrcat m dest src = do {
     e \<leftarrow> find_nul m dest;
     m1 \<leftarrow> copy_to_nul m e src;
     Some (dest, m1) }"

text \<open>The bounded copy of strncat: count is positive on entry.\<close>

primrec copy_at_most :: "nat \<Rightarrow> bytes_mem \<Rightarrow> nat \<Rightarrow> nat \<Rightarrow> bytes_mem option" where
  "copy_at_most 0 m dest src = Some m"
| "copy_at_most (Suc count) m dest src = do {
     c \<leftarrow> rd8 m src;
     m1 \<leftarrow> wr8 m dest c;
     if c \<noteq> 0 then
       (if count = 0 then wr8 m1 (dest + 1) 0
        else copy_at_most count m1 (dest + 1) (src + 1))
     else Some m1 }"

definition kstrncat :: "bytes_mem \<Rightarrow> nat \<Rightarrow> nat \<Rightarrow> nat \<Rightarrow> (nat \<times> bytes_mem) option" where
  "kstrncat m dest src count =
     (if count \<noteq> 0 then do {
        e \<leftarrow> find_nul m dest;
        m1 \<leftarrow> copy_at_most count m e src;
        Some (dest, m1) }
      else Some (dest, m))"

primrec strncpy_loop :: "nat \<Rightarrow> bytes_mem \<Rightarrow> nat \<Rightarrow> nat \<Rightarrow> bytes_mem option" where
  "strncpy_loop 0 m tmp src = Some m"
| "strncpy_loop (Suc count) m tmp src = do {
     c \<leftarrow> rd8 m src;
     m1 \<leftarrow> wr8 m tmp c;
     strncpy_loop count m1 (tmp + 1) (if c \<noteq> 0 then src + 1 else src) }"

definition kstrncpy :: "bytes_mem \<Rightarrow> nat \<Rightarrow> nat \<Rightarrow> nat \<Rightarrow> (nat \<times> bytes_mem) option" where
  "kstrncpy m dest src count = do { m1 \<leftarrow> strncpy_loop count m dest src; Some (dest, m1) }"

partial_function (option) kstrcmp :: "bytes_mem \<Rightarrow> nat \<Rightarrow> nat \<Rightarrow> int option" where
  "kstrcmp m cs ct = do {
     c1 \<leftarrow> rd8 m cs;
     c2 \<leftarrow> rd8 m ct;
     if c1 \<noteq> c2 then Some (if c1 < c2 then - 1 else 1)
     else if c1 = 0 then Some 0
     else kstrcmp m (cs + 1) (ct + 1) }"


section \<open>Strings in memory\<close>

primrec cstr :: "bytes_mem \<Rightarrow> nat \<Rightarrow> u8 list \<Rightarrow> bool" where
  "cstr m a [] \<longleftrightarrow> m a = Some 0"
| "cstr m a (c # cs) \<longleftrightarrow> m a = Some c \<and> c \<noteq> 0 \<and> cstr m (a + 1) cs"

definition mapped :: "bytes_mem \<Rightarrow> nat \<Rightarrow> nat \<Rightarrow> bool" where
  "mapped m a n \<longleftrightarrow> (\<forall>i < n. m (a + i) \<noteq> None)"

definition frame :: "bytes_mem \<Rightarrow> bytes_mem \<Rightarrow> nat \<Rightarrow> nat \<Rightarrow> bool" where
  "frame m m' a n \<longleftrightarrow> (\<forall>b. b < a \<or> a + n \<le> b \<longrightarrow> m' b = m b)"

lemma mapped_Suc: "mapped m a (Suc n) \<longleftrightarrow> m a \<noteq> None \<and> mapped m (a + 1) n"
  unfolding mapped_def by (auto simp: less_Suc_eq_0_disj)

lemma mapped_upd [simp]: "mapped m a n \<Longrightarrow> mapped (m(b \<mapsto> v)) a n"
  by (simp add: mapped_def)

lemma cstr_upd: "b < a \<or> a + length cs < b \<Longrightarrow> cstr (m(b \<mapsto> v)) a cs = cstr m a cs"
  by (induction cs arbitrary: a) auto

lemma cstr_inj: "cstr m a xs \<Longrightarrow> cstr m a ys \<Longrightarrow> xs = ys"
proof (induction xs arbitrary: a ys)
  case Nil then show ?case by (cases ys) auto
next
  case (Cons x xs) then show ?case by (cases ys) auto
qed

lemma find_nul_cstr: "cstr m a cs \<Longrightarrow> find_nul m a = Some (a + length cs)"
  by (induction cs arbitrary: a) (subst find_nul.simps, simp add: rd8_def)+

lemma strlen_cstr: "cstr m s cs \<Longrightarrow> kstrlen m s = Some (length cs)"
  by (simp add: kstrlen_def find_nul_cstr)

lemma copy_cstr:
  assumes "cstr m src cs" "mapped m dest (Suc (length cs))"
    and "dest + length cs < src \<or> src + length cs < dest \<or> dest \<le> src"
  shows "\<exists>m'. copy_to_nul m dest src = Some m' \<and> cstr m' dest cs \<and> frame m m' dest (Suc (length cs))"
  using assms
proof (induction cs arbitrary: m dest src)
  case Nil
  then show ?case
    by (subst copy_to_nul.simps) (auto simp: rd8_def wr8_def mapped_def frame_def)
next
  case (Cons c cs)
  let ?m = "m(dest \<mapsto> c)"
  have dm: "m dest \<noteq> None" using Cons.prems(2) by (simp add: mapped_Suc)
  show ?case
  proof (cases "dest = src")
    case True
    then have same: "?m = m" using Cons.prems(1) by auto
    obtain m' where "copy_to_nul m (dest + 1) (src + 1) = Some m'" "cstr m' (dest + 1) cs"
        "frame m m' (dest + 1) (Suc (length cs))"
      using Cons.IH [of m "src + 1" "dest + 1"] Cons.prems True by (auto simp: mapped_Suc)
    then show ?thesis using Cons.prems True same dm
      by (subst copy_to_nul.simps) (auto simp: rd8_def wr8_def frame_def)
  next
    case False
    then have "dest < src + 1 \<or> src + 1 + length cs < dest" using Cons.prems(3) by auto
    then have "cstr ?m (src + 1) cs" using Cons.prems(1) cstr_upd [of dest "src + 1" cs] by simp
    moreover have "mapped ?m (dest + 1) (Suc (length cs))" using Cons.prems(2) by (simp add: mapped_Suc)
    moreover have "(dest + 1) + length cs < src + 1 \<or> (src + 1) + length cs < dest + 1 \<or> dest + 1 \<le> src + 1"
      using Cons.prems(3) by auto
    ultimately obtain m' where "copy_to_nul ?m (dest + 1) (src + 1) = Some m'" "cstr m' (dest + 1) cs"
        "frame ?m m' (dest + 1) (Suc (length cs))"
      using Cons.IH [of ?m "src + 1" "dest + 1"] by blast
    then show ?thesis using Cons.prems dm
      by (subst copy_to_nul.simps) (auto simp: rd8_def wr8_def frame_def)
  qed
qed

lemma strncpy_spec:
  assumes "cstr m src cs" "mapped m dest n" "dest + n \<le> src \<or> src + length cs < dest"
  shows "\<exists>m'. strncpy_loop n m dest src = Some m' \<and> frame m m' dest n
     \<and> (\<forall>i < n. m' (dest + i) = Some (if i < length cs then cs ! i else 0))"
  using assms
proof (induction n arbitrary: m dest src cs)
  case 0
  then show ?case by (simp add: frame_def)
next
  case (Suc n)
  obtain c where c: "m src = Some c" using Suc.prems(1) by (cases cs) auto
  let ?m = "m(dest \<mapsto> c)" and ?src = "if c \<noteq> 0 then src + 1 else src" and ?cs = "tl cs"
  have cs: "cs = (if c = 0 then [] else c # ?cs)" using Suc.prems(1) c by (cases cs) auto
  have "dest < src \<or> src + length cs < dest" using Suc.prems(3) by auto
  then have "cstr ?m ?src ?cs"
    using Suc.prems(1) c cs cstr_upd [of dest src cs] by (cases cs) (auto simp: cstr_upd)
  moreover have "mapped ?m (dest + 1) n" using Suc.prems(2) by (simp add: mapped_Suc)
  moreover have "dest + 1 + n \<le> ?src \<or> ?src + length ?cs < dest + 1"
    using Suc.prems(3) cs by (cases cs) auto
  ultimately obtain m' where m': "strncpy_loop n ?m (dest + 1) ?src = Some m'" "frame ?m m' (dest + 1) n"
      "\<And>i. i < n \<Longrightarrow> m' (dest + 1 + i) = Some (if i < length ?cs then ?cs ! i else 0)"
    using Suc.IH [of ?m ?src ?cs "dest + 1"] by blast
  have "m' (dest + i) = Some (if i < length cs then cs ! i else 0)" if "i < Suc n" for i
  proof (cases i)
    case 0
    then show ?thesis using m'(2) cs by (cases cs) (auto simp: frame_def split: if_splits)
  next
    case (Suc j)
    then show ?thesis using m'(3) [of j] that cs by (cases cs) auto
  qed
  moreover have "m dest \<noteq> None" using Suc.prems(2) by (simp add: mapped_Suc)
  ultimately show ?case using m' c by (auto simp: rd8_def wr8_def frame_def)
qed

text \<open>The order strcmp computes: lexicographic on bytes, the shorter string first.\<close>

fun cmp_bytes :: "u8 list \<Rightarrow> u8 list \<Rightarrow> int" where
  "cmp_bytes [] [] = 0"
| "cmp_bytes [] (y # ys) = - 1"
| "cmp_bytes (x # xs) [] = 1"
| "cmp_bytes (x # xs) (y # ys) = (if x = y then cmp_bytes xs ys else if x < y then - 1 else 1)"

lemma cmp_bytes_eq: "cmp_bytes xs ys = 0 \<longleftrightarrow> xs = ys"
  by (induction xs ys rule: cmp_bytes.induct) auto

lemma cmp_bytes_anti: "cmp_bytes ys xs = - cmp_bytes xs ys"
  by (induction xs ys rule: cmp_bytes.induct) auto

lemma cmp_bytes_trans:
  "cmp_bytes xs ys < 0 \<Longrightarrow> cmp_bytes ys zs < 0 \<Longrightarrow> cmp_bytes xs zs < 0"
proof (induction xs ys arbitrary: zs rule: cmp_bytes.induct)
  case (2 y ys) then show ?case by (cases zs) auto
next
  case (4 x xs y ys) then show ?case by (cases zs) (auto split: if_splits)
qed auto

lemma strcmp_spec:
  "cstr m a xs \<Longrightarrow> cstr m b ys \<Longrightarrow> kstrcmp m a b = Some (cmp_bytes xs ys)"
proof (induction xs ys arbitrary: a b rule: cmp_bytes.induct)
  case (2 y ys) then show ?case by (subst kstrcmp.simps) (simp add: rd8_def word_pos_nonzero)
next
  case (3 x xs) then show ?case by (subst kstrcmp.simps) (simp add: rd8_def)
next
  case (4 x xs y ys) then show ?case by (subst kstrcmp.simps) (simp add: rd8_def)
qed (subst kstrcmp.simps, simp add: rd8_def)

lemma cstr_glue:
  "cstr m a ds \<Longrightarrow> frame m m' (a + length ds) n \<Longrightarrow> cstr m' (a + length ds) xs \<Longrightarrow> cstr m' a (ds @ xs)"
proof (induction ds arbitrary: a)
  case (Cons d ds)
  then show ?case by (auto simp: frame_def)
qed simp

lemma copy_at_most_cstr:
  assumes "cstr m src cs" "mapped m dest (Suc (length cs))" "0 < count"
    and "dest + length cs < src \<or> src + length cs < dest"
  shows "\<exists>m'. copy_at_most count m dest src = Some m' \<and> cstr m' dest (take count cs)
     \<and> frame m m' dest (Suc (length cs))"
  using assms
proof (induction count arbitrary: m dest src cs)
  case 0
  then show ?case by simp
next
  case (Suc k)
  show ?case
  proof (cases cs)
    case Nil
    then show ?thesis using Suc.prems by (auto simp: rd8_def wr8_def mapped_def frame_def)
  next
    case (Cons c ds)
    let ?m = "m(dest \<mapsto> c)"
    have dm: "m dest \<noteq> None" "m (dest + 1) \<noteq> None" using Suc.prems(2) Cons by (simp_all add: mapped_Suc)
    show ?thesis
    proof (cases k)
      case 0
      then show ?thesis using Suc.prems Cons dm by (auto simp: rd8_def wr8_def frame_def)
    next
      case (Suc j)
      have "cstr ?m (src + 1) ds" using Suc.prems Cons cstr_upd [of dest "src + 1" ds] by auto
      moreover have "mapped ?m (dest + 1) (Suc (length ds))" using Suc.prems(2) Cons by (simp add: mapped_Suc)
      moreover have "(dest + 1) + length ds < src + 1 \<or> (src + 1) + length ds < dest + 1"
        using Suc.prems(4) Cons by auto
      ultimately obtain m' where "copy_at_most k ?m (dest + 1) (src + 1) = Some m'"
          "cstr m' (dest + 1) (take k ds)" "frame ?m m' (dest + 1) (Suc (length ds))"
        using Suc.IH [of ?m "src + 1" ds "dest + 1"] \<open>k = Suc j\<close> by blast
      then show ?thesis using Suc.prems Cons dm \<open>k = Suc j\<close>
        by (auto simp: rd8_def wr8_def frame_def)
    qed
  qed
qed


section \<open>Properties\<close>

text \<open>Strcpy puts the string, with its NUL, at the destination and changes no
  other byte; the two areas may overlap when the destination is not above the source.\<close>
theorem kstrcpy_copies:
  assumes "cstr m src cs" "mapped m dest (Suc (length cs))"
    and "src + length cs < dest \<or> dest \<le> src"
  shows "\<exists>m'. kstrcpy m dest src = Some (dest, m') \<and> cstr m' dest cs
     \<and> kstrlen m' dest = Some (length cs)
     \<and> (\<forall>b. b < dest \<or> dest + length cs < b \<longrightarrow> m' b = m b)"
  using copy_cstr [OF assms(1,2)] assms(3) strlen_cstr
  by (fastforce simp: kstrcpy_def frame_def)

text \<open>A memory with two strings, the second without its end.\<close>

definition demo_bytes :: bytes_mem where
  "demo_bytes = [10 \<mapsto> 65, 11 \<mapsto> 66, 12 \<mapsto> 0, 20 \<mapsto> 1, 21 \<mapsto> 1, 22 \<mapsto> 1, 23 \<mapsto> 9]"

lemma demo_str: "cstr demo_bytes 10 [65, 66]" "cstr demo_bytes 11 [66]"
  by (simp_all add: demo_bytes_def)

lemma demo_room: "mapped demo_bytes 20 3" "mapped demo_bytes 20 2" "mapped demo_bytes 21 3"
  by (simp_all add: demo_bytes_def mapped_Suc numeral_3_eq_3 numeral_2_eq_2 mapped_def [of _ _ 0])

lemma demo_val: "demo_bytes 23 = Some 9" "demo_bytes 22 = Some 1"
  by (simp_all add: demo_bytes_def)

lemma kstrcpy_copies_witness:
  "\<exists>m'. kstrcpy demo_bytes 20 10 = Some (20, m') \<and> cstr m' 20 [65, 66] \<and> m' 23 = Some 9"
  using kstrcpy_copies [OF demo_str(1), of 20] demo_room demo_val
  by (fastforce simp: numeral_3_eq_3)

text \<open>Strncpy writes exactly count bytes: the string, then NULs up to the count;
  when the string has count bytes or more the result has no terminating NUL.\<close>
theorem kstrncpy_exact:
  assumes "cstr m src cs" "mapped m dest n" "dest + n \<le> src \<or> src + length cs < dest"
  shows "\<exists>m'. kstrncpy m dest src n = Some (dest, m')
     \<and> (\<forall>i < n. m' (dest + i) = Some (if i < length cs then cs ! i else 0))
     \<and> (\<forall>b. b < dest \<or> dest + n \<le> b \<longrightarrow> m' b = m b)"
  using strncpy_spec [OF assms] by (auto simp: kstrncpy_def frame_def)

lemma kstrncpy_exact_witness:
  "\<exists>m'. kstrncpy demo_bytes 20 10 2 = Some (20, m') \<and> m' 20 = Some 65 \<and> m' 21 = Some 66 \<and> m' 22 = Some 1"
proof -
  obtain m' where m': "kstrncpy demo_bytes 20 10 2 = Some (20, m')"
      "\<And>i. i < 2 \<Longrightarrow> m' (20 + i) = Some (if i < length [65, 66 :: u8] then [65, 66] ! i else 0)"
      "\<And>b. b < 20 \<or> 20 + 2 \<le> b \<Longrightarrow> m' b = demo_bytes b"
    using kstrncpy_exact [OF demo_str(1) demo_room(2)] by force
  show ?thesis using m'(1) m'(2) [of 0] m'(2) [of 1] m'(3) [of 22] demo_val by simp
qed

text \<open>Strncat appends at most count bytes of the source and always ends the
  result with a NUL, keeping what the destination held.\<close>
theorem kstrncat_appends:
  assumes "cstr m dest ds" "cstr m src cs" "mapped m (dest + length ds) (Suc (length cs))"
    and "dest + length ds + length cs < src \<or> src + length cs < dest" "0 < count"
  shows "\<exists>m'. kstrncat m dest src count = Some (dest, m') \<and> cstr m' dest (ds @ take count cs)"
proof -
  obtain m' where "copy_at_most count m (dest + length ds) src = Some m'"
      "cstr m' (dest + length ds) (take count cs)" "frame m m' (dest + length ds) (Suc (length cs))"
    using copy_at_most_cstr [OF assms(2,3,5)] assms(4) by auto
  moreover from this have "cstr m' dest (ds @ take count cs)" using cstr_glue [OF assms(1)] by blast
  ultimately show ?thesis using assms(5) by (simp add: kstrncat_def find_nul_cstr [OF assms(1)])
qed

lemma kstrncat_appends_witness:
  "\<exists>m'. kstrncat (demo_bytes(21 \<mapsto> 0)) 20 10 1 = Some (20, m') \<and> cstr m' 20 [1, 65]"
proof -
  have "cstr (demo_bytes(21 \<mapsto> 0)) 20 [1]" "cstr (demo_bytes(21 \<mapsto> 0)) 10 [65, 66]"
    by (simp_all add: demo_bytes_def)
  from kstrncat_appends [OF this, of 1] demo_room(3) show ?thesis
    by (simp add: numeral_3_eq_3)
qed

text \<open>Strcmp on two strings always returns, and its result is the lexicographic
  comparison of their bytes: a total order whose zero is equality.\<close>
theorem kstrcmp_orders:
  assumes "cstr m a xs" "cstr m b ys"
  shows "kstrcmp m a b = Some (cmp_bytes xs ys) \<and> kstrcmp m b a = Some (- cmp_bytes xs ys)
     \<and> (kstrcmp m a b = Some 0 \<longleftrightarrow> xs = ys)"
  using strcmp_spec [OF assms] strcmp_spec [OF assms(2,1)]
  by (simp add: cmp_bytes_anti [of ys xs] cmp_bytes_eq)

lemma kstrcmp_orders_witness: "kstrcmp demo_bytes 10 11 = Some (- 1)"
  using kstrcmp_orders [OF demo_str] by (simp del: cstr.simps)

end
