(* ===== verification/Murmur.thy ===== *)
theory Murmur
  imports KPrelude
begin

text \<open>
  The Murmur3 hashes of kernel/lib/hash.c, word for word in 32 and in 64 bits.
  The data is a list of the readable bytes (None is the NULL pointer); a read
  behind them is None. The lemmas show that every mixing step is injective,
  which the dictionary's use of the hash as the identity of a key rests on.
\<close>

definition rotl32 :: "nat \<Rightarrow> u32 \<Rightarrow> u32" where
  "rotl32 n k = push_bit n k OR drop_bit (32 - n) k"

definition rotl64 :: "nat \<Rightarrow> u64 \<Rightarrow> u64" where
  "rotl64 n k = push_bit n k OR drop_bit (64 - n) k"

definition mix_k32 :: "u32 \<Rightarrow> u32" where
  "mix_k32 k = rotl32 15 (k * 0xcc9e2d51) * 0x1b873593"

definition mix_h32 :: "u32 \<Rightarrow> u32 \<Rightarrow> u32" where
  "mix_h32 h k = rotl32 13 (h XOR mix_k32 k) * 5 + 0xe6546b64"

primrec blocks32 :: "u8 list \<Rightarrow> nat \<Rightarrow> nat \<Rightarrow> u32 \<Rightarrow> u32 option" where
  "blocks32 data i 0 h = Some h"
| "blocks32 data i (Suc n) h = do {
     k \<leftarrow> read_le data (4 * i) 4;
     blocks32 data (Suc i) n (mix_h32 h k) }"

text \<open>The fall-through switch over the last nbytes AND 3 bytes at offset t.\<close>

definition tail32 :: "u8 list \<Rightarrow> nat \<Rightarrow> u64 \<Rightarrow> u32 \<Rightarrow> u32 option" where
  "tail32 data t r h = (if r = 0 then Some h else do {
     k3 \<leftarrow> (if r = 3 then do { b \<leftarrow> read_le data (t + 2) 1; Some (0 XOR push_bit 16 b) } else Some 0);
     k2 \<leftarrow> (if r \<ge> 2 then do { b \<leftarrow> read_le data (t + 1) 1; Some (k3 XOR push_bit 8 b) } else Some k3);
     b \<leftarrow> read_le data t 1;
     Some (h XOR mix_k32 (k2 XOR b)) })"

definition fmix32 :: "u32 \<Rightarrow> u32" where
  "fmix32 h = (let h = h XOR drop_bit 16 h; h = h * 0x85ebca6b;
                   h = h XOR drop_bit 13 h; h = h * 0xc2b2ae35 in
               h XOR drop_bit 16 h)"

definition qhashmurmur3_32 :: "u8 list option \<Rightarrow> u64 \<Rightarrow> u32 option" where
  "qhashmurmur3_32 p nbytes = (case p of None \<Rightarrow> Some 0
   | Some data \<Rightarrow> if nbytes = 0 then Some 0
       else do {
         let nblocks = nat (sint (ucast (nbytes div 4) :: u32));
         h \<leftarrow> blocks32 data 0 nblocks 0;
         h \<leftarrow> tail32 data (nblocks * 4) (nbytes AND 3) h;
         Some (fmix32 (h XOR ucast nbytes)) })"

definition mix_k1 :: "u64 \<Rightarrow> u64" where
  "mix_k1 k = rotl64 31 (k * 0x87c37b91114253d5) * 0x4cf5ad432745937f"

definition mix_k2 :: "u64 \<Rightarrow> u64" where
  "mix_k2 k = rotl64 33 (k * 0x4cf5ad432745937f) * 0x87c37b91114253d5"

definition mix_block :: "u64 \<times> u64 \<Rightarrow> u64 \<Rightarrow> u64 \<Rightarrow> u64 \<times> u64" where
  "mix_block h k1 k2 = (let (h1, h2) = h;
       h1 = (rotl64 27 (h1 XOR mix_k1 k1) + h2) * 5 + 0x52dce729;
       h2 = (rotl64 31 (h2 XOR mix_k2 k2) + h1) * 5 + 0x38495ab5
     in (h1, h2))"

primrec blocks128 :: "u8 list \<Rightarrow> nat \<Rightarrow> nat \<Rightarrow> u64 \<times> u64 \<Rightarrow> (u64 \<times> u64) option" where
  "blocks128 data i 0 h = Some h"
| "blocks128 data i (Suc n) h = do {
     k1 \<leftarrow> read_le data (16 * i) 8;
     k2 \<leftarrow> read_le data (16 * i + 8) 8;
     blocks128 data (Suc i) n (mix_block h k1 k2) }"

text \<open>
  The 15-way switch: from the last byte down each case adds its byte, shifted
  to its place, to k2 (bytes 8 to 14) or k1 (bytes 0 to 7). xor_bytes d t j n
  is that descent from the case of byte t + n - 1 to the case of byte t.
\<close>

primrec xor_bytes :: "u8 list \<Rightarrow> nat \<Rightarrow> nat \<Rightarrow> u64 \<Rightarrow> u64 option" where
  "xor_bytes data t 0 k = Some k"
| "xor_bytes data t (Suc j) k = do {
     b \<leftarrow> read_le data (t + j) 1;
     xor_bytes data t j (k XOR push_bit (8 * j) b) }"

definition tail128 :: "u8 list \<Rightarrow> nat \<Rightarrow> nat \<Rightarrow> u64 \<times> u64 \<Rightarrow> (u64 \<times> u64) option" where
  "tail128 data t r h = (let (h1, h2) = h in do {
     h2 \<leftarrow> (if r \<ge> 9 then do { k2 \<leftarrow> xor_bytes data (t + 8) (r - 8) 0; Some (h2 XOR mix_k2 k2) } else Some h2);
     h1 \<leftarrow> (if r \<ge> 1 then do { k1 \<leftarrow> xor_bytes data t (min r 8) 0; Some (h1 XOR mix_k1 k1) } else Some h1);
     Some (h1, h2) })"

definition fmix64 :: "u64 \<Rightarrow> u64" where
  "fmix64 h = (let h = h XOR drop_bit 33 h; h = h * 0xff51afd7ed558ccd;
                   h = h XOR drop_bit 33 h; h = h * 0xc4ceb9fe1a85ec53 in
               h XOR drop_bit 33 h)"

definition final128 :: "u64 \<Rightarrow> u64 \<times> u64 \<Rightarrow> u64 \<times> u64" where
  "final128 nbytes h = (let (h1, h2) = h;
       h1 = h1 XOR nbytes; h2 = h2 XOR nbytes;
       h1 = h1 + h2; h2 = h2 + h1;
       h1 = fmix64 h1; h2 = fmix64 h2;
       h1 = h1 + h2; h2 = h2 + h1
     in (h1, h2))"

text \<open>The two words written to retbuf, or None for the result false.\<close>

definition qhashmurmur3_128 :: "u8 list option \<Rightarrow> u64 \<Rightarrow> (u64 \<times> u64) option option" where
  "qhashmurmur3_128 p nbytes = (case p of None \<Rightarrow> Some None
   | Some data \<Rightarrow> if nbytes = 0 then Some None
       else do {
         let nblocks = nat (sint (ucast (nbytes div 16) :: u32));
         h \<leftarrow> blocks128 data 0 nblocks (0, 0);
         h \<leftarrow> tail128 data (nblocks * 16) (unat (nbytes AND 15)) h;
         Some (Some (final128 nbytes h)) })"


section \<open>The mixing steps are injective\<close>

lemma shift_fix_zero: "0 < n \<Longrightarrow> z = drop_bit n z \<Longrightarrow> z = (0 :: 'a :: len word)"
proof (rule bit_word_eqI)
  fix i assume n: "0 < n" and z: "z = drop_bit n z"
  have step: "bit z j = bit z (j + n)" for j
    using arg_cong [OF z, of "\<lambda>w. bit w j"] by (simp add: bit_drop_bit_eq add.commute)
  have "bit z j = bit z (j + k * n)" for j k
    by (induction k arbitrary: j) (use step in \<open>auto simp: add.assoc [symmetric]\<close>)
  moreover have "LENGTH('a) \<le> i + LENGTH('a) * n" using n by (simp add: trans_le_add2)
  ultimately show "bit z i = bit (0 :: 'a word) i" using word_bit_beyond by (metis bit_0_eq bot_apply bot_bool_def)
qed

lemma xor_shift_inj: "0 < n \<Longrightarrow> x XOR drop_bit n x = y XOR drop_bit n y \<Longrightarrow> x = (y :: 'a :: len word)"
proof -
  assume n: "0 < n" and eq: "x XOR drop_bit n x = y XOR drop_bit n y"
  have "x XOR y = drop_bit n (x XOR y)"
  proof (rule bit_word_eqI)
    fix i
    have "bit (x XOR drop_bit n x) i = bit (y XOR drop_bit n y) i" using eq by simp
    then show "bit (x XOR y) i = bit (drop_bit n (x XOR y)) i" by (simp add: bit_simps) blast
  qed
  then have "x XOR y = 0" by (rule shift_fix_zero [OF n])
  then show ?thesis by (rule xor_zero)
qed

lemma rotl32_inj: "0 < n \<Longrightarrow> n < 32 \<Longrightarrow> rotl32 n x = rotl32 n y \<Longrightarrow> x = y"
proof (rule bit_word_eqI)
  fix i assume n: "0 < n" "n < 32" and eq: "rotl32 n x = rotl32 n y" and i: "i < LENGTH(32)"
  show "bit x i = bit y i"
  proof (cases "i + n < 32")
    case True
    have "bit (rotl32 n x) (i + n) = bit (rotl32 n y) (i + n)" using eq by simp
    moreover have "\<not> bit z (32 + i)" for z :: u32 by (rule word_bit_beyond) simp
    ultimately show ?thesis using True n by (simp add: rotl32_def bit_simps)
  next
    case False
    have "bit (rotl32 n x) (i + n - 32) = bit (rotl32 n y) (i + n - 32)" using eq by simp
    moreover have "\<not> n \<le> i + n - 32" using n i by simp
    ultimately show ?thesis using False n i by (simp add: rotl32_def bit_simps)
  qed
qed

lemma mult_inj: "c * d = 1 \<Longrightarrow> x * c = y * c \<Longrightarrow> x = (y :: 'a :: len word)"
  by (metis mult.assoc mult.right_neutral)

lemma mix_k32_inj: "mix_k32 x = mix_k32 y \<Longrightarrow> x = y"
proof -
  assume "mix_k32 x = mix_k32 y"
  then have "rotl32 15 (x * 0xcc9e2d51) = rotl32 15 (y * 0xcc9e2d51)"
    unfolding mix_k32_def by (rule mult_inj [of _ "0x56ed309b", rotated]) simp
  then have "x * 0xcc9e2d51 = y * 0xcc9e2d51" by (rule rotl32_inj [rotated 2]) simp_all
  then show "x = y" by (rule mult_inj [of _ "0xdee13bb1", rotated]) simp
qed


lemma mix_h32_inj_k: "mix_h32 h x = mix_h32 h y \<Longrightarrow> x = y"
proof -
  assume "mix_h32 h x = mix_h32 h y"
  then have "rotl32 13 (h XOR mix_k32 x) * 5 = rotl32 13 (h XOR mix_k32 y) * 5"
    by (simp add: mix_h32_def)
  then have "rotl32 13 (h XOR mix_k32 x) = rotl32 13 (h XOR mix_k32 y)"
    by (rule mult_inj [of _ "0xcccccccd", rotated]) simp
  then have "h XOR mix_k32 x = h XOR mix_k32 y" by (rule rotl32_inj [rotated 2]) simp_all
  then have "mix_k32 x = mix_k32 y" by (rule xor_left_cancel)
  then show "x = y" by (rule mix_k32_inj)
qed

lemma mix_h32_inj_h: "mix_h32 g k = mix_h32 h k \<Longrightarrow> g = h"
proof -
  assume "mix_h32 g k = mix_h32 h k"
  then have "rotl32 13 (g XOR mix_k32 k) * 5 = rotl32 13 (h XOR mix_k32 k) * 5"
    by (simp add: mix_h32_def)
  then have "rotl32 13 (g XOR mix_k32 k) = rotl32 13 (h XOR mix_k32 k)"
    by (rule mult_inj [of _ "0xcccccccd", rotated]) simp
  then have "g XOR mix_k32 k = h XOR mix_k32 k" by (rule rotl32_inj [rotated 2]) simp_all
  then show "g = h" by (rule xor_right_cancel)
qed

lemma fmix32_inj: "fmix32 x = fmix32 y \<Longrightarrow> x = y"
proof -
  assume "fmix32 x = fmix32 y"
  then have "(let h = (x XOR drop_bit 16 x) * 0x85ebca6b in (h XOR drop_bit 13 h) * 0xc2b2ae35)
      = (let h = (y XOR drop_bit 16 y) * 0x85ebca6b in (h XOR drop_bit 13 h) * 0xc2b2ae35)"
    unfolding fmix32_def Let_def by (rule xor_shift_inj [rotated]) simp
  then have "(let h = (x XOR drop_bit 16 x) * 0x85ebca6b in h XOR drop_bit 13 h)
      = (let h = (y XOR drop_bit 16 y) * 0x85ebca6b in h XOR drop_bit 13 h)"
    unfolding Let_def by (rule mult_inj [of _ "0x7ed1b41d", rotated]) simp
  then have "(x XOR drop_bit 16 x) * 0x85ebca6b = (y XOR drop_bit 16 y) * 0x85ebca6b"
    unfolding Let_def by (rule xor_shift_inj [rotated]) simp
  then have "x XOR drop_bit 16 x = y XOR drop_bit 16 y"
    by (rule mult_inj [of _ "0xa5cb9243", rotated]) simp
  then show "x = y" by (rule xor_shift_inj [rotated]) simp
qed

lemmas murmur_inj = mix_k32_inj mix_h32_inj_k mix_h32_inj_h fmix32_inj


section \<open>Blocks\<close>

lemma blocks32_inj_h: "blocks32 data i n g = Some r \<Longrightarrow> blocks32 data i n h = Some r \<Longrightarrow> g = h"
proof (induction n arbitrary: i g h)
  case (Suc n)
  then obtain k where "blocks32 data (Suc i) n (mix_h32 g k) = Some r"
      "blocks32 data (Suc i) n (mix_h32 h k) = Some r"
    by (auto simp: bind_Some_conv)
  then show ?case using Suc.IH mix_h32_inj_h by blast
qed simp

lemma blocks32_cong:
  "(\<And>j. i \<le> j \<Longrightarrow> j < i + n \<Longrightarrow> (read_le d (4 * j) 4 :: u32 option) = read_le e (4 * j) 4) \<Longrightarrow>
     blocks32 d i n h = blocks32 e i n h"
  by (induction n arbitrary: i h) simp_all

lemma blocks32_split: "blocks32 d i (j + n) h = (blocks32 d i j h \<bind> blocks32 d (i + j) n)"
  by (induction j arbitrary: i h) (auto simp: Option.bind_assoc)

lemma blocks32_total: "4 * (i + n) \<le> length d \<Longrightarrow> \<exists>r. blocks32 d i n h = Some r"
  by (induction n arbitrary: i h) (auto simp: read_le_def)

lemma blocks32_differ:
  assumes len: "length d = length e" "4 * n \<le> length d" and j: "j < n"
    and same: "\<And>k. k < length d \<Longrightarrow> k < 4 * j \<or> 4 * j + 4 \<le> k \<Longrightarrow> d ! k = e ! k"
    and ne: "take 4 (drop (4 * j) d) \<noteq> take 4 (drop (4 * j) e)"
  shows "blocks32 d 0 n h \<noteq> blocks32 e 0 n h"
proof
  assume eq: "blocks32 d 0 n h = blocks32 e 0 n h"
  have reads: "(read_le d (4 * k) 4 :: u32 option) = read_le e (4 * k) 4" if "k \<noteq> j" "k < n" for k
  proof -
    have "take 4 (drop (4 * k) d) = take 4 (drop (4 * k) e)"
    proof (rule nth_equalityI)
      fix i assume "i < length (take 4 (drop (4 * k) d))"
      then have i: "i < 4" by simp
      have "4 * k + i < 4 * j \<or> 4 * j + 4 \<le> 4 * k + i" using that(1) i by linarith
      then have "d ! (4 * k + i) = e ! (4 * k + i)" using same len that i by auto
      then show "take 4 (drop (4 * k) d) ! i = take 4 (drop (4 * k) e) ! i" using i len that by simp
    qed (use len in simp)
    then show ?thesis using len by (simp add: read_le_def)
  qed
  obtain g where g: "blocks32 d 0 j h = Some g" using blocks32_total [of 0 j d h] len j by auto
  then have ge: "blocks32 e 0 j h = Some g"
    using blocks32_cong [of 0 j d e h] reads j by simp
  define a b where "a = (le_word (take 4 (drop (4 * j) d)) :: u32)" and "b = (le_word (take 4 (drop (4 * j) e)) :: u32)"
  have ab: "a \<noteq> b" unfolding a_def b_def using ne len j by (auto dest!: le_word_inj)
  have split: "n = j + Suc (n - Suc j)" using j by simp
  obtain r where r: "blocks32 d 0 n h = Some r" using blocks32_total [of 0 n d h] len by auto
  have sp: "blocks32 f 0 n h = (blocks32 f 0 j h \<bind> blocks32 f j (Suc (n - Suc j)))" for f
    using blocks32_split [of f 0 j "Suc (n - Suc j)" h] split by simp
  have "blocks32 d (Suc j) (n - Suc j) (mix_h32 g a) = Some r"
    using r g len j unfolding sp by (simp add: read_le_def a_def)
  moreover have "blocks32 e (Suc j) (n - Suc j) (mix_h32 g b) = Some r"
    using r eq ge len j unfolding sp by (simp add: read_le_def b_def)
  moreover have "blocks32 e (Suc j) (n - Suc j) (mix_h32 g b) = blocks32 d (Suc j) (n - Suc j) (mix_h32 g b)"
    using reads by (intro blocks32_cong) auto
  ultimately have "mix_h32 g a = mix_h32 g b" using blocks32_inj_h by metis
  then show False using ab mix_h32_inj_k by blast
qed

lemma nblocks_small:
  assumes "unat (nbytes :: u64) < 2 ^ 33"
  shows "nat (sint (ucast (nbytes div 4) :: u32)) = unat nbytes div 4"
proof -
  have "unat nbytes div 4 < 2 ^ 31" using assms by (simp add: div_less_iff_less_mult)
  then have "unat (ucast (nbytes div 4) :: u32) = unat nbytes div 4"
    by (simp add: unat_div unsigned_ucast_eq take_bit_eq_mod)
  moreover from this have "unat (ucast (nbytes div 4) :: u32) < 2 ^ 31"
    using \<open>unat nbytes div 4 < 2 ^ 31\<close> by simp
  ultimately show ?thesis using sint_small by simp
qed

lemma tail32_total:
  assumes "length d = unat nbytes" "t = unat nbytes div 4 * 4"
  shows "\<exists>r. tail32 d t (nbytes AND 3) h = Some r"
proof -
  have r: "unat (nbytes AND 3) = unat nbytes mod 4" by (rule unat_and_3)
  have "t + unat (nbytes AND 3) = length d" unfolding r assms by simp
  moreover have "unat (nbytes AND 3) < 4" unfolding r by simp
  ultimately show ?thesis
    by (auto simp: tail32_def read_le_def word_unat_eq_iff word_le_nat_alt)
qed

lemma tail32_inj_h:
  "tail32 d t r g = Some x \<Longrightarrow> tail32 d t r h = Some x \<Longrightarrow> g = h"
  by (auto simp: tail32_def bind_Some_conv split: if_splits dest!: xor_right_cancel)

lemma murmur32_total:
  assumes "length d = unat nbytes" "unat nbytes < 2 ^ 33"
  shows "\<exists>r. qhashmurmur3_32 (Some d) nbytes = Some r"
proof -
  let ?n = "unat nbytes div 4"
  obtain h where h: "blocks32 d 0 ?n 0 = Some h"
    using blocks32_total [of 0 ?n d 0] assms(1) by auto
  obtain k where k: "tail32 d (?n * 4) (nbytes AND 3) h = Some k"
    using tail32_total [OF assms(1)] by blast
  show ?thesis using h k
    by (auto simp: qhashmurmur3_32_def nblocks_small [OF assms(2)] Let_def)
qed

lemma murmur32_differ:
  assumes len: "length d = unat nbytes" "length e = unat nbytes" "unat nbytes < 2 ^ 33"
    and j: "4 * j + 4 \<le> length d"
    and same: "\<And>k. k < length d \<Longrightarrow> k < 4 * j \<or> 4 * j + 4 \<le> k \<Longrightarrow> d ! k = e ! k"
    and ne: "d \<noteq> e"
  shows "qhashmurmur3_32 (Some d) nbytes \<noteq> qhashmurmur3_32 (Some e) nbytes"
proof
  assume eq: "qhashmurmur3_32 (Some d) nbytes = qhashmurmur3_32 (Some e) nbytes"
  let ?n = "unat nbytes div 4"
  have jn: "j < ?n" using j len(1) by (simp add: less_eq_div_iff_mult_less_eq Suc_le_eq [symmetric])
  have nz: "nbytes \<noteq> 0" using j len(1) by auto
  have blk: "take 4 (drop (4 * j) d) \<noteq> take 4 (drop (4 * j) e)"
  proof
    assume t: "take 4 (drop (4 * j) d) = take 4 (drop (4 * j) e)"
    have "d ! k = e ! k" if k: "k < length d" for k
    proof (cases "k < 4 * j \<or> 4 * j + 4 \<le> k")
      case True then show ?thesis using same k by blast
    next
      case False
      then have i: "k = 4 * j + (k - 4 * j)" "k - 4 * j < 4" by auto
      have "take 4 (drop (4 * j) d) ! (k - 4 * j) = take 4 (drop (4 * j) e) ! (k - 4 * j)" using t by simp
      then show ?thesis using i j len by simp
    qed
    then have "d = e" using len by (intro nth_equalityI) auto
    with ne show False by contradiction
  qed
  have "blocks32 d 0 ?n 0 \<noteq> blocks32 e 0 ?n 0"
    using blocks32_differ [of d e ?n j 0] len jn same blk by simp
  then obtain g h where gh: "blocks32 d 0 ?n 0 = Some g" "blocks32 e 0 ?n 0 = Some h" "g \<noteq> h"
    using blocks32_total [of 0 ?n d 0] blocks32_total [of 0 ?n e 0] len by auto
  obtain a where a: "tail32 d (?n * 4) (nbytes AND 3) g = Some a"
    using tail32_total [OF len(1)] by blast
  obtain b where b: "tail32 e (?n * 4) (nbytes AND 3) h = Some b"
    using tail32_total [OF len(2)] by blast
  have "fmix32 (a XOR ucast nbytes) = fmix32 (b XOR ucast nbytes)"
    using eq gh a b nz by (simp add: qhashmurmur3_32_def nblocks_small [OF len(3)] Let_def)
  then have "a = b" using fmix32_inj xor_right_cancel by blast
  moreover have "read_le d i 1 = (read_le e i 1 :: u32 option)" if "?n * 4 \<le> i" for i
  proof -
    have "4 * j + 4 \<le> i" using jn that by linarith
    then have "take 1 (drop i d) = take 1 (drop i e)"
      using len same by (intro nth_equalityI) auto
    then show ?thesis using len by (simp add: read_le_def)
  qed
  then have "tail32 d (?n * 4) (nbytes AND 3) h = tail32 e (?n * 4) (nbytes AND 3) h"
    by (simp add: tail32_def)
  ultimately show False using a b gh(3) tail32_inj_h by metis
qed


section \<open>Properties\<close>

text \<open>The 32-bit hash always returns, and two keys of one length that differ
  only inside one aligned four-byte block never have the same hash.\<close>
theorem murmur32_block_sensitive:
  assumes "length d = unat nbytes" "length e = unat nbytes" "unat nbytes < 2 ^ 33"
    and "4 * j + 4 \<le> length d" "d \<noteq> e"
    and "\<And>k. k < length d \<Longrightarrow> k < 4 * j \<or> 4 * j + 4 \<le> k \<Longrightarrow> d ! k = e ! k"
  shows "\<exists>x y. qhashmurmur3_32 (Some d) nbytes = Some x \<and> qhashmurmur3_32 (Some e) nbytes = Some y \<and> x \<noteq> y"
  using murmur32_total [OF assms(1,3)] murmur32_total [OF assms(2,3)]
    murmur32_differ [OF assms(1-4) assms(6,5)] by auto

lemma murmur32_block_sensitive_witness:
  "\<exists>x y. qhashmurmur3_32 (Some [75, 105, 114, 107, 1]) 5 = Some x
     \<and> qhashmurmur3_32 (Some [75, 105, 114, 108, 1]) 5 = Some y \<and> x \<noteq> y"
proof (rule murmur32_block_sensitive)
  show "[75, 105, 114, 107, 1] ! k = [75, 105, 114, 108, 1 :: u8] ! k"
    if "k < length [75, 105, 114, 107, 1 :: u8]" "k < 4 * 0 \<or> 4 * 0 + 4 \<le> k" for k
  proof -
    have "k = 4" using that by simp
    then show ?thesis by simp
  qed
qed simp_all

end
