(* ===== verification/Dictionary.thy ===== *)
theory Dictionary
  imports Murmur
begin

text \<open>
  The string-keyed dictionary of kernel/lib/dictionary.c: a doubly linked list
  of items in the object store, in insertion order, an item being recognised
  by the 32-bit Murmur hash of its key alone. Key buffers are blocks of bytes
  in a second store: vmalloc returns the next block, whose size is the
  allocator's choice, and copying a key into a block too small for the key and
  its NUL is an overrun (None). A field the code does not initialise
  (modified) keeps the stale contents of its block. The functions with a
  missing return are modelled by their effect.
\<close>

section \<open>State\<close>

record 'v vi_dictionary_item =
  it_key :: addr
  it_value :: 'v
  it_hash :: u32
  it_modified :: u32
  it_prev :: addr
  it_next :: addr

record 'v vi_dictionary =
  d_head :: addr
  d_tail :: addr
  d_count :: u32
  d_items :: "'v vi_dictionary_item store"
  d_keys :: "u8 list store"

definition rd_item :: "addr \<Rightarrow> 'v vi_dictionary \<Rightarrow> 'v vi_dictionary_item option" where
  "rd_item a d = st_read a (d_items d)"

definition wr_item :: "addr \<Rightarrow> ('v vi_dictionary_item \<Rightarrow> 'v vi_dictionary_item) \<Rightarrow>
    'v vi_dictionary \<Rightarrow> 'v vi_dictionary option" where
  "wr_item a f d = do { s \<leftarrow> st_update a f (d_items d); Some (d\<lparr>d_items := s\<rparr>) }"

definition free_item :: "addr \<Rightarrow> 'v vi_dictionary \<Rightarrow> 'v vi_dictionary option" where
  "free_item a d = do { s \<leftarrow> st_free a (d_items d); Some (d\<lparr>d_items := s\<rparr>) }"

definition free_key :: "addr \<Rightarrow> 'v vi_dictionary \<Rightarrow> 'v vi_dictionary option" where
  "free_key a d = do { s \<leftarrow> st_free a (d_keys d); Some (d\<lparr>d_keys := s\<rparr>) }"

definition strcpy_block :: "u8 list \<Rightarrow> u8 list \<Rightarrow> u8 list option" where
  "strcpy_block key blk =
     (if length key + 1 \<le> length blk then Some (key @ 0 # drop (length key + 1) blk) else None)"

definition block_string :: "u8 list \<Rightarrow> u8 list option" where
  "block_string blk = (if 0 \<in> set blk then Some (takeWhile (\<lambda>c. c \<noteq> 0) blk) else None)"

definition vi_hash :: "u8 list \<Rightarrow> u32 option" where
  "vi_hash key = qhashmurmur3_32 (Some key) (of_nat (length key))"


section \<open>Operations\<close>

definition vi_dictionary_create :: "'v vi_dictionary \<Rightarrow> int \<times> 'v vi_dictionary" where
  "vi_dictionary_create d = (0, d\<lparr>d_head := NULL, d_tail := NULL, d_count := 0\<rparr>)"

partial_function (option) destroy_loop :: "'v vi_dictionary \<Rightarrow> 'v vi_dictionary option" where
  "destroy_loop d = do {
     let item = d_head d;
     i \<leftarrow> rd_item item d;
     let d1 = d\<lparr>d_head := it_next i\<rparr>;
     d2 \<leftarrow> free_key (it_key i) d1;
     d3 \<leftarrow> free_item item d2;
     let d4 = d3\<lparr>d_count := d_count d3 - 1\<rparr>;
     if d_head d4 \<noteq> NULL then destroy_loop d4 else Some d4 }"

definition vi_dictionary_destroy :: "'v vi_dictionary \<Rightarrow> 'v vi_dictionary option" where
  "vi_dictionary_destroy d = (if d_head d = NULL then Some d else destroy_loop d)"

partial_function (option) search_item :: "u32 \<Rightarrow> addr \<Rightarrow> 'v vi_dictionary \<Rightarrow> addr option" where
  "search_item h item d = do {
     i \<leftarrow> rd_item item d;
     if it_hash i = h then Some item
     else if it_next i \<noteq> NULL then search_item h (it_next i) d
     else Some NULL }"

definition vi_dictionary_get_item :: "'v vi_dictionary \<Rightarrow> u8 list \<Rightarrow> addr option" where
  "vi_dictionary_get_item d key =
     (if d_head d = NULL then Some NULL
      else do {
        h \<leftarrow> vi_hash key;
        search_item h (d_head d) d })"

definition vi_dictionary_get_value :: "'v vi_dictionary \<Rightarrow> u8 list \<Rightarrow> 'v option option" where
  "vi_dictionary_get_value d key =
     (if d_head d = NULL then Some None
      else do {
        item \<leftarrow> vi_dictionary_get_item d key;
        if item = NULL then Some None
        else do { i \<leftarrow> rd_item item d; Some (Some (it_value i)) } })"

definition new_item :: "u8 list \<Rightarrow> 'v \<Rightarrow> 'v vi_dictionary \<Rightarrow> (addr \<times> 'v vi_dictionary) option" where
  "new_item key v d = (let (item, si) = st_alloc (d_items d);
                           (kb, sk) = st_alloc (d_keys d);
                           d = d\<lparr>d_items := si, d_keys := sk\<rparr> in do {
     d \<leftarrow> wr_item item (\<lambda>i. i\<lparr>it_key := kb\<rparr>) d;
     blk \<leftarrow> st_read kb (d_keys d);
     blk' \<leftarrow> strcpy_block key blk;
     sk \<leftarrow> st_update kb (\<lambda>_. blk') (d_keys d);
     let d = d\<lparr>d_keys := sk\<rparr>;
     d \<leftarrow> wr_item item (\<lambda>i. i\<lparr>it_value := v\<rparr>) d;
     k \<leftarrow> block_string blk';
     h \<leftarrow> vi_hash k;
     d \<leftarrow> wr_item item (\<lambda>i. i\<lparr>it_hash := h\<rparr>) d;
     d \<leftarrow> wr_item item (\<lambda>i. i\<lparr>it_next := NULL\<rparr>) d;
     Some (item, d) })"

definition vi_dictionary_add :: "'v vi_dictionary \<Rightarrow> u8 list \<Rightarrow> 'v \<Rightarrow> 'v vi_dictionary option" where
  "vi_dictionary_add d key v = do {
     old_item \<leftarrow> vi_dictionary_get_item d key;
     if old_item \<noteq> NULL then do {
       d \<leftarrow> wr_item old_item (\<lambda>i. i\<lparr>it_value := v\<rparr>) d;
       wr_item old_item (\<lambda>i. i\<lparr>it_modified := it_modified i + 1\<rparr>) d }
     else do {
       (item, d) \<leftarrow> new_item key v d;
       if d_tail d = NULL then do {
         d \<leftarrow> wr_item item (\<lambda>i. i\<lparr>it_prev := NULL\<rparr>) d;
         Some (d\<lparr>d_tail := item, d_head := item, d_count := 1\<rparr>) }
       else do {
         d \<leftarrow> wr_item item (\<lambda>i. i\<lparr>it_prev := d_tail d\<rparr>) d;
         d \<leftarrow> wr_item (d_tail d) (\<lambda>i. i\<lparr>it_next := item\<rparr>) d;
         Some (d\<lparr>d_tail := item, d_count := d_count d + 1\<rparr>) } } }"

definition vi_dictionary_remove_key :: "'v vi_dictionary \<Rightarrow> u8 list \<Rightarrow> 'v vi_dictionary option" where
  "vi_dictionary_remove_key d key = do {
     item \<leftarrow> vi_dictionary_get_item d key;
     if item = NULL then Some d
     else do {
       i \<leftarrow> rd_item item d;
       d \<leftarrow> (if it_prev i \<noteq> NULL then wr_item (it_prev i) (\<lambda>x. x\<lparr>it_next := it_next i\<rparr>) d else Some d);
       i \<leftarrow> rd_item item d;
       d \<leftarrow> (if it_next i \<noteq> NULL then wr_item (it_next i) (\<lambda>x. x\<lparr>it_prev := it_prev i\<rparr>) d else Some d);
       let d = d\<lparr>d_count := d_count d - 1\<rparr>;
       i \<leftarrow> rd_item item d;
       d \<leftarrow> free_key (it_key i) d;
       free_item item d } }"

definition vi_dictionary_has_key :: "'v vi_dictionary \<Rightarrow> u8 list \<Rightarrow> bool option" where
  "vi_dictionary_has_key d key = do {
     h \<leftarrow> vi_hash key;
     if d_head d = NULL then Some False
     else do { r \<leftarrow> search_item h (d_head d) d; Some (r \<noteq> NULL) } }"

partial_function (option) for_each_item ::
    "(u8 list \<Rightarrow> 'v \<Rightarrow> 'c \<Rightarrow> 'c) \<Rightarrow> addr \<Rightarrow> 'v vi_dictionary \<Rightarrow> 'c \<Rightarrow> 'c option" where
  "for_each_item f item d c = do {
     i \<leftarrow> rd_item item d;
     blk \<leftarrow> st_read (it_key i) (d_keys d);
     k \<leftarrow> block_string blk;
     let c' = f k (it_value i) c;
     if it_next i \<noteq> NULL then for_each_item f (it_next i) d c' else Some c' }"

text \<open>The callbacks get the key and the value; their effects are the state c.\<close>

definition vi_dictionary_for_each ::
    "(u8 list \<Rightarrow> 'v \<Rightarrow> 'c \<Rightarrow> 'c) \<Rightarrow> 'v vi_dictionary \<Rightarrow> 'c \<Rightarrow> 'c option" where
  "vi_dictionary_for_each f d c =
     (if d_head d = NULL then Some c else for_each_item f (d_head d) d c)"

section \<open>Representation\<close>

type_synonym 'v entries = "(addr \<times> 'v vi_dictionary_item) list"

primrec ifirst :: "addr \<Rightarrow> 'v entries \<Rightarrow> addr" where
  "ifirst nx [] = nx"
| "ifirst nx (x # xs) = fst x"

primrec ilast :: "addr \<Rightarrow> 'v entries \<Rightarrow> addr" where
  "ilast pv [] = pv"
| "ilast pv (x # xs) = ilast (fst x) xs"

primrec iseg :: "(addr \<rightharpoonup> 'v vi_dictionary_item) \<Rightarrow> addr \<Rightarrow> addr \<Rightarrow> 'v entries \<Rightarrow> bool" where
  "iseg h pv nx [] = True"
| "iseg h pv nx (x # xs) \<longleftrightarrow> h (fst x) = Some (snd x) \<and> it_prev (snd x) = pv
     \<and> it_next (snd x) = ifirst nx xs \<and> iseg h (fst x) nx xs"

definition dict_rep :: "'v vi_dictionary \<Rightarrow> 'v entries \<Rightarrow> bool" where
  "dict_rep d ns \<longleftrightarrow> store_wf (d_items d) \<and> store_wf (d_keys d)
     \<and> d_head d = ifirst NULL ns \<and> d_tail d = ilast NULL ns \<and> d_count d = of_nat (length ns)
     \<and> distinct (map fst ns) \<and> iseg (cells (d_items d)) NULL NULL ns
     \<and> distinct (map (it_hash \<circ> snd) ns) \<and> distinct (map (it_key \<circ> snd) ns)
     \<and> (\<forall>x \<in> set ns. cells (d_keys d) (it_key (snd x)) \<noteq> None)"

definition dict_map :: "'v entries \<Rightarrow> u32 \<rightharpoonup> 'v" where
  "dict_map ns = map_of (map (\<lambda>x. (it_hash (snd x), it_value (snd x))) ns)"

lemma iseg_frame [simp]: "a \<notin> fst ` set ns \<Longrightarrow> iseg (h(a := v)) pv nx ns = iseg h pv nx ns"
  by (induction ns arbitrary: pv) auto

lemma iseg_live: "iseg h pv nx ns \<Longrightarrow> x \<in> set ns \<Longrightarrow> h (fst x) = Some (snd x)"
  by (induction ns arbitrary: pv) auto

lemma ilast_append [simp]: "ilast pv (xs @ ys) = ilast (ilast pv xs) ys"
  by (induction xs arbitrary: pv) auto

lemma ifirst_append [simp]: "ifirst nx (xs @ ys) = ifirst (ifirst nx ys) xs"
  by (cases xs) auto

lemma iseg_append [simp]:
  "iseg h pv nx (xs @ ys) \<longleftrightarrow> iseg h pv (ifirst nx ys) xs \<and> iseg h (ilast pv xs) nx ys"
  by (induction xs arbitrary: pv) auto

lemma dict_rep_nonnull: "dict_rep d ns \<Longrightarrow> NULL \<notin> fst ` set ns"
  using iseg_live by (fastforce simp: dict_rep_def)

lemma rd_item_simp [store_simps]: "rd_item a d = cells (d_items d) a"
  by (simp add: rd_item_def store_simps)

lemma wr_item_live [store_simps]:
  "cells (d_items d) a = Some v \<Longrightarrow>
    wr_item a f d = Some (d\<lparr>d_items := (d_items d)\<lparr>cells := (cells (d_items d))(a \<mapsto> f v)\<rparr>\<rparr>)"
  by (simp add: wr_item_def store_simps)

lemma wr_item_dead [store_simps]: "cells (d_items d) a = None \<Longrightarrow> wr_item a f d = None"
  by (simp add: wr_item_def store_simps)

lemma search_item_find:
  "iseg (cells (d_items d)) pv NULL ns \<Longrightarrow> ns \<noteq> [] \<Longrightarrow> NULL \<notin> fst ` set ns \<Longrightarrow>
     search_item h (ifirst NULL ns) d
       = Some (case List.find (\<lambda>x. it_hash (snd x) = h) ns of None \<Rightarrow> NULL | Some x \<Rightarrow> fst x)"
proof (induction ns arbitrary: pv)
  case (Cons x xs)
  then show ?case
    by (cases xs) (subst search_item.simps, auto simp: store_simps)+
qed simp

lemma get_item_find:
  assumes "dict_rep d ns" "vi_hash key = Some h"
  shows "vi_dictionary_get_item d key
       = Some (case List.find (\<lambda>x. it_hash (snd x) = h) ns of None \<Rightarrow> NULL | Some x \<Rightarrow> fst x)"
proof (cases ns)
  case Nil
  then show ?thesis using assms by (simp add: vi_dictionary_get_item_def dict_rep_def)
next
  case (Cons x xs)
  have "d_head d \<noteq> NULL" using dict_rep_nonnull [OF assms(1)] assms(1) Cons by (auto simp: dict_rep_def)
  then show ?thesis using search_item_find [of d NULL ns h] dict_rep_nonnull [OF assms(1)] assms Cons
    by (simp add: vi_dictionary_get_item_def dict_rep_def)
qed

lemma find_split:
  "List.find P xs = Some x \<Longrightarrow> \<exists>us vs. xs = us @ x # vs \<and> P x \<and> (\<forall>u \<in> set us. \<not> P u)"
proof (induction xs)
  case (Cons y ys)
  show ?case
  proof (cases "P y")
    case True
    then have "y # ys = [] @ x # ys \<and> P x \<and> (\<forall>u \<in> set []. \<not> P u)" using Cons.prems by simp
    then show ?thesis by blast
  next
    case False
    then obtain us vs where "ys = us @ x # vs" "P x" "\<forall>u \<in> set us. \<not> P u"
      using Cons by auto
    then have "y # ys = (y # us) @ x # vs \<and> P x \<and> (\<forall>u \<in> set (y # us). \<not> P u)" using False by simp
    then show ?thesis by blast
  qed
qed simp

lemma find_dict_map:
  "dict_map ns h = map_option (it_value \<circ> snd) (List.find (\<lambda>x. it_hash (snd x) = h) ns)"
  by (induction ns) (auto simp: dict_map_def)

lemma get_value_map:
  assumes "dict_rep d ns" "vi_hash key = Some h"
  shows "vi_dictionary_get_value d key = Some (dict_map ns h)"
proof (cases ns)
  case Nil
  then show ?thesis using assms by (simp add: vi_dictionary_get_value_def dict_rep_def dict_map_def)
next
  case (Cons y ys)
  have nn: "NULL \<notin> fst ` set ns" by (rule dict_rep_nonnull [OF assms(1)])
  then have hd: "d_head d \<noteq> NULL" using assms(1) Cons by (auto simp: dict_rep_def)
  show ?thesis
  proof (cases "List.find (\<lambda>x. it_hash (snd x) = h) ns")
    case None
    then show ?thesis using hd
      by (simp add: vi_dictionary_get_value_def get_item_find [OF assms] find_dict_map)
  next
    case (Some x)
    then have x: "x \<in> set ns" using find_split by fastforce
    then have "cells (d_items d) (fst x) = Some (snd x)"
      using assms(1) iseg_live [OF _ x] unfolding dict_rep_def by blast
    moreover have "fst x \<noteq> NULL" using x nn by auto
    ultimately show ?thesis using hd Some
      by (simp add: vi_dictionary_get_value_def get_item_find [OF assms] find_dict_map store_simps)
  qed
qed

lemma has_key_map:
  assumes "dict_rep d ns" "vi_hash key = Some h"
  shows "vi_dictionary_has_key d key = Some (dict_map ns h \<noteq> None)"
proof (cases ns)
  case Nil
  then show ?thesis using assms by (simp add: vi_dictionary_has_key_def dict_rep_def dict_map_def)
next
  case (Cons y ys)
  have nn: "NULL \<notin> fst ` set ns" by (rule dict_rep_nonnull [OF assms(1)])
  then have hd: "d_head d \<noteq> NULL" using assms(1) Cons by (auto simp: dict_rep_def)
  have "search_item h (d_head d) d
      = Some (case List.find (\<lambda>x. it_hash (snd x) = h) ns of None \<Rightarrow> NULL | Some x \<Rightarrow> fst x)"
    using search_item_find [of d NULL ns h] assms(1) nn Cons by (simp add: dict_rep_def)
  moreover have "fst x \<noteq> NULL" if "List.find (\<lambda>x. it_hash (snd x) = h) ns = Some x" for x
    using nn find_split [OF that] by auto
  ultimately show ?thesis using hd assms(2)
    by (auto simp: vi_dictionary_has_key_def find_dict_map split: option.splits)
qed

section \<open>Adding and removing\<close>

lemma find_none_hash:
  "List.find (\<lambda>x. it_hash (snd x) = h) ns = None \<longleftrightarrow> h \<notin> (it_hash \<circ> snd) ` set ns"
  by (induction ns) auto

lemma add_present:
  assumes r: "dict_rep d ns" and h: "vi_hash key = Some h"
    and f: "List.find (\<lambda>x. it_hash (snd x) = h) ns = Some x"
  shows "\<exists>d' ns'. vi_dictionary_add d key v = Some d' \<and> dict_rep d' ns'
     \<and> dict_map ns' = (dict_map ns)(h \<mapsto> v) \<and> map fst ns' = map fst ns"
proof -
  obtain us vs where ns: "ns = us @ x # vs" and hx: "it_hash (snd x) = h"
    using find_split [OF f] by auto
  let ?i = "(snd x)\<lparr>it_value := v, it_modified := it_modified (snd x) + 1\<rparr>"
  let ?ns = "us @ (fst x, ?i) # vs"
  let ?d = "d\<lparr>d_items := (d_items d)\<lparr>cells := (cells (d_items d))(fst x \<mapsto> ?i)\<rparr>\<rparr>"
  have nn: "fst x \<noteq> NULL" using dict_rep_nonnull [OF r] ns by auto
  have lx: "cells (d_items d) (fst x) = Some (snd x)" using r ns by (simp add: dict_rep_def)
  have "vi_dictionary_add d key v = Some ?d"
    using nn lx f by (simp add: vi_dictionary_add_def get_item_find [OF r h] store_simps)
  moreover have "dict_rep ?d ?ns"
    using r lx unfolding ns dict_rep_def by (auto intro: store_wf_update_cell)
  moreover have "h \<notin> (it_hash \<circ> snd) ` set us" using r unfolding ns dict_rep_def by (auto simp: hx)
  then have "dict_map ?ns = (dict_map ns)(h \<mapsto> v)"
    unfolding ns by (induction us) (auto simp: dict_map_def hx)
  ultimately show ?thesis using ns by fastforce
qed

lemma block_string_copy:
  "0 \<notin> set key \<Longrightarrow> block_string (key @ 0 # xs) = Some key"
  by (induction key) (auto simp: block_string_def)

lemma new_item_result:
  assumes wf: "store_wf (d_items d)" "store_wf (d_keys d)"
    and s: "avail (d_items d) = (a, i) # ri" "avail (d_keys d) = (b, blk) # rk"
    and k: "length key < length blk" "0 \<notin> set key" "vi_hash key = Some h"
  shows "new_item key v d = Some (a, d\<lparr>
      d_items := \<lparr>cells = (cells (d_items d))(a \<mapsto> i\<lparr>it_key := b, it_value := v, it_hash := h, it_next := NULL\<rparr>), avail = ri\<rparr>,
      d_keys := \<lparr>cells = (cells (d_keys d))(b \<mapsto> key @ 0 # drop (length key + 1) blk), avail = rk\<rparr>\<rparr>)"
  using assms by (simp add: new_item_def store_simps strcpy_block_def block_string_copy)

lemma new_item_overrun:
  assumes "avail (d_keys d) = (b, blk) # rk" "length blk \<le> length key"
  shows "new_item key v d = None"
  using assms by (cases "avail (d_items d)") (auto simp: new_item_def store_simps strcpy_block_def
      wr_item_def st_update_def split: option.splits)

lemma add_absent:
  assumes r: "dict_rep d ns" and h: "vi_hash key = Some h" and f: "dict_map ns h = None"
    and s: "avail (d_items d) = (a, i) # ri" "avail (d_keys d) = (b, blk) # rk"
    and k: "length key < length blk" "0 \<notin> set key"
  shows "\<exists>d' ns'. vi_dictionary_add d key v = Some d' \<and> dict_rep d' ns'
     \<and> dict_map ns' = (dict_map ns)(h \<mapsto> v) \<and> map fst ns' = map fst ns @ [a]"
proof -
  have wf: "store_wf (d_items d)" "store_wf (d_keys d)" using r by (simp_all add: dict_rep_def)
  note n = new_item_result [OF wf s k h, of v]
  have fn: "List.find (\<lambda>x. it_hash (snd x) = h) ns = None" using f by (simp add: find_dict_map)
  then have hn: "h \<notin> (it_hash \<circ> snd) ` set ns" by (simp add: find_none_hash)
  have a: "a \<noteq> NULL" "cells (d_items d) a = None" using store_wf_supply [OF wf(1) s(1)] by auto
  have b: "cells (d_keys d) b = None" using store_wf_supply [OF wf(2) s(2)] by auto
  have an: "a \<notin> fst ` set ns" using iseg_live a(2) r unfolding dict_rep_def by fastforce
  have bn: "b \<notin> (it_key \<circ> snd) ` set ns" using b r unfolding dict_rep_def by fastforce
  have w: "store_wf \<lparr>cells = (cells (d_items d))(a \<mapsto> x), avail = ri\<rparr>"
      "store_wf \<lparr>cells = (cells (d_keys d))(b \<mapsto> y), avail = rk\<rparr>" for x y
    using wf s by (auto simp: store_wf_def)
  show ?thesis
  proof (cases ns rule: rev_cases)
    case Nil
    let ?i = "i\<lparr>it_key := b, it_value := v, it_hash := h, it_next := NULL, it_prev := NULL\<rparr>"
    show ?thesis using r n a fn Nil b w
      by (intro exI [of _ "[(a, ?i)]"] exI)
         (auto simp: vi_dictionary_add_def get_item_find [OF r h] dict_rep_def store_simps dict_map_def)
  next
    case (snoc us y)
    let ?i = "i\<lparr>it_key := b, it_value := v, it_hash := h, it_next := NULL, it_prev := fst y\<rparr>"
    let ?y = "(snd y)\<lparr>it_next := a\<rparr>"
    let ?ns = "us @ [(fst y, ?y), (a, ?i)]"
    let ?d = "d\<lparr>d_items := \<lparr>cells = (cells (d_items d))(a \<mapsto> ?i, fst y \<mapsto> ?y), avail = ri\<rparr>,
        d_keys := \<lparr>cells = (cells (d_keys d))(b \<mapsto> key @ 0 # drop (length key + 1) blk), avail = rk\<rparr>,
        d_tail := a, d_count := d_count d + 1\<rparr>"
    have ny: "fst y \<noteq> NULL" "a \<noteq> fst y" using dict_rep_nonnull [OF r] snoc an by auto
    have ly: "cells (d_items d) (fst y) = Some (snd y)" using r snoc by (simp add: dict_rep_def)
    have tl: "d_tail d = fst y" using r snoc by (simp add: dict_rep_def)
    have add: "vi_dictionary_add d key v = Some ?d"
      using n a fn ny tl ly
      by (simp add: vi_dictionary_add_def get_item_find [OF r h] store_simps)
    have wfi: "store_wf \<lparr>cells = (cells (d_items d))(a \<mapsto> ?i, fst y \<mapsto> ?y), avail = ri\<rparr>"
      using wf(1) s(1) ly ny by (auto simp: store_wf_def)
    have wfk: "store_wf \<lparr>cells = (cells (d_keys d))(b \<mapsto> key @ 0 # drop (length key + 1) blk), avail = rk\<rparr>"
      using wf(2) s(2) by (auto simp: store_wf_def)
    have "dict_rep ?d ?ns"
      using r an bn hn b a ny wfi wfk unfolding snoc dict_rep_def
      by auto
    moreover have "dict_map ?ns = (dict_map ns)(h \<mapsto> v)"
    proof -
      have "map_of (map (\<lambda>x. (it_hash (snd x), it_value (snd x))) us) h = None"
        using hn unfolding snoc by (force simp: map_of_eq_None_iff image_iff)
      then show ?thesis using hn unfolding snoc dict_map_def
        by (intro ext) (auto simp: map_add_def split: option.splits)
    qed
    ultimately show ?thesis using add snoc by fastforce
  qed
qed


lemma remove_absent:
  assumes "dict_rep d ns" "vi_hash key = Some h" "dict_map ns h = None"
  shows "vi_dictionary_remove_key d key = Some d"
  using assms by (simp add: vi_dictionary_remove_key_def get_item_find [OF assms(1,2)] find_dict_map)

lemma remove_found:
  assumes r: "dict_rep d ns" and h: "vi_hash key = Some h" and ns: "ns = us @ x # vs"
    and hx: "it_hash (snd x) = h"
  shows "vi_dictionary_get_item d key = Some (fst x)"
proof -
  have "h \<notin> (it_hash \<circ> snd) ` set us" using r unfolding ns dict_rep_def by (auto simp: hx [symmetric])
  then have "List.find (\<lambda>x. it_hash (snd x) = h) ns = Some x"
    unfolding ns by (induction us) (auto simp: hx)
  then show ?thesis by (simp add: get_item_find [OF r h])
qed

lemma dict_map_delete:
  "distinct (map (it_hash \<circ> snd) (xs @ x # ys)) \<Longrightarrow> it_hash (snd x) = h \<Longrightarrow>
     dict_map (xs @ ys) = (dict_map (xs @ x # ys))(h := None)"
proof (induction xs)
  case Nil
  then have "map_of (map (\<lambda>x. (it_hash (snd x), it_value (snd x))) ys) h = None"
    by (force simp: map_of_eq_None_iff image_iff)
  then show ?case using Nil by (auto simp: dict_map_def)
next
  case (Cons u xs)
  then show ?case by (auto simp: dict_map_def)
qed

lemma remove_interior:
  assumes r: "dict_rep d ns" and h: "vi_hash key = Some h" and ns: "ns = us @ p # x # q # vs"
    and hx: "it_hash (snd x) = h"
  shows "\<exists>d' ns'. vi_dictionary_remove_key d key = Some d' \<and> dict_rep d' ns'
     \<and> map fst ns' = map fst (us @ p # q # vs) \<and> dict_map ns' = (dict_map ns)(h := None)"
proof -
  let ?p = "(snd p)\<lparr>it_next := fst q\<rparr>" and ?q = "(snd q)\<lparr>it_prev := fst p\<rparr>"
  let ?ns = "us @ (fst p, ?p) # (fst q, ?q) # vs"
  let ?k = "it_key (snd x)"
  have g: "vi_dictionary_get_item d key = Some (fst x)"
    using remove_found [of d ns key h "us @ [p]" x "q # vs"] r h ns hx by simp
  have nn: "fst p \<noteq> NULL" "fst x \<noteq> NULL" "fst q \<noteq> NULL" using dict_rep_nonnull [OF r] ns by auto
  have dis: "fst p \<noteq> fst x" "fst p \<noteq> fst q" "fst x \<noteq> fst q" using r ns by (auto simp: dict_rep_def)
  have live: "cells (d_items d) (fst p) = Some (snd p)" "cells (d_items d) (fst x) = Some (snd x)"
      "cells (d_items d) (fst q) = Some (snd q)"
      "it_prev (snd x) = fst p" "it_next (snd x) = fst q"
    using r ns by (auto simp: dict_rep_def)
  obtain kb where kb: "cells (d_keys d) ?k = Some kb" using r ns by (auto simp: dict_rep_def)
  let ?d = "d\<lparr>d_count := d_count d - 1,
      d_items := \<lparr>cells = (cells (d_items d))(fst p \<mapsto> ?p, fst q \<mapsto> ?q, fst x := None),
                  avail = avail (d_items d) @ [(fst x, snd x)]\<rparr>,
      d_keys := \<lparr>cells = (cells (d_keys d))(?k := None), avail = avail (d_keys d) @ [(?k, kb)]\<rparr>\<rparr>"
  have rm: "vi_dictionary_remove_key d key = Some ?d"
    using g nn dis live kb
    by (simp add: vi_dictionary_remove_key_def store_simps free_key_def free_item_def)
  have wfi: "store_wf \<lparr>cells = (cells (d_items d))(fst p \<mapsto> ?p, fst q \<mapsto> ?q, fst x := None),
                  avail = avail (d_items d) @ [(fst x, snd x)]\<rparr>"
    using r live nn unfolding dict_rep_def store_wf_def by (fastforce simp: image_iff)
  have wfk: "store_wf \<lparr>cells = (cells (d_keys d))(?k := None), avail = avail (d_keys d) @ [(?k, kb)]\<rparr>"
    using r kb unfolding dict_rep_def store_wf_def by (fastforce simp: image_iff)
  have cnt: "(of_nat (length ns) :: u32) - 1 = of_nat (length ?ns)" unfolding ns by simp
  have parts: "iseg (cells (d_items d)) NULL NULL (us @ p # x # q # vs)"
      "distinct (map fst (us @ p # x # q # vs))" "distinct (map (it_hash \<circ> snd) (us @ p # x # q # vs))"
      "distinct (map (it_key \<circ> snd) (us @ p # x # q # vs))" "d_head d = ifirst NULL (us @ p # x # q # vs)"
      "d_tail d = ilast NULL (us @ p # x # q # vs)" "d_count d = of_nat (length ns)"
      "\<forall>y \<in> set (us @ p # x # q # vs). cells (d_keys d) (it_key (snd y)) \<noteq> None"
    using r unfolding ns dict_rep_def by blast+
  have rep: "dict_rep ?d ?ns" unfolding dict_rep_def
  proof (intro conjI)
    show "d_head ?d = ifirst NULL ?ns" "d_tail ?d = ilast NULL ?ns" using parts(5,6) by simp_all
    show "d_count ?d = of_nat (length ?ns)" using parts(7) cnt by simp
    show "distinct (map fst ?ns)" "distinct (map (it_hash \<circ> snd) ?ns)" "distinct (map (it_key \<circ> snd) ?ns)"
      using parts(2-4) by simp_all
    show "iseg (cells (d_items ?d)) NULL NULL ?ns" using parts(1,2) by simp
    show "\<forall>y \<in> set ?ns. cells (d_keys ?d) (it_key (snd y)) \<noteq> None" using parts(4,8) by (auto simp: image_iff)
  qed (use wfi wfk in simp_all)
  have "dict_map ?ns = dict_map ((us @ [p]) @ q # vs)" by (simp add: dict_map_def)
  also have "\<dots> = (dict_map ((us @ [p]) @ x # q # vs))(h := None)"
    using parts(3) hx by (intro dict_map_delete) simp_all
  finally have dm: "dict_map ?ns = (dict_map ns)(h := None)" by (simp add: ns)
  show ?thesis using rm rep dm by (intro exI [of _ ?d] exI [of _ ?ns]) simp
qed

lemma remove_head_dangles:
  assumes r: "dict_rep d (x # ns)" and h: "vi_hash key = Some h" and hx: "it_hash (snd x) = h"
  shows "\<exists>d'. vi_dictionary_remove_key d key = Some d' \<and> d_head d' = fst x
     \<and> rd_item (fst x) d' = None"
proof -
  let ?k = "it_key (snd x)"
  have g: "vi_dictionary_get_item d key = Some (fst x)"
    using remove_found [of d "x # ns" key h "[]" x ns] r h hx by simp
  have nn: "fst x \<noteq> NULL" using dict_rep_nonnull [OF r] by auto
  have live: "cells (d_items d) (fst x) = Some (snd x)" "it_prev (snd x) = NULL"
      "it_next (snd x) = ifirst NULL ns" "d_head d = fst x"
    using r by (auto simp: dict_rep_def)
  obtain kb where kb: "cells (d_keys d) ?k = Some kb" using r by (auto simp: dict_rep_def)
  show ?thesis
  proof (cases ns)
    case Nil
    then show ?thesis using g nn live kb
      by (auto simp: vi_dictionary_remove_key_def store_simps free_key_def free_item_def)
  next
    case (Cons q vs)
    then have "cells (d_items d) (fst q) = Some (snd q)" "fst q \<noteq> NULL" "fst q \<noteq> fst x"
      using r dict_rep_nonnull [OF r] by (auto simp: dict_rep_def)
    then show ?thesis using g nn live kb Cons
      by (auto simp: vi_dictionary_remove_key_def store_simps free_key_def free_item_def)
  qed
qed

lemma destroy_returns:
  "iseg (cells (d_items d)) pv NULL ns \<Longrightarrow> ns \<noteq> [] \<Longrightarrow> d_head d = ifirst NULL ns \<Longrightarrow>
   distinct (map fst ns) \<Longrightarrow> NULL \<notin> fst ` set ns \<Longrightarrow> distinct (map (it_key \<circ> snd) ns) \<Longrightarrow>
   (\<forall>x \<in> set ns. cells (d_keys d) (it_key (snd x)) \<noteq> None) \<Longrightarrow>
   \<exists>d'. destroy_loop d = Some d' \<and> d_head d' = NULL \<and> d_tail d' = d_tail d
     \<and> d_count d' = d_count d - of_nat (length ns)
     \<and> (\<forall>x \<in> set ns. cells (d_items d') (fst x) = None \<and> cells (d_keys d') (it_key (snd x)) = None)
     \<and> map fst (avail (d_items d')) = map fst (avail (d_items d)) @ map fst ns
     \<and> (\<forall>b. cells (d_items d) b = None \<longrightarrow> cells (d_items d') b = None)
     \<and> (\<forall>b. cells (d_keys d) b = None \<longrightarrow> cells (d_keys d') b = None)"
proof (induction ns arbitrary: d pv)
  case (Cons x ns)
  let ?k = "it_key (snd x)"
  have live: "cells (d_items d) (fst x) = Some (snd x)" "it_next (snd x) = ifirst NULL ns" "d_head d = fst x"
    using Cons.prems by auto
  obtain kb where kb: "cells (d_keys d) ?k = Some kb" using Cons.prems by auto
  let ?d = "d\<lparr>d_head := ifirst NULL ns,
      d_keys := (d_keys d)\<lparr>cells := (cells (d_keys d))(?k := None), avail := avail (d_keys d) @ [(?k, kb)]\<rparr>,
      d_items := (d_items d)\<lparr>cells := (cells (d_items d))(fst x := None), avail := avail (d_items d) @ [(fst x, snd x)]\<rparr>,
      d_count := d_count d - 1\<rparr>"
  have step: "destroy_loop d = (if d_head ?d \<noteq> NULL then destroy_loop ?d else Some ?d)"
    using live kb by (subst destroy_loop.simps) (simp add: store_simps free_key_def free_item_def)
  show ?case
  proof (cases ns)
    case Nil
    then show ?thesis using step by auto
  next
    case (Cons y ys)
    have seg: "iseg (cells (d_items ?d)) (fst x) NULL ns" using Cons.prems by simp
    have "\<exists>d'. destroy_loop ?d = Some d' \<and> d_head d' = NULL \<and> d_tail d' = d_tail ?d
     \<and> d_count d' = d_count ?d - of_nat (length ns)
     \<and> (\<forall>x \<in> set ns. cells (d_items d') (fst x) = None \<and> cells (d_keys d') (it_key (snd x)) = None)
     \<and> map fst (avail (d_items d')) = map fst (avail (d_items ?d)) @ map fst ns
     \<and> (\<forall>b. cells (d_items ?d) b = None \<longrightarrow> cells (d_items d') b = None)
     \<and> (\<forall>b. cells (d_keys ?d) b = None \<longrightarrow> cells (d_keys d') b = None)"
      by (rule Cons.IH [OF seg]) (use Cons.prems Cons in \<open>auto simp: image_iff\<close>)
    moreover have "ifirst NULL ns \<noteq> NULL" using Cons Cons.prems by auto
    ultimately show ?thesis using step by (auto simp: algebra_simps)
  qed
qed simp



section \<open>Properties\<close>

text \<open>Two items, for the keys 65 and 66 (no NUL), and room for two more.\<close>

definition demo_dict :: "nat vi_dictionary" where
  "demo_dict = \<lparr>d_head = NULL, d_tail = NULL, d_count = 0,
     d_items = \<lparr>cells = Map.empty, avail = map (\<lambda>a. (a, \<lparr>it_key = 0, it_value = 99, it_hash = 0,
         it_modified = 7, it_prev = 0, it_next = 0\<rparr>)) [1, 2, 3]\<rparr>,
     d_keys = \<lparr>cells = Map.empty, avail = [(101, [9, 9, 9, 9]), (102, [8, 8, 8]), (103, [7])]\<rparr>\<rparr>"

lemma demo_dict_rep: "dict_rep demo_dict []"
  by (simp add: demo_dict_def dict_rep_def store_wf_def)

lemma vi_hash_total: "length key < 2 ^ 33 \<Longrightarrow> \<exists>h. vi_hash key = Some h"
  unfolding vi_hash_def by (rule murmur32_total) (simp_all add: unat_of_nat_u64)

text \<open>Property C33: as a map from hashes to values, adding a key updates that map at the key's
  hash, whether an item with the hash is there (its value is replaced) or not (an item is
  appended), and every later lookup answers from the updated map.\<close>
theorem dictionary_add_refines:
  assumes r: "dict_rep d ns" and h: "vi_hash key = Some h" and k: "0 \<notin> set key"
    and s: "avail (d_items d) = (a, i) # ri" "avail (d_keys d) = (b, blk) # rk" "length key < length blk"
  shows "\<exists>d' ns'. vi_dictionary_add d key v = Some d' \<and> dict_rep d' ns'
     \<and> dict_map ns' = (dict_map ns)(h \<mapsto> v)
     \<and> (\<forall>key' h'. vi_hash key' = Some h' \<longrightarrow>
          vi_dictionary_get_value d' key' = Some (if h' = h then Some v else dict_map ns h')
        \<and> vi_dictionary_has_key d' key' = Some (h' = h \<or> dict_map ns h' \<noteq> None))"
proof -
  obtain d' ns' where d': "vi_dictionary_add d key v = Some d'" "dict_rep d' ns'"
      "dict_map ns' = (dict_map ns)(h \<mapsto> v)"
  proof (cases "List.find (\<lambda>x. it_hash (snd x) = h) ns")
    case None
    then have nm: "dict_map ns h = None" by (simp add: find_dict_map)
    obtain d' ns' where "vi_dictionary_add d key v = Some d'" "dict_rep d' ns'"
        "dict_map ns' = (dict_map ns)(h \<mapsto> v)"
      using add_absent [OF r h nm s k] by blast
    then show ?thesis by (rule that)
  next
    case (Some x)
    obtain d' ns' where "vi_dictionary_add d key v = Some d'" "dict_rep d' ns'"
        "dict_map ns' = (dict_map ns)(h \<mapsto> v)"
      using add_present [OF r h Some] by blast
    then show ?thesis by (rule that)
  qed
  have "vi_dictionary_get_value d' key' = Some (if h' = h then Some v else dict_map ns h')
      \<and> vi_dictionary_has_key d' key' = Some (h' = h \<or> dict_map ns h' \<noteq> None)"
    if "vi_hash key' = Some h'" for key' h'
    using get_value_map [OF d'(2) that] has_key_map [OF d'(2) that] d'(3) by simp
  with d' show ?thesis by blast
qed

lemma dictionary_add_refines_witness:
  "\<exists>d h. vi_hash [65, 66] = Some h \<and> vi_dictionary_add demo_dict [65, 66] 5 = Some d
     \<and> vi_dictionary_get_value d [65, 66] = Some (Some 5)"
proof -
  obtain h where h: "vi_hash [65, 66] = Some h" using vi_hash_total [of "[65, 66]"] by auto
  have s: "avail (d_keys demo_dict) = (101, [9, 9, 9, 9]) # [(102, [8, 8, 8]), (103, [7])]"
      "avail (d_items demo_dict) = (1, \<lparr>it_key = 0, it_value = 99, it_hash = 0, it_modified = 7, it_prev = 0, it_next = 0\<rparr>)
        # map (\<lambda>a. (a, \<lparr>it_key = 0, it_value = 99, it_hash = 0, it_modified = 7, it_prev = 0, it_next = 0\<rparr>)) [2, 3]"
    by (simp_all add: demo_dict_def)
  have k: "0 \<notin> set [65, 66 :: u8]" "length [65, 66 :: u8] < length [9, 9, 9, 9 :: u8]" by simp_all
  from dictionary_add_refines [OF demo_dict_rep h k(1) s(2,1) k(2), of 5]
  obtain d where d: "vi_dictionary_add demo_dict [65, 66] 5 = Some d"
      "\<forall>key' h'. vi_hash key' = Some h' \<longrightarrow> vi_dictionary_get_value d key' = Some (if h' = h then Some 5 else dict_map [] h')
         \<and> vi_dictionary_has_key d key' = Some (h' = h \<or> dict_map ([] :: nat entries) h' \<noteq> None)"
    by blast
  have "vi_dictionary_get_value d [65, 66] = Some (Some 5)" using d(2) h by simp
  with d(1) h show ?thesis by blast
qed

text \<open>Removing a key whose item is neither the first nor the last unlinks and
  frees exactly that item.\<close>
theorem dictionary_remove_interior:
  assumes "dict_rep d (us @ p # x # q # vs)" "vi_hash key = Some (it_hash (snd x))"
  shows "\<exists>d' ns'. vi_dictionary_remove_key d key = Some d' \<and> dict_rep d' ns'
     \<and> map fst ns' = map fst (us @ p # q # vs)
     \<and> dict_map ns' = (dict_map (us @ p # x # q # vs))(it_hash (snd x) := None)"
  by (rule remove_interior [OF assms(1,2) refl refl])

text \<open>A dictionary of three items with the hashes of the empty key, of 65 and of 66.\<close>

definition demo_item :: "addr \<Rightarrow> u32 \<Rightarrow> addr \<Rightarrow> addr \<Rightarrow> addr \<times> nat vi_dictionary_item" where
  "demo_item a h p n = (a, \<lparr>it_key = a + 100, it_value = 40, it_hash = h, it_modified = 0,
     it_prev = p, it_next = n\<rparr>)"

definition demo_three :: "nat vi_dictionary" where
  "demo_three = \<lparr>d_head = 1, d_tail = 3, d_count = 3,
     d_items = \<lparr>cells = map_of [demo_item 1 11 0 2, demo_item 2 0 1 3, demo_item 3 13 2 0], avail = []\<rparr>,
     d_keys = \<lparr>cells = [101 \<mapsto> [5, 0], 102 \<mapsto> [0], 103 \<mapsto> [6, 0]], avail = []\<rparr>\<rparr>"

lemma demo_three_rep:
  "dict_rep demo_three ([] @ demo_item 1 11 0 2 # demo_item 2 0 1 3 # demo_item 3 13 2 0 # [])"
  by (simp add: demo_three_def demo_item_def dict_rep_def store_wf_def)

lemma demo_empty_hash: "vi_hash [] = Some 0"
  by (simp add: vi_hash_def qhashmurmur3_32_def)

lemma dictionary_remove_interior_witness:
  "\<exists>d' ns'. vi_dictionary_remove_key demo_three [] = Some d' \<and> dict_rep d' ns' \<and> map fst ns' = [1, 3]"
proof -
  have "vi_hash [] = Some (it_hash (snd (demo_item 2 0 1 3)))" using demo_empty_hash by (simp add: demo_item_def)
  from dictionary_remove_interior [OF demo_three_rep this]
  obtain d' ns' where d': "vi_dictionary_remove_key demo_three [] = Some d'" "dict_rep d' ns'"
      "map fst ns' = map fst ([] @ demo_item 1 11 0 2 # demo_item 3 13 2 0 # [])" by blast
  from d'(3) have "map fst ns' = [1, 3]" by (simp add: demo_item_def)
  with d'(1,2) show ?thesis by (intro exI [of _ d'] exI [of _ ns'] conjI)
qed

text \<open>Removing the first key leaves head pointing at the freed item, so that every
  later lookup reads freed memory.\<close>
theorem dictionary_remove_head_dangles:
  assumes "dict_rep d (x # ns)" "vi_hash key = Some (it_hash (snd x))" "vi_hash key' = Some h'"
  shows "\<exists>d'. vi_dictionary_remove_key d key = Some d' \<and> d_head d' = fst x
     \<and> rd_item (fst x) d' = None \<and> vi_dictionary_get_item d' key' = None"
proof -
  obtain d' where d': "vi_dictionary_remove_key d key = Some d'" "d_head d' = fst x" "rd_item (fst x) d' = None"
    using remove_head_dangles [OF assms(1,2) refl] by blast
  have "fst x \<noteq> NULL" using dict_rep_nonnull [OF assms(1)] by auto
  then have "vi_dictionary_get_item d' key' = None"
    using d' assms(3) by (subst vi_dictionary_get_item_def, subst search_item.simps) simp
  with d' show ?thesis by blast
qed

definition demo_one_item :: "nat vi_dictionary" where
  "demo_one_item = \<lparr>d_head = 1, d_tail = 1, d_count = 1,
     d_items = \<lparr>cells = map_of [demo_item 1 0 0 0], avail = []\<rparr>,
     d_keys = \<lparr>cells = [101 \<mapsto> [0]], avail = []\<rparr>\<rparr>"

lemma dictionary_remove_head_dangles_witness:
  "\<exists>d'. vi_dictionary_remove_key demo_one_item [] = Some d' \<and> d_head d' = 1
     \<and> vi_dictionary_get_item d' [] = None"
proof -
  have "dict_rep demo_one_item (demo_item 1 0 0 0 # [])"
    by (simp add: demo_one_item_def demo_item_def dict_rep_def store_wf_def)
  from dictionary_remove_head_dangles [OF this, of "[]" "[]" 0] demo_empty_hash
  show ?thesis by (auto simp: demo_item_def)
qed

text \<open>A key is identified by its 32-bit hash alone: there are two different keys
  such that after adding the first, the second is found and has the first one's value.\<close>
theorem dictionary_hash_aliases:
  "\<exists>k1 k2. k1 \<noteq> k2 \<and> (\<forall>d ns. dict_rep d ns \<longrightarrow>
       vi_dictionary_get_value d k1 = vi_dictionary_get_value d k2
     \<and> vi_dictionary_has_key d k1 = vi_dictionary_has_key d k2)"
proof -
  let ?K = "(\<lambda>n. replicate n (1 :: u8)) ` {0 .. CARD(u32)}"
  have inj: "inj_on (\<lambda>n. replicate n (1 :: u8)) {0 .. CARD(u32)}"
    by (intro inj_onI) (metis length_replicate)
  have card: "CARD(u32) < card ?K" by (simp only: card_image [OF inj] card_atLeastAtMost)
  have "card ((the \<circ> vi_hash) ` ?K) \<le> CARD(u32)" by (intro card_mono) auto
  then have "\<not> inj_on (the \<circ> vi_hash) ?K" using card card_image [of "the \<circ> vi_hash" ?K] by linarith
  then obtain k1 k2 where k: "k1 \<in> ?K" "k2 \<in> ?K" "k1 \<noteq> k2" "the (vi_hash k1) = the (vi_hash k2)"
    unfolding inj_on_def comp_def by blast
  have "\<exists>h. vi_hash key = Some h" if "key \<in> ?K" for key
    using that by (intro vi_hash_total) (auto simp: card_word)
  then obtain h where "vi_hash k1 = Some h" "vi_hash k2 = Some h" using k by (metis option.sel)
  with k(3) show ?thesis using get_value_map has_key_map by (metis (no_types))
qed

text \<open>The key buffer is one byte too small: with a block of the size asked for,
  strlen of the key, adding a new key writes its NUL behind the block.\<close>
theorem dictionary_add_overruns:
  assumes "dict_rep d ns" "vi_hash key = Some h" "dict_map ns h = None"
    and "avail (d_keys d) = (b, blk) # rk" "length blk = length key"
  shows "vi_dictionary_add d key v = None"
proof -
  have "List.find (\<lambda>x. it_hash (snd x) = h) ns = None" using assms(3) by (simp add: find_dict_map)
  then show ?thesis using new_item_overrun [OF assms(4)] assms(5)
    by (simp add: vi_dictionary_add_def get_item_find [OF assms(1,2)])
qed

lemma dictionary_add_overruns_witness:
  "vi_dictionary_add (demo_dict\<lparr>d_keys := \<lparr>cells = Map.empty, avail = [(101, [])]\<rparr>\<rparr>) [] 5 = None"
  using dictionary_add_overruns [of "demo_dict\<lparr>d_keys := \<lparr>cells = Map.empty, avail = [(101, [])]\<rparr>\<rparr>" "[]" "[]" 0 101 "[]" "[]" 5]
    demo_empty_hash
  by (simp add: demo_dict_def dict_rep_def store_wf_def dict_map_def)



end
