(* ===== verification/Paging.thy ===== *)
theory Paging
  imports KPrelude
begin

text \<open>
  The x86-64 page tables of kernel/arch/x86_64/page.c and include/page.h. The
  memory that holds tables is a map from the physical address of a frame to
  its 512 entries. A pointer to a table is a virtual address; table_frame is
  the linear translation the kernel sets up at boot: the identity map below
  the kernel, the kernel image, and behind it the window that
  page_allocate_kernel_linear fills in step with physical memory. get_cr3 is a
  field of the state; the flush of the translation buffer has no effect on it.
  An access outside a table is None. int_on is the interrupt flag that the
  allocator clears and sets.
\<close>

abbreviation PAGE_SIZE :: u64 where "PAGE_SIZE \<equiv> 0x1000"
abbreviation PAGE_ADDR_MASK :: u64 where "PAGE_ADDR_MASK \<equiv> 0x000FFFFFFFFFF000"
abbreviation ADDR_IDENTITY_MAP :: u64 where "ADDR_IDENTITY_MAP \<equiv> 0xFFFF800000000000"

record page_indexes =
  ix_pml4 :: u16
  ix_pdpt :: u16
  ix_pd :: u16
  ix_pt :: u16

record paging =
  frames :: "u64 \<rightharpoonup> u64 list"
  cr3 :: u64
  int_on :: bool
  kernel_virtual_base :: u64
  kernel_physical_base :: u64
  kernel_virtual_allocation_base :: u64
  kernel_physical_allocation_base :: u64
  kernel_virtual_memory_next :: u64
  kernel_physical_memory_next :: u64
  kernel_heap_virtual_memory_next :: u64
  kernel_heap_physical_memory_next :: u64
  k_current_pdpt_index :: u16
  k_current_pd_index :: u16
  k_current_pt_index :: u16
  k_current_pdpt :: u64
  k_current_pd :: u64
  k_current_pt :: u64
  k_new_pt :: u64
  k_new_pd :: u64

definition table_frame :: "paging \<Rightarrow> u64 \<Rightarrow> u64" where
  "table_frame s v =
     (if v < kernel_virtual_base s then v - ADDR_IDENTITY_MAP
      else if v < kernel_virtual_allocation_base s then v - kernel_virtual_base s + kernel_physical_base s
      else v - kernel_virtual_allocation_base s + kernel_physical_allocation_base s)"

definition rd_entry :: "paging \<Rightarrow> u64 \<Rightarrow> nat \<Rightarrow> u64 option" where
  "rd_entry s ptr i = do {
     t \<leftarrow> frames s (table_frame s ptr);
     if i < length t then Some (t ! i) else None }"

definition wr_entry :: "paging \<Rightarrow> u64 \<Rightarrow> nat \<Rightarrow> u64 \<Rightarrow> paging option" where
  "wr_entry s ptr i v = do {
     t \<leftarrow> frames s (table_frame s ptr);
     if i < length t then Some (s\<lparr>frames := (frames s)(table_frame s ptr \<mapsto> t[i := v])\<rparr>) else None }"


section \<open>Entries and indexes\<close>

abbreviation PAGE_FLAG_PRESENT :: u64 where "PAGE_FLAG_PRESENT \<equiv> 1"
abbreviation PAGE_FLAG_READ_WRITE :: u64 where "PAGE_FLAG_READ_WRITE \<equiv> 2"
abbreviation PAGE_FLAG_WRITE_THROUGH :: u64 where "PAGE_FLAG_WRITE_THROUGH \<equiv> 8"
abbreviation PAGE_FLAG_CACHE_DISABLED :: u64 where "PAGE_FLAG_CACHE_DISABLED \<equiv> 16"
abbreviation PAGE_FLAG_EXECUTE_DIABLED :: u64 where "PAGE_FLAG_EXECUTE_DIABLED \<equiv> 0x8000000000000000"

definition or_if :: "u32 \<Rightarrow> u64 \<Rightarrow> u64 \<Rightarrow> u64" where
  "or_if flags b page = (if (ucast flags :: u64) AND b \<noteq> 0 then page OR b else page)"

definition paging_make_page :: "u64 \<Rightarrow> u32 \<Rightarrow> u64" where
  "paging_make_page physical_address flags =
     (let page = physical_address AND 0x000FFFFFFFFFF000;
          page = or_if flags 1 page;
          page = or_if flags 2 page;
          page = or_if flags 4 page;
          page = or_if flags 8 page;
          page = or_if flags 16 page;
          page = or_if flags 32 page;
          page = or_if flags 128 page
      in or_if flags PAGE_FLAG_EXECUTE_DIABLED page)"

definition paging_get_indexes :: "u64 \<Rightarrow> page_indexes" where
  "paging_get_indexes v = \<lparr>
     ix_pml4 = ucast (drop_bit 39 v AND 0x1FF),
     ix_pdpt = ucast (drop_bit 30 v AND 0x1FF),
     ix_pd = ucast (drop_bit 21 v AND 0x1FF),
     ix_pt = ucast (drop_bit 12 v AND 0x1FF)\<rparr>"

text \<open>The address the C function computes; it then falls off its end without returning it.\<close>

definition paging_get_addr_from_index :: "u16 \<Rightarrow> u16 \<Rightarrow> u16 \<Rightarrow> u16 \<Rightarrow> u64" where
  "paging_get_addr_from_index i4 i3 i2 i1 =
     0 OR push_bit 39 (ucast i4) OR push_bit 30 (ucast i3) OR push_bit 21 (ucast i2) OR push_bit 12 (ucast i1)"

definition present :: "u64 \<Rightarrow> bool" where "present e \<longleftrightarrow> e AND PAGE_FLAG_PRESENT \<noteq> 0"

abbreviation entry_table :: "u64 \<Rightarrow> u64" where "entry_table e \<equiv> (e AND PAGE_ADDR_MASK) + ADDR_IDENTITY_MAP"


section \<open>The kernel's linear allocator\<close>

definition paging_allocate_single_linear_kernel_page :: "paging \<Rightarrow> (u64 \<times> paging) option" where
  "paging_allocate_single_linear_kernel_page s = do {
     let page_entry = paging_make_page (kernel_physical_memory_next s) (1 OR 2);
     s \<leftarrow> wr_entry s (k_current_pt s) (unat (k_current_pt_index s)) page_entry;
     let s = s\<lparr>frames := (frames s)(kernel_physical_memory_next s \<mapsto> replicate 512 0)\<rparr>;
     let s = s\<lparr>kernel_virtual_memory_next := kernel_virtual_memory_next s + PAGE_SIZE\<rparr>;
     let s = s\<lparr>kernel_physical_memory_next := kernel_physical_memory_next s + PAGE_SIZE\<rparr>;
     Some (kernel_virtual_memory_next s - PAGE_SIZE, s) }"

definition paging_increment_kernel_page_index :: "paging \<Rightarrow> paging option" where
  "paging_increment_kernel_page_index s = do {
     s \<leftarrow> (if k_current_pt_index s = 511 then do {
            let s = s\<lparr>k_current_pt_index := 0, k_current_pt := k_new_pt s\<rparr>;
            s \<leftarrow> wr_entry s (k_current_pd s) (unat (k_current_pd_index s) + 1)
                  (paging_make_page (k_new_pt s - kernel_virtual_allocation_base s + kernel_physical_allocation_base s) (1 OR 2));
            Some (s\<lparr>k_current_pd_index := k_current_pd_index s + 1\<rparr>) }
          else Some (s\<lparr>k_current_pt_index := k_current_pt_index s + 1\<rparr>));
     if k_current_pd_index s = 512 then do {
       let s = s\<lparr>k_current_pd_index := 0, k_current_pd := k_new_pd s\<rparr>;
       s \<leftarrow> wr_entry s (k_current_pdpt s) (unat (k_current_pdpt_index s))
             (paging_make_page (k_new_pd s - 8 * kernel_virtual_base s + 8 * kernel_physical_base s) (1 OR 2));
       Some (s\<lparr>k_current_pdpt_index := k_current_pdpt_index s + 1\<rparr>) }
     else Some s }"

primrec allocate_linear_pages :: "nat \<Rightarrow> paging \<Rightarrow> paging option" where
  "allocate_linear_pages 0 s = Some s"
| "allocate_linear_pages (Suc n) s = do {
     (v, s) \<leftarrow> paging_allocate_single_linear_kernel_page s;
     s \<leftarrow> paging_increment_kernel_page_index s;
     allocate_linear_pages n s }"

definition page_allocate_kernel_linear :: "u32 \<Rightarrow> paging \<Rightarrow> (u64 \<times> paging) option" where
  "page_allocate_kernel_linear number_of_pages s = (let s = s\<lparr>int_on := False\<rparr> in
     if number_of_pages < 1 then Some (0, s)
     else do {
       s \<leftarrow> (if k_current_pd s = k_new_pd s then do {
              (v, s) \<leftarrow> paging_allocate_single_linear_kernel_page s;
              paging_increment_kernel_page_index (s\<lparr>k_new_pd := v\<rparr>) }
            else Some s);
       s \<leftarrow> (if k_current_pt s = k_new_pt s then do {
              (v, s) \<leftarrow> paging_allocate_single_linear_kernel_page s;
              paging_increment_kernel_page_index (s\<lparr>k_new_pt := v\<rparr>) }
            else Some s);
       let return_virt_addr = kernel_virtual_memory_next s;
       s \<leftarrow> allocate_linear_pages (unat number_of_pages) s;
       Some (return_virt_addr, s\<lparr>int_on := True\<rparr>) })"

definition page_allocate_kernel :: "u32 \<Rightarrow> paging \<Rightarrow> (u64 \<times> paging) option" where
  "page_allocate_kernel number s = page_allocate_kernel_linear number s"


section \<open>Mapping and translation\<close>

text \<open>
  The tables found on the way to a virtual address (0 where none was found)
  and which of them have to be set up.
\<close>

record walk =
  w_pdpt :: u64
  w_pd :: u64
  w_pt :: u64
  setup_pdpt :: bool
  setup_pd :: bool
  setup_pt :: bool

definition walk_tables :: "paging \<Rightarrow> u64 \<Rightarrow> page_indexes \<Rightarrow> walk option" where
  "walk_tables s pml4 ix = do {
     e4 \<leftarrow> rd_entry s pml4 (unat (ix_pml4 ix));
     if \<not> present e4 then
       Some \<lparr>w_pdpt = 0, w_pd = 0, w_pt = 0, setup_pdpt = True, setup_pd = True, setup_pt = True\<rparr>
     else do {
       let pdpt = entry_table e4;
       e3 \<leftarrow> rd_entry s pdpt (unat (ix_pdpt ix));
       if \<not> present e3 then
         Some \<lparr>w_pdpt = pdpt, w_pd = 0, w_pt = 0, setup_pdpt = False, setup_pd = True, setup_pt = True\<rparr>
       else do {
         let pd = entry_table e3;
         e2 \<leftarrow> rd_entry s pd (unat (ix_pd ix));
         if \<not> present e2 then
           Some \<lparr>w_pdpt = pdpt, w_pd = pd, w_pt = 0, setup_pdpt = False, setup_pd = False, setup_pt = True\<rparr>
         else let pt = entry_table e2 in
           Some \<lparr>w_pdpt = pdpt, w_pd = pd, w_pt = pt, setup_pdpt = False, setup_pd = False,
                 setup_pt = (pt = 0)\<rparr> } } }"

text \<open>Allocate a table and enter it at index i of the table at parent, or keep the one found.\<close>

definition setup_table :: "bool \<Rightarrow> u64 \<Rightarrow> u64 \<Rightarrow> u16 \<Rightarrow> paging \<Rightarrow> (u64 \<times> paging) option" where
  "setup_table setup found parent i s =
     (if setup then do {
        (v, s) \<leftarrow> page_allocate_kernel_linear 1 s;
        s \<leftarrow> wr_entry s parent (unat i)
              (paging_make_page (v - kernel_virtual_allocation_base s + kernel_physical_allocation_base s) (1 OR 2));
        Some (v, s) }
      else Some (found, s))"

definition paging_page_map_to_pml4 :: "u64 \<Rightarrow> u64 \<Rightarrow> u64 \<Rightarrow> u64 \<Rightarrow> paging \<Rightarrow> (u64 \<times> paging) option" where
  "paging_page_map_to_pml4 pml_4 physical_address virtual_address flags s = do {
     let ix = paging_get_indexes virtual_address;
     let pml4 = (if pml_4 = 0 then cr3 s + ADDR_IDENTITY_MAP else pml_4);
     w \<leftarrow> walk_tables s pml4 ix;
     (pdpt, s) \<leftarrow> setup_table (setup_pdpt w) (w_pdpt w) pml4 (ix_pml4 ix) s;
     (pd, s) \<leftarrow> setup_table (setup_pd w) (w_pd w) pdpt (ix_pdpt ix) s;
     (pt, s) \<leftarrow> setup_table (setup_pt w) (w_pt w) pd (ix_pd ix) s;
     s \<leftarrow> wr_entry s pt (unat (ix_pt ix)) (paging_make_page physical_address (ucast flags));
     Some (virtual_address, s) }"

definition page_map :: "u64 \<Rightarrow> u64 \<Rightarrow> paging \<Rightarrow> (u64 \<times> paging) option" where
  "page_map virtual_address physical_address s =
     paging_page_map_to_pml4 0 physical_address virtual_address (PAGE_FLAG_PRESENT OR PAGE_FLAG_READ_WRITE) s"

definition paging_virtual_to_physical :: "u64 \<Rightarrow> paging \<Rightarrow> u64 option" where
  "paging_virtual_to_physical v s = do {
     let pml4 = cr3 s + ADDR_IDENTITY_MAP;
     e4 \<leftarrow> rd_entry s pml4 (unat (drop_bit 39 v AND 0x1FF));
     if \<not> present e4 then Some 0
     else do {
       e3 \<leftarrow> rd_entry s (entry_table e4) (unat (drop_bit 30 v AND 0x1FF));
       if \<not> present e3 then Some 0
       else do {
         e2 \<leftarrow> rd_entry s (entry_table e3) (unat (drop_bit 21 v AND 0x1FF));
         if \<not> present e2 then Some 0
         else do {
           e1 \<leftarrow> rd_entry s (entry_table e2) (unat (drop_bit 12 v AND 0x1FF));
           if \<not> present e1 then Some 0 else Some (e1 AND PAGE_ADDR_MASK) } } } }"

text \<open>The heap's page provider; use_page_group is compiled out in the source.\<close>

primrec provide_pages :: "u64 \<Rightarrow> u64 \<Rightarrow> u64 \<Rightarrow> nat \<Rightarrow> paging \<Rightarrow> paging option" where
  "provide_pages pml4 vmem flags 0 s = Some s"
| "provide_pages pml4 vmem flags (Suc n) s = do {
     (v, s) \<leftarrow> paging_page_map_to_pml4 pml4 (kernel_heap_physical_memory_next s) vmem flags s;
     let s = s\<lparr>kernel_heap_virtual_memory_next := kernel_heap_virtual_memory_next s + PAGE_SIZE,
               kernel_heap_physical_memory_next := kernel_heap_physical_memory_next s + PAGE_SIZE\<rparr>;
     provide_pages pml4 (vmem + PAGE_SIZE) flags n s }"

definition page_allocate_provider :: "u64 \<Rightarrow> u64 \<Rightarrow> u32 \<Rightarrow> u64 \<Rightarrow> paging \<Rightarrow> (u64 \<times> paging) option" where
  "page_allocate_provider pml4 virt_mem_start number flags s =
     (if number < 1 then Some (0, s)
      else do { s \<leftarrow> provide_pages pml4 virt_mem_start flags (unat number) s; Some (virt_mem_start, s) })"

definition page_allocate :: "u32 \<Rightarrow> paging \<Rightarrow> (u64 \<times> paging) option" where
  "page_allocate number s =
     page_allocate_provider 0 (kernel_heap_virtual_memory_next s) number
       (PAGE_FLAG_PRESENT OR PAGE_FLAG_READ_WRITE) s"

primrec mmio_pages :: "nat \<Rightarrow> paging \<Rightarrow> paging option" where
  "mmio_pages 0 s = Some s"
| "mmio_pages (Suc n) s = do {
     (v, s) \<leftarrow> paging_page_map_to_pml4 0 (kernel_heap_physical_memory_next s) (kernel_heap_virtual_memory_next s)
        (PAGE_FLAG_PRESENT OR PAGE_FLAG_READ_WRITE OR PAGE_FLAG_CACHE_DISABLED OR PAGE_FLAG_WRITE_THROUGH) s;
     let s = s\<lparr>kernel_heap_virtual_memory_next := kernel_heap_virtual_memory_next s + PAGE_SIZE,
               kernel_heap_physical_memory_next := kernel_heap_physical_memory_next s + PAGE_SIZE\<rparr>;
     mmio_pages n s }"

definition page_allocate_mmio :: "u32 \<Rightarrow> paging \<Rightarrow> (u64 \<times> paging) option" where
  "page_allocate_mmio number s =
     (let return_val = kernel_heap_virtual_memory_next s in
      if number < 1 then Some (0, s)
      else do { s \<leftarrow> mmio_pages (unat number) s; Some (return_val, s) })"

partial_function (option) skip_to_next_pt :: "paging \<Rightarrow> paging option" where
  "skip_to_next_pt s = do {
     s \<leftarrow> paging_increment_kernel_page_index s;
     if k_current_pt_index s \<noteq> 0 then skip_to_next_pt s else Some s }"

primrec kernel_mmio_pages :: "nat \<Rightarrow> paging \<Rightarrow> paging option" where
  "kernel_mmio_pages 0 s = Some s"
| "kernel_mmio_pages (Suc n) s = do {
     (v, s) \<leftarrow> paging_page_map_to_pml4 0 (kernel_physical_memory_next s) (kernel_virtual_memory_next s)
        (PAGE_FLAG_PRESENT OR PAGE_FLAG_READ_WRITE OR PAGE_FLAG_CACHE_DISABLED OR PAGE_FLAG_WRITE_THROUGH) s;
     s \<leftarrow> paging_increment_kernel_page_index (s\<lparr>kernel_virtual_memory_next := kernel_virtual_memory_next s + PAGE_SIZE\<rparr>);
     kernel_mmio_pages n (s\<lparr>kernel_physical_memory_next := kernel_physical_memory_next s + PAGE_SIZE\<rparr>) }"

definition page_allocate_kernel_mmio :: "u32 \<Rightarrow> paging \<Rightarrow> (u64 \<times> paging) option" where
  "page_allocate_kernel_mmio number s =
     (if number < 1 then Some (0, s)
      else do {
        s \<leftarrow> (if ucast (k_current_pt_index s) + number > 511 then skip_to_next_pt s else Some s);
        let return_val = kernel_virtual_memory_next s;
        s \<leftarrow> kernel_mmio_pages (unat number) s;
        Some (return_val, s) })"


section \<open>Entries\<close>

lemma or_if_mask: "b AND M = 0 \<Longrightarrow> or_if f b p AND M = p AND M"
  by (simp add: or_if_def bit.conj_disj_distrib2)

lemma make_page_addr: "paging_make_page a f AND PAGE_ADDR_MASK = a AND PAGE_ADDR_MASK"
  unfolding paging_make_page_def Let_def
  by (simp add: or_if_mask and.assoc)

lemma or_if_bit: "bit (or_if f b p) n \<longleftrightarrow> bit p n \<or> ((ucast f :: u64) AND b \<noteq> 0 \<and> bit b n)"
  by (auto simp: or_if_def bit_or_iff)

lemma present_bit: "present e \<longleftrightarrow> bit e 0"
  by (simp add: present_def and_one_eq odd_iff_mod_2_eq_one bit_0)

lemma present_zero [simp]: "\<not> present 0"
  by (simp add: present_def)

lemma make_page_present: "present (paging_make_page a f) \<longleftrightarrow> bit f 0"
proof -
  have "\<not> bit (a AND 0x000FFFFFFFFFF000) 0" by (simp add: bit_and_iff)
  moreover have "((ucast f :: u64) AND 1 \<noteq> 0) = bit f 0"
    using present_bit [of "ucast f"] by (simp add: present_def bit_ucast_iff)
  ultimately show ?thesis
    by (simp add: present_bit paging_make_page_def Let_def or_if_bit)
qed

text \<open>The no-execute flag is bit 63, which a 32-bit flags argument cannot carry.\<close>

lemma make_page_no_nx: "\<not> bit (paging_make_page a f) 63"
proof -
  have "(ucast f :: u64) AND PAGE_FLAG_EXECUTE_DIABLED = 0"
  proof (rule bit_word_eqI)
    fix n assume n: "n < LENGTH(64)"
    show "bit ((ucast f :: u64) AND PAGE_FLAG_EXECUTE_DIABLED) n = bit (0 :: u64) n"
    proof (cases "n < 32")
      case True
      have "\<not> bit (PAGE_FLAG_EXECUTE_DIABLED :: u64) n"
      proof -
        have "(PAGE_FLAG_EXECUTE_DIABLED :: u64) = 2 ^ 63" by simp
        then show ?thesis unfolding \<open>(PAGE_FLAG_EXECUTE_DIABLED :: u64) = 2 ^ 63\<close> bit_exp_iff
          using True by auto
      qed
      then show ?thesis by (simp add: bit_and_iff)
    next
      case False
      then show ?thesis by (simp add: bit_and_iff bit_ucast_iff word_bit_beyond)
    qed
  qed
  then show ?thesis
    by (simp add: paging_make_page_def Let_def or_if_bit bit_and_iff)
qed

end
