(* ===== verification/PageWalk.thy ===== *)
theory PageWalk
  imports Paging
begin

text \<open>
  Correctness of mapping and translation. trans_walk is the walk the processor
  makes from cr3: it ends early at an entry with the page size bit, as the eight
  1-GiB pages of the identity map are. The tables such a walk goes through are a
  radix tree (tree_ok), and a map operation extends the tree without changing
  any other translation than those of the pages the kernel's own allocator takes
  for the new tables. The code's paging_virtual_to_physical does not look at the
  page size bit; it agrees with the processor on small_page addresses. The level
  of a frame is ghost state: 4 for the root, 1 for the page tables.
\<close>

section \<open>Walks\<close>

definition large :: "u64 \<Rightarrow> bool" where "large e \<longleftrightarrow> bit e 7"

text \<open>An address is not mapped, or maps to a page of the given number of levels above 4 KiB.\<close>

datatype mapping = Unmapped | Page u64 nat

primrec trans_walk :: "(u64 \<rightharpoonup> u64 list) \<Rightarrow> nat list \<Rightarrow> u64 \<Rightarrow> mapping option" where
  "trans_walk h [] p = Some (Page p 0)"
| "trans_walk h (i # is) p = do {
     t \<leftarrow> h p;
     if i < length t then
       (if \<not> present (t ! i) then Some Unmapped
        else if large (t ! i) \<and> is \<noteq> [] then Some (Page (t ! i AND PAGE_ADDR_MASK) (length is))
        else trans_walk h is (t ! i AND PAGE_ADDR_MASK))
     else None }"

text \<open>The tables a walk goes through.\<close>

primrec reach :: "(u64 \<rightharpoonup> u64 list) \<Rightarrow> u64 \<Rightarrow> nat list \<Rightarrow> u64 \<Rightarrow> bool" where
  "reach h p [] q \<longleftrightarrow> p = q"
| "reach h p (i # is) q \<longleftrightarrow>
     (\<exists>t. h p = Some t \<and> i < length t \<and> present (t ! i) \<and> \<not> large (t ! i)
        \<and> reach h (t ! i AND PAGE_ADDR_MASK) is q)"

definition linked :: "(u64 \<rightharpoonup> u64 list) \<Rightarrow> u64 \<Rightarrow> nat \<Rightarrow> u64 \<Rightarrow> bool" where
  "linked h p i q \<longleftrightarrow> (\<exists>t. h p = Some t \<and> i < length t \<and> present (t ! i) \<and> \<not> large (t ! i)
     \<and> t ! i AND PAGE_ADDR_MASK = q)"

lemma make_page_large: "large (paging_make_page a f) \<longleftrightarrow> bit f 7"
proof -
  have "\<not> bit (a AND 0x000FFFFFFFFFF000) 7" by (simp add: bit_and_iff)
  moreover have "((ucast f :: u64) AND 128 \<noteq> 0) = bit f 7"
  proof -
    have "(128 :: u64) = push_bit 7 1" by simp
    then have "((ucast f :: u64) AND 128 \<noteq> 0) = bit (ucast f :: u64) 7"
      by (simp only: bit_iff_and_push_bit_not_eq_0)
    then show ?thesis by (simp add: bit_ucast_iff)
  qed
  ultimately show ?thesis
    by (simp add: large_def paging_make_page_def Let_def or_if_bit)
qed

lemma large_zero [simp]: "\<not> large 0"
  by (simp add: large_def)

lemma reach_trans: "reach h p is q \<Longrightarrow> js \<noteq> [] \<Longrightarrow> trans_walk h (is @ js) p = trans_walk h js q"
  by (induction "is" arbitrary: p) auto

text \<open>The tree of tables: sizes, levels, and one parent entry for each table.\<close>

definition tree_ok :: "(u64 \<Rightarrow> nat) \<Rightarrow> (u64 \<rightharpoonup> u64 list) \<Rightarrow> bool" where
  "tree_ok lev h \<longleftrightarrow> (\<forall>p t. h p = Some t \<longrightarrow> length t = 512)
     \<and> (\<forall>p i q. linked h p i q \<longrightarrow> 1 < lev p \<longrightarrow> h q \<noteq> None \<and> lev q = lev p - 1)
     \<and> (\<forall>p i p' i' q. linked h p i q \<longrightarrow> linked h p' i' q \<longrightarrow> 1 < lev p \<longrightarrow> 1 < lev p' \<longrightarrow> p = p' \<and> i = i')"

lemma tree_okD:
  assumes "tree_ok lev h"
  shows "h p = Some t \<Longrightarrow> length t = 512"
    and "linked h p i q \<Longrightarrow> 1 < lev p \<Longrightarrow> h q \<noteq> None \<and> lev q = lev p - 1"
    and "linked h p i q \<Longrightarrow> linked h p' i' q \<Longrightarrow> 1 < lev p \<Longrightarrow> 1 < lev p' \<Longrightarrow> p = p' \<and> i = i'"
  using assms unfolding tree_ok_def by blast+

lemma reach_linked: "reach h p (i # is) q \<longleftrightarrow> (\<exists>r. linked h p i r \<and> reach h r is q)"
  by (auto simp: linked_def)

lemma reach_snoc: "reach h p (is @ [i]) q \<longleftrightarrow> (\<exists>r. reach h p is r \<and> linked h r i q)"
  by (induction "is" arbitrary: p) (auto simp: linked_def)

lemma reach_level:
  assumes "tree_ok lev h"
  shows "reach h p is q \<Longrightarrow> h p \<noteq> None \<Longrightarrow> length is < lev p \<Longrightarrow>
     h q \<noteq> None \<and> lev q = lev p - length is"
proof (induction "is" arbitrary: p)
  case (Cons i "is")
  then obtain r where r: "linked h p i r" "reach h r is q"
    unfolding reach_linked by blast
  have l: "h r \<noteq> None \<and> lev r = lev p - 1" using tree_okD(2) [OF assms r(1)] Cons.prems by simp
  moreover have "length is < lev r" using l Cons.prems(3) by simp
  ultimately show ?case using Cons.IH [OF r(2)] by simp
qed simp

lemma reach_unique:
  assumes "tree_ok lev h"
  shows "reach h p is q \<Longrightarrow> reach h p js q \<Longrightarrow> length is = length js \<Longrightarrow> length is < lev p \<Longrightarrow>
     h p \<noteq> None \<Longrightarrow> is = js"
proof (induction "is" arbitrary: js q rule: rev_induct)
  case (snoc i "is")
  then obtain j ks where js: "js = ks @ [j]" by (cases js rule: rev_cases) auto
  obtain r where r: "reach h p is r" "linked h r i q" using snoc.prems(1) by (auto simp: reach_snoc)
  obtain u where u: "reach h p ks u" "linked h u j q" using snoc.prems(2) js by (auto simp: reach_snoc)
  have len: "length ks = length is" "length is < lev p" using snoc.prems(3,4) js by simp_all
  have lr: "lev r = lev p - length is" using reach_level [OF assms r(1)] snoc.prems(5) len by simp
  have lu: "lev u = lev p - length is" using reach_level [OF assms u(1)] snoc.prems(5) len by simp
  have "1 < lev p - length is" using snoc.prems(4) by simp
  then have "r = u \<and> i = j" using tree_okD(3) [OF assms r(2) u(2)] lr lu by simp
  then show ?case using snoc.IH [OF r(1), of ks] u(1) len snoc.prems(5) js by simp
qed simp


section \<open>Three kinds of writes to the tables\<close>

text \<open>A leaf entry changes: only the address whose walk ends there is affected.\<close>

lemma trans_leaf_write:
  assumes ok: "tree_ok lev h" and P: "h P = Some t" "lev P = 1" and i: "i < 512"
  shows "h p \<noteq> None \<Longrightarrow> lev p = Suc (length is) \<Longrightarrow> j < 512 \<Longrightarrow> \<forall>k \<in> set is. k < 512 \<Longrightarrow>
     trans_walk (h(P \<mapsto> t[i := e])) (is @ [j]) p =
       (if reach h p is P \<and> j = i then Some (if present e then Page (e AND PAGE_ADDR_MASK) 0 else Unmapped)
        else trans_walk h (is @ [j]) p)"
proof (induction "is" arbitrary: p)
  case Nil
  then obtain u where u: "h p = Some u" "length u = 512" using tree_okD(1) [OF ok] by blast
  show ?case using u Nil P i tree_okD(1) [OF ok P(1)] by (auto simp: nth_list_update)
next
  case (Cons k "is")
  then obtain u where u: "h p = Some u" "length u = 512" using tree_okD(1) [OF ok] by blast
  have pP: "p \<noteq> P" using Cons.prems(2) P(2) by auto
  show ?case
  proof (cases "present (u ! k) \<and> \<not> large (u ! k)")
    case True
    have l: "linked h p k (u ! k AND PAGE_ADDR_MASK)" using u True Cons.prems(4) by (simp add: linked_def)
    then have "h (u ! k AND PAGE_ADDR_MASK) \<noteq> None \<and> lev (u ! k AND PAGE_ADDR_MASK) = lev p - 1"
      using tree_okD(2) [OF ok l] Cons.prems(2) by simp
    then show ?thesis using Cons.IH [of "u ! k AND PAGE_ADDR_MASK"] Cons.prems u pP True by auto
  next
    case False
    then show ?thesis using Cons.prems u pP by auto
  qed
qed

text \<open>
  The kernel takes a page: an entry of its own page table K changes and the
  frame F of the page becomes an empty table.
\<close>

lemma trans_kernel_page:
  assumes ok: "tree_ok lev h" and K: "h K = Some t" "lev K = 1" and F: "h F = None" and i: "i < 512"
  shows "h p \<noteq> None \<Longrightarrow> lev p = Suc (length is) \<Longrightarrow> \<not> (reach h p is K \<and> j = i) \<Longrightarrow>
     \<forall>k \<in> set (is @ [j]). k < 512 \<Longrightarrow>
     trans_walk (h(K \<mapsto> t[i := e], F \<mapsto> z)) (is @ [j]) p = trans_walk h (is @ [j]) p"
proof (induction "is" arbitrary: p)
  case Nil
  then show ?case using F K by (cases "p = K") auto
next
  case (Cons k "is")
  then obtain u where u: "h p = Some u" "length u = 512" using tree_okD(1) [OF ok] by blast
  have pK: "p \<noteq> K" "p \<noteq> F" using Cons.prems(1,2) K(2) F by auto
  show ?case
  proof (cases "present (u ! k) \<and> \<not> large (u ! k)")
    case True
    have l: "linked h p k (u ! k AND PAGE_ADDR_MASK)" using u True Cons.prems(4) by (simp add: linked_def)
    then have "h (u ! k AND PAGE_ADDR_MASK) \<noteq> None \<and> lev (u ! k AND PAGE_ADDR_MASK) = lev p - 1"
      using tree_okD(2) [OF ok l] Cons.prems(2) by simp
    moreover have "\<not> (reach h (u ! k AND PAGE_ADDR_MASK) is K \<and> j = i)" using Cons.prems(3,4) u True by auto
    ultimately show ?thesis using Cons.IH [of "u ! k AND PAGE_ADDR_MASK"] Cons.prems u pK True by auto
  next
    case False
    then show ?thesis using Cons.prems u pK by auto
  qed
qed

lemma reach_kernel_page:
  assumes ok: "tree_ok lev h" and K: "h K = Some t" "lev K = 1" and F: "h F = None"
  shows "h p \<noteq> None \<Longrightarrow> length is < lev p \<Longrightarrow> reach (h(K \<mapsto> t', F \<mapsto> z)) p is q = reach h p is q"
proof (induction "is" arbitrary: p)
  case (Cons k "is")
  then have pK: "p \<noteq> K" "p \<noteq> F" using K(2) F by auto
  have "linked h p k r \<Longrightarrow> reach (h(K \<mapsto> t', F \<mapsto> z)) r is q = reach h r is q" for r
    using tree_okD(2) [OF ok, of p k r] Cons.IH [of r] Cons.prems by (auto simp del: fun_upd_apply)
  moreover have "linked (h(K \<mapsto> t', F \<mapsto> z)) p k r = linked h p k r" for r
    using pK by (simp add: linked_def)
  ultimately show ?case unfolding reach_linked by blast
qed simp

text \<open>An entry that was not present is linked to an empty table F.\<close>

lemma trans_link:
  assumes ok: "tree_ok lev h" and P: "h P = Some t" "1 < lev P" "i < 512" "\<not> present (t ! i)"
    and F: "h F = Some (replicate 512 0)" "P \<noteq> F" and e: "present e" "\<not> large e" "e AND PAGE_ADDR_MASK = F"
  shows "h p \<noteq> None \<Longrightarrow> lev p = Suc (length is) \<Longrightarrow> \<forall>k \<in> set (is @ [j]). k < 512 \<Longrightarrow>
     trans_walk (h(P \<mapsto> t[i := e])) (is @ [j]) p = trans_walk h (is @ [j]) p"
proof (induction "is" arbitrary: p)
  case Nil
  then show ?case using P(2) by auto
next
  case (Cons k "is")
  then obtain u where u: "h p = Some u" "length u = 512" using tree_okD(1) [OF ok] by blast
  have step: "trans_walk (h(P \<mapsto> t[i := e])) (is @ [j]) (u ! k AND PAGE_ADDR_MASK)
      = trans_walk h (is @ [j]) (u ! k AND PAGE_ADDR_MASK)" if "present (u ! k) \<and> \<not> large (u ! k)"
  proof -
    have l: "linked h p k (u ! k AND PAGE_ADDR_MASK)" using u that Cons.prems(3) by (simp add: linked_def)
    then show ?thesis
      using tree_okD(2) [OF ok l] Cons.prems Cons.IH [of "u ! k AND PAGE_ADDR_MASK"]
      by (auto simp del: fun_upd_apply)
  qed
  have empty: "trans_walk (h(P \<mapsto> t[i := e])) (js @ [j]) F = Some Unmapped" if "\<forall>k \<in> set (js @ [j]). k < 512" for js
    using that F by (cases js) auto
  show ?case
  proof (cases "p = P \<and> k = i")
    case True
    then have "trans_walk (h(P \<mapsto> t[i := e])) ((k # is) @ [j]) p = Some Unmapped"
      using P u e empty [of "is"] Cons.prems by (simp add: fun_upd_same del: fun_upd_apply)
    moreover have "trans_walk h ((k # is) @ [j]) p = Some Unmapped" using True P u Cons.prems by auto
    ultimately show ?thesis by (simp only:)
  next
    case False
    define h' where "h' = h(P \<mapsto> t[i := e])"
    define u' where "u' = (if p = P then t[i := e] else u)"
    have u': "h' p = Some u'" "length u' = 512" "u' ! k = u ! k"
      using False u P(1) by (auto simp: h'_def u'_def)
    show ?thesis using u u' Cons.prems(3) step unfolding h'_def [symmetric] by simp
  qed
qed

lemma reach_link:
  assumes ok: "tree_ok lev h" and P: "h P = Some t" "1 < lev P" "i < 512" "\<not> present (t ! i)"
    and F: "h F = Some (replicate 512 0)" "P \<noteq> F" and e: "present e" "\<not> large e" "e AND PAGE_ADDR_MASK = F"
    and q: "q \<noteq> F"
  shows "h p \<noteq> None \<Longrightarrow> length is < lev p \<Longrightarrow> reach (h(P \<mapsto> t[i := e])) p is q = reach h p is q"
proof (induction "is" arbitrary: p)
  case (Cons k "is")
  let ?h = "h(P \<mapsto> t[i := e])"
  have len: "length t = 512" using tree_okD(1) [OF ok P(1)] .
  have F0: "\<not> reach ?h F is q" using q F by (cases "is") auto
  have lk: "linked ?h p k r \<longleftrightarrow> linked h p k r \<or> (p = P \<and> k = i \<and> r = F)" for r
    using P e len by (auto simp: linked_def nth_list_update)
  have "linked h p k r \<Longrightarrow> reach ?h r is q = reach h r is q" for r
    using tree_okD(2) [OF ok, of p k r] Cons.IH [of r] Cons.prems by (auto simp del: fun_upd_apply)
  then show ?case unfolding reach_linked lk using F0 by blast
qed simp


text \<open>The tree stays a tree.\<close>

lemma tree_ok_setup:
  assumes ok: "tree_ok lev h" and K: "h K = Some tK" "lev K = 1" "length tK' = 512"
    and P: "h P = Some t" "lev P = Suc k" "0 < k" "i < 512" "\<not> present (t ! i)"
    and F: "h F = None" and e: "present e" "\<not> large e" "e AND PAGE_ADDR_MASK = F"
  shows "tree_ok (lev(F := k)) (h(K \<mapsto> tK', F \<mapsto> replicate 512 0, P \<mapsto> t[i := e]))"
proof -
  let ?h = "h(K \<mapsto> tK', F \<mapsto> replicate 512 0, P \<mapsto> t[i := e])" and ?lev = "lev(F := k)"
  have ne: "P \<noteq> K" "P \<noteq> F" "K \<noteq> F" using P K F by auto
  have lt: "length t = 512" using tree_okD(1) [OF ok P(1)] .
  have lk: "linked ?h p j q \<longleftrightarrow> linked h p j q \<and> \<not> (p = P \<and> j = i) \<or> (p = P \<and> j = i \<and> q = F)"
    if "1 < ?lev p" for p j q
  proof -
    consider "p = P" | "p = F" | "p = K" | "p \<noteq> P" "p \<noteq> F" "p \<noteq> K" by blast
    then show ?thesis
    proof cases
      case 1
      then show ?thesis using ne P(1) e lt P(4) by (auto simp: linked_def nth_list_update)
    next
      case 2
      then show ?thesis using ne F by (auto simp: linked_def)
    next
      case 3
      then show ?thesis using that K(2) ne by auto
    next
      case 4
      then show ?thesis by (auto simp: linked_def)
    qed
  qed
  have old: "linked h p j q \<Longrightarrow> 1 < ?lev p \<Longrightarrow> h q \<noteq> None \<and> lev q = lev p - 1 \<and> q \<noteq> F \<and> p \<noteq> F" for p j q
    using tree_okD(2) [OF ok, of p j q] F by (cases "p = F") (auto simp: linked_def)
  show ?thesis
    unfolding tree_ok_def
  proof (intro conjI allI impI)
    show "length u = 512" if "?h p = Some u" for p u
      using that tree_okD(1) [OF ok] K(3) lt by (auto split: if_splits)
  next
    fix p j q assume l: "linked ?h p j q" "1 < ?lev p"
    show "?h q \<noteq> None" using lk [OF l(2)] l old by auto
    show "?lev q = ?lev p - 1" using lk [OF l(2)] l old [of p j q] P(2) ne by auto
  next
    fix p j p' j' q
    assume l: "linked ?h p j q" "linked ?h p' j' q" "1 < ?lev p" "1 < ?lev p'"
    have "p = p' \<and> j = j'"
      using lk [OF l(3)] lk [OF l(4)] l old [of p j q] old [of p' j' q] tree_okD(3) [OF ok, of p j q p' j']
      by auto
    then show "p = p'" "j = j'" by auto
  qed
qed

lemma tree_ok_page:
  assumes ok: "tree_ok lev h" and K: "h K = Some tK" "lev K = 1" "length tK' = 512" and F: "h F = None"
  shows "tree_ok (lev(F := k)) (h(K \<mapsto> tK', F \<mapsto> replicate 512 0))"
proof -
  let ?h = "h(K \<mapsto> tK', F \<mapsto> replicate 512 0)" and ?lev = "lev(F := k)"
  have lk: "linked ?h p j q = linked h p j q" if "1 < ?lev p" for p j q
    using that F K by (cases "p = F") (auto simp: linked_def)
  have old: "linked h p j q \<Longrightarrow> 1 < ?lev p \<Longrightarrow> h q \<noteq> None \<and> lev q = lev p - 1 \<and> q \<noteq> F \<and> p \<noteq> F" for p j q
    using tree_okD(2) [OF ok, of p j q] F by (cases "p = F") (auto simp: linked_def)
  show ?thesis
    unfolding tree_ok_def
  proof (intro conjI allI impI)
    show "length u = 512" if "?h p = Some u" for p u
      using that tree_okD(1) [OF ok] K(3) by (auto split: if_splits)
  next
    fix p j q assume l: "linked ?h p j q" "1 < ?lev p"
    have "linked h p j q" using lk [OF l(2)] l(1) by blast
    then have "h q \<noteq> None" "lev q = lev p - 1" "q \<noteq> F" "p \<noteq> F" using old l(2) by blast+
    then show "?h q \<noteq> None" "?lev q = ?lev p - 1" by simp_all
  next
    fix p j p' j' q
    assume l: "linked ?h p j q" "linked ?h p' j' q" "1 < ?lev p" "1 < ?lev p'"
    have a: "linked h p j q" "linked h p' j' q" using lk l by blast+
    then have "p \<noteq> F" "p' \<noteq> F" using old l(3,4) by blast+
    then have "p = p' \<and> j = j'" using tree_okD(3) [OF ok a] l(3,4) by simp
    then show "p = p'" "j = j'" by auto
  qed
qed

lemma tree_ok_leaf:
  assumes ok: "tree_ok lev h" and P: "h P = Some t" "lev P = 1"
  shows "tree_ok lev (h(P \<mapsto> t[i := e]))"
proof -
  have lk: "linked (h(P \<mapsto> t[i := e])) p j q = linked h p j q" if "1 < lev p" for p j q
    using that P(2) by (auto simp: linked_def)
  show ?thesis unfolding tree_ok_def
  proof (intro conjI allI impI)
    show "length u = 512" if "(h(P \<mapsto> t[i := e])) p = Some u" for p u
      using that tree_okD(1) [OF ok] P(1) by (auto split: if_splits)
  next
    fix p j q assume l: "linked (h(P \<mapsto> t[i := e])) p j q" "1 < lev p"
    then show "(h(P \<mapsto> t[i := e])) q \<noteq> None" "lev q = lev p - 1"
      using tree_okD(2) [OF ok, of p j q] lk by auto
  next
    fix p j p' j' q
    assume l: "linked (h(P \<mapsto> t[i := e])) p j q" "linked (h(P \<mapsto> t[i := e])) p' j' q" "1 < lev p" "1 < lev p'"
    then have "p = p' \<and> j = j'" using tree_okD(3) [OF ok, of p j q p' j'] lk by blast
    then show "p = p'" "j = j'" by auto
  qed
qed


section \<open>The kernel's tables\<close>

definition addr_ok :: "paging \<Rightarrow> u64 \<Rightarrow> bool" where
  "addr_ok s p \<longleftrightarrow> p AND PAGE_ADDR_MASK = p \<and> ADDR_IDENTITY_MAP \<le> p + ADDR_IDENTITY_MAP
     \<and> p + ADDR_IDENTITY_MAP < kernel_virtual_base s"

definition paging_ok :: "(u64 \<Rightarrow> nat) \<Rightarrow> paging \<Rightarrow> bool" where
  "paging_ok lev s \<longleftrightarrow> tree_ok lev (frames s) \<and> frames s (cr3 s) \<noteq> None \<and> lev (cr3 s) = 4
     \<and> (\<forall>p. frames s p \<noteq> None \<longrightarrow> addr_ok s p)"

definition cur_pt :: "paging \<Rightarrow> u64" where
  "cur_pt s = table_frame s (k_current_pt s)"

text \<open>
  The kernel can take n more pages without leaving its current page table: the
  next physical pages are unused, the virtual window is in step with them.
\<close>

definition room :: "(u64 \<Rightarrow> nat) \<Rightarrow> nat \<Rightarrow> paging \<Rightarrow> bool" where
  "room lev n s \<longleftrightarrow> unat (k_current_pt_index s) + n \<le> 511 \<and> k_current_pd_index s \<noteq> 512
     \<and> k_current_pd s \<noteq> k_new_pd s \<and> k_current_pt s \<noteq> k_new_pt s
     \<and> frames s (cur_pt s) \<noteq> None \<and> lev (cur_pt s) = 1
     \<and> kernel_virtual_memory_next s - kernel_virtual_allocation_base s
         + kernel_physical_allocation_base s = kernel_physical_memory_next s
     \<and> kernel_virtual_base s \<le> kernel_virtual_allocation_base s
     \<and> kernel_virtual_allocation_base s \<le> kernel_virtual_memory_next s
     \<and> unat (kernel_virtual_memory_next s) + n * 4096 < 2 ^ 64
     \<and> (\<forall>i < n. frames s (kernel_physical_memory_next s + of_nat i * PAGE_SIZE) = None
           \<and> addr_ok s (kernel_physical_memory_next s + of_nat i * PAGE_SIZE))"

lemma table_frame_ident:
  assumes "addr_ok s p"
  shows "table_frame s (p + ADDR_IDENTITY_MAP) = p"
  using assms by (simp add: addr_ok_def table_frame_def)

definition va_path :: "u64 \<Rightarrow> nat list" where
  "va_path v = [unat (drop_bit 39 v AND 0x1FF), unat (drop_bit 30 v AND 0x1FF),
      unat (drop_bit 21 v AND 0x1FF), unat (drop_bit 12 v AND 0x1FF)]"

text \<open>
  The processor's translation of the page of an address, and the addresses at
  which it meets no large page, the only ones the code's function is made for.
\<close>

definition mmu_translate :: "u64 \<Rightarrow> paging \<Rightarrow> mapping option" where
  "mmu_translate v s = trans_walk (frames s) (va_path v) (cr3 s)"

definition small_walk :: "(u64 \<rightharpoonup> u64 list) \<Rightarrow> nat list \<Rightarrow> u64 \<Rightarrow> bool" where
  "small_walk h is p \<longleftrightarrow> (\<forall>a n. trans_walk h is p = Some (Page a n) \<longrightarrow> n = 0)"

definition small_page :: "u64 \<Rightarrow> paging \<Rightarrow> bool" where
  "small_page v s \<longleftrightarrow> small_walk (frames s) (va_path v) (cr3 s)"

primrec page_address :: "mapping \<Rightarrow> u64" where
  "page_address Unmapped = 0"
| "page_address (Page a n) = a"

lemma small_walk_step:
  assumes "small_walk h (i # is) p" "is \<noteq> []" "h p = Some t" "i < length t" "present (t ! i)"
  shows "\<not> large (t ! i)" "small_walk h is (t ! i AND PAGE_ADDR_MASK)"
proof -
  show n: "\<not> large (t ! i)" using assms by (auto simp: small_walk_def)
  show "small_walk h is (t ! i AND PAGE_ADDR_MASK)" using assms n by (auto simp: small_walk_def)
qed

lemma walk_step:
  assumes ok: "paging_ok lev s" and p: "frames s p \<noteq> None" "1 < lev p"
    and sm: "small_walk (frames s) (i # is) p" "is \<noteq> []"
    and g: "\<And>q. frames s q \<noteq> None \<Longrightarrow> lev q = lev p - 1 \<Longrightarrow> small_walk (frames s) is q \<Longrightarrow>
      g (q + ADDR_IDENTITY_MAP) = map_option page_address (trans_walk (frames s) is q)"
  shows "(rd_entry s (p + ADDR_IDENTITY_MAP) i \<bind> (\<lambda>e. if \<not> present e then Some 0 else g (entry_table e)))
     = map_option page_address (trans_walk (frames s) (i # is) p)"
proof -
  obtain t where t: "frames s p = Some t" using p(1) by auto
  have ad: "addr_ok s p" using ok p(1) unfolding paging_ok_def by blast
  have "g (entry_table (t ! i)) = map_option page_address (trans_walk (frames s) is (t ! i AND PAGE_ADDR_MASK))
      \<and> \<not> large (t ! i)"
    if "i < length t" "present (t ! i)"
  proof -
    note sw = small_walk_step [OF sm t that]
    have "linked (frames s) p i (t ! i AND PAGE_ADDR_MASK)" using t that sw by (simp add: linked_def)
    then show ?thesis using tree_okD(2) [of lev "frames s"] ok p(2) g sw by (simp add: paging_ok_def)
  qed
  then show ?thesis by (simp add: rd_entry_def table_frame_ident [OF ad] t)
qed

lemma leaf_step:
  assumes ok: "paging_ok lev s" and p: "frames s p \<noteq> None"
  shows "(rd_entry s (p + ADDR_IDENTITY_MAP) i \<bind> (\<lambda>e. if \<not> present e then Some 0 else Some (e AND PAGE_ADDR_MASK)))
     = map_option page_address (trans_walk (frames s) [i] p)"
proof -
  obtain t where t: "frames s p = Some t" using p(1) by auto
  have ad: "addr_ok s p" using ok p(1) unfolding paging_ok_def by blast
  show ?thesis by (simp add: rd_entry_def table_frame_ident [OF ad] t)
qed

lemma v2p_trans:
  assumes ok: "paging_ok lev s" and sm: "small_page v s"
  shows "paging_virtual_to_physical v s = map_option page_address (mmu_translate v s)"
proof -
  have c: "frames s (cr3 s) \<noteq> None" "lev (cr3 s) = 4" using ok by (simp_all add: paging_ok_def)
  show ?thesis
    unfolding paging_virtual_to_physical_def Let_def va_path_def mmu_translate_def
    by (rule walk_step [OF ok], use c in simp, use c in simp,
        use sm in \<open>simp add: small_page_def va_path_def\<close>, simp,
        rule walk_step [OF ok], simp, use c in simp, simp, simp,
        rule walk_step [OF ok], simp, use c in simp, simp, simp, rule leaf_step [OF ok]) simp
qed

lemma va_path_snoc: "va_path w = butlast (va_path w) @ [last (va_path w)]" for w
  by (simp add: va_path_def)

lemma butlast_path_len: "length (butlast (va_path v)) = 3"
  by (simp add: va_path_def)

text \<open>The walk to the end of a chain of tables meets no large page.\<close>

lemma reach_small:
  assumes "reach (frames s) (cr3 s) (butlast (va_path v)) q"
  shows "small_page v s" "mmu_translate v s = trans_walk (frames s) [last (va_path v)] q"
proof -
  show e: "mmu_translate v s = trans_walk (frames s) [last (va_path v)] q"
    unfolding mmu_translate_def by (subst va_path_snoc, rule reach_trans [OF assms]) simp
  have "trans_walk (frames s) [i] q = Some (Page a n) \<Longrightarrow> n = 0" for i a n
    by (auto split: option.splits if_splits simp: bind_eq_Some_conv)
  then show "small_page v s" using e by (auto simp: small_page_def small_walk_def mmu_translate_def)
qed

section \<open>Taking a page for a table\<close>

definition after_alloc :: "paging \<Rightarrow> u64 list \<Rightarrow> paging" where
  "after_alloc s tK = s\<lparr>int_on := True,
     frames := (frames s)(cur_pt s \<mapsto> tK, kernel_physical_memory_next s \<mapsto> replicate 512 0),
     k_current_pt_index := k_current_pt_index s + 1,
     kernel_virtual_memory_next := kernel_virtual_memory_next s + PAGE_SIZE,
     kernel_physical_memory_next := kernel_physical_memory_next s + PAGE_SIZE\<rparr>"

lemma alloc_one:
  assumes ok: "paging_ok lev s" and r: "room lev (Suc n) s"
  shows "\<exists>t e. frames s (cur_pt s) = Some t \<and> length t = 512
     \<and> page_allocate_kernel_linear 1 s =
         Some (kernel_virtual_memory_next s, after_alloc s (t[unat (k_current_pt_index s) := e]))"
proof -
  obtain t where t: "frames s (cur_pt s) = Some t" using r by (auto simp: room_def)
  have len: "length t = 512" using tree_okD(1) [of lev "frames s"] ok t by (auto simp: paging_ok_def)
  have i: "unat (k_current_pt_index s) < 512" "k_current_pt_index s \<noteq> 511"
    using r by (auto simp: room_def)
  let ?t = "t[unat (k_current_pt_index s) := paging_make_page (kernel_physical_memory_next s) (1 OR 2)]"
  let ?s0 = "s\<lparr>int_on := False\<rparr>"
  let ?s1 = "(after_alloc s ?t)\<lparr>int_on := False, k_current_pt_index := k_current_pt_index s\<rparr>"
  have tf: "table_frame ?s0 (k_current_pt s) = cur_pt s" by (simp add: table_frame_def cur_pt_def)
  have wr: "wr_entry ?s0 (k_current_pt s) (unat (k_current_pt_index s))
      (paging_make_page (kernel_physical_memory_next s) (1 OR 2)) = Some (?s0\<lparr>frames := (frames s)(cur_pt s \<mapsto> ?t)\<rparr>)"
    using t i(1) len unfolding wr_entry_def tf by simp
  have single: "paging_allocate_single_linear_kernel_page ?s0 = Some (kernel_virtual_memory_next s, ?s1)"
    using wr by (simp add: paging_allocate_single_linear_kernel_page_def Let_def after_alloc_def)
  have inc: "paging_increment_kernel_page_index ?s1 = Some (?s1\<lparr>k_current_pt_index := k_current_pt_index s + 1\<rparr>)"
    using i(2) r by (simp add: paging_increment_kernel_page_index_def room_def after_alloc_def)
  have "page_allocate_kernel_linear 1 s = Some (kernel_virtual_memory_next s, after_alloc s ?t)"
    using r single inc
    by (simp add: page_allocate_kernel_linear_def room_def Let_def, simp add: after_alloc_def)
  then show ?thesis using t len by blast
qed

lemma word_add_mono_nat:
  assumes "unat (a :: u64) + k < 2 ^ 64"
  shows "unat (a + of_nat k) = unat a + k"
proof -
  have "unat (of_nat k :: u64) = k" using assms by (intro unat_of_nat_u64) simp
  then show ?thesis using assms unat_add_lem [of a "of_nat k"] by simp
qed

lemma room_after:
  assumes ok: "paging_ok lev s" and r: "room lev (Suc n) s" and len: "length tK = 512"
    and lev': "\<And>p. frames s p \<noteq> None \<Longrightarrow> lev' p = lev p"
  shows "room lev' n (after_alloc s tK)"
proof -
  let ?s = "after_alloc s tK"
  have K: "frames s (cur_pt s) \<noteq> None" "lev (cur_pt s) = 1" using r by (auto simp: room_def)
  have F: "frames s (kernel_physical_memory_next s) = None"
    using r unfolding room_def by (metis (no_types) add.right_neutral mult_zero_left of_nat_0 zero_less_Suc)
  have cur: "cur_pt ?s = cur_pt s" by (simp add: cur_pt_def after_alloc_def table_frame_def)
  have ix: "unat (k_current_pt_index s) + 1 + n \<le> 511" using r by (simp add: room_def)
  then have uix: "unat (k_current_pt_index s + 1) = unat (k_current_pt_index s) + 1"
    by (subst unat_add_lem [THEN iffD1]) auto
  have v: "unat (kernel_virtual_memory_next s + PAGE_SIZE) = unat (kernel_virtual_memory_next s) + 4096"
    using word_add_mono_nat [of "kernel_virtual_memory_next s" 4096] r by (simp add: room_def)
  have vm: "kernel_virtual_allocation_base s \<le> kernel_virtual_memory_next s + PAGE_SIZE"
    using r v by (simp add: room_def word_le_nat_alt)
  have un: "frames ?s (kernel_physical_memory_next ?s + of_nat i * PAGE_SIZE) = None
      \<and> addr_ok ?s (kernel_physical_memory_next ?s + of_nat i * PAGE_SIZE)" if "i < n" for i
  proof -
    let ?q = "kernel_physical_memory_next s + of_nat (Suc i) * PAGE_SIZE"
    have q: "frames s ?q = None" "addr_ok s ?q" using r that unfolding room_def by blast+
    have eq: "kernel_physical_memory_next ?s + of_nat i * PAGE_SIZE = ?q"
      by (simp add: after_alloc_def algebra_simps)
    have "?q \<noteq> cur_pt s" using q(1) K(1) by auto
    moreover have "?q \<noteq> kernel_physical_memory_next s"
    proof
      assume "?q = kernel_physical_memory_next s"
      then have z: "(of_nat (Suc i) * PAGE_SIZE :: u64) = 0" by simp
      have "Suc i * 4096 < 2 ^ 64" using that ix by simp
      then have "unat (of_nat (Suc i * 4096) :: u64) = Suc i * 4096" by (intro unat_of_nat_u64) simp
      moreover have "(of_nat (Suc i * 4096) :: u64) = 0" using z by (simp only: of_nat_mult of_nat_numeral)
      ultimately have "Suc i * 4096 = 0" by (metis unat_0)
      then show False by simp
    qed
    ultimately show ?thesis unfolding eq using q by (simp add: after_alloc_def addr_ok_def)
  qed
  show ?thesis unfolding room_def
  proof (intro conjI)
    show "unat (k_current_pt_index ?s) + n \<le> 511" using ix uix by (simp add: after_alloc_def)
    show "frames ?s (cur_pt ?s) \<noteq> None" unfolding cur by (simp add: after_alloc_def)
    show "lev' (cur_pt ?s) = 1" unfolding cur using lev' K by simp
    show "unat (kernel_virtual_memory_next ?s) + n * 4096 < 2 ^ 64"
      using v r by (simp add: after_alloc_def room_def)
    show "kernel_virtual_memory_next ?s - kernel_virtual_allocation_base ?s
         + kernel_physical_allocation_base ?s = kernel_physical_memory_next ?s"
      using r by (simp add: after_alloc_def room_def algebra_simps)
    show "\<forall>i<n. frames ?s (kernel_physical_memory_next ?s + of_nat i * PAGE_SIZE) = None
      \<and> addr_ok ?s (kernel_physical_memory_next ?s + of_nat i * PAGE_SIZE)" using un by blast
  qed (use r vm in \<open>simp_all add: after_alloc_def room_def\<close>)
qed

text \<open>A frame that is no table: no walk of fewer than four steps ends in it.\<close>

definition plain_frame :: "paging \<Rightarrow> u64 \<Rightarrow> bool" where
  "plain_frame s q \<longleftrightarrow> frames s q \<noteq> None \<and> q \<noteq> cur_pt s
     \<and> (\<forall>is. length is < 4 \<longrightarrow> \<not> reach (frames s) (cr3 s) is q)"

text \<open>
  What setting up a missing table does: extends s s' says that every walk of
  four indexes ends as before, but those to the entries of the kernel's current
  page table the allocator has taken, that walks to existing tables are the same,
  and frames that are no tables keep their contents.
\<close>

definition allotted :: "paging \<Rightarrow> paging \<Rightarrow> nat list \<Rightarrow> nat \<Rightarrow> bool" where
  "allotted s s' is j \<longleftrightarrow> reach (frames s) (cr3 s) is (cur_pt s)
     \<and> unat (k_current_pt_index s) \<le> j \<and> j < unat (k_current_pt_index s')"

definition next_in_step :: "paging \<Rightarrow> paging \<Rightarrow> bool" where
  "next_in_step s s' \<longleftrightarrow> unat (k_current_pt_index s) \<le> unat (k_current_pt_index s')
     \<and> kernel_virtual_memory_next s'
         = kernel_virtual_memory_next s + of_nat (unat (k_current_pt_index s') - unat (k_current_pt_index s)) * PAGE_SIZE"

lemma next_in_step_trans:
  assumes "next_in_step s s1" "next_in_step s1 s2"
  shows "next_in_step s s2"
proof -
  have "(of_nat (unat (k_current_pt_index s2) - unat (k_current_pt_index s)) :: u64)
      = of_nat (unat (k_current_pt_index s1) - unat (k_current_pt_index s))
        + of_nat (unat (k_current_pt_index s2) - unat (k_current_pt_index s1))"
    using assms unfolding next_in_step_def of_nat_add [symmetric] by simp
  then show ?thesis using assms unfolding next_in_step_def by (simp add: algebra_simps)
qed

definition extends :: "paging \<Rightarrow> paging \<Rightarrow> bool" where
  "extends s s' \<longleftrightarrow> cr3 s' = cr3 s \<and> cur_pt s' = cur_pt s
     \<and> (\<forall>v. table_frame s' v = table_frame s v)
     \<and> next_in_step s s'
     \<and> (\<forall>is j. length is = 3 \<longrightarrow> (\<forall>k \<in> set (is @ [j]). k < 512) \<longrightarrow> \<not> allotted s s' is j \<longrightarrow>
          trans_walk (frames s') (is @ [j]) (cr3 s) = trans_walk (frames s) (is @ [j]) (cr3 s))
     \<and> (\<forall>is q. length is < 4 \<longrightarrow> frames s q \<noteq> None \<longrightarrow>
          reach (frames s') (cr3 s) is q = reach (frames s) (cr3 s) is q)
     \<and> (\<forall>q. frames s q \<noteq> None \<longrightarrow> frames s' q \<noteq> None)
     \<and> (\<forall>q. plain_frame s q \<longrightarrow> frames s' q = frames s q)"

lemma extends_refl: "extends s s"
  by (simp add: extends_def next_in_step_def)

lemma extends_trans:
  assumes a: "extends s s1" and b: "extends s1 s2" and K: "frames s (cur_pt s) \<noteq> None"
  shows "extends s s2"
proof -
  have 1: "cr3 s1 = cr3 s" "cur_pt s1 = cur_pt s" using a by (simp_all add: extends_def)
  have "trans_walk (frames s2) (is @ [j]) (cr3 s) = trans_walk (frames s) (is @ [j]) (cr3 s)"
    if "length is = 3" "\<forall>k \<in> set (is @ [j]). k < 512" "\<not> allotted s s2 is j" for "is" j
  proof -
    have m: "unat (k_current_pt_index s) \<le> unat (k_current_pt_index s1)"
      "unat (k_current_pt_index s1) \<le> unat (k_current_pt_index s2)"
      using a b by (simp_all add: extends_def next_in_step_def)
    have "reach (frames s1) (cr3 s) is (cur_pt s) = reach (frames s) (cr3 s) is (cur_pt s)"
      using a that(1) K by (simp add: extends_def)
    then have "\<not> allotted s s1 is j" "\<not> allotted s1 s2 is j"
      using that(3) m 1 by (auto simp: allotted_def)
    then show ?thesis using a b that 1 by (simp add: extends_def)
  qed
  moreover have "frames s2 q = frames s q" if "plain_frame s q" for q
  proof -
    have "plain_frame s1 q" using that a 1 by (auto simp: extends_def plain_frame_def)
    then show ?thesis using a b that by (simp add: extends_def)
  qed
  moreover have "next_in_step s s2" using a b next_in_step_trans [of s s1 s2] by (simp add: extends_def)
  ultimately show ?thesis using a b 1 by (simp add: extends_def)
qed

lemma setup_missing:
  assumes ok: "paging_ok lev s" and r: "room lev (Suc n) s"
    and P: "frames s (table_frame s par) = Some t" "lev (table_frame s par) = Suc k" "0 < k"
    and i: "unat i < 512" "\<not> present (t ! unat i)"
    and path: "reach (frames s) (cr3 s) path (table_frame s par)" "length path + k = 3"
  shows "\<exists>v s' lev'. setup_table True found par i s = Some (v, s') \<and> paging_ok lev' s' \<and> room lev' n s'
     \<and> extends s s' \<and> frames s' (table_frame s' v) = Some (replicate 512 0) \<and> lev' (table_frame s' v) = k
     \<and> reach (frames s') (cr3 s') (path @ [unat i]) (table_frame s' v)
     \<and> unat (k_current_pt_index s') = unat (k_current_pt_index s) + 1"
proof -
  let ?F = "kernel_physical_memory_next s" and ?V = "kernel_virtual_memory_next s" and ?P = "table_frame s par"
  let ?K = "cur_pt s" and ?h = "frames s"
  have tok: "tree_ok lev ?h" and c: "?h (cr3 s) \<noteq> None" "lev (cr3 s) = 4"
    using ok by (simp_all add: paging_ok_def)
  obtain t0 eK where t0: "?h ?K = Some t0" "length t0 = 512"
    and al0: "page_allocate_kernel_linear 1 s = Some (?V, after_alloc s (t0[unat (k_current_pt_index s) := eK]))"
    using alloc_one [OF ok r] by blast
  define tK where "tK = t0[unat (k_current_pt_index s) := eK]"
  have al: "page_allocate_kernel_linear 1 s = Some (?V, after_alloc s tK)" "length tK = 512"
    using al0 t0 by (simp_all add: tK_def)
  have ix: "unat (k_current_pt_index s) < 512" using r by (simp add: room_def)
  then have ix1: "unat (k_current_pt_index s + 1) = unat (k_current_pt_index s) + 1"
    by (subst unat_add_lem [THEN iffD1]) auto
  have "\<forall>j < Suc n. ?h (?F + of_nat j * PAGE_SIZE) = None \<and> addr_ok s (?F + of_nat j * PAGE_SIZE)"
    using r unfolding room_def by blast
  from this [rule_format, of 0] have F: "?h ?F = None" "addr_ok s ?F" by simp_all
  have K: "?h ?K = Some t0" "lev ?K = 1" using r t0 by (auto simp: room_def)
  have ne: "?P \<noteq> ?K" "?P \<noteq> ?F" "?K \<noteq> ?F" using P K F by auto
  have "kernel_virtual_base s \<le> kernel_virtual_allocation_base s" "kernel_virtual_allocation_base s \<le> ?V"
    using r by (simp_all add: room_def)
  then have "\<not> ?V < kernel_virtual_base s" "\<not> ?V < kernel_virtual_allocation_base s" by auto
  then have V: "table_frame s ?V = ?F" using r by (simp add: room_def table_frame_def)
  define e where "e = paging_make_page ?F (1 OR 2)"
  have e: "present e" "\<not> large e" "e AND PAGE_ADDR_MASK = ?F"
    using F(2) by (simp_all add: e_def make_page_present make_page_large make_page_addr addr_ok_def bit_or_iff bit_1_iff)
  define s' where "s' = (after_alloc s tK)\<lparr>frames := ?h(?K \<mapsto> tK, ?F \<mapsto> replicate 512 0, ?P \<mapsto> t[unat i := e])\<rparr>"
  have tf: "table_frame s' v = table_frame s v" for v by (simp add: s'_def after_alloc_def table_frame_def)
  have tf1: "table_frame (after_alloc s tK) v = table_frame s v" for v by (simp add: after_alloc_def table_frame_def)
  have lt: "length t = 512" using tree_okD(1) [OF tok P(1)] .
  have off: "?V - kernel_virtual_allocation_base s + kernel_physical_allocation_base s = ?F"
    using r by (simp add: room_def)
  have fr: "frames (after_alloc s tK) = ?h(?K \<mapsto> tK, ?F \<mapsto> replicate 512 0)" by (simp add: after_alloc_def)
  have wr: "wr_entry (after_alloc s tK) par (unat i) e = Some s'"
    using P(1) ne i(1) lt by (simp add: wr_entry_def tf1 fr s'_def)
  have bases: "kernel_virtual_allocation_base (after_alloc s tK) = kernel_virtual_allocation_base s"
      "kernel_physical_allocation_base (after_alloc s tK) = kernel_physical_allocation_base s"
    by (simp_all add: after_alloc_def)
  have st: "setup_table True found par i s = Some (?V, s')"
    using al(1) wr by (simp add: setup_table_def bases off e_def)
  let ?lev = "lev(?F := k)"
  have fs': "frames s' = ?h(?K \<mapsto> tK, ?F \<mapsto> replicate 512 0, ?P \<mapsto> t[unat i := e])" by (simp add: s'_def)
  have tok': "tree_ok ?lev (frames s')"
    unfolding fs' by (rule tree_ok_setup [OF tok K al(2) P i F(1) e])
  have cF: "cr3 s \<noteq> ?F" using c(1) F(1) by auto
  have ok': "paging_ok ?lev s'"
  proof -
    have "addr_ok s' p" if "frames s' p \<noteq> None" for p
    proof -
      have "?h p \<noteq> None \<or> p = ?F" using that P(1) K(1) by (auto simp: fs' split: if_splits)
      then have "addr_ok s p" using ok F(2) by (auto simp: paging_ok_def)
      then show ?thesis by (simp add: addr_ok_def s'_def after_alloc_def)
    qed
    moreover have "cr3 s' = cr3 s" by (simp add: s'_def after_alloc_def)
    moreover have "frames s' (cr3 s) \<noteq> None" using c(1) by (simp add: fs')
    ultimately show ?thesis using tok' c(2) cF by (simp add: paging_ok_def)
  qed
  have rm: "room ?lev n s'"
  proof -
    have "room ?lev n (after_alloc s tK)"
      by (rule room_after [OF ok r al(2)]) (use F(1) in auto)
    moreover have "frames s' q = None \<longleftrightarrow> frames (after_alloc s tK) q = None" for q
      using P(1) ne by (auto simp: s'_def after_alloc_def)
    moreover have "cur_pt s' = cur_pt (after_alloc s tK)" by (simp add: cur_pt_def s'_def after_alloc_def table_frame_def)
    moreover have "addr_ok s' q = addr_ok (after_alloc s tK) q" for q by (simp add: addr_ok_def s'_def)
    ultimately show ?thesis by (simp add: room_def s'_def)
  qed
  let ?h1 = "?h(?K \<mapsto> tK, ?F \<mapsto> replicate 512 0)"
  have tok1: "tree_ok ?lev ?h1" by (rule tree_ok_page [OF tok K al(2) F(1)])
  have P1: "?h1 ?P = Some t" "1 < ?lev ?P" "?h1 ?F = Some (replicate 512 0)"
    using P ne by simp_all
  have ext: "extends s s'"
    unfolding extends_def
  proof (intro conjI allI impI)
    show "cr3 s' = cr3 s" "cur_pt s' = cur_pt s" by (simp_all add: s'_def after_alloc_def cur_pt_def table_frame_def)
    show "table_frame s' v = table_frame s v" for v by (rule tf)
    show "trans_walk (frames s') (is @ [j]) (cr3 s) = trans_walk (frames s) (is @ [j]) (cr3 s)"
      if "length is = 3" "\<forall>k \<in> set (is @ [j]). k < 512" "\<not> allotted s s' is j" for "is" j
    proof -
      have "trans_walk (frames s') (is @ [j]) (cr3 s) = trans_walk ?h1 (is @ [j]) (cr3 s)"
        unfolding fs' by (rule trans_link [OF tok1 P1(1,2) i P1(3) ne(2) e]) (use c cF that in auto)
      also have "\<dots> = trans_walk ?h (is @ [j]) (cr3 s)"
        unfolding tK_def
        by (rule trans_kernel_page [OF tok K F(1) ix])
           (use c that in \<open>auto simp: allotted_def s'_def after_alloc_def ix1\<close>)
      finally show ?thesis .
    qed
    show "next_in_step s s'"
      using ix1 by (simp add: next_in_step_def s'_def after_alloc_def)
    show "reach (frames s') (cr3 s) is q = reach (frames s) (cr3 s) is q"
      if "length is < 4" "frames s q \<noteq> None" for "is" q
    proof -
      have "reach (frames s') (cr3 s) is q = reach ?h1 (cr3 s) is q"
        unfolding fs' by (rule reach_link [OF tok1 P1(1,2) i P1(3) ne(2) e]) (use c cF that F(1) in auto)
      also have "\<dots> = reach ?h (cr3 s) is q"
        by (rule reach_kernel_page [OF tok K F(1)]) (use c that in auto)
      finally show ?thesis .
    qed
    show "frames s' q \<noteq> None" if "frames s q \<noteq> None" for q using that by (simp add: fs')
    show "frames s' q = frames s q" if q: "plain_frame s q" for q
    proof -
      have "length path < 4" using path(2) by simp
      then have "q \<noteq> ?P" "q \<noteq> ?K" "q \<noteq> ?F" using q path(1) F(1) by (auto simp: plain_frame_def)
      then show ?thesis by (simp add: fs')
    qed
  qed
  have "reach (frames s') (cr3 s) path ?P"
    using ext path P(1) unfolding extends_def by auto
  moreover have "linked (frames s') ?P (unat i) ?F"
    using e i(1) lt by (simp add: linked_def fs')
  ultimately have "reach (frames s') (cr3 s') (path @ [unat i]) ?F"
    by (auto simp: reach_snoc s'_def after_alloc_def)
  moreover have "frames s' ?F = Some (replicate 512 0)" using ne by (simp add: fs')
  moreover have "unat (k_current_pt_index s') = unat (k_current_pt_index s) + 1"
    using ix1 by (simp add: s'_def after_alloc_def)
  ultimately show ?thesis using st ok' rm ext tf V by (intro exI [of _ ?V] exI [of _ s'] exI [of _ ?lev]) simp
qed


section \<open>Map, then translate\<close>

lemma index_range: "unat (drop_bit n v AND 0x1FF :: u64) < 512"
proof -
  have "unat (drop_bit n v AND 0x1FF :: u64) = unat (take_bit 9 (drop_bit n v))" by (simp only: and_mask_bits)
  also have "\<dots> < 512" by (simp only: unsigned_take_bit_eq) (simp add: take_bit_eq_mod)
  finally show ?thesis .
qed

lemma index_u16: "unat (ucast (drop_bit n v AND 0x1FF :: u64) :: u16) = unat (drop_bit n v AND 0x1FF)"
  using index_range [of n v] by (simp add: unsigned_ucast_eq take_bit_eq_mod)

lemma va_path_range: "\<forall>k \<in> set (va_path v). k < 512"
  by (simp add: va_path_def index_range)

text \<open>The last step: the leaf entry is written in the page table the walk reached.\<close>

lemma reach_leaf_write:
  assumes "tree_ok lev h" "h P = Some t" "lev P = 1"
  shows "h p \<noteq> None \<Longrightarrow> length is < lev p \<Longrightarrow> reach (h(P \<mapsto> t')) p is q = reach h p is q"
proof (induction "is" arbitrary: p)
  case (Cons i "is")
  then have "1 < lev p" by simp
  then have "p \<noteq> P" using assms(3) by auto
  then have "linked (h(P \<mapsto> t')) p i r = linked h p i r" for r by (simp add: linked_def)
  moreover have "h r \<noteq> None \<and> length is < lev r" if "linked h p i r" for r
    using tree_okD(2) [OF assms(1) that \<open>1 < lev p\<close>] Cons.prems(2) by auto
  ultimately show ?case unfolding reach_linked using Cons.IH by blast
qed simp

text \<open>The walks to the page tables are those of before; what a map operation keeps.\<close>

definition same_walks :: "paging \<Rightarrow> paging \<Rightarrow> bool" where
  "same_walks s s' \<longleftrightarrow> cr3 s' = cr3 s \<and> cur_pt s' = cur_pt s
     \<and> next_in_step s s'
     \<and> (\<forall>is q. length is < 4 \<longrightarrow> frames s q \<noteq> None \<longrightarrow>
          reach (frames s') (cr3 s) is q = reach (frames s) (cr3 s) is q)
     \<and> (\<forall>q. frames s q \<noteq> None \<longrightarrow> frames s' q \<noteq> None)
     \<and> (\<forall>q. plain_frame s q \<longrightarrow> frames s' q = frames s q)"

lemma same_walks_refl: "same_walks s s"
  by (simp add: same_walks_def next_in_step_def)

lemma same_walks_plain: "same_walks s s1 \<Longrightarrow> plain_frame s q \<Longrightarrow> plain_frame s1 q"
  by (simp add: same_walks_def plain_frame_def)

lemma same_walks_trans: "same_walks s s1 \<Longrightarrow> same_walks s1 s2 \<Longrightarrow> same_walks s s2"
  using same_walks_plain [of s s1] next_in_step_trans [of s s1 s2] by (simp add: same_walks_def)

lemma extends_same_walks: "extends s s' \<Longrightarrow> same_walks s s'"
  by (simp add: extends_def same_walks_def)

text \<open>
  The pages of the kernel's own window the allocator has taken between two
  states: those whose walk ends in the entries it has filled.
\<close>

definition window_page :: "paging \<Rightarrow> paging \<Rightarrow> u64 \<Rightarrow> bool" where
  "window_page s s' v \<longleftrightarrow> allotted s s' (butlast (va_path v)) (last (va_path v))"

lemma window_page_split:
  assumes "same_walks s s1" "same_walks s1 s2" "frames s (cur_pt s) \<noteq> None"
  shows "window_page s s2 v \<longleftrightarrow> window_page s s1 v \<or> window_page s1 s2 v"
proof -
  have "reach (frames s1) (cr3 s1) (butlast (va_path v)) (cur_pt s1)
      = reach (frames s) (cr3 s) (butlast (va_path v)) (cur_pt s)"
    using assms(1,3) butlast_path_len [of v] by (simp add: same_walks_def)
  then show ?thesis using assms(1,2) by (auto simp: window_page_def allotted_def same_walks_def next_in_step_def)
qed

text \<open>A step that keeps all translations but those keeps the addresses without a large page.\<close>

lemma small_page_kept:
  assumes w: "same_walks s s'" "frames s (cur_pt s) \<noteq> None" and sm: "small_page v s"
    and t: "\<not> window_page s s' v \<Longrightarrow> mmu_translate v s' = mmu_translate v s"
  shows "small_page v s'"
proof (cases "window_page s s' v")
  case True
  then have "reach (frames s') (cr3 s') (butlast (va_path v)) (cur_pt s)"
    using w butlast_path_len [of v] by (simp add: window_page_def allotted_def same_walks_def)
  then show ?thesis by (rule reach_small)
next
  case False
  then show ?thesis using t sm by (simp add: small_page_def small_walk_def mmu_translate_def)
qed

text \<open>An address outside the large pages and outside the kernel's current page table.\<close>

definition user_page :: "u64 \<Rightarrow> paging \<Rightarrow> bool" where
  "user_page v s \<longleftrightarrow> small_page v s \<and> \<not> reach (frames s) (cr3 s) (butlast (va_path v)) (cur_pt s)"

lemma room_mono: "room lev m s \<Longrightarrow> n \<le> m \<Longrightarrow> room lev n s"
  by (simp add: room_def)

lemma write_leaf:
  assumes ok: "paging_ok lev s" and e: "extends s0 s" and K: "frames s0 (cur_pt s0) \<noteq> None"
    and pt: "reach (frames s) (cr3 s) (butlast (va_path v)) (table_frame s pt)"
  shows "\<exists>s'. wr_entry s pt (last (va_path v)) (paging_make_page pa f) = Some s' \<and> paging_ok lev s'
     \<and> (bit f 0 \<longrightarrow> mmu_translate v s' = Some (Page (pa AND PAGE_ADDR_MASK) 0))
     \<and> (\<forall>v'. va_path v' \<noteq> va_path v \<longrightarrow> \<not> window_page s0 s v' \<longrightarrow> mmu_translate v' s' = mmu_translate v' s0)
     \<and> (\<forall>m. room lev m s \<longrightarrow> room lev m s') \<and> same_walks s s'
     \<and> k_current_pt_index s' = k_current_pt_index s"
proof -
  let ?P = "table_frame s pt" and ?i = "last (va_path v)"
  let ?e = "paging_make_page pa f"
  have tok: "tree_ok lev (frames s)" and c: "frames s (cr3 s) \<noteq> None" "lev (cr3 s) = 4"
    using ok by (simp_all add: paging_ok_def)
  note sp = va_path_snoc and len = butlast_path_len
  have rng: "\<forall>k \<in> set (butlast (va_path w)). k < 512" "last (va_path w) < 512" for w
    using va_path_range [of w] by (auto simp: va_path_def)
  have P: "frames s ?P \<noteq> None" "lev ?P = 1"
    using reach_level [OF tok pt c(1)] c(2) len by simp_all
  then obtain t where t: "frames s ?P = Some t" "length t = 512" using tree_okD(1) [OF tok] by blast
  define s' where "s' = s\<lparr>frames := (frames s)(?P \<mapsto> t[?i := ?e])\<rparr>"
  have wr: "wr_entry s pt ?i ?e = Some s'" using t rng by (simp add: wr_entry_def s'_def)
  have tok': "tree_ok lev (frames s')" unfolding s'_def using tree_ok_leaf [OF tok t(1) P(2)] by simp
  have "frames s' q \<noteq> None \<longleftrightarrow> frames s q \<noteq> None" for q using t by (simp add: s'_def)
  moreover have "addr_ok s' q = addr_ok s q" for q by (simp add: addr_ok_def s'_def)
  ultimately have ok': "paging_ok lev s'" using ok tok' by (simp add: paging_ok_def) (simp add: s'_def)
  have tw: "trans_walk (frames s') (va_path w) (cr3 s) =
      (if reach (frames s) (cr3 s) (butlast (va_path w)) ?P \<and> last (va_path w) = ?i
       then Some (if present ?e then Page (?e AND PAGE_ADDR_MASK) 0 else Unmapped)
       else trans_walk (frames s) (va_path w) (cr3 s))" for w
    using trans_leaf_write [OF tok t(1) P(2) rng(2) [of v] c(1) _ rng(2) [of w] rng(1) [of w], of ?e] c(2) len
    unfolding s'_def by (simp add: sp [of w, symmetric] del: fun_upd_apply)
  have hit: "mmu_translate v s' = Some (Page (pa AND PAGE_ADDR_MASK) 0)" if "bit f 0"
    using tw [of v] pt that
    by (simp add: mmu_translate_def make_page_present make_page_addr s'_def del: fun_upd_apply)
  have frame: "trans_walk (frames s') (va_path w) (cr3 s) = trans_walk (frames s0) (va_path w) (cr3 s0)"
    if w: "va_path w \<noteq> va_path v" "\<not> window_page s0 s w" for w
  proof -
    have h1: "\<not> (reach (frames s) (cr3 s) (butlast (va_path w)) ?P \<and> last (va_path w) = ?i)"
    proof
      assume a: "reach (frames s) (cr3 s) (butlast (va_path w)) ?P \<and> last (va_path w) = ?i"
      then have "butlast (va_path w) = butlast (va_path v)"
        using reach_unique [OF tok _ pt, of "butlast (va_path w)"] c len by simp
      then have "va_path w = va_path v" using a sp [of w] sp [of v] by simp
      with w(1) show False by contradiction
    qed
    have h2: "trans_walk (frames s) (va_path w) (cr3 s) = trans_walk (frames s0) (va_path w) (cr3 s0)"
    proof -
      have "\<forall>k \<in> set (butlast (va_path w) @ [last (va_path w)]). k < 512" using rng by auto
      then have "trans_walk (frames s) (butlast (va_path w) @ [last (va_path w)]) (cr3 s0)
          = trans_walk (frames s0) (butlast (va_path w) @ [last (va_path w)]) (cr3 s0)"
        using e len w(2) unfolding extends_def window_page_def by blast
      then show ?thesis using e by (simp add: sp [of w, symmetric] extends_def)
    qed
    show ?thesis unfolding tw [of w] if_not_P [OF h1] by (rule h2)
  qed
  have [simp]: "cr3 s' = cr3 s" by (simp add: s'_def)
  have fr: "frames s' q = None \<longleftrightarrow> frames s q = None" for q using t by (simp add: s'_def)
  have cp: "cur_pt s' = cur_pt s" by (simp add: s'_def cur_pt_def table_frame_def)
  have plain: "frames s' q = frames s q" if "plain_frame s q" for q
  proof -
    have "length (butlast (va_path v)) < 4" using len [of v] by simp
    then have "q \<noteq> ?P" using that pt by (auto simp: plain_frame_def)
    then show ?thesis by (simp add: s'_def)
  qed
  have "room lev m s'" if "room lev m s" for m
    using that fr cp unfolding room_def by (simp add: s'_def addr_ok_def)
  moreover have "same_walks s s'"
    using reach_leaf_write [OF tok t(1) P(2) c(1)] c(2) fr cp
    by (simp add: same_walks_def plain next_in_step_def) (simp add: s'_def)
  moreover have "k_current_pt_index s' = k_current_pt_index s" by (simp add: s'_def)
  ultimately show ?thesis using wr ok' hit frame by (intro exI [of _ s']) (simp add: mmu_translate_def)
qed

text \<open>How far the walk of an address goes, and what it leaves to set up.\<close>

definition missing_at :: "paging \<Rightarrow> nat list \<Rightarrow> u64 \<Rightarrow> nat \<Rightarrow> bool" where
  "missing_at s path ptr i \<longleftrightarrow> reach (frames s) (cr3 s) path (table_frame s ptr)
     \<and> (\<exists>t. frames s (table_frame s ptr) = Some t \<and> \<not> present (t ! i))"

lemma entry_frame:
  assumes ok: "paging_ok lev s" and r: "reach (frames s) (cr3 s) path (table_frame s ptr)" "length path < 3"
    and t: "frames s (table_frame s ptr) = Some t" and i: "i < 512" "present (t ! i)" "\<not> large (t ! i)"
  shows "rd_entry s ptr i = Some (t ! i)" "table_frame s (entry_table (t ! i)) = t ! i AND PAGE_ADDR_MASK"
    "reach (frames s) (cr3 s) (path @ [i]) (table_frame s (entry_table (t ! i)))"
    "frames s (table_frame s (entry_table (t ! i))) \<noteq> None" "entry_table (t ! i) \<noteq> 0"
proof -
  have tok: "tree_ok lev (frames s)" and c: "frames s (cr3 s) \<noteq> None" "lev (cr3 s) = 4"
    using ok by (simp_all add: paging_ok_def)
  have len: "length t = 512" using tree_okD(1) [OF tok t] .
  show "rd_entry s ptr i = Some (t ! i)" using t i len by (simp add: rd_entry_def)
  have l: "linked (frames s) (table_frame s ptr) i (t ! i AND PAGE_ADDR_MASK)"
    using t i len by (simp add: linked_def)
  have "lev (table_frame s ptr) = 4 - length path" using reach_level [OF tok r(1) c(1)] c r(2) by simp
  then have q: "frames s (t ! i AND PAGE_ADDR_MASK) \<noteq> None" using tree_okD(2) [OF tok l] r(2) by simp
  then have ad: "addr_ok s (t ! i AND PAGE_ADDR_MASK)" using ok by (simp add: paging_ok_def)
  show tf: "table_frame s (entry_table (t ! i)) = t ! i AND PAGE_ADDR_MASK" by (rule table_frame_ident [OF ad])
  show "reach (frames s) (cr3 s) (path @ [i]) (table_frame s (entry_table (t ! i)))"
    unfolding tf using r(1) l by (auto simp: reach_snoc)
  show "frames s (table_frame s (entry_table (t ! i))) \<noteq> None" unfolding tf by (rule q)
  show "entry_table (t ! i) \<noteq> 0" using ad unfolding addr_ok_def by auto
qed

lemma walk_cases:
  assumes ok: "paging_ok lev s" and p4: "table_frame s p4 = cr3 s" and vp: "va_path v = [i4, i3, i2, i1]"
    and sm: "small_page v s"
  obtains (pml4) "walk_tables s p4 (paging_get_indexes v) = Some \<lparr>w_pdpt = 0, w_pd = 0, w_pt = 0,
        setup_pdpt = True, setup_pd = True, setup_pt = True\<rparr>" "missing_at s [] p4 i4"
    | (pdpt) pdpt where "walk_tables s p4 (paging_get_indexes v) = Some \<lparr>w_pdpt = pdpt, w_pd = 0, w_pt = 0,
        setup_pdpt = False, setup_pd = True, setup_pt = True\<rparr>" "missing_at s [i4] pdpt i3"
    | (pd) pdpt pd where "walk_tables s p4 (paging_get_indexes v) = Some \<lparr>w_pdpt = pdpt, w_pd = pd, w_pt = 0,
        setup_pdpt = False, setup_pd = False, setup_pt = True\<rparr>" "missing_at s [i4, i3] pd i2"
    | (pt) pdpt pd pt where "walk_tables s p4 (paging_get_indexes v) = Some \<lparr>w_pdpt = pdpt, w_pd = pd, w_pt = pt,
        setup_pdpt = False, setup_pd = False, setup_pt = False\<rparr>"
        "reach (frames s) (cr3 s) [i4, i3, i2] (table_frame s pt)"
proof -
  have tok: "tree_ok lev (frames s)" and c: "frames s (cr3 s) \<noteq> None" using ok by (simp_all add: paging_ok_def)
  let ?ix = "paging_get_indexes v"
  have ix: "unat (ix_pml4 ?ix) = i4" "unat (ix_pdpt ?ix) = i3" "unat (ix_pd ?ix) = i2"
    using vp by (simp_all add: paging_get_indexes_def index_u16 va_path_def)
  have rng: "i4 < 512" "i3 < 512" "i2 < 512" using va_path_range [of v] vp by simp_all
  obtain t4 where t4: "frames s (table_frame s p4) = Some t4" using c p4 by auto
  have r0: "reach (frames s) (cr3 s) [] (table_frame s p4)" using p4 by simp
  have rd: "rd_entry s ptr i = Some (t ! i)" if "frames s (table_frame s ptr) = Some t" "i < 512" for ptr t i
    using that tree_okD(1) [OF tok that(1)] by (simp add: rd_entry_def)
  show thesis
  proof (cases "present (t4 ! i4)")
    case False
    then show thesis
      by (intro pml4) (use t4 r0 rd [OF t4 rng(1)] ix in \<open>auto simp: walk_tables_def missing_at_def\<close>)
  next
    case True
    have sm4: "small_walk (frames s) [i4, i3, i2, i1] (table_frame s p4)"
      using sm vp p4 by (simp add: small_page_def)
    have n4: "\<not> large (t4 ! i4)" and sm3: "small_walk (frames s) [i3, i2, i1] (t4 ! i4 AND PAGE_ADDR_MASK)"
      using small_walk_step [OF sm4 _ t4 _ True] rng(1) tree_okD(1) [OF tok t4] by simp_all
    note e4 = entry_frame [OF ok r0 _ t4 rng(1) True n4, simplified append.simps]
    obtain t3 where t3: "frames s (table_frame s (entry_table (t4 ! i4))) = Some t3" using e4(4) by auto
    show thesis
    proof (cases "present (t3 ! i3)")
      case False
      show thesis
        by (rule pdpt [of "entry_table (t4 ! i4)"])
           (use t3 e4(3) rd [OF t4 rng(1)] rd [OF t3 rng(2)] ix True False in
             \<open>simp_all add: walk_tables_def missing_at_def Let_def del: reach.simps\<close>)
    next
      case True3: True
      have t3': "frames s (t4 ! i4 AND PAGE_ADDR_MASK) = Some t3" using t3 e4(2) by simp
      have n3: "\<not> large (t3 ! i3)" and sm2: "small_walk (frames s) [i2, i1] (t3 ! i3 AND PAGE_ADDR_MASK)"
        using small_walk_step [OF sm3 _ t3' _ True3] rng(2) tree_okD(1) [OF tok t3] by simp_all
      note e3 = entry_frame [OF ok e4(3) _ t3 rng(2) True3 n3, simplified append.simps]
      obtain t2 where t2: "frames s (table_frame s (entry_table (t3 ! i3))) = Some t2" using e3(4) by auto
      show thesis
      proof (cases "present (t2 ! i2)")
        case False
        show thesis
          by (rule pd [of "entry_table (t4 ! i4)" "entry_table (t3 ! i3)"])
             (use t2 e3(3) rd [OF t4 rng(1)] rd [OF t3 rng(2)] rd [OF t2 rng(3)] ix True True3 False in
               \<open>simp_all add: walk_tables_def missing_at_def Let_def del: reach.simps\<close>)
      next
        case True2: True
        have t2': "frames s (t3 ! i3 AND PAGE_ADDR_MASK) = Some t2" using t2 e3(2) by simp
        have n2: "\<not> large (t2 ! i2)"
          using small_walk_step(1) [OF sm2 _ t2' _ True2] rng(3) tree_okD(1) [OF tok t2] by simp
        note e2 = entry_frame [OF ok e3(3) _ t2 rng(3) True2 n2, simplified append.simps]
        show thesis
          by (rule pt [of "entry_table (t4 ! i4)" "entry_table (t3 ! i3)" "entry_table (t2 ! i2)"])
             (use e2(3,5) rd [OF t4 rng(1)] rd [OF t3 rng(2)] rd [OF t2 rng(3)] ix True True3 True2 in
               \<open>simp_all add: walk_tables_def Let_def del: reach.simps\<close>)
      qed
    qed
  qed
qed

lemma setup_stage:
  assumes ok: "paging_ok lev s" and r: "room lev (Suc n) s" and m: "missing_at s path ptr (unat i)"
    and len: "length path < 3" and i: "unat i < 512"
  shows "\<exists>v s' lev'. setup_table True found ptr i s = Some (v, s') \<and> paging_ok lev' s' \<and> room lev' n s'
     \<and> extends s s' \<and> reach (frames s') (cr3 s') (path @ [unat i]) (table_frame s' v)
     \<and> (\<forall>j < 512. missing_at s' (path @ [unat i]) v j)
     \<and> unat (k_current_pt_index s') = unat (k_current_pt_index s) + 1"
proof -
  have c: "frames s (cr3 s) \<noteq> None" "lev (cr3 s) = 4" and tok: "tree_ok lev (frames s)"
    using ok by (simp_all add: paging_ok_def)
  obtain t where t: "frames s (table_frame s ptr) = Some t" "\<not> present (t ! unat i)"
    and p: "reach (frames s) (cr3 s) path (table_frame s ptr)" using m by (auto simp: missing_at_def)
  have l: "lev (table_frame s ptr) = Suc (3 - length path)"
    using reach_level [OF tok p c(1)] c(2) len by simp
  have k: "0 < 3 - length path" "length path + (3 - length path) = 3" using len by simp_all
  obtain v s' lev' where "setup_table True found ptr i s = Some (v, s')" "paging_ok lev' s'" "room lev' n s'"
      "extends s s'" "frames s' (table_frame s' v) = Some (replicate 512 0)"
      "reach (frames s') (cr3 s') (path @ [unat i]) (table_frame s' v)"
      "unat (k_current_pt_index s') = unat (k_current_pt_index s) + 1"
    using setup_missing [OF ok r t(1) l k(1) i t(2) p k(2), of found] by blast
  then show ?thesis unfolding missing_at_def by (intro exI [of _ v] exI [of _ s'] exI [of _ lev']) auto
qed

lemma setup_present: "setup_table False found ptr i s = Some (found, s)"
  by (simp add: setup_table_def)

lemma map_tables:
  assumes ok: "paging_ok lev s" and r: "room lev (n + 3) s" and p4: "table_frame s p4 = cr3 s"
    and vp: "va_path v = [i4, i3, i2, i1]" and sm: "small_page v s"
  shows "\<exists>w pdpt pd pt s1 s2 s3 lev'. walk_tables s p4 (paging_get_indexes v) = Some w
     \<and> setup_table (setup_pdpt w) (w_pdpt w) p4 (ix_pml4 (paging_get_indexes v)) s = Some (pdpt, s1)
     \<and> setup_table (setup_pd w) (w_pd w) pdpt (ix_pdpt (paging_get_indexes v)) s1 = Some (pd, s2)
     \<and> setup_table (setup_pt w) (w_pt w) pd (ix_pd (paging_get_indexes v)) s2 = Some (pt, s3)
     \<and> paging_ok lev' s3 \<and> room lev' n s3 \<and> extends s s3 \<and> reach (frames s3) (cr3 s3) [i4, i3, i2] (table_frame s3 pt)
     \<and> unat (k_current_pt_index s3) \<le> unat (k_current_pt_index s) + 3"
proof -
  let ?ix = "paging_get_indexes v"
  have ix: "unat (ix_pml4 ?ix) = i4" "unat (ix_pdpt ?ix) = i3" "unat (ix_pd ?ix) = i2"
    using vp by (simp_all add: paging_get_indexes_def index_u16 va_path_def)
  have rng: "i4 < 512" "i3 < 512" "i2 < 512" using va_path_range [of v] vp by simp_all
  have K: "frames s (cur_pt s) \<noteq> None" using r by (simp add: room_def)
  have r3: "room lev (Suc (Suc (Suc n))) s" using r by (simp add: numeral_3_eq_3)
  have Kx: "frames s' (cur_pt s') \<noteq> None" if "extends s s'" for s'
    using that K by (auto simp: extends_def)
  from ok p4 vp sm show ?thesis
  proof (cases rule: walk_cases)
    case pml4
    obtain pdpt s1 l1 where 1: "setup_table True 0 p4 (ix_pml4 ?ix) s = Some (pdpt, s1)" "paging_ok l1 s1"
        "room l1 (Suc (Suc n)) s1" "extends s s1"
        "unat (k_current_pt_index s1) = unat (k_current_pt_index s) + 1" "\<forall>j < 512. missing_at s1 ([] @ [i4]) pdpt j"
      using setup_stage [OF ok r3, of "[]" p4 "ix_pml4 ?ix" 0] pml4(2) ix rng by (auto simp del: reach.simps)
    obtain pd s2 l2 where 2: "setup_table True 0 pdpt (ix_pdpt ?ix) s1 = Some (pd, s2)" "paging_ok l2 s2"
        "room l2 (Suc n) s2" "extends s1 s2"
        "unat (k_current_pt_index s2) = unat (k_current_pt_index s1) + 1" "\<forall>j < 512. missing_at s2 ([i4] @ [i3]) pd j"
      using setup_stage [OF 1(2,3), of "[i4]" pdpt "ix_pdpt ?ix" 0] 1(6) ix rng by (auto simp del: reach.simps)
    obtain pt s3 l3 where 3: "setup_table True 0 pd (ix_pd ?ix) s2 = Some (pt, s3)" "paging_ok l3 s3" "room l3 n s3"
        "extends s2 s3" "reach (frames s3) (cr3 s3) ([i4, i3] @ [i2]) (table_frame s3 pt)"
        "unat (k_current_pt_index s3) = unat (k_current_pt_index s2) + 1"
      using setup_stage [OF 2(2,3), of "[i4, i3]" pd "ix_pd ?ix" 0] 2(6) ix rng by (auto simp del: reach.simps)
    have "extends s s3"
      using extends_trans [OF extends_trans [OF 1(4) 2(4) K] 3(4) K] .
    with pml4 1 2 3 show ?thesis by fastforce
  next
    case (pdpt pdpt)
    obtain pd s2 l2 where 2: "setup_table True 0 pdpt (ix_pdpt ?ix) s = Some (pd, s2)" "paging_ok l2 s2"
        "room l2 (Suc (Suc n)) s2" "extends s s2"
        "unat (k_current_pt_index s2) = unat (k_current_pt_index s) + 1" "\<forall>j < 512. missing_at s2 ([i4] @ [i3]) pd j"
      using setup_stage [OF ok r3, of "[i4]" pdpt "ix_pdpt ?ix" 0] pdpt(2) ix rng by (auto simp del: reach.simps)
    obtain pt s3 l3 where 3: "setup_table True 0 pd (ix_pd ?ix) s2 = Some (pt, s3)" "paging_ok l3 s3" "room l3 (Suc n) s3"
        "extends s2 s3" "reach (frames s3) (cr3 s3) ([i4, i3] @ [i2]) (table_frame s3 pt)"
        "unat (k_current_pt_index s3) = unat (k_current_pt_index s2) + 1"
      using setup_stage [OF 2(2,3), of "[i4, i3]" pd "ix_pd ?ix" 0] 2(6) ix rng by (auto simp del: reach.simps)
    have "extends s s3" using extends_trans [OF 2(4) 3(4) K] .
    moreover have "room l3 n s3" using 3(3) by (rule room_mono) simp
    ultimately show ?thesis using pdpt 2 3 by (fastforce simp: setup_present)
  next
    case (pd pdpt pd)
    obtain pt s3 l3 where 3: "setup_table True 0 pd (ix_pd ?ix) s = Some (pt, s3)" "paging_ok l3 s3" "room l3 (Suc (Suc n)) s3"
        "extends s s3" "reach (frames s3) (cr3 s3) ([i4, i3] @ [i2]) (table_frame s3 pt)"
        "unat (k_current_pt_index s3) = unat (k_current_pt_index s) + 1"
      using setup_stage [OF ok r3, of "[i4, i3]" pd "ix_pd ?ix" 0] pd(2) ix rng by (auto simp del: reach.simps)
    have "room l3 n s3" using 3(3) by (rule room_mono) simp
    with pd 3 show ?thesis by (fastforce simp: setup_present)
  next
    case (pt pdpt pd pt)
    have "room lev n s" using r by (rule room_mono) simp
    with pt show ?thesis using ok extends_refl by (fastforce simp: setup_present)
  qed
qed

lemma map_then_translate:
  assumes ok: "paging_ok lev s" and r: "room lev (n + 3) s" and fl: "bit flags 0"
    and p4: "pml_4 = 0 \<or> table_frame s pml_4 = cr3 s" and sm: "small_page v s"
  shows "\<exists>s' lev'. paging_page_map_to_pml4 pml_4 pa v flags s = Some (v, s') \<and> paging_ok lev' s'
     \<and> mmu_translate v s' = Some (Page (pa AND PAGE_ADDR_MASK) 0)
     \<and> (\<forall>v'. va_path v' \<noteq> va_path v \<longrightarrow> \<not> window_page s s' v' \<longrightarrow> mmu_translate v' s' = mmu_translate v' s)
     \<and> (\<forall>w. small_page w s \<longrightarrow> small_page w s')
     \<and> unat (k_current_pt_index s') \<le> unat (k_current_pt_index s) + 3 \<and> room lev' n s' \<and> same_walks s s'"
proof -
  obtain i4 i3 i2 i1 where vp: "va_path v = [i4, i3, i2, i1]" by (simp add: va_path_def)
  let ?p4 = "if pml_4 = 0 then cr3 s + ADDR_IDENTITY_MAP else pml_4"
  have "addr_ok s (cr3 s)" using ok by (simp add: paging_ok_def)
  then have tf4: "table_frame s ?p4 = cr3 s" using p4 table_frame_ident by auto
  obtain w pdpt pd pt s1 s2 s3 lev' where tb: "walk_tables s ?p4 (paging_get_indexes v) = Some w"
      "setup_table (setup_pdpt w) (w_pdpt w) ?p4 (ix_pml4 (paging_get_indexes v)) s = Some (pdpt, s1)"
      "setup_table (setup_pd w) (w_pd w) pdpt (ix_pdpt (paging_get_indexes v)) s1 = Some (pd, s2)"
      "setup_table (setup_pt w) (w_pt w) pd (ix_pd (paging_get_indexes v)) s2 = Some (pt, s3)"
      "paging_ok lev' s3" "room lev' n s3" "extends s s3" "reach (frames s3) (cr3 s3) [i4, i3, i2] (table_frame s3 pt)"
      "unat (k_current_pt_index s3) \<le> unat (k_current_pt_index s) + 3"
    using map_tables [OF ok r tf4 vp sm] by blast
  have K: "frames s (cur_pt s) \<noteq> None" using r by (simp add: room_def)
  have bf: "bit (ucast flags :: u32) 0" using fl by (simp add: bit_ucast_iff)
  have i1: "unat (ix_pt (paging_get_indexes v)) = last (va_path v)"
    by (simp add: paging_get_indexes_def index_u16 va_path_def)
  have "reach (frames s3) (cr3 s3) (butlast (va_path v)) (table_frame s3 pt)" using tb(8) vp by simp
  from write_leaf [OF tb(5,7) K this, of pa "ucast flags"] bf
  obtain s' where s': "wr_entry s3 pt (last (va_path v)) (paging_make_page pa (ucast flags)) = Some s'"
      "paging_ok lev' s'" "mmu_translate v s' = Some (Page (pa AND PAGE_ADDR_MASK) 0)"
      "\<forall>v'. va_path v' \<noteq> va_path v \<longrightarrow> \<not> window_page s s3 v' \<longrightarrow> mmu_translate v' s' = mmu_translate v' s"
      "room lev' n s'" "same_walks s3 s'" "k_current_pt_index s' = k_current_pt_index s3"
    using tb(6) by blast
  have sw: "same_walks s s'" using same_walks_trans [OF extends_same_walks [OF tb(7)] s'(6)] .
  have wp: "window_page s s' x = window_page s s3 x" for x
    using s'(7) by (simp add: window_page_def allotted_def)
  have "small_page x s'" if x: "small_page x s" for x
  proof (cases "va_path x = va_path v")
    case True
    then have "mmu_translate x s' = mmu_translate v s'" by (simp add: mmu_translate_def)
    then show ?thesis using s'(3) by (simp add: small_page_def small_walk_def mmu_translate_def)
  next
    case False
    then show ?thesis using small_page_kept [OF sw K x] s'(4) wp by blast
  qed
  moreover have "paging_page_map_to_pml4 pml_4 pa v flags s = Some (v, s')"
    using tb(1-4) s'(1) by (simp add: paging_page_map_to_pml4_def Let_def i1)
  ultimately show ?thesis using s' tb(9) sw wp
    by (intro exI [of _ s'] exI [of _ lev']) simp
qed

text \<open>The kernel's window: the walk to the next page of it ends in its current page table, at the next free entry.\<close>

definition window :: "paging \<Rightarrow> bool" where
  "window s \<longleftrightarrow> reach (frames s) (cr3 s) (butlast (va_path (kernel_virtual_memory_next s))) (cur_pt s)
     \<and> last (va_path (kernel_virtual_memory_next s)) = unat (k_current_pt_index s)"

lemma drop_index: "unat (drop_bit n v AND 0x1FF :: u64) = unat v div 2 ^ n mod 512"
proof -
  have "unat (take_bit 9 (drop_bit n v)) = take_bit 9 (unat (drop_bit n v))" by (rule unsigned_take_bit_eq)
  also have "unat (drop_bit n v) = drop_bit n (unat v)" by (simp only: unat_drop_bit_eq)
  finally show ?thesis by (simp only: and_mask_bits) (simp add: take_bit_eq_mod drop_bit_eq_div)
qed

text \<open>The paths of consecutive pages of one page table.\<close>

lemma path_pages:
  assumes "last (va_path v) + j < 512" "unat v + j * 4096 < 2 ^ 64"
  shows "butlast (va_path (v + of_nat j * PAGE_SIZE)) = butlast (va_path v)"
    "last (va_path (v + of_nat j * PAGE_SIZE)) = last (va_path v) + j"
proof -
  have "of_nat j * PAGE_SIZE = (of_nat (j * 4096) :: u64)" by simp
  then have u: "unat (v + of_nat j * PAGE_SIZE) = unat v + j * 4096"
    using word_add_mono_nat [of v "j * 4096"] assms(2) by simp
  define p where "p = unat v div 4096"
  have p: "(unat v + j * 4096) div 4096 = p + j" by (simp add: p_def)
  have l: "p mod 512 + j < 512" using assms(1) by (simp add: va_path_def drop_index p_def)
  have split: "p + j = (p mod 512 + j) + p div 512 * 512" by simp
  have "(p + j) div 512 = ((p mod 512 + j) + p div 512 * 512) div 512" by (simp only: split [symmetric])
  also have "\<dots> = p div 512" using l by (simp only: div_mult_self1)
  finally have q1: "(p + j) div 512 = p div 512" .
  have "(p + j) mod 512 = ((p mod 512 + j) + p div 512 * 512) mod 512" by (simp only: split [symmetric])
  also have "\<dots> = p mod 512 + j" using l by (simp only: mod_mult_self1 mod_less)
  finally have q: "(p + j) div 512 = p div 512" "(p + j) mod 512 = p mod 512 + j" using q1 by simp_all
  have d: "n div 2097152 = n div 4096 div 512" "n div 1073741824 = n div 4096 div 512 div 512"
    "n div 549755813888 = n div 4096 div 512 div 512 div 512" for n :: nat
    by (simp_all add: div_mult2_eq [symmetric])
  show "butlast (va_path (v + of_nat j * PAGE_SIZE)) = butlast (va_path v)"
    "last (va_path (v + of_nat j * PAGE_SIZE)) = last (va_path v) + j"
    using q by (simp_all add: va_path_def drop_index u d p p_def [symmetric])
qed

lemma window_kept:
  assumes w: "window s" and sw: "same_walks s s'" and K: "frames s (cur_pt s) \<noteq> None"
    and r: "room lev n s'" and v: "unat (kernel_virtual_memory_next s) + 511 * 4096 < 2 ^ 64"
  shows "window s'"
proof -
  define j where "j = unat (k_current_pt_index s') - unat (k_current_pt_index s)"
  let ?V = "kernel_virtual_memory_next s"
  have i: "unat (k_current_pt_index s) + j = unat (k_current_pt_index s')" "unat (k_current_pt_index s') \<le> 511"
    and V: "kernel_virtual_memory_next s' = ?V + of_nat j * PAGE_SIZE"
    using sw r by (simp_all add: same_walks_def next_in_step_def room_def j_def)
  have l: "last (va_path ?V) = unat (k_current_pt_index s)" using w by (simp add: window_def)
  have "last (va_path ?V) + j < 512" using i unfolding l by linarith
  moreover have "unat ?V + j * 4096 < 2 ^ 64" using v i by linarith
  ultimately have p: "butlast (va_path (kernel_virtual_memory_next s')) = butlast (va_path ?V)"
    "last (va_path (kernel_virtual_memory_next s')) = unat (k_current_pt_index s')"
    using path_pages [of ?V j] i(1) l unfolding V by simp_all
  have "reach (frames s') (cr3 s') (butlast (va_path ?V)) (cur_pt s') =
      reach (frames s) (cr3 s) (butlast (va_path ?V)) (cur_pt s)"
    using sw K butlast_path_len [of ?V] by (simp add: same_walks_def)
  then show ?thesis using w p by (simp add: window_def)
qed

section \<open>Properties\<close>

text \<open>Property C2: mapping an address that lies in no large page, with any number of table levels
  missing, succeeds; the processor and the code's own function then translate it to the mapped page;
  every other address, those in large pages included, translates as before, but for the at most three
  pages of the kernel's window the allocator takes for the missing tables; and an address in no large
  page stays one.\<close>
theorem page_map_translates:
  assumes "paging_ok lev s" "room lev 3 s" "bit flags 0" "pml_4 = 0 \<or> table_frame s pml_4 = cr3 s"
    and "small_page v s"
  shows "\<exists>s' lev'. paging_page_map_to_pml4 pml_4 pa v flags s = Some (v, s') \<and> paging_ok lev' s'
     \<and> mmu_translate v s' = Some (Page (pa AND PAGE_ADDR_MASK) 0)
     \<and> paging_virtual_to_physical v s' = Some (pa AND PAGE_ADDR_MASK)
     \<and> (\<forall>v'. va_path v' \<noteq> va_path v \<longrightarrow> \<not> window_page s s' v' \<longrightarrow> mmu_translate v' s' = mmu_translate v' s)
     \<and> unat (k_current_pt_index s') \<le> unat (k_current_pt_index s) + 3
     \<and> (\<forall>w. small_page w s \<longrightarrow> small_page w s')"
proof -
  obtain s' lev' where s': "paging_page_map_to_pml4 pml_4 pa v flags s = Some (v, s')" "paging_ok lev' s'"
     "mmu_translate v s' = Some (Page (pa AND PAGE_ADDR_MASK) 0)"
     "\<forall>v'. va_path v' \<noteq> va_path v \<longrightarrow> \<not> window_page s s' v' \<longrightarrow> mmu_translate v' s' = mmu_translate v' s"
     "\<forall>w. small_page w s \<longrightarrow> small_page w s'" "unat (k_current_pt_index s') \<le> unat (k_current_pt_index s) + 3"
    using map_then_translate [of lev s 0] assms by (simp only: add_0) blast
  have "small_page v s'" using s'(5) assms(5) by blast
  then have "paging_virtual_to_physical v s' = Some (pa AND PAGE_ADDR_MASK)"
    using v2p_trans [OF s'(2)] s'(3) by simp
  with s' show ?thesis by blast
qed

text \<open>The no-execute flag given to a map operation is lost: the flags are cut to
  32 bits, so no entry the kernel makes ever has bit 63.\<close>
theorem page_nx_flag_lost:
  "paging_make_page pa (ucast (flags OR PAGE_FLAG_EXECUTE_DIABLED)) = paging_make_page pa (ucast flags)
     \<and> \<not> bit (paging_make_page pa (ucast flags)) 63"
proof -
  have "(PAGE_FLAG_EXECUTE_DIABLED :: u64) = push_bit 63 1" by simp
  then have "(ucast (flags OR PAGE_FLAG_EXECUTE_DIABLED) :: u32) = ucast flags"
    by (intro bit_word_eqI) (simp only: bit_ucast_iff bit_or_iff bit_push_bit_iff, auto)
  then show ?thesis using make_page_no_nx by simp
qed

lemma take_bit_9: "unat (i :: u16) < 512 \<Longrightarrow> take_bit 9 i = i"
  by (simp add: word_unat_eq_iff unsigned_take_bit_eq take_bit_eq_mod del: take_bit_eq_mod)
     (simp add: unsigned_take_bit_eq take_bit_nat_eq_self)

lemma small_index_bits: "unat (i :: u16) < 512 \<Longrightarrow> bit i n \<Longrightarrow> n < 9"
  using take_bit_9 [of i] by (metis bit_take_bit_iff)

text \<open>The address composed of four indexes below 512 has exactly these indexes.\<close>
theorem page_index_roundtrip:
  assumes "unat i4 < 512" "unat i3 < 512" "unat i2 < 512" "unat i1 < 512"
  shows "paging_get_indexes (paging_get_addr_from_index i4 i3 i2 i1)
    = \<lparr>ix_pml4 = i4, ix_pdpt = i3, ix_pd = i2, ix_pt = i1\<rparr>"
proof -
  note nb = small_index_bits [OF assms(1)] small_index_bits [OF assms(2)]
    small_index_bits [OF assms(3)] small_index_bits [OF assms(4)]
  have x4: "(ucast (drop_bit 39 (paging_get_addr_from_index i4 i3 i2 i1) AND 0x1FF) :: u16) = i4"
    unfolding and_mask_bits
    by (rule bit_word_eqI)
       (auto simp: paging_get_addr_from_index_def bit_simps dest: nb)
  have x3: "(ucast (drop_bit 30 (paging_get_addr_from_index i4 i3 i2 i1) AND 0x1FF) :: u16) = i3"
    unfolding and_mask_bits
    by (rule bit_word_eqI)
       (auto simp: paging_get_addr_from_index_def bit_simps dest: nb)
  have x2: "(ucast (drop_bit 21 (paging_get_addr_from_index i4 i3 i2 i1) AND 0x1FF) :: u16) = i2"
    unfolding and_mask_bits
    by (rule bit_word_eqI)
       (auto simp: paging_get_addr_from_index_def bit_simps dest: nb)
  have x1: "(ucast (drop_bit 12 (paging_get_addr_from_index i4 i3 i2 i1) AND 0x1FF) :: u16) = i1"
    unfolding and_mask_bits
    by (rule bit_word_eqI)
       (auto simp: paging_get_addr_from_index_def bit_simps dest: nb)
  show ?thesis by (simp add: paging_get_indexes_def x4 x3 x2 x1)
qed

lemma page_index_roundtrip_witness:
  "paging_get_indexes (paging_get_addr_from_index 34 138 470 416)
     = \<lparr>ix_pml4 = 34, ix_pdpt = 138, ix_pd = 470, ix_pt = 416\<rparr>"
  by (rule page_index_roundtrip) simp_all

text \<open>When the last entry of the last page table of a page directory is used, the
  allocator writes entry 512 of the directory, one behind its end.\<close>
theorem page_index_rollover_overruns:
  assumes "k_current_pt_index s = 511" "k_current_pd_index s = 511"
    and "frames s (table_frame s (k_current_pd s)) = Some t" "length t = 512"
  shows "paging_increment_kernel_page_index s = None"
proof -
  have "table_frame (s\<lparr>k_current_pt_index := 0, k_current_pt := k_new_pt s\<rparr>) v = table_frame s v" for v
    by (simp add: table_frame_def)
  then show ?thesis using assms by (simp add: paging_increment_kernel_page_index_def wr_entry_def Let_def)
qed

text \<open>A state with two tables.\<close>

definition small_paging :: paging where
  "small_paging = \<lparr>
     frames = [0x1000 \<mapsto> replicate 512 0, 0x2000 \<mapsto> replicate 512 0],
     cr3 = 0x1000, int_on = True,
     kernel_virtual_base = 0xFFFFFFFF80000000, kernel_physical_base = 0x40000000,
     kernel_virtual_allocation_base = 0xFFFFFFFF80200000, kernel_physical_allocation_base = 0x100000,
     kernel_virtual_memory_next = 0xFFFFFFFF80203000, kernel_physical_memory_next = 0x103000,
     kernel_heap_virtual_memory_next = 0x0000700000000000, kernel_heap_physical_memory_next = 0x200000,
     k_current_pdpt_index = 510, k_current_pd_index = 1, k_current_pt_index = 3,
     k_current_pdpt = 0xFFFF800000004000, k_current_pd = 0xFFFF800000003000, k_current_pt = 0xFFFF800000002000,
     k_new_pt = 0xFFFFFFFF80200000, k_new_pd = 0xFFFFFFFF80201000\<rparr>"

lemma page_index_rollover_overruns_witness:
  "paging_increment_kernel_page_index (small_paging\<lparr>k_current_pt_index := 511, k_current_pd_index := 511,
      k_current_pd := 0xFFFF800000001000\<rparr>) = None"
  by (rule page_index_rollover_overruns [where t = "replicate 512 0"])
     (simp_all add: small_paging_def table_frame_def)

text \<open>A request for no kernel pages returns NULL with interrupts left disabled.\<close>
theorem page_allocate_zero_keeps_cli:
  "page_allocate_kernel_linear 0 s = Some (0, s\<lparr>int_on := False\<rparr>)"
  by (simp add: page_allocate_kernel_linear_def)

end
