(* ===== verification/PageTake.thy ===== *)
theory PageTake
  imports PageWalk
begin

text \<open>
  Taking pages from the kernel's linear allocator: what it leaves as it was, what the pages hold and
  where they are mapped; writes to frames that are no tables.
\<close>

text \<open>A page-aligned address and an offset into the page.\<close>

lemma page_parts:
  assumes q: "q AND PAGE_ADDR_MASK = q" and i: "i < 4096"
  shows "(q + of_nat i) AND PAGE_ADDR_MASK = q" "unat ((q + of_nat i) AND 0xFFF) = i"
proof -
  have m: "PAGE_ADDR_MASK = push_bit 12 (mask 40 :: u64)" "(0xFFF :: u64) = mask 12" by (simp_all add: mask_eq_exp_minus_1 push_bit_eq_mult)
  have bq: "bit q n \<Longrightarrow> 12 \<le> n \<and> n < 52 \<and> n - 12 < 40" for n
    using arg_cong [OF q, of "\<lambda>w. bit w n"] by (auto simp: m bit_and_iff bit_push_bit_iff bit_mask_iff)
  have "take_bit 12 (of_nat i :: u64) = of_nat i"
    using i by (simp add: take_bit_of_nat take_bit_nat_eq_self)
  then have bi: "bit (of_nat i :: u64) n \<Longrightarrow> n < 12" for n by (metis bit_take_bit_iff)
  have sum: "q + of_nat i = q OR of_nat i"
    by (rule disjunctive_add_eq_or, rule bit_word_eqI) (use bq bi in \<open>auto simp: bit_and_iff dest: leD\<close>)
  show "(q + of_nat i) AND PAGE_ADDR_MASK = q"
    unfolding sum by (rule bit_word_eqI) (use bq bi in \<open>auto simp: m bit_and_iff bit_or_iff bit_push_bit_iff bit_mask_iff dest: leD\<close>)
  have "(q + of_nat i) AND 0xFFF = of_nat i"
    unfolding sum by (rule bit_word_eqI) (use bq bi in \<open>auto simp: m(2) bit_and_iff bit_or_iff bit_mask_iff dest: leD\<close>)
  then show "unat ((q + of_nat i) AND 0xFFF) = i" using i by (simp add: unat_of_nat_u64)
qed

section \<open>What a step keeps\<close>

text \<open>
  The walks of before, with the frames in D written: what a copy into the pages of a
  program and the taking of further pages have in common.
\<close>

definition keeps :: "u64 set \<Rightarrow> paging \<Rightarrow> paging \<Rightarrow> bool" where
  "keeps D s s' \<longleftrightarrow> cr3 s' = cr3 s \<and> cur_pt s' = cur_pt s \<and> (\<forall>v. table_frame s' v = table_frame s v)
     \<and> (\<forall>is q. length is < 4 \<longrightarrow> frames s q \<noteq> None \<longrightarrow> reach (frames s') (cr3 s) is q = reach (frames s) (cr3 s) is q)
     \<and> (\<forall>q. frames s q \<noteq> None \<longrightarrow> frames s' q \<noteq> None) \<and> (\<forall>v. small_page v s \<longrightarrow> small_page v s')
     \<and> (\<forall>q. plain_frame s q \<longrightarrow> q \<notin> D \<longrightarrow> frames s' q = frames s q)"

lemma keeps_refl: "keeps D s s"
  by (simp add: keeps_def)

lemma keeps_plain: "keeps D s s1 \<Longrightarrow> plain_frame s q \<Longrightarrow> plain_frame s1 q"
  by (simp add: keeps_def plain_frame_def)

lemma keeps_trans: "keeps D s s1 \<Longrightarrow> keeps E s1 s2 \<Longrightarrow> keeps (D \<union> E) s s2"
  using keeps_plain [of D s s1] by (simp add: keeps_def)

lemma keeps_mono: "keeps D s s1 \<Longrightarrow> D \<subseteq> E \<Longrightarrow> keeps E s s1"
  by (auto simp: keeps_def)


section \<open>Taking pages\<close>

definition take_page :: "paging \<Rightarrow> paging" where
  "take_page s = (after_alloc s ((the (frames s (cur_pt s)))[unat (k_current_pt_index s) :=
      paging_make_page (kernel_physical_memory_next s) (1 OR 2)]))\<lparr>int_on := int_on s\<rparr>"

lemma int_on_indep [simp]:
  "paging_ok lev (s\<lparr>int_on := b\<rparr>) = paging_ok lev s" "room lev n (s\<lparr>int_on := b\<rparr>) = room lev n s"
  "window (s\<lparr>int_on := b\<rparr>) = window s" "keeps D s0 (s\<lparr>int_on := b\<rparr>) = keeps D s0 s"
  "keeps D (s\<lparr>int_on := b\<rparr>) s1 = keeps D s s1" "plain_frame (s\<lparr>int_on := b\<rparr>) q = plain_frame s q"
  "cur_pt (s\<lparr>int_on := b\<rparr>) = cur_pt s" "table_frame (s\<lparr>int_on := b\<rparr>) v = table_frame s v"
  "small_page v (s\<lparr>int_on := b\<rparr>) = small_page v s"
  by (simp_all add: paging_ok_def room_def window_def keeps_def plain_frame_def addr_ok_def cur_pt_def table_frame_def
      small_page_def)

lemma linear_step:
  assumes ok: "paging_ok lev s" and r: "room lev (Suc n) s"
  shows "allocate_linear_pages (Suc m) s = allocate_linear_pages m (take_page s)"
proof -
  obtain t where t: "frames s (cur_pt s) = Some t" using r by (auto simp: room_def)
  have len: "length t = 512" using tree_okD(1) [of lev "frames s"] ok t by (auto simp: paging_ok_def)
  have i: "unat (k_current_pt_index s) < 512" "k_current_pt_index s \<noteq> 511"
    using r by (auto simp: room_def)
  let ?t = "t[unat (k_current_pt_index s) := paging_make_page (kernel_physical_memory_next s) (1 OR 2)]"
  let ?s1 = "(take_page s)\<lparr>k_current_pt_index := k_current_pt_index s\<rparr>"
  have wr: "wr_entry s (k_current_pt s) (unat (k_current_pt_index s))
      (paging_make_page (kernel_physical_memory_next s) (1 OR 2)) = Some (s\<lparr>frames := (frames s)(cur_pt s \<mapsto> ?t)\<rparr>)"
    using t i(1) len unfolding wr_entry_def cur_pt_def by simp
  have single: "paging_allocate_single_linear_kernel_page s = Some (kernel_virtual_memory_next s, ?s1)"
    using wr t by (simp add: paging_allocate_single_linear_kernel_page_def Let_def take_page_def after_alloc_def)
  have inc: "paging_increment_kernel_page_index ?s1 = Some (?s1\<lparr>k_current_pt_index := k_current_pt_index s + 1\<rparr>)"
    using i(2) r by (simp add: paging_increment_kernel_page_index_def room_def take_page_def after_alloc_def)
  have "?s1\<lparr>k_current_pt_index := k_current_pt_index s + 1\<rparr> = take_page s" by (simp add: take_page_def after_alloc_def)
  then show ?thesis using single inc by simp
qed

text \<open>What the taking of one page F establishes.\<close>

lemma take_page_ok:
  fixes s :: paging
  assumes ok: "paging_ok lev s" and r: "room lev (Suc n) s" and w: "window s"
  defines "F \<equiv> kernel_physical_memory_next s" and "V \<equiv> kernel_virtual_memory_next s" and "s' \<equiv> take_page s"
    and "lev' \<equiv> lev(kernel_physical_memory_next s := 1)"
  shows "paging_ok lev' s'" "room lev' n s'" "window s'" "keeps {} s s'"
    "frames s F = None" "frames s' F = Some (replicate 512 0)" "plain_frame s' F" "addr_ok s F" "addr_ok s' = addr_ok s"
    "table_frame s V = F" "kernel_virtual_memory_next s' = V + PAGE_SIZE" "kernel_physical_memory_next s' = F + PAGE_SIZE"
    "k_current_pt_index s' = k_current_pt_index s + 1"
    "frames s' (cur_pt s) = Some ((the (frames s (cur_pt s)))[unat (k_current_pt_index s) := paging_make_page F (1 OR 2)])"
    "\<And>q. frames s q \<noteq> None \<Longrightarrow> q \<noteq> cur_pt s \<Longrightarrow> frames s' q = frames s q"
proof -
  let ?h = "frames s" and ?K = "cur_pt s"
  have tok: "tree_ok lev ?h" and c: "?h (cr3 s) \<noteq> None" "lev (cr3 s) = 4"
    using ok by (simp_all add: paging_ok_def)
  obtain tK where K: "?h ?K = Some tK" "lev ?K = 1" using r by (auto simp: room_def)
  have lK: "length tK = 512" using tree_okD(1) [OF tok K(1)] .
  have "\<forall>j < Suc n. ?h (F + of_nat j * PAGE_SIZE) = None \<and> addr_ok s (F + of_nat j * PAGE_SIZE)"
    using r unfolding room_def F_def by blast
  from this [rule_format, of 0] show F: "?h F = None" and aF: "addr_ok s F" by simp_all
  have ne: "?K \<noteq> F" "cr3 s \<noteq> F" using K F c by auto
  define tK' where "tK' = tK[unat (k_current_pt_index s) := paging_make_page F (1 OR 2)]"
  have lK': "length tK' = 512" by (simp add: tK'_def lK)
  have s': "s' = (after_alloc s tK')\<lparr>int_on := int_on s\<rparr>" by (simp add: s'_def take_page_def K(1) tK'_def F_def)
  have fs': "frames s' = ?h(?K \<mapsto> tK', F \<mapsto> replicate 512 0)" by (simp add: s' after_alloc_def F_def)
  have tf: "table_frame s' v = table_frame s v" for v by (simp add: s' after_alloc_def table_frame_def)
  have cr: "cr3 s' = cr3 s" "cur_pt s' = ?K" by (simp_all add: s' after_alloc_def cur_pt_def table_frame_def)
  show "addr_ok s' = addr_ok s" by (simp add: fun_eq_iff addr_ok_def s' after_alloc_def)
  then have ad: "addr_ok s' q = addr_ok s q" for q by simp
  show "frames s' F = Some (replicate 512 0)" by (simp add: fs')
  show "frames s' ?K = Some ((the (frames s ?K))[unat (k_current_pt_index s) := paging_make_page F (1 OR 2)])"
    using ne by (simp add: fs' tK'_def K(1))
  show vn: "kernel_virtual_memory_next s' = V + PAGE_SIZE" and "kernel_physical_memory_next s' = F + PAGE_SIZE"
    and ix: "k_current_pt_index s' = k_current_pt_index s + 1" by (simp_all add: s' after_alloc_def V_def F_def)
  have "kernel_virtual_base s \<le> kernel_virtual_allocation_base s" "kernel_virtual_allocation_base s \<le> V"
    using r by (simp_all add: room_def V_def)
  then have "\<not> V < kernel_virtual_base s" "\<not> V < kernel_virtual_allocation_base s" by auto
  then show "table_frame s V = F" using r by (simp add: room_def table_frame_def V_def F_def)
  have tok': "tree_ok lev' (frames s')" unfolding fs' lev'_def F_def [symmetric] by (rule tree_ok_page [OF tok K lK' F])
  have "addr_ok s' p" if "frames s' p \<noteq> None" for p
    using that ok aF K(1) by (auto simp: ad fs' paging_ok_def split: if_splits)
  then show "paging_ok lev' s'"
    using tok' c ne by (simp add: paging_ok_def cr) (simp add: fs' lev'_def flip: F_def)
  have "room lev' n (after_alloc s tK')" by (rule room_after [OF ok r lK']) (use F in \<open>auto simp: lev'_def F_def\<close>)
  then show "room lev' n s'" by (simp add: s')
  have rc: "reach (frames s') (cr3 s) is q = reach ?h (cr3 s) is q" if "length is < 4" for "is" q
    unfolding fs' by (rule reach_kernel_page [OF tok K F]) (use c that in auto)
  have i0: "unat (k_current_pt_index s) < 512" using r by (simp add: room_def)
  have sm: "small_page v s'" if "small_page v s" for v
  proof (cases "reach ?h (cr3 s) (butlast (va_path v)) ?K \<and> last (va_path v) = unat (k_current_pt_index s)")
    case True
    then have "reach (frames s') (cr3 s') (butlast (va_path v)) ?K" using rc butlast_path_len [of v] cr by simp
    then show ?thesis by (rule reach_small)
  next
    case False
    have "\<forall>k \<in> set (butlast (va_path v) @ [last (va_path v)]). k < 512" using va_path_range [of v] by (simp flip: va_path_snoc)
    then have "trans_walk (frames s') (butlast (va_path v) @ [last (va_path v)]) (cr3 s)
        = trans_walk ?h (butlast (va_path v) @ [last (va_path v)]) (cr3 s)"
      unfolding fs' tK'_def
      by (intro trans_kernel_page [OF tok K F i0]) (use c False butlast_path_len [of v] in auto)
    then have "mmu_translate v s' = mmu_translate v s" by (simp add: mmu_translate_def cr flip: va_path_snoc)
    then show ?thesis using that by (simp add: small_page_def small_walk_def mmu_translate_def)
  qed
  show "frames s' q = frames s q" if "frames s q \<noteq> None" "q \<noteq> ?K" for q
    using that F by (auto simp: fs')
  show "keeps {} s s'" using tf cr rc F sm by (auto simp: keeps_def fs' plain_frame_def)
  have noF: "\<not> reach ?h (cr3 s) is F" if "length is < 4" for "is"
    using reach_level [OF tok _ c(1), of "is" F] c(2) that F by auto
  then show "plain_frame s' F" using ne rc by (simp add: plain_frame_def cr) (simp add: fs')
  have i: "unat (k_current_pt_index s) + 1 \<le> 511" using r by (simp add: room_def)
  then have ui: "unat (k_current_pt_index s + 1) = unat (k_current_pt_index s) + 1" by (simp add: unat_plus_if')
  have "unat V + 1 * 4096 < 2 ^ 64" using r by (simp add: room_def V_def)
  then have p: "butlast (va_path (V + PAGE_SIZE)) = butlast (va_path V)" "last (va_path (V + PAGE_SIZE)) = last (va_path V) + 1"
    using path_pages [of V 1] w i by (simp_all add: window_def V_def)
  have "length (butlast (va_path V)) < 4" by (simp add: va_path_def)
  then show "window s'" using w rc p by (simp add: window_def vn cr ix ui V_def)
qed


definition page_of :: "u64 \<Rightarrow> nat \<Rightarrow> u64" where
  "page_of a j = a + of_nat j * PAGE_SIZE"

lemma page_of_0 [simp]: "page_of a 0 = a"
  by (simp add: page_of_def)

lemma page_of_Suc: "page_of (a + PAGE_SIZE) j = page_of a (Suc j)"
  by (simp add: page_of_def algebra_simps)

text \<open>The first n of the pages free in s have been taken: they are mapped in the window, cleared, and no tables.\<close>

definition taken :: "(u64 \<Rightarrow> nat) \<Rightarrow> paging \<Rightarrow> nat \<Rightarrow> (u64 \<Rightarrow> nat) \<Rightarrow> paging \<Rightarrow> bool" where
  "taken lev s n lev' s' \<longleftrightarrow> paging_ok lev' s' \<and> window s' \<and> keeps {} s s' \<and> addr_ok s' = addr_ok s
     \<and> (\<forall>p. frames s p \<noteq> None \<longrightarrow> lev' p = lev p)
     \<and> kernel_virtual_memory_next s' = page_of (kernel_virtual_memory_next s) n
     \<and> kernel_physical_memory_next s' = page_of (kernel_physical_memory_next s) n
     \<and> (\<forall>j<n. frames s (page_of (kernel_physical_memory_next s) j) = None \<and> addr_ok s (page_of (kernel_physical_memory_next s) j)
          \<and> plain_frame s' (page_of (kernel_physical_memory_next s) j) \<and> lev' (page_of (kernel_physical_memory_next s) j) = 1
          \<and> frames s' (page_of (kernel_physical_memory_next s) j) = Some (replicate 512 0))
     \<and> unat (k_current_pt_index s') = unat (k_current_pt_index s) + n
     \<and> (\<forall>q. frames s q \<noteq> None \<longrightarrow> q \<noteq> cur_pt s \<longrightarrow> frames s' q = frames s q)
     \<and> (\<forall>i < unat (k_current_pt_index s). the (frames s' (cur_pt s)) ! i = the (frames s (cur_pt s)) ! i)
     \<and> (\<forall>j<n. the (frames s' (cur_pt s)) ! (unat (k_current_pt_index s) + j) =
          paging_make_page (page_of (kernel_physical_memory_next s) j) (1 OR 2))"

lemma page_of_page: "page_of (page_of a i) j = page_of a (i + j)"
  by (simp add: page_of_def algebra_simps)

lemma taken_add:
  assumes a: "taken lev s a l1 s1" and b: "taken l1 s1 b l2 s2"
  shows "taken lev s (a + b) l2 s2"
proof -
  let ?F = "kernel_physical_memory_next s" and ?i = "unat (k_current_pt_index s)"
  have k1: "keeps {} s s1" and k2: "keeps {} s1 s2" and ad: "addr_ok s1 = addr_ok s"
    and F1: "kernel_physical_memory_next s1 = page_of ?F a" and i1: "unat (k_current_pt_index s1) = ?i + a"
    using a b by (simp_all add: taken_def)
  have cp: "cur_pt s1 = cur_pt s" using k1 by (simp add: keeps_def)
  have old: "frames s1 q \<noteq> None" if "frames s q \<noteq> None" for q using k1 that by (simp add: keeps_def)
  have lev: "l2 q = lev q" if "frames s q \<noteq> None" for q using a b old [OF that] that by (simp add: taken_def)
  have pages: "frames s (page_of ?F j) = None \<and> addr_ok s (page_of ?F j) \<and> plain_frame s2 (page_of ?F j)
      \<and> l2 (page_of ?F j) = 1 \<and> frames s2 (page_of ?F j) = Some (replicate 512 0)" if j: "j < a + b" for j
  proof (cases "j < a")
    case True
    have p: "frames s (page_of ?F j) = None" "addr_ok s (page_of ?F j)" "plain_frame s1 (page_of ?F j)"
        "l1 (page_of ?F j) = 1" "frames s1 (page_of ?F j) = Some (replicate 512 0)"
      using a True by (simp_all add: taken_def)
    have "frames s2 (page_of ?F j) = frames s1 (page_of ?F j)" using k2 p(3) by (simp add: keeps_def)
    moreover have "l2 (page_of ?F j) = l1 (page_of ?F j)" using b p(5) by (simp add: taken_def)
    ultimately show ?thesis using p keeps_plain [OF k2 p(3)] by simp
  next
    case False
    then have "j - a < b" "page_of (kernel_physical_memory_next s1) (j - a) = page_of ?F j"
      using j by (simp_all add: F1 page_of_page)
    then have "frames s1 (page_of ?F j) = None \<and> addr_ok s1 (page_of ?F j) \<and> plain_frame s2 (page_of ?F j)
        \<and> l2 (page_of ?F j) = 1 \<and> frames s2 (page_of ?F j) = Some (replicate 512 0)"
      using b unfolding taken_def by metis
    moreover have "frames s (page_of ?F j) = None"
      using old [of "page_of ?F j"] calculation by (cases "frames s (page_of ?F j)") simp_all
    ultimately show ?thesis using ad by simp
  qed
  have ents: "the (frames s2 (cur_pt s)) ! i = the (frames s (cur_pt s)) ! i" if "i < ?i" for i
    using a b that by (simp add: taken_def i1 cp)
  have ent: "the (frames s2 (cur_pt s)) ! (?i + j) = paging_make_page (page_of ?F j) (1 OR 2)" if j: "j < a + b" for j
  proof (cases "j < a")
    case True
    then have "the (frames s2 (cur_pt s)) ! (?i + j) = the (frames s1 (cur_pt s)) ! (?i + j)"
      using b by (simp add: taken_def i1 cp)
    also have "\<dots> = paging_make_page (page_of ?F j) (1 OR 2)" using a True by (simp add: taken_def)
    finally show ?thesis .
  next
    case False
    then have "j - a < b" using j by simp
    then have "the (frames s2 (cur_pt s1)) ! (unat (k_current_pt_index s1) + (j - a))
        = paging_make_page (page_of (kernel_physical_memory_next s1) (j - a)) (1 OR 2)"
      using b by (simp add: taken_def)
    then show ?thesis using False by (simp add: i1 cp F1 page_of_page)
  qed
  have same: "frames s2 q = frames s q" if "frames s q \<noteq> None" "q \<noteq> cur_pt s" for q
    using a b that old [OF that(1)] by (simp add: taken_def cp)
  have "keeps {} s s2" using keeps_trans [OF k1 k2] by simp
  then show ?thesis
    using a b lev pages ents ent same unfolding taken_def by (simp add: page_of_page)
qed

lemma taken_one:
  assumes ok: "paging_ok lev s" and r: "room lev (Suc n) s" and w: "window s"
  shows "taken lev s 1 (lev(kernel_physical_memory_next s := 1)) (take_page s)" "room (lev(kernel_physical_memory_next s := 1)) n (take_page s)"
proof -
  note t = take_page_ok [OF ok r w]
  show "room (lev(kernel_physical_memory_next s := 1)) n (take_page s)" by (rule t(2))
  have idx: "unat (k_current_pt_index (take_page s)) = Suc (unat (k_current_pt_index s))"
    using t(13) r by (simp add: room_def unat_plus_if')
  have "frames s (cur_pt s) \<noteq> None" "unat (k_current_pt_index s) < 512" using r by (simp_all add: room_def)
  then have len: "unat (k_current_pt_index s) < length (the (frames s (cur_pt s)))"
    using tree_okD(1) [of lev "frames s"] ok by (auto simp: paging_ok_def)
  have "frames s q \<noteq> None \<Longrightarrow> q \<noteq> kernel_physical_memory_next s" for q using t(5) by auto
  then show "taken lev s 1 (lev(kernel_physical_memory_next s := 1)) (take_page s)"
    using t(1,3-13) t(14) t(15) idx len unfolding taken_def page_of_def by simp
qed

lemma linear_pages:
  assumes "paging_ok lev s" "room lev (n + m) s" "window s"
  shows "\<exists>s' lev'. allocate_linear_pages n s = Some s' \<and> taken lev s n lev' s' \<and> room lev' m s'"
  using assms
proof (induction n arbitrary: lev s)
  case 0
  then show ?case by (auto simp: taken_def keeps_refl)
next
  case (Suc n)
  have r: "room lev (Suc (n + m)) s" using Suc.prems(2) by simp
  note t = taken_one [OF Suc.prems(1) r Suc.prems(3)]
  obtain s' lev' where s': "allocate_linear_pages n (take_page s) = Some s'"
    "taken (lev(kernel_physical_memory_next s := 1)) (take_page s) n lev' s'" "room lev' m s'"
    using Suc.IH [OF take_page_ok(1) [OF Suc.prems(1) r Suc.prems(3)] t(2)
      take_page_ok(3) [OF Suc.prems(1) r Suc.prems(3)]] by blast
  then show ?case using taken_add [OF t(1) s'(2)] linear_step [OF Suc.prems(1) r] by auto
qed

text \<open>A page taken translates, in the window, to its frame.\<close>

lemma taken_translates:
  assumes t: "taken lev s n lev' s'" and ok: "paging_ok lev s" and w: "window s" and r: "room lev n s" and j: "j < n"
  shows "mmu_translate (page_of (kernel_virtual_memory_next s) j) s' = Some (Page (page_of (kernel_physical_memory_next s) j) 0)"
    "paging_virtual_to_physical (page_of (kernel_virtual_memory_next s) j) s' = Some (page_of (kernel_physical_memory_next s) j)"
proof -
  let ?V = "kernel_virtual_memory_next s" and ?F = "kernel_physical_memory_next s" and ?i = "unat (k_current_pt_index s)"
  let ?e = "paging_make_page (page_of ?F j) (1 OR 2)"
  have ok': "paging_ok lev' s'" and k: "keeps {} s s'" using t by (simp_all add: taken_def)
  have K: "frames s (cur_pt s) \<noteq> None" using r by (simp add: room_def)
  then obtain t' where t': "frames s' (cur_pt s) = Some t'" using k by (auto simp: keeps_def)
  have len: "length t' = 512" using tree_okD(1) [of lev' "frames s'"] ok' t' by (auto simp: paging_ok_def)
  have e: "t' ! (?i + j) = ?e" using t j t' unfolding taken_def by (metis option.sel)
  have a: "addr_ok s (page_of ?F j)" using t j by (simp add: taken_def)
  have p: "present ?e" "?e AND PAGE_ADDR_MASK = page_of ?F j"
    using a by (simp_all add: make_page_present make_page_addr addr_ok_def bit_or_iff bit_1_iff)
  have ij: "?i + j < 512" and jn: "unat ?V + n * 4096 < 2 ^ 64" using r j by (simp_all add: room_def)
  then have "unat ?V + j * 4096 < 2 ^ 64" using j by linarith
  from path_pages [OF _ this] ij w
  have path: "butlast (va_path (page_of ?V j)) = butlast (va_path ?V)" "last (va_path (page_of ?V j)) = ?i + j"
    by (simp_all add: window_def page_of_def)
  have "length (butlast (va_path ?V)) < 4" by (simp add: va_path_def)
  then have rc: "reach (frames s') (cr3 s) (butlast (va_path ?V)) (cur_pt s)" using k K w by (simp add: keeps_def window_def)
  then have rv: "reach (frames s') (cr3 s') (butlast (va_path (page_of ?V j))) (cur_pt s)" using k path by (simp add: keeps_def)
  have "mmu_translate (page_of ?V j) s' = trans_walk (frames s') [?i + j] (cur_pt s)"
    using reach_small(2) [OF rv] path by simp
  also have "\<dots> = Some (Page (page_of ?F j) 0)" using t' len ij e p by simp
  finally show mt: "mmu_translate (page_of ?V j) s' = Some (Page (page_of ?F j) 0)" .
  show "paging_virtual_to_physical (page_of ?V j) s' = Some (page_of ?F j)"
    using v2p_trans [OF ok' reach_small(1) [OF rv]] mt by simp
qed

text \<open>The addresses of the pages lie in the linear window.\<close>

lemma window_linear:
  assumes "room lev n s" "k < 4096 * n"
  shows "table_frame s (kernel_virtual_memory_next s + of_nat k) = kernel_physical_memory_next s + of_nat k"
proof -
  let ?V = "kernel_virtual_memory_next s"
  have "unat ?V + k < 2 ^ 64" using assms by (simp add: room_def)
  then have "unat (?V + of_nat k) = unat ?V + k" by (rule word_add_mono_nat)
  then have le: "kernel_virtual_allocation_base s \<le> ?V + of_nat k" "kernel_virtual_base s \<le> ?V + of_nat k"
    using assms(1) by (auto simp: room_def word_le_nat_alt)
  have "?V - kernel_virtual_allocation_base s + kernel_physical_allocation_base s = kernel_physical_memory_next s"
    using assms(1) by (simp add: room_def)
  then show ?thesis using le by (simp add: table_frame_def leD algebra_simps)
qed

lemma kernel_pages:
  assumes ok: "paging_ok lev s" and r: "room lev (unat n + m) s" and w: "window s" and n: "n \<noteq> 0"
  shows "\<exists>s' lev'. page_allocate_kernel n s = Some (kernel_virtual_memory_next s, s') \<and> taken lev s (unat n) lev' s' \<and> room lev' m s'"
proof -
  let ?s0 = "s\<lparr>int_on := False\<rparr>"
  obtain s1 lev' where s1: "allocate_linear_pages (unat n) ?s0 = Some s1" "taken lev ?s0 (unat n) lev' s1" "room lev' m s1"
    using linear_pages [of lev ?s0 "unat n" m] ok r w by auto
  have "\<not> n < 1" using n by (metis word_less_1)
  then have "page_allocate_kernel n s = Some (kernel_virtual_memory_next s, s1\<lparr>int_on := True\<rparr>)"
    using s1(1) r by (simp add: page_allocate_kernel_def page_allocate_kernel_linear_def room_def Let_def)
  moreover have "taken lev s (unat n) lev' (s1\<lparr>int_on := True\<rparr>)"
    using s1(2) by (simp add: taken_def addr_ok_def fun_eq_iff)
  ultimately show ?thesis using s1(3) by (intro exI [of _ "s1\<lparr>int_on := True\<rparr>"] exI [of _ lev']) simp
qed


section \<open>Writes to plain frames\<close>

text \<open>Only the frames in D have been written.\<close>

definition wrote :: "(u64 \<Rightarrow> nat) \<Rightarrow> u64 set \<Rightarrow> paging \<Rightarrow> paging \<Rightarrow> bool" where
  "wrote lev D s s' \<longleftrightarrow> paging_ok lev s' \<and> (\<forall>m. room lev m s \<longrightarrow> room lev m s') \<and> (window s \<longrightarrow> window s')
     \<and> keeps D s s' \<and> s' = s\<lparr>frames := frames s'\<rparr>"

lemma wrote_refl: "paging_ok lev s \<Longrightarrow> wrote lev D s s"
  by (simp add: wrote_def keeps_refl)

lemma wrote_trans:
  assumes "wrote lev D s s1" "wrote lev D s1 s2"
  shows "wrote lev D s s2"
proof -
  have "s2 = s1\<lparr>frames := frames s2\<rparr>" "s1 = s\<lparr>frames := frames s1\<rparr>" using assms by (simp_all add: wrote_def)
  then have "s2 = s\<lparr>frames := frames s2\<rparr>" by (metis paging.update_convs(1) paging.surjective)
  then show ?thesis using assms keeps_trans [of D s s1 D s2] by (simp add: wrote_def)
qed

text \<open>Writes to a plain frame leave the tables and the walks alone.\<close>

lemma plain_write:
  assumes ok: "paging_ok lev s" and p: "plain_frame s q" "lev q = 1" and t: "frames s q = Some t" and q: "q \<in> D"
  shows "wrote lev D s (s\<lparr>frames := (frames s)(q \<mapsto> t[i := e])\<rparr>)" (is "wrote _ _ _ ?s")
proof -
  have tok: "tree_ok lev (frames s)" and c: "frames s (cr3 s) \<noteq> None" "lev (cr3 s) = 4"
    using ok by (simp_all add: paging_ok_def)
  have tf: "table_frame ?s v = table_frame s v" for v by (simp add: table_frame_def)
  have ad: "addr_ok ?s v = addr_ok s v" for v by (simp add: addr_ok_def)
  have cp: "cur_pt ?s = cur_pt s" by (simp add: cur_pt_def tf)
  have fr: "frames ?s v \<noteq> None \<longleftrightarrow> frames s v \<noteq> None" for v using t by simp
  have fn: "frames ?s v = None \<longleftrightarrow> frames s v = None" for v using t by simp
  have rc: "reach (frames ?s) (cr3 s) is v = reach (frames s) (cr3 s) is v" if "length is < 4" for "is" v
    using reach_leaf_write [OF tok t p(2) c(1)] c(2) that by simp
  have "tree_ok lev (frames ?s)" using tree_ok_leaf [OF tok t p(2)] by simp
  then have "paging_ok lev ?s" unfolding paging_ok_def using ok c fr ad by (simp add: paging_ok_def del: fun_upd_apply)
  moreover have "room lev m ?s" if "room lev m s" for m
    using that fn cp ad unfolding room_def by (simp del: fun_upd_apply)
  moreover have "window ?s" if "window s"
    using that rc [of "butlast (va_path (kernel_virtual_memory_next s))" "cur_pt s"] butlast_path_len
    unfolding window_def cp by (simp del: fun_upd_apply length_butlast)
  moreover have "small_page v ?s" if "small_page v s" for v
  proof -
    have n: "\<not> reach (frames s) (cr3 s) (butlast (va_path v)) q" using p(1) butlast_path_len [of v] by (simp add: plain_frame_def)
    have r: "\<forall>k \<in> set (butlast (va_path v)). k < 512" "last (va_path v) < 512"
      using va_path_range [of v] by (auto simp: va_path_def)
    have "trans_walk (frames ?s) (butlast (va_path v) @ [last (va_path v)]) (cr3 s)
        = trans_walk (frames s) (butlast (va_path v) @ [last (va_path v)]) (cr3 s)"
    proof (cases "i < 512")
      case True
      show ?thesis
        using trans_leaf_write [OF tok t p(2) True c(1) _ r(2) r(1), of e] c(2) n butlast_path_len [of v] by simp
    next
      case False
      then have "t[i := e] = t" using tree_okD(1) [OF tok t] by (intro list_update_beyond) linarith
      moreover have "(frames s)(q \<mapsto> t) = frames s" using t by (simp add: fun_upd_idem)
      ultimately show ?thesis by simp
    qed
    then have "mmu_translate v ?s = mmu_translate v s" by (simp add: mmu_translate_def flip: va_path_snoc)
    then show ?thesis using that by (simp add: small_page_def small_walk_def mmu_translate_def)
  qed
  moreover have "keeps D s ?s" using tf cp fr rc q calculation(4) unfolding keeps_def by auto
  ultimately show ?thesis by (simp add: wrote_def)
qed

end
