(* ===== verification/Boot.thy ===== *)
theory Boot
  imports PageTake
begin

text \<open>
  The page tables the kernel boots with: paging_setup_initial_structures and
  paging_initalize of kernel/arch/x86_64/page.c. The boot loader's tables, the
  kernel's static arrays and the memory map are what the two functions are
  given; the arrays are read and written through their addresses in the kernel
  image, the loader's root table through the loader's direct map. The checks of
  paging_initalize write to the pages they have mapped; the write to the page at
  0x90000000, which is no table, is left out.
\<close>

section \<open>The two functions\<close>

record memmap_entry =
  mm_base :: u64
  mm_size :: u64
  mm_type :: u8

record kinfo =
  ki_physical_base :: u64
  ki_virtual_base :: u64
  ki_allocate_memory_start :: u64
  ki_usable_memory_start :: u64
  ki_kernel_end :: u64
  ki_memmap :: "memmap_entry list"

abbreviation LIMINE_MEMMAP_KERNEL_AND_MODULES :: u8 where "LIMINE_MEMMAP_KERNEL_AND_MODULES \<equiv> 6"

text \<open>The addresses of the static arrays; k_pt1 to k_pt4 are the list a_k_pt.\<close>

record boot_arrays =
  a_identity_map :: u64
  a_k_pml4 :: u64
  a_k_pdpt :: u64
  a_k_pd :: u64
  a_k_pt :: "u64 list"

definition kernel_phys :: "kinfo \<Rightarrow> u64 \<Rightarrow> u64" where
  "kernel_phys ki v = v - ki_virtual_base ki + ki_physical_base ki"

definition wr_table :: "u64 \<Rightarrow> nat \<Rightarrow> u64 \<Rightarrow> paging \<Rightarrow> paging option" where
  "wr_table p i v s = do {
     t \<leftarrow> frames s p;
     if i < length t then Some (s\<lparr>frames := (frames s)(p \<mapsto> t[i := v])\<rparr>) else None }"

definition rd_table :: "u64 \<Rightarrow> nat \<Rightarrow> paging \<Rightarrow> u64 option" where
  "rd_table p i s = do { t \<leftarrow> frames s p; if i < length t then Some (t ! i) else None }"

definition clear_table :: "u64 \<Rightarrow> paging \<Rightarrow> paging option" where
  "clear_table p s = do { t \<leftarrow> frames s p; Some (s\<lparr>frames := (frames s)(p \<mapsto> replicate 512 0)\<rparr>) }"

primrec identity_loop :: "u64 \<Rightarrow> nat \<Rightarrow> nat \<Rightarrow> paging \<Rightarrow> paging option" where
  "identity_loop p i 0 s = Some s"
| "identity_loop p i (Suc n) s = do {
     s \<leftarrow> wr_table p i (paging_make_page (of_nat i * 0x40000000) (1 OR 2 OR 128)) s;
     identity_loop p (Suc i) n s }"

text \<open>
  The entry of an upper table is made when it is zero: the macro's ! GET_PDE_PRESENT( e ) is
  ( ! e ) & 0x1.
\<close>

definition link_table :: "u64 \<Rightarrow> nat \<Rightarrow> u64 \<Rightarrow> paging \<Rightarrow> paging option" where
  "link_table p i q s = do {
     e \<leftarrow> rd_table p i s;
     if e = 0 then wr_table p i (paging_make_page q (1 OR 2)) s else Some s }"

text \<open>One turn of the loop over the kernel's pages; None is the shutdown when the page tables run out.\<close>

definition kernel_page :: "kinfo \<Rightarrow> boot_arrays \<Rightarrow> nat \<Rightarrow> u64 \<Rightarrow> paging \<Rightarrow> paging option" where
  "kernel_page ki A i current_physical s = (let index = paging_get_indexes (0xFFFFFFFF80000000 + of_nat i * 0x1000) in
     if unat (ix_pd index) < length (a_k_pt A) then do {
       let k_pt = a_k_pt A ! unat (ix_pd index);
       let s = s\<lparr>k_current_pt := k_pt\<rparr>;
       s \<leftarrow> wr_table (kernel_phys ki k_pt) (unat (ix_pt index)) (paging_make_page current_physical (1 OR 2)) s;
       let k_pt_physical = kernel_phys ki (k_pt + 8 * ucast (ix_pt index));
       s \<leftarrow> link_table (kernel_phys ki (a_k_pd A)) (unat (ix_pd index)) k_pt_physical s;
       s \<leftarrow> link_table (kernel_phys ki (a_k_pdpt A)) (unat (ix_pdpt index))
             (kernel_phys ki (a_k_pd A + 8 * ucast (ix_pd index))) s;
       link_table (kernel_phys ki (a_k_pml4 A)) (unat (ix_pml4 index))
             (kernel_phys ki (a_k_pdpt A + 8 * ucast (ix_pdpt index))) s }
     else None)"

primrec kernel_page_loop :: "kinfo \<Rightarrow> boot_arrays \<Rightarrow> nat \<Rightarrow> nat \<Rightarrow> u64 \<Rightarrow> paging \<Rightarrow> paging option" where
  "kernel_page_loop ki A i 0 current_physical s = Some s"
| "kernel_page_loop ki A i (Suc n) current_physical s = do {
     s \<leftarrow> kernel_page ki A i current_physical s;
     kernel_page_loop ki A (Suc i) n (current_physical + 0x1000) s }"

definition kernel_memmap_entry :: "memmap_entry list \<Rightarrow> memmap_entry option" where
  "kernel_memmap_entry es =
     fold (\<lambda>e r. if mm_type e = LIMINE_MEMMAP_KERNEL_AND_MODULES then Some e else r) es None"

definition num_kernel_pages :: "memmap_entry \<Rightarrow> u16" where
  "num_kernel_pages e =
     (let n = ucast (mm_size e div 0x1000) in if mm_size e mod 0x1000 \<noteq> 0 then n + 1 else n)"

text \<open>None: a shutdown, for want of the kernel's memory map entry or of page tables.\<close>

definition paging_setup_initial_structures :: "kinfo \<Rightarrow> boot_arrays \<Rightarrow> paging \<Rightarrow> paging option" where
  "paging_setup_initial_structures ki A s = do {
     let im_page_index = paging_get_indexes (0xFFFF800000000000 + 0x240000000);
     let im_phys_addr = kernel_phys ki (a_identity_map A);
     s \<leftarrow> identity_loop im_phys_addr 0 8 s;
     s \<leftarrow> wr_table (cr3 s) (unat (ix_pml4 im_page_index)) (paging_make_page im_phys_addr (1 OR 2)) s;
     s \<leftarrow> clear_table (kernel_phys ki (a_k_pml4 A)) s;
     s \<leftarrow> clear_table (kernel_phys ki (a_k_pdpt A)) s;
     s \<leftarrow> clear_table (kernel_phys ki (a_k_pd A)) s;
     s \<leftarrow> clear_table (kernel_phys ki (a_k_pt A ! 0)) s;
     s \<leftarrow> clear_table (kernel_phys ki (a_k_pt A ! 1)) s;
     e \<leftarrow> kernel_memmap_entry (ki_memmap ki);
     let s = s\<lparr>k_current_pdpt := a_k_pdpt A, k_current_pd := a_k_pd A\<rparr>;
     s \<leftarrow> kernel_page_loop ki A 0 (unat (num_kernel_pages e)) (kernel_phys ki 0xFFFFFFFF80000000) s;
     s \<leftarrow> wr_table (kernel_phys ki (a_k_pml4 A)) (unat (ix_pml4 im_page_index)) (paging_make_page im_phys_addr (1 OR 2)) s;
     Some (s\<lparr>cr3 := kernel_phys ki (a_k_pml4 A)\<rparr>) }"

definition paging_initalize :: "kinfo \<Rightarrow> paging \<Rightarrow> paging option" where
  "paging_initalize ki s = do {
     let ix = paging_get_indexes (ki_kernel_end ki);
     let s = s\<lparr>kernel_virtual_base := ki_virtual_base ki, kernel_physical_base := ki_physical_base ki,
       kernel_virtual_allocation_base := ki_kernel_end ki,
       kernel_physical_allocation_base := ki_allocate_memory_start ki,
       kernel_virtual_memory_next := ki_kernel_end ki,
       kernel_physical_memory_next := ki_allocate_memory_start ki,
       kernel_heap_virtual_memory_next := 0x0000700000000000,
       kernel_heap_physical_memory_next := ki_usable_memory_start ki,
       k_current_pdpt_index := ix_pdpt ix, k_current_pd_index := ix_pd ix, k_current_pt_index := ix_pt ix,
       k_new_pt := 0xFFFF000000000000, k_new_pd := 0xFFFF000000000000\<rparr>;
     (v, s) \<leftarrow> page_allocate_kernel_linear 1 s;
     (w, s) \<leftarrow> page_allocate_kernel_linear 1 (s\<lparr>k_new_pt := v\<rparr>);
     (c, s) \<leftarrow> page_allocate_kernel 1 (s\<lparr>k_new_pd := w\<rparr>);
     s \<leftarrow> wr_entry s c 0 0x00001111BADAB000;
     e \<leftarrow> rd_entry s c 0;
     (if e \<noteq> 0x00001111BADAB000 then None else do {
        (c, s) \<leftarrow> page_map 0x00001122BADA0000 0x0000000090000000 s;
        Some s }) }"


section \<open>The tables of the kernel\<close>

definition arrays :: "boot_arrays \<Rightarrow> u64 list" where
  "arrays A = a_identity_map A # a_k_pml4 A # a_k_pdpt A # a_k_pd A # a_k_pt A"

text \<open>
  What the linker and the boot loader provide: the kernel image at the base of the linker script,
  eight page-aligned arrays in it, apart from each other and from the loader's root table, the array
  of the identity map cleared with the rest of .bss.
\<close>

definition boot_layout :: "kinfo \<Rightarrow> boot_arrays \<Rightarrow> paging \<Rightarrow> bool" where
  "boot_layout ki A s \<longleftrightarrow> ki_virtual_base ki = 0xFFFFFFFF80000000 \<and> length (a_k_pt A) = 4
     \<and> (\<forall>p t. frames s p = Some t \<longrightarrow> length t = 512 \<and> p AND PAGE_ADDR_MASK = p
          \<and> ADDR_IDENTITY_MAP \<le> p + ADDR_IDENTITY_MAP \<and> p + ADDR_IDENTITY_MAP < 0xFFFFFFFF80000000)
     \<and> frames s (cr3 s) \<noteq> None \<and> distinct (cr3 s # map (kernel_phys ki) (arrays A))
     \<and> (\<forall>a \<in> set (arrays A). frames s (kernel_phys ki a) \<noteq> None
          \<and> 0xFFFFFFFF80000000 \<le> a \<and> a < ki_kernel_end ki)
     \<and> frames s (kernel_phys ki (a_identity_map A)) = Some (replicate 512 0)"

lemma wr_table_ok: "frames s p = Some t \<Longrightarrow> i < length t \<Longrightarrow>
    wr_table p i v s = Some (s\<lparr>frames := (frames s)(p \<mapsto> t[i := v])\<rparr>)"
  by (simp add: wr_table_def)

lemma clear_table_ok: "frames s p \<noteq> None \<Longrightarrow>
    clear_table p s = Some (s\<lparr>frames := (frames s)(p \<mapsto> replicate 512 0)\<rparr>)"
  by (auto simp: clear_table_def)

lemma make_page_mask: "a AND PAGE_ADDR_MASK = b AND PAGE_ADDR_MASK \<Longrightarrow> paging_make_page a f = paging_make_page b f"
  by (simp add: paging_make_page_def)

lemma kernel_page_number:
  assumes "(y :: nat) < 2048"
  shows "(0xFFFFFFFF80000 + y) div 512 div 512 div 512 mod 512 = 511" "(0xFFFFFFFF80000 + y) div 512 div 512 mod 512 = 510"
    "(0xFFFFFFFF80000 + y) div 512 mod 512 = y div 512" "(0xFFFFFFFF80000 + y) mod 512 = y mod 512"
proof -
  have "0xFFFFFFFF80000 + y = y + 0x7FFFFFFFC00 * 512" by simp
  then have q: "(0xFFFFFFFF80000 + y) div 512 = 0x7FFFFFFFC00 + y div 512" "(0xFFFFFFFF80000 + y) mod 512 = y mod 512"
    by (simp_all only: mod_mult_self1 div_mult_self1)
  have k: "y div 512 < 4" using assms by linarith
  have "0x7FFFFFFFC00 + y div 512 = y div 512 + 0x3FFFFFFFE * 512" by simp
  then have r: "(0x7FFFFFFFC00 + y div 512) div 512 = 0x3FFFFFFFE" "(0x7FFFFFFFC00 + y div 512) mod 512 = y div 512"
    using k by (simp_all only: mod_mult_self1 div_mult_self1) simp_all
  show "(0xFFFFFFFF80000 + y) div 512 div 512 div 512 mod 512 = 511" "(0xFFFFFFFF80000 + y) div 512 div 512 mod 512 = 510"
    "(0xFFFFFFFF80000 + y) div 512 mod 512 = y div 512" "(0xFFFFFFFF80000 + y) mod 512 = y mod 512"
    by (simp_all add: q r)
qed

lemma kernel_path:
  assumes "unat (v :: u64) = 0xFFFFFFFF80000000 + x" "x div 4096 < 2048"
  shows "va_path v = [511, 510, x div 4096 div 512, x div 4096 mod 512]"
proof -
  have d: "n div 2097152 = n div 4096 div 512" "n div 1073741824 = n div 4096 div 512 div 512"
    "n div 549755813888 = n div 4096 div 512 div 512 div 512" for n :: nat
    by (simp_all add: div_mult2_eq [symmetric])
  have p: "(0xFFFFFFFF80000000 + x) div 4096 = 0xFFFFFFFF80000 + x div 4096" by simp
  show ?thesis using kernel_page_number [OF assms(2)] by (simp add: va_path_def drop_index assms(1) d p)
qed

lemma kernel_index:
  assumes "i < 2048"
  defines "ix \<equiv> paging_get_indexes (0xFFFFFFFF80000000 + of_nat i * 0x1000)"
  shows "unat (ix_pml4 ix) = 511" "unat (ix_pdpt ix) = 510" "unat (ix_pd ix) = i div 512" "unat (ix_pt ix) = i mod 512"
proof -
  have "of_nat i * 0x1000 = (of_nat (i * 4096) :: u64)" by simp
  then have "unat (0xFFFFFFFF80000000 + of_nat i * 0x1000 :: u64) = 0xFFFFFFFF80000000 + i * 4096"
    using word_add_mono_nat [of "0xFFFFFFFF80000000" "i * 4096"] assms(1) by simp
  from kernel_path [OF this] assms(1)
  have "va_path (0xFFFFFFFF80000000 + of_nat i * 0x1000) = [511, 510, i div 512, i mod 512]" by simp
  then show "unat (ix_pml4 ix) = 511" "unat (ix_pdpt ix) = 510" "unat (ix_pd ix) = i div 512" "unat (ix_pt ix) = i mod 512"
    by (simp_all add: ix_def paging_get_indexes_def index_u16 va_path_def)
qed

text \<open>The tables when i pages of the kernel have been entered.\<close>

definition boot_tables :: "kinfo \<Rightarrow> boot_arrays \<Rightarrow> nat \<Rightarrow> paging \<Rightarrow> paging \<Rightarrow> bool" where
  "boot_tables ki A i s1 s \<longleftrightarrow>
     frames s (kernel_phys ki (a_k_pml4 A)) = Some ((replicate 512 0)[511 :=
        if i = 0 then 0 else paging_make_page (kernel_phys ki (a_k_pdpt A)) 3])
     \<and> frames s (kernel_phys ki (a_k_pdpt A)) = Some ((replicate 512 0)[510 :=
        if i = 0 then 0 else paging_make_page (kernel_phys ki (a_k_pd A)) 3])
     \<and> (\<exists>t. frames s (kernel_phys ki (a_k_pd A)) = Some t \<and> length t = 512
          \<and> (\<forall>j < 512. t ! j = (if j * 512 < i then paging_make_page (kernel_phys ki (a_k_pt A ! j)) 3 else 0)))
     \<and> (\<forall>j < 4. \<exists>t. frames s (kernel_phys ki (a_k_pt A ! j)) = Some t \<and> length t = 512)
     \<and> (\<forall>q. q \<notin> kernel_phys ki ` set (tl (arrays A)) \<longrightarrow> frames s q = frames s1 q)
     \<and> (i \<noteq> 0 \<longrightarrow> k_current_pt s = a_k_pt A ! ((i - 1) div 512))
     \<and> cr3 s = cr3 s1 \<and> k_current_pd s = k_current_pd s1 \<and> k_current_pdpt s = k_current_pdpt s1"

lemma link_table_ok:
  assumes "frames s p = Some t" "i < length t"
  shows "link_table p i q s = Some (if t ! i = 0 then s\<lparr>frames := (frames s)(p \<mapsto> t[i := paging_make_page q 3])\<rparr> else s)"
  using assms by (simp add: link_table_def rd_table_def wr_table_def)


lemma boot_frames:
  assumes ly: "boot_layout ki A s"
  defines "K \<equiv> kernel_phys ki"
  shows "length (a_k_pt A) = 4" "j < 4 \<Longrightarrow> l < 4 \<Longrightarrow> K (a_k_pt A ! j) = K (a_k_pt A ! l) \<longleftrightarrow> j = l"
    "j < 4 \<Longrightarrow> K (a_k_pt A ! j) \<notin> {cr3 s, K (a_identity_map A), K (a_k_pml4 A), K (a_k_pdpt A), K (a_k_pd A)}"
    "distinct [cr3 s, K (a_identity_map A), K (a_k_pml4 A), K (a_k_pdpt A), K (a_k_pd A)]"
    "a \<in> set (arrays A) \<Longrightarrow> K a AND PAGE_ADDR_MASK = K a"
    "a \<in> set (arrays A) \<Longrightarrow> frames s (K a) \<noteq> None"
proof -
  show len: "length (a_k_pt A) = 4" using ly by (simp add: boot_layout_def)
  have d: "distinct (map K (a_k_pt A))" "distinct (cr3 s # map K (arrays A))"
    using ly by (simp_all add: boot_layout_def arrays_def K_def)
  show "K (a_k_pt A ! j) = K (a_k_pt A ! l) \<longleftrightarrow> j = l" if "j < 4" "l < 4"
    using nth_eq_iff_index_eq [OF d(1), of j l] that len by simp
  show "K (a_k_pt A ! j) \<notin> {cr3 s, K (a_identity_map A), K (a_k_pml4 A), K (a_k_pdpt A), K (a_k_pd A)}" if "j < 4"
  proof -
    have "K (a_k_pt A ! j) \<in> K ` set (a_k_pt A)" using that len by simp
    then show ?thesis using d(2) by (auto simp: arrays_def)
  qed
  show "distinct [cr3 s, K (a_identity_map A), K (a_k_pml4 A), K (a_k_pdpt A), K (a_k_pd A)]"
    using d(2) by (simp add: arrays_def)
  show "frames s (K a) \<noteq> None" if "a \<in> set (arrays A)" using ly that by (simp add: boot_layout_def K_def)
  then show "K a AND PAGE_ADDR_MASK = K a" if "a \<in> set (arrays A)" using ly that by (auto simp: boot_layout_def)
qed

lemma make_page_nonzero: "paging_make_page q 3 \<noteq> 0"
proof
  assume "paging_make_page q 3 = 0"
  moreover have "present (paging_make_page q 3)" by (simp add: make_page_present)
  ultimately show False by simp
qed

lemma boot_page:
  assumes t: "boot_tables ki A i s1 s" and i: "i < 2048" and ly: "boot_layout ki A s0"
  shows "\<exists>s'. kernel_page ki A i cp s = Some s' \<and> boot_tables ki A (Suc i) s1 s'"
proof -
  let ?ix = "paging_get_indexes (0xFFFFFFFF80000000 + of_nat i * 0x1000)"
  let ?K = "kernel_phys ki" and ?j = "i div 512" and ?m = "i mod 512"
  note ix = kernel_index [OF i]
  have j: "?j < 4" using i by linarith
  note bf = boot_frames [OF ly]
  let ?P4 = "?K (a_k_pml4 A)" and ?P3 = "?K (a_k_pdpt A)" and ?P2 = "?K (a_k_pd A)" and ?PT = "?K (a_k_pt A ! ?j)"
  have ne: "?PT \<noteq> ?P4" "?PT \<noteq> ?P3" "?PT \<noteq> ?P2" "?P4 \<noteq> ?P3" "?P4 \<noteq> ?P2" "?P3 \<noteq> ?P2"
    using bf(3) [OF j] bf(4) by auto
  obtain t1 where t1: "frames s ?PT = Some t1" "length t1 = 512" using t j by (auto simp: boot_tables_def)
  obtain t2 where t2: "frames s ?P2 = Some t2" "length t2 = 512"
    "\<forall>l < 512. t2 ! l = (if l * 512 < i then paging_make_page (?K (a_k_pt A ! l)) 3 else 0)"
    using t by (auto simp: boot_tables_def)
  let ?e4 = "paging_make_page ?P3 3" and ?e3 = "paging_make_page ?P2 3"
  have t3: "frames s ?P3 = Some ((replicate 512 0)[510 := if i = 0 then 0 else ?e3])"
    and t4: "frames s ?P4 = Some ((replicate 512 0)[511 := if i = 0 then 0 else ?e4])"
    using t by (simp_all add: boot_tables_def)
  have p3: "?P3 AND PAGE_ADDR_MASK = ?P3" using bf(5) by (simp add: arrays_def)
  have im: "i = ?j * 512 + ?m" "?m < 512" by simp_all
  have i0: "?j * 512 < i \<longleftrightarrow> ?m \<noteq> 0" using im(1) by linarith
  let ?t1 = "t1[?m := paging_make_page cp 3]"
  let ?t2 = "if ?m = 0 then t2[?j := paging_make_page ?PT 3] else t2"
  let ?t3 = "(replicate 512 0)[510 := ?e3]" and ?t4 = "(replicate 512 0)[511 := ?e4]"
  define s' where "s' = s\<lparr>k_current_pt := a_k_pt A ! ?j,
    frames := (frames s)(?PT \<mapsto> ?t1, ?P2 \<mapsto> ?t2, ?P3 \<mapsto> ?t3, ?P4 \<mapsto> ?t4)\<rparr>"
  have k4: "8 * ucast (ix_pdpt ?ix) = (of_nat 4080 :: u64)"
  proof -
    have "(ucast (ix_pdpt ?ix) :: u64) = 510" using ix(2) by (simp add: word_unat_eq_iff)
    then show ?thesis by simp
  qed
  have e4: "paging_make_page (?K (a_k_pdpt A + 8 * ucast (ix_pdpt ?ix))) 3 = ?e4"
  proof (rule make_page_mask)
    have "?K (a_k_pdpt A + 8 * ucast (ix_pdpt ?ix)) = ?P3 + of_nat 4080" unfolding k4 by (simp add: kernel_phys_def)
    then show "?K (a_k_pdpt A + 8 * ucast (ix_pdpt ?ix)) AND PAGE_ADDR_MASK = ?P3 AND PAGE_ADDR_MASK"
      using page_parts(1) [OF p3, of 4080] p3 by simp
  qed
  have z: "ucast (ix_pt ?ix) = (0 :: u64)" if "?m = 0" using ix(4) that by (simp add: word_unat_eq_iff)
  have z2: "ucast (ix_pd ?ix) = (0 :: u64)" if "i = 0" using ix(3) that by (simp add: word_unat_eq_iff)
  have "kernel_page ki A i cp s = Some s'"
  proof -
    let ?s1 = "s\<lparr>k_current_pt := a_k_pt A ! ?j, frames := (frames s)(?PT \<mapsto> ?t1)\<rparr>"
    let ?s2 = "s\<lparr>k_current_pt := a_k_pt A ! ?j, frames := (frames s)(?PT \<mapsto> ?t1, ?P2 \<mapsto> ?t2)\<rparr>"
    let ?s3 = "s\<lparr>k_current_pt := a_k_pt A ! ?j, frames := (frames s)(?PT \<mapsto> ?t1, ?P2 \<mapsto> ?t2, ?P3 \<mapsto> ?t3)\<rparr>"
    have w: "wr_table ?PT ?m (paging_make_page cp 3) (s\<lparr>k_current_pt := a_k_pt A ! ?j\<rparr>) = Some ?s1"
      using t1 im(2) by (simp add: wr_table_def)
    have j512: "?j < 512" using j by simp
    have "link_table ?P2 ?j (?K (a_k_pt A ! ?j + 8 * ucast (ix_pt ?ix))) ?s1 = Some ?s2"
    proof (cases "?m = 0")
      case True
      then show ?thesis using link_table_ok [of ?s1 ?P2 t2 ?j] t2 ne j512 i0 z [OF True] by simp
    next
      case False
      then have "?s2 = ?s1" using t2 ne by (simp add: fun_upd_idem)
      moreover have "t2 ! ?j \<noteq> 0" using t2(3) j512 i0 False make_page_nonzero by simp
      ultimately show ?thesis using link_table_ok [of ?s1 ?P2 t2 ?j] t2 ne j512 by simp
    qed
    moreover have "link_table ?P3 510 (?K (a_k_pd A + 8 * ucast (ix_pd ?ix))) ?s2 = Some ?s3"
      using link_table_ok [of ?s2 ?P3 _ 510] t3 ne z2 make_page_nonzero by (cases "i = 0") (simp_all add: fun_upd_idem)
    moreover have "link_table ?P4 511 (?K (a_k_pdpt A + 8 * ucast (ix_pdpt ?ix))) ?s3 = Some s'"
      using link_table_ok [of ?s3 ?P4 _ 511] t4 ne e4 make_page_nonzero
      by (cases "i = 0") (simp_all add: s'_def fun_upd_idem)
    ultimately show ?thesis using w j bf(1) unfolding kernel_page_def Let_def ix by simp
  qed
  moreover have "boot_tables ki A (Suc i) s1 s'"
    unfolding boot_tables_def
  proof (intro conjI)
    show "frames s' ?P4 = Some ((replicate 512 0)[511 := if Suc i = 0 then 0 else ?e4])" by (simp add: s'_def)
    show "frames s' ?P3 = Some ((replicate 512 0)[510 := if Suc i = 0 then 0 else ?e3])" using ne by (simp add: s'_def)
    show "\<exists>t. frames s' ?P2 = Some t \<and> length t = 512
        \<and> (\<forall>l < 512. t ! l = (if l * 512 < Suc i then paging_make_page (?K (a_k_pt A ! l)) 3 else 0))"
    proof (intro exI conjI allI impI)
      show "frames s' ?P2 = Some ?t2" using ne by (simp add: s'_def)
      show "length ?t2 = 512" using t2(2) by simp
      show "?t2 ! l = (if l * 512 < Suc i then paging_make_page (?K (a_k_pt A ! l)) 3 else 0)" if l: "l < 512" for l
      proof (cases "l = ?j")
        case True
        have "?j * 512 < Suc i" using im(1) by linarith
        then show ?thesis using True t2 l i0 by (cases "?m = 0") simp_all
      next
        case False
        then have "l * 512 < Suc i \<longleftrightarrow> l * 512 < i" by auto
        then show ?thesis using False t2 l by simp
      qed
    qed
    show "\<forall>l < 4. \<exists>t. frames s' (?K (a_k_pt A ! l)) = Some t \<and> length t = 512"
    proof (intro allI impI)
      fix l :: nat assume l: "l < 4"
      have n: "?K (a_k_pt A ! l) \<noteq> ?P4" "?K (a_k_pt A ! l) \<noteq> ?P3" "?K (a_k_pt A ! l) \<noteq> ?P2" using bf(3) [OF l] by auto
      obtain u where "frames s (?K (a_k_pt A ! l)) = Some u" "length u = 512" using t l by (auto simp: boot_tables_def)
      then show "\<exists>t. frames s' (?K (a_k_pt A ! l)) = Some t \<and> length t = 512" using n t1(2) by (auto simp: s'_def)
    qed
    show "\<forall>q. q \<notin> ?K ` set (tl (arrays A)) \<longrightarrow> frames s' q = frames s1 q"
    proof (intro allI impI)
      fix q assume q: "q \<notin> ?K ` set (tl (arrays A))"
      have "a_k_pt A ! ?j \<in> set (a_k_pt A)" using j bf(1) by simp
      then have "q \<noteq> ?PT" using q by (auto simp: arrays_def)
      moreover have "q \<noteq> ?P4" "q \<noteq> ?P3" "q \<noteq> ?P2" using q by (auto simp: arrays_def)
      ultimately show "frames s' q = frames s1 q" using t q by (simp add: s'_def boot_tables_def)
    qed
  qed (use t in \<open>simp_all add: s'_def boot_tables_def\<close>)
  ultimately show ?thesis by blast
qed


lemma kernel_page_loop_ok:
  assumes "boot_tables ki A i s1 s" "i + n \<le> 2048" "boot_layout ki A s0"
  shows "\<exists>s'. kernel_page_loop ki A i n cp s = Some s' \<and> boot_tables ki A (i + n) s1 s'"
  using assms
proof (induction n arbitrary: i cp s)
  case (Suc n)
  then have "i < 2048" by simp
  from boot_page [OF Suc.prems(1) this Suc.prems(3), of cp] obtain s2 where
    2: "kernel_page ki A i cp s = Some s2" "boot_tables ki A (Suc i) s1 s2" by blast
  then show ?case using Suc.IH [OF 2(2) _ Suc.prems(3), of "cp + 0x1000"] Suc.prems(2) by auto
qed auto

lemma identity_loop_ok:
  assumes "frames s p = Some t" "i + n \<le> length t"
  shows "\<exists>t'. identity_loop p i n s = Some (s\<lparr>frames := (frames s)(p \<mapsto> t')\<rparr>) \<and> length t' = length t
     \<and> (\<forall>l < length t. t' ! l =
          (if i \<le> l \<and> l < i + n then paging_make_page (of_nat l * 0x40000000) (1 OR 2 OR 128) else t ! l))"
  using assms
proof (induction n arbitrary: i s t)
  case 0
  then show ?case by (intro exI [of _ t]) (auto simp: fun_upd_idem)
next
  case (Suc n)
  let ?e = "paging_make_page (of_nat i * 0x40000000) (1 OR 2 OR 128)"
  let ?s = "s\<lparr>frames := (frames s)(p \<mapsto> t[i := ?e])\<rparr>"
  have "Suc i + n \<le> length (t[i := ?e])" "frames ?s p = Some (t[i := ?e])" using Suc.prems by simp_all
  from Suc.IH [OF this(2,1)] obtain t' where t': "identity_loop p (Suc i) n ?s = Some (?s\<lparr>frames := (frames ?s)(p \<mapsto> t')\<rparr>)"
    "length t' = length t" "\<forall>l < length t. t' ! l =
          (if Suc i \<le> l \<and> l < Suc i + n then paging_make_page (of_nat l * 0x40000000) (1 OR 2 OR 128) else t[i := ?e] ! l)"
    unfolding length_list_update by blast
  have "wr_table p i ?e s = Some ?s" using Suc.prems by (simp add: wr_table_def)
  moreover have "t' ! l = (if i \<le> l \<and> l < i + Suc n then paging_make_page (of_nat l * 0x40000000) (1 OR 2 OR 128) else t ! l)"
    if "l < length t" for l
  proof (cases "l = i")
    case True
    then show ?thesis using t'(3) that by simp
  next
    case False
    then have "(i \<le> l \<and> l < i + Suc n) = (Suc i \<le> l \<and> l < Suc i + n)" by auto
    then show ?thesis using t'(3) that False by simp
  qed
  moreover have "?s\<lparr>frames := (frames ?s)(p \<mapsto> t')\<rparr> = s\<lparr>frames := (frames s)(p \<mapsto> t')\<rparr>" by simp
  ultimately show ?case using t'(1,2) by (intro exI [of _ t']) (simp del: fun_upd_apply)
qed

text \<open>The tables after the set-up: what the root, the two tables below it and the page directory hold.\<close>

lemma zeros_update: "(replicate n 0)[i := 0 :: u64] = replicate n 0"
  by (cases "i < n") (simp_all add: list_update_beyond list_eq_iff_nth_eq nth_list_update)

definition boot_state :: "kinfo \<Rightarrow> boot_arrays \<Rightarrow> nat \<Rightarrow> paging \<Rightarrow> paging \<Rightarrow> bool" where
  "boot_state ki A n s0 s \<longleftrightarrow>
     frames s (kernel_phys ki (a_k_pml4 A)) = Some ((replicate 512 0)[511 := paging_make_page (kernel_phys ki (a_k_pdpt A)) 3,
        256 := paging_make_page (kernel_phys ki (a_identity_map A)) 3])
     \<and> frames s (kernel_phys ki (a_k_pdpt A)) = Some ((replicate 512 0)[510 := paging_make_page (kernel_phys ki (a_k_pd A)) 3])
     \<and> (\<exists>t. frames s (kernel_phys ki (a_k_pd A)) = Some t \<and> length t = 512
          \<and> (\<forall>j < 512. t ! j = (if j * 512 < n then paging_make_page (kernel_phys ki (a_k_pt A ! j)) 3 else 0)))
     \<and> (\<exists>t. frames s (kernel_phys ki (a_identity_map A)) = Some t \<and> length t = 512
          \<and> (\<forall>j < 512. t ! j = (if j < 8 then paging_make_page (of_nat j * 0x40000000) (1 OR 2 OR 128) else 0)))
     \<and> (\<forall>p t. frames s p = Some t \<longrightarrow> length t = 512) \<and> (\<forall>p. frames s p = None \<longleftrightarrow> frames s0 p = None)
     \<and> k_current_pt s = a_k_pt A ! ((n - 1) div 512) \<and> cr3 s = kernel_phys ki (a_k_pml4 A)
     \<and> k_current_pd s = a_k_pd A \<and> k_current_pdpt s = a_k_pdpt A"

lemma setup_initial_ok:
  assumes ly: "boot_layout ki A s" and e: "kernel_memmap_entry (ki_memmap ki) = Some e"
    and n: "unat (num_kernel_pages e) = n" "0 < n" "n \<le> 2048"
  shows "\<exists>s'. paging_setup_initial_structures ki A s = Some s' \<and> boot_state ki A n s s'"
proof -
  let ?K = "kernel_phys ki"
  let ?P4 = "?K (a_k_pml4 A)" and ?P3 = "?K (a_k_pdpt A)" and ?P2 = "?K (a_k_pd A)" and ?IM = "?K (a_identity_map A)"
  let ?T0 = "?K (a_k_pt A ! 0)" and ?T1 = "?K (a_k_pt A ! 1)"
  note bf = boot_frames [OF ly]
  have mem: "a_identity_map A \<in> set (arrays A)" "a_k_pml4 A \<in> set (arrays A)" "a_k_pdpt A \<in> set (arrays A)" "a_k_pd A \<in> set (arrays A)"
    "\<And>j. j < 4 \<Longrightarrow> a_k_pt A ! j \<in> set (arrays A)" using bf(1) by (simp_all add: arrays_def)
  note fr = bf(6) [OF mem(1)] bf(6) [OF mem(2)] bf(6) [OF mem(3)] bf(6) [OF mem(4)] bf(6) [OF mem(5)]
  have len: "length t = 512" if "frames s p = Some t" for p t using ly that by (auto simp: boot_layout_def)
  obtain tc where tc: "frames s (cr3 s) = Some tc" "length tc = 512" using ly len by (auto simp: boot_layout_def)
  have im0: "frames s ?IM = Some (replicate 512 0)" using ly by (simp add: boot_layout_def)
  obtain ti where ti: "identity_loop ?IM 0 8 s = Some (s\<lparr>frames := (frames s)(?IM \<mapsto> ti)\<rparr>)" "length ti = 512"
    "\<forall>l < 512. ti ! l = (if l < 8 then paging_make_page (of_nat l * 0x40000000) (1 OR 2 OR 128) else 0)"
    using identity_loop_ok [OF im0, of 0 8] by auto
  have ix: "unat (ix_pml4 (paging_get_indexes (0xFFFF800000000000 + 0x240000000))) = 256"
    by (simp add: paging_get_indexes_def)
  let ?eim = "paging_make_page ?IM (1 OR 2)"
  let ?z = "replicate 512 (0 :: u64)"
  have d: "cr3 s \<noteq> ?IM" "?P4 \<noteq> cr3 s" "?P4 \<noteq> ?IM" "?P3 \<noteq> ?IM" "?P2 \<noteq> ?IM" "?P4 \<noteq> ?P3" "?P4 \<noteq> ?P2" "?P3 \<noteq> ?P2"
    "?P3 \<noteq> cr3 s" "?P2 \<noteq> cr3 s"
    using bf(4) by auto
  have dT: "?K (a_k_pt A ! j) \<notin> {cr3 s, ?IM, ?P4, ?P3, ?P2}" if "j < 4" for j using bf(3) [OF that] .
  define s1 where "s1 = s\<lparr>frames := (frames s)(?IM \<mapsto> ti, cr3 s \<mapsto> tc[256 := ?eim], ?P4 \<mapsto> ?z, ?P3 \<mapsto> ?z, ?P2 \<mapsto> ?z, ?T0 \<mapsto> ?z, ?T1 \<mapsto> ?z),
     k_current_pdpt := a_k_pdpt A, k_current_pd := a_k_pd A\<rparr>"
  have T01: "?T0 \<noteq> ?T1" "?T0 \<notin> {cr3 s, ?IM, ?P4, ?P3, ?P2}" "?T1 \<notin> {cr3 s, ?IM, ?P4, ?P3, ?P2}"
    using bf(2) [of 0 1] bf(3) [of 0] bf(3) [of 1] by simp_all
  have b0: "boot_tables ki A 0 s1 s1"
    unfolding boot_tables_def
  proof (intro conjI allI impI)
    show "frames s1 ?P4 = Some (?z[511 := if (0::nat) = 0 then 0 else paging_make_page ?P3 3])"
      "frames s1 ?P3 = Some (?z[510 := if (0::nat) = 0 then 0 else paging_make_page ?P2 3])"
      using d T01 by (simp_all add: s1_def zeros_update)
    show "\<exists>t. frames s1 ?P2 = Some t \<and> length t = 512 \<and>
         (\<forall>j<512. t ! j = (if j * 512 < 0 then paging_make_page (?K (a_k_pt A ! j)) 3 else 0))"
      using d T01 by (simp add: s1_def)
    show "\<exists>t. frames s1 (?K (a_k_pt A ! j)) = Some t \<and> length t = 512" if j: "j < 4" for j
      using dT [OF j] fr(5) [OF j] len by (auto simp: s1_def)
  qed auto
  from kernel_page_loop_ok [OF b0 _ ly, of n "?K 0xFFFFFFFF80000000"] n(3) obtain s2 where
    2: "kernel_page_loop ki A 0 n (?K 0xFFFFFFFF80000000) s1 = Some s2" "boot_tables ki A n s1 s2" by auto
  let ?t4 = "?z[511 := paging_make_page ?P3 3]"
  define s' where "s' = s2\<lparr>frames := (frames s2)(?P4 \<mapsto> ?t4[256 := ?eim]), cr3 := ?P4\<rparr>"
  have p4: "frames s2 ?P4 = Some ?t4" using 2(2) n(2) by (simp add: boot_tables_def)
  have l4: "length ?t4 = 512" by simp
  have "paging_setup_initial_structures ki A s = Some s'"
  proof -
    let ?f1 = "(frames s)(?IM \<mapsto> ti)" and ?f2 = "(frames s)(?IM \<mapsto> ti, cr3 s \<mapsto> tc[256 := ?eim])"
    have w: "wr_table (cr3 s) 256 ?eim (s\<lparr>frames := ?f1\<rparr>) = Some (s\<lparr>frames := ?f2\<rparr>)"
      using tc d(1) by (simp add: wr_table_def)
    have c: "clear_table p (s\<lparr>frames := f\<rparr>) = Some (s\<lparr>frames := f(p \<mapsto> ?z)\<rparr>)" if "f p \<noteq> None" for p and f
      using that by (auto simp: clear_table_def)
    have w4: "wr_table ?P4 256 ?eim s2 = Some (s2\<lparr>frames := (frames s2)(?P4 \<mapsto> ?t4[256 := ?eim])\<rparr>)"
      using p4 by (simp add: wr_table_def)
    have "frames s (?K (a_k_pt A ! 0)) \<noteq> None" "frames s (?K (a_k_pt A ! 1)) \<noteq> None" using fr(5) by simp_all
    then show ?thesis
      unfolding paging_setup_initial_structures_def Let_def ix
      using ti(1) w c fr(2-4) w4 2(1) n(1) e by (simp add: s1_def s'_def)
  qed
  moreover have "boot_state ki A n s s'"
    unfolding boot_state_def
  proof (intro conjI allI impI)
    have out: "frames s' q = frames s1 q" if "q \<notin> ?K ` set (tl (arrays A))" for q
      using 2(2) that by (auto simp: boot_tables_def s'_def arrays_def)
    have IM: "?IM \<notin> ?K ` set (tl (arrays A))"
      using ly by (auto simp: boot_layout_def arrays_def)
    have pd: "\<exists>t. frames s2 ?P2 = Some t \<and> length t = 512
        \<and> (\<forall>j < 512. t ! j = (if j * 512 < n then paging_make_page (?K (a_k_pt A ! j)) 3 else 0))"
      using 2(2) by (simp add: boot_tables_def)
    show "frames s' ?P4 = Some (?t4[256 := paging_make_page ?IM 3])" by (simp add: s'_def)
    show "frames s' ?P3 = Some (?z[510 := paging_make_page ?P2 3])"
      using 2(2) n(2) d by (simp add: boot_tables_def s'_def)
    show "\<exists>t. frames s' ?P2 = Some t \<and> length t = 512
        \<and> (\<forall>j < 512. t ! j = (if j * 512 < n then paging_make_page (?K (a_k_pt A ! j)) 3 else 0))"
      using pd d by (simp add: s'_def)
    show "\<exists>t. frames s' ?IM = Some t \<and> length t = 512
        \<and> (\<forall>j < 512. t ! j = (if j < 8 then paging_make_page (of_nat j * 0x40000000) (1 OR 2 OR 128) else 0))"
    proof -
      have "frames s' ?IM = Some ti" using out [OF IM] d T01 by (auto simp: s1_def)
      then show ?thesis using ti by simp
    qed
    have all: "frames s' q = None \<longleftrightarrow> frames s q = None" "frames s' q = Some t \<Longrightarrow> length t = 512" for q t
    proof -
      have *: "\<exists>t. frames s' q = Some t \<and> length t = 512" if "q \<in> ?K ` set (tl (arrays A))"
      proof -
        consider "q = ?P4" | "q = ?P3" | "q = ?P2" | a where "a \<in> set (a_k_pt A)" "q = ?K a"
          using \<open>q \<in> ?K ` set (tl (arrays A))\<close> by (auto simp: arrays_def)
        then show ?thesis
        proof cases
          case 4
          then obtain j where j: "j < 4" "q = ?K (a_k_pt A ! j)" using bf(1) by (metis in_set_conv_nth)
          then show ?thesis using 2(2) dT [OF j(1)] by (simp add: boot_tables_def s'_def)
        qed (use 2(2) n(2) d pd in \<open>auto simp: boot_tables_def s'_def\<close>)
      qed
      have q: "frames s q \<noteq> None" if "q \<in> ?K ` set (tl (arrays A))"
        using that bf(6) by (auto simp: arrays_def)
      show "frames s' q = None \<longleftrightarrow> frames s q = None" "frames s' q = Some t \<Longrightarrow> length t = 512"
        using * q out [of q] ti(2) tc len im0 fr by (cases "q \<in> ?K ` set (tl (arrays A))"; auto simp: s1_def split: if_splits)+
    qed
    show "frames s' q = None \<longleftrightarrow> frames s q = None" "frames s' q = Some t \<Longrightarrow> length t = 512" for q t using all by blast+
    show "k_current_pt s' = a_k_pt A ! ((n - 1) div 512)" using 2(2) n(2) by (simp add: boot_tables_def s'_def)
  qed (use 2(2) in \<open>simp_all add: boot_tables_def s'_def s1_def\<close>)
  ultimately show ?thesis by blast
qed


section \<open>The tree\<close>

definition boot_level :: "kinfo \<Rightarrow> boot_arrays \<Rightarrow> u64 \<Rightarrow> nat" where
  "boot_level ki A p = (if p = kernel_phys ki (a_k_pml4 A) then 4
     else if p = kernel_phys ki (a_k_pdpt A) \<or> p = kernel_phys ki (a_identity_map A) then 3
     else if p = kernel_phys ki (a_k_pd A) then 2 else 1)"

lemma make_page_entry:
  "q AND PAGE_ADDR_MASK = q \<Longrightarrow> present (paging_make_page q 3) \<and> \<not> large (paging_make_page q 3)
     \<and> paging_make_page q 3 AND PAGE_ADDR_MASK = q"
  by (simp add: make_page_present make_page_large make_page_addr)

lemma identity_entry:
  "present (paging_make_page q (1 OR 2 OR 128))" "large (paging_make_page q (1 OR 2 OR 128))"
  by (simp_all add: make_page_present make_page_large)

lemma boot_linked:
  assumes b: "boot_state ki A n s0 s" and ly: "boot_layout ki A s0" and n: "n \<le> 2048"
    and l: "1 < boot_level ki A p" "linked (frames s) p i q"
  shows "(p = kernel_phys ki (a_k_pml4 A) \<and> (i = 511 \<and> q = kernel_phys ki (a_k_pdpt A)
        \<or> i = 256 \<and> q = kernel_phys ki (a_identity_map A)))
     \<or> (p = kernel_phys ki (a_k_pdpt A) \<and> i = 510 \<and> q = kernel_phys ki (a_k_pd A))
     \<or> (p = kernel_phys ki (a_k_pd A) \<and> i < 4 \<and> q = kernel_phys ki (a_k_pt A ! i))"
proof -
  let ?K = "kernel_phys ki"
  note bf = boot_frames [OF ly]
  have mk: "a \<in> set (arrays A) \<Longrightarrow> paging_make_page (?K a) 3 AND PAGE_ADDR_MASK = ?K a" for a
    using bf(5) [of a] by (simp add: make_page_addr)
  have mem: "a_identity_map A \<in> set (arrays A)" "a_k_pml4 A \<in> set (arrays A)" "a_k_pdpt A \<in> set (arrays A)" "a_k_pd A \<in> set (arrays A)"
    "\<And>j. j < 4 \<Longrightarrow> a_k_pt A ! j \<in> set (arrays A)" using bf(1) by (simp_all add: arrays_def)
  obtain t where t: "frames s p = Some t" "i < length t" "present (t ! i)" "\<not> large (t ! i)" "t ! i AND PAGE_ADDR_MASK = q"
    using l(2) by (auto simp: linked_def)
  have len: "length t = 512" using b t(1) by (auto simp: boot_state_def)
  consider "p = ?K (a_k_pml4 A)" | "p = ?K (a_k_pdpt A)" | "p = ?K (a_identity_map A)" | "p = ?K (a_k_pd A)"
    using l(1) by (auto simp: boot_level_def split: if_splits)
  then show ?thesis
  proof cases
    case 1
    then have "t ! i = (if i = 256 then paging_make_page (?K (a_identity_map A)) 3
        else if i = 511 then paging_make_page (?K (a_k_pdpt A)) 3 else 0)"
      using b t(1,2) len by (auto simp: boot_state_def nth_list_update)
    then show ?thesis using 1 t(3,5) mk mem by (auto split: if_splits)
  next
    case 2
    then have "t ! i = (if i = 510 then paging_make_page (?K (a_k_pd A)) 3 else 0)"
      using b t(1,2) len by (auto simp: boot_state_def nth_list_update)
    then show ?thesis using 2 t(3,5) mk mem by (auto split: if_splits)
  next
    case 3
    then have "t ! i = (if i < 8 then paging_make_page (of_nat i * 0x40000000) (1 OR 2 OR 128) else 0)"
      using b t(1,2) len unfolding boot_state_def by auto
    then show ?thesis using t(3,4) identity_entry by (cases "i < 8") auto
  next
    case 4
    then have e: "t ! i = (if i * 512 < n then paging_make_page (?K (a_k_pt A ! i)) 3 else 0)"
      using b t(1,2) len unfolding boot_state_def by auto
    then have "i * 512 < n" using t(3) by (cases "i * 512 < n") auto
    then have i: "i < 4" using n by linarith
    then show ?thesis using 4 e t(3,5) mk [OF mem(5) [OF i]] by (auto split: if_splits)
  qed
qed

lemma boot_paging_ok:
  assumes b: "boot_state ki A n s0 s" and ly: "boot_layout ki A s0" and n: "n \<le> 2048"
    and base: "kernel_virtual_base s = 0xFFFFFFFF80000000"
  shows "paging_ok (boot_level ki A) s"
proof -
  let ?K = "kernel_phys ki" and ?lev = "boot_level ki A"
  note bf = boot_frames [OF ly] and lk = boot_linked [OF b ly n]
  have fr: "frames s (?K a) \<noteq> None" if "a \<in> set (arrays A)" for a using b bf(6) [OF that] by (auto simp: boot_state_def)
  have mem: "a_identity_map A \<in> set (arrays A)" "a_k_pml4 A \<in> set (arrays A)" "a_k_pdpt A \<in> set (arrays A)" "a_k_pd A \<in> set (arrays A)"
    "\<And>j. j < 4 \<Longrightarrow> a_k_pt A ! j \<in> set (arrays A)" using bf(1) by (simp_all add: arrays_def)
  have lev: "?lev (?K (a_k_pml4 A)) = 4" "?lev (?K (a_k_pdpt A)) = 3" "?lev (?K (a_identity_map A)) = 3" "?lev (?K (a_k_pd A)) = 2"
    "j < 4 \<Longrightarrow> ?lev (?K (a_k_pt A ! j)) = 1" for j
    using bf(3) [of j] bf(4) by (auto simp: boot_level_def)
  have "tree_ok ?lev (frames s)"
    unfolding tree_ok_def
  proof (intro conjI allI impI)
    show "length t = 512" if "frames s p = Some t" for p t using b that by (auto simp: boot_state_def)
  next
    fix p i q assume l: "linked (frames s) p i q" "1 < ?lev p"
    from lk [OF l(2,1)] show "frames s q \<noteq> None" using fr mem by (elim disjE conjE) simp_all
    from lk [OF l(2,1)] show "?lev q = ?lev p - 1" using lev by (elim disjE conjE) simp_all
  next
    fix p i p' i' q
    assume l: "linked (frames s) p i q" "linked (frames s) p' i' q" "1 < ?lev p" "1 < ?lev p'"
    have "p = p' \<and> i = i'" using lk [OF l(3,1)] lk [OF l(4,2)] lev bf(2) [of i i'] bf(3) [of i] bf(3) [of i'] bf(4) by auto
    then show "p = p'" "i = i'" by auto
  qed
  moreover have "addr_ok s p" if "frames s p \<noteq> None" for p
  proof -
    have "frames s0 p \<noteq> None" using b that by (auto simp: boot_state_def)
    then show ?thesis using ly by (auto simp: boot_layout_def addr_ok_def base)
  qed
  moreover have "cr3 s = ?K (a_k_pml4 A)" using b by (simp add: boot_state_def)
  moreover have "frames s (?K (a_k_pml4 A)) \<noteq> None" using fr mem by blast
  ultimately show ?thesis using lev unfolding paging_ok_def by simp
qed


section \<open>The allocator starts\<close>

text \<open>
  The end of the kernel lies in the page table of the last page that was entered, with m entries free
  behind it, and the first m pages of the allocation area hold no tables.
\<close>

definition boot_room :: "kinfo \<Rightarrow> nat \<Rightarrow> nat \<Rightarrow> paging \<Rightarrow> bool" where
  "boot_room ki n m s \<longleftrightarrow> 0xFFFFFFFF80000000 \<le> ki_kernel_end ki
     \<and> (unat (ki_kernel_end ki) - 0xFFFFFFFF80000000) div 4096 div 512 = (n - 1) div 512
     \<and> (unat (ki_kernel_end ki) - 0xFFFFFFFF80000000) div 4096 mod 512 + m \<le> 511
     \<and> (\<forall>i < m. frames s (ki_allocate_memory_start ki + of_nat i * PAGE_SIZE) = None
          \<and> (ki_allocate_memory_start ki + of_nat i * PAGE_SIZE) AND PAGE_ADDR_MASK
              = ki_allocate_memory_start ki + of_nat i * PAGE_SIZE
          \<and> ADDR_IDENTITY_MAP \<le> ki_allocate_memory_start ki + of_nat i * PAGE_SIZE + ADDR_IDENTITY_MAP
          \<and> ki_allocate_memory_start ki + of_nat i * PAGE_SIZE + ADDR_IDENTITY_MAP < 0xFFFFFFFF80000000)"

text \<open>What every step of paging_initalize keeps.\<close>

definition booted :: "kinfo \<Rightarrow> boot_arrays \<Rightarrow> nat \<Rightarrow> (u64 \<Rightarrow> nat) \<Rightarrow> paging \<Rightarrow> bool" where
  "booted ki A m lev s \<longleftrightarrow> paging_ok lev s \<and> room lev m s \<and> window s \<and> cr3 s = kernel_phys ki (a_k_pml4 A)
     \<and> frames s (kernel_phys ki (a_k_pml4 A)) = Some ((replicate 512 0)[511 := paging_make_page (kernel_phys ki (a_k_pdpt A)) 3,
        256 := paging_make_page (kernel_phys ki (a_identity_map A)) 3])
     \<and> (\<exists>t. frames s (kernel_phys ki (a_identity_map A)) = Some t \<and> length t = 512
          \<and> (\<forall>j < 512. t ! j = (if j < 8 then paging_make_page (of_nat j * 0x40000000) (1 OR 2 OR 128) else 0)))
     \<and> lev (kernel_phys ki (a_k_pml4 A)) = 4 \<and> lev (kernel_phys ki (a_identity_map A)) = 3
     \<and> k_current_pt s \<in> set (a_k_pt A) \<and> k_current_pd s = a_k_pd A
     \<and> ki_kernel_end ki \<le> kernel_virtual_memory_next s \<and> unat (kernel_virtual_memory_next s) + (m + 511) * 4096 < 2 ^ 64"

definition initial_state :: "kinfo \<Rightarrow> paging \<Rightarrow> paging" where
  "initial_state ki s = (let ix = paging_get_indexes (ki_kernel_end ki) in
     s\<lparr>kernel_virtual_base := ki_virtual_base ki, kernel_physical_base := ki_physical_base ki,
       kernel_virtual_allocation_base := ki_kernel_end ki,
       kernel_physical_allocation_base := ki_allocate_memory_start ki,
       kernel_virtual_memory_next := ki_kernel_end ki,
       kernel_physical_memory_next := ki_allocate_memory_start ki,
       kernel_heap_virtual_memory_next := 0x0000700000000000,
       kernel_heap_physical_memory_next := ki_usable_memory_start ki,
       k_current_pdpt_index := ix_pdpt ix, k_current_pd_index := ix_pd ix, k_current_pt_index := ix_pt ix,
       k_new_pt := 0xFFFF000000000000, k_new_pd := 0xFFFF000000000000\<rparr>)"

lemma initial_booted:
  assumes b: "boot_state ki A n s0 s" and ly: "boot_layout ki A s0" and n: "0 < n" "n \<le> 2048" and r: "boot_room ki n m s0"
  shows "booted ki A m (boot_level ki A) (initial_state ki s)"
proof -
  let ?K = "kernel_phys ki" and ?s = "initial_state ki s" and ?lev = "boot_level ki A"
  let ?x = "unat (ki_kernel_end ki) - 0xFFFFFFFF80000000"
  note bf = boot_frames [OF ly]
  have base: "ki_virtual_base ki = 0xFFFFFFFF80000000" using ly by (simp add: boot_layout_def)
  have bs: "boot_state ki A n s0 ?s" using b by (simp add: boot_state_def initial_state_def Let_def)
  have kb: "kernel_virtual_base ?s = 0xFFFFFFFF80000000" by (simp add: initial_state_def Let_def base)
  have ok: "paging_ok ?lev ?s" by (rule boot_paging_ok [OF bs ly n(2) kb])
  define j where "j = (n - 1) div 512"
  have j: "j < 4" using n by (simp add: j_def)
  have ke: "0xFFFFFFFF80000000 \<le> ki_kernel_end ki" "?x div 4096 div 512 = j" "?x div 4096 mod 512 + m \<le> 511"
    using r by (simp_all add: boot_room_def j_def)
  have u: "unat (ki_kernel_end ki) = 0xFFFFFFFF80000000 + ?x" using ke(1) by (simp add: word_le_nat_alt)
  have x: "?x div 4096 < 2048" using ke(2) j by linarith
  have path: "va_path (ki_kernel_end ki) = [511, 510, j, ?x div 4096 mod 512]" using kernel_path [OF u x] ke(2) by simp
  have mem: "a_k_pt A ! j \<in> set (a_k_pt A)" "a_k_pt A ! j \<in> set (arrays A)" "a_k_pd A \<in> set (arrays A)"
    using j bf(1) by (simp_all add: arrays_def)
  have rg: "0xFFFFFFFF80000000 \<le> a" "a < ki_kernel_end ki" if "a \<in> set (arrays A)" for a
    using ly that by (auto simp: boot_layout_def)
  have ptr: "k_current_pt ?s = a_k_pt A ! j" "k_current_pd ?s = a_k_pd A"
    using bs by (simp_all add: boot_state_def j_def)
  have cp: "cur_pt ?s = ?K (a_k_pt A ! j)"
  proof -
    have "\<not> a_k_pt A ! j < 0xFFFFFFFF80000000" using rg(1) [OF mem(2)] by (simp add: leD)
    then show ?thesis using rg(2) [OF mem(2)] base
      by (simp add: cur_pt_def ptr table_frame_def kernel_phys_def) (simp add: initial_state_def Let_def)
  qed
  have idx: "unat (k_current_pt_index ?s) = ?x div 4096 mod 512" "k_current_pd_index ?s \<noteq> 512"
  proof -
    have "unat (ix_pt (paging_get_indexes (ki_kernel_end ki))) = last (va_path (ki_kernel_end ki))"
      "unat (ix_pd (paging_get_indexes (ki_kernel_end ki))) = va_path (ki_kernel_end ki) ! 2"
      by (simp_all add: paging_get_indexes_def index_u16 va_path_def)
    then have "unat (k_current_pt_index ?s) = ?x div 4096 mod 512" "unat (k_current_pd_index ?s) = j"
      by (simp_all add: path initial_state_def Let_def)
    then show "unat (k_current_pt_index ?s) = ?x div 4096 mod 512" "k_current_pd_index ?s \<noteq> 512" using j by auto
  qed
  have lt: "?lev (?K (a_k_pt A ! j)) = 1" using bf(3) [OF j] by (auto simp: boot_level_def)
  have big: "unat (ki_kernel_end ki) < 0xFFFFFFFF80800000"
  proof -
    have "?x < 2048 * 4096" using x by linarith
    then show ?thesis using u by linarith
  qed
  have m: "m \<le> 511" using ke(3) by linarith
  have vm: "unat (ki_kernel_end ki) + (m + 511) * 4096 < 2 ^ 64" using big m by simp
  have ne: "a \<noteq> 0xFFFF000000000000" if "a \<in> set (arrays A)" for a using rg(1) [OF that] by auto
  have nx: "kernel_virtual_memory_next ?s = ki_kernel_end ki" "kernel_virtual_allocation_base ?s = ki_kernel_end ki"
    "kernel_physical_memory_next ?s = ki_allocate_memory_start ki" "kernel_physical_allocation_base ?s = ki_allocate_memory_start ki"
    "k_new_pt ?s = 0xFFFF000000000000" "k_new_pd ?s = 0xFFFF000000000000"
    by (simp_all add: initial_state_def Let_def)
  have fn: "frames ?s p = None \<longleftrightarrow> frames s0 p = None" for p using bs by (simp add: boot_state_def)
  have rm: "room ?lev m ?s"
    unfolding room_def cp idx nx kb ptr
  proof (intro conjI)
    show "frames ?s (?K (a_k_pt A ! j)) \<noteq> None" using fn bf(6) [OF mem(2)] by simp
    show "\<forall>i < m. frames ?s (ki_allocate_memory_start ki + of_nat i * PAGE_SIZE) = None
        \<and> addr_ok ?s (ki_allocate_memory_start ki + of_nat i * PAGE_SIZE)"
      using r by (simp add: boot_room_def fn addr_ok_def kb)
  qed (use ke idx lt vm mem ne in simp_all)
  have "window ?s"
  proof -
    have mk: "a \<in> set (arrays A) \<Longrightarrow> ?K a AND PAGE_ADDR_MASK = ?K a" for a by (rule bf(5))
    have jn: "j * 512 < n" using n by (simp add: j_def)
    have "linked (frames ?s) (?K (a_k_pml4 A)) 511 (?K (a_k_pdpt A))"
      "linked (frames ?s) (?K (a_k_pdpt A)) 510 (?K (a_k_pd A))"
      "linked (frames ?s) (?K (a_k_pd A)) j (?K (a_k_pt A ! j))"
      using bs make_page_entry [OF mk, of "a_k_pdpt A"] make_page_entry [OF mk, of "a_k_pd A"] make_page_entry [OF mk, of "a_k_pt A ! j"]
        mem(2) jn j unfolding boot_state_def linked_def by (auto simp: arrays_def)
    then have "reach (frames ?s) (?K (a_k_pml4 A)) [511, 510, j] (?K (a_k_pt A ! j))"
      unfolding reach_linked by auto
    then show ?thesis using bs by (simp add: window_def nx path cp idx boot_state_def)
  qed
  moreover have "?lev (?K (a_k_pml4 A)) = 4" "?lev (?K (a_identity_map A)) = 3"
    using bf(4) by (auto simp: boot_level_def)
  ultimately show ?thesis using ok rm bs mem ptr nx vm big by (simp add: booted_def boot_state_def)
qed


lemma booted_taken:
  assumes b: "booted ki A (Suc m) lev s"
  shows "\<exists>s' lev'. page_allocate_kernel_linear 1 s = Some (kernel_virtual_memory_next s, s') \<and> booted ki A m lev' s'
     \<and> kernel_virtual_memory_next s' = kernel_virtual_memory_next s + PAGE_SIZE \<and> taken lev s 1 lev' s'"
proof -
  let ?V = "kernel_virtual_memory_next s" and ?P4 = "kernel_phys ki (a_k_pml4 A)" and ?IM = "kernel_phys ki (a_identity_map A)"
  have ok: "paging_ok lev s" and r: "room lev (Suc m) s" and w: "window s" using b by (simp_all add: booted_def)
  obtain t e where al: "page_allocate_kernel_linear 1 s = Some (?V, after_alloc s (t[unat (k_current_pt_index s) := e]))"
    using alloc_one [OF ok r] by blast
  obtain s' lev' where s': "page_allocate_kernel 1 s = Some (?V, s')" "taken lev s 1 lev' s'" "room lev' m s'"
    using kernel_pages [OF ok _ w, of 1 m] r by auto
  have eq: "s' = after_alloc s (t[unat (k_current_pt_index s) := e])" using al s'(1) by (simp add: page_allocate_kernel_def)
  have p4: "frames s ?P4 \<noteq> None" "lev ?P4 = 4" "frames s ?IM \<noteq> None" "lev ?IM = 3" using b by (auto simp: booted_def)
  have "lev (cur_pt s) = 1" using r by (simp add: room_def)
  then have same: "frames s' ?P4 = frames s ?P4" "frames s' ?IM = frames s ?IM" "lev' ?P4 = 4" "lev' ?IM = 3"
    using s'(2) p4 by (auto simp: taken_def)
  have V: "kernel_virtual_memory_next s' = ?V + PAGE_SIZE" using s'(2) by (simp add: taken_def page_of_def)
  have "unat ?V + 4096 < 2 ^ 64" using b by (simp add: booted_def)
  then have u: "unat (?V + PAGE_SIZE) = unat ?V + 4096" using word_add_mono_nat [of ?V 4096] by simp
  have path: "va_path ?V = butlast (va_path ?V) @ [unat (k_current_pt_index s)]"
    using w va_path_snoc [of ?V] by (simp add: window_def)
  have "booted ki A m lev' s'"
    unfolding booted_def V same
  proof (intro conjI)
    show "paging_ok lev' s'" "window s'" using s'(2) by (simp_all add: taken_def)
    show "cr3 s' = ?P4" using s'(2) b by (simp add: taken_def keeps_def booted_def)
    show "ki_kernel_end ki \<le> ?V + PAGE_SIZE" using b u by (simp add: booted_def word_le_nat_alt)
    show "unat (?V + PAGE_SIZE) + (m + 511) * 4096 < 2 ^ 64" using b u by (simp add: booted_def)
    show "k_current_pt s' \<in> set (a_k_pt A)" "k_current_pd s' = a_k_pd A"
      using b by (simp_all add: booted_def eq after_alloc_def)
  qed (use b s'(3) in \<open>simp_all add: booted_def\<close>)
  then show ?thesis using s'(1,2) V by (auto simp: page_allocate_kernel_def)
qed

lemma booted_new:
  assumes "booted ki A m lev s"
  shows "v \<notin> set (a_k_pt A) \<Longrightarrow> booted ki A m lev (s\<lparr>k_new_pt := v\<rparr>)" "w \<noteq> a_k_pd A \<Longrightarrow> booted ki A m lev (s\<lparr>k_new_pd := w\<rparr>)"
proof -
  have *: "paging_ok lev (s\<lparr>k_new_pt := v\<rparr>) = paging_ok lev s" "window (s\<lparr>k_new_pt := v\<rparr>) = window s"
    "paging_ok lev (s\<lparr>k_new_pd := w\<rparr>) = paging_ok lev s" "window (s\<lparr>k_new_pd := w\<rparr>) = window s"
    by (simp_all add: paging_ok_def window_def addr_ok_def cur_pt_def table_frame_def)
  have cp: "cur_pt (s\<lparr>k_new_pt := v\<rparr>) = cur_pt s" "cur_pt (s\<lparr>k_new_pd := w\<rparr>) = cur_pt s"
    by (simp_all add: cur_pt_def table_frame_def)
  have **: "room lev m s \<Longrightarrow> k_current_pt s \<noteq> v \<Longrightarrow> room lev m (s\<lparr>k_new_pt := v\<rparr>)"
    "room lev m s \<Longrightarrow> k_current_pd s \<noteq> w \<Longrightarrow> room lev m (s\<lparr>k_new_pd := w\<rparr>)"
    unfolding room_def cp by (simp_all add: addr_ok_def)
  show "v \<notin> set (a_k_pt A) \<Longrightarrow> booted ki A m lev (s\<lparr>k_new_pt := v\<rparr>)" "w \<noteq> a_k_pd A \<Longrightarrow> booted ki A m lev (s\<lparr>k_new_pd := w\<rparr>)"
    using assms ** by (auto simp: booted_def *)
qed

text \<open>Writes to a page taken, and the walks of the identity map and of addresses no root entry covers.\<close>

lemma booted_write:
  assumes b: "booted ki A m lev s" and p: "plain_frame s q" "lev q = 1" "frames s q = Some t"
  shows "booted ki A m lev (s\<lparr>frames := (frames s)(q \<mapsto> t[i := e])\<rparr>)" (is "booted _ _ _ _ ?s")
proof -
  have ok: "paging_ok lev s" using b by (simp add: booted_def)
  have w: "wrote lev {q} s ?s" by (rule plain_write [OF ok p]) simp
  have "q \<noteq> kernel_phys ki (a_k_pml4 A)" "q \<noteq> kernel_phys ki (a_identity_map A)" using p(2) b by (auto simp: booted_def)
  then show ?thesis using b w by (auto simp: booted_def wrote_def)
qed

lemma booted_root:
  assumes b: "booted ki A m lev s" and i: "i < 512"
  shows "reach (frames s) (cr3 s) (i # is) q \<Longrightarrow> i = 256 \<or> i = 511"
    "\<not> reach (frames s) (cr3 s) (256 # j # is) q"
    "i \<noteq> 256 \<Longrightarrow> i \<noteq> 511 \<Longrightarrow> trans_walk (frames s) (i # is) (cr3 s) = Some Unmapped"
    "j < 8 \<Longrightarrow> is \<noteq> [] \<Longrightarrow> trans_walk (frames s) (256 # j # is) (cr3 s) = Some (Page (of_nat j * 0x40000000) (length is))"
proof -
  let ?im = "kernel_phys ki (a_identity_map A)"
  define t where "t = (replicate 512 0)[511 := paging_make_page (kernel_phys ki (a_k_pdpt A)) 3, 256 := paging_make_page ?im 3]"
  have t: "frames s (cr3 s) = Some t" using b by (simp add: booted_def t_def)
  have nth: "t ! i = (if i = 256 then paging_make_page ?im 3 else if i = 511 then paging_make_page (kernel_phys ki (a_k_pdpt A)) 3 else 0)"
    if "i < 512" for i using that by (simp add: t_def nth_list_update)
  have len: "length t = 512" by (simp add: t_def)
  obtain u where u: "frames s ?im = Some u" "length u = 512"
    "\<forall>j < 512. u ! j = (if j < 8 then paging_make_page (of_nat j * 0x40000000) (1 OR 2 OR 128) else 0)"
    using b by (auto simp: booted_def)
  have "addr_ok s ?im" using b u(1) by (auto simp: booted_def paging_ok_def)
  then have e: "present (t ! 256)" "\<not> large (t ! 256)" "t ! 256 AND PAGE_ADDR_MASK = ?im"
    using make_page_entry [of ?im] nth [of 256] by (simp_all add: addr_ok_def)
  show "i = 256 \<or> i = 511" if "reach (frames s) (cr3 s) (i # is) q" using that t nth [OF i] by (auto split: if_splits)
  show "\<not> reach (frames s) (cr3 s) (256 # j # is) q"
  proof
    assume "reach (frames s) (cr3 s) (256 # j # is) q"
    then obtain w where w: "frames s ?im = Some w" "j < length w" "present (w ! j)" "\<not> large (w ! j)" using t e(3) by auto
    then have "j < 512" "present (u ! j)" "\<not> large (u ! j)" using u(1,2) by simp_all
    then show False using u(3) identity_entry by (cases "j < 8") simp_all
  qed
  show "trans_walk (frames s) (i # is) (cr3 s) = Some Unmapped" if "i \<noteq> 256" "i \<noteq> 511"
    using that t nth [OF i] i len by simp
  show "trans_walk (frames s) (256 # j # is) (cr3 s) = Some (Page (of_nat j * 0x40000000) (length is))" if "j < 8" "is \<noteq> []"
  proof -
    have "j \<in> {0, 1, 2, 3, 4, 5, 6, 7}" using that by auto
    then have "(of_nat j * 0x40000000 :: u64) AND PAGE_ADDR_MASK = of_nat j * 0x40000000" by (elim insertE emptyE) simp_all
    then show ?thesis using that t e u len identity_entry by (simp add: make_page_addr)
  qed
qed

text \<open>What the kernel's page tables look like when paging_initalize returns.\<close>

definition boot_memory :: "(u64 \<Rightarrow> nat) \<Rightarrow> nat \<Rightarrow> paging \<Rightarrow> bool" where
  "boot_memory lev m s \<longleftrightarrow> paging_ok lev s \<and> room lev m s \<and> window s
     \<and> (\<forall>v. hd (va_path v) = 256 \<longrightarrow> va_path v ! 1 < 8 \<longrightarrow>
          mmu_translate v s = Some (Page (of_nat (va_path v ! 1) * 0x40000000) 2))
     \<and> mmu_translate 0x00001122BADA0000 s = Some (Page 0x90000000 0)
     \<and> (\<forall>v. hd (va_path v) \<noteq> 256 \<longrightarrow> hd (va_path v) \<noteq> 511 \<longrightarrow> va_path v \<noteq> va_path 0x00001122BADA0000 \<longrightarrow>
          mmu_translate v s = Some Unmapped)
     \<and> (\<forall>is. length is = 3 \<longrightarrow> reach (frames s) (cr3 s) is (cur_pt s) \<longrightarrow> hd is = 511)"

lemma booted_page_map:
  assumes b: "booted ki A (m + 3) lev s"
  shows "\<exists>s' lev'. page_map 0x00001122BADA0000 0x0000000090000000 s = Some (0x00001122BADA0000, s') \<and> boot_memory lev' m s'"
proof -
  let ?v = "0x00001122BADA0000 :: u64"
  have ok: "paging_ok lev s" and r: "room lev (m + 3) s" and w: "window s"
    and V: "unat (kernel_virtual_memory_next s) + (m + 3 + 511) * 4096 < 2 ^ 64" using b by (simp_all add: booted_def)
  have path: "va_path ?v = [34, 138, 470, 416]" by (simp add: va_path_def)
  have um: "mmu_translate ?v s = Some Unmapped" unfolding mmu_translate_def path by (rule booted_root(3) [OF b]) simp_all
  then have sm: "small_page ?v s" by (simp add: small_page_def small_walk_def mmu_translate_def)
  have K: "frames s (cur_pt s) \<noteq> None" using r by (simp add: room_def)
  have b0: "bit (PAGE_FLAG_PRESENT OR PAGE_FLAG_READ_WRITE :: u64) 0" by simp
  obtain s' lev' where s': "page_map ?v 0x0000000090000000 s = Some (?v, s')" "paging_ok lev' s'"
      "mmu_translate ?v s' = Some (Page 0x90000000 0)"
      "\<forall>v'. va_path v' \<noteq> va_path ?v \<longrightarrow> \<not> window_page s s' v' \<longrightarrow> mmu_translate v' s' = mmu_translate v' s"
      "room lev' m s'" "same_walks s s'"
    using map_then_translate [OF ok r b0 _ sm, of 0 "0x90000000"] unfolding page_map_def by auto
  have hd3: "hd is = 511" if l3: "length is = 3" and rc: "reach (frames s) (cr3 s) is (cur_pt s)" for "is"
  proof -
    obtain i j k where is3: "is = [i, j, k]"
      using l3 by (auto simp: numeral_3_eq_3 length_Suc_conv)
    obtain t where t: "frames s (cr3 s) = Some t" "i < length t" using rc is3 by auto
    have "i < 512" using t tree_okD(1) [of lev "frames s"] ok by (auto simp: paging_ok_def)
    then have "i = 256 \<or> i = 511" using booted_root(1) [OF b _ rc [unfolded is3]] by blast
    moreover have "i \<noteq> 256" using booted_root(2) [OF b \<open>i < 512\<close>] rc is3 by blast
    ultimately show ?thesis by (simp add: is3)
  qed
  have nw: "\<not> window_page s s' v" if "hd (va_path v) \<noteq> 511" for v
  proof
    assume "window_page s s' v"
    then have "reach (frames s) (cr3 s) (butlast (va_path v)) (cur_pt s)" by (simp add: window_page_def allotted_def)
    then have "hd (butlast (va_path v)) = 511" by (intro hd3 butlast_path_len)
    then show False using that by (simp add: va_path_def)
  qed
  have wd: "window s'" by (rule window_kept [OF w s'(6) K s'(5)]) (use V in simp)
  have id: "mmu_translate v s' = Some (Page (of_nat (va_path v ! 1) * 0x40000000) 2)" if "hd (va_path v) = 256" "va_path v ! 1 < 8" for v
  proof -
    have p: "va_path v = 256 # va_path v ! 1 # [va_path v ! 2, va_path v ! 3]" using that(1) by (simp add: va_path_def)
    have "va_path v \<noteq> va_path ?v" using that(1) unfolding path by auto
    then have "mmu_translate v s' = mmu_translate v s" using s'(4) nw [of v] that(1) by simp
    also have "\<dots> = Some (Page (of_nat (va_path v ! 1) * 0x40000000) 2)"
      unfolding mmu_translate_def by (subst p) (use booted_root(4) [OF b _ that(2), of 0 "[va_path v ! 2, va_path v ! 3]"] in simp)
    finally show ?thesis .
  qed
  have un: "mmu_translate v s' = Some Unmapped" if "hd (va_path v) \<noteq> 256" "hd (va_path v) \<noteq> 511" "va_path v \<noteq> va_path ?v" for v
  proof -
    have p: "va_path v = hd (va_path v) # tl (va_path v)" by (simp add: va_path_def)
    have h: "hd (va_path v) < 512" using va_path_range [of v] by (simp add: va_path_def)
    have "mmu_translate v s' = mmu_translate v s" using s'(4) nw [of v] that by auto
    also have "\<dots> = Some Unmapped"
      unfolding mmu_translate_def by (subst p) (rule booted_root(3) [OF b h that(1,2)])
    finally show ?thesis .
  qed
  have "hd is = 511" if "length is = 3" "reach (frames s') (cr3 s') is (cur_pt s')" for "is"
    using hd3 [OF that(1)] that s'(6) K by (simp add: same_walks_def)
  then have "boot_memory lev' m s'" using s'(2,3,5) wd id un by (simp add: boot_memory_def)
  then show ?thesis using s'(1) by blast
qed


lemma paging_initalize_steps:
  "paging_initalize ki s = do {
     (v, s) \<leftarrow> page_allocate_kernel_linear 1 (initial_state ki s);
     (w, s) \<leftarrow> page_allocate_kernel_linear 1 (s\<lparr>k_new_pt := v\<rparr>);
     (c, s) \<leftarrow> page_allocate_kernel 1 (s\<lparr>k_new_pd := w\<rparr>);
     s \<leftarrow> wr_entry s c 0 0x00001111BADAB000;
     e \<leftarrow> rd_entry s c 0;
     (if e \<noteq> 0x00001111BADAB000 then None else do {
        (c, s) \<leftarrow> page_map 0x00001122BADA0000 0x0000000090000000 s;
        Some s }) }"
  unfolding paging_initalize_def initial_state_def Let_def ..

lemma boot_tables_built:
  assumes "boot_layout ki A s" "kernel_memmap_entry (ki_memmap ki) = Some e"
    and "unat (num_kernel_pages e) = n" "0 < n" "n \<le> 2048" "boot_room ki n (m + 6) s"
  shows "\<exists>s1 s' lev. paging_setup_initial_structures ki A s = Some s1 \<and> paging_initalize ki s1 = Some s'
     \<and> boot_memory lev m s'"
proof -
  obtain s1 where s1: "paging_setup_initial_structures ki A s = Some s1" "boot_state ki A n s s1"
    using setup_initial_ok [OF assms(1-5)] by blast
  have arr: "v \<notin> set (a_k_pt A)" "v \<noteq> a_k_pd A" if "ki_kernel_end ki \<le> v" for v
    using that assms(1) by (auto simp: boot_layout_def arrays_def)
  have nums: "m + 6 = Suc (m + 5)" "m + 5 = Suc (m + 4)" "m + 4 = Suc (m + 3)" by simp_all
  let ?s0 = "initial_state ki s1" and ?l0 = "boot_level ki A"
  have b0: "booted ki A (Suc (m + 5)) ?l0 ?s0"
    using initial_booted [OF s1(2) assms(1,4,5,6)] by (simp only: nums(1))
  let ?V = "kernel_virtual_memory_next ?s0"
  obtain a1 l1 where a1: "page_allocate_kernel_linear 1 ?s0 = Some (?V, a1)" "booted ki A (m + 5) l1 a1"
    using booted_taken [OF b0] by blast
  have V: "ki_kernel_end ki \<le> ?V" using b0 by (simp add: booted_def)
  let ?a1 = "a1\<lparr>k_new_pt := ?V\<rparr>"
  have b1: "booted ki A (Suc (m + 4)) l1 ?a1" using booted_new(1) [OF a1(2) arr(1) [OF V]] by (simp only: nums(2))
  let ?W = "kernel_virtual_memory_next ?a1"
  obtain a2 l2 where a2: "page_allocate_kernel_linear 1 ?a1 = Some (?W, a2)" "booted ki A (m + 4) l2 a2"
    using booted_taken [OF b1] by blast
  have W: "ki_kernel_end ki \<le> ?W" using b1 by (simp add: booted_def)
  let ?a2 = "a2\<lparr>k_new_pd := ?W\<rparr>"
  have b2: "booted ki A (Suc (m + 3)) l2 ?a2" using booted_new(2) [OF a2(2) arr(2) [OF W]] by (simp only: nums(3))
  let ?C = "kernel_virtual_memory_next ?a2" and ?q = "kernel_physical_memory_next ?a2"
  obtain a3 l3 where a3: "page_allocate_kernel_linear 1 ?a2 = Some (?C, a3)" "booted ki A (m + 3) l3 a3" "taken l2 ?a2 1 l3 a3"
    using booted_taken [OF b2] by blast
  have q: "plain_frame a3 ?q" "l3 ?q = 1" "frames a3 ?q = Some (replicate 512 0)" using a3(3) by (simp_all add: taken_def)
  have r2: "room l2 (Suc (m + 3)) ?a2" using b2 by (simp add: booted_def)
  have tf: "table_frame a3 ?C = ?q"
    using window_linear [OF r2, of 0] a3(3) by (simp add: taken_def keeps_def)
  let ?a4 = "a3\<lparr>frames := (frames a3)(?q \<mapsto> (replicate 512 0)[0 := 0x00001111BADAB000])\<rparr>"
  have wr: "wr_entry a3 ?C 0 0x00001111BADAB000 = Some ?a4" using q(3) tf by (simp add: wr_entry_def)
  have "table_frame ?a4 v = table_frame a3 v" for v by (simp add: table_frame_def)
  then have "table_frame ?a4 ?C = ?q" using tf by simp
  then have rd: "rd_entry ?a4 ?C 0 = Some 0x00001111BADAB000" unfolding rd_entry_def by (simp add: nth_list_update)
  obtain s' lev where s': "page_map 0x00001122BADA0000 0x0000000090000000 ?a4 = Some (0x00001122BADA0000, s')" "boot_memory lev m s'"
    using booted_page_map [OF booted_write [OF a3(2) q]] by blast
  have "paging_initalize ki s1 = Some s'"
    unfolding paging_initalize_steps page_allocate_kernel_def using a1(1) a2(1) a3(1) wr rd s'(1) by simp
  with s1(1) s'(2) show ?thesis by blast
qed





section \<open>A boot\<close>

text \<open>
  A kernel of 2.5 MiB in a memory map entry of 3 MiB, at the physical address 0x40000000, with the
  loader's root table at 0x7FF00000; the kernel's pages are taken from 0x100000 on.
\<close>

definition demo_kinfo :: kinfo where
  "demo_kinfo = \<lparr>ki_physical_base = 0x40000000, ki_virtual_base = 0xFFFFFFFF80000000,
     ki_allocate_memory_start = 0x100000, ki_usable_memory_start = 0x80000000, ki_kernel_end = 0xFFFFFFFF80280000,
     ki_memmap = [\<lparr>mm_base = 0x100000, mm_size = 0x8000000, mm_type = 0\<rparr>,
       \<lparr>mm_base = 0x40000000, mm_size = 0x300000, mm_type = LIMINE_MEMMAP_KERNEL_AND_MODULES\<rparr>,
       \<lparr>mm_base = 0x80000000, mm_size = 0x40000000, mm_type = 0\<rparr>]\<rparr>"

definition demo_arrays :: boot_arrays where
  "demo_arrays = \<lparr>a_identity_map = 0xFFFFFFFF80200000, a_k_pml4 = 0xFFFFFFFF80201000, a_k_pdpt = 0xFFFFFFFF80202000,
     a_k_pd = 0xFFFFFFFF80203000,
     a_k_pt = [0xFFFFFFFF80204000, 0xFFFFFFFF80205000, 0xFFFFFFFF80206000, 0xFFFFFFFF80207000]\<rparr>"

definition demo_frames :: "u64 list" where
  "demo_frames = [0x7FF00000, 0x40200000, 0x40201000, 0x40202000, 0x40203000, 0x40204000, 0x40205000, 0x40206000, 0x40207000]"

definition demo_loader :: paging where
  "demo_loader = \<lparr>
     frames = (\<lambda>p. if p \<in> set demo_frames then Some (replicate 512 0) else None),
     cr3 = 0x7FF00000, int_on = False,
     kernel_virtual_base = 0, kernel_physical_base = 0, kernel_virtual_allocation_base = 0, kernel_physical_allocation_base = 0,
     kernel_virtual_memory_next = 0, kernel_physical_memory_next = 0,
     kernel_heap_virtual_memory_next = 0, kernel_heap_physical_memory_next = 0,
     k_current_pdpt_index = 0, k_current_pd_index = 0, k_current_pt_index = 0,
     k_current_pdpt = 0, k_current_pd = 0, k_current_pt = 0, k_new_pt = 0, k_new_pd = 0\<rparr>"

lemma demo_layout: "boot_layout demo_kinfo demo_arrays demo_loader"
  unfolding boot_layout_def
proof (intro conjI)
  show "\<forall>p t. frames demo_loader p = Some t \<longrightarrow> length t = 512 \<and> p AND PAGE_ADDR_MASK = p
          \<and> ADDR_IDENTITY_MAP \<le> p + ADDR_IDENTITY_MAP \<and> p + ADDR_IDENTITY_MAP < 0xFFFFFFFF80000000"
    by (auto simp: demo_loader_def demo_frames_def split: if_splits)
qed (auto simp: demo_loader_def demo_frames_def demo_kinfo_def demo_arrays_def arrays_def kernel_phys_def)

lemma demo_pages: "kernel_memmap_entry (ki_memmap demo_kinfo) = Some \<lparr>mm_base = 0x40000000, mm_size = 0x300000, mm_type = 6\<rparr>"
  "unat (num_kernel_pages \<lparr>mm_base = 0x40000000, mm_size = 0x300000, mm_type = 6\<rparr>) = 768"
  by (simp_all add: kernel_memmap_entry_def demo_kinfo_def num_kernel_pages_def)

definition demo_free :: "nat \<Rightarrow> bool" where
  "demo_free i = (let p = 0x100000 + of_nat i * PAGE_SIZE :: u64 in p \<notin> set demo_frames \<and> p AND PAGE_ADDR_MASK = p
     \<and> ADDR_IDENTITY_MAP \<le> p + ADDR_IDENTITY_MAP \<and> p + ADDR_IDENTITY_MAP < 0xFFFFFFFF80000000)"

lemma demo_boot_room: "boot_room demo_kinfo 768 106 demo_loader"
proof -
  have "list_all demo_free [0..<106]" by code_simp
  then have "\<forall>i < 106. demo_free i" unfolding list_all_iff by auto
  then show ?thesis by (simp add: boot_room_def demo_free_def Let_def) (simp add: demo_kinfo_def demo_loader_def)
qed

definition demo_paging :: paging where
  "demo_paging = the (do { s \<leftarrow> paging_setup_initial_structures demo_kinfo demo_arrays demo_loader; paging_initalize demo_kinfo s })"


text \<open>The memory of the booted kernel, for the examples of the other theories.\<close>

lemma demo_memory: "\<exists>lev. boot_memory lev 100 demo_paging"
proof -
  obtain s1 s' lev where x: "paging_setup_initial_structures demo_kinfo demo_arrays demo_loader = Some s1"
    "paging_initalize demo_kinfo s1 = Some s'" "boot_memory lev 100 s'"
    using boot_tables_built [OF demo_layout demo_pages, of 100] demo_boot_room by auto
  then have "demo_paging = s'" by (simp add: demo_paging_def)
  with x show ?thesis by blast
qed

lemma demo_user_page:
  assumes "hd (va_path v) \<noteq> 256" "hd (va_path v) \<noteq> 511" "va_path v \<noteq> va_path 0x00001122BADA0000"
  shows "user_page v demo_paging"
proof -
  obtain lev where lev: "boot_memory lev 100 demo_paging" using demo_memory by blast
  then have "mmu_translate v demo_paging = Some Unmapped" using assms by (simp add: boot_memory_def)
  then have "small_page v demo_paging" by (simp add: small_page_def small_walk_def mmu_translate_def)
  moreover have "hd (butlast (va_path v)) \<noteq> 511" using assms(2) by (simp add: va_path_def)
  ultimately show ?thesis using lev butlast_path_len [of v] by (auto simp: user_page_def boot_memory_def)
qed

lemma page_map_translates_witness:
  "\<exists>s'. paging_page_map_to_pml4 0 0x90000000 0x0000222233334000 3 demo_paging = Some (0x0000222233334000, s')
     \<and> paging_virtual_to_physical 0x0000222233334000 s' = Some 0x90000000
     \<and> mmu_translate 0xFFFF800040000000 s' = Some (Page 0x40000000 2)"
proof -
  obtain lev where lev: "boot_memory lev 100 demo_paging" using demo_memory by blast
  have b: "bit (3 :: u64) 0" by simp
  have r: "paging_ok lev demo_paging" "room lev 3 demo_paging"
    using lev room_mono [of lev 100 demo_paging 3] by (simp_all add: boot_memory_def)
  let ?v = "0x0000222233334000 :: u64" and ?i = "0xFFFF800040000000 :: u64"
  have "va_path ?v = [68, 136, 409, 308]" "va_path ?i = [256, 1, 0, 0]" by (simp_all add: va_path_def)
  note p = this
  have "user_page ?v demo_paging" by (rule demo_user_page) (simp_all add: va_path_def)
  then have sm: "small_page ?v demo_paging" by (simp add: user_page_def)
  have id: "mmu_translate ?i demo_paging = Some (Page 0x40000000 2)" using lev p(2) by (auto simp: boot_memory_def)
  have nw: "\<not> window_page demo_paging s' ?i" for s'
  proof
    assume "window_page demo_paging s' ?i"
    then have "reach (frames demo_paging) (cr3 demo_paging) [256, 1, 0] (cur_pt demo_paging)"
      by (simp add: window_page_def allotted_def p(2))
    then have "hd [256, 1, 0 :: nat] = 511" using lev unfolding boot_memory_def by (metis length_Cons list.size(3) numeral_3_eq_3)
    then show False by simp
  qed
  show ?thesis
    using page_map_translates [OF r b _ sm, of 0 "0x90000000"] id nw p by auto
qed

end
