(* ===== verification/Process.thy ===== *)
theory Process
  imports AvsList Paging
begin

text \<open>
  Processes, their file descriptors and the cooperative scheduler
  (kernel/task/process.c, include/process.h), and the system's descriptor table
  (the end of kernel/fs/vfs.c). The process records live in an object store; the
  process list is an AVS list whose data pointers are their addresses, in the
  list package's own store. A section array is the list of its elements. A C
  string held in an array is the list of its characters before the NUL;
  copy_str is None where the array is too short. Console and serial output has
  no effect on the state and is left out; a NULL dereference is None.
\<close>

section \<open>Data\<close>

abbreviation (input) PROCESS_STATUS_IN_SETUP :: u8 where "PROCESS_STATUS_IN_SETUP \<equiv> 0"
abbreviation (input) PROCESS_STATUS_ACTIVE :: u8 where "PROCESS_STATUS_ACTIVE \<equiv> 1"
abbreviation (input) PROCESS_STATUS_INACTIVE :: u8 where "PROCESS_STATUS_INACTIVE \<equiv> 2"
abbreviation (input) PROCESS_STATUS_WAITING :: u8 where "PROCESS_STATUS_WAITING \<equiv> 3"
abbreviation (input) PROCESS_STATUS_SLEEP :: u8 where "PROCESS_STATUS_SLEEP \<equiv> 4"
abbreviation (input) PROCESS_STATUS_WAITING_FOR_DEATH :: u8 where "PROCESS_STATUS_WAITING_FOR_DEATH \<equiv> 5"
abbreviation (input) PROCESS_STATUS_DEAD :: u8 where "PROCESS_STATUS_DEAD \<equiv> 6"

abbreviation (input) PROCESS_MAX_FDS :: nat where "PROCESS_MAX_FDS \<equiv> 25"
abbreviation (input) VFS_FD_MAX :: nat where "VFS_FD_MAX \<equiv> 255"
abbreviation (input) PROCESS_DEFAULT_STACK_SIZE :: u32 where "PROCESS_DEFAULT_STACK_SIZE \<equiv> 65536"
abbreviation (input) PROCESS_DEFAULT_STACK_PAGES :: nat where "PROCESS_DEFAULT_STACK_PAGES \<equiv> 16"

record registers =
  rax :: u64
  rbx :: u64
  rcx :: u64
  rdx :: u64
  rsi :: u64
  rdi :: u64
  rbp :: u64
  r8 :: u64
  r9 :: u64
  r10 :: u64
  r11 :: u64
  r12 :: u64
  r13 :: u64
  r14 :: u64
  r15 :: u64
  interrupt_no :: u64
  error_no :: u64
  rip :: u64
  cs :: u64
  rflags :: u64
  rsp :: u64
  ss :: u64

definition zero_registers :: registers where
  "zero_registers = \<lparr>rax = 0, rbx = 0, rcx = 0, rdx = 0, rsi = 0, rdi = 0, rbp = 0, r8 = 0, r9 = 0,
     r10 = 0, r11 = 0, r12 = 0, r13 = 0, r14 = 0, r15 = 0, interrupt_no = 0, error_no = 0, rip = 0,
     cs = 0, rflags = 0, rsp = 0, ss = 0\<rparr>"

record process_exec_section =
  sec_phys :: u64
  sec_virt :: u64
  sec_kern_virt :: u64

record fd_process =
  pfd_id :: int
  pfd_in_use :: bool
  pfd_was_used :: bool
  pfd_close_on_exec :: bool
  pfd_pos :: u64
  pfd_vfs_fd :: int

record process_data =
  pid :: u32
  pid_parent :: u32
  status :: u8
  exit_code :: int
  pname :: string
  pcontext :: registers
  first_run :: bool
  wait_for_pid :: u32
  ptype :: int
  perrno :: int
  file_descriptors :: "fd_process list"
  proc_stack_kvirt :: u64
  proc_stack_virt :: u64
  proc_stack_phys :: u64
  stack_size :: u32
  argc :: int
  argv :: u64
  working_dir :: string
  entry :: u64
  ppath :: string
  exec_size :: u32
  has_own_addr_space :: bool
  text_section_count :: u16
  text_sections :: "process_exec_section list"
  text_secton_virt_start :: u64
  data_section_count :: u16
  data_sections :: "process_exec_section list"
  data_section_virt_start :: u64
  heap_page_count :: u16
  heap_pages :: "process_exec_section list"
  heap_top :: u64
  heap_top_allocated :: u64
  rela_sym_index :: u64
  dyn_sym_index :: u64
  num_dyn_syms :: u16
  binary_format_data :: u64

text \<open>An entry of the system's table of open files.\<close>

record vfs_fd =
  vfd_id :: int
  vfd_process_fd :: int
  vfd_ref_count :: int
  vfd_in_use :: bool
  vfd_path :: string
  vfd_inode_id :: u64
  vfd_close_on_exec :: bool
  vfd_read_only :: bool
  vfd_write_only :: bool

text \<open>global_proc_data, with the stores its pointers lead to, the page tables and global_fds.\<close>

record kernel_proc_data =
  procs :: "process_data store"
  pmem :: "addr kmem"
  process_list :: addr
  pid_next :: u32
  kernel_pd :: addr
  root_pd :: addr
  current_process :: addr
  process_next_up :: addr
  pg :: paging
  global_fds :: "vfs_fd list"

definition nth_elem :: "'a list \<Rightarrow> nat \<Rightarrow> 'a option" where
  "nth_elem xs i = (if i < length xs then Some (xs ! i) else None)"

definition copy_str :: "nat \<Rightarrow> string \<Rightarrow> string option" where
  "copy_str n s = (if length s < n then Some s else None)"

definition rd_proc :: "addr \<Rightarrow> kernel_proc_data \<Rightarrow> process_data option" where
  "rd_proc a k = st_read a (procs k)"

definition wr_proc :: "addr \<Rightarrow> (process_data \<Rightarrow> process_data) \<Rightarrow> kernel_proc_data \<Rightarrow> kernel_proc_data option" where
  "wr_proc a f k = do { s \<leftarrow> st_update a f (procs k); Some (k\<lparr>procs := s\<rparr>) }"


section \<open>Creation and lookup\<close>

definition zero_fd :: fd_process where
  "zero_fd = \<lparr>pfd_id = 0, pfd_in_use = False, pfd_was_used = False, pfd_close_on_exec = False,
     pfd_pos = 0, pfd_vfs_fd = 0\<rparr>"

definition zero_process :: process_data where
  "zero_process = \<lparr>pid = 0, pid_parent = 0, status = 0, exit_code = 0, pname = [],
     pcontext = zero_registers, first_run = False, wait_for_pid = 0, ptype = 0, perrno = 0,
     file_descriptors = replicate PROCESS_MAX_FDS zero_fd,
     proc_stack_kvirt = 0, proc_stack_virt = 0, proc_stack_phys = 0, stack_size = 0,
     argc = 0, argv = 0, working_dir = [], entry = 0, ppath = [], exec_size = 0,
     has_own_addr_space = False,
     text_section_count = 0, text_sections = [], text_secton_virt_start = 0,
     data_section_count = 0, data_sections = [], data_section_virt_start = 0,
     heap_page_count = 0, heap_pages = [], heap_top = 0, heap_top_allocated = 0,
     rela_sym_index = 0, dyn_sym_index = 0, num_dyn_syms = 0, binary_format_data = 0\<rparr>"

abbreviation (input) STDIN_FILENO :: nat where "STDIN_FILENO \<equiv> 0"
abbreviation (input) STDOUT_FILENO :: nat where "STDOUT_FILENO \<equiv> 1"
abbreviation (input) STDERR_FILENO :: nat where "STDERR_FILENO \<equiv> 2"

definition set_fd :: "nat \<Rightarrow> (fd_process \<Rightarrow> fd_process) \<Rightarrow> process_data \<Rightarrow> process_data" where
  "set_fd i f p = p\<lparr>file_descriptors := (file_descriptors p)[i := f (file_descriptors p ! i)]\<rparr>"

text \<open>The record process_get_new_process fills in behind the memset; the second line for the
  standard error writes the entry of the standard output again.\<close>

definition new_process :: "u32 \<Rightarrow> process_data" where
  "new_process n =
     (let p = zero_process\<lparr>pid := n, status := PROCESS_STATUS_IN_SETUP, first_run := True\<rparr>;
          p = p\<lparr>file_descriptors := map (\<lambda>i. (file_descriptors p ! i)\<lparr>pfd_id := int i\<rparr>) [0..<PROCESS_MAX_FDS]\<rparr>;
          p = set_fd STDIN_FILENO (\<lambda>d. d\<lparr>pfd_in_use := True\<rparr>) p;
          p = set_fd STDIN_FILENO (\<lambda>d. d\<lparr>pfd_vfs_fd := int STDIN_FILENO\<rparr>) p;
          p = set_fd STDOUT_FILENO (\<lambda>d. d\<lparr>pfd_in_use := True\<rparr>) p;
          p = set_fd STDOUT_FILENO (\<lambda>d. d\<lparr>pfd_vfs_fd := int STDOUT_FILENO\<rparr>) p;
          p = set_fd STDERR_FILENO (\<lambda>d. d\<lparr>pfd_in_use := True\<rparr>) p;
          p = set_fd STDOUT_FILENO (\<lambda>d. d\<lparr>pfd_vfs_fd := int STDOUT_FILENO\<rparr>) p
      in p\<lparr>heap_page_count := 0, heap_pages := [], heap_top := 0xB0000000\<rparr>)"

definition process_get_new_process :: "kernel_proc_data \<Rightarrow> (u32 \<times> kernel_proc_data) option" where
  "process_get_new_process k = (let (p, s) = st_alloc (procs k); k = k\<lparr>procs := s\<rparr>; n = pid_next k in do {
     k \<leftarrow> wr_proc p (\<lambda>_. new_process n) k;
     let k = k\<lparr>pid_next := n + 1\<rparr>;
     (r, m) \<leftarrow> avs_list_append (process_list k) p (pmem k);
     Some (n, k\<lparr>pmem := m\<rparr>) })"

definition avs_list_compare_pids :: "kernel_proc_data \<Rightarrow> u32 \<Rightarrow> addr \<Rightarrow> int" where
  "avs_list_compare_pids k pid_a b =
     (case rd_proc b k of Some pd_b \<Rightarrow> (if pid_a = pid pd_b then 0 else -1) | None \<Rightarrow> -1)"

definition process_get_data_from_pid :: "u32 \<Rightarrow> kernel_proc_data \<Rightarrow> addr option" where
  "process_get_data_from_pid n k = do {
     n_p \<leftarrow> avs_list_find_data (avs_list_compare_pids k) (process_list k) n (pmem k);
     if n_p \<noteq> NULL then do { x \<leftarrow> rd_node n_p (pmem k); Some (node_data x) }
     else Some NULL }"

definition process_initalize :: "kernel_proc_data \<Rightarrow> kernel_proc_data option" where
  "process_initalize k = do {
     let k = k\<lparr>pid_next := 0\<rparr>;
     (l, m) \<leftarrow> avs_list_init (pmem k);
     let k = k\<lparr>pmem := m, process_list := l\<rparr>;
     (kernel_pid, k) \<leftarrow> process_get_new_process k;
     kpd \<leftarrow> process_get_data_from_pid kernel_pid k;
     let k = k\<lparr>kernel_pd := kpd\<rparr>;
     k \<leftarrow> wr_proc kpd (\<lambda>p. p\<lparr>status := PROCESS_STATUS_ACTIVE, pname := ''Kernel'',
            ppath := ''/boot/versionvi.bin'', pcontext := zero_registers\<rparr>) k;
     let k = k\<lparr>current_process := kpd\<rparr>;
     Some (k\<lparr>process_next_up := root_pd k\<rparr>) }"

definition process_set_next_up :: "addr \<Rightarrow> kernel_proc_data \<Rightarrow> kernel_proc_data" where
  "process_set_next_up p k = k\<lparr>process_next_up := p\<rparr>"

definition process_sched_set_next_yield :: "u32 \<Rightarrow> kernel_proc_data \<Rightarrow> kernel_proc_data option" where
  "process_sched_set_next_yield n k = do {
     p \<leftarrow> process_get_data_from_pid n k;
     Some (k\<lparr>process_next_up := p\<rparr>) }"

definition process_set_status :: "u32 \<Rightarrow> u8 \<Rightarrow> kernel_proc_data \<Rightarrow> kernel_proc_data option" where
  "process_set_status n st k = do {
     p \<leftarrow> process_get_data_from_pid n k;
     wr_proc p (\<lambda>p. p\<lparr>status := st\<rparr>) k }"

definition process_get_errno :: "u32 \<Rightarrow> kernel_proc_data \<Rightarrow> int option" where
  "process_get_errno n k = do {
     p \<leftarrow> process_get_data_from_pid n k;
     d \<leftarrow> rd_proc p k;
     Some (perrno d) }"

definition process_set_errno :: "u32 \<Rightarrow> int \<Rightarrow> kernel_proc_data \<Rightarrow> kernel_proc_data option" where
  "process_set_errno n err k = do {
     p \<leftarrow> process_get_data_from_pid n k;
     wr_proc p (\<lambda>p. p\<lparr>perrno := err\<rparr>) k }"


section \<open>The scheduler\<close>

text \<open>The for loop that looks for the node of the running process, i of them behind.\<close>

primrec find_self :: "nat \<Rightarrow> addr \<Rightarrow> addr \<Rightarrow> addr kmem \<Rightarrow> addr option" where
  "find_self 0 old_p head m = Some head"
| "find_self (Suc i) old_p head m = do {
     x \<leftarrow> rd_node head m;
     if node_data x = old_p then Some head else find_self i old_p (nxt x) m }"

definition runnable :: "process_data \<Rightarrow> bool" where
  "runnable p \<longleftrightarrow> status p \<in> {PROCESS_STATUS_INACTIVE, PROCESS_STATUS_ACTIVE, PROCESS_STATUS_SLEEP}"

text \<open>The while loop of the round robin; it never ends when no process is a candidate.\<close>

partial_function (option) next_runnable :: "addr \<Rightarrow> kernel_proc_data \<Rightarrow> addr option" where
  "next_runnable node k = do {
     x \<leftarrow> rd_node node (pmem k);
     nn \<leftarrow> (if nxt x = NULL then do { L \<leftarrow> rd_list (process_list k) (pmem k); Some (lhead L) }
            else Some (nxt x));
     y \<leftarrow> rd_node nn (pmem k);
     p \<leftarrow> rd_proc (node_data y) k;
     if runnable p then Some (node_data y) else next_runnable nn k }"

definition sched_pick :: "kernel_proc_data \<Rightarrow> (addr \<times> kernel_proc_data) option" where
  "sched_pick k =
     (if process_next_up k = NULL then do {
        L \<leftarrow> rd_list (process_list k) (pmem k);
        head \<leftarrow> find_self (nat (lsize L)) (current_process k) (lhead L) (pmem k);
        p \<leftarrow> next_runnable head k;
        Some (p, k) }
      else Some (process_next_up k, k\<lparr>process_next_up := NULL\<rparr>))"

primrec map_sections :: "nat \<Rightarrow> process_exec_section list \<Rightarrow> paging \<Rightarrow> paging option" where
  "map_sections 0 secs s = Some s"
| "map_sections (Suc n) secs s = (case secs of
      [] \<Rightarrow> None
    | x # xs \<Rightarrow> do { (v, s) \<leftarrow> page_map (sec_virt x) (sec_phys x) s; map_sections n xs s })"

primrec map_stack :: "nat \<Rightarrow> u64 \<Rightarrow> u64 \<Rightarrow> paging \<Rightarrow> paging option" where
  "map_stack 0 virt phys s = Some s"
| "map_stack (Suc n) virt phys s = do {
     (v, s) \<leftarrow> page_map virt phys s;
     map_stack n (virt + PAGE_SIZE) (phys + PAGE_SIZE) s }"

text \<open>Enter the address space of the new process p; owner is the process whose sections it uses.\<close>

definition map_addr_space :: "process_data \<Rightarrow> process_data \<Rightarrow> paging \<Rightarrow> paging option" where
  "map_addr_space p owner s = do {
     s \<leftarrow> (if pid p \<noteq> 0 then do {
            s \<leftarrow> map_sections (unat (data_section_count owner)) (data_sections owner) s;
            s \<leftarrow> map_sections (unat (text_section_count p)) (text_sections owner) s;
            map_sections (unat (heap_page_count p)) (heap_pages owner) s }
          else Some s);
     map_stack PROCESS_DEFAULT_STACK_PAGES (proc_stack_virt p) (proc_stack_phys p) s }"

definition status_after_yield :: "u8 \<Rightarrow> u8" where
  "status_after_yield st =
     (if st = PROCESS_STATUS_WAITING_FOR_DEATH then PROCESS_STATUS_DEAD
      else if st \<noteq> PROCESS_STATUS_WAITING then PROCESS_STATUS_INACTIVE else st)"

definition process_sched_yield :: "registers \<Rightarrow> kernel_proc_data \<Rightarrow> (registers \<times> kernel_proc_data) option" where
  "process_sched_yield ctx k = do {
     let old_p = current_process k;
     (new_p, k) \<leftarrow> sched_pick k;
     if new_p = old_p then Some (ctx, k)
     else do {
       k \<leftarrow> wr_proc old_p (\<lambda>p. p\<lparr>pcontext := ctx\<rparr>) k;
       np \<leftarrow> rd_proc new_p k;
       let ctx = pcontext np;
       let k = k\<lparr>current_process := new_p\<rparr>;
       k \<leftarrow> wr_proc old_p (\<lambda>p. p\<lparr>status := status_after_yield (status p)\<rparr>) k;
       addr_space_to_copy \<leftarrow> (if has_own_addr_space np then Some new_p
                              else process_get_data_from_pid (pid_parent np) k);
       owner \<leftarrow> rd_proc addr_space_to_copy k;
       s \<leftarrow> map_addr_space np owner (pg k);
       let k = k\<lparr>pg := s\<rparr>;
       k \<leftarrow> wr_proc new_p (\<lambda>p. p\<lparr>first_run := False\<rparr>) k;
       k \<leftarrow> wr_proc new_p (\<lambda>p. p\<lparr>status := PROCESS_STATUS_ACTIVE\<rparr>) k;
       Some (ctx, k) } }"


section \<open>File descriptors\<close>

primrec alloc_scan :: "nat list \<Rightarrow> fd_process list \<Rightarrow> nat \<times> fd_process list" where
  "alloc_scan [] ds = (0, ds)"
| "alloc_scan (i # is) ds =
     (if \<not> pfd_in_use (ds ! i) then (i, ds[i := (ds ! i)\<lparr>pfd_pos := 0\<rparr>]) else alloc_scan is ds)"

definition process_alloc_fd :: "addr \<Rightarrow> kernel_proc_data \<Rightarrow> (int \<times> kernel_proc_data) option" where
  "process_alloc_fd a k = do {
     p \<leftarrow> rd_proc a k;
     let (i, ds) = alloc_scan [0..<PROCESS_MAX_FDS] (file_descriptors p);
     k \<leftarrow> wr_proc a (\<lambda>p. p\<lparr>file_descriptors := ds\<rparr>) k;
     Some (int i, k) }"

definition process_free_fd :: "addr \<Rightarrow> int \<Rightarrow> kernel_proc_data \<Rightarrow> kernel_proc_data option" where
  "process_free_fd a fd k =
     (if fd > 0 then
        if fd < int PROCESS_MAX_FDS
        then wr_proc a (set_fd (nat fd) (\<lambda>d. d\<lparr>pfd_in_use := False\<rparr>)) k
        else Some k
      else Some k)"

definition zero_vfs_fd :: vfs_fd where
  "zero_vfs_fd = \<lparr>vfd_id = 0, vfd_process_fd = 0, vfd_ref_count = 0, vfd_in_use = False, vfd_path = [],
     vfd_inode_id = 0, vfd_close_on_exec = False, vfd_read_only = False, vfd_write_only = False\<rparr>"

definition set_vfs_fd :: "nat \<Rightarrow> (vfs_fd \<Rightarrow> vfs_fd) \<Rightarrow> vfs_fd list \<Rightarrow> vfs_fd list" where
  "set_vfs_fd i f fds = fds[i := f (fds ! i)]"

definition vfs_fd_setup :: "kernel_proc_data \<Rightarrow> kernel_proc_data" where
  "vfs_fd_setup k =
     (let fds = replicate VFS_FD_MAX zero_vfs_fd;
          fds = map (\<lambda>i. (fds ! i)\<lparr>vfd_id := int i\<rparr>) [0..<VFS_FD_MAX];
          fds = set_vfs_fd STDIN_FILENO (\<lambda>d. d\<lparr>vfd_in_use := True, vfd_path := ''/dev/stdin''\<rparr>) fds;
          fds = set_vfs_fd STDOUT_FILENO (\<lambda>d. d\<lparr>vfd_in_use := True, vfd_path := ''/dev/stdout''\<rparr>) fds;
          fds = set_vfs_fd STDERR_FILENO (\<lambda>d. d\<lparr>vfd_in_use := True, vfd_path := ''/dev/stderr''\<rparr>) fds
      in k\<lparr>global_fds := fds\<rparr>)"

text \<open>The entries are named by their index here; None stands for the NULL result.\<close>

primrec last_free_fd :: "nat list \<Rightarrow> nat option \<Rightarrow> vfs_fd list \<Rightarrow> nat option" where
  "last_free_fd [] found fds = found"
| "last_free_fd (i # is) found fds =
     last_free_fd is (if \<not> vfd_in_use (fds ! i) then Some i else found) fds"

definition vfs_alloc_fd :: "kernel_proc_data \<Rightarrow> nat option" where
  "vfs_alloc_fd k = last_free_fd [0..<VFS_FD_MAX] None (global_fds k)"

definition vfs_free_fd :: "int \<Rightarrow> kernel_proc_data \<Rightarrow> kernel_proc_data" where
  "vfs_free_fd fd k =
     (if fd > 0 then
        if fd < int VFS_FD_MAX
        then k\<lparr>global_fds := set_vfs_fd (nat fd) (\<lambda>d. d\<lparr>vfd_in_use := False\<rparr>) (global_fds k)\<rparr>
        else k
      else k)"

definition vfs_get_fd_data :: "int \<Rightarrow> nat option" where
  "vfs_get_fd_data fd = (if fd \<ge> int VFS_FD_MAX then None else if fd < 0 then None else Some (nat fd))"

definition process_get_fd_path :: "addr \<Rightarrow> int \<Rightarrow> kernel_proc_data \<Rightarrow> string option" where
  "process_get_fd_path a fd k = do {
     p \<leftarrow> rd_proc a k;
     d \<leftarrow> (if fd < 0 then None else nth_elem (file_descriptors p) (nat fd));
     i \<leftarrow> vfs_get_fd_data (pfd_vfs_fd d);
     e \<leftarrow> nth_elem (global_fds k) i;
     Some (vfd_path e) }"

end
