(* ===== verification/Syscalls.thy ===== *)
theory Syscalls
  imports Process
begin

text \<open>
  The system calls (kernel/syscalls/*.c). A handler takes the caller's saved
  registers and returns them as it leaves them, since a yield replaces them. What
  the handlers use of parts modelled elsewhere, or not at all, is the record
  sys_env: the string a user pointer leads to, the file system's getattr and read,
  the standard input, and the two exec handlers. A count of bytes copied
  between kernel pages is a whole number of pages; copy_pages copies the frames.
\<close>

record sys_env =
  user_string :: "u64 \<Rightarrow> string"
  vfs_getattr :: "string \<Rightarrow> int \<times> u64"
  vfs_read :: "string \<Rightarrow> u64 \<Rightarrow> u64 \<Rightarrow> int"
  stdin_read :: "u64 \<Rightarrow> int"
  execve_syscall_handler :: "registers \<Rightarrow> kernel_proc_data \<Rightarrow> (registers \<times> kernel_proc_data) option"
  execm_syscall_handler :: "registers \<Rightarrow> kernel_proc_data \<Rightarrow> (registers \<times> kernel_proc_data) option"


section \<open>Files\<close>

definition close_syscall_handler :: "int \<Rightarrow> kernel_proc_data \<Rightarrow> (int \<times> kernel_proc_data) option" where
  "close_syscall_handler fd k =
     (if fd \<ge> int PROCESS_MAX_FDS then Some (-1, k)
      else if fd < 0 then None
      else do {
        p \<leftarrow> rd_proc (current_process k) k;
        d \<leftarrow> nth_elem (file_descriptors p) (nat fd);
        if \<not> pfd_in_use d then Some (-1, k)
        else do {
          k \<leftarrow> wr_proc (current_process k)
                (set_fd (nat fd) (\<lambda>d. d\<lparr>pfd_in_use := False, pfd_was_used := True, pfd_pos := 0\<rparr>)) k;
          case vfs_get_fd_data (pfd_vfs_fd d) of
            None \<Rightarrow> Some (-1, k)
          | Some i \<Rightarrow> do {
              e \<leftarrow> nth_elem (global_fds k) i;
              Some (1, k\<lparr>global_fds := set_vfs_fd i (\<lambda>e. e\<lparr>vfd_in_use := False, vfd_close_on_exec := False,
                 vfd_inode_id := 0, vfd_ref_count := vfd_ref_count e - 1\<rparr>) (global_fds k)\<rparr>) } } })"

abbreviation (input) O_WRONLY :: u32 where "O_WRONLY \<equiv> 1"
abbreviation (input) O_RDONLY :: u32 where "O_RDONLY \<equiv> 0"
abbreviation (input) O_CLOEXEC :: u32 where "O_CLOEXEC \<equiv> 0x80000"

definition open_syscall_handler ::
    "sys_env \<Rightarrow> string \<Rightarrow> u32 \<Rightarrow> kernel_proc_data \<Rightarrow> (int \<times> kernel_proc_data) option" where
  "open_syscall_handler env path flags k = (let ga_err = fst (vfs_getattr env path) in
     if ga_err \<noteq> 0 then Some (ga_err, k)
     else do {
       (new_fd, k) \<leftarrow> process_alloc_fd (current_process k) k;
       if new_fd \<le> 0 then Some (new_fd, k)
       else case vfs_alloc_fd k of
           None \<Rightarrow> do { k \<leftarrow> process_free_fd (current_process k) new_fd k; Some (0, k) }
         | Some i \<Rightarrow> do {
             k \<leftarrow> wr_proc (current_process k) (set_fd (nat new_fd) (\<lambda>d. d\<lparr>pfd_in_use := True\<rparr>)) k;
             s \<leftarrow> copy_str 255 path;
             e \<leftarrow> nth_elem (global_fds k) i;
             k \<leftarrow> wr_proc (current_process k) (set_fd (nat new_fd) (\<lambda>d. d\<lparr>pfd_vfs_fd := vfd_id e\<rparr>)) k;
             Some (new_fd, k\<lparr>global_fds := set_vfs_fd i (\<lambda>e. e\<lparr>vfd_path := s, vfd_in_use := True,
                vfd_process_fd := new_fd, vfd_ref_count := vfd_ref_count e + 1,
                vfd_close_on_exec := flags AND O_CLOEXEC \<noteq> 0, vfd_read_only := flags AND O_RDONLY \<noteq> 0,
                vfd_write_only := flags AND O_WRONLY \<noteq> 0\<rparr>) (global_fds k)\<rparr>) } })"

definition read_syscall_handler :: "sys_env \<Rightarrow> int \<Rightarrow> u64 \<Rightarrow> kernel_proc_data \<Rightarrow> int option" where
  "read_syscall_handler env fd count k =
     (if fd < 0 then Some (-1)
      else if fd \<ge> int PROCESS_MAX_FDS then Some (-1)
      else do {
        p \<leftarrow> rd_proc (current_process k) k;
        d \<leftarrow> nth_elem (file_descriptors p) (nat fd);
        if \<not> pfd_in_use d then Some (-1)
        else if fd = int STDIN_FILENO then Some (stdin_read env count)
        else do {
          i \<leftarrow> vfs_get_fd_data (pfd_vfs_fd d);
          e \<leftarrow> nth_elem (global_fds k) i;
          Some (vfs_read env (vfd_path e) count (pfd_pos d)) } })"

text \<open>Where the bytes of a write go; those of a file are dropped, with a log message.\<close>

datatype write_dest = To_stdout | To_stderr | Dropped

definition write_syscall_handler :: "int \<Rightarrow> kernel_proc_data \<Rightarrow> write_dest option" where
  "write_syscall_handler fd k =
     (if fd = int STDOUT_FILENO then Some To_stdout
      else if fd = int STDERR_FILENO then Some To_stderr
      else if fd < 0 then None
      else do {
        p \<leftarrow> rd_proc (current_process k) k;
        d \<leftarrow> nth_elem (file_descriptors p) (nat fd);
        i \<leftarrow> vfs_get_fd_data (pfd_vfs_fd d);
        e \<leftarrow> nth_elem (global_fds k) i;
        Some Dropped })"

definition statfs_syscall_handler :: "sys_env \<Rightarrow> string \<Rightarrow> int \<times> u64" where
  "statfs_syscall_handler env path = vfs_getattr env path"

abbreviation (input) SEEK_SET :: int where "SEEK_SET \<equiv> 0"
abbreviation (input) SEEK_CUR :: int where "SEEK_CUR \<equiv> 1"
abbreviation (input) SEEK_END :: int where "SEEK_END \<equiv> 2"

definition lseek_syscall_handler ::
    "sys_env \<Rightarrow> int \<Rightarrow> u64 \<Rightarrow> int \<Rightarrow> kernel_proc_data \<Rightarrow> (int \<times> kernel_proc_data) option" where
  "lseek_syscall_handler env fd off whence k =
     (if fd < 0 then Some (0, k)
      else if fd \<ge> int PROCESS_MAX_FDS then Some (0, k)
      else do {
        p \<leftarrow> rd_proc (current_process k) k;
        d \<leftarrow> nth_elem (file_descriptors p) (nat fd);
        if \<not> pfd_in_use d then Some (0, k)
        else if whence = SEEK_SET then do {
          k \<leftarrow> wr_proc (current_process k) (set_fd (nat fd) (\<lambda>d. d\<lparr>pfd_pos := off\<rparr>)) k;
          Some (0, k) }
        else if whence = SEEK_CUR then do {
          k \<leftarrow> wr_proc (current_process k) (set_fd (nat fd) (\<lambda>d. d\<lparr>pfd_pos := off\<rparr>)) k;
          Some (0, k) }
        else if whence = SEEK_END then do {
          path \<leftarrow> process_get_fd_path (current_process k) fd k;
          let (stat_err, st_size) = vfs_getattr env path;
          if stat_err = -1 then Some (-1, k)
          else do {
            k \<leftarrow> wr_proc (current_process k) (set_fd (nat fd) (\<lambda>d. d\<lparr>pfd_pos := st_size - off\<rparr>)) k;
            Some (0, k) } }
        else Some (-1, k) })"


section \<open>The heap\<close>

definition zero_section :: process_exec_section where
  "zero_section = \<lparr>sec_phys = 0, sec_virt = 0, sec_kern_virt = 0\<rparr>"

text \<open>krealloc keeps the old elements; a new one is zero here, and overwritten before it is read.\<close>

definition krealloc_sections :: "nat \<Rightarrow> process_exec_section list \<Rightarrow> process_exec_section list" where
  "krealloc_sections n xs = take n xs @ replicate (n - length xs) zero_section"

text \<open>The pages i, i + 1, ... of the loop.\<close>

primrec heap_loop :: "nat list \<Rightarrow> process_data \<Rightarrow> paging \<Rightarrow> (process_data \<times> paging) option" where
  "heap_loop [] p s = Some (p, s)"
| "heap_loop (i # is) p s = do {
     (kv, s) \<leftarrow> page_allocate 1 s;
     ph \<leftarrow> paging_virtual_to_physical kv s;
     _ \<leftarrow> nth_elem (heap_pages p) i;
     heap_loop is (p\<lparr>heap_pages := (heap_pages p)[i := \<lparr>sec_phys = ph, sec_virt = heap_top_allocated p, sec_kern_virt = kv\<rparr>],
                    heap_top_allocated := heap_top_allocated p + PAGE_SIZE\<rparr>) s }"

definition brk_syscall_handler :: "u64 \<Rightarrow> kernel_proc_data \<Rightarrow> (int \<times> kernel_proc_data) option" where
  "brk_syscall_handler a k = do {
     p \<leftarrow> rd_proc (current_process k) k;
     if a \<le> heap_top p then Some (-1, k)
     else if a \<le> heap_top_allocated p then do {
       k \<leftarrow> wr_proc (current_process k) (\<lambda>p. p\<lparr>heap_top := a\<rparr>) k;
       Some (0, k) }
     else do {
       let heap_add = a - heap_top p;
       let num_pages = (ucast (heap_add mod PAGE_SIZE + 1) :: u16);
       let p = p\<lparr>heap_pages := krealloc_sections (unat (heap_page_count p) + unat num_pages) (heap_pages p)\<rparr>;
       (p, s) \<leftarrow> heap_loop [0..<unat num_pages] p (pg k);
       k \<leftarrow> wr_proc (current_process k) (\<lambda>_. p\<lparr>heap_top := a\<rparr>) k;
       Some (0, k\<lparr>pg := s\<rparr>) } }"

definition sbrk_syscall_handler :: "int \<Rightarrow> kernel_proc_data \<Rightarrow> (u64 \<times> kernel_proc_data) option" where
  "sbrk_syscall_handler inc_bytes k = do {
     p \<leftarrow> rd_proc (current_process k) k;
     (brk_res, k) \<leftarrow> brk_syscall_handler (heap_top p + of_int inc_bytes) k;
     if brk_res \<noteq> 0 then Some (0, k)
     else do { p \<leftarrow> rd_proc (current_process k) k; Some (heap_top p, k) } }"


section \<open>Processes\<close>

definition wait_syscall_handler :: "u32 \<Rightarrow> kernel_proc_data \<Rightarrow> kernel_proc_data option" where
  "wait_syscall_handler n k = do {
     k \<leftarrow> wr_proc (current_process k) (\<lambda>p. p\<lparr>status := PROCESS_STATUS_WAITING\<rparr>) k;
     wr_proc (current_process k) (\<lambda>p. p\<lparr>wait_for_pid := n\<rparr>) k }"

primrec exit_close :: "nat list \<Rightarrow> kernel_proc_data \<Rightarrow> kernel_proc_data option" where
  "exit_close [] k = Some k"
| "exit_close (i # is) k = do {
     p \<leftarrow> rd_proc (current_process k) k;
     d \<leftarrow> nth_elem (file_descriptors p) i;
     if pfd_in_use d \<and> \<not> i < 3 then do {
       (r, k) \<leftarrow> close_syscall_handler (int i) k;
       exit_close is k }
     else exit_close is k }"

definition exit_notify :: "kernel_proc_data \<Rightarrow> kernel_proc_data option" where
  "exit_notify k = do {
     p \<leftarrow> rd_proc (current_process k) k;
     p_parent \<leftarrow> process_get_data_from_pid (pid_parent p) k;
     if p_parent \<noteq> NULL then do {
       pp \<leftarrow> rd_proc p_parent k;
       if wait_for_pid pp = pid p then do {
         k \<leftarrow> wr_proc p_parent (\<lambda>p. p\<lparr>status := PROCESS_STATUS_INACTIVE\<rparr>) k;
         k \<leftarrow> wr_proc p_parent (\<lambda>p. p\<lparr>wait_for_pid := 0\<rparr>) k;
         Some (process_set_next_up p_parent k) }
       else Some k }
     else Some k }"

definition exit_syscall_handler ::
    "registers \<Rightarrow> int \<Rightarrow> kernel_proc_data \<Rightarrow> (registers \<times> kernel_proc_data) option" where
  "exit_syscall_handler ctx return_code k = do {
     k \<leftarrow> exit_close [0..<PROCESS_MAX_FDS] k;
     k \<leftarrow> exit_notify k;
     k \<leftarrow> wr_proc (current_process k) (\<lambda>p. p\<lparr>exit_code := return_code\<rparr>) k;
     k \<leftarrow> wr_proc (current_process k) (\<lambda>p. p\<lparr>status := PROCESS_STATUS_WAITING_FOR_DEATH\<rparr>) k;
     process_sched_yield ctx k }"

primrec copy_pages :: "nat \<Rightarrow> u64 \<Rightarrow> u64 \<Rightarrow> paging \<Rightarrow> paging option" where
  "copy_pages 0 dst src s = Some s"
| "copy_pages (Suc n) dst src s = do {
     t \<leftarrow> frames s (table_frame s src);
     _ \<leftarrow> frames s (table_frame s dst);
     copy_pages n (dst + PAGE_SIZE) (src + PAGE_SIZE) (s\<lparr>frames := (frames s)(table_frame s dst \<mapsto> t)\<rparr>) }"

definition copy_stack :: "u64 \<Rightarrow> u64 \<Rightarrow> u32 \<Rightarrow> paging \<Rightarrow> paging option" where
  "copy_stack dst src len s =
     (if unat len mod 4096 = 0 then copy_pages (unat len div 4096) dst src s else None)"

text \<open>One page holds 170 section records.\<close>

definition page_of_sections :: "process_exec_section list" where
  "page_of_sections = replicate 170 zero_section"

primrec fork_sections ::
    "nat list \<Rightarrow> process_exec_section list \<Rightarrow> process_exec_section list \<Rightarrow> paging \<Rightarrow>
     (process_exec_section list \<times> paging) option" where
  "fork_sections [] par child s = Some (child, s)"
| "fork_sections (i # is) par child s = do {
     (kv, s) \<leftarrow> page_allocate_kernel 1 s;
     c \<leftarrow> nth_elem child i;
     x \<leftarrow> nth_elem par i;
     ph \<leftarrow> paging_virtual_to_physical kv s;
     let child = child[i := \<lparr>sec_phys = ph, sec_virt = sec_virt x, sec_kern_virt = kv\<rparr>];
     s \<leftarrow> copy_pages 1 kv (sec_kern_virt x) s;
     fork_sections is par child s }"

text \<open>The fields the child of fork and of clone inherits.\<close>

definition inherit :: "process_data \<Rightarrow> process_data \<Rightarrow> process_data" where
  "inherit parent c = c\<lparr>argc := argc parent, argv := argv parent,
     binary_format_data := binary_format_data parent, exec_size := exec_size parent,
     has_own_addr_space := has_own_addr_space parent, pid_parent := pid parent, first_run := True,
     ppath := ppath parent, pname := pname parent, working_dir := working_dir parent\<rparr>"

definition inherit_symbols :: "process_data \<Rightarrow> process_data \<Rightarrow> process_data" where
  "inherit_symbols parent c = c\<lparr>rela_sym_index := rela_sym_index parent,
     dyn_sym_index := dyn_sym_index parent, num_dyn_syms := num_dyn_syms parent\<rparr>"

text \<open>The new stack, a copy of the parent's.\<close>

definition fork_stack :: "process_data \<Rightarrow> process_data \<Rightarrow> paging \<Rightarrow> (process_data \<times> paging) option" where
  "fork_stack parent c s = do {
     (kv, s) \<leftarrow> page_allocate_kernel (of_nat PROCESS_DEFAULT_STACK_PAGES) s;
     ph \<leftarrow> paging_virtual_to_physical kv s;
     s \<leftarrow> copy_stack kv (proc_stack_kvirt parent) (stack_size parent) s;
     Some (c\<lparr>proc_stack_virt := 0xA0000000, proc_stack_kvirt := kv, proc_stack_phys := ph,
             stack_size := PROCESS_DEFAULT_STACK_SIZE\<rparr>, s) }"

definition fork_syscall_handler ::
    "registers \<Rightarrow> kernel_proc_data \<Rightarrow> (u32 \<times> registers \<times> kernel_proc_data) option" where
  "fork_syscall_handler ctx k = do {
     let p_parent = current_process k;
     _ \<leftarrow> rd_proc p_parent k;
     (pid_child, k) \<leftarrow> process_get_new_process k;
     p_child \<leftarrow> process_get_data_from_pid pid_child k;
     k \<leftarrow> wr_proc p_parent (\<lambda>p. p\<lparr>pcontext := ctx\<rparr>) k;
     pp \<leftarrow> rd_proc p_parent k;
     c \<leftarrow> rd_proc p_child k;
     let c = (inherit pp c)\<lparr>pcontext := pcontext pp\<rparr>;
     (c, s) \<leftarrow> fork_stack pp c (pg k);
     (dv, s) \<leftarrow> page_allocate_kernel 1 s;
     (ds, s) \<leftarrow> fork_sections [0..<unat (data_section_count pp)] (data_sections pp) page_of_sections s;
     let c = c\<lparr>data_section_count := data_section_count pp, data_sections := ds,
               data_section_virt_start := data_section_virt_start pp\<rparr>;
     (tv, s) \<leftarrow> page_allocate_kernel 1 s;
     (ts, s) \<leftarrow> fork_sections [0..<unat (text_section_count pp)] (text_sections pp) page_of_sections s;
     let c = c\<lparr>text_section_count := text_section_count pp, text_sections := ts,
               text_secton_virt_start := text_secton_virt_start pp\<rparr>;
     let c = (inherit_symbols pp c)\<lparr>status := PROCESS_STATUS_INACTIVE\<rparr>;
     let c = c\<lparr>pcontext := (pcontext c)\<lparr>rax := 0\<rparr>\<rparr>;
     k \<leftarrow> wr_proc p_child (\<lambda>_. c) k;
     Some (pid_child, ctx\<lparr>rax := ucast pid_child\<rparr>, k\<lparr>pg := s\<rparr>) }"

abbreviation (input) PROCESS_TYPE_THREAD :: int where "PROCESS_TYPE_THREAD \<equiv> 1"

definition clone_syscall_handler ::
    "registers \<Rightarrow> u64 \<Rightarrow> kernel_proc_data \<Rightarrow> (registers \<times> kernel_proc_data) option" where
  "clone_syscall_handler ctx start k = do {
     let p_parent = current_process k;
     _ \<leftarrow> rd_proc p_parent k;
     (pid_child, k) \<leftarrow> process_get_new_process k;
     p_child \<leftarrow> process_get_data_from_pid pid_child k;
     k \<leftarrow> wr_proc p_parent (\<lambda>p. p\<lparr>pcontext := ctx\<rparr>) k;
     pp \<leftarrow> rd_proc p_parent k;
     c \<leftarrow> rd_proc p_child k;
     let c = (inherit pp c)\<lparr>has_own_addr_space := False, ptype := PROCESS_TYPE_THREAD\<rparr>;
     let c = c\<lparr>pcontext := (pcontext pp)\<lparr>rip := start\<rparr>\<rparr>;
     (c, s) \<leftarrow> fork_stack pp c (pg k);
     let c = c\<lparr>pcontext := (pcontext c)\<lparr>rsp := proc_stack_virt c + ucast (stack_size c) - 8\<rparr>\<rparr>;
     let c = (inherit_symbols pp c)\<lparr>status := PROCESS_STATUS_INACTIVE\<rparr>;
     k \<leftarrow> wr_proc p_child (\<lambda>_. c) k;
     let ctx = ctx\<lparr>rax := of_int p_child\<rparr>;
     process_sched_yield ctx (process_set_next_up p_child (k\<lparr>pg := s\<rparr>)) }"


section \<open>The dispatcher\<close>

abbreviation (input) SYSCALL_READ :: u64 where "SYSCALL_READ \<equiv> 0"
abbreviation (input) SYSCALL_WRITE :: u64 where "SYSCALL_WRITE \<equiv> 1"
abbreviation (input) SYSCALL_OPEN :: u64 where "SYSCALL_OPEN \<equiv> 2"
abbreviation (input) SYSCALL_CLOSE :: u64 where "SYSCALL_CLOSE \<equiv> 3"
abbreviation (input) SYSCALL_SCHED_YIELD :: u64 where "SYSCALL_SCHED_YIELD \<equiv> 4"
abbreviation (input) SYSCALL_EXECVE :: u64 where "SYSCALL_EXECVE \<equiv> 5"
abbreviation (input) SYSCALL_FORK :: u64 where "SYSCALL_FORK \<equiv> 6"
abbreviation (input) SYSCALL_EXIT :: u64 where "SYSCALL_EXIT \<equiv> 7"
abbreviation (input) SYSCALL_WAIT :: u64 where "SYSCALL_WAIT \<equiv> 8"
abbreviation (input) SYSCALL_EXECM :: u64 where "SYSCALL_EXECM \<equiv> 9"
abbreviation (input) SYSCALL_STATFS :: u64 where "SYSCALL_STATFS \<equiv> 10"
abbreviation (input) SYSCALL_CLONE :: u64 where "SYSCALL_CLONE \<equiv> 11"
abbreviation (input) SYSCALL_CON_OUT :: u64 where "SYSCALL_CON_OUT \<equiv> 16"

text \<open>The conversion of a register to an int argument.\<close>

definition to_int :: "u64 \<Rightarrow> int" where
  "to_int w = sint (ucast w :: u32)"

definition run_syscall :: "sys_env \<Rightarrow> registers \<Rightarrow> kernel_proc_data \<Rightarrow> (registers \<times> kernel_proc_data) option" where
  "run_syscall env ctx k =
     (if rax ctx = SYSCALL_FORK then do { (r, ctx, k) \<leftarrow> fork_syscall_handler ctx k; Some (ctx, k) }
      else if rax ctx = SYSCALL_SCHED_YIELD then process_sched_yield ctx k
      else if rax ctx = SYSCALL_EXECVE then execve_syscall_handler env ctx k
      else if rax ctx = SYSCALL_EXECM then execm_syscall_handler env ctx k
      else if rax ctx = SYSCALL_EXIT then exit_syscall_handler ctx (to_int (rdi ctx)) k
      else if rax ctx = SYSCALL_WAIT then do { k \<leftarrow> wait_syscall_handler (ucast (rdi ctx)) k; Some (ctx, k) }
      else if rax ctx = SYSCALL_OPEN then do {
        (r, k) \<leftarrow> open_syscall_handler env (user_string env (rdi ctx)) (ucast (rsi ctx)) k; Some (ctx, k) }
      else if rax ctx = SYSCALL_CLOSE then do { (r, k) \<leftarrow> close_syscall_handler (to_int (rdi ctx)) k; Some (ctx, k) }
      else if rax ctx = SYSCALL_READ then do {
        r \<leftarrow> read_syscall_handler env (to_int (rdi ctx)) (rdx ctx) k; Some (ctx, k) }
      else if rax ctx = SYSCALL_WRITE then do { r \<leftarrow> write_syscall_handler (to_int (rdi ctx)) k; Some (ctx, k) }
      else if rax ctx = SYSCALL_STATFS then
        (let r = statfs_syscall_handler env (user_string env (rdi ctx)) in Some (ctx, k))
      else if rax ctx = SYSCALL_CLONE then clone_syscall_handler ctx (rdi ctx) k
      else Some (ctx, k))"

definition syscall_handler :: "sys_env \<Rightarrow> registers \<Rightarrow> kernel_proc_data \<Rightarrow> (registers \<times> kernel_proc_data) option" where
  "syscall_handler env ctx k = do {
     _ \<leftarrow> rd_proc (current_process k) k;
     (ctx, k) \<leftarrow> run_syscall env ctx k;
     p \<leftarrow> rd_proc (current_process k) k;
     if status p = PROCESS_STATUS_WAITING then process_sched_yield ctx k else Some (ctx, k) }"

end
