(* ===== verification/Sched.thy ===== *)
theory Sched
  imports Process PageWalk
begin

text \<open>
  The scheduler. proc_rep relates the kernel's process structures to the list
  of the processes' addresses in creation order; cyclic_next is the round robin
  on that list. The lemmas show that the two loops of process_sched_yield
  compute it, and that the second one never ends exactly when no process can run.
\<close>

definition proc_rep :: "kernel_proc_data \<Rightarrow> (addr \<times> addr) list \<Rightarrow> bool" where
  "proc_rep k ns \<longleftrightarrow> lrep (pmem k) (process_list k) ns \<and> store_wf (procs k)
     \<and> distinct (map snd ns) \<and> (\<forall>a \<in> snd ` set ns. cells (procs k) a \<noteq> None)"

definition can_run :: "kernel_proc_data \<Rightarrow> addr \<Rightarrow> bool" where
  "can_run k a \<longleftrightarrow> (case cells (procs k) a of Some p \<Rightarrow> runnable p | None \<Rightarrow> False)"

definition cyclic_next :: "('a \<Rightarrow> bool) \<Rightarrow> 'a list \<Rightarrow> nat \<Rightarrow> 'a option" where
  "cyclic_next P xs i = List.find P (rotate (Suc i) xs)"

lemma dseg_nth:
  "dseg h pv NULL ns \<Longrightarrow> i < length ns \<Longrightarrow>
    \<exists>p. h (fst (ns ! i)) = Some \<lparr>nxt = (if Suc i < length ns then fst (ns ! Suc i) else NULL), prv = p, node_data = snd (ns ! i)\<rparr>"
proof (induction ns arbitrary: pv i)
  case (Cons x xs)
  show ?case
  proof (cases i)
    case 0
    then show ?thesis using Cons.prems by (cases xs) auto
  next
    case (Suc j)
    from Cons.IH [of "fst x" j] Cons.prems Suc
    have "\<exists>p. h (fst (xs ! j)) = Some \<lparr>nxt = (if Suc j < length xs then fst (xs ! Suc j) else NULL), prv = p, node_data = snd (xs ! j)\<rparr>"
      by simp
    then show ?thesis by (simp only: Suc nth_Cons_Suc length_Cons Suc_less_eq)
  qed
qed simp

lemma first_nth: "ns \<noteq> [] \<Longrightarrow> first NULL ns = fst (ns ! 0)"
  by (cases ns) auto

lemma find_self_dseg:
  "dseg (cells (nodes m)) pv NULL ns \<Longrightarrow> i < length ns \<Longrightarrow> snd (ns ! i) = old_p \<Longrightarrow>
    \<forall>j < i. snd (ns ! j) \<noteq> old_p \<Longrightarrow> find_self (length ns) old_p (first NULL ns) m = Some (fst (ns ! i))"
proof (induction ns arbitrary: pv i)
  case (Cons x xs)
  show ?case
  proof (cases i)
    case 0
    then show ?thesis using Cons.prems by (simp add: store_simps)
  next
    case (Suc j)
    have "snd x \<noteq> old_p" using Cons.prems(4) Suc by auto
    moreover have "find_self (length xs) old_p (first NULL xs) m = Some (fst (xs ! j))"
    proof (rule Cons.IH)
      show "dseg (cells (nodes m)) (fst x) NULL xs" using Cons.prems(1) by simp
      show "j < length xs" "snd (xs ! j) = old_p" using Cons.prems(2,3) Suc by auto
      show "\<forall>j' < j. snd (xs ! j') \<noteq> old_p" using Cons.prems(4) Suc by auto
    qed
    ultimately show ?thesis using Cons.prems Suc by (simp add: store_simps)
  qed
qed simp

lemma succ_node:
  assumes "proc_rep k ns" "i < length ns"
  defines "j \<equiv> Suc i mod length ns"
  shows "\<exists>x y q. rd_node (fst (ns ! i)) (pmem k) = Some x
     \<and> (if nxt x = NULL then do { L \<leftarrow> rd_list (process_list k) (pmem k); Some (lhead L) } else Some (nxt x))
         = Some (fst (ns ! j))
     \<and> rd_node (fst (ns ! j)) (pmem k) = Some y \<and> node_data y = snd (ns ! j)
     \<and> rd_proc (snd (ns ! j)) k = Some q \<and> runnable q = can_run k (snd (ns ! j))"
proof -
  from assms(1) have l: "lrep (pmem k) (process_list k) ns" by (simp add: proc_rep_def)
  then have d: "dseg (cells (nodes (pmem k))) NULL NULL ns"
    and L: "cells (lists (pmem k)) (process_list k) = Some \<lparr>lhead = first NULL ns, ltail = final NULL ns, lsize = int (length ns)\<rparr>"
    by (simp_all add: lrep_def)
  obtain p where x: "cells (nodes (pmem k)) (fst (ns ! i)) =
      Some \<lparr>nxt = (if Suc i < length ns then fst (ns ! Suc i) else NULL), prv = p, node_data = snd (ns ! i)\<rparr>"
    using dseg_nth [OF d assms(2)] by blast
  have j: "j < length ns" using assms(2) unfolding j_def by (intro mod_less_divisor) linarith
  obtain x' p' where y: "cells (nodes (pmem k)) (fst (ns ! j)) = Some \<lparr>nxt = x', prv = p', node_data = snd (ns ! j)\<rparr>"
    using dseg_nth [OF d j] by blast
  obtain q where q: "cells (procs k) (snd (ns ! j)) = Some q"
    using assms(1) j by (fastforce simp: proc_rep_def)
  have nn: "Suc i < length ns \<Longrightarrow> fst (ns ! Suc i) \<noteq> NULL"
    using lrep_nonnull [OF l] by (metis image_eqI nth_mem)
  show ?thesis
  proof (cases "Suc i < length ns")
    case True
    then show ?thesis using x y q nn by (simp add: j_def store_simps rd_proc_def can_run_def)
  next
    case False
    then have "Suc i = length ns" "ns \<noteq> []" using assms(2) by auto
    then have "j = 0" "ns \<noteq> []" by (auto simp: j_def)
    then show ?thesis using x y q False L by (simp add: store_simps first_nth rd_proc_def can_run_def)
  qed
qed

lemma next_runnable_step:
  assumes "proc_rep k ns" "i < length ns"
  defines "j \<equiv> Suc i mod length ns"
  shows "next_runnable (fst (ns ! i)) k =
     (if can_run k (snd (ns ! j)) then Some (snd (ns ! j)) else next_runnable (fst (ns ! j)) k)"
proof -
  from succ_node [OF assms(1,2)] obtain x y q where
    "rd_node (fst (ns ! i)) (pmem k) = Some x"
    "(if nxt x = NULL then do { L \<leftarrow> rd_list (process_list k) (pmem k); Some (lhead L) } else Some (nxt x))
         = Some (fst (ns ! j))"
    "rd_node (fst (ns ! j)) (pmem k) = Some y" "node_data y = snd (ns ! j)"
    "rd_proc (snd (ns ! j)) k = Some q" "runnable q = can_run k (snd (ns ! j))"
    unfolding j_def by blast
  then show ?thesis by (subst next_runnable.simps) simp
qed

lemma next_runnable_some:
  assumes "proc_rep k ns" "i < length ns" "can_run k (snd (ns ! ((Suc i + d) mod length ns)))"
    and "\<forall>e < d. \<not> can_run k (snd (ns ! ((Suc i + e) mod length ns)))"
  shows "next_runnable (fst (ns ! i)) k = Some (snd (ns ! ((Suc i + d) mod length ns)))"
  using assms(2-)
proof (induction d arbitrary: i)
  case 0
  then show ?case using next_runnable_step [OF assms(1) 0(1)] by simp
next
  case (Suc d)
  let ?j = "Suc i mod length ns"
  have j: "?j < length ns" using Suc.prems(1) by (intro mod_less_divisor) linarith
  have shift: "(Suc ?j + e) mod length ns = (Suc i + Suc e) mod length ns" for e
    by (metis add_Suc add_Suc_right mod_add_left_eq mod_Suc_eq)
  have "next_runnable (fst (ns ! ?j)) k = Some (snd (ns ! ((Suc ?j + d) mod length ns)))"
    using Suc.prems(2,3) by (intro Suc.IH [OF j]) (auto simp only: shift Suc_less_eq)
  moreover have "\<not> can_run k (snd (ns ! ?j))" using Suc.prems(3) by (metis add.right_neutral zero_less_Suc)
  ultimately show ?case using next_runnable_step [OF assms(1) Suc.prems(1)] by (simp only: shift if_False)
qed

lemma next_runnable_sound:
  assumes "next_runnable node k = Some a"
  shows "proc_rep k ns \<longrightarrow> node \<in> fst ` set ns \<longrightarrow> can_run k a \<and> a \<in> snd ` set ns"
proof (rule next_runnable.raw_induct [OF _ assms])
  fix f node k a
  assume IH: "\<And>node k a. f node k = Some a \<Longrightarrow>
      proc_rep k ns \<longrightarrow> node \<in> fst ` set ns \<longrightarrow> can_run k a \<and> a \<in> snd ` set ns"
    and body: "do {
       x \<leftarrow> rd_node node (pmem k);
       nn \<leftarrow> (if nxt x = NULL then do { L \<leftarrow> rd_list (process_list k) (pmem k); Some (lhead L) }
              else Some (nxt x));
       y \<leftarrow> rd_node nn (pmem k);
       p \<leftarrow> rd_proc (node_data y) k;
       if runnable p then Some (node_data y) else f nn k } = Some a"
  show "proc_rep k ns \<longrightarrow> node \<in> fst ` set ns \<longrightarrow> can_run k a \<and> a \<in> snd ` set ns"
  proof (intro impI)
    assume r: "proc_rep k ns" and n: "node \<in> fst ` set ns"
    then obtain i where i: "i < length ns" "node = fst (ns ! i)" by (auto simp: in_set_conv_nth)
    let ?j = "Suc i mod length ns"
    have j: "?j < length ns" using i(1) by (intro mod_less_divisor) linarith
    from succ_node [OF r i(1)] obtain x y q where
      xyq: "rd_node node (pmem k) = Some x"
      "(if nxt x = NULL then do { L \<leftarrow> rd_list (process_list k) (pmem k); Some (lhead L) } else Some (nxt x))
         = Some (fst (ns ! ?j))"
      "rd_node (fst (ns ! ?j)) (pmem k) = Some y" "node_data y = snd (ns ! ?j)"
      "rd_proc (snd (ns ! ?j)) k = Some q" "runnable q = can_run k (snd (ns ! ?j))"
      unfolding i(2) by blast
    show "can_run k a \<and> a \<in> snd ` set ns"
    proof (cases "runnable q")
      case True
      then have "a = snd (ns ! ?j)" using body xyq by simp
      then show ?thesis using True xyq(6) j by simp
    next
      case False
      then have "f (fst (ns ! ?j)) k = Some a" using body xyq by simp
      moreover have "fst (ns ! ?j) \<in> fst ` set ns" using j by (metis image_eqI nth_mem)
      ultimately show ?thesis using IH r by blast
    qed
  qed
qed

text \<open>The second loop is the round robin; None is a loop that never ends.\<close>

lemma next_runnable_cyclic:
  assumes r: "proc_rep k ns" and i: "i < length ns"
  shows "next_runnable (fst (ns ! i)) k = cyclic_next (can_run k) (map snd ns) i"
proof (cases "cyclic_next (can_run k) (map snd ns) i")
  case None
  have "next_runnable (fst (ns ! i)) k \<noteq> Some a" for a
  proof
    assume "next_runnable (fst (ns ! i)) k = Some a"
    then have "can_run k a \<and> a \<in> snd ` set ns"
      using next_runnable_sound [of "fst (ns ! i)" k a ns] r i by simp
    with None show False by (auto simp: cyclic_next_def find_None_iff)
  qed
  then show ?thesis using None by (cases "next_runnable (fst (ns ! i)) k") auto
next
  case (Some a)
  then obtain d where d: "d < length ns" "can_run k (rotate (Suc i) (map snd ns) ! d)"
      "a = rotate (Suc i) (map snd ns) ! d" "\<forall>e < d. \<not> can_run k (rotate (Suc i) (map snd ns) ! e)"
    by (auto simp: cyclic_next_def find_Some_iff)
  have rot: "rotate (Suc i) (map snd ns) ! e = snd (ns ! ((Suc i + e) mod length ns))" if "e < length ns" for e
  proof -
    have "(Suc i + e) mod length ns < length ns" using that by (intro mod_less_divisor) linarith
    moreover have "rotate (Suc i) (map snd ns) ! e = map snd ns ! ((Suc i + e) mod length (map snd ns))"
      using that by (intro nth_rotate) simp
    moreover have "map snd ns ! ((Suc i + e) mod length (map snd ns)) = snd (ns ! ((Suc i + e) mod length ns))"
      using calculation(1) by (subst nth_map) (simp_all only: length_map)
    ultimately show ?thesis by (simp only:)
  qed
  have "next_runnable (fst (ns ! i)) k = Some (snd (ns ! ((Suc i + d) mod length ns)))"
    using d rot by (intro next_runnable_some [OF r i]) (auto simp del: rotate_Suc)
  then show ?thesis using Some d rot by simp
qed

lemma distinct_snd_nth: "distinct (map snd ns) \<Longrightarrow> i < length ns \<Longrightarrow> j < i \<Longrightarrow> snd (ns ! j) \<noteq> snd (ns ! i)"
  using nth_eq_iff_index_eq [of "map snd ns" i j] by auto

lemma sched_pick_cyclic:
  assumes r: "proc_rep k ns" and i: "i < length ns" "snd (ns ! i) = current_process k"
    and up: "process_next_up k = NULL"
  shows "sched_pick k = map_option (\<lambda>a. (a, k)) (cyclic_next (can_run k) (map snd ns) i)"
proof -
  from r have l: "lrep (pmem k) (process_list k) ns" and d: "distinct (map snd ns)" by (simp_all add: proc_rep_def)
  have "find_self (length ns) (current_process k) (first NULL ns) (pmem k) = Some (fst (ns ! i))"
    using l i distinct_snd_nth [OF d i(1)] by (intro find_self_dseg [of _ NULL]) (auto simp: lrep_def)
  then show ?thesis using l up next_runnable_cyclic [OF r i(1)]
    by (simp add: sched_pick_def lrep_def store_simps map_option_case split: option.split)
qed

lemma proc_rep_cong:
  assumes "proc_rep k ns" "pmem k' = pmem k" "process_list k' = process_list k"
    "store_wf (procs k')" "\<forall>a. cells (procs k') a = None \<longrightarrow> cells (procs k) a = None"
  shows "proc_rep k' ns"
  using assms by (fastforce simp: proc_rep_def)

lemma wr_proc_live [store_simps]:
  "cells (procs k) a = Some p \<Longrightarrow>
    wr_proc a f k = Some (k\<lparr>procs := (procs k)\<lparr>cells := (cells (procs k))(a \<mapsto> f p)\<rparr>\<rparr>)"
  by (simp add: wr_proc_def store_simps)

lemma rd_proc_simp [store_simps]: "rd_proc a k = cells (procs k) a"
  by (simp add: rd_proc_def store_simps)

lemma lookup_pid:
  assumes r: "proc_rep k ns"
  shows "process_get_data_from_pid n k =
     Some (case List.find (\<lambda>a. \<exists>p. cells (procs k) a = Some p \<and> pid p = n) (map snd ns) of None \<Rightarrow> NULL | Some a \<Rightarrow> a)"
proof -
  from r have l: "lrep (pmem k) (process_list k) ns" by (simp add: proc_rep_def)
  have c: "(avs_list_compare_pids k n a = 0) = (\<exists>p. cells (procs k) a = Some p \<and> pid p = n)" for a
    by (cases "cells (procs k) a") (auto simp: avs_list_compare_pids_def store_simps)
have f: "avs_list_find_data (avs_list_compare_pids k) (process_list k) n (pmem k) =
       Some (case List.find (\<lambda>x. \<exists>p. cells (procs k) (snd x) = Some p \<and> pid p = n) ns of None \<Rightarrow> NULL | Some p \<Rightarrow> fst p)"
    using find_data [OF l, of "avs_list_compare_pids k" n] by (simp only: c)
  have m: "List.find P (map snd ns) = map_option snd (List.find (P \<circ> snd) ns)" for P :: "addr \<Rightarrow> bool"
    by (induction ns) auto
  show ?thesis
  proof (cases "List.find (\<lambda>x. \<exists>p. cells (procs k) (snd x) = Some p \<and> pid p = n) ns")
    case None
    then show ?thesis using f m by (simp add: process_get_data_from_pid_def comp_def)
  next
    case (Some x)
    then have x: "x \<in> set ns" by (auto simp: find_Some_iff)
    then have "fst x \<noteq> NULL" using lrep_nonnull [OF l] by (metis image_eqI)
    moreover obtain y where "cells (nodes (pmem k)) (fst x) = Some y" "node_data y = snd x"
      using l x dseg_data [of "cells (nodes (pmem k))" NULL NULL ns "fst x" "snd x"] by (auto simp: lrep_def)
    ultimately show ?thesis using f m Some by (simp add: process_get_data_from_pid_def comp_def store_simps)
  qed
qed

end
