(* ===== verification/AddrSpace.thy ===== *)
theory AddrSpace
  imports Sched Boot
begin

text \<open>
  The address space the scheduler enters: the pages it maps, as a list of pairs
  of a virtual and a physical address, and the proof that entering makes each
  of them translate to its page, the last mapping of a page counting. The state
  of the examples is a kernel with three processes on the page tables the boot
  builds, identity map included.
\<close>

primrec map_pairs :: "(u64 \<times> u64) list \<Rightarrow> paging \<Rightarrow> paging option" where
  "map_pairs [] s = Some s"
| "map_pairs (x # xs) s = do { (v, s) \<leftarrow> page_map (fst x) (snd x) s; map_pairs xs s }"

definition last_mapping :: "(u64 \<times> u64) list \<Rightarrow> u64 \<Rightarrow> u64 option" where
  "last_mapping vs v = map_of (rev (map (\<lambda>x. (va_path (fst x), snd x)) vs)) (va_path v)"

definition section_pairs :: "process_exec_section list \<Rightarrow> (u64 \<times> u64) list" where
  "section_pairs secs = map (\<lambda>x. (sec_virt x, sec_phys x)) secs"

definition stack_pairs :: "nat \<Rightarrow> u64 \<Rightarrow> u64 \<Rightarrow> (u64 \<times> u64) list" where
  "stack_pairs n v p = map (\<lambda>i. (v + of_nat i * PAGE_SIZE, p + of_nat i * PAGE_SIZE)) [0..<n]"

definition address_space :: "process_data \<Rightarrow> process_data \<Rightarrow> (u64 \<times> u64) list" where
  "address_space p owner =
     (if pid p \<noteq> 0 then
        section_pairs (take (unat (data_section_count owner)) (data_sections owner))
        @ section_pairs (take (unat (text_section_count p)) (text_sections owner))
        @ section_pairs (take (unat (heap_page_count p)) (heap_pages owner))
      else [])
     @ stack_pairs PROCESS_DEFAULT_STACK_PAGES (proc_stack_virt p) (proc_stack_phys p)"

text \<open>The arrays hold as many elements as the counts the scheduler reads say.\<close>

definition sections_ok :: "process_data \<Rightarrow> process_data \<Rightarrow> bool" where
  "sections_ok p owner \<longleftrightarrow> unat (data_section_count owner) \<le> length (data_sections owner)
     \<and> unat (text_section_count p) \<le> length (text_sections owner)
     \<and> unat (heap_page_count p) \<le> length (heap_pages owner)"

lemma map_pairs_append: "map_pairs (xs @ ys) s = do { s \<leftarrow> map_pairs xs s; map_pairs ys s }"
proof (induction xs arbitrary: s)
  case (Cons x xs)
  then show ?case by (cases "page_map (fst x) (snd x) s") auto
qed simp

lemma map_sections_pairs:
  "n \<le> length secs \<Longrightarrow> map_sections n secs s = map_pairs (section_pairs (take n secs)) s"
proof (induction n arbitrary: secs s)
  case (Suc n)
  then obtain x xs where "secs = x # xs" by (cases secs) auto
  with Suc show ?case
    by (cases "page_map (sec_virt x) (sec_phys x) s") (auto simp: section_pairs_def)
qed (simp add: section_pairs_def)

lemma stack_pairs_Suc:
  "stack_pairs (Suc n) v p = (v, p) # stack_pairs n (v + PAGE_SIZE) (p + PAGE_SIZE)"
  by (simp add: stack_pairs_def map_upt_Suc algebra_simps del: upt_Suc)

lemma map_stack_pairs: "map_stack n v p s = map_pairs (stack_pairs n v p) s"
proof (induction n arbitrary: v p s)
  case (Suc n)
  then show ?case by (simp add: stack_pairs_Suc)
qed (simp add: stack_pairs_def)

lemma map_addr_space_pairs:
  "sections_ok p owner \<Longrightarrow> map_addr_space p owner s = map_pairs (address_space p owner) s"
  by (simp add: sections_ok_def map_addr_space_def address_space_def map_sections_pairs map_stack_pairs
      map_pairs_append)

text \<open>
  What entering the pages vs makes of the processor's translation: the pages of vs
  map to their frames, every other page as before, but for the kernel's window.
\<close>

definition enters :: "(u64 \<times> u64) list \<Rightarrow> paging \<Rightarrow> paging \<Rightarrow> bool" where
  "enters vs s s' \<longleftrightarrow> unat (k_current_pt_index s') \<le> unat (k_current_pt_index s) + 3 * length vs
     \<and> (\<forall>w. small_page w s \<longrightarrow> small_page w s')
     \<and> (\<forall>v. \<not> window_page s s' v \<longrightarrow> mmu_translate v s' = (case last_mapping vs v of
          Some p \<Rightarrow> Some (Page (p AND PAGE_ADDR_MASK) 0) | None \<Rightarrow> mmu_translate v s))"

lemma map_pairs_ok:
  assumes "paging_ok lev s" "room lev (n + 3 * length vs) s" "\<forall>x \<in> set vs. small_page (fst x) s"
  shows "\<exists>s' lev'. map_pairs vs s = Some s' \<and> paging_ok lev' s' \<and> room lev' n s' \<and> same_walks s s' \<and> enters vs s s'"
  using assms
proof (induction vs arbitrary: s lev)
  case Nil
  then show ?case by (auto simp: same_walks_refl last_mapping_def enters_def)
next
  case (Cons x vs)
  obtain a b where x: "x = (a, b)" by force
  have K: "frames s (cur_pt s) \<noteq> None" using Cons.prems(2) by (simp add: room_def)
  have b0: "bit (PAGE_FLAG_PRESENT OR PAGE_FLAG_READ_WRITE :: u64) 0" by simp
  have sm: "small_page a s" using Cons.prems(3) by (simp add: x)
  have "room lev ((n + 3 * length vs) + 3) s" using Cons.prems(2) by (simp add: algebra_simps)
  from map_then_translate [OF Cons.prems(1) this b0 _ sm, of 0 b] obtain s1 l1 where
    1: "page_map a b s = Some (a, s1)" "paging_ok l1 s1"
       "mmu_translate a s1 = Some (Page (b AND PAGE_ADDR_MASK) 0)"
       "\<forall>v. va_path v \<noteq> va_path a \<longrightarrow> \<not> window_page s s1 v \<longrightarrow> mmu_translate v s1 = mmu_translate v s"
       "\<forall>w. small_page w s \<longrightarrow> small_page w s1" "unat (k_current_pt_index s1) \<le> unat (k_current_pt_index s) + 3"
       "room l1 (n + 3 * length vs) s1" "same_walks s s1"
    unfolding page_map_def by blast
  have "\<forall>x \<in> set vs. small_page (fst x) s1" using 1(5) Cons.prems(3) by simp
  from Cons.IH [OF 1(2,7) this] obtain s2 l2 where
    2: "map_pairs vs s1 = Some s2" "paging_ok l2 s2" "room l2 n s2" "same_walks s1 s2" "enters vs s1 s2" by blast
  have "mmu_translate v s2 = (case last_mapping (x # vs) v of
          Some p \<Rightarrow> Some (Page (p AND PAGE_ADDR_MASK) 0) | None \<Rightarrow> mmu_translate v s)"
    if v: "\<not> window_page s s2 v" for v
  proof -
    have w: "\<not> window_page s s1 v" "\<not> window_page s1 s2 v" using v window_page_split [OF 1(8) 2(4) K] by blast+
    have e: "mmu_translate v s2 = (case last_mapping vs v of
          Some p \<Rightarrow> Some (Page (p AND PAGE_ADDR_MASK) 0) | None \<Rightarrow> mmu_translate v s1)"
      using 2(5) w(2) by (simp add: enters_def)
    have "va_path v = va_path a \<Longrightarrow> mmu_translate v s1 = mmu_translate a s1" by (simp add: mmu_translate_def)
    then have "mmu_translate v s1 =
        (if va_path v = va_path a then Some (Page (b AND PAGE_ADDR_MASK) 0) else mmu_translate v s)"
      using 1(3,4) w(1) by auto
    then show ?thesis using e by (auto simp: last_mapping_def x map_add_def split: option.split)
  qed
  moreover have "unat (k_current_pt_index s2) \<le> unat (k_current_pt_index s) + 3 * length (x # vs)"
    using 1(6) 2(5) by (simp add: enters_def)
  moreover have "\<forall>w. small_page w s \<longrightarrow> small_page w s2" using 1(5) 2(5) by (simp add: enters_def)
  ultimately have "enters (x # vs) s s2" by (simp add: enters_def)
  then show ?case using 1(1) 2 same_walks_trans [OF 1(8) 2(4)]
    by (intro exI [of _ s2] exI [of _ l2]) (simp add: x)
qed

section \<open>Yielding\<close>

lemma lookup_cong:
  assumes "pmem k' = pmem k" "process_list k' = process_list k"
    "\<And>a. map_option pid (cells (procs k') a) = map_option pid (cells (procs k) a)"
  shows "process_get_data_from_pid n k' = process_get_data_from_pid n k"
proof -
  have "avs_list_compare_pids k' x a = avs_list_compare_pids k x a" for x a
    using assms(3) [of a]
    by (cases "cells (procs k) a"; cases "cells (procs k') a") (auto simp: avs_list_compare_pids_def store_simps)
  then have "avs_list_compare_pids k' = avs_list_compare_pids k" by blast
  then show ?thesis using assms(1,2) by (simp only: process_get_data_from_pid_def)
qed

text \<open>The process whose sections the process np at address b uses.\<close>

definition owner_of :: "kernel_proc_data \<Rightarrow> addr \<Rightarrow> process_data \<Rightarrow> addr option" where
  "owner_of k b np = (if has_own_addr_space np then Some b else process_get_data_from_pid (pid_parent np) k)"

text \<open>The state behind a yield from old_p, with record po, to b, with record np.\<close>

definition yielded :: "addr \<Rightarrow> process_data \<Rightarrow> registers \<Rightarrow> addr \<Rightarrow> process_data \<Rightarrow> paging \<Rightarrow> kernel_proc_data \<Rightarrow> kernel_proc_data" where
  "yielded old_p po ctx b np s k = k\<lparr>current_process := b, pg := s,
     procs := (procs k)\<lparr>cells := (cells (procs k))
       (old_p \<mapsto> po\<lparr>pcontext := ctx, status := status_after_yield (status po)\<rparr>,
        b \<mapsto> np\<lparr>first_run := False, status := PROCESS_STATUS_ACTIVE\<rparr>)\<rparr>\<rparr>"

lemma yield_state:
  assumes pick: "sched_pick k = Some (b, k1)" and ne: "b \<noteq> current_process k"
    and k1: "pmem k1 = pmem k" "process_list k1 = process_list k" "procs k1 = procs k" "pg k1 = pg k"
    and po: "cells (procs k) (current_process k) = Some po" and np: "cells (procs k) b = Some np"
    and ow: "owner_of k b np = Some w" "cells (procs k) w = Some ow"
    and mp: "map_addr_space np ow (pg k) = Some s"
  shows "process_sched_yield ctx k = Some (pcontext np, yielded (current_process k) po ctx b np s k1)"
proof -
  let ?o = "current_process k"
  let ?po = "po\<lparr>pcontext := ctx, status := status_after_yield (status po)\<rparr>"
  define k2 where "k2 = k1\<lparr>current_process := b, procs := (procs k1)\<lparr>cells := (cells (procs k1))(?o \<mapsto> ?po)\<rparr>\<rparr>"
  have "process_get_data_from_pid (pid_parent np) k2 = process_get_data_from_pid (pid_parent np) k"
    using k1 po by (intro lookup_cong) (auto simp: k2_def)
  then have w: "(if has_own_addr_space np then Some b else process_get_data_from_pid (pid_parent np) k2) = Some w"
    using ow(1) by (simp only: owner_of_def)
  obtain ow' where ow': "cells (procs k2) w = Some ow'"
    "map_addr_space np ow' (pg k) = map_addr_space np ow (pg k)"
  proof (cases "w = ?o")
    case True
    then show ?thesis using that [of ?po] ow po k1 by (simp add: k2_def map_addr_space_def)
  next
    case False
    then show ?thesis using that [of ow] ow k1 by (simp add: k2_def)
  qed
  have np2: "cells (procs k2) b = Some np" using np ne k1 by (simp add: k2_def)
  have old: "wr_proc ?o (\<lambda>p. p\<lparr>pcontext := ctx\<rparr>) k1 =
      Some (k1\<lparr>procs := (procs k1)\<lparr>cells := (cells (procs k1))(?o \<mapsto> po\<lparr>pcontext := ctx\<rparr>)\<rparr>\<rparr>)"
    using po k1 by (simp add: store_simps)
  show ?thesis
    using pick ne np po k1 w ow' np2 mp
    unfolding process_sched_yield_def k2_def yielded_def
    by (simp add: old store_simps Let_def cong: if_cong option.case_cong)
qed

lemma store_wf_set_live:
  "store_wf s \<Longrightarrow> cells s a = Some v \<Longrightarrow> cells s b = Some w \<Longrightarrow>
    store_wf (s\<lparr>cells := (cells s)(a \<mapsto> x, b \<mapsto> y)\<rparr>)"
  by (auto simp: store_wf_def)

lemma yielded_rep:
  assumes "proc_rep k ns" "pmem k1 = pmem k" "process_list k1 = process_list k" "procs k1 = procs k"
    "cells (procs k) a = Some po" "cells (procs k) b = Some np"
  shows "proc_rep (yielded a po ctx b np s k1) ns"
  using assms store_wf_set_live [of "procs k" a po b np]
  by (intro proc_rep_cong [OF assms(1)]) (auto simp: yielded_def proc_rep_def)

text \<open>
  The page tables hold room for the address space of np, whose sections are those of ow, and none of
  its pages lies in a large page.
\<close>

definition can_enter :: "(u64 \<Rightarrow> nat) \<Rightarrow> process_data \<Rightarrow> process_data \<Rightarrow> paging \<Rightarrow> bool" where
  "can_enter lev np ow s \<longleftrightarrow> sections_ok np ow \<and> paging_ok lev s
     \<and> room lev (3 * length (address_space np ow)) s \<and> (\<forall>x \<in> set (address_space np ow). small_page (fst x) s)"

lemma enter_address_space:
  assumes "can_enter lev np ow s"
  shows "\<exists>s' lev'. map_addr_space np ow s = Some s' \<and> paging_ok lev' s' \<and> enters (address_space np ow) s s'"
proof -
  have "paging_ok lev s" "room lev (0 + 3 * length (address_space np ow)) s" "sections_ok np ow"
    "\<forall>x \<in> set (address_space np ow). small_page (fst x) s"
    using assms by (simp_all add: can_enter_def)
  from map_pairs_ok [OF this(1,2,4)] map_addr_space_pairs [OF this(3)] show ?thesis by metis
qed

lemma yield_to:
  assumes r: "proc_rep k ns" and pick: "sched_pick k = Some (b, k1)" and ne: "b \<noteq> current_process k"
    and k1: "pmem k1 = pmem k" "process_list k1 = process_list k" "procs k1 = procs k" "pg k1 = pg k"
    and po: "cells (procs k) (current_process k) = Some po" and np: "cells (procs k) b = Some np"
    and ow: "owner_of k b np = Some w" "cells (procs k) w = Some ow"
    and en: "can_enter lev np ow (pg k)"
  shows "\<exists>k'. process_sched_yield ctx k = Some (pcontext np, k') \<and> proc_rep k' ns \<and> current_process k' = b
    \<and> cells (procs k') b = Some (np\<lparr>first_run := False, status := PROCESS_STATUS_ACTIVE\<rparr>)
    \<and> cells (procs k') (current_process k) = Some (po\<lparr>pcontext := ctx, status := status_after_yield (status po)\<rparr>)
    \<and> (\<forall>a. a \<noteq> b \<longrightarrow> a \<noteq> current_process k \<longrightarrow> cells (procs k') a = cells (procs k) a)
    \<and> enters (address_space np ow) (pg k) (pg k')
    \<and> process_next_up k' = process_next_up k1"
proof -
  obtain s where s: "map_addr_space np ow (pg k) = Some s"
    "enters (address_space np ow) (pg k) s"
    using enter_address_space [OF en] by blast
  let ?k' = "yielded (current_process k) po ctx b np s k1"
  have "proc_rep ?k' ns" using yielded_rep [OF r k1(1-3) po np] .
  moreover have "process_sched_yield ctx k = Some (pcontext np, ?k')"
    using yield_state [OF pick ne k1 po np ow s(1)] .
  ultimately show ?thesis using s(2) ne k1(3)
    by (intro exI [of _ ?k'] conjI) (simp_all add: yielded_def)
qed

text \<open>Property C15: with no process set to run next, the scheduler runs the first process behind
  the current one, in creation order and around the end, that is inactive, active or asleep; when
  there is none its loop never ends.\<close>
theorem sched_is_round_robin:
  assumes "proc_rep k ns" "i < length ns" "snd (ns ! i) = current_process k" "process_next_up k = NULL"
  shows "sched_pick k = map_option (\<lambda>a. (a, k)) (cyclic_next (can_run k) (map snd ns) i)"
  by (rule sched_pick_cyclic [OF assms])



section \<open>A kernel with three processes\<close>

definition demo_proc :: "u32 \<Rightarrow> u32 \<Rightarrow> u8 \<Rightarrow> u32 \<Rightarrow> u64 \<Rightarrow> process_data" where
  "demo_proc n par st w phys = (set_fd 3 (\<lambda>d. d\<lparr>pfd_in_use := n = 2, pfd_vfs_fd := 254\<rparr>) (new_process n))
     \<lparr>pid_parent := par, status := st, wait_for_pid := w, has_own_addr_space := True,
      proc_stack_virt := 0xA0000000, proc_stack_phys := phys\<rparr>"

definition demo_kernel :: kernel_proc_data where
  "demo_kernel = \<lparr>
     procs = \<lparr>cells = [0x100 \<mapsto> demo_proc 0 0 PROCESS_STATUS_INACTIVE 0 0x800000,
                       0x200 \<mapsto> demo_proc 1 0 PROCESS_STATUS_WAITING 2 0x900000,
                       0x300 \<mapsto> demo_proc 2 1 PROCESS_STATUS_ACTIVE 0 0xA00000],
              avail = [(0x400, zero_process)]\<rparr>,
     pmem = \<lparr>lists = \<lparr>cells = [0x8 \<mapsto> \<lparr>lhead = 0x10, ltail = 0x30, lsize = 3\<rparr>], avail = []\<rparr>,
             nodes = \<lparr>cells = [0x10 \<mapsto> \<lparr>nxt = 0x20, prv = NULL, node_data = 0x100\<rparr>,
                               0x20 \<mapsto> \<lparr>nxt = 0x30, prv = 0x10, node_data = 0x200\<rparr>,
                               0x30 \<mapsto> \<lparr>nxt = NULL, prv = 0x20, node_data = 0x300\<rparr>],
                      avail = [(0x40, \<lparr>nxt = NULL, prv = NULL, node_data = 0\<rparr>)]\<rparr>\<rparr>,
     process_list = 0x8, pid_next = 3, kernel_pd = 0x100, root_pd = 0x200,
     current_process = 0x300, process_next_up = NULL, pg = demo_paging,
     global_fds = replicate VFS_FD_MAX (zero_vfs_fd\<lparr>vfd_in_use := True\<rparr>)\<rparr>"

abbreviation demo_ns :: "(addr \<times> addr) list" where
  "demo_ns \<equiv> [(0x10, 0x100), (0x20, 0x200), (0x30, 0x300)]"

lemma demo_proc_rep: "proc_rep demo_kernel demo_ns"
  by (auto simp: proc_rep_def lrep_def store_wf_def demo_kernel_def)

lemma demo_proc_sel:
  "pid (demo_proc n par st w ph) = n" "pid_parent (demo_proc n par st w ph) = par"
  "status (demo_proc n par st w ph) = st" "wait_for_pid (demo_proc n par st w ph) = w"
  "has_own_addr_space (demo_proc n par st w ph)"
  "length (file_descriptors (demo_proc n par st w ph)) = PROCESS_MAX_FDS"
  "data_section_count (demo_proc n par st w ph) = 0" "text_section_count (demo_proc n par st w ph) = 0"
  "proc_stack_virt (demo_proc n par st w ph) = 0xA0000000" "proc_stack_phys (demo_proc n par st w ph) = ph"
  "heap_page_count (demo_proc n par st w ph) = 0" "pcontext (demo_proc n par st w ph) = zero_registers"
  by (simp_all add: demo_proc_def new_process_def zero_process_def set_fd_def Let_def)

lemma demo_cells:
  "cells (procs demo_kernel) 0x100 = Some (demo_proc 0 0 PROCESS_STATUS_INACTIVE 0 0x800000)"
  "cells (procs demo_kernel) 0x200 = Some (demo_proc 1 0 PROCESS_STATUS_WAITING 2 0x900000)"
  "cells (procs demo_kernel) 0x300 = Some (demo_proc 2 1 PROCESS_STATUS_ACTIVE 0 0xA00000)"
  "current_process demo_kernel = 0x300" "process_next_up demo_kernel = NULL" "pg demo_kernel = demo_paging"
  by (simp_all add: demo_kernel_def)

lemma stack_path: "i < 16 \<Longrightarrow> va_path (0xA0000000 + of_nat i * PAGE_SIZE) = [0, 2, 256, i]"
proof -
  assume i: "i < 16"
  have "va_path (0xA0000000 :: u64) = [0, 2, 256, 0]" by (simp add: va_path_def)
  then have "butlast (va_path (0xA0000000 + of_nat i * PAGE_SIZE)) = [0, 2, 256]"
    "last (va_path (0xA0000000 + of_nat i * PAGE_SIZE)) = i"
    using path_pages [of "0xA0000000" i] i by simp_all
  then show ?thesis using va_path_snoc [of "0xA0000000 + of_nat i * PAGE_SIZE"] by simp
qed

lemma demo_enter: "\<exists>lev. can_enter lev (demo_proc n par st w ph) (demo_proc n par st w ph) demo_paging"
proof -
  obtain lev where lev: "boot_memory lev 100 demo_paging" using demo_memory by blast
  have "small_page (fst x) demo_paging" if "x \<in> set (stack_pairs 16 0xA0000000 ph)" for x
  proof -
    obtain i where "i < 16" "fst x = 0xA0000000 + of_nat i * PAGE_SIZE" using \<open>x \<in> _\<close> by (auto simp: stack_pairs_def)
    then have "va_path (fst x) = [0, 2, 256, i]" using stack_path by simp
    then have "user_page (fst x) demo_paging" by (intro demo_user_page) (simp_all add: va_path_def)
    then show ?thesis by (simp add: user_page_def)
  qed
  moreover have "room lev 48 demo_paging" using lev room_mono [of lev 100 demo_paging 48] by (simp add: boot_memory_def)
  ultimately show ?thesis using lev
    by (intro exI [of _ lev])
      (auto simp: can_enter_def sections_ok_def address_space_def demo_proc_sel section_pairs_def boot_memory_def stack_pairs_def)
qed

lemma demo_next: "cyclic_next (can_run demo_kernel) (map snd demo_ns) 2 = Some 0x100"
  by (simp add: cyclic_next_def numeral_2_eq_2 can_run_def demo_cells runnable_def demo_proc_sel)

lemma sched_is_round_robin_witness: "sched_pick demo_kernel = Some (0x100, demo_kernel)"
  using sched_is_round_robin [OF demo_proc_rep, of 2] demo_next by (simp add: demo_cells)


end
