(* ===== verification/ProcLife.thy ===== *)
theory ProcLife
  imports Syscalls AddrSpace
begin

text \<open>
  The life of a process: what exit, wait, fork and the yields between them do to
  the process table, the descriptor tables and the address space.
\<close>

section \<open>Descriptors\<close>

definition fds_ok :: "kernel_proc_data \<Rightarrow> process_data \<Rightarrow> bool" where
  "fds_ok k p \<longleftrightarrow> length (file_descriptors p) = PROCESS_MAX_FDS \<and> length (global_fds k) = VFS_FD_MAX"

text \<open>The state with the descriptors ds of process c, whose record is p, and the table g.\<close>

definition put_fds :: "addr \<Rightarrow> process_data \<Rightarrow> fd_process list \<Rightarrow> vfs_fd list \<Rightarrow> kernel_proc_data \<Rightarrow> kernel_proc_data" where
  "put_fds c p ds g k = k\<lparr>procs := (procs k)\<lparr>cells := (cells (procs k))(c \<mapsto> p\<lparr>file_descriptors := ds\<rparr>)\<rparr>,
     global_fds := g\<rparr>"

lemma put_fds_put_fds [simp]:
  "put_fds c (p\<lparr>file_descriptors := d1\<rparr>) d2 g2 (put_fds c p d1 g1 k) = put_fds c p d2 g2 k"
  by (simp add: put_fds_def)

lemma put_fds_self: "cells (procs k) c = Some p \<Longrightarrow> put_fds c p (file_descriptors p) (global_fds k) k = k"
  by (simp add: put_fds_def map_upd_triv)

lemma put_fds_sel [simp]:
  "cells (procs (put_fds c p ds g k)) = (cells (procs k))(c \<mapsto> p\<lparr>file_descriptors := ds\<rparr>)"
  "current_process (put_fds c p ds g k) = current_process k"
  "global_fds (put_fds c p ds g k) = g"
  by (simp_all add: put_fds_def)

definition closed_fd :: "fd_process \<Rightarrow> fd_process" where
  "closed_fd d = d\<lparr>pfd_in_use := False, pfd_was_used := True, pfd_pos := 0\<rparr>"

definition closed_vfs :: "vfs_fd \<Rightarrow> vfs_fd" where
  "closed_vfs e = e\<lparr>vfd_in_use := False, vfd_close_on_exec := False, vfd_inode_id := 0,
     vfd_ref_count := vfd_ref_count e - 1\<rparr>"

lemma close_in_use:
  assumes c: "current_process k = c" "cells (procs k) c = Some p" and f: "fds_ok k p"
    and i: "i < PROCESS_MAX_FDS" "pfd_in_use (file_descriptors p ! i)"
  shows "close_syscall_handler (int i) k =
     (let ds = (file_descriptors p)[i := closed_fd (file_descriptors p ! i)] in
      case vfs_get_fd_data (pfd_vfs_fd (file_descriptors p ! i)) of
        None \<Rightarrow> Some (-1, put_fds c p ds (global_fds k) k)
      | Some j \<Rightarrow> Some (1, put_fds c p ds ((global_fds k)[j := closed_vfs (global_fds k ! j)]) k))"
  using assms
  by (auto simp: close_syscall_handler_def store_simps nth_elem_def set_fd_def closed_fd_def put_fds_def
      closed_vfs_def set_vfs_fd_def fds_ok_def Let_def vfs_get_fd_data_def split: if_splits)

lemma exit_close_ok:
  assumes "current_process k = c" "cells (procs k) c = Some p" "fds_ok k p" "set is \<subseteq> {..<PROCESS_MAX_FDS}"
  shows "\<exists>ds g. exit_close is k = Some (put_fds c p ds g k) \<and> length ds = PROCESS_MAX_FDS \<and> length g = VFS_FD_MAX
     \<and> (\<forall>j < PROCESS_MAX_FDS. pfd_in_use (ds ! j) = (pfd_in_use (file_descriptors p ! j) \<and> \<not> (j \<in> set is \<and> 3 \<le> j))
           \<and> pfd_vfs_fd (ds ! j) = pfd_vfs_fd (file_descriptors p ! j))
     \<and> (\<forall>i < VFS_FD_MAX. vfd_in_use (g ! i) = (vfd_in_use (global_fds k ! i)
           \<and> \<not> (\<exists>j \<in> set is. 3 \<le> j \<and> pfd_in_use (file_descriptors p ! j)
                 \<and> vfs_get_fd_data (pfd_vfs_fd (file_descriptors p ! j)) = Some i)))"
  using assms
proof (induction "is" arbitrary: k p)
  case Nil
  then show ?case
    by (intro exI [of _ "file_descriptors p"] exI [of _ "global_fds k"]) (simp add: put_fds_self fds_ok_def)
next
  case (Cons i "is")
  let ?d = "file_descriptors p ! i"
  have i: "i < PROCESS_MAX_FDS" using Cons.prems(4) by simp
  have d: "nth_elem (file_descriptors p) i = Some ?d" using i Cons.prems(3) by (simp add: nth_elem_def fds_ok_def)
  show ?case
  proof (cases "pfd_in_use ?d \<and> 3 \<le> i")
    case False
    have "exit_close (i # is) k = exit_close is k"
      using False d Cons.prems(1,2) by (auto simp: store_simps not_less)
    moreover from Cons.IH [OF Cons.prems(1-3)] Cons.prems(4) obtain ds g where
      "exit_close is k = Some (put_fds c p ds g k)" "length ds = PROCESS_MAX_FDS" "length g = VFS_FD_MAX"
      "\<forall>j < PROCESS_MAX_FDS. pfd_in_use (ds ! j) = (pfd_in_use (file_descriptors p ! j) \<and> \<not> (j \<in> set is \<and> 3 \<le> j))
           \<and> pfd_vfs_fd (ds ! j) = pfd_vfs_fd (file_descriptors p ! j)"
      "\<forall>i < VFS_FD_MAX. vfd_in_use (g ! i) = (vfd_in_use (global_fds k ! i)
           \<and> \<not> (\<exists>j \<in> set is. 3 \<le> j \<and> pfd_in_use (file_descriptors p ! j)
                 \<and> vfs_get_fd_data (pfd_vfs_fd (file_descriptors p ! j)) = Some i))"
      by (auto simp del: One_nat_def)
    ultimately show ?thesis using False by (intro exI [of _ ds] exI [of _ g]) auto
  next
    case True
    define ds1 where "ds1 = (file_descriptors p)[i := closed_fd ?d]"
    define g1 where "g1 = (case vfs_get_fd_data (pfd_vfs_fd ?d) of None \<Rightarrow> global_fds k
        | Some j \<Rightarrow> (global_fds k)[j := closed_vfs (global_fds k ! j)])"
    let ?k1 = "put_fds c p ds1 g1 k" and ?p1 = "p\<lparr>file_descriptors := ds1\<rparr>"
    obtain r where "close_syscall_handler (int i) k = Some (r, ?k1)"
      using close_in_use [OF Cons.prems(1-3) i] True
      by (auto simp: Let_def ds1_def g1_def split: option.splits)
    then have e: "exit_close (i # is) k = exit_close is ?k1"
      using True d Cons.prems(1,2) by (simp add: store_simps)
    have f1: "fds_ok ?k1 ?p1" using Cons.prems(3) by (auto simp: fds_ok_def ds1_def g1_def split: option.split)
    from Cons.IH [OF _ _ f1] Cons.prems(1,4) obtain ds g where
      2: "exit_close is ?k1 = Some (put_fds c ?p1 ds g ?k1)" "length ds = PROCESS_MAX_FDS" "length g = VFS_FD_MAX"
      "\<forall>j < PROCESS_MAX_FDS. pfd_in_use (ds ! j) = (pfd_in_use (ds1 ! j) \<and> \<not> (j \<in> set is \<and> 3 \<le> j))
           \<and> pfd_vfs_fd (ds ! j) = pfd_vfs_fd (ds1 ! j)"
      "\<forall>i < VFS_FD_MAX. vfd_in_use (g ! i) = (vfd_in_use (g1 ! i)
           \<and> \<not> (\<exists>j \<in> set is. 3 \<le> j \<and> pfd_in_use (ds1 ! j) \<and> vfs_get_fd_data (pfd_vfs_fd (ds1 ! j)) = Some i))"
      by (auto simp del: One_nat_def)
    have ds1: "pfd_in_use (ds1 ! j) = (pfd_in_use (file_descriptors p ! j) \<and> j \<noteq> i)
        \<and> pfd_vfs_fd (ds1 ! j) = pfd_vfs_fd (file_descriptors p ! j)" if "j < PROCESS_MAX_FDS" for j
      using that i Cons.prems(3) by (cases "j = i") (auto simp: ds1_def closed_fd_def fds_ok_def)
    have g1: "vfd_in_use (g1 ! j) = (vfd_in_use (global_fds k ! j) \<and> vfs_get_fd_data (pfd_vfs_fd ?d) \<noteq> Some j)"
      if "j < VFS_FD_MAX" for j
      using that Cons.prems(3)
      by (cases "vfs_get_fd_data (pfd_vfs_fd ?d) = Some j")
         (auto simp: g1_def closed_vfs_def fds_ok_def split: option.splits)
    have sub: "j < PROCESS_MAX_FDS" if "j \<in> set is" for j using that Cons.prems(4) by auto
    have "put_fds c ?p1 ds g ?k1 = put_fds c p ds g k" by simp
    then show ?thesis using e 2(1-3) 2(4,5) ds1 g1 sub True
      by (intro exI [of _ ds] exI [of _ g] conjI) (auto simp del: One_nat_def)
  qed
qed

section \<open>Exit\<close>

text \<open>
  Exit of process c with record p, whose parent a with record pa waits for it:
  the state in which the final yield starts.
\<close>

definition exiting :: "addr \<Rightarrow> process_data \<Rightarrow> addr \<Rightarrow> process_data \<Rightarrow> int \<Rightarrow> kernel_proc_data \<Rightarrow> kernel_proc_data" where
  "exiting c p a pa code k = k\<lparr>process_next_up := a, procs := (procs k)\<lparr>cells := (cells (procs k))
     (a \<mapsto> pa\<lparr>status := PROCESS_STATUS_INACTIVE, wait_for_pid := 0\<rparr>,
      c \<mapsto> p\<lparr>exit_code := code, status := PROCESS_STATUS_WAITING_FOR_DEATH\<rparr>)\<rparr>\<rparr>"

lemma exit_notify_waiting:
  assumes "current_process k = c" "cells (procs k) c = Some p"
    and "process_get_data_from_pid (pid_parent p) k = Some a" "a \<noteq> NULL" "a \<noteq> c"
    and "cells (procs k) a = Some pa" "wait_for_pid pa = pid p"
  shows "exit_notify k = Some (k\<lparr>process_next_up := a, procs := (procs k)\<lparr>cells := (cells (procs k))
     (a \<mapsto> pa\<lparr>status := PROCESS_STATUS_INACTIVE, wait_for_pid := 0\<rparr>)\<rparr>\<rparr>)"
  using assms by (simp add: exit_notify_def store_simps process_set_next_up_def)

lemma exit_to_yield:
  assumes c: "current_process k = c" "cells (procs k) c = Some p" "fds_ok k p"
    and a: "process_get_data_from_pid (pid_parent p) k = Some a" "a \<noteq> NULL" "a \<noteq> c"
      "cells (procs k) a = Some pa" "wait_for_pid pa = pid p"
  shows "\<exists>ds g. exit_syscall_handler ctx code k
        = process_sched_yield ctx (exiting c (p\<lparr>file_descriptors := ds\<rparr>) a pa code (k\<lparr>global_fds := g\<rparr>))
     \<and> length ds = PROCESS_MAX_FDS \<and> length g = VFS_FD_MAX
     \<and> (\<forall>j < PROCESS_MAX_FDS. 3 \<le> j \<longrightarrow> \<not> pfd_in_use (ds ! j))
     \<and> (\<forall>i < VFS_FD_MAX. vfd_in_use (g ! i) = (vfd_in_use (global_fds k ! i)
           \<and> \<not> (\<exists>j < PROCESS_MAX_FDS. 3 \<le> j \<and> pfd_in_use (file_descriptors p ! j)
                 \<and> vfs_get_fd_data (pfd_vfs_fd (file_descriptors p ! j)) = Some i)))"
proof -
  have "set [0..<PROCESS_MAX_FDS] \<subseteq> {..<PROCESS_MAX_FDS}" by auto
  from exit_close_ok [OF c this] obtain ds g where
    e: "exit_close [0..<PROCESS_MAX_FDS] k = Some (put_fds c p ds g k)" and
    l: "length ds = PROCESS_MAX_FDS" "length g = VFS_FD_MAX" and
    d: "\<forall>j < PROCESS_MAX_FDS. pfd_in_use (ds ! j) = (pfd_in_use (file_descriptors p ! j) \<and> \<not> (j \<in> set [0..<PROCESS_MAX_FDS] \<and> 3 \<le> j))
           \<and> pfd_vfs_fd (ds ! j) = pfd_vfs_fd (file_descriptors p ! j)" and
    g: "\<forall>i < VFS_FD_MAX. vfd_in_use (g ! i) = (vfd_in_use (global_fds k ! i)
           \<and> \<not> (\<exists>j \<in> set [0..<PROCESS_MAX_FDS]. 3 \<le> j \<and> pfd_in_use (file_descriptors p ! j)
                 \<and> vfs_get_fd_data (pfd_vfs_fd (file_descriptors p ! j)) = Some i))"
    by blast
  let ?k1 = "put_fds c p ds g k" and ?p1 = "p\<lparr>file_descriptors := ds\<rparr>"
  let ?k2 = "?k1\<lparr>process_next_up := a, procs := (procs ?k1)\<lparr>cells := (cells (procs ?k1))
     (a \<mapsto> pa\<lparr>status := PROCESS_STATUS_INACTIVE, wait_for_pid := 0\<rparr>)\<rparr>\<rparr>"
  have "process_get_data_from_pid (pid_parent p) ?k1 = process_get_data_from_pid (pid_parent p) k"
    using c by (intro lookup_cong) (auto simp: put_fds_def)
  then have "exit_notify ?k1 = Some ?k2"
    using c a by (intro exit_notify_waiting [where p = ?p1 and c = c]) simp_all
  then have "exit_syscall_handler ctx code k = process_sched_yield ctx
      (?k2\<lparr>procs := (procs ?k2)\<lparr>cells := (cells (procs ?k2))(c \<mapsto> ?p1\<lparr>exit_code := code, status := PROCESS_STATUS_WAITING_FOR_DEATH\<rparr>)\<rparr>\<rparr>)"
    unfolding exit_syscall_handler_def e using c a(3) by (simp add: store_simps del: upt_Suc)
  also have "?k2\<lparr>procs := (procs ?k2)\<lparr>cells := (cells (procs ?k2))(c \<mapsto> ?p1\<lparr>exit_code := code, status := PROCESS_STATUS_WAITING_FOR_DEATH\<rparr>)\<rparr>\<rparr>
      = exiting c ?p1 a pa code (k\<lparr>global_fds := g\<rparr>)"
    using a(3) by (simp add: exiting_def put_fds_def fun_upd_twist)
  finally show ?thesis using l d g
    by (intro exI [of _ ds] exI [of _ g] conjI) (auto simp del: One_nat_def)
qed

text \<open>The parent a can be entered: its record, the one its sections come from, and the page tables.\<close>

definition enterable :: "kernel_proc_data \<Rightarrow> addr \<Rightarrow> process_data \<Rightarrow> bool" where
  "enterable k a np \<longleftrightarrow> (\<exists>w ow lev. owner_of k a np = Some w \<and> cells (procs k) w = Some ow \<and> can_enter lev np ow (pg k))"

lemma enterable_cong:
  assumes "enterable k a np" "pmem k' = pmem k" "process_list k' = process_list k" "pg k' = pg k"
    and "\<And>b. map_option pid (cells (procs k') b) = map_option pid (cells (procs k) b)"
    and "\<And>w ow. cells (procs k) w = Some ow \<Longrightarrow> \<exists>ow'. cells (procs k') w = Some ow'
           \<and> data_section_count ow' = data_section_count ow \<and> data_sections ow' = data_sections ow
           \<and> text_sections ow' = text_sections ow \<and> heap_pages ow' = heap_pages ow"
    and "has_own_addr_space np' = has_own_addr_space np" "pid_parent np' = pid_parent np" "pid np' = pid np"
      "text_section_count np' = text_section_count np" "heap_page_count np' = heap_page_count np"
      "proc_stack_virt np' = proc_stack_virt np" "proc_stack_phys np' = proc_stack_phys np"
  shows "enterable k' a np'"
proof -
  obtain w ow lev where w: "owner_of k a np = Some w" "cells (procs k) w = Some ow" "can_enter lev np ow (pg k)"
    using assms(1) by (auto simp: enterable_def)
  from assms(6) [OF w(2)] obtain ow' where o: "cells (procs k') w = Some ow'"
    "data_section_count ow' = data_section_count ow" "data_sections ow' = data_sections ow"
    "text_sections ow' = text_sections ow" "heap_pages ow' = heap_pages ow" by blast
  have "owner_of k' a np' = Some w"
    using w(1) lookup_cong [OF assms(2,3,5)] unfolding owner_of_def by (simp only: assms(7,8))
  moreover have "can_enter lev np' ow' (pg k')"
  proof -
    have "address_space np' ow' = address_space np ow" by (simp only: address_space_def o(2-) assms(9-))
    moreover have "sections_ok np' ow' = sections_ok np ow" by (simp only: sections_ok_def o(2-) assms(9-))
    ultimately show ?thesis using w(3) unfolding can_enter_def assms(4) by metis
  qed
  ultimately show ?thesis using o(1) by (auto simp: enterable_def)
qed

lemma yield_enterable:
  assumes "proc_rep k ns" "sched_pick k = Some (b, k1)" "b \<noteq> current_process k"
    and "pmem k1 = pmem k" "process_list k1 = process_list k" "procs k1 = procs k" "pg k1 = pg k"
    and "cells (procs k) (current_process k) = Some po" "cells (procs k) b = Some np" "enterable k b np"
  shows "\<exists>k'. process_sched_yield ctx k = Some (pcontext np, k') \<and> proc_rep k' ns \<and> current_process k' = b
    \<and> cells (procs k') b = Some (np\<lparr>first_run := False, status := PROCESS_STATUS_ACTIVE\<rparr>)
    \<and> cells (procs k') (current_process k) = Some (po\<lparr>pcontext := ctx, status := status_after_yield (status po)\<rparr>)
    \<and> (\<forall>a. a \<noteq> b \<longrightarrow> a \<noteq> current_process k \<longrightarrow> cells (procs k') a = cells (procs k) a)
    \<and> process_next_up k' = process_next_up k1 \<and> global_fds k' = global_fds k1 \<and> pid_next k' = pid_next k1"
proof -
  obtain w ow lev where w: "owner_of k b np = Some w" "cells (procs k) w = Some ow" "can_enter lev np ow (pg k)"
    using assms(10) by (auto simp: enterable_def)
  obtain s where s: "map_addr_space np ow (pg k) = Some s" using enter_address_space [OF w(3)] by blast
  let ?k' = "yielded (current_process k) po ctx b np s k1"
  have "proc_rep ?k' ns" using yielded_rep [OF assms(1,4-6,8,9)] .
  moreover have "process_sched_yield ctx k = Some (pcontext np, ?k')"
    using yield_state [OF assms(2-9) w(1,2) s] .
  ultimately show ?thesis using assms(3,6)
    by (intro exI [of _ ?k'] conjI) (simp_all add: yielded_def)
qed

text \<open>Property C17: when a process exits whose parent waits for it, its descriptors from 3 on are
  closed with their system entries (0 to 2 stay as they are), it is dead with its exit code, and the
  parent, if the page tables have room for its address space, runs at once with the registers it
  saved, no longer waiting.\<close>
theorem exit_wakes_parent:
  assumes r: "proc_rep k ns" and c: "current_process k = c" "cells (procs k) c = Some p" "fds_ok k p"
    and a: "process_get_data_from_pid (pid_parent p) k = Some a" "a \<noteq> NULL" "a \<noteq> c"
      "cells (procs k) a = Some pa" "wait_for_pid pa = pid p" "enterable k a pa"
  shows "\<exists>k' p'. exit_syscall_handler ctx code k = Some (pcontext pa, k') \<and> proc_rep k' ns
     \<and> current_process k' = a \<and> process_next_up k' = NULL
     \<and> cells (procs k') a = Some (pa\<lparr>status := PROCESS_STATUS_ACTIVE, wait_for_pid := 0, first_run := False\<rparr>)
     \<and> cells (procs k') c = Some p' \<and> status p' = PROCESS_STATUS_DEAD \<and> exit_code p' = code
     \<and> (\<forall>j < PROCESS_MAX_FDS. 3 \<le> j \<longrightarrow> \<not> pfd_in_use (file_descriptors p' ! j))
     \<and> (\<forall>i < VFS_FD_MAX. vfd_in_use (global_fds k' ! i) = (vfd_in_use (global_fds k ! i)
           \<and> \<not> (\<exists>j < PROCESS_MAX_FDS. 3 \<le> j \<and> pfd_in_use (file_descriptors p ! j)
                 \<and> vfs_get_fd_data (pfd_vfs_fd (file_descriptors p ! j)) = Some i)))
     \<and> (\<forall>b. b \<noteq> a \<longrightarrow> b \<noteq> c \<longrightarrow> cells (procs k') b = cells (procs k) b)"
proof -
  from exit_to_yield [OF c a(1-5), of ctx code] obtain ds g where
    e: "exit_syscall_handler ctx code k
        = process_sched_yield ctx (exiting c (p\<lparr>file_descriptors := ds\<rparr>) a pa code (k\<lparr>global_fds := g\<rparr>))" and
    d: "\<forall>j < PROCESS_MAX_FDS. 3 \<le> j \<longrightarrow> \<not> pfd_in_use (ds ! j)"
       "\<forall>i < VFS_FD_MAX. vfd_in_use (g ! i) = (vfd_in_use (global_fds k ! i)
           \<and> \<not> (\<exists>j < PROCESS_MAX_FDS. 3 \<le> j \<and> pfd_in_use (file_descriptors p ! j)
                 \<and> vfs_get_fd_data (pfd_vfs_fd (file_descriptors p ! j)) = Some i))" by blast
  let ?p1 = "p\<lparr>file_descriptors := ds\<rparr>"
  let ?k = "exiting c ?p1 a pa code (k\<lparr>global_fds := g\<rparr>)"
  let ?pa = "pa\<lparr>status := PROCESS_STATUS_INACTIVE, wait_for_pid := 0\<rparr>"
  let ?po = "?p1\<lparr>exit_code := code, status := PROCESS_STATUS_WAITING_FOR_DEATH\<rparr>"
  have ca: "cells (procs ?k) a = Some ?pa" "cells (procs ?k) c = Some ?po" using a(3) by (simp_all add: exiting_def)
  have "proc_rep ?k ns"
    using r c a(4) store_wf_set_live [of "procs k" a pa c p]
    by (intro proc_rep_cong [OF r]) (auto simp: exiting_def proc_rep_def)
  moreover have "sched_pick ?k = Some (a, ?k\<lparr>process_next_up := NULL\<rparr>)"
    using a(2) by (simp add: sched_pick_def exiting_def)
  moreover have "enterable ?k a ?pa"
    using c a by (intro enterable_cong [OF a(6)]) (auto simp: exiting_def)
  ultimately obtain k' where "process_sched_yield ctx ?k = Some (pcontext ?pa, k')" "proc_rep k' ns" "current_process k' = a"
    "cells (procs k') a = Some (?pa\<lparr>first_run := False, status := PROCESS_STATUS_ACTIVE\<rparr>)"
    "cells (procs k') c = Some (?po\<lparr>pcontext := ctx, status := status_after_yield (status ?po)\<rparr>)"
    "\<forall>b. b \<noteq> a \<longrightarrow> b \<noteq> c \<longrightarrow> cells (procs k') b = cells (procs ?k) b"
    "process_next_up k' = NULL" "global_fds k' = g"
    using yield_enterable [of ?k ns a "?k\<lparr>process_next_up := NULL\<rparr>" ?po ?pa ctx] ca c(1) a(3)
    by (auto simp: exiting_def)
  then show ?thesis using e d
    by (intro exI [of _ k'] exI [of _ "?po\<lparr>pcontext := ctx, status := status_after_yield (status ?po)\<rparr>"])
       (auto simp: status_after_yield_def exiting_def)
qed

lemma demo_enterable: "enterable demo_kernel a (demo_proc n par st w ph)"
  if "cells (procs demo_kernel) a = Some (demo_proc n par st w ph)"
  unfolding enterable_def
proof -
  obtain lev where "can_enter lev (demo_proc n par st w ph) (demo_proc n par st w ph) demo_paging"
    using demo_enter by blast
  moreover have "owner_of demo_kernel a (demo_proc n par st w ph) = Some a" by (simp add: owner_of_def demo_proc_sel)
  ultimately show "\<exists>x ow lev. owner_of demo_kernel a (demo_proc n par st w ph) = Some x
      \<and> cells (procs demo_kernel) x = Some ow \<and> can_enter lev (demo_proc n par st w ph) ow (pg demo_kernel)"
    using that by (auto simp: demo_cells)
qed

lemma demo_lookup: "process_get_data_from_pid 1 demo_kernel = Some 0x200"
  by (simp add: lookup_pid [OF demo_proc_rep] demo_cells demo_proc_sel)

lemma exit_wakes_parent_witness:
  "\<exists>k' p' q. exit_syscall_handler zero_registers 9 demo_kernel = Some (zero_registers, k')
     \<and> current_process k' = 0x200 \<and> cells (procs k') 0x200 = Some q \<and> status q = PROCESS_STATUS_ACTIVE
     \<and> cells (procs k') 0x300 = Some p' \<and> status p' = PROCESS_STATUS_DEAD \<and> exit_code p' = 9
     \<and> \<not> vfd_in_use (global_fds k' ! 254)"
proof -
  let ?p = "demo_proc 2 1 PROCESS_STATUS_ACTIVE 0 0xA00000" and ?pa = "demo_proc 1 0 PROCESS_STATUS_WAITING 2 0x900000"
  have f: "fds_ok demo_kernel ?p" by (simp add: fds_ok_def demo_proc_sel demo_kernel_def)
  have fd: "pfd_in_use (file_descriptors ?p ! 3)" "pfd_vfs_fd (file_descriptors ?p ! 3) = 254"
    by (simp_all add: demo_proc_def new_process_def zero_process_def set_fd_def Let_def)
  have "process_get_data_from_pid (pid_parent ?p) demo_kernel = Some 0x200"
    "wait_for_pid ?pa = pid ?p" by (simp_all add: demo_proc_sel demo_lookup)
  from exit_wakes_parent [OF demo_proc_rep demo_cells(4,3) f this(1) _ _ demo_cells(2) this(2)
      demo_enterable [OF demo_cells(2)], of zero_registers 9]
  obtain k' p' where k: "exit_syscall_handler zero_registers 9 demo_kernel = Some (pcontext ?pa, k')"
    "current_process k' = 0x200"
    "cells (procs k') 0x200 = Some (?pa\<lparr>status := PROCESS_STATUS_ACTIVE, wait_for_pid := 0, first_run := False\<rparr>)"
    "cells (procs k') 0x300 = Some p'" "status p' = PROCESS_STATUS_DEAD" "exit_code p' = 9"
    "\<forall>i < VFS_FD_MAX. vfd_in_use (global_fds k' ! i) = (vfd_in_use (global_fds demo_kernel ! i)
           \<and> \<not> (\<exists>j < PROCESS_MAX_FDS. 3 \<le> j \<and> pfd_in_use (file_descriptors ?p ! j)
                 \<and> vfs_get_fd_data (pfd_vfs_fd (file_descriptors ?p ! j)) = Some i))"
    by auto
  have "vfs_get_fd_data 254 = Some 254" by (simp add: vfs_get_fd_data_def)
  then have "\<exists>j < PROCESS_MAX_FDS. 3 \<le> j \<and> pfd_in_use (file_descriptors ?p ! j)
                 \<and> vfs_get_fd_data (pfd_vfs_fd (file_descriptors ?p ! j)) = Some 254"
    using fd by (intro exI [of _ 3]) simp
  then have "\<not> vfd_in_use (global_fds k' ! 254)" using k(7) by auto
  with k(1-6) show ?thesis by (simp add: demo_proc_sel)
qed

end
