(* ===== verification/ProcInv.thy ===== *)
theory ProcInv
  imports ProcLife
begin

text \<open>
  The process table as a state machine whose steps are system calls. kinv is
  the invariant between two calls: distinct process ids, no process but the
  current one active or exiting, no dead or waiting process running, and a
  wait_for_pid only in a waiting process. evolves is what a call may do to the
  processes that are dead, or that wait for a dead one.
\<close>

definition pr :: "kernel_proc_data \<Rightarrow> addr \<Rightarrow> process_data" where
  "pr k a = the (cells (procs k) a)"

definition ads :: "(addr \<times> addr) list \<Rightarrow> addr set" where
  "ads ns = snd ` set ns"

definition kinv0 :: "kernel_proc_data \<Rightarrow> (addr \<times> addr) list \<Rightarrow> bool" where
  "kinv0 k ns \<longleftrightarrow> proc_rep k ns \<and> current_process k \<in> ads ns
     \<and> inj_on (\<lambda>a. pid (pr k a)) (ads ns)
     \<and> (\<forall>a \<in> ads ns. pid (pr k a) < pid_next k
          \<and> (a \<noteq> current_process k \<longrightarrow>
               status (pr k a) \<noteq> PROCESS_STATUS_ACTIVE \<and> status (pr k a) \<noteq> PROCESS_STATUS_WAITING_FOR_DEATH)
          \<and> (wait_for_pid (pr k a) \<noteq> 0 \<longrightarrow> status (pr k a) = PROCESS_STATUS_WAITING)
          \<and> (pid (pr k a) = 0 \<longrightarrow> pid_parent (pr k a) = 0))
     \<and> status (pr k (current_process k)) \<noteq> PROCESS_STATUS_DEAD"

definition up_ok :: "kernel_proc_data \<Rightarrow> (addr \<times> addr) list \<Rightarrow> bool" where
  "up_ok k ns \<longleftrightarrow> process_next_up k = NULL
     \<or> process_next_up k = current_process k \<and> status (pr k (current_process k)) \<noteq> PROCESS_STATUS_WAITING
     \<or> process_next_up k \<in> ads ns \<and> process_next_up k \<noteq> current_process k
         \<and> status (pr k (process_next_up k)) = PROCESS_STATUS_INACTIVE"

definition kinv :: "kernel_proc_data \<Rightarrow> (addr \<times> addr) list \<Rightarrow> bool" where
  "kinv k ns \<longleftrightarrow> kinv0 k ns \<and> process_next_up k = NULL
     \<and> status (pr k (current_process k)) \<noteq> PROCESS_STATUS_WAITING"

definition stuck :: "kernel_proc_data \<Rightarrow> (addr \<times> addr) list \<Rightarrow> addr \<Rightarrow> bool" where
  "stuck k ns a \<longleftrightarrow> a \<in> ads ns \<and> status (pr k a) = PROCESS_STATUS_WAITING
     \<and> (\<exists>d \<in> ads ns. pid (pr k d) = wait_for_pid (pr k a) \<and> status (pr k d) = PROCESS_STATUS_DEAD)"

definition evolves :: "kernel_proc_data \<Rightarrow> (addr \<times> addr) list \<Rightarrow> kernel_proc_data \<Rightarrow> (addr \<times> addr) list \<Rightarrow> bool" where
  "evolves k ns k' ns' \<longleftrightarrow> ads ns \<subseteq> ads ns'
     \<and> (\<forall>a \<in> ads ns. pid (pr k' a) = pid (pr k a)
          \<and> (status (pr k a) = PROCESS_STATUS_DEAD \<longrightarrow> status (pr k' a) = PROCESS_STATUS_DEAD)
          \<and> (stuck k ns a \<longrightarrow> status (pr k' a) = PROCESS_STATUS_WAITING
               \<and> wait_for_pid (pr k' a) = wait_for_pid (pr k a)))"

lemma evolves_stuck: "evolves k ns k' ns' \<Longrightarrow> stuck k ns a \<Longrightarrow> stuck k' ns' a"
  unfolding evolves_def stuck_def by (metis subsetD)

lemma evolves_trans:
  assumes "evolves k ns k1 ns1" "evolves k1 ns1 k2 ns2"
  shows "evolves k ns k2 ns2"
  unfolding evolves_def
proof (intro conjI ballI)
  show "ads ns \<subseteq> ads ns2" using assms unfolding evolves_def by blast
  fix a assume a: "a \<in> ads ns"
  then have a1: "a \<in> ads ns1" using assms(1) unfolding evolves_def by blast
  show "pid (pr k2 a) = pid (pr k a)"
    using a a1 assms unfolding evolves_def by metis
  show "status (pr k a) = PROCESS_STATUS_DEAD \<longrightarrow> status (pr k2 a) = PROCESS_STATUS_DEAD"
    using a a1 assms unfolding evolves_def by metis
  show "stuck k ns a \<longrightarrow> status (pr k2 a) = PROCESS_STATUS_WAITING
               \<and> wait_for_pid (pr k2 a) = wait_for_pid (pr k a)"
    using a a1 assms evolves_stuck [OF assms(1), of a] unfolding evolves_def by metis
qed

text \<open>The parts of a record the invariant reads, and the operations that leave them alone.\<close>

definition tabview :: "process_data \<Rightarrow> u32 \<times> u32 \<times> u8 \<times> u32" where
  "tabview p = (pid p, pid_parent p, status p, wait_for_pid p)"

definition same_tab :: "kernel_proc_data \<Rightarrow> kernel_proc_data \<Rightarrow> bool" where
  "same_tab k k' \<longleftrightarrow> pmem k' = pmem k \<and> process_list k' = process_list k \<and> pid_next k' = pid_next k
     \<and> current_process k' = current_process k \<and> process_next_up k' = process_next_up k
     \<and> avail (procs k') = avail (procs k)
     \<and> (\<forall>a. map_option tabview (cells (procs k') a) = map_option tabview (cells (procs k) a))"

lemma same_tab_refl: "same_tab k k"
  by (simp add: same_tab_def)

lemma same_tab_trans: "same_tab k k1 \<Longrightarrow> same_tab k1 k2 \<Longrightarrow> same_tab k k2"
  by (simp add: same_tab_def)

lemma same_tab_fields: "same_tab k (k\<lparr>global_fds := g\<rparr>)" "same_tab k (k\<lparr>pg := s\<rparr>)"
  by (simp_all add: same_tab_def)

lemma same_tab_wr:
  "wr_proc a f k = Some k' \<Longrightarrow> (\<And>p. tabview (f p) = tabview p) \<Longrightarrow> same_tab k k'"
  by (cases "cells (procs k) a") (auto simp: store_simps wr_proc_def same_tab_def)

lemma same_tab_live: "same_tab k k' \<Longrightarrow> cells (procs k') a = None \<longleftrightarrow> cells (procs k) a = None"
  unfolding same_tab_def by (metis option.map_disc_iff)

lemma same_tab_pr:
  assumes "same_tab k k'" "cells (procs k) a \<noteq> None"
  shows "pid (pr k' a) = pid (pr k a)" "pid_parent (pr k' a) = pid_parent (pr k a)"
    "status (pr k' a) = status (pr k a)" "wait_for_pid (pr k' a) = wait_for_pid (pr k a)"
proof -
  obtain p where p: "cells (procs k) a = Some p" using assms(2) by auto
  then obtain p' where p': "cells (procs k') a = Some p'" using same_tab_live [OF assms(1), of a] by fastforce
  have "map_option tabview (cells (procs k') a) = map_option tabview (cells (procs k) a)"
    using assms(1) by (simp only: same_tab_def)
  then have "tabview p' = tabview p" using p p' by simp
  then show "pid (pr k' a) = pid (pr k a)" "pid_parent (pr k' a) = pid_parent (pr k a)"
    "status (pr k' a) = status (pr k a)" "wait_for_pid (pr k' a) = wait_for_pid (pr k a)"
    using p p' by (simp_all add: pr_def tabview_def)
qed

lemma same_tab_rep:
  assumes s: "same_tab k k'" and r: "proc_rep k ns"
  shows "proc_rep k' ns"
proof (rule proc_rep_cong [OF r])
  show "pmem k' = pmem k" "process_list k' = process_list k" using s by (simp_all add: same_tab_def)
  have "avail (procs k') = avail (procs k)" using s by (simp add: same_tab_def)
  then show "store_wf (procs k')" using r same_tab_live [OF s] by (simp add: proc_rep_def store_wf_def)
  show "\<forall>a. cells (procs k') a = None \<longrightarrow> cells (procs k) a = None" using same_tab_live [OF s] by simp
qed

lemma rep_live: "proc_rep k ns \<Longrightarrow> a \<in> ads ns \<Longrightarrow> cells (procs k) a \<noteq> None"
  by (auto simp: proc_rep_def ads_def)

lemma same_tab_kinv0:
  assumes s: "same_tab k k'" and i: "kinv0 k ns"
  shows "kinv0 k' ns" "up_ok k ns \<Longrightarrow> up_ok k' ns" "evolves k ns k' ns"
proof -
  have r: "proc_rep k ns" and c: "current_process k \<in> ads ns" using i by (simp_all add: kinv0_def)
  note eq = same_tab_pr [OF s rep_live [OF r]]
  have f: "current_process k' = current_process k" "process_next_up k' = process_next_up k" "pid_next k' = pid_next k"
    using s by (simp_all add: same_tab_def)
  have "inj_on (\<lambda>a. pid (pr k' a)) (ads ns) = inj_on (\<lambda>a. pid (pr k a)) (ads ns)"
    by (intro inj_on_cong) (simp add: eq)
  then show "kinv0 k' ns" using i same_tab_rep [OF s r] c unfolding kinv0_def f by (simp add: eq)
  show "up_ok k' ns" if "up_ok k ns" using that c unfolding up_ok_def f by (auto simp: eq)
  show "evolves k ns k' ns" unfolding evolves_def stuck_def by (auto simp: eq)
qed

section \<open>Yields\<close>

lemma sched_pick_keeps:
  "sched_pick k = Some (b, k1) \<Longrightarrow> k1 = k\<lparr>process_next_up := NULL\<rparr>"
  by (auto simp: sched_pick_def bind_Some_conv split: if_splits)

lemma wr_proc_dead: "cells (procs k) a = None \<Longrightarrow> wr_proc a f k = None"
  by (simp add: wr_proc_def store_simps)

lemma yield_cases:
  assumes "process_sched_yield ctx k = Some (ctx', k')"
  shows "\<exists>b. (\<exists>k1. sched_pick k = Some (b, k1))
     \<and> (b = current_process k \<and> k' = k\<lparr>process_next_up := NULL\<rparr>
        \<or> b \<noteq> current_process k \<and> (\<exists>po np s. cells (procs k) (current_process k) = Some po
             \<and> cells (procs k) b = Some np
             \<and> k' = yielded (current_process k) po ctx b np s (k\<lparr>process_next_up := NULL\<rparr>)))"
proof -
  obtain b k1 where pick: "sched_pick k = Some (b, k1)"
    using assms by (cases "sched_pick k") (auto simp: process_sched_yield_def)
  then have k1: "k1 = k\<lparr>process_next_up := NULL\<rparr>" by (rule sched_pick_keeps)
  show ?thesis
  proof (cases "b = current_process k")
    case True
    then show ?thesis using assms pick k1 by (intro exI [of _ b]) (auto simp: process_sched_yield_def)
  next
    case False
    let ?o = "current_process k"
    obtain po where po: "cells (procs k) ?o = Some po"
      using assms pick False k1
      by (cases "cells (procs k) ?o") (auto simp: process_sched_yield_def wr_proc_dead)
    obtain np where np: "cells (procs k) b = Some np"
      using assms pick False k1 po
      by (cases "cells (procs k) b") (auto simp: process_sched_yield_def store_simps)
    obtain s where "k' = yielded ?o po ctx b np s k1"
      using assms pick False k1 po np unfolding yielded_def
      by (auto simp: process_sched_yield_def store_simps Let_def bind_Some_conv)
    then show ?thesis using pick False po np k1 by (intro exI [of _ b]) blast
  qed
qed

lemma sched_pick_target:
  assumes r: "proc_rep k ns" and c: "current_process k \<in> ads ns" and u: "up_ok k ns"
    and pick: "sched_pick k = Some (b, k1)"
  shows "b \<in> ads ns \<and> (b = current_process k \<and> status (pr k b) \<noteq> PROCESS_STATUS_WAITING
     \<or> b \<noteq> current_process k \<and> runnable (pr k b))"
proof (cases "process_next_up k = NULL")
  case True
  obtain i where i: "i < length ns" "snd (ns ! i) = current_process k"
    using c by (auto simp: ads_def in_set_conv_nth)
  have "cyclic_next (can_run k) (map snd ns) i = Some b"
    using sched_pick_cyclic [OF r i True] pick
    by (cases "cyclic_next (can_run k) (map snd ns) i") auto
  then have b: "can_run k b" "b \<in> ads ns" by (auto simp: cyclic_next_def find_Some_iff ads_def in_set_conv_nth
      simp del: rotate_Suc) (metis image_eqI length_map length_rotate list.set_map nth_mem set_rotate)
  then have "runnable (pr k b)" by (auto simp: can_run_def pr_def split: option.splits)
  then show ?thesis using b(2) by (auto simp: runnable_def)
next
  case False
  then have "b = process_next_up k" using pick by (simp add: sched_pick_def)
  then show ?thesis using u c False by (auto simp: up_ok_def runnable_def)
qed

lemma pr_yielded:
  "pr (yielded c po ctx b np s k) a =
     (if a = b then np\<lparr>first_run := False, status := PROCESS_STATUS_ACTIVE\<rparr>
      else if a = c then po\<lparr>pcontext := ctx, status := status_after_yield (status po)\<rparr> else pr k a)"
  by (simp add: pr_def yielded_def)

lemma yield_inv:
  assumes i: "kinv0 k ns" and u: "up_ok k ns" and y: "process_sched_yield ctx k = Some (ctx', k')"
  shows "kinv k' ns" "evolves k ns k' ns"
proof -
  have r: "proc_rep k ns" and c: "current_process k \<in> ads ns" using i by (simp_all add: kinv0_def)
  from yield_cases [OF y] obtain b k1 where pick: "sched_pick k = Some (b, k1)" and
    res: "b = current_process k \<and> k' = k\<lparr>process_next_up := NULL\<rparr>
        \<or> b \<noteq> current_process k \<and> (\<exists>po np s. cells (procs k) (current_process k) = Some po
             \<and> cells (procs k) b = Some np
             \<and> k' = yielded (current_process k) po ctx b np s (k\<lparr>process_next_up := NULL\<rparr>))" by blast
  note b = sched_pick_target [OF r c u pick]
  have "kinv k' ns \<and> evolves k ns k' ns"
  proof (cases "b = current_process k")
    case True
    let ?k = "k\<lparr>process_next_up := NULL\<rparr>"
    have k': "k' = ?k" and p: "pr ?k a = pr k a" for a using res True by (auto simp: pr_def)
    have "proc_rep ?k ns" using r by (simp add: proc_rep_def)
    then show ?thesis using i b True unfolding k' kinv_def kinv0_def evolves_def stuck_def
      by (simp add: p)
  next
    case False
    then obtain po np s where po: "cells (procs k) (current_process k) = Some po" and np: "cells (procs k) b = Some np"
      and k': "k' = yielded (current_process k) po ctx b np s (k\<lparr>process_next_up := NULL\<rparr>)"
      using res by blast
    have ppo: "pr k (current_process k) = po" and pnp: "pr k b = np" using po np by (simp_all add: pr_def)
    have p0: "pr (k\<lparr>process_next_up := NULL\<rparr>) a = pr k a" for a by (simp add: pr_def)
    note p = pr_yielded [of "current_process k" po ctx b np s "k\<lparr>process_next_up := NULL\<rparr>", folded k', unfolded p0]
    have rb: "b \<in> ads ns" "runnable np" using b False pnp by simp_all
    then have st: "status np \<noteq> PROCESS_STATUS_DEAD" "status np \<noteq> PROCESS_STATUS_WAITING" by (auto simp: runnable_def)
    have rep: "proc_rep k' ns" unfolding k' using yielded_rep [OF r _ _ _ po np] by simp
    have pids: "pid (pr k' a) = pid (pr k a)" "pid_parent (pr k' a) = pid_parent (pr k a)"
      "wait_for_pid (pr k' a) = wait_for_pid (pr k a)" for a
      using ppo pnp by (simp_all add: p)
    have stat: "status (pr k' a) = (if a = b then PROCESS_STATUS_ACTIVE
        else if a = current_process k then status_after_yield (status po) else status (pr k a))" for a
      by (simp add: p)
    have cur: "current_process k' = b" "process_next_up k' = NULL" "pid_next k' = pid_next k"
      by (simp_all add: k' yielded_def)
    have say: "status_after_yield x \<noteq> PROCESS_STATUS_ACTIVE" "status_after_yield x \<noteq> PROCESS_STATUS_WAITING_FOR_DEATH"
      "x = PROCESS_STATUS_WAITING \<Longrightarrow> status_after_yield x = PROCESS_STATUS_WAITING" for x
      by (auto simp: status_after_yield_def)
    have inv: "(\<forall>a \<in> ads ns. pid (pr k a) < pid_next k
          \<and> (a \<noteq> current_process k \<longrightarrow>
               status (pr k a) \<noteq> PROCESS_STATUS_ACTIVE \<and> status (pr k a) \<noteq> PROCESS_STATUS_WAITING_FOR_DEATH)
          \<and> (wait_for_pid (pr k a) \<noteq> 0 \<longrightarrow> status (pr k a) = PROCESS_STATUS_WAITING)
          \<and> (pid (pr k a) = 0 \<longrightarrow> pid_parent (pr k a) = 0))"
      "inj_on (\<lambda>a. pid (pr k a)) (ads ns)" "status po \<noteq> PROCESS_STATUS_DEAD"
      using i ppo unfolding kinv0_def by blast+
    have "kinv k' ns"
      using rep rb inv pnp ppo st say unfolding kinv_def kinv0_def cur pids stat by auto
    moreover have "evolves k ns k' ns"
      using pnp ppo st inv(3) say unfolding evolves_def stuck_def pids stat by auto
    ultimately show ?thesis by blast
  qed
  then show "kinv k' ns" "evolves k ns k' ns" by blast+
qed

section \<open>Creation\<close>

lemma list_append_full:
  assumes "lrep m l ns" "avail (nodes m) = []"
  shows "avs_list_append l d m = None"
  using assms lrep_wf [OF assms(1)]
  by (simp add: avs_list_append_def avs_list_insert_after_def new_node_none store_simps)

lemma new_process_sel [simp]:
  "pid (new_process n) = n" "pid_parent (new_process n) = 0" "status (new_process n) = PROCESS_STATUS_IN_SETUP"
  "wait_for_pid (new_process n) = 0" "length (file_descriptors (new_process n)) = PROCESS_MAX_FDS"
  by (simp_all add: new_process_def zero_process_def set_fd_def Let_def)

lemma get_new_process:
  assumes r: "proc_rep k ns" and n: "process_get_new_process k = Some (n, k')"
  shows "\<exists>x a. a \<notin> ads ns \<and> a \<noteq> NULL \<and> proc_rep k' (ns @ [(x, a)]) \<and> n = pid_next k \<and> pid_next k' = n + 1
     \<and> cells (procs k') = (cells (procs k))(a \<mapsto> new_process n)
     \<and> current_process k' = current_process k \<and> process_next_up k' = process_next_up k
     \<and> pg k' = pg k \<and> global_fds k' = global_fds k \<and> process_list k' = process_list k"
proof -
  have w: "store_wf (procs k)" and l: "lrep (pmem k) (process_list k) ns" using r by (simp_all add: proc_rep_def)
  obtain a v rest where av: "avail (procs k) = (a, v) # rest"
    using n w by (cases "avail (procs k)") (auto simp: process_get_new_process_def store_simps wr_proc_dead Let_def)
  obtain x u rest' where nav: "avail (nodes (pmem k)) = (x, u) # rest'"
    using n av list_append_full [OF l]
    by (cases "avail (nodes (pmem k))") (auto simp: process_get_new_process_def store_simps Let_def)
  from list_append [OF l nav, of a] obtain m' where
    m': "avs_list_append (process_list k) a (pmem k) = Some (process_list k, m')"
      "fits (pmem k) m' (process_list k) ns (ns @ [(x, a)])" by blast
  have a: "a \<noteq> NULL" "cells (procs k) a = None" using store_wf_supply [OF w av] by simp_all
  then have an: "a \<notin> ads ns" using rep_live [OF r] by blast
  have k': "n = pid_next k" "k' = k\<lparr>procs := (procs k)\<lparr>cells := (cells (procs k))(a \<mapsto> new_process n), avail := rest\<rparr>,
      pid_next := n + 1, pmem := m'\<rparr>"
    using n av m'(1) by (auto simp: process_get_new_process_def store_simps Let_def)
  have "store_wf (procs k')" using store_wf_alloc [OF w av] by (simp add: k'(2))
  then have "proc_rep k' (ns @ [(x, a)])"
    using r an fits_lrep [OF m'(2)] by (auto simp: proc_rep_def k'(2) ads_def)
  then show ?thesis using a an k' by (intro exI [of _ x] exI [of _ a]) simp
qed

lemma ads_snoc: "ads (ns @ [(x, a)]) = insert a (ads ns)"
  by (auto simp: ads_def)

lemma lookup_unique:
  assumes r: "proc_rep k ns" and a: "a \<in> ads ns" "inj_on (\<lambda>a. pid (pr k a)) (ads ns)"
  shows "process_get_data_from_pid (pid (pr k a)) k = Some a"
proof -
  let ?P = "\<lambda>b. \<exists>p. cells (procs k) b = Some p \<and> pid p = pid (pr k a)"
  obtain p where p: "cells (procs k) a = Some p" using rep_live [OF r a(1)] by auto
  obtain b where b: "List.find ?P (map snd ns) = Some b"
  proof (cases "List.find ?P (map snd ns)")
    case None
    then have "\<not> ?P a" using a(1) by (auto simp: find_None_iff ads_def)
    then show ?thesis using p by (simp add: pr_def)
  qed auto
  then have "b \<in> ads ns" "?P b" by (auto simp: find_Some_iff ads_def)
  then have "b = a" using a by (auto simp: inj_on_def pr_def)
  then show ?thesis using b by (simp add: lookup_pid [OF r])
qed

text \<open>A process p with a new id, entered at a new address.\<close>

definition adds :: "kernel_proc_data \<Rightarrow> (addr \<times> addr) list \<Rightarrow> addr \<Rightarrow> kernel_proc_data \<Rightarrow> (addr \<times> addr) list \<Rightarrow> bool" where
  "adds k ns a k' ns' \<longleftrightarrow> a \<notin> ads ns \<and> ads ns' = insert a (ads ns) \<and> proc_rep k' ns'
     \<and> pid (pr k' a) = pid_next k \<and> pid_next k' = pid_next k + 1
     \<and> current_process k' = current_process k
     \<and> (\<forall>b \<in> ads ns. tabview (pr k' b) = tabview (pr k b))"

lemma adds_kinv0:
  assumes i: "kinv0 k ns" and d: "adds k ns a k' ns'" and nw: "pid_next k + 1 \<noteq> 0"
    and p: "status (pr k' a) \<noteq> PROCESS_STATUS_ACTIVE" "status (pr k' a) \<noteq> PROCESS_STATUS_WAITING_FOR_DEATH"
      "wait_for_pid (pr k' a) = 0" "pid_next k = 0 \<longrightarrow> pid_parent (pr k' a) = 0"
  shows "kinv0 k' ns'" "evolves k ns k' ns'"
proof -
  have f: "a \<notin> ads ns" "ads ns' = insert a (ads ns)" "proc_rep k' ns'" "pid (pr k' a) = pid_next k"
    "pid_next k' = pid_next k + 1" "current_process k' = current_process k"
    using d by (simp_all add: adds_def)
  have old: "pid (pr k' b) = pid (pr k b)" "pid_parent (pr k' b) = pid_parent (pr k b)"
    "status (pr k' b) = status (pr k b)" "wait_for_pid (pr k' b) = wait_for_pid (pr k b)" if "b \<in> ads ns" for b
    using d that by (auto simp: adds_def tabview_def)
  have inv: "current_process k \<in> ads ns" "inj_on (\<lambda>a. pid (pr k a)) (ads ns)"
    "\<forall>a \<in> ads ns. pid (pr k a) < pid_next k
          \<and> (a \<noteq> current_process k \<longrightarrow>
               status (pr k a) \<noteq> PROCESS_STATUS_ACTIVE \<and> status (pr k a) \<noteq> PROCESS_STATUS_WAITING_FOR_DEATH)
          \<and> (wait_for_pid (pr k a) \<noteq> 0 \<longrightarrow> status (pr k a) = PROCESS_STATUS_WAITING)
          \<and> (pid (pr k a) = 0 \<longrightarrow> pid_parent (pr k a) = 0)"
    "status (pr k (current_process k)) \<noteq> PROCESS_STATUS_DEAD"
    using i unfolding kinv0_def by blast+
  have less: "pid_next k < pid_next k + 1" using nw unatSuc [of "pid_next k"] by (simp add: word_less_nat_alt add.commute)
  have "inj_on (\<lambda>a. pid (pr k' a)) (ads ns)"
    using inv(2) by (subst inj_on_cong [where g = "\<lambda>a. pid (pr k a)"]) (simp_all add: old)
  moreover have "pid (pr k' a) \<notin> (\<lambda>a. pid (pr k' a)) ` ads ns"
    using inv(3) f(4) old by fastforce
  ultimately have "inj_on (\<lambda>a. pid (pr k' a)) (ads ns')"
    unfolding f(2) using f(1) by (simp add: inj_on_insert)
  moreover have "\<forall>b \<in> ads ns'. pid (pr k' b) < pid_next k'
          \<and> (b \<noteq> current_process k' \<longrightarrow>
               status (pr k' b) \<noteq> PROCESS_STATUS_ACTIVE \<and> status (pr k' b) \<noteq> PROCESS_STATUS_WAITING_FOR_DEATH)
          \<and> (wait_for_pid (pr k' b) \<noteq> 0 \<longrightarrow> status (pr k' b) = PROCESS_STATUS_WAITING)
          \<and> (pid (pr k' b) = 0 \<longrightarrow> pid_parent (pr k' b) = 0)"
    using inv(3) old p less unfolding f(2,5,6) by (auto simp: f(4) intro: less_trans)
  ultimately show "kinv0 k' ns'" using f inv(1,4) old unfolding kinv0_def by simp
  show "evolves k ns k' ns'"
    using f(2) unfolding evolves_def stuck_def by (auto simp: old)
qed

text \<open>The common part of fork and clone: a new process, and the caller's registers saved.\<close>

lemma spawn:
  assumes i: "kinv0 k ns" and nw: "pid_next k + 1 \<noteq> 0"
    and n: "process_get_new_process k = Some (n, k1)" and c: "process_get_data_from_pid n k1 = Some a"
    and w: "wr_proc (current_process k) (\<lambda>p. p\<lparr>pcontext := ctx\<rparr>) k1 = Some k2"
  shows "\<exists>x. adds k ns a k2 (ns @ [(x, a)]) \<and> (\<exists>q. cells (procs k2) a = Some q \<and> tabview q = (n, 0, PROCESS_STATUS_IN_SETUP, 0))
     \<and> n = pid_next k \<and> process_next_up k2 = process_next_up k"
proof -
  have r: "proc_rep k ns" and cur: "current_process k \<in> ads ns" using i by (simp_all add: kinv0_def)
  from get_new_process [OF r n] obtain x b where b: "b \<notin> ads ns" "b \<noteq> NULL" "proc_rep k1 (ns @ [(x, b)])"
    "n = pid_next k" "pid_next k1 = n + 1" "cells (procs k1) = (cells (procs k))(b \<mapsto> new_process n)"
    "current_process k1 = current_process k" "process_next_up k1 = process_next_up k" by blast
  have pb: "pr k1 b = new_process n" "\<And>d. d \<in> ads ns \<Longrightarrow> pr k1 d = pr k d" using b by (auto simp: pr_def)
  have d1: "adds k ns b k1 (ns @ [(x, b)])"
    using b pb by (simp add: adds_def ads_snoc)
  have "kinv0 k1 (ns @ [(x, b)])" using adds_kinv0(1) [OF i d1 nw] pb by simp
  then have "inj_on (\<lambda>a. pid (pr k1 a)) (ads (ns @ [(x, b)]))" by (simp add: kinv0_def)
  then have "a = b" using lookup_unique [OF b(3), of b] c pb(1) by (simp add: ads_snoc)
  have s: "same_tab k1 k2" using w by (rule same_tab_wr) (simp add: tabview_def)
  have l1: "cells (procs k1) d \<noteq> None" if "d \<in> ads (ns @ [(x, b)])" for d using rep_live [OF b(3) that] .
  have tv: "tabview (pr k2 d) = tabview (pr k1 d)" if "d \<in> ads (ns @ [(x, b)])" for d
    using same_tab_pr [OF s l1 [OF that]] by (simp add: tabview_def)
  have "adds k ns b k2 (ns @ [(x, b)])"
    using d1 tv same_tab_rep [OF s b(3)] s unfolding adds_def
    by (auto simp: ads_snoc same_tab_def tabview_def)
  moreover obtain q where "cells (procs k2) b = Some q"
    using same_tab_live [OF s, of b] b(6) by (cases "cells (procs k2) b") auto
  moreover from this have "tabview q = (n, 0, PROCESS_STATUS_IN_SETUP, 0)"
    using tv [of b] pb(1) by (simp add: ads_snoc tabview_def pr_def)
  ultimately show ?thesis using b(4,8) s \<open>a = b\<close> by (auto simp: same_tab_def)
qed

lemma adds_finish:
  assumes d: "adds k ns a k2 ns'" and q: "cells (procs k2) a = Some q" "tabview q = (pid_next k, 0, PROCESS_STATUS_IN_SETUP, 0)"
    and w: "wr_proc a (\<lambda>_. c) k2 = Some k3" and c: "pid c = pid q"
    and k': "k' = k3\<lparr>pg := s\<rparr>"
  shows "adds k ns a k' ns'" "pr k' a = c" "process_next_up k' = process_next_up k2"
proof -
  have k3: "k' = k2\<lparr>procs := (procs k2)\<lparr>cells := (cells (procs k2))(a \<mapsto> c)\<rparr>, pg := s\<rparr>"
    using w q(1) by (simp add: store_simps k')
  have r: "proc_rep k2 ns'" using d by (simp add: adds_def)
  have "proc_rep k' ns'"
    using r store_wf_update_cell [of "procs k2" a q c] q(1) by (intro proc_rep_cong [OF r]) (auto simp: k3 proc_rep_def)
  moreover have "pr k' b = (if b = a then c else pr k2 b)" for b by (simp add: pr_def k3)
  ultimately show "adds k ns a k' ns'" "pr k' a = c" "process_next_up k' = process_next_up k2"
    using d q c by (auto simp: adds_def k3 tabview_def)
qed

lemma fork_stack_tab:
  "fork_stack pp c s = Some (c', s') \<Longrightarrow> tabview c' = tabview c"
  by (auto simp: fork_stack_def bind_Some_conv tabview_def)

lemma fork_inv:
  assumes i: "kinv0 k ns" and nw: "pid_next k + 1 \<noteq> 0"
    and f: "fork_syscall_handler ctx k = Some (n, ctx', k')"
  shows "\<exists>ns'. kinv0 k' ns' \<and> evolves k ns k' ns' \<and> current_process k' = current_process k
     \<and> process_next_up k' = process_next_up k"
proof -
  from f obtain k1 a k2 pp q c1 s1 ds s2 ts s3 k3 where
    st: "process_get_new_process k = Some (n, k1)" "process_get_data_from_pid n k1 = Some a"
      "wr_proc (current_process k) (\<lambda>p. p\<lparr>pcontext := ctx\<rparr>) k1 = Some k2"
      "rd_proc (current_process k) k2 = Some pp" "rd_proc a k2 = Some q"
      "fork_stack pp ((inherit pp q)\<lparr>pcontext := pcontext pp\<rparr>) (pg k2) = Some (c1, s1)"
    and w: "wr_proc a (\<lambda>_. (inherit_symbols pp (c1\<lparr>data_section_count := data_section_count pp, data_sections := ds,
                 data_section_virt_start := data_section_virt_start pp, text_section_count := text_section_count pp,
                 text_sections := ts, text_secton_virt_start := text_secton_virt_start pp\<rparr>))
               \<lparr>status := PROCESS_STATUS_INACTIVE, pcontext := (pcontext (inherit_symbols pp (c1\<lparr>data_section_count := data_section_count pp, data_sections := ds,
                 data_section_virt_start := data_section_virt_start pp, text_section_count := text_section_count pp,
                 text_sections := ts, text_secton_virt_start := text_secton_virt_start pp\<rparr>)))\<lparr>rax := 0\<rparr>\<rparr>) k2 = Some k3"
      "k' = k3\<lparr>pg := s3\<rparr>"
    by (auto simp: fork_syscall_handler_def bind_Some_conv Let_def)
  let ?c = "(inherit_symbols pp (c1\<lparr>data_section_count := data_section_count pp, data_sections := ds,
                 data_section_virt_start := data_section_virt_start pp, text_section_count := text_section_count pp,
                 text_sections := ts, text_secton_virt_start := text_secton_virt_start pp\<rparr>))
               \<lparr>status := PROCESS_STATUS_INACTIVE, pcontext := (pcontext (inherit_symbols pp (c1\<lparr>data_section_count := data_section_count pp, data_sections := ds,
                 data_section_virt_start := data_section_virt_start pp, text_section_count := text_section_count pp,
                 text_sections := ts, text_secton_virt_start := text_secton_virt_start pp\<rparr>)))\<lparr>rax := 0\<rparr>\<rparr>"
  from spawn [OF i nw st(1-3)] st(5) obtain x where d: "adds k ns a k2 (ns @ [(x, a)])"
    "cells (procs k2) a = Some q" "tabview q = (pid_next k, 0, PROCESS_STATUS_IN_SETUP, 0)"
    "process_next_up k2 = process_next_up k" by (auto simp: store_simps)
  have t1: "tabview c1 = tabview (inherit pp q)" using fork_stack_tab [OF st(6)] by (simp add: tabview_def)
  then have c: "pid ?c = pid q" "wait_for_pid ?c = 0" "status ?c = PROCESS_STATUS_INACTIVE"
    using d(3) by (simp_all add: tabview_def inherit_def inherit_symbols_def)
  note e = adds_finish [OF d(1-3) w(1) c(1) w(2)]
  have "pid_next k \<noteq> 0" using i unfolding kinv0_def by (metis word_not_simps(1))
  then have "kinv0 k' (ns @ [(x, a)])" "evolves k ns k' (ns @ [(x, a)])"
    using adds_kinv0 [OF i e(1) nw] e(2) c by simp_all
  moreover have "current_process k' = current_process k" using e(1) by (simp add: adds_def)
  ultimately show ?thesis using e(3) d(4) by auto
qed

lemma clone_inv:
  assumes i: "kinv0 k ns" and nw: "pid_next k + 1 \<noteq> 0"
    and f: "clone_syscall_handler ctx start k = Some (ctx', k')"
  shows "\<exists>ns'. kinv k' ns' \<and> evolves k ns k' ns'"
proof -
  from f obtain n k1 a k2 pp q c1 s1 k3 where
    st: "process_get_new_process k = Some (n, k1)" "process_get_data_from_pid n k1 = Some a"
      "wr_proc (current_process k) (\<lambda>p. p\<lparr>pcontext := ctx\<rparr>) k1 = Some k2"
      "rd_proc (current_process k) k2 = Some pp" "rd_proc a k2 = Some q"
      "fork_stack pp ((inherit pp q)\<lparr>has_own_addr_space := False, ptype := PROCESS_TYPE_THREAD,
          pcontext := (pcontext pp)\<lparr>rip := start\<rparr>\<rparr>) (pg k2) = Some (c1, s1)"
    and w: "wr_proc a (\<lambda>_. (inherit_symbols pp (c1\<lparr>pcontext := (pcontext c1)\<lparr>rsp := proc_stack_virt c1 + ucast (stack_size c1) - 8\<rparr>\<rparr>))
               \<lparr>status := PROCESS_STATUS_INACTIVE\<rparr>) k2 = Some k3"
    and y: "process_sched_yield (ctx\<lparr>rax := of_int a\<rparr>) (process_set_next_up a (k3\<lparr>pg := s1\<rparr>)) = Some (ctx', k')"
    by (auto simp: clone_syscall_handler_def bind_Some_conv Let_def)
  let ?c = "(inherit_symbols pp (c1\<lparr>pcontext := (pcontext c1)\<lparr>rsp := proc_stack_virt c1 + ucast (stack_size c1) - 8\<rparr>\<rparr>))
               \<lparr>status := PROCESS_STATUS_INACTIVE\<rparr>"
  let ?k4 = "k3\<lparr>pg := s1\<rparr>"
  from spawn [OF i nw st(1-3)] st(5) obtain x where d: "adds k ns a k2 (ns @ [(x, a)])"
    "cells (procs k2) a = Some q" "tabview q = (pid_next k, 0, PROCESS_STATUS_IN_SETUP, 0)" by (auto simp: store_simps)
  have t1: "tabview c1 = tabview (inherit pp q)" using fork_stack_tab [OF st(6)] by (simp add: tabview_def)
  then have c: "pid ?c = pid q" "wait_for_pid ?c = 0" "status ?c = PROCESS_STATUS_INACTIVE"
    using d(3) by (simp_all add: tabview_def inherit_def inherit_symbols_def)
  note e = adds_finish [OF d(1-3) w c(1) refl, of s1]
  have "pid_next k \<noteq> 0" using i unfolding kinv0_def by (metis word_not_simps(1))
  then have j: "kinv0 ?k4 (ns @ [(x, a)])" "evolves k ns ?k4 (ns @ [(x, a)])"
    using adds_kinv0 [OF i e(1) nw] e(2) c by simp_all
  let ?k5 = "process_set_next_up a ?k4"
  have p5: "pr ?k5 b = pr ?k4 b" for b by (simp add: pr_def process_set_next_up_def)
  have f5: "current_process ?k5 = current_process ?k4" "pid_next ?k5 = pid_next ?k4" "process_next_up ?k5 = a"
    "proc_rep ?k5 m = proc_rep ?k4 m" for m by (simp_all add: process_set_next_up_def proc_rep_def)
  have "kinv0 ?k5 (ns @ [(x, a)])" using j(1) unfolding kinv0_def p5 f5 .
  moreover have "evolves k ns ?k5 (ns @ [(x, a)])" using j(2) unfolding evolves_def stuck_def p5 .
  moreover have "up_ok ?k5 (ns @ [(x, a)])"
  proof -
    have "a \<notin> ads ns" "current_process ?k4 = current_process k" "current_process k \<in> ads ns"
      using e(1) i by (simp_all add: adds_def kinv0_def)
    then have "a \<noteq> current_process ?k4" by auto
    then show ?thesis using e(2) c(3) unfolding up_ok_def f5 p5 by (simp add: ads_snoc)
  qed
  ultimately show ?thesis using yield_inv [OF _ _ y] evolves_trans by blast
qed


section \<open>Exit, wait and the files\<close>

lemma same_tab_close: "close_syscall_handler fd k = Some (r, k') \<Longrightarrow> same_tab k k'"
  unfolding close_syscall_handler_def
  by (auto simp: bind_Some_conv set_fd_def tabview_def same_tab_refl same_tab_fields split: if_splits option.splits
      dest!: same_tab_wr elim!: same_tab_trans)

lemma same_tab_exit_close: "exit_close is k = Some k' \<Longrightarrow> same_tab k k'"
proof (induction "is" arbitrary: k)
  case (Cons i "is")
  then show ?case
    by (auto simp: bind_Some_conv split: if_splits dest: same_tab_close intro: same_tab_trans)
qed (simp add: same_tab_refl)

lemma same_tab_alloc: "process_alloc_fd a k = Some (r, k') \<Longrightarrow> same_tab k k'"
  unfolding process_alloc_fd_def
  by (cases "rd_proc a k"; cases "alloc_scan [0..<PROCESS_MAX_FDS] (file_descriptors (the (rd_proc a k)))")
     (auto simp: bind_Some_conv tabview_def dest!: same_tab_wr)

lemma same_tab_put: "same_tab k k1 \<Longrightarrow> same_tab k (k1\<lparr>global_fds := g\<rparr>)"
  by (simp add: same_tab_def)

lemma same_tab_free: "process_free_fd a fd k = Some k' \<Longrightarrow> same_tab k k'"
  unfolding process_free_fd_def
  by (auto simp: tabview_def set_fd_def same_tab_refl split: if_splits dest!: same_tab_wr)

lemma same_tab_set_fd: "wr_proc a (set_fd n f) k = Some k' \<Longrightarrow> same_tab k k'"
  by (erule same_tab_wr) (simp add: tabview_def set_fd_def)

lemma same_tab_open: "open_syscall_handler env path flags k = Some (r, k') \<Longrightarrow> same_tab k k'"
  unfolding open_syscall_handler_def Let_def
  by (auto simp: bind_Some_conv same_tab_refl split: if_splits option.splits
      dest!: same_tab_alloc same_tab_free same_tab_set_fd intro!: same_tab_put)
     (blast intro: same_tab_trans)+

lemma wr_proc_pr:
  assumes "wr_proc a f k = Some k'"
  shows "pr k' b = (if b = a then f (pr k a) else pr k b)"
    and "current_process k' = current_process k" "process_next_up k' = process_next_up k" "pid_next k' = pid_next k"
    and "proc_rep k ns \<Longrightarrow> proc_rep k' ns"
proof -
  obtain p where p: "cells (procs k) a = Some p" using assms by (cases "cells (procs k) a") (auto simp: wr_proc_dead)
  then have k': "k' = k\<lparr>procs := (procs k)\<lparr>cells := (cells (procs k))(a \<mapsto> f p)\<rparr>\<rparr>"
    using assms by (simp add: store_simps)
  show "pr k' b = (if b = a then f (pr k a) else pr k b)"
    "current_process k' = current_process k" "process_next_up k' = process_next_up k" "pid_next k' = pid_next k"
    using p by (simp_all add: k' pr_def)
  show "proc_rep k' ns" if r: "proc_rep k ns"
    using store_wf_update_cell [of "procs k" a p "f p"] p r
    by (intro proc_rep_cong [OF r]) (auto simp: k' proc_rep_def)
qed

lemma lookup_in_list:
  assumes "proc_rep k ns" "process_get_data_from_pid n k = Some a" "a \<noteq> NULL"
  shows "a \<in> ads ns" "pid (pr k a) = n"
proof -
  from assms(2,3) obtain b where b: "List.find (\<lambda>a. \<exists>p. cells (procs k) a = Some p \<and> pid p = n) (map snd ns) = Some b" "a = b"
    by (auto simp: lookup_pid [OF assms(1)] split: option.splits)
  then show "a \<in> ads ns" "pid (pr k a) = n" by (auto simp: find_Some_iff ads_def pr_def)
qed

text \<open>The record of one process changes; the invariant with what is asked of the new record.\<close>

lemma change_one:
  assumes i: "kinv0 k ns" and a: "a \<in> ads ns" and u: "process_next_up k = NULL"
    and p: "\<And>b. pr k' b = (if b = a then q else pr k b)" and r: "proc_rep k' ns"
    and f: "current_process k' = current_process k" "pid_next k' = pid_next k"
    and q: "pid q = pid (pr k a)" "pid_parent q = pid_parent (pr k a)"
      "wait_for_pid q \<noteq> 0 \<longrightarrow> status q = PROCESS_STATUS_WAITING" "status q \<noteq> PROCESS_STATUS_DEAD"
      "a \<noteq> current_process k \<longrightarrow> status q \<noteq> PROCESS_STATUS_ACTIVE \<and> status q \<noteq> PROCESS_STATUS_WAITING_FOR_DEATH"
    and o: "status (pr k a) \<noteq> PROCESS_STATUS_DEAD" "\<not> stuck k ns a"
  shows "kinv0 k' ns" "evolves k ns k' ns"
proof -
  have pid: "pid (pr k' b) = pid (pr k b)" "pid_parent (pr k' b) = pid_parent (pr k b)" for b
    using q(1,2) by (simp_all add: p)
  have inv: "current_process k \<in> ads ns" "inj_on (\<lambda>a. pid (pr k a)) (ads ns)"
    "\<forall>a \<in> ads ns. pid (pr k a) < pid_next k
          \<and> (a \<noteq> current_process k \<longrightarrow>
               status (pr k a) \<noteq> PROCESS_STATUS_ACTIVE \<and> status (pr k a) \<noteq> PROCESS_STATUS_WAITING_FOR_DEATH)
          \<and> (wait_for_pid (pr k a) \<noteq> 0 \<longrightarrow> status (pr k a) = PROCESS_STATUS_WAITING)
          \<and> (pid (pr k a) = 0 \<longrightarrow> pid_parent (pr k a) = 0)"
    "status (pr k (current_process k)) \<noteq> PROCESS_STATUS_DEAD"
    using i unfolding kinv0_def by blast+
  show "kinv0 k' ns" unfolding kinv0_def f pid using r inv q(3-5) p by auto
  show "evolves k ns k' ns" unfolding evolves_def pid using o p by (auto simp: stuck_def)
qed

lemma exit_notify_inv:
  assumes i: "kinv k ns" and n: "exit_notify k = Some k'"
  shows "kinv0 k' ns \<and> evolves k ns k' ns \<and> current_process k' = current_process k
     \<and> wait_for_pid (pr k' (current_process k)) = 0
     \<and> (process_next_up k' = NULL \<or> process_next_up k' \<in> ads ns
          \<and> (process_next_up k' = current_process k \<or> status (pr k' (process_next_up k')) = PROCESS_STATUS_INACTIVE))"
proof -
  let ?c = "current_process k"
  have i0: "kinv0 k ns" and u: "process_next_up k = NULL" and w: "status (pr k ?c) \<noteq> PROCESS_STATUS_WAITING"
    using i by (simp_all add: kinv_def)
  have r: "proc_rep k ns" and c: "?c \<in> ads ns" and inj: "inj_on (\<lambda>a. pid (pr k a)) (ads ns)"
    and alive: "status (pr k ?c) \<noteq> PROCESS_STATUS_DEAD" using i0 by (simp_all add: kinv0_def)
  have w0: "wait_for_pid (pr k ?c) = 0" using i0 c w unfolding kinv0_def by blast
  have refl: "evolves k ns k ns" using same_tab_kinv0(3) [OF same_tab_refl i0] .
  have "cells (procs k) ?c \<noteq> None" by (rule rep_live [OF r c])
  then have rd: "rd_proc ?c k = Some (pr k ?c)" by (auto simp: store_simps pr_def)
  from n rd obtain a where a: "process_get_data_from_pid (pid_parent (pr k ?c)) k = Some a"
    by (auto simp: exit_notify_def bind_Some_conv)
  show ?thesis
  proof (cases "a \<noteq> NULL \<and> wait_for_pid (pr k a) = pid (pr k ?c)")
    case False
    have "k' = k"
    proof (cases "a = NULL")
      case True
      then show ?thesis using n rd a by (simp add: exit_notify_def)
    next
      case a0: False
      then have "a \<in> ads ns" using lookup_in_list [OF r a] by simp
      then have "rd_proc a k = Some (pr k a)" using rep_live [OF r] by (auto simp: store_simps pr_def)
      then show ?thesis using n rd a False a0 by (simp add: exit_notify_def)
    qed
    then show ?thesis using i0 refl u w0 by simp
  next
    case True
    then have al: "a \<in> ads ns" "pid (pr k a) = pid_parent (pr k ?c)" using lookup_in_list [OF r a] by simp_all
    then have ra: "rd_proc a k = Some (pr k a)" using rep_live [OF r] by (auto simp: store_simps pr_def)
    obtain k1 k2 where k12: "wr_proc a (\<lambda>p. p\<lparr>status := PROCESS_STATUS_INACTIVE\<rparr>) k = Some k1"
      "wr_proc a (\<lambda>p. p\<lparr>wait_for_pid := 0\<rparr>) k1 = Some k2" "k' = process_set_next_up a k2"
      using n rd a True ra by (auto simp: exit_notify_def bind_Some_conv)
    note w1 = wr_proc_pr [OF k12(1)] and w2 = wr_proc_pr [OF k12(2)]
    have p': "pr k' b = (if b = a then (pr k a)\<lparr>status := PROCESS_STATUS_INACTIVE, wait_for_pid := 0\<rparr> else pr k b)" for b
      by (simp add: k12(3) process_set_next_up_def pr_def w1(1) [unfolded pr_def] w2(1) [unfolded pr_def])
    have f: "current_process k' = ?c" "pid_next k' = pid_next k" "process_next_up k' = a"
      using w1(2,4) w2(2,4) by (simp_all add: k12(3) process_set_next_up_def)
    have r': "proc_rep k' ns" using w2(5) [OF w1(5) [OF r]] by (simp add: k12(3) process_set_next_up_def proc_rep_def)
    have dead: "status (pr k a) \<noteq> PROCESS_STATUS_DEAD"
    proof
      assume d: "status (pr k a) = PROCESS_STATUS_DEAD"
      then have "wait_for_pid (pr k a) = 0" using i0 al(1) unfolding kinv0_def by force
      then have "pid (pr k ?c) = 0" using True by simp
      then have "pid (pr k a) = pid (pr k ?c)" using i0 c al(2) unfolding kinv0_def by simp
      then have "a = ?c" using inj_onD [OF inj _ al(1) c] by blast
      then show False using d alive by simp
    qed
    have nst: "\<not> stuck k ns a"
    proof
      assume "stuck k ns a"
      then obtain d where "d \<in> ads ns" "pid (pr k d) = pid (pr k ?c)" "status (pr k d) = PROCESS_STATUS_DEAD"
        using True by (auto simp: stuck_def)
      moreover from this have "d = ?c" using inj_onD [OF inj _ _ c] by blast
      ultimately show False using alive by simp
    qed
    have "kinv0 k' ns" "evolves k ns k' ns"
      using change_one [OF i0 al(1) u p' r' f(1,2) _ _ _ _ _ dead nst] by simp_all
    then show ?thesis using f al(1) p' w0 by auto
  qed
qed

lemma exit_inv:
  assumes i: "kinv k ns" and e: "exit_syscall_handler ctx code k = Some (ctx', k')"
  shows "kinv k' ns" "evolves k ns k' ns"
proof -
  from e obtain k1 k2 k3 k4 where s: "exit_close [0..<PROCESS_MAX_FDS] k = Some k1" "exit_notify k1 = Some k2"
    "wr_proc (current_process k2) (\<lambda>p. p\<lparr>exit_code := code\<rparr>) k2 = Some k3"
    "wr_proc (current_process k3) (\<lambda>p. p\<lparr>status := PROCESS_STATUS_WAITING_FOR_DEATH\<rparr>) k3 = Some k4"
    "process_sched_yield ctx k4 = Some (ctx', k')"
    by (auto simp: exit_syscall_handler_def bind_Some_conv simp del: upt_Suc)
  let ?c = "current_process k"
  have i0: "kinv0 k ns" and u: "process_next_up k = NULL" and w: "status (pr k ?c) \<noteq> PROCESS_STATUS_WAITING"
    using i by (simp_all add: kinv_def)
  note t1 = same_tab_exit_close [OF s(1)]
  note j1 = same_tab_kinv0 [OF t1 i0]
  have c: "?c \<in> ads ns" using i0 by (simp add: kinv0_def)
  have "cells (procs k) ?c \<noteq> None" using i0 c by (intro rep_live) (simp_all add: kinv0_def)
  then have st1: "status (pr k1 ?c) = status (pr k ?c)" using same_tab_pr [OF t1] by simp
  have f1: "current_process k1 = ?c" "process_next_up k1 = NULL" using t1 u by (simp_all add: same_tab_def)
  then have "kinv k1 ns" using j1(1) w st1 by (simp add: kinv_def)
  note j2 = exit_notify_inv [OF this s(2), unfolded f1]
  have t3: "same_tab k2 k3" using s(3) by (rule same_tab_wr) (simp add: tabview_def)
  note j3 = same_tab_kinv0 [OF t3]
  have f3: "current_process k3 = ?c" "process_next_up k3 = process_next_up k2" using t3 j2 by (simp_all add: same_tab_def)
  have l2: "cells (procs k2) b \<noteq> None" if "b \<in> ads ns" for b using rep_live [OF _ that] j2 unfolding kinv0_def by blast
  have e3: "evolves k ns k3 ns" and i3: "kinv0 k3 ns"
    using evolves_trans [OF j1(3) evolves_trans] j2 j3 by blast+
  note w4 = wr_proc_pr [OF s(4), unfolded f3(1)]
  have c3: "wait_for_pid (pr k3 ?c) = 0" using same_tab_pr(4) [OF t3 l2 [OF c]] j2 by simp
  have al3: "status (pr k3 ?c) \<noteq> PROCESS_STATUS_DEAD" "?c \<in> ads ns" "inj_on (\<lambda>a. pid (pr k3 a)) (ads ns)"
    using i3 unfolding kinv0_def f3(1) by blast+
  have st: "status (pr k4 b) = (if b = ?c then PROCESS_STATUS_WAITING_FOR_DEATH else status (pr k3 b))"
    "wait_for_pid (pr k4 b) = wait_for_pid (pr k3 b)" "pid (pr k4 b) = pid (pr k3 b)"
    "pid_parent (pr k4 b) = pid_parent (pr k3 b)" for b by (simp_all add: w4(1))
  have f4: "current_process k4 = ?c" "process_next_up k4 = process_next_up k2" "pid_next k4 = pid_next k3"
    using w4(2-4) f3 by simp_all
  have i4: "kinv0 k4 ns"
    using i3 c3 w4(5) unfolding kinv0_def st f4 f3(1) by auto
  have ns3: "\<not> stuck k3 ns ?c" if "status (pr k3 ?c) \<noteq> PROCESS_STATUS_WAITING" using that by (simp add: stuck_def)
  have stk: "\<not> stuck k ns ?c" using w by (simp add: stuck_def)
  have e4: "evolves k ns k4 ns"
    using e3 stk al3(1) i0 unfolding evolves_def st kinv0_def by auto
  have "up_ok k4 ns" using j2 l2 same_tab_pr(3) [OF t3] unfolding up_ok_def f4 st by auto
  note y = yield_inv [OF i4 this s(5)]
  show "kinv k' ns" "evolves k ns k' ns" using y evolves_trans [OF e4] by blast+
qed

lemma wait_inv:
  assumes i: "kinv k ns" and e: "wait_syscall_handler n k = Some k'"
  shows "kinv0 k' ns" "process_next_up k' = NULL" "evolves k ns k' ns"
proof -
  let ?c = "current_process k"
  have i0: "kinv0 k ns" and u: "process_next_up k = NULL" and w: "status (pr k ?c) \<noteq> PROCESS_STATUS_WAITING"
    using i by (simp_all add: kinv_def)
  have c: "?c \<in> ads ns" and r: "proc_rep k ns" and alive: "status (pr k ?c) \<noteq> PROCESS_STATUS_DEAD"
    using i0 by (simp_all add: kinv0_def)
  from e obtain k1 where s0: "wr_proc ?c (\<lambda>p. p\<lparr>status := PROCESS_STATUS_WAITING\<rparr>) k = Some k1"
    "wr_proc (current_process k1) (\<lambda>p. p\<lparr>wait_for_pid := n\<rparr>) k1 = Some k'"
    by (auto simp: wait_syscall_handler_def bind_Some_conv)
  note s = s0(1) s0(2) [unfolded wr_proc_pr(2) [OF s0(1)]]
  note w1 = wr_proc_pr [OF s(1)] and w2 = wr_proc_pr [OF s(2)]
  have p: "pr k' b = (if b = ?c then (pr k ?c)\<lparr>status := PROCESS_STATUS_WAITING, wait_for_pid := n\<rparr> else pr k b)" for b
    by (simp add: w1(1) w2(1))
  have nst: "\<not> stuck k ns ?c" using w by (simp add: stuck_def)
  show "kinv0 k' ns" "evolves k ns k' ns"
    using change_one [OF i0 c u p w2(5) [OF w1(5) [OF r]] _ _ _ _ _ _ _ alive nst] w1(2,4) w2(2,4) by simp_all
  show "process_next_up k' = NULL" using u w1(3) w2(3) by simp
qed


section \<open>System calls as steps\<close>

lemma run_syscall_inv:
  assumes i: "kinv k ns" and nw: "pid_next k + 1 \<noteq> 0"
    and x: "rax ctx \<noteq> SYSCALL_EXECVE" "rax ctx \<noteq> SYSCALL_EXECM"
    and e: "run_syscall env ctx k = Some (ctx', k')"
  shows "\<exists>ns'. kinv0 k' ns' \<and> process_next_up k' = NULL \<and> evolves k ns k' ns'"
proof -
  have i0: "kinv0 k ns" and u: "process_next_up k = NULL" using i by (simp_all add: kinv_def)
  have same: ?thesis if "same_tab k k'"
    using that same_tab_kinv0 [OF that i0] u by (auto simp: same_tab_def)
  have fin: ?thesis if "\<exists>ns'. kinv k' ns' \<and> evolves k ns k' ns'"
    using that by (auto simp: kinv_def)
  have up: "up_ok k ns" using u by (simp add: up_ok_def)
  consider (fork) "rax ctx = SYSCALL_FORK" | (yield) "rax ctx = SYSCALL_SCHED_YIELD" | (exit) "rax ctx = SYSCALL_EXIT"
    | (wait) "rax ctx = SYSCALL_WAIT" | (open_) "rax ctx = SYSCALL_OPEN" | (close) "rax ctx = SYSCALL_CLOSE"
    | (clone) "rax ctx = SYSCALL_CLONE"
    | (other) "rax ctx \<notin> {SYSCALL_FORK, SYSCALL_SCHED_YIELD, SYSCALL_EXIT, SYSCALL_WAIT, SYSCALL_OPEN, SYSCALL_CLOSE, SYSCALL_CLONE}"
    by blast
  then show ?thesis
  proof cases
    case fork
    then obtain n c where "fork_syscall_handler ctx k = Some (n, c, k')"
      using e by (auto simp: run_syscall_def bind_Some_conv)
    from fork_inv [OF i0 nw this] u show ?thesis by auto
  next
    case yield
    then have "process_sched_yield ctx k = Some (ctx', k')" using e by (simp add: run_syscall_def)
    from yield_inv [OF i0 up this] show ?thesis using fin by blast
  next
    case exit
    then have "exit_syscall_handler ctx (to_int (rdi ctx)) k = Some (ctx', k')" using e by (simp add: run_syscall_def)
    from exit_inv [OF i this] show ?thesis using fin by blast
  next
    case wait
    then have "wait_syscall_handler (ucast (rdi ctx)) k = Some k'" using e by (auto simp: run_syscall_def bind_Some_conv)
    from wait_inv [OF i this] show ?thesis by blast
  next
    case open_
    then show ?thesis using e by (intro same) (auto simp: run_syscall_def bind_Some_conv dest: same_tab_open)
  next
    case close
    then show ?thesis using e by (intro same) (auto simp: run_syscall_def bind_Some_conv dest: same_tab_close)
  next
    case clone
    then have "clone_syscall_handler ctx (rdi ctx) k = Some (ctx', k')" using e by (simp add: run_syscall_def)
    from clone_inv [OF i0 nw this] show ?thesis using fin by blast
  next
    case other
    then have "k' = k" using e x by (auto simp: run_syscall_def Let_def bind_Some_conv split: if_splits)
    then show ?thesis using same same_tab_refl by blast
  qed
qed

lemma syscall_inv:
  assumes i: "kinv k ns" and nw: "pid_next k + 1 \<noteq> 0"
    and x: "rax ctx \<noteq> SYSCALL_EXECVE" "rax ctx \<noteq> SYSCALL_EXECM"
    and e: "syscall_handler env ctx k = Some (ctx', k')"
  shows "\<exists>ns'. kinv k' ns' \<and> evolves k ns k' ns'"
proof -
  from e obtain c1 k1 p where s: "run_syscall env ctx k = Some (c1, k1)" "rd_proc (current_process k1) k1 = Some p"
    "(if status p = PROCESS_STATUS_WAITING then process_sched_yield c1 k1 else Some (c1, k1)) = Some (ctx', k')"
    by (auto simp: syscall_handler_def bind_Some_conv)
  from run_syscall_inv [OF i nw x s(1)] obtain ns1 where
    1: "kinv0 k1 ns1" "process_next_up k1 = NULL" "evolves k ns k1 ns1" by blast
  have p: "pr k1 (current_process k1) = p" using s(2) by (simp add: store_simps pr_def)
  have up: "up_ok k1 ns1" using 1(2) by (simp add: up_ok_def)
  show ?thesis
  proof (cases "status p = PROCESS_STATUS_WAITING")
    case True
    then have "process_sched_yield c1 k1 = Some (ctx', k')" using s(3) by simp
    from yield_inv [OF 1(1) up this] show ?thesis using evolves_trans [OF 1(3)] by blast
  next
    case False
    then show ?thesis using s(3) 1 p by (auto simp: kinv_def)
  qed
qed

text \<open>
  One step of the machine: the running program, which the model leaves open,
  executes a system call with some registers. The exec calls are left out, and
  the supply of process ids, a 32-bit counter, is not used up.
\<close>

inductive kstep :: "sys_env \<Rightarrow> kernel_proc_data \<Rightarrow> registers \<Rightarrow> kernel_proc_data \<Rightarrow> bool" for env where
  call: "\<lbrakk> syscall_handler env ctx k = Some (ctx', k'); rax ctx \<noteq> SYSCALL_EXECVE; rax ctx \<noteq> SYSCALL_EXECM;
      pid_next k + 1 \<noteq> 0 \<rbrakk> \<Longrightarrow> kstep env k ctx k'"

inductive kruns :: "sys_env \<Rightarrow> kernel_proc_data \<Rightarrow> registers list \<Rightarrow> kernel_proc_data \<Rightarrow> bool" for env where
  none: "kruns env k [] k"
| more: "kstep env k ctx k1 \<Longrightarrow> kruns env k1 calls k' \<Longrightarrow> kruns env k (ctx # calls) k'"

inductive_cases kstepE: "kstep env k ctx k'"
inductive_simps kruns_nil: "kruns env k [] k'"
inductive_simps kruns_cons: "kruns env k (ctx # calls) k'"

lemma kstep_inv: "kstep env k ctx k' \<Longrightarrow> kinv k ns \<Longrightarrow> \<exists>ns'. kinv k' ns' \<and> evolves k ns k' ns'"
  by (erule kstepE) (rule syscall_inv)

lemma kruns_inv: "kruns env k calls k' \<Longrightarrow> kinv k ns \<Longrightarrow> \<exists>ns'. kinv k' ns' \<and> evolves k ns k' ns'"
proof (induction arbitrary: ns rule: kruns.induct)
  case (none k)
  then show ?case using same_tab_kinv0(3) [OF same_tab_refl] by (auto simp: kinv_def)
next
  case (more k ctx k1 calls k')
  then obtain ns1 where 1: "kinv k1 ns1" "evolves k ns k1 ns1" using kstep_inv by blast
  from more.IH [OF 1(1)] show ?case using evolves_trans [OF 1(2)] by blast
qed

end
