(* ===== verification/ProcProps.thy ===== *)
theory ProcProps
  imports ProcInv
begin

text \<open>
  The properties of the process machine: what boot establishes and every run of
  system calls keeps, and the behaviours of the handlers that a caller sees.
\<close>

section \<open>Boot\<close>

lemma get_new_process_returns:
  assumes r: "proc_rep k ns" and av: "avail (procs k) = (a, v) # rest" "avail (nodes (pmem k)) = (x, u) # rest'"
  shows "\<exists>k'. process_get_new_process k = Some (pid_next k, k') \<and> proc_rep k' (ns @ [(x, a)])
     \<and> cells (procs k') = (cells (procs k))(a \<mapsto> new_process (pid_next k)) \<and> pid_next k' = pid_next k + 1
     \<and> root_pd k' = root_pd k"
proof -
  have w: "store_wf (procs k)" and l: "lrep (pmem k) (process_list k) ns" using r by (simp_all add: proc_rep_def)
  from list_append [OF l av(2), of a] obtain m' where
    m': "avs_list_append (process_list k) a (pmem k) = Some (process_list k, m')"
      "fits (pmem k) m' (process_list k) ns (ns @ [(x, a)])" by blast
  let ?k = "k\<lparr>procs := (procs k)\<lparr>cells := (cells (procs k))(a \<mapsto> new_process (pid_next k)), avail := rest\<rparr>,
      pid_next := pid_next k + 1, pmem := m'\<rparr>"
  have g: "process_get_new_process k = Some (pid_next k, ?k)"
    using av m'(1) by (simp add: process_get_new_process_def store_simps Let_def)
  have "a \<notin> ads ns" using store_wf_supply [OF w av(1)] rep_live [OF r] by blast
  then have "proc_rep ?k (ns @ [(x, a)])"
    using r fits_lrep [OF m'(2)] store_wf_alloc [OF w av(1)] by (auto simp: proc_rep_def ads_def)
  with g show ?thesis by (intro exI [of _ ?k]) simp
qed

text \<open>Property C32: boot makes one process, the active kernel, and establishes the invariant that
  system calls keep.\<close>
theorem boot_establishes_invariant:
  assumes "store_wf (procs k)" "store_wf (lists (pmem k))" "store_wf (nodes (pmem k))" "root_pd k = NULL"
    and av: "avail (lists (pmem k)) = (l, v0) # r0" "avail (procs k) = (a, v) # rest"
      "avail (nodes (pmem k)) = (x, u) # rest'"
  shows "\<exists>k'. process_initalize k = Some k' \<and> kinv k' [(x, a)] \<and> current_process k' = a
     \<and> pid (pr k' a) = 0 \<and> status (pr k' a) = PROCESS_STATUS_ACTIVE"
proof -
  obtain m where m: "avs_list_init (pmem k) = Some (l, m)" "lrep m l []" "nodes m = nodes (pmem k)"
    using list_init [OF assms(2,3) av(1)] by blast
  let ?k0 = "k\<lparr>pid_next := 0, pmem := m, process_list := l\<rparr>"
  have "proc_rep ?k0 []" using m(2) assms(1) by (simp add: proc_rep_def)
  from get_new_process_returns [OF this, of a v rest x u rest'] m(3) av obtain k1 where
    1: "process_get_new_process ?k0 = Some (0, k1)" "proc_rep k1 [(x, a)]"
      "cells (procs k1) = (cells (procs k))(a \<mapsto> new_process 0)" "pid_next k1 = 1" "root_pd k1 = NULL"
    using assms(4) by auto
  have p1: "pr k1 a = new_process 0" by (simp add: pr_def 1(3))
  have "process_get_data_from_pid (pid (pr k1 a)) k1 = Some a"
    by (rule lookup_unique [OF 1(2)]) (simp_all add: ads_def)
  then have look: "process_get_data_from_pid 0 k1 = Some a" by (simp add: p1)
  define q where "q = (new_process 0)\<lparr>status := PROCESS_STATUS_ACTIVE, pname := ''Kernel'',
            ppath := ''/boot/versionvi.bin'', pcontext := zero_registers\<rparr>"
  define k2 where "k2 = k1\<lparr>kernel_pd := a, procs := (procs k1)\<lparr>cells := (cells (procs k1))(a \<mapsto> q)\<rparr>,
     current_process := a, process_next_up := NULL\<rparr>"
  have "cells (procs (k1\<lparr>kernel_pd := a\<rparr>)) a = Some (new_process 0)" by (simp add: 1(3))
  note w = wr_proc_live [OF this, of "\<lambda>p. p\<lparr>status := PROCESS_STATUS_ACTIVE, pname := ''Kernel'',
            ppath := ''/boot/versionvi.bin'', pcontext := zero_registers\<rparr>", folded q_def]
  have "process_initalize k = Some k2"
    using m(1) 1(1,5) look by (simp add: process_initalize_def w k2_def del: fun_upd_apply)
  moreover have "proc_rep k2 [(x, a)]"
    using 1 store_wf_update_cell [of "procs k1" a "new_process 0" q]
    by (intro proc_rep_cong [OF 1(2)]) (auto simp: k2_def proc_rep_def)
  moreover have "pr k2 a = q" by (simp add: pr_def k2_def)
  ultimately show ?thesis using 1(4)
    by (intro exI [of _ k2]) (auto simp: kinv_def kinv0_def ads_def k2_def q_def)
qed

definition boot_state :: kernel_proc_data where
  "boot_state = demo_kernel\<lparr>procs := \<lparr>cells = Map.empty, avail = [(0x100, zero_process)]\<rparr>,
     pmem := \<lparr>lists = \<lparr>cells = Map.empty, avail = [(0x8, \<lparr>lhead = 0, ltail = 0, lsize = 0\<rparr>)]\<rparr>,
             nodes = \<lparr>cells = Map.empty, avail = [(0x10, \<lparr>nxt = NULL, prv = NULL, node_data = 0\<rparr>)]\<rparr>\<rparr>,
     root_pd := NULL\<rparr>"

lemma boot_establishes_invariant_witness:
  "\<exists>k'. process_initalize boot_state = Some k' \<and> kinv k' [(0x10, 0x100)]"
  using boot_establishes_invariant [of boot_state 8 "\<lparr>lhead = 0, ltail = 0, lsize = 0\<rparr>" "[]" "0x100" zero_process "[]"
      "0x10" "\<lparr>nxt = NULL, prv = NULL, node_data = 0\<rparr>" "[]"]
  by (simp add: boot_state_def store_wf_def) blast


section \<open>Runs\<close>




definition no_env :: sys_env where
  "no_env = \<lparr>user_string = (\<lambda>_. ''/x''), vfs_getattr = (\<lambda>_. (-8, 0)), vfs_read = (\<lambda>_ _ _. -1),
     stdin_read = (\<lambda>_. 0), execve_syscall_handler = (\<lambda>c k. Some (c, k)), execm_syscall_handler = (\<lambda>c k. Some (c, k))\<rparr>"

text \<open>The kernel 0x100 runs, process 1 waits for process 2, which is dead.\<close>

definition late_kernel :: kernel_proc_data where
  "late_kernel = demo_kernel\<lparr>procs := \<lparr>cells = [0x100 \<mapsto> demo_proc 0 0 PROCESS_STATUS_ACTIVE 0 0x800000,
                       0x200 \<mapsto> demo_proc 1 0 PROCESS_STATUS_WAITING 2 0x900000,
                       0x300 \<mapsto> demo_proc 2 1 PROCESS_STATUS_DEAD 0 0xA00000], avail = []\<rparr>,
     current_process := 0x100\<rparr>"

lemma late_kinv: "kinv late_kernel demo_ns"
proof -
  have "proc_rep late_kernel demo_ns"
    by (auto simp: proc_rep_def lrep_def store_wf_def late_kernel_def demo_kernel_def)
  then show ?thesis
    by (simp add: kinv_def kinv0_def ads_def late_kernel_def pr_def demo_proc_sel) (simp add: demo_kernel_def)
qed

lemma demo_kinv: "kinv demo_kernel demo_ns"
  using demo_proc_rep by (simp add: kinv_def kinv0_def ads_def pr_def demo_cells demo_proc_sel) (simp add: demo_kernel_def)

lemma demo_run: "\<exists>k'. kruns no_env late_kernel [zero_registers\<lparr>rax := SYSCALL_CON_OUT\<rparr>] k'"
  by (auto simp: kruns_cons kruns_nil kstep.simps syscall_handler_def run_syscall_def late_kernel_def store_simps
      demo_proc_sel zero_registers_def) (auto simp: demo_kernel_def)

lemma demo_run_yield:
  "\<exists>k'. kruns no_env demo_kernel [zero_registers\<lparr>rip := 77, rax := SYSCALL_SCHED_YIELD\<rparr>] k' \<and> current_process k' = 0x100"
proof -
  let ?c = "zero_registers\<lparr>rip := 77, rax := SYSCALL_SCHED_YIELD\<rparr>"
  have en: "enterable demo_kernel 0x100 (demo_proc 0 0 PROCESS_STATUS_INACTIVE 0 0x800000)"
    by (rule demo_enterable [OF demo_cells(1)])
  have "sched_pick demo_kernel = Some (0x100, demo_kernel)"
    using sched_pick_cyclic [OF demo_proc_rep, of 2] demo_next by (simp add: demo_cells)
  from yield_enterable [OF demo_proc_rep this _ refl refl refl refl _ demo_cells(1) en, of "demo_proc 2 1 PROCESS_STATUS_ACTIVE 0 0xA00000" ?c]
  obtain k' where k': "process_sched_yield ?c demo_kernel = Some (zero_registers, k')" "current_process k' = 0x100"
    "\<exists>p. cells (procs k') 0x100 = Some p \<and> status p = PROCESS_STATUS_ACTIVE"
    by (auto simp: demo_cells demo_proc_sel)
  then have "syscall_handler no_env ?c demo_kernel = Some (zero_registers, k')"
    by (auto simp: syscall_handler_def run_syscall_def store_simps demo_cells)
  moreover have "pid_next demo_kernel + 1 \<noteq> 0" by (simp add: demo_kernel_def)
  ultimately show ?thesis using k'(2)
    by (intro exI [of _ k']) (auto simp: kruns_cons kruns_nil kstep.simps)
qed


lemma late_sel:
  "status (pr late_kernel 0x300) = PROCESS_STATUS_DEAD" "status (pr late_kernel 0x200) = PROCESS_STATUS_WAITING"
  "wait_for_pid (pr late_kernel 0x200) = pid (pr late_kernel 0x300)"
  by (simp_all add: late_kernel_def pr_def demo_proc_sel)

lemma demo_ads: "0x200 \<in> ads demo_ns" "0x300 \<in> ads demo_ns"
  by (simp_all add: ads_def)



end
