(* ===== verification/FileCalls.thy ===== *)
theory FileCalls
  imports ProcLife
begin

text \<open>
  The file and memory system calls as a caller sees them: what open and close do
  to the two descriptor tables, what becomes of a result, and where brk puts the
  heap.
\<close>

section \<open>Open and close\<close>

lemma alloc_scan_finds:
  "\<forall>j \<in> set xs. pfd_in_use (ds ! j) \<Longrightarrow> \<not> pfd_in_use (ds ! n) \<Longrightarrow>
    alloc_scan (xs @ n # ys) ds = (n, ds[n := (ds ! n)\<lparr>pfd_pos := 0\<rparr>])"
  by (induction xs) auto

lemma last_free_finds:
  "\<forall>j \<in> set ys. vfd_in_use (g ! j) \<Longrightarrow> \<not> vfd_in_use (g ! i) \<Longrightarrow>
    last_free_fd (xs @ i # ys) found g = Some i"
proof (induction xs arbitrary: found)
  case Nil
  have "last_free_fd ys (Some i) g = Some i" using Nil(1) by (induction ys) auto
  then show ?case using Nil by simp
qed simp

lemma upt_split: "n < m \<Longrightarrow> [0..<m] = [0..<n] @ n # [Suc n..<m]"
  using upt_add_eq_append [of 0 n "m - n"] by (simp add: upt_conv_Cons)

text \<open>The lowest free descriptor n of process p, and the highest free system entry i.\<close>

definition free_fd :: "process_data \<Rightarrow> nat \<Rightarrow> bool" where
  "free_fd p n \<longleftrightarrow> n < PROCESS_MAX_FDS \<and> \<not> pfd_in_use (file_descriptors p ! n)
     \<and> (\<forall>j < n. pfd_in_use (file_descriptors p ! j))"

definition free_entry :: "kernel_proc_data \<Rightarrow> nat \<Rightarrow> bool" where
  "free_entry k i \<longleftrightarrow> i < VFS_FD_MAX \<and> \<not> vfd_in_use (global_fds k ! i)
     \<and> (\<forall>j. i < j \<longrightarrow> j < VFS_FD_MAX \<longrightarrow> vfd_in_use (global_fds k ! j))"

definition opened_fd :: "nat \<Rightarrow> fd_process \<Rightarrow> fd_process" where
  "opened_fd i d = d\<lparr>pfd_pos := 0, pfd_in_use := True, pfd_vfs_fd := int i\<rparr>"

definition opened_entry :: "string \<Rightarrow> u32 \<Rightarrow> nat \<Rightarrow> vfs_fd \<Rightarrow> vfs_fd" where
  "opened_entry path flags n e = e\<lparr>vfd_path := path, vfd_in_use := True, vfd_process_fd := int n,
     vfd_ref_count := vfd_ref_count e + 1, vfd_close_on_exec := flags AND O_CLOEXEC \<noteq> 0,
     vfd_read_only := False, vfd_write_only := flags AND O_WRONLY \<noteq> 0\<rparr>"

lemma open_succeeds:
  assumes c: "current_process k = c" "cells (procs k) c = Some p" "fds_ok k p"
    and g: "fst (vfs_getattr env path) = 0" "length path < 255"
    and n: "free_fd p n" "0 < n" and i: "free_entry k i" "vfd_id (global_fds k ! i) = int i"
  shows "open_syscall_handler env path flags k = Some (int n,
     put_fds c p ((file_descriptors p)[n := opened_fd i (file_descriptors p ! n)])
       ((global_fds k)[i := opened_entry path flags n (global_fds k ! i)]) k)"
proof -
  let ?ds = "(file_descriptors p)[n := (file_descriptors p ! n)\<lparr>pfd_pos := 0\<rparr>]"
  have n25: "n < PROCESS_MAX_FDS" and i255: "i < VFS_FD_MAX" using n i by (simp_all add: free_fd_def free_entry_def)
  have len: "length (file_descriptors p) = PROCESS_MAX_FDS" "length (global_fds k) = VFS_FD_MAX"
    using c(3) by (simp_all add: fds_ok_def)
  have a: "alloc_scan [0..<PROCESS_MAX_FDS] (file_descriptors p) = (n, ?ds)"
    using n unfolding upt_split [OF n25] by (intro alloc_scan_finds) (auto simp: free_fd_def)
  have v: "vfs_alloc_fd k' = Some i" if "global_fds k' = global_fds k" for k'
    using i unfolding vfs_alloc_fd_def that upt_split [OF i255] by (intro last_free_finds) (auto simp: free_entry_def)
  let ?k1 = "k\<lparr>procs := (procs k)\<lparr>cells := (cells (procs k))(c \<mapsto> p\<lparr>file_descriptors := ?ds\<rparr>)\<rparr>\<rparr>"
  have al: "process_alloc_fd c k = Some (int n, ?k1)"
    using c a by (simp add: process_alloc_fd_def store_simps del: upt_Suc)
  have "vfs_alloc_fd ?k1 = Some i" by (rule v) simp
  then show ?thesis
    using c g n25 i255 len i(2) n(2) al
    by (simp add: open_syscall_handler_def store_simps copy_str_def nth_elem_def set_fd_def set_vfs_fd_def
        put_fds_def opened_fd_def opened_entry_def Let_def)
qed

text \<open>Property C20: open takes the lowest free descriptor of the process and the highest free entry of
  the system table, and closing it gives both back: every flag in use and every reference count is as
  before.\<close>
theorem open_then_close:
  assumes c: "current_process k = c" "cells (procs k) c = Some p" "fds_ok k p"
    and g: "fst (vfs_getattr env path) = 0" "length path < 255"
    and n: "free_fd p n" "0 < n" and i: "free_entry k i" "vfd_id (global_fds k ! i) = int i"
  shows "\<exists>k1 p1 k2 p2. open_syscall_handler env path flags k = Some (int n, k1)
     \<and> cells (procs k1) c = Some p1 \<and> pfd_in_use (file_descriptors p1 ! n)
     \<and> vfd_in_use (global_fds k1 ! i) \<and> vfd_path (global_fds k1 ! i) = path
     \<and> close_syscall_handler (int n) k1 = Some (1, k2) \<and> cells (procs k2) c = Some p2
     \<and> (\<forall>j < PROCESS_MAX_FDS. pfd_in_use (file_descriptors p2 ! j) = pfd_in_use (file_descriptors p ! j))
     \<and> (\<forall>j < VFS_FD_MAX. vfd_in_use (global_fds k2 ! j) = vfd_in_use (global_fds k ! j)
           \<and> vfd_ref_count (global_fds k2 ! j) = vfd_ref_count (global_fds k ! j))
     \<and> (\<forall>a. a \<noteq> c \<longrightarrow> cells (procs k2) a = cells (procs k) a)"
proof -
  let ?ds = "(file_descriptors p)[n := opened_fd i (file_descriptors p ! n)]"
  let ?g = "(global_fds k)[i := opened_entry path flags n (global_fds k ! i)]"
  let ?k1 = "put_fds c p ?ds ?g k" and ?p1 = "p\<lparr>file_descriptors := ?ds\<rparr>"
  have len: "length (file_descriptors p) = PROCESS_MAX_FDS" "length (global_fds k) = VFS_FD_MAX"
    "n < PROCESS_MAX_FDS" "i < VFS_FD_MAX" using c(3) n i by (simp_all add: fds_ok_def free_fd_def free_entry_def)
  have f1: "fds_ok ?k1 ?p1" using len by (simp add: fds_ok_def)
  have fd: "file_descriptors ?p1 ! n = opened_fd i (file_descriptors p ! n)" using len by simp
  have vi: "vfs_get_fd_data (pfd_vfs_fd (file_descriptors ?p1 ! n)) = Some i"
    using len fd by (simp add: opened_fd_def vfs_get_fd_data_def)
  have "pfd_in_use (file_descriptors ?p1 ! n)" using fd by (simp add: opened_fd_def)
  from close_in_use [OF _ _ f1 len(3) this, of c] vi c
  have cl: "close_syscall_handler (int n) ?k1 = Some (1, put_fds c p (?ds[n := closed_fd (?ds ! n)])
      (?g[i := closed_vfs (?g ! i)]) k)"
    by (simp add: Let_def)
  let ?k2 = "put_fds c p (?ds[n := closed_fd (?ds ! n)]) (?g[i := closed_vfs (?g ! i)]) k"
  have u: "\<not> pfd_in_use (file_descriptors p ! n)" "\<not> vfd_in_use (global_fds k ! i)"
    using n i by (simp_all add: free_fd_def free_entry_def)
  show ?thesis
  proof (intro exI conjI)
    show "open_syscall_handler env path flags k = Some (int n, ?k1)" by (rule open_succeeds [OF assms])
    show "close_syscall_handler (int n) ?k1 = Some (1, ?k2)" by (rule cl)
    show "cells (procs ?k1) c = Some ?p1" by simp
    show "cells (procs ?k2) c = Some (p\<lparr>file_descriptors := ?ds[n := closed_fd (?ds ! n)]\<rparr>)" by simp
  qed (use len u in \<open>auto simp: opened_fd_def opened_entry_def closed_fd_def closed_vfs_def nth_list_update\<close>)
qed

definition one_file :: sys_env where
  "one_file = \<lparr>user_string = (\<lambda>_. ''/a''), vfs_getattr = (\<lambda>_. (0, 5)), vfs_read = (\<lambda>_ _ _. 5),
     stdin_read = (\<lambda>_. 0), execve_syscall_handler = (\<lambda>c k. Some (c, k)), execm_syscall_handler = (\<lambda>c k. Some (c, k))\<rparr>"

definition files_kernel :: kernel_proc_data where
  "files_kernel = demo_kernel\<lparr>global_fds := map (\<lambda>i. zero_vfs_fd\<lparr>vfd_id := int i, vfd_in_use := i < 3\<rparr>) [0..<VFS_FD_MAX]\<rparr>"

lemma files_kernel_ok:
  "current_process files_kernel = 0x300"
  "cells (procs files_kernel) 0x300 = Some (demo_proc 2 1 PROCESS_STATUS_ACTIVE 0 0xA00000)"
  "fds_ok files_kernel (demo_proc 2 1 PROCESS_STATUS_ACTIVE 0 0xA00000)"
  "free_fd (demo_proc 2 1 PROCESS_STATUS_ACTIVE 0 0xA00000) 4"
  "free_entry files_kernel 254" "vfd_id (global_fds files_kernel ! 254) = int 254"
proof -
  have d: "pfd_in_use (file_descriptors (demo_proc 2 1 PROCESS_STATUS_ACTIVE 0 0xA00000) ! j) = (j < 4)" if "j < 25" for j
    using that by (auto simp: demo_proc_def new_process_def zero_process_def set_fd_def Let_def nth_list_update zero_fd_def
        simp del: upt_Suc)
  show "free_fd (demo_proc 2 1 PROCESS_STATUS_ACTIVE 0 0xA00000) 4" using d by (simp add: free_fd_def)
  have g: "global_fds files_kernel ! j = zero_vfs_fd\<lparr>vfd_id := int j, vfd_in_use := j < 3\<rparr>" if "j < 255" for j
    using that by (simp add: files_kernel_def del: upt_Suc)
  show "free_entry files_kernel 254" "vfd_id (global_fds files_kernel ! 254) = int 254"
    by (simp_all add: free_entry_def g)
  show "current_process files_kernel = 0x300"
    "cells (procs files_kernel) 0x300 = Some (demo_proc 2 1 PROCESS_STATUS_ACTIVE 0 0xA00000)"
    by (simp_all add: files_kernel_def demo_kernel_def)
  show "fds_ok files_kernel (demo_proc 2 1 PROCESS_STATUS_ACTIVE 0 0xA00000)"
    by (simp add: fds_ok_def demo_proc_sel files_kernel_def)
qed

lemma open_then_close_witness:
  "\<exists>k1 k2. open_syscall_handler one_file ''/a'' 1 files_kernel = Some (4, k1)
     \<and> close_syscall_handler 4 k1 = Some (1, k2) \<and> vfd_path (global_fds k1 ! 254) = ''/a''"
proof -
  have "fst (vfs_getattr one_file ''/a'') = 0" "length ''/a'' < (255 :: nat)" "0 < (4 :: nat)"
    by (simp_all add: one_file_def)
  from open_then_close [OF files_kernel_ok(1-3) this(1,2) files_kernel_ok(4) this(3) files_kernel_ok(5,6), of 1]
  show ?thesis by auto
qed


section \<open>The result of a call\<close>

text \<open>The dispatcher does not store a handler's result: behind an open, whatever
  descriptor or error the handler computed, the caller finds the number of the call in rax.\<close>
theorem open_result_is_lost:
  assumes "rax ctx = SYSCALL_OPEN" "cells (procs k) (current_process k) \<noteq> None"
    and "open_syscall_handler env (user_string env (rdi ctx)) (ucast (rsi ctx)) k = Some (result, k')"
    and "cells (procs k') (current_process k') = Some p" "status p \<noteq> PROCESS_STATUS_WAITING"
  shows "syscall_handler env ctx k = Some (ctx, k') \<and> rax ctx = 2"
  using assms by (auto simp: syscall_handler_def run_syscall_def store_simps)

lemma open_result_is_lost_witness:
  "syscall_handler (one_file\<lparr>vfs_getattr := \<lambda>_. (-8, 0)\<rparr>) (zero_registers\<lparr>rax := 2\<rparr>) demo_kernel
     = Some (zero_registers\<lparr>rax := 2\<rparr>, demo_kernel)"
proof -
  let ?e = "one_file\<lparr>vfs_getattr := \<lambda>_. (-8, 0)\<rparr>" and ?c = "zero_registers\<lparr>rax := 2\<rparr>"
  have "open_syscall_handler ?e (user_string ?e (rdi ?c)) (ucast (rsi ?c)) demo_kernel = Some (-8, demo_kernel)"
    by (simp add: open_syscall_handler_def one_file_def Let_def)
  from open_result_is_lost [OF _ _ this, of "demo_proc 2 1 PROCESS_STATUS_ACTIVE 0 0xA00000"]
  show ?thesis by (simp add: demo_cells demo_proc_sel)
qed


section \<open>The heap\<close>

lemma heap_next_paging:
  "paging_ok lev (s\<lparr>kernel_heap_virtual_memory_next := a, kernel_heap_physical_memory_next := b\<rparr>) = paging_ok lev s"
  "room lev n (s\<lparr>kernel_heap_virtual_memory_next := a, kernel_heap_physical_memory_next := b\<rparr>) = room lev n s"
  "small_page v (s\<lparr>kernel_heap_virtual_memory_next := a, kernel_heap_physical_memory_next := b\<rparr>) = small_page v s"
  by (simp_all add: paging_ok_def addr_ok_def room_def cur_pt_def table_frame_def small_page_def)

lemma heap_next_v2p:
  "paging_virtual_to_physical v (s\<lparr>kernel_heap_virtual_memory_next := a, kernel_heap_physical_memory_next := b\<rparr>)
     = paging_virtual_to_physical v s"
proof -
  have "rd_entry (s\<lparr>kernel_heap_virtual_memory_next := a, kernel_heap_physical_memory_next := b\<rparr>) = rd_entry s"
    by (intro ext) (simp add: rd_entry_def table_frame_def)
  then show ?thesis by (simp only: paging_virtual_to_physical_def) simp
qed

lemma map_keeps_heap_next:
  assumes "paging_page_map_to_pml4 p4 pa v fl s = Some (w, s')"
  shows "kernel_heap_virtual_memory_next s' = kernel_heap_virtual_memory_next s"
proof -
  have wr: "kernel_heap_virtual_memory_next t' = kernel_heap_virtual_memory_next t" if "wr_entry t p i e = Some t'" for t t' p i e
    using that by (auto simp: wr_entry_def bind_Some_conv split: if_splits)
  have sg: "kernel_heap_virtual_memory_next t' = kernel_heap_virtual_memory_next t"
    if "paging_allocate_single_linear_kernel_page t = Some (x, t')" for t t' x
    using that wr by (fastforce simp: paging_allocate_single_linear_kernel_page_def bind_Some_conv Let_def)
  have inc: "kernel_heap_virtual_memory_next t' = kernel_heap_virtual_memory_next t"
    if "paging_increment_kernel_page_index t = Some t'" for t t'
    using that unfolding paging_increment_kernel_page_index_def bind_Some_conv Let_def
    by (auto dest!: wr simp: bind_Some_conv split: if_splits)
  have lin: "kernel_heap_virtual_memory_next t' = kernel_heap_virtual_memory_next t"
    if "allocate_linear_pages n t = Some t'" for n t t'
    using that
  proof (induction n arbitrary: t)
    case (Suc n)
    then show ?case using sg inc by (fastforce simp: bind_Some_conv)
  qed simp
  have al: "kernel_heap_virtual_memory_next t' = kernel_heap_virtual_memory_next t"
    if "page_allocate_kernel_linear n t = Some (x, t')" for n t t' x
    using that unfolding page_allocate_kernel_linear_def bind_Some_conv Let_def
    by (fastforce dest!: sg inc lin simp: bind_Some_conv split: if_splits)
  have st: "kernel_heap_virtual_memory_next t' = kernel_heap_virtual_memory_next t"
    if "setup_table c fd par i t = Some (x, t')" for c fd par i t t' x
    using that unfolding setup_table_def bind_Some_conv
    by (fastforce dest!: al wr simp: bind_Some_conv split: if_splits)
  show ?thesis
    using assms unfolding paging_page_map_to_pml4_def Let_def bind_Some_conv
    by (fastforce dest!: st wr simp: bind_Some_conv)
qed

lemma page_allocate_one:
  assumes "paging_ok lev s" "room lev (n + 3) s" "small_page (kernel_heap_virtual_memory_next s) s"
  shows "\<exists>v s' lev' ph. page_allocate 1 s = Some (v, s') \<and> paging_ok lev' s' \<and> room lev' n s'
     \<and> paging_virtual_to_physical v s' = Some ph \<and> (\<forall>w. small_page w s \<longrightarrow> small_page w s')
     \<and> kernel_heap_virtual_memory_next s' = kernel_heap_virtual_memory_next s + PAGE_SIZE"
proof -
  let ?v = "kernel_heap_virtual_memory_next s"
  have b0: "bit (PAGE_FLAG_PRESENT OR PAGE_FLAG_READ_WRITE :: u64) 0" by simp
  from map_then_translate [OF assms(1,2) b0 _ assms(3), of 0 "kernel_heap_physical_memory_next s"] obtain s1 l1 where
    1: "paging_page_map_to_pml4 0 (kernel_heap_physical_memory_next s) ?v (PAGE_FLAG_PRESENT OR PAGE_FLAG_READ_WRITE) s = Some (?v, s1)"
      "paging_ok l1 s1" "room l1 n s1" "\<forall>w. small_page w s \<longrightarrow> small_page w s1"
      "mmu_translate ?v s1 = Some (Page (kernel_heap_physical_memory_next s AND PAGE_ADDR_MASK) 0)" by blast
  let ?s = "s1\<lparr>kernel_heap_virtual_memory_next := kernel_heap_virtual_memory_next s1 + PAGE_SIZE,
               kernel_heap_physical_memory_next := kernel_heap_physical_memory_next s1 + PAGE_SIZE\<rparr>"
  have ok: "paging_ok l1 ?s" "room l1 n ?s" "\<forall>w. small_page w s \<longrightarrow> small_page w ?s"
    using 1(2,3,4) by (simp_all add: heap_next_paging)
  have "page_allocate 1 s = Some (?v, ?s)"
    using 1(1) by (simp add: page_allocate_def page_allocate_provider_def)
  moreover have "small_page ?v s1" using 1(4) assms(3) by blast
  then have "paging_virtual_to_physical ?v s1 = Some (kernel_heap_physical_memory_next s AND PAGE_ADDR_MASK)"
    using v2p_trans [OF 1(2)] 1(5) by simp
  then have "paging_virtual_to_physical ?v ?s = Some (kernel_heap_physical_memory_next s AND PAGE_ADDR_MASK)"
    by (simp only: heap_next_v2p)
  moreover have "kernel_heap_virtual_memory_next ?s = ?v + PAGE_SIZE" using map_keeps_heap_next [OF 1(1)] by simp
  ultimately show ?thesis using ok by blast
qed

lemma heap_loop_ok:
  assumes "paging_ok lev s" "room lev (n + 3 * (m - i)) s" "i \<le> m" "m \<le> length (heap_pages p)"
    and "\<forall>j < m - i. small_page (kernel_heap_virtual_memory_next s + of_nat j * PAGE_SIZE) s"
  shows "\<exists>p' s' hp. heap_loop [i..<m] p s = Some (p', s')
     \<and> p' = p\<lparr>heap_pages := hp, heap_top_allocated := heap_top_allocated p + of_nat (m - i) * PAGE_SIZE\<rparr>
     \<and> length hp = length (heap_pages p)
     \<and> (\<forall>j. i \<le> j \<longrightarrow> j < m \<longrightarrow> sec_virt (hp ! j) = heap_top_allocated p + of_nat (j - i) * PAGE_SIZE)
     \<and> (\<forall>j. j < i \<longrightarrow> hp ! j = heap_pages p ! j)"
  using assms
proof (induction "m - i" arbitrary: i p s lev)
  case 0
  then show ?case by (intro exI [of _ p] exI [of _ s] exI [of _ "heap_pages p"]) simp
next
  case (Suc d)
  then have i: "i < m" and d: "d = m - Suc i" by simp_all
  have "room lev ((n + 3 * (m - Suc i)) + 3) s" 
  proof -
    have "n + 3 * (m - Suc i) + 3 = n + 3 * (m - i)" using i by simp
    then show ?thesis using Suc.prems(2) by (simp only:)
  qed
  moreover have "small_page (kernel_heap_virtual_memory_next s) s"
    using Suc.prems(5) [rule_format, of 0] i by simp
  ultimately obtain v s1 l1 ph where
    1: "page_allocate 1 s = Some (v, s1)" "paging_ok l1 s1" "room l1 (n + 3 * (m - Suc i)) s1"
      "paging_virtual_to_physical v s1 = Some ph" "\<forall>w. small_page w s \<longrightarrow> small_page w s1"
      "kernel_heap_virtual_memory_next s1 = kernel_heap_virtual_memory_next s + PAGE_SIZE"
    using page_allocate_one [OF Suc.prems(1)] by metis
  have sm: "\<forall>j < m - Suc i. small_page (kernel_heap_virtual_memory_next s1 + of_nat j * PAGE_SIZE) s1"
  proof (intro allI impI)
    fix j assume "j < m - Suc i"
    then have "Suc j < m - i" by simp
    then have "small_page (kernel_heap_virtual_memory_next s + of_nat (Suc j) * PAGE_SIZE) s" using Suc.prems(5) by blast
    then show "small_page (kernel_heap_virtual_memory_next s1 + of_nat j * PAGE_SIZE) s1"
      using 1(5,6) by (simp add: algebra_simps)
  qed
  let ?x = "\<lparr>sec_phys = ph, sec_virt = heap_top_allocated p, sec_kern_virt = v\<rparr>"
  let ?p = "p\<lparr>heap_pages := (heap_pages p)[i := ?x], heap_top_allocated := heap_top_allocated p + PAGE_SIZE\<rparr>"
  have e: "heap_loop [i..<m] p s = heap_loop [Suc i..<m] ?p s1"
    using i Suc.prems(4) 1 by (simp add: upt_conv_Cons nth_elem_def)
  have il: "i < length (heap_pages p)" using i Suc.prems(4) by simp
  have "Suc i \<le> m" "m \<le> length (heap_pages ?p)" using i Suc.prems(4) by simp_all
  from Suc.hyps(1) [OF d 1(2,3) this sm] obtain p' s' hp where
    2: "heap_loop [Suc i..<m] ?p s1 = Some (p', s')"
      "p' = ?p\<lparr>heap_pages := hp, heap_top_allocated := heap_top_allocated ?p + of_nat (m - Suc i) * PAGE_SIZE\<rparr>"
      "length hp = length (heap_pages ?p)"
      "\<forall>j. Suc i \<le> j \<longrightarrow> j < m \<longrightarrow> sec_virt (hp ! j) = heap_top_allocated ?p + of_nat (j - Suc i) * PAGE_SIZE"
      "\<forall>j. j < Suc i \<longrightarrow> hp ! j = heap_pages ?p ! j" by blast
  have mi: "m - i = Suc (m - Suc i)" using i by simp
  show ?case
  proof (intro exI conjI allI impI)
    show "heap_loop [i..<m] p s = Some (p', s')" using e 2(1) by simp
    show "p' = p\<lparr>heap_pages := hp, heap_top_allocated := heap_top_allocated p + of_nat (m - i) * PAGE_SIZE\<rparr>"
      using 2(2) by (simp add: mi algebra_simps)
    show "length hp = length (heap_pages p)" using 2(3) by simp
    fix j
    show "sec_virt (hp ! j) = heap_top_allocated p + of_nat (j - i) * PAGE_SIZE" if "i \<le> j" "j < m"
    proof (cases "j = i")
      case True
      then show ?thesis using 2(5) il by simp
    next
      case False
      then have "j - i = Suc (j - Suc i)" using that by simp
      then show ?thesis using 2(4) False that by (simp add: algebra_simps)
    qed
    show "hp ! j = heap_pages p ! j" if "j < i" using 2(5) that by simp
  qed
qed

text \<open>The first brk of a process asks for as many pages as the remainder of the size by
  the page size says, plus one, and records them at virtual address 0, not at the heap; it never counts
  them, so that no later yield maps them. The statement needs room for three tables a page, that is a
  remainder of at most about 160.\<close>
theorem first_brk_misplaces_heap:
  assumes c: "current_process k = c" "cells (procs k) c = Some p"
    and p: "heap_top p = 0xB0000000" "heap_top_allocated p = 0" "heap_page_count p = 0" "heap_pages p = []"
    and a: "0xB0000000 < a" "n = unat ((a - 0xB0000000) mod PAGE_SIZE) + 1"
    and s: "paging_ok lev (pg k)" "room lev (3 * n) (pg k)"
      "\<forall>j < n. small_page (kernel_heap_virtual_memory_next (pg k) + of_nat j * PAGE_SIZE) (pg k)"
  shows "\<exists>k' p'. brk_syscall_handler a k = Some (0, k') \<and> cells (procs k') c = Some p' \<and> heap_top p' = a
     \<and> length (heap_pages p') = n \<and> (\<forall>i < n. sec_virt (heap_pages p' ! i) = of_nat i * PAGE_SIZE)
     \<and> heap_page_count p' = 0"
proof -
  have lt: "unat ((a - 0xB0000000) mod PAGE_SIZE) < 4096"
    by (simp add: unat_mod_distrib)
  have "unat ((a - 0xB0000000) mod PAGE_SIZE + 1) = n"
    using lt a(2) word_add_mono_nat [of "(a - 0xB0000000) mod PAGE_SIZE" 1] by simp
  then have nu: "unat (ucast ((a - 0xB0000000) mod PAGE_SIZE + 1) :: u16) = n"
    using lt a(2) by (simp add: unsigned_ucast_eq take_bit_nat_eq_self)
  let ?p = "p\<lparr>heap_pages := krealloc_sections n []\<rparr>"
  have len: "length (heap_pages ?p) = n" by (simp add: krealloc_sections_def)
  have "room lev (0 + 3 * (n - 0)) (pg k)" using s(2) by simp
  from heap_loop_ok [OF s(1) this, of ?p] len s(3) obtain p' s' hp where
    h: "heap_loop [0..<n] ?p (pg k) = Some (p', s')"
      "p' = ?p\<lparr>heap_pages := hp, heap_top_allocated := heap_top_allocated ?p + of_nat (n - 0) * PAGE_SIZE\<rparr>"
      "length hp = n" "\<forall>j. j < n \<longrightarrow> sec_virt (hp ! j) = heap_top_allocated ?p + of_nat j * PAGE_SIZE"
    by (metis diff_zero le0 order_refl)
  have "\<not> a \<le> 0" "\<not> a \<le> 0xB0000000" using a(1) by auto
  then have "brk_syscall_handler a k = Some (0, k\<lparr>procs := (procs k)\<lparr>cells := (cells (procs k))(c \<mapsto> p'\<lparr>heap_top := a\<rparr>)\<rparr>, pg := s'\<rparr>)"
    using c p h(1) nu by (simp add: brk_syscall_handler_def store_simps Let_def)
  then show ?thesis using h p
    by (intro exI [of _ "k\<lparr>procs := (procs k)\<lparr>cells := (cells (procs k))(c \<mapsto> p'\<lparr>heap_top := a\<rparr>)\<rparr>, pg := s'\<rparr>"]
          exI [of _ "p'\<lparr>heap_top := a\<rparr>"]) auto
qed

end
