(* ===== verification/NetWire.thy ===== *)
theory NetWire
  imports KPrelude
begin

text \<open>
  The wire formats of kernel/net and its include files: the packed structures as
  records with the list of bytes each occupies in memory (the machine is
  little-endian, so the code's htons and htonl put network order on the wire),
  and the two checksum routines, of ipv4.c and tcp.c. The lemmas compare both
  with the ones-complement sum of RFC 1071: the sum of tcp.c folds after every
  word and equals it always, the one of ipv4.c folds once at the end and equals
  it exactly when that fold does not carry.
\<close>

section \<open>Byte order and memory images\<close>

definition htons :: "u16 \<Rightarrow> u16" where
  "htons s = push_bit 8 (s AND 0xFF) OR drop_bit 8 (s AND 0xFF00)"

definition htonl :: "u32 \<Rightarrow> u32" where
  "htonl l = push_bit 24 (l AND 0xFF) OR push_bit 8 (l AND 0xFF00)
     OR drop_bit 8 (l AND 0xFF0000) OR drop_bit 24 (l AND 0xFF000000)"

definition bytes16 :: "u16 \<Rightarrow> u8 list" where
  "bytes16 w = [ucast w, ucast (drop_bit 8 w)]"

definition bytes32 :: "u32 \<Rightarrow> u8 list" where
  "bytes32 w = [ucast w, ucast (drop_bit 8 w), ucast (drop_bit 16 w), ucast (drop_bit 24 w)]"

text \<open>An array of bytes read through a uint16_t pointer; n elements of it.\<close>

fun word16s :: "u8 list \<Rightarrow> u16 list" where
  "word16s (a # b # r) = (ucast a OR push_bit 8 (ucast b)) # word16s r"
| "word16s _ = []"

definition words_at :: "u8 list \<Rightarrow> nat \<Rightarrow> u16 list option" where
  "words_at h n = (if 2 * n \<le> length h then Some (take n (word16s h)) else None)"

text \<open>memcpy of n bytes from src to offset i of the array buf.\<close>

definition memcpy_to :: "u8 list \<Rightarrow> nat \<Rightarrow> u8 list \<Rightarrow> nat \<Rightarrow> u8 list option" where
  "memcpy_to buf i src n = (if n \<le> length src \<and> i + n \<le> length buf
     then Some (take i buf @ take n src @ drop (i + n) buf) else None)"


section \<open>The packed structures\<close>

record ethernet_packet =
  eth_destination :: "u8 list"
  eth_source :: "u8 list"
  eth_type :: u16

definition ethernet_bytes :: "ethernet_packet \<Rightarrow> u8 list" where
  "ethernet_bytes p = eth_destination p @ eth_source p @ bytes16 (eth_type p)"

record arp_packet =
  arp_htype :: u16
  arp_ptype :: u16
  arp_hlen :: u8
  arp_plen :: u8
  arp_opcode :: u16
  arp_src_hardware_addr :: "u8 list"
  arp_src_protocol_addr :: "u8 list"
  arp_dst_hardware_addr :: "u8 list"
  arp_dst_protocol_addr :: "u8 list"

definition arp_bytes :: "arp_packet \<Rightarrow> u8 list" where
  "arp_bytes p = bytes16 (arp_htype p) @ bytes16 (arp_ptype p) @ [arp_hlen p, arp_plen p]
     @ bytes16 (arp_opcode p) @ arp_src_hardware_addr p @ arp_src_protocol_addr p
     @ arp_dst_hardware_addr p @ arp_dst_protocol_addr p"

record ipv4_packet =
  ip_version_ihl :: u8
  ip_dscp_ecn :: u8
  ip_length :: u16
  ip_ident :: u16
  ip_flags_fragment :: u16
  ip_ttl :: u8
  ip_protocol :: u8
  ip_checksum :: u16
  ip_source :: u32
  ip_destination :: u32

definition ipv4_bytes :: "ipv4_packet \<Rightarrow> u8 list" where
  "ipv4_bytes p = [ip_version_ihl p, ip_dscp_ecn p] @ bytes16 (ip_length p) @ bytes16 (ip_ident p)
     @ bytes16 (ip_flags_fragment p) @ [ip_ttl p, ip_protocol p] @ bytes16 (ip_checksum p)
     @ bytes32 (ip_source p) @ bytes32 (ip_destination p)"

record udp_packet =
  udp_source_port :: u16
  udp_destination_port :: u16
  udp_length :: u16
  udp_checksum :: u16

definition udp_bytes :: "udp_packet \<Rightarrow> u8 list" where
  "udp_bytes p = bytes16 (udp_source_port p) @ bytes16 (udp_destination_port p)
     @ bytes16 (udp_length p) @ bytes16 (udp_checksum p)"

record tcp_header =
  tcp_source_port :: u16
  tcp_destination_port :: u16
  tcp_seq_number :: u32
  tcp_ack_number :: u32
  tcp_flags :: u16
  tcp_window_size :: u16
  tcp_checksum :: u16
  tcp_urgent :: u16

definition tcp_bytes :: "tcp_header \<Rightarrow> u8 list" where
  "tcp_bytes h = bytes16 (tcp_source_port h) @ bytes16 (tcp_destination_port h)
     @ bytes32 (tcp_seq_number h) @ bytes32 (tcp_ack_number h) @ bytes16 (tcp_flags h)
     @ bytes16 (tcp_window_size h) @ bytes16 (tcp_checksum h) @ bytes16 (tcp_urgent h)"

record tcp_header_payload =
  thp_header :: tcp_header
  thp_options :: "u8 list"

definition tcp_header_payload_bytes :: "tcp_header_payload \<Rightarrow> u8 list" where
  "tcp_header_payload_bytes p = tcp_bytes (thp_header p) @ thp_options p"

record tcp_check_header =
  tch_source :: u32
  tch_destination :: u32
  tch_zeros :: u8
  tch_protocol :: u8
  tch_tcp_len :: u16

definition tcp_check_bytes :: "tcp_check_header \<Rightarrow> u8 list" where
  "tcp_check_bytes p = bytes32 (tch_source p) @ bytes32 (tch_destination p)
     @ [tch_zeros p, tch_protocol p] @ bytes16 (tch_tcp_len p)"


section \<open>The checksums\<close>

text \<open>
  calculate_ipv4_checksum: ten words are added in 32 bits, the carries are folded
  once, the result is complemented.
\<close>

definition ipv4_sum :: "u16 list \<Rightarrow> u32" where
  "ipv4_sum ws = fold (\<lambda>w acc. acc + ucast (htons w)) ws 0"

definition fold_once :: "u32 \<Rightarrow> u32" where
  "fold_once acc = (if acc > 0xFFFF then drop_bit 16 acc + (acc AND 0xFFFF) else acc)"

text \<open>Both end with return ~(sum AND 0xFFFF) AND 0xFFFF, as a uint16_t.\<close>

definition complement_sum :: "u32 \<Rightarrow> u16" where
  "complement_sum acc = ucast (NOT (acc AND 0xFFFF) AND 0xFFFF)"

definition calculate_ipv4_checksum :: "ipv4_packet \<Rightarrow> u16" where
  "calculate_ipv4_checksum p =
     complement_sum (fold_once (ipv4_sum (take 10 (word16s (ipv4_bytes p)))))"

text \<open>
  calculate_tcp_checksum: every addition is followed by the fold. h is the header
  with its options behind it, d the data (empty for NULL).
\<close>

definition tcp_add :: "u16 \<Rightarrow> u32 \<Rightarrow> u32" where
  "tcp_add w acc = fold_once (acc + ucast (htons w))"

definition calculate_tcp_checksum ::
  "tcp_check_header \<Rightarrow> u8 list \<Rightarrow> u16 \<Rightarrow> u8 list \<Rightarrow> u32 \<Rightarrow> u16 option" where
  "calculate_tcp_checksum p h options_length d payload_size = do {
     ps \<leftarrow> words_at (tcp_check_bytes p) 6;
     let acc = fold tcp_add ps 0;
     hs \<leftarrow> words_at h (10 + unat options_length div 2);
     let acc = fold tcp_add hs acc;
     let d_words = (ucast (payload_size div 2) :: u16);
     ds \<leftarrow> words_at d (unat d_words);
     let acc = fold tcp_add ds acc;
     acc \<leftarrow> (if ucast d_words * 2 \<noteq> payload_size then do {
               t \<leftarrow> read_le d (unat d_words * 2) 1;
               Some (tcp_add (ucast (t :: u8)) acc) }
            else Some acc);
     Some (complement_sum acc) }"

text \<open>
  The reference: RFC 1071's sum of the words in network order, computed on the
  numbers and reduced with end-around carry, and the receiver's test of it.
\<close>

definition word_sum :: "u16 list \<Rightarrow> nat" where
  "word_sum ws = sum_list (map (\<lambda>w. unat (htons w)) ws)"

definition ones_sum :: "nat \<Rightarrow> nat" where
  "ones_sum n = (if n = 0 then 0 else Suc ((n - 1) mod 65535))"

definition checksum_verifies :: "u16 list \<Rightarrow> bool" where
  "checksum_verifies ws \<longleftrightarrow> ones_sum (word_sum ws) = 65535"


section \<open>Byte order\<close>

lemma byte_masks16: "(0xFF :: u16) = mask 8" "(0xFF00 :: u16) = push_bit 8 (mask 8)"
  by (simp_all add: mask_eq_exp_minus_1)

lemma byte_masks32:
  "(0xFF :: u32) = mask 8" "(0xFF00 :: u32) = push_bit 8 (mask 8)"
  "(0xFF0000 :: u32) = push_bit 16 (mask 8)" "(0xFF000000 :: u32) = push_bit 24 (mask 8)"
  by (simp_all add: mask_eq_exp_minus_1)

lemma bit_htons: "bit (htons w) n \<longleftrightarrow> n < 16 \<and> bit w (if n < 8 then n + 8 else n - 8)"
  by (auto simp: htons_def byte_masks16 bit_simps add.commute)

lemma htons_htons [simp]: "htons (htons w) = w"
  by (rule bit_word_eqI) (auto simp: bit_htons)

lemma htons_eq_iff [simp]: "htons v = htons w \<longleftrightarrow> v = w"
  by (metis htons_htons)

lemma bit_htonl: "bit (htonl w) n \<longleftrightarrow> n < 32 \<and> bit w (24 - 8 * (n div 8) + n mod 8)"
proof (cases "n < 32")
  case True
  then consider "n < 8" | "8 \<le> n" "n < 16" | "16 \<le> n" "n < 24" | "24 \<le> n" "n < 32" by linarith
  then show ?thesis
  proof cases
    case 1
    then show ?thesis by (auto simp: htonl_def byte_masks32 bit_simps)
  next
    case 2
    then have "n div 8 = 1" "n mod 8 = n - 8" by presburger+
    with 2 show ?thesis by (auto simp: htonl_def byte_masks32 bit_simps)
  next
    case 3
    then have "n div 8 = 2" "n mod 8 = n - 16" by presburger+
    with 3 show ?thesis by (auto simp: htonl_def byte_masks32 bit_simps)
  next
    case 4
    then have "n div 8 = 3" "n mod 8 = n - 24" by presburger+
    with 4 show ?thesis by (auto simp: htonl_def byte_masks32 bit_simps)
  qed
qed (auto simp: htonl_def byte_masks32 bit_simps)

lemma htonl_htonl [simp]: "htonl (htonl w) = w"
proof (rule bit_word_eqI)
  fix n assume "n < LENGTH(32)"
  then have "n < 32" by simp
  define m where "m = 24 - 8 * (n div 8) + n mod 8"
  have "n div 8 \<le> 3" using \<open>n < 32\<close> by linarith
  have m: "m = (n mod 8) + (3 - n div 8) * 8" unfolding m_def using \<open>n div 8 \<le> 3\<close> by linarith
  then have mm: "m div 8 = 3 - n div 8" "m mod 8 = n mod 8" by simp_all
  have "n mod 8 < 8" by simp
  then have "m < 32" unfolding m by linarith
  have "24 - 8 * (3 - n div 8) = 8 * (n div 8)"
    using \<open>n div 8 \<le> 3\<close> by (simp add: diff_mult_distrib2)
  with mm have "24 - 8 * (m div 8) + m mod 8 = n" by simp
  then show "bit (htonl (htonl w)) n = bit w n"
    using \<open>n < 32\<close> \<open>m < 32\<close> by (simp add: bit_htonl [of "htonl w" n] bit_htonl [of w m] flip: m_def)
qed

lemma le_word_bytes16 [simp]: "le_word (bytes16 w) = w"
  by (rule bit_word_eqI) (auto simp: bytes16_def bit_simps)

lemma le_word_bytes32 [simp]: "le_word (bytes32 w) = w"
proof (rule bit_word_eqI)
  fix n assume "n < LENGTH(32)"
  then have "n < 32" by simp
  then consider "n < 8" | "8 \<le> n" "n < 16" | "16 \<le> n" "n < 24" | "24 \<le> n" by linarith
  then show "bit (le_word (bytes32 w) :: u32) n = bit w n"
    using \<open>n < 32\<close> by cases (auto simp: bytes32_def bit_simps)
qed

lemma word16s_bytes16 [simp]: "word16s (bytes16 w @ r) = w # word16s r"
proof -
  have "(ucast (ucast w :: u8) :: u16) OR push_bit 8 (ucast (ucast (drop_bit 8 w) :: u8)) = w"
    by (rule bit_word_eqI) (auto simp: bit_simps)
  then show ?thesis by (simp add: bytes16_def)
qed

lemma length_bytes [simp]: "length (bytes16 w) = 2" "length (bytes32 l) = 4"
  by (simp_all add: bytes16_def bytes32_def)

definition low_half :: "u32 \<Rightarrow> u16" where "low_half l = ucast l"
definition high_half :: "u32 \<Rightarrow> u16" where "high_half l = ucast (drop_bit 16 l)"

lemma word16s_bytes32 [simp]: "word16s (bytes32 l @ r) = low_half l # high_half l # word16s r"
proof -
  have "bytes32 l = bytes16 (low_half l) @ bytes16 (high_half l)"
    by (auto simp: bytes32_def bytes16_def low_half_def high_half_def intro!: bit_word_eqI)
       (auto simp: bit_simps)
  then show ?thesis by simp
qed

lemma length_word16s [simp]: "length (word16s h) = length h div 2"
  by (induction h rule: word16s.induct) auto

section \<open>The folded sums\<close>

lemma unat_fold_once:
  "unat (fold_once s) = (if unat s > 65535 then unat s div 65536 + unat s mod 65536 else unat s)"
proof -
  have "(s AND 0xFFFF) = take_bit 16 s" by (simp add: take_bit_eq_mask mask_eq_exp_minus_1)
  then have lo: "unat (s AND 0xFFFF) = unat s mod 65536"
    by (simp only: unsigned_take_bit_eq) (simp add: take_bit_eq_mod)
  have hi: "unat (drop_bit 16 s) = unat s div 65536"
    by (simp add: drop_bit_eq_div unat_div_distrib)
  have "unat s div 65536 + unat s mod 65536 < 4294967296"
    using unat_word_bounds(3) [of s] by linarith
  then have "unat (drop_bit 16 s + (s AND 0xFFFF)) = unat s div 65536 + unat s mod 65536"
    by (simp add: unat_word_ariths lo hi)
  moreover have "s > 0xFFFF \<longleftrightarrow> unat s > 65535" by (simp add: word_less_nat_alt)
  ultimately show ?thesis by (simp add: fold_once_def)
qed

lemma ones_sum_le: "ones_sum n \<le> 65535"
proof -
  have "(n - 1) mod 65535 < 65535" by (rule mod_less_divisor) simp
  then have "Suc ((n - 1) mod 65535) \<le> 65535" by (rule Suc_leI)
  then show ?thesis by (metis ones_sum_def le0)
qed

lemma ones_sum_add:
  assumes "v \<le> 65535"
  shows "ones_sum (n + v) = (if ones_sum n + v > 65535 then ones_sum n + v - 65535 else ones_sum n + v)"
proof (cases "n = 0")
  case True
  then show ?thesis using assms by (auto simp: ones_sum_def mod_if)
next
  case False
  define a where "a = (n - 1) mod 65535"
  have "a < 65535" by (simp add: a_def)
  have "(n + v - 1) mod 65535 = (a + v) mod 65535"
    using False by (simp add: a_def mod_add_left_eq)
  moreover have "(a + v) mod 65535 = (if a + v < 65535 then a + v else a + v - 65535)"
    using assms \<open>a < 65535\<close> by (auto simp: mod_if)
  moreover have "ones_sum n = Suc a" using False by (simp add: ones_sum_def a_def)
  ultimately show ?thesis using False by (auto simp: ones_sum_def [of "n + v"])
qed

lemma ones_sum_small: "n \<le> 65535 \<Longrightarrow> ones_sum n = n"
  by (simp add: ones_sum_def)

lemma word_sum_simps [simp]:
  "word_sum [] = 0" "word_sum (w # ws) = unat (htons w) + word_sum ws"
  "word_sum (us @ ws) = word_sum us + word_sum ws"
  by (simp_all add: word_sum_def)

lemma tcp_add_ones:
  assumes "unat acc = ones_sum n"
  shows "unat (tcp_add w acc) = ones_sum (n + unat (htons w))"
proof -
  have "unat acc \<le> 65535" using assms ones_sum_le by metis
  moreover have v: "unat (htons w) \<le> 65535" using unat_word_bounds(2) [of "htons w"] by simp
  ultimately have "unat (acc + ucast (htons w)) = unat acc + unat (htons w)"
    by (simp add: unat_word_ariths)
  then show ?thesis
    using v \<open>unat acc \<le> 65535\<close> assms
    by (auto simp: tcp_add_def unat_fold_once ones_sum_add mod_if div_if)
qed

lemma fold_tcp_add_ones:
  "unat acc = ones_sum n \<Longrightarrow> unat (fold tcp_add ws acc) = ones_sum (n + word_sum ws)"
proof (induction ws arbitrary: acc n)
  case (Cons w ws)
  from Cons.IH [OF tcp_add_ones [OF Cons.prems, of w]] show ?case by (simp add: add.assoc)
qed simp

lemma complement16: "unat (complement_sum acc) = 65535 - unat acc mod 65536"
proof -
  have m: "(0xFFFF :: u32) = mask 16" by (simp add: mask_eq_exp_minus_1)
  have "(ucast (NOT (acc AND 0xFFFF) AND 0xFFFF :: u32) :: u16) = NOT (ucast acc)"
    unfolding m by (rule bit_word_eqI) (auto simp: bit_simps)
  also have "\<dots> = - 1 - ucast acc" by (simp add: not_eq_complement)
  finally have "unat (complement_sum acc) = unat (- 1 - (ucast acc :: u16))"
    by (simp add: complement_sum_def)
  also have "\<dots> = unat (- 1 :: u16) - unat (ucast acc :: u16)"
    by (rule unat_sub) simp
  also have "unat (- 1 :: u16) = 65535" by (simp add: unsigned_minus_1_eq_mask mask_eq_exp_minus_1)
  also have "unat (ucast acc :: u16) = unat acc mod 65536"
    by (simp add: unsigned_ucast_eq take_bit_eq_mod)
  finally show ?thesis .
qed

lemma ones_sum_complement: "ones_sum (n + (65535 - ones_sum n)) = 65535"
  using ones_sum_le [of n] by (subst ones_sum_add) auto

text \<open>The complement of the sum, put where a zero was, makes the receiver's test succeed.\<close>

lemma checksum_completes:
  assumes "unat c = 65535 - ones_sum (word_sum (us @ ws))"
  shows "checksum_verifies (us @ htons c # ws)"
proof -
  have "word_sum (us @ htons c # ws) = word_sum (us @ ws) + (65535 - ones_sum (word_sum (us @ ws)))"
    using assms by simp
  then show ?thesis unfolding checksum_verifies_def by (simp only: ones_sum_complement)
qed

lemma ipv4_sum_word_sum:
  assumes "length ws \<le> 10" shows "unat (ipv4_sum ws) = word_sum ws"
proof -
  have "unat acc + 65535 * length vs < 4294967296 \<Longrightarrow>
      unat (fold (\<lambda>w acc. acc + ucast (htons w)) vs acc) = unat acc + word_sum vs" for vs :: "u16 list" and acc :: u32
  proof (induction vs arbitrary: acc)
    case (Cons w vs)
    have "unat (htons w) \<le> 65535" using unat_word_bounds(2) [of "htons w"] by simp
    then have "unat (acc + ucast (htons w)) = unat acc + unat (htons w)"
      using Cons.prems by (simp add: unat_word_ariths)
    then show ?case using Cons.IH [of "acc + ucast (htons w)"] Cons.prems \<open>unat (htons w) \<le> 65535\<close> by simp
  qed simp
  from this [of 0 ws] assms show ?thesis by (simp add: ipv4_sum_def)
qed

lemma word_sum_le: "word_sum ws \<le> 65535 * length ws"
proof (induction ws)
  case (Cons w ws)
  then show ?case using unat_word_bounds(2) [of "htons w"] by simp
qed simp


section \<open>The checksum routines against RFC 1071\<close>

text \<open>The data as the sum sees it: an odd last byte is padded with a zero.\<close>

definition padded_words :: "u8 list \<Rightarrow> u16 list" where
  "padded_words d = word16s (if even (length d) then d else d @ [0])"

lemma take_word16s: "take k (word16s d) = word16s (take (2 * k) d)"
proof (induction k arbitrary: d)
  case (Suc k)
  show ?case by (cases d rule: word16s.cases) (simp_all add: Suc)
qed simp

lemma word16s_append: "even (length xs) \<Longrightarrow> word16s (xs @ ys) = word16s xs @ word16s ys"
  by (induction xs rule: word16s.induct) auto

lemma padded_words_odd:
  assumes "odd (length d)"
  shows "padded_words d = word16s (take (length d - 1) d) @ [ucast (d ! (length d - 1))]"
proof -
  from assms have "d \<noteq> []" by auto
  then have "d = take (length d - 1) d @ [d ! (length d - 1)]"
    by (metis append_butlast_last_id butlast_conv_take last_conv_nth)
  then have "d @ [0] = take (length d - 1) d @ [d ! (length d - 1), 0]" by (metis append.assoc append_Cons append_Nil)
  then have "word16s (d @ [0]) = word16s (take (length d - 1) d @ [d ! (length d - 1), 0])" by (rule arg_cong)
  also have "\<dots> = word16s (take (length d - 1) d) @ [ucast (d ! (length d - 1))]"
    using assms by (subst word16s_append) auto
  finally show ?thesis using assms by (simp add: padded_words_def)
qed

lemma read_le_1: "i < length d \<Longrightarrow> (read_le d i 1 :: u8 option) = Some (d ! i)"
  by (auto simp: read_le_def take_Suc hd_drop_conv_nth Suc_le_eq)

lemma tcp_checksum_rfc:
  assumes "20 + unat opt \<le> length h" "unat sz \<le> length d" "unat sz < 131072"
  shows "\<exists>c. calculate_tcp_checksum p h opt d sz = Some c \<and>
    unat c = 65535 - ones_sum (word_sum (take 6 (word16s (tcp_check_bytes p))
      @ take (10 + unat opt div 2) (word16s h) @ padded_words (take (unat sz) d)))"
proof -
  let ?ps = "take 6 (word16s (tcp_check_bytes p))" and ?hs = "take (10 + unat opt div 2) (word16s h)"
  let ?k = "unat sz div 2"
  let ?dw = "ucast (sz div 2) :: u16"
  have ps: "words_at (tcp_check_bytes p) 6 = Some ?ps"
    by (simp add: words_at_def tcp_check_bytes_def)
  have hs: "words_at h (10 + unat opt div 2) = Some ?hs" using assms(1) by (simp add: words_at_def)
  have "unat (sz div 2) = ?k" by (simp add: unat_div_distrib)
  then have dw: "unat ?dw = ?k"
    using assms(3) by (simp add: unsigned_ucast_eq take_bit_eq_mod del: unat_div)
  have ds: "words_at d (unat ?dw) = Some (word16s (take (2 * ?k) d))"
    using assms(2) unfolding dw by (auto simp: words_at_def take_word16s)
  define a where "a = fold tcp_add (word16s (take (2 * ?k) d)) (fold tcp_add ?hs (fold tcp_add ?ps 0))"
  have "unat (0 :: u32) = ones_sum 0" by (simp add: ones_sum_def)
  from fold_tcp_add_ones [OF fold_tcp_add_ones [OF fold_tcp_add_ones [OF this]]]
  have a: "unat a = ones_sum (word_sum ?ps + word_sum ?hs + word_sum (word16s (take (2 * ?k) d)))"
    unfolding a_def by simp
  have twice: "ucast ?dw * 2 = (sz :: u32) \<longleftrightarrow> even (unat sz)"
  proof -
    have "unat (ucast ?dw * 2 :: u32) = 2 * ?k"
      using dw assms(3) by (simp add: unat_word_ariths)
    then show ?thesis by (metis dvd_mult_div_cancel dvd_triv_left word_unat_eq_iff)
  qed
  have final: "\<exists>c. Some (complement_sum z) = Some c \<and>
      unat c = 65535 - ones_sum n" if "unat z = ones_sum n" for z :: u32 and n
    using that ones_sum_le [of n] by (auto simp: complement16)
  show ?thesis
  proof (cases "even (unat sz)")
    case True
    then have "padded_words (take (unat sz) d) = word16s (take (2 * ?k) d)"
      using assms(2) by (simp add: padded_words_def)
    moreover have e: "2 * ?k = unat sz" using True by simp
    ultimately show ?thesis
      using final [OF a [unfolded e]] True
      by (simp add: calculate_tcp_checksum_def ps hs ds [unfolded e] twice Let_def add.assoc
          flip: a_def [unfolded e])
  next
    case False
    let ?t = "d ! (2 * ?k)"
    have k: "2 * ?k = unat sz - 1" using False by presburger
    have len: "2 * ?k < length d" using False assms(2) k by (cases "unat sz = 0") auto
    have t: "(read_le d (unat ?dw * 2) 1 :: u8 option) = Some ?t"
      using read_le_1 [OF len] unfolding dw by (simp only: mult.commute)
    have "padded_words (take (unat sz) d) = word16s (take (2 * ?k) d) @ [ucast ?t]"
    proof -
      have "length (take (unat sz) d) = unat sz" using assms(2) by simp
      moreover have "take (unat sz) d ! (unat sz - 1) = ?t"
        using False k by (subst nth_take) (auto intro: Suc_leI simp: odd_pos)
      moreover have "take (unat sz - 1) (take (unat sz) d) = take (2 * ?k) d" using k by (simp add: min_def)
      ultimately show ?thesis using padded_words_odd [of "take (unat sz) d"] False by metis
    qed
    moreover have "calculate_tcp_checksum p h opt d sz = Some (complement_sum (tcp_add (ucast ?t) a))"
      using False t by (simp add: calculate_tcp_checksum_def ps hs ds twice Let_def
          del: odd_two_times_div_two_nat One_nat_def flip: a_def)
    ultimately show ?thesis
      using final [OF tcp_add_ones [OF a, of "ucast ?t"]] by (simp add: add.assoc)
  qed
qed

text \<open>Property C27: the checksum of tcp.c is that of RFC 1071. For every pseudo
  header, header with options and payload that lie in their arrays, the loop
  with its fold after every word, the halved lengths and the padded odd byte
  computes the complement of the ones-complement sum of all the words.\<close>

theorem tcp_checksum_is_rfc1071:
  assumes "20 + unat opt \<le> length h" "unat sz \<le> length d" "unat sz < 131072"
  shows "\<exists>c. calculate_tcp_checksum p h opt d sz = Some c \<and>
    unat c = 65535 - ones_sum (word_sum (take 6 (word16s (tcp_check_bytes p))
      @ take (10 + unat opt div 2) (word16s h) @ padded_words (take (unat sz) d)))"
  using assms by (rule tcp_checksum_rfc)

lemma htons_0 [simp]: "htons 0 = 0"
  by (simp add: htons_def)

lemma ipv4_words:
  "word16s (ipv4_bytes p) = [ucast (ip_version_ihl p) OR push_bit 8 (ucast (ip_dscp_ecn p)),
     ip_length p, ip_ident p, ip_flags_fragment p, ucast (ip_ttl p) OR push_bit 8 (ucast (ip_protocol p)),
     ip_checksum p, low_half (ip_source p), high_half (ip_source p),
     low_half (ip_destination p), high_half (ip_destination p)]"
  using word16s_bytes32 [of "ip_destination p" "[]"] by (simp add: ipv4_bytes_def)

text \<open>The checksum of ipv4.c. The header it is put into passes the
  receiver's test of RFC 1071 exactly when the one fold of the carries does not
  carry itself; in the other case the masked result is one too large.\<close>

theorem ipv4_checksum_correct_iff:
  assumes "ip_checksum p = 0" "0 < word_sum (word16s (ipv4_bytes p))"
  shows "checksum_verifies (word16s (ipv4_bytes (p\<lparr>ip_checksum := htons (calculate_ipv4_checksum p)\<rparr>)))
    \<longleftrightarrow> word_sum (word16s (ipv4_bytes p)) div 65536 + word_sum (word16s (ipv4_bytes p)) mod 65536 \<le> 65535"
proof -
  let ?ws = "word16s (ipv4_bytes p)" and ?c = "calculate_ipv4_checksum p"
  define n where "n = word_sum ?ws"
  have len: "length ?ws = 10" by (simp add: ipv4_words)
  have le: "n \<le> 655350" using word_sum_le [of ?ws] unfolding n_def len by simp
  define t where "t = (if n > 65535 then n div 65536 + n mod 65536 else n)"
  have "unat (fold_once (ipv4_sum (take 10 ?ws))) = t"
    using ipv4_sum_word_sum [of ?ws] len by (simp add: unat_fold_once t_def n_def)
  then have c: "unat ?c = 65535 - t mod 65536"
    by (simp add: calculate_ipv4_checksum_def complement16)
  have "word_sum (word16s (ipv4_bytes (p\<lparr>ip_checksum := htons ?c\<rparr>))) = n + unat ?c"
    using assms(1) by (simp add: ipv4_words n_def)
  then have v: "checksum_verifies (word16s (ipv4_bytes (p\<lparr>ip_checksum := htons ?c\<rparr>)))
      \<longleftrightarrow> ones_sum (n + unat ?c) = 65535" by (simp add: checksum_verifies_def)
  have nd: "n = 65536 * (n div 65536) + n mod 65536" by simp
  have "0 < n" using assms(2) by (simp add: n_def)
  have "ones_sum (n + unat ?c) = 65535 \<longleftrightarrow> t \<le> 65535"
  proof (cases "t \<le> 65535")
    case True
    have "n + unat ?c = 65535 * (n div 65536) + 65535"
    proof (cases "65535 < n")
      case big: True
      then have "n div 65536 + n mod 65536 \<le> 65535" using True unfolding t_def by simp
      moreover from this have "unat ?c = 65535 - (n div 65536 + n mod 65536)"
        using c big unfolding t_def by simp
      ultimately show ?thesis using nd by linarith
    next
      case False
      then show ?thesis using c unfolding t_def by simp
    qed
    then show ?thesis using True by (simp add: ones_sum_def)
  next
    case False
    have "n div 65536 \<le> 9" using le by linarith
    have t1: "t = n div 65536 + n mod 65536" using False unfolding t_def by (simp split: if_splits)
    have "n mod 65536 < 65536" by simp
    then have t2: "t < 65546" using t1 \<open>n div 65536 \<le> 9\<close> by linarith
    have "t mod 65536 = (t - 65536) mod 65536" using False by (intro le_mod_geq) linarith
    then have t3: "t mod 65536 = t - 65536" using t2 by simp
    have "n + (65535 - (t - 65536)) = 65535 * (hi + 1) + 65536"
      if "n = 65536 * hi + lo" "t = hi + lo" for hi lo
    proof -
      obtain u where "t = 65536 + u" using False le_Suc_ex [of 65536 t] by auto
      with that t2 show ?thesis by auto
    qed
    from this [OF nd t1] c t3 have "n + unat ?c = 65535 * (n div 65536 + 1) + 65536" by simp
    then have "n + unat ?c - 1 = 65535 * (n div 65536 + 2)" by simp
    then have "(n + unat ?c - 1) mod 65535 = 0" by (simp only: mod_mult_self1_is_0)
    then have "ones_sum (n + unat ?c) = 1" using \<open>0 < n\<close> by (simp add: ones_sum_def)
    then show ?thesis using False by simp
  qed
  then show ?thesis unfolding v t_def n_def [symmetric] by auto
qed

end
