(* ===== verification/NetStack.thy ===== *)
theory NetStack
  imports NetWire
begin

text \<open>
  The network stack of kernel/net with the ends of the driver it rests on: what
  a send leaves in the transmit ring of e1000.c, the frames of ethernet.c, arp.c,
  ipv4.c, udp.c and tcp.c, and the DHCP client of dhcp.c. A received frame is the
  list of the bytes of its buffer, which may be longer than the frame; a read
  behind the buffer and a copy behind a local array are None. The two busy waits
  (for the DHCP offer and for the SYN/ACK) take the frames that interrupts
  deliver before each turn of their loop as an argument.
\<close>

section \<open>The state\<close>

record net_info =
  ni_ipv4_address :: u32
  ni_ipv4_address_as_string :: string
  ni_ipv4_dns :: u32
  ni_ipv4_dns_as_string :: string
  ni_ipv4_router :: u32
  ni_ipv4_router_as_string :: string
  ni_ipv4_subnet_mask :: u32
  ni_ipv4_subnet_mask_as_string :: string
  ni_dhcp_lease_time_in_seconds :: u32

record tcp_connection =
  con_source_port :: u16
  con_dest_port :: u16
  con_dest_ip :: u32
  con_connected :: bool
  con_seq :: u32
  con_ack :: u32
  con_state :: u8

record net_state =
  networking_info :: net_info
  packet_data :: "u8 list"
  tx_ring :: "(u8 list \<times> u16) list"
  tx_index :: nat
  send_dhcp_request :: bool
  dhcp_request_packet :: "u8 list"
  test_connection :: tcp_connection

text \<open>The frames handed to the device so far, oldest first.\<close>

definition sent :: "net_state \<Rightarrow> u8 list list" where
  "sent s = map fst (take (tx_index s) (tx_ring s))"


section \<open>e1000.c: sending\<close>

text \<open>
  One buffer of a page per descriptor; e1000_send_phase2 counts tx_index up and
  never wraps it, so the 65th frame is outside tx_data.
\<close>

definition e1000_send :: "u8 list \<Rightarrow> nat \<Rightarrow> net_state \<Rightarrow> net_state option" where
  "e1000_send data n s =
     (if tx_index s < 64 \<and> n \<le> 4096 \<and> n \<le> length data
      then Some (s\<lparr>tx_ring := (tx_ring s)[tx_index s := (take n data, of_nat n)],
                   tx_index := tx_index s + 1\<rparr>)
      else None)"

definition e1000_tx_init :: "net_state \<Rightarrow> net_state" where
  "e1000_tx_init s = s\<lparr>tx_ring := replicate 64 ([], 0), tx_index := 0\<rparr>"


section \<open>ethernet.c and arp.c: sending\<close>

definition own_mac :: "u8 list" where
  "own_mac = [0x12, 0x34, 0x56, 0x78, 0x9A, 0xBC]"

definition ethernet_send_packet :: "u8 list \<Rightarrow> u16 \<Rightarrow> u8 list \<Rightarrow> u32 \<Rightarrow> net_state \<Rightarrow> net_state option" where
  "ethernet_send_packet dest type data n s = (if length dest < 6 then None else do {
     let packet = \<lparr>eth_destination = take 6 dest, eth_source = own_mac, eth_type = htons type\<rparr>;
     let total_size = 14 + n;
     pd \<leftarrow> memcpy_to (replicate 2048 0) 0 (ethernet_bytes packet) 14;
     pd \<leftarrow> memcpy_to pd 14 data (unat n);
     e1000_send pd (unat total_size) (s\<lparr>packet_data := pd\<rparr>) })"

definition arp_send :: "u8 list \<Rightarrow> net_state \<Rightarrow> net_state option" where
  "arp_send dest_protocol_addr s = (if length dest_protocol_addr < 4 then None else do {
     let packet = \<lparr>arp_htype = htons 0x0001, arp_ptype = htons 0x0800, arp_hlen = 6, arp_plen = 4,
       arp_opcode = htons 0x001, arp_src_hardware_addr = own_mac,
       arp_src_protocol_addr = [10, 0, 2, 15], arp_dst_hardware_addr = replicate 6 0xFF,
       arp_dst_protocol_addr = take 4 dest_protocol_addr\<rparr>;
     ethernet_send_packet (replicate 6 0xFF) 0x0806 (arp_bytes packet) 28 s })"


section \<open>ipv4.c and udp.c: sending\<close>

definition dest_mac_of :: "u32 \<Rightarrow> u8 list" where
  "dest_mac_of dest = (if dest = 0xFFFFFF then [0xFF, 0xFF, 0xFF, 0xFF, 0xFF, 0xFF]
     else if dest = 0x0A000202 then [0x52, 0x55, 0x0A, 0x00, 0x02, 0x02]
     else [0x52, 0x55, 0x0A, 0x00, 0x02, 0x02])"

definition ipv4_header :: "u32 \<Rightarrow> u32 \<Rightarrow> u8 \<Rightarrow> u16 \<Rightarrow> ipv4_packet" where
  "ipv4_header source dest protocol n = (let packet =
     \<lparr>ip_version_ihl = push_bit 4 4 OR push_bit 0 5, ip_dscp_ecn = 0, ip_length = htons (20 + n),
      ip_ident = htons 1, ip_flags_fragment = 0, ip_ttl = 0x40, ip_protocol = protocol,
      ip_checksum = 0, ip_source = source, ip_destination = htonl dest\<rparr>
     in packet\<lparr>ip_checksum := htons (calculate_ipv4_checksum packet)\<rparr>)"

definition ipv4_send :: "u32 \<Rightarrow> u8 \<Rightarrow> u8 list \<Rightarrow> u16 \<Rightarrow> net_state \<Rightarrow> net_state option" where
  "ipv4_send dest protocol data n s = do {
     let packet = ipv4_header (ni_ipv4_address (networking_info s)) dest protocol n;
     payload \<leftarrow> memcpy_to (replicate 2048 0) 0 (ipv4_bytes packet) 20;
     payload \<leftarrow> memcpy_to payload 20 data (unat n);
     ethernet_send_packet (dest_mac_of dest) 0x0800 payload (20 + ucast n) s }"

definition udp_send :: "u32 \<Rightarrow> u16 \<Rightarrow> u16 \<Rightarrow> u8 list \<Rightarrow> u16 \<Rightarrow> net_state \<Rightarrow> net_state option" where
  "udp_send dest_ip dest_port src_port data n s = do {
     let packet = \<lparr>udp_source_port = htons src_port, udp_destination_port = htons dest_port,
       udp_length = htons (8 + n), udp_checksum = 0\<rparr>;
     payload \<leftarrow> memcpy_to (replicate 2048 0) 0 (udp_bytes packet) 8;
     payload \<leftarrow> memcpy_to payload 8 data (unat n);
     ipv4_send dest_ip 17 payload (8 + n) s }"

text \<open>
  ip_nota writes the four bytes in decimal into a zeroed array of 16 characters;
  the string is what the array holds up to its first zero.
\<close>

definition digit :: "nat \<Rightarrow> char" where
  "digit n = char_of (48 + n)"

definition decimal_u8 :: "nat \<Rightarrow> string" where
  "decimal_u8 n = (if n < 10 then [digit n]
     else if n < 100 then [digit (n div 10), digit (n mod 10)]
     else [digit (n div 100), digit (n div 10 mod 10), digit (n mod 10)])"

definition ip_nota :: "u32 \<Rightarrow> string" where
  "ip_nota ip = decimal_u8 (unat (drop_bit 24 (ip AND 0xFF000000))) @ ''.''
     @ decimal_u8 (unat (drop_bit 16 (ip AND 0xFF0000))) @ ''.''
     @ decimal_u8 (unat (drop_bit 8 (ip AND 0xFF00))) @ ''.'' @ decimal_u8 (unat (ip AND 0xFF))"

definition ip_to_uint :: "u8 \<Rightarrow> u8 \<Rightarrow> u8 \<Rightarrow> u8 \<Rightarrow> u32" where
  "ip_to_uint a b c d = push_bit 24 (ucast a) OR push_bit 16 (ucast b) OR push_bit 8 (ucast c) OR ucast d"


section \<open>tcp.c\<close>

text \<open>The three senders fill the pseudo header alike; sz is the length after the header.\<close>

definition tcp_check_for :: "u32 \<Rightarrow> u16 \<Rightarrow> net_state \<Rightarrow> tcp_check_header" where
  "tcp_check_for dest sz s = \<lparr>tch_source = ni_ipv4_address (networking_info s),
     tch_destination = htonl dest, tch_zeros = 0, tch_protocol = 6, tch_tcp_len = htons (20 + sz)\<rparr>"

definition tcp_send_header :: "u32 \<Rightarrow> u16 \<Rightarrow> u16 \<Rightarrow> tcp_header \<Rightarrow> net_state \<Rightarrow> net_state option" where
  "tcp_send_header dest dest_port src_port header s = do {
     c \<leftarrow> calculate_tcp_checksum (tcp_check_for dest 0 s) (tcp_bytes header) 0 [] 0;
     ipv4_send dest 6 (tcp_bytes (header\<lparr>tcp_checksum := htons c\<rparr>)) 20 s }"

definition tcp_send_header_and_options ::
  "u32 \<Rightarrow> u16 \<Rightarrow> u16 \<Rightarrow> tcp_header_payload \<Rightarrow> u16 \<Rightarrow> net_state \<Rightarrow> net_state option" where
  "tcp_send_header_and_options dest dest_port src_port payload options_size s = do {
     c \<leftarrow> calculate_tcp_checksum (tcp_check_for dest options_size s)
           (tcp_header_payload_bytes payload) options_size [] 0;
     ipv4_send dest 6 (tcp_header_payload_bytes
       (payload\<lparr>thp_header := (thp_header payload)\<lparr>tcp_checksum := htons c\<rparr>\<rparr>)) (20 + options_size) s }"

definition tcp_send_header_and_data ::
  "u32 \<Rightarrow> u16 \<Rightarrow> u16 \<Rightarrow> tcp_header \<Rightarrow> u8 list \<Rightarrow> u16 \<Rightarrow> net_state \<Rightarrow> net_state option" where
  "tcp_send_header_and_data dest dest_port src_port header data n s = do {
     c \<leftarrow> calculate_tcp_checksum (tcp_check_for dest n s) (tcp_bytes header) 0 data (ucast n);
     payload \<leftarrow> memcpy_to (replicate 2048 0) 0 (tcp_bytes (header\<lparr>tcp_checksum := htons c\<rparr>)) 20;
     payload \<leftarrow> memcpy_to payload 20 data (unat n);
     ipv4_send dest 6 payload (20 + n) s }"

definition tcp_connection_send_header :: "tcp_connection \<Rightarrow> tcp_header \<Rightarrow> net_state \<Rightarrow> net_state option" where
  "tcp_connection_send_header con header s =
     tcp_send_header (con_dest_ip con) (con_dest_port con) (con_source_port con) header s"

text \<open>The options_size the function gets is not used, it passes 12.\<close>

definition tcp_connection_send_header_and_options ::
  "tcp_connection \<Rightarrow> tcp_header_payload \<Rightarrow> u16 \<Rightarrow> net_state \<Rightarrow> net_state option" where
  "tcp_connection_send_header_and_options con payload options_size s =
     tcp_send_header_and_options (con_dest_ip con) (con_dest_port con) (con_source_port con) payload 12 s"

definition con_header :: "tcp_connection \<Rightarrow> u16 \<Rightarrow> tcp_header" where
  "con_header con flags = \<lparr>tcp_source_port = htons (con_source_port con),
     tcp_destination_port = htons (con_dest_port con), tcp_seq_number = htonl (con_seq con),
     tcp_ack_number = htonl (con_ack con), tcp_flags = htons flags,
     tcp_window_size = htons 64240, tcp_checksum = 0, tcp_urgent = 0\<rparr>"

definition tcp_connection_send_ack :: "net_state \<Rightarrow> net_state option" where
  "tcp_connection_send_ack s = (let con = (test_connection s)\<lparr>con_ack := con_ack (test_connection s) + 1\<rparr> in
     tcp_connection_send_header con (con_header con (push_bit 4 1 OR 0x5000)) (s\<lparr>test_connection := con\<rparr>))"

definition tcp_connection_send_data :: "u8 list \<Rightarrow> u16 \<Rightarrow> net_state \<Rightarrow> net_state option" where
  "tcp_connection_send_data data n s = (let con = test_connection s in
     tcp_send_header_and_data (con_dest_ip con) (con_dest_port con) (con_source_port con)
       (con_header con (push_bit 3 1 OR push_bit 4 1 OR 0x5000)) data n s)"

text \<open>
  The SYN: its header length counts 12 bytes of options. The sequence number
  starts at a constant, the acknowledgement is zero.
\<close>

definition syn_options :: "u8 list" where
  "syn_options = [2, 4, 0x05, 0xb4, 4, 2, 3, 3, 7, 1, 1, 1] @ replicate 20 0"

definition tcp_connect_syn :: "net_state \<Rightarrow> net_state option" where
  "tcp_connect_syn s = (let
     con = (test_connection s)\<lparr>con_connected := False, con_state := 0, con_seq := 159753100, con_ack := 0\<rparr>;
     options_size = 12 :: u16;
     header_total_size = 20 + options_size;
     header_length_adjusted = push_bit 12 (header_total_size div 4);
     payload = \<lparr>thp_header = con_header con (push_bit 1 1 OR header_length_adjusted),
                thp_options = syn_options\<rparr>
     in tcp_connection_send_header_and_options con payload 12 (s\<lparr>test_connection := con\<rparr>))"

text \<open>
  tcp_connection_handle_recv on the one connection there is. The copy into
  final_data and the debugf of it need the data to be shorter than the array.
\<close>

definition tcp_show_data :: "u8 list \<Rightarrow> nat \<Rightarrow> unit option" where
  "tcp_show_data payload_data n = (if n > 0 then do {
       final_data \<leftarrow> memcpy_to (replicate 2048 0) 0 payload_data n;
       if 0 \<in> set final_data then Some () else None }
     else Some ())"

definition tcp_recv_flags :: "u16 \<Rightarrow> tcp_connection \<Rightarrow> u16 \<Rightarrow> tcp_connection \<times> u16" where
  "tcp_recv_flags flags con payload_n =
     (if flags = push_bit 1 1 OR push_bit 4 1 then (con\<lparr>con_state := 2\<rparr>, 0)
      else if flags = push_bit 3 1 OR push_bit 4 1 then (con, payload_n)
      else if flags = push_bit 4 1 then (con, 0)
      else (con, payload_n))"

definition tcp_connection_handle_recv :: "u8 list \<Rightarrow> u16 \<Rightarrow> net_state \<Rightarrow> net_state option" where
  "tcp_connection_handle_recv data n s = do {
     let payload_n = (if n > 20 then n - 20 else 0);
     seq_number \<leftarrow> read_le data 4 4;
     ack_number \<leftarrow> read_le data 8 4;
     flags \<leftarrow> read_le data 12 2;
     let con = (test_connection s)\<lparr>con_ack := htonl seq_number, con_seq := htonl ack_number\<rparr>;
     let (con, payload_n) = tcp_recv_flags (htons flags AND 0x0FFF) con payload_n;
     _ \<leftarrow> tcp_show_data (drop 20 data) (unat payload_n);
     Some (s\<lparr>test_connection := con\<rparr>) }"

definition tcp_process_packet :: "u8 list \<Rightarrow> u16 \<Rightarrow> net_state \<Rightarrow> net_state option" where
  "tcp_process_packet data n s = tcp_connection_handle_recv data n s"


section \<open>dhcp.c\<close>

record dhcp_packet =
  dp_op :: u8
  dp_htype :: u8
  dp_hlen :: u8
  dp_hops :: u8
  dp_xid :: u32
  dp_secs :: u16
  dp_flags :: u16
  dp_ciaddr :: u32
  dp_yiaddr :: u32
  dp_siaddr :: u32
  dp_giaddr :: u32
  dp_chaddr :: "u8 list"
  dp_sname :: "u8 list"
  dp_file :: "u8 list"
  dp_magic :: u32

definition dhcp_bytes :: "dhcp_packet \<Rightarrow> u8 list" where
  "dhcp_bytes p = [dp_op p, dp_htype p, dp_hlen p, dp_hops p] @ bytes32 (dp_xid p)
     @ bytes16 (dp_secs p) @ bytes16 (dp_flags p) @ bytes32 (dp_ciaddr p) @ bytes32 (dp_yiaddr p)
     @ bytes32 (dp_siaddr p) @ bytes32 (dp_giaddr p) @ dp_chaddr p @ dp_sname p @ dp_file p
     @ bytes32 (dp_magic p)"

definition dhcp_request_header :: "u32 \<Rightarrow> dhcp_packet" where
  "dhcp_request_header siaddr = \<lparr>dp_op = 1, dp_htype = 1, dp_hlen = 6, dp_hops = 0,
     dp_xid = htonl 55, dp_secs = 0, dp_flags = 0, dp_ciaddr = 0, dp_yiaddr = 0,
     dp_siaddr = siaddr, dp_giaddr = 0, dp_chaddr = own_mac @ replicate 10 0,
     dp_sname = replicate 64 0, dp_file = replicate 128 0, dp_magic = htonl 0x63825363\<rparr>"

text \<open>dhcp_start up to its wait.\<close>

definition dhcp_discover :: "net_state \<Rightarrow> net_state option" where
  "dhcp_discover s =
     udp_send 0xFFFFFFFF 67 68
       (dhcp_bytes (dhcp_request_header 0) @ [53, 1, 1, 55, 2, 3, 6, 255] @ replicate 24 0)
       (240 + 8) (s\<lparr>send_dhcp_request := False\<rparr>)"

definition dhcp_handle_offer_stage_2 :: "net_state \<Rightarrow> net_state option" where
  "dhcp_handle_offer_stage_2 s = do {
     yiaddr \<leftarrow> read_le (dhcp_request_packet s) 16 4;
     siaddr \<leftarrow> read_le (dhcp_request_packet s) 20 4;
     udp_send 0xFFFFFFFF 67 68
       (dhcp_bytes (dhcp_request_header siaddr)
        @ [53, 1, 3, 50, 4, ucast ((yiaddr :: u32) AND 0xff), ucast (drop_bit 8 yiaddr AND 0xff),
           ucast (drop_bit 16 yiaddr AND 0xff), ucast (drop_bit 24 yiaddr AND 0xff),
           55, 2, 3, 6, 255] @ replicate 18 0)
       (240 + 14) s }"

definition dhcp_handle_offer :: "u8 list \<Rightarrow> net_state \<Rightarrow> net_state option" where
  "dhcp_handle_offer packet s = (if length packet < 240 then None else
     Some (s\<lparr>dhcp_request_packet := take 240 packet, send_dhcp_request := True\<rparr>))"

text \<open>
  The option loop of dhcp_handle_ack: what an option at i stores, and where the
  index stands when its size is added (the default case of the switch has added
  one already, the end mark has moved it to 255).
\<close>

definition dhcp_store_option :: "u8 list \<Rightarrow> u8 \<Rightarrow> nat \<Rightarrow> net_info \<Rightarrow> net_info option" where
  "dhcp_store_option options ty i ni =
     (if ty = 1 then do { v \<leftarrow> read_le options i 4;
        Some (ni\<lparr>ni_ipv4_subnet_mask := v, ni_ipv4_subnet_mask_as_string := ip_nota (htonl v)\<rparr>) }
      else if ty = 3 then do { v \<leftarrow> read_le options i 4;
        Some (ni\<lparr>ni_ipv4_router := v, ni_ipv4_router_as_string := ip_nota (htonl v)\<rparr>) }
      else if ty = 6 then do { v \<leftarrow> read_le options i 4;
        Some (ni\<lparr>ni_ipv4_dns := v, ni_ipv4_dns_as_string := ip_nota (htonl v)\<rparr>) }
      else if ty = 51 then do { v \<leftarrow> read_le options i 4;
        Some (ni\<lparr>ni_dhcp_lease_time_in_seconds := v\<rparr>) }
      else Some ni)"

definition dhcp_option_index :: "u8 \<Rightarrow> nat \<Rightarrow> nat" where
  "dhcp_option_index ty i = (if ty = 255 then 255
     else if ty \<in> {53, 54, 1, 3, 6, 51} then i else i + 1)"

function dhcp_options :: "u8 list \<Rightarrow> nat \<Rightarrow> net_info \<Rightarrow> net_info option" where
  "dhcp_options options i ni = (if i < 255 then do {
     option_type \<leftarrow> read_le options i 1;
     option_size \<leftarrow> read_le options (i + 1) 1;
     ni \<leftarrow> dhcp_store_option options option_type (i + 2) ni;
     dhcp_options options (dhcp_option_index option_type (i + 2) + unat (option_size :: u8)) ni }
   else Some ni)"
  by pat_completeness auto
termination
  by (relation "measure (\<lambda>(options, i, ni). 255 - i)") (auto simp: dhcp_option_index_def)

declare dhcp_options.simps [simp del]

definition dhcp_handle_ack :: "u8 list \<Rightarrow> u8 list \<Rightarrow> net_state \<Rightarrow> net_state option" where
  "dhcp_handle_ack packet options s = do {
     yiaddr \<leftarrow> read_le packet 16 4;
     let ni = (networking_info s)\<lparr>ni_ipv4_address := yiaddr,
                ni_ipv4_address_as_string := ip_nota (htonl yiaddr)\<rparr>;
     ni \<leftarrow> dhcp_options options 0 ni;
     Some (s\<lparr>networking_info := ni\<rparr>) }"

definition dhcp_process_packet :: "u8 list \<Rightarrow> net_state \<Rightarrow> net_state option" where
  "dhcp_process_packet data s = do {
     let options = drop 240 data;
     op \<leftarrow> read_le data 0 1;
     if op = (2 :: u8) then do {
       kind \<leftarrow> read_le options 2 1;
       if kind = (2 :: u8) then dhcp_handle_offer data s
       else if kind = 5 then dhcp_handle_ack data options s
       else Some s }
     else Some s }"


section \<open>The receiving side\<close>

definition udp_process_packet :: "u8 list \<Rightarrow> net_state \<Rightarrow> net_state option" where
  "udp_process_packet data s = do {
     destination_port \<leftarrow> read_le data 2 2;
     if htons destination_port = 68 then dhcp_process_packet (drop 8 data) s else Some s }"

definition ipv4_process_packet :: "u8 list \<Rightarrow> u16 \<Rightarrow> net_state \<Rightarrow> net_state option" where
  "ipv4_process_packet data n s = do {
     protocol \<leftarrow> read_le data 9 1;
     if protocol = (6 :: u8) then tcp_process_packet (drop 20 data) (n - 20) s
     else if protocol = 17 then udp_process_packet (drop 20 data) s
     else Some s }"

text \<open>arp_process_packet only prints the fields of the packet.\<close>

definition arp_process_packet :: "u8 list \<Rightarrow> net_state \<Rightarrow> net_state option" where
  "arp_process_packet data s = (if length data < 28 then None else Some s)"

definition ethernet_process_packet :: "u8 list \<Rightarrow> u16 \<Rightarrow> net_state \<Rightarrow> net_state option" where
  "ethernet_process_packet data n s = do {
     type \<leftarrow> read_le data 12 2;
     let next_data = drop 14 data;
     let next_size = n - 14;
     if htons type = 0x0806 then arp_process_packet next_data s
     else if htons type = 0x0800 then ipv4_process_packet next_data next_size s
     else Some s }"

text \<open>The frames of one interrupt, each a buffer and the length of its descriptor.\<close>

type_synonym frame = "u8 list \<times> u16"

primrec receive :: "frame list \<Rightarrow> net_state \<Rightarrow> net_state option" where
  "receive [] s = Some s"
| "receive (f # fs) s = do { s \<leftarrow> ethernet_process_packet (fst f) (snd f) s; receive fs s }"


section \<open>e1000.c: receiving\<close>

record e1000_rx =
  rx_ring :: "(u8 \<times> frame) list"
  rx_index :: nat

definition rx_ready :: "u8 \<times> frame \<Rightarrow> bool" where
  "rx_ready d = (fst d AND 1 \<noteq> 0)"

text \<open>
  The body of the loop in e1000_interrupt_handler: the frame at rx_index goes up
  the stack, its descriptor is released, the index moves on and wraps.
\<close>

definition rx_advance :: "e1000_rx \<Rightarrow> e1000_rx" where
  "rx_advance rx = (let i = rx_index rx + 1 in
     rx\<lparr>rx_ring := (rx_ring rx)[rx_index rx := (0, snd (rx_ring rx ! rx_index rx))],
        rx_index := (if i = 64 then 0 else i)\<rparr>)"

lemma ready_fewer:
  "i < length xs \<Longrightarrow> rx_ready (xs ! i) \<Longrightarrow>
   length (filter rx_ready (xs[i := (0, v)])) < length (filter rx_ready xs)"
  by (induction xs arbitrary: i) (auto simp: rx_ready_def split: nat.splits)

text \<open>heads k is the k-th value read from the head register, the first one is head.\<close>

function rx_loop :: "(nat \<Rightarrow> nat) \<Rightarrow> nat \<Rightarrow> nat \<Rightarrow> e1000_rx \<Rightarrow> net_state \<Rightarrow> (e1000_rx \<times> net_state) option" where
  "rx_loop heads k head rx s =
     (if \<not> rx_index rx < length (rx_ring rx) then None
      else if \<not> rx_ready (rx_ring rx ! rx_index rx) then Some (rx, s)
      else do {
        let f = snd (rx_ring rx ! rx_index rx);
        s \<leftarrow> ethernet_process_packet (fst f) (snd f) s;
        let rx' = rx_advance rx;
        if rx_index rx' = head
        then if heads k = rx_index rx' then Some (rx', s) else rx_loop heads (k + 1) (heads k) rx' s
        else rx_loop heads k head rx' s })"
  by pat_completeness auto

termination
  by (relation "measure (\<lambda>(heads, k, head, rx, s). length (filter rx_ready (rx_ring rx)))")
     (auto simp: rx_advance_def Let_def intro: ready_fewer)

declare rx_loop.simps [simp del]

definition e1000_interrupt_handler ::
  "u32 \<Rightarrow> (nat \<Rightarrow> nat) \<Rightarrow> e1000_rx \<Rightarrow> net_state \<Rightarrow> (e1000_rx \<times> net_state) option" where
  "e1000_interrupt_handler icr heads rx s =
     (if icr AND NOT 3 = 0x80
      then if heads 0 \<noteq> rx_index rx then rx_loop heads 1 (heads 0) rx s else Some (rx, s)
      else Some (rx, s))"


section \<open>The waits\<close>

text \<open>
  The result is whether the loop has ended. tcp_connection_connect looks at the
  connection once per turn; the frames of a turn arrive before it.
\<close>

definition tcp_connect_turn :: "net_state \<Rightarrow> net_state option" where
  "tcp_connect_turn s = (if con_state (test_connection s) = 2
     then do { s \<leftarrow> tcp_connection_send_ack s;
               Some (s\<lparr>test_connection := (test_connection s)\<lparr>con_connected := True\<rparr>\<rparr>) }
     else Some s)"

fun tcp_connect_wait :: "frame list list \<Rightarrow> net_state \<Rightarrow> (bool \<times> net_state) option" where
  "tcp_connect_wait arrivals s = (if con_connected (test_connection s) then Some (True, s)
     else case arrivals of [] \<Rightarrow> Some (False, s)
       | fs # rest \<Rightarrow> do { s \<leftarrow> receive fs s; s \<leftarrow> tcp_connect_turn s; tcp_connect_wait rest s })"

declare tcp_connect_wait.simps [simp del]

definition tcp_connection_connect :: "frame list list \<Rightarrow> net_state \<Rightarrow> (bool \<times> net_state) option" where
  "tcp_connection_connect arrivals s = do { s \<leftarrow> tcp_connect_syn s; tcp_connect_wait arrivals s }"

fun dhcp_wait :: "frame list list \<Rightarrow> net_state \<Rightarrow> (bool \<times> net_state) option" where
  "dhcp_wait arrivals s = (if send_dhcp_request s then Some (True, s)
     else case arrivals of [] \<Rightarrow> Some (False, s)
       | fs # rest \<Rightarrow> do { s \<leftarrow> receive fs s; dhcp_wait rest s })"

declare dhcp_wait.simps [simp del]

definition dhcp_start :: "frame list list \<Rightarrow> net_state \<Rightarrow> (bool \<times> net_state) option" where
  "dhcp_start arrivals s = do {
     s \<leftarrow> dhcp_discover s;
     (offered, s) \<leftarrow> dhcp_wait arrivals s;
     if offered then do { s \<leftarrow> dhcp_handle_offer_stage_2 s; Some (True, s) } else Some (False, s) }"

definition net_info_zero :: net_info where
  "net_info_zero = \<lparr>ni_ipv4_address = 0, ni_ipv4_address_as_string = [], ni_ipv4_dns = 0,
     ni_ipv4_dns_as_string = [], ni_ipv4_router = 0, ni_ipv4_router_as_string = [],
     ni_ipv4_subnet_mask = 0, ni_ipv4_subnet_mask_as_string = [], ni_dhcp_lease_time_in_seconds = 0\<rparr>"

text \<open>enable_networking; of the driver's set-up the transmit queue is modelled.\<close>

definition enable_networking :: "frame list list \<Rightarrow> net_state \<Rightarrow> (bool \<times> net_state) option" where
  "enable_networking arrivals s =
     dhcp_start arrivals (e1000_tx_init (s\<lparr>networking_info := net_info_zero\<rparr>))"

text \<open>tcp_test up to its first wait, and the data it then sends.\<close>

definition tcp_test_connection :: tcp_connection where
  "tcp_test_connection = \<lparr>con_source_port = 5894, con_dest_port = 2000,
     con_dest_ip = ip_to_uint 172 23 35 254, con_connected = False, con_seq = 0, con_ack = 0, con_state = 0\<rparr>"

definition tcp_test :: "frame list list \<Rightarrow> frame list \<Rightarrow> net_state \<Rightarrow> (bool \<times> net_state) option" where
  "tcp_test arrivals later s = do {
     (connected, s) \<leftarrow> tcp_connection_connect arrivals (s\<lparr>test_connection := tcp_test_connection\<rparr>);
     if connected then do {
       s \<leftarrow> receive later s;
       s \<leftarrow> tcp_connection_send_data (map (of_nat \<circ> of_char) ''Hello, world!'' @ [0]) 14 s;
       Some (True, s) }
     else Some (False, s) }"

end
