(* ===== verification/NetProps.thy ===== *)
theory NetProps
  imports NetStack
begin

text \<open>
  What the network stack sends and what it makes of a received frame: the frame
  of every sender byte for byte, the limits of its arrays, the receiving side
  applied to such frames, the checksum of a segment as its receiver tests it, the
  option loop of the DHCP client, the TCP handshake and the receive ring.
\<close>

section \<open>The frames sent\<close>

named_theorems frame_simps \<open>the senders as the frame they transmit\<close>

definition transmit :: "u8 list \<Rightarrow> net_state \<Rightarrow> net_state" where
  "transmit f s = s\<lparr>packet_data := f @ replicate (2048 - length f) 0,
     tx_ring := (tx_ring s)[tx_index s := (f, of_nat (length f))], tx_index := tx_index s + 1\<rparr>"

lemma transmit_simps [simp]:
  "networking_info (transmit f s) = networking_info s" "test_connection (transmit f s) = test_connection s"
  "send_dhcp_request (transmit f s) = send_dhcp_request s"
  "dhcp_request_packet (transmit f s) = dhcp_request_packet s" "tx_index (transmit f s) = tx_index s + 1"
  "length (tx_ring (transmit f s)) = length (tx_ring s)"
  by (simp_all add: transmit_def)

lemma sent_transmit [simp]:
  "tx_index s < length (tx_ring s) \<Longrightarrow> sent (transmit f s) = sent s @ [f]"
  by (simp add: sent_def transmit_def take_Suc_conv_app_nth)

lemma memcpy_behind:
  "n \<le> length src \<Longrightarrow> n \<le> m \<Longrightarrow>
   memcpy_to (xs @ replicate m 0) (length xs) src n = Some (xs @ take n src @ replicate (m - n) 0)"
  by (simp add: memcpy_to_def)

lemma memcpy_front:
  "n \<le> length src \<Longrightarrow> n \<le> m \<Longrightarrow>
   memcpy_to (replicate m 0) 0 src n = Some (take n src @ replicate (m - n) 0)"
  by (simp add: memcpy_to_def)

lemma memcpy_beyond: "length buf < i + n \<Longrightarrow> memcpy_to buf i src n = None"
  by (simp add: memcpy_to_def)

lemma length_images [simp]:
  "length (ipv4_bytes p) = 20" "length (udp_bytes u) = 8" "length (tcp_bytes h) = 20"
  "length own_mac = 6" "length (dest_mac_of d) = 6"
  by (simp_all add: ipv4_bytes_def udp_bytes_def tcp_bytes_def own_mac_def dest_mac_of_def)

definition ethernet_frame :: "u8 list \<Rightarrow> u16 \<Rightarrow> u8 list \<Rightarrow> u8 list" where
  "ethernet_frame dest type data = dest @ own_mac @ bytes16 (htons type) @ data"

lemma length_ethernet_frame [simp]: "length (ethernet_frame d t x) = length d + 8 + length x"
  by (simp add: ethernet_frame_def)

lemma ethernet_send_frame [frame_simps]:
  assumes "length dest = 6" "unat n \<le> length data" "unat n \<le> 2034" "tx_index s < 64"
  shows "ethernet_send_packet dest type data n s = Some (transmit (ethernet_frame dest type (take (unat n) data)) s)"
proof -
  let ?h = "dest @ own_mac @ bytes16 (htons type)"
  have h: "length ?h = 14" using assms(1) by simp
  have front: "memcpy_to (replicate 2048 0) 0 ?h 14 = Some (?h @ replicate 2034 0)"
    using memcpy_front [of 14 ?h 2048] h by simp
  have data: "memcpy_to (?h @ replicate 2034 0) 14 data (unat n)
      = Some (?h @ take (unat n) data @ replicate (2034 - unat n) 0)"
    using memcpy_behind [of "unat n" data 2034 ?h] assms h by (simp only: h)
  have sz: "unat (14 + n) = 14 + unat n" using assms(3) by (simp add: unat_word_ariths)
  have "(of_nat (unat (14 + n)) :: u16) = of_nat (14 + unat n)" by (simp only: sz)
  then have "ucast (14 + n) = (14 + ucast n :: u16)" by simp
  with sz show ?thesis
    using assms h by (simp add: ethernet_send_packet_def ethernet_bytes_def front [simplified]
        data [simplified] e1000_send_def transmit_def ethernet_frame_def)
qed

lemma ethernet_send_too_long [frame_simps]:
  "2034 < unat n \<Longrightarrow> ethernet_send_packet dest type data n s = None"
  by (auto simp: ethernet_send_packet_def memcpy_to_def Let_def bind_eq_None_conv)

definition ipv4_frame :: "net_state \<Rightarrow> u32 \<Rightarrow> u8 \<Rightarrow> u8 list \<Rightarrow> u8 list" where
  "ipv4_frame s dest protocol data = ethernet_frame (dest_mac_of dest) 0x0800
     (ipv4_bytes (ipv4_header (ni_ipv4_address (networking_info s)) dest protocol (of_nat (length data))) @ data)"

lemma ipv4_send_frame [frame_simps]:
  assumes "unat n \<le> length data" "unat n \<le> 2014" "tx_index s < 64"
  shows "ipv4_send dest protocol data n s = Some (transmit (ipv4_frame s dest protocol (take (unat n) data)) s)"
proof -
  let ?h = "ipv4_bytes (ipv4_header (ni_ipv4_address (networking_info s)) dest protocol n)"
  have front: "memcpy_to (replicate 2048 0) 0 ?h 20 = Some (?h @ replicate 2028 0)"
    using memcpy_front [of 20 ?h 2048] by simp
  have data: "memcpy_to (?h @ replicate 2028 0) 20 data (unat n)
      = Some (?h @ take (unat n) data @ replicate (2028 - unat n) 0)"
    using memcpy_behind [of "unat n" data 2028 ?h] assms by simp
  have sz: "unat (20 + ucast n :: u32) = 20 + unat n" using assms(2) by (simp add: unat_word_ariths)
  have "ethernet_send_packet (dest_mac_of dest) 0x0800 (?h @ take (unat n) data @ replicate (2028 - unat n) 0)
      (20 + ucast n) s = Some (transmit (ethernet_frame (dest_mac_of dest) 0x0800 (?h @ take (unat n) data)) s)"
    using ethernet_send_frame [of "dest_mac_of dest" "20 + ucast n"] assms sz by simp
  then show ?thesis using assms(1) by (simp add: ipv4_send_def ipv4_frame_def front data)
qed

lemma ipv4_send_too_long [frame_simps]:
  assumes "2014 < unat n" shows "ipv4_send dest protocol data n s = None"
proof -
  have "unat (20 + ucast n :: u32) = 20 + unat n"
    using unat_word_bounds(2) [of n] by (simp add: unat_word_ariths)
  then have "2034 < unat (20 + ucast n :: u32)" using assms by simp
  from ethernet_send_too_long [OF this] show ?thesis
    by (simp add: ipv4_send_def bind_eq_None_conv Let_def)
qed

lemma ipv4_send_keeps:
  "ipv4_send dest protocol data n s = Some s' \<Longrightarrow> test_connection s' = test_connection s"
  by (auto simp: ipv4_send_def ethernet_send_packet_def e1000_send_def bind_Some_conv Let_def split: if_splits)

definition udp_datagram :: "u16 \<Rightarrow> u16 \<Rightarrow> u8 list \<Rightarrow> u8 list" where
  "udp_datagram dest_port src_port data = udp_bytes \<lparr>udp_source_port = htons src_port,
     udp_destination_port = htons dest_port, udp_length = htons (8 + of_nat (length data)),
     udp_checksum = 0\<rparr> @ data"

lemma udp_send_frame_or_none:
  assumes "unat n \<le> length data"
  shows "udp_send dest dest_port src_port data n s =
    (if unat n \<le> 2006 \<and> tx_index s < 64
     then Some (transmit (ipv4_frame s dest 17 (udp_datagram dest_port src_port (take (unat n) data))) s)
     else None)"
proof (cases "unat n \<le> 2006")
  case True
  let ?h = "udp_bytes \<lparr>udp_source_port = htons src_port, udp_destination_port = htons dest_port,
     udp_length = htons (8 + n), udp_checksum = 0\<rparr>"
  let ?p = "?h @ take (unat n) data @ replicate (2040 - unat n) 0"
  have front: "memcpy_to (replicate 2048 0) 0 ?h 8 = Some (?h @ replicate 2040 0)"
    using memcpy_front [of 8 ?h 2048] by simp
  have data: "memcpy_to (?h @ replicate 2040 0) 8 data (unat n) = Some ?p"
    using memcpy_behind [of "unat n" data 2040 ?h] assms True by simp
  have sz: "unat (8 + n) = 8 + unat n" using True by (simp add: unat_word_ariths)
  have u: "udp_send dest dest_port src_port data n s = ipv4_send dest 17 ?p (8 + n) s"
    by (simp add: udp_send_def front data)
  show ?thesis
  proof (cases "tx_index s < 64")
    case tx: True
    have "ipv4_send dest 17 ?p (8 + n) s = Some (transmit (ipv4_frame s dest 17 (take (unat (8 + n)) ?p)) s)"
      using True sz assms tx by (intro ipv4_send_frame) simp_all
    then show ?thesis using True tx assms by (simp add: u sz udp_datagram_def)
  next
    case False
    then have "e1000_send pd m (s\<lparr>packet_data := q\<rparr>) = None" for pd m q by (simp add: e1000_send_def)
    then show ?thesis using False
      by (auto simp: u ipv4_send_def ethernet_send_packet_def bind_eq_None_conv Let_def)
  qed
next
  case False
  show ?thesis
  proof (cases "unat n \<le> 2040")
    case True
    then have "2014 < unat (8 + n)" using False by (simp add: unat_word_ariths)
    from ipv4_send_too_long [OF this] show ?thesis
      using False by (simp add: udp_send_def bind_eq_None_conv Let_def)
  next
    case big: False
    then show ?thesis using False
      by (auto simp: udp_send_def memcpy_to_def Let_def bind_eq_None_conv split: if_splits)
  qed
qed

text \<open>A datagram of at most 2006 bytes goes out as one frame made of
  the Ethernet header for IPv4, the IPv4 header with its checksum, the UDP header
  with its length and the data, and nothing else of the state changes but the
  transmit ring and the driver's buffer. A longer one overruns a local array, and
  so does any once 64 frames have been sent since the start of the driver.\<close>

theorem udp_send_frame:
  assumes "unat n \<le> length data"
  shows "udp_send dest dest_port src_port data n s =
    (if unat n \<le> 2006 \<and> tx_index s < 64
     then Some (transmit (ipv4_frame s dest 17 (udp_datagram dest_port src_port (take (unat n) data))) s)
     else None)"
  using assms by (rule udp_send_frame_or_none)


section \<open>The frames received\<close>

lemma read_le_at:
  "length xs = i \<Longrightarrow> read_le (xs @ bytes16 w @ r) i 2 = Some w"
  "length xs = i \<Longrightarrow> read_le (xs @ bytes32 v @ r) i 4 = Some v"
  "length xs = i \<Longrightarrow> read_le (xs @ b # r) i (Suc 0) = Some b"
  by (simp_all add: read_le_def)

lemma ethernet_type_of_frame:
  assumes "length dest = 6"
  shows "read_le (ethernet_frame dest type d @ rest) 12 2 = Some (htons type)"
  using read_le_at(1) [of "dest @ own_mac" 12 "htons type" "d @ rest"] assms
  by (simp add: ethernet_frame_def)

lemma ipv4_protocol_of_header:
  "read_le (ipv4_bytes (ipv4_header src dest protocol n) @ d) 9 (Suc 0) = Some protocol"
  using read_le_at(3) [of "[_, _] @ bytes16 _ @ bytes16 _ @ bytes16 _ @ [_]" 9 protocol]
  by (simp add: ipv4_bytes_def ipv4_header_def Let_def)

lemma process_ipv4_frame:
  "ethernet_process_packet (ipv4_frame s dest protocol d @ rest) n t =
     (if protocol = 6 then tcp_process_packet (d @ rest) (n - 14 - 20) t
      else if protocol = 17 then udp_process_packet (d @ rest) t else Some t)"
proof -
  have "drop 14 (ipv4_frame s dest protocol d @ rest) =
      ipv4_bytes (ipv4_header (ni_ipv4_address (networking_info s)) dest protocol (of_nat (length d))) @ d @ rest"
    by (simp add: ipv4_frame_def ethernet_frame_def)
  moreover have "read_le (ipv4_frame s dest protocol d @ rest) 12 2 = Some (htons 0x0800)"
    unfolding ipv4_frame_def by (rule ethernet_type_of_frame) simp
  ultimately show ?thesis
    by (simp add: ethernet_process_packet_def ipv4_process_packet_def ipv4_protocol_of_header Let_def)
qed

lemma process_udp_datagram:
  "udp_process_packet (udp_datagram dest_port src_port d @ rest) t =
     (if dest_port = 68 then dhcp_process_packet (d @ rest) t else Some t)"
proof -
  have "read_le (udp_datagram dest_port src_port d @ rest) 2 2 = Some (htons dest_port)"
    using read_le_at(1) [of "bytes16 (htons src_port)" 2 "htons dest_port"]
    by (simp add: udp_datagram_def udp_bytes_def)
  then show ?thesis by (simp add: udp_process_packet_def udp_datagram_def)
qed

text \<open>Property C26: sending and receiving fit together. Whatever udp_send has put
  on the wire, the receiving side takes through the Ethernet, IPv4 and UDP
  handlers to the handler of the port, with the data that were sent at the front
  of its buffer; on a port other than 68 the frame changes nothing.\<close>

theorem udp_frame_received:
  assumes "udp_send dest dest_port src_port data n s = Some s'"
    and "unat n \<le> length data" "length (tx_ring s) = 64"
  shows "ethernet_process_packet (last (sent s') @ rest) m t =
    (if dest_port = 68 then dhcp_process_packet (take (unat n) data @ rest) t else Some t)"
proof -
  from assms have "tx_index s < 64"
    and s': "s' = transmit (ipv4_frame s dest 17 (udp_datagram dest_port src_port (take (unat n) data))) s"
    by (auto simp: udp_send_frame_or_none split: if_splits)
  then have "last (sent s') = ipv4_frame s dest 17 (udp_datagram dest_port src_port (take (unat n) data))"
    using assms(3) by simp
  then show ?thesis by (simp add: process_ipv4_frame process_udp_datagram)
qed


section \<open>The options of a DHCP acknowledgement\<close>

text \<open>What an option means, and how a server writes a list of them.\<close>

fun dhcp_apply :: "u8 \<times> u8 list \<Rightarrow> net_info \<Rightarrow> net_info" where
  "dhcp_apply (ty, v) ni = (let w = le_word (take 4 v) in
     if ty = 1 then ni\<lparr>ni_ipv4_subnet_mask := w, ni_ipv4_subnet_mask_as_string := ip_nota (htonl w)\<rparr>
     else if ty = 3 then ni\<lparr>ni_ipv4_router := w, ni_ipv4_router_as_string := ip_nota (htonl w)\<rparr>
     else if ty = 6 then ni\<lparr>ni_ipv4_dns := w, ni_ipv4_dns_as_string := ip_nota (htonl w)\<rparr>
     else if ty = 51 then ni\<lparr>ni_dhcp_lease_time_in_seconds := w\<rparr> else ni)"

primrec dhcp_encode :: "(u8 \<times> u8 list) list \<Rightarrow> u8 list" where
  "dhcp_encode [] = []"
| "dhcp_encode (opt # opts) = fst opt # of_nat (length (snd opt)) # snd opt @ dhcp_encode opts"

definition known_option :: "u8 \<times> u8 list \<Rightarrow> bool" where
  "known_option opt \<longleftrightarrow> fst opt \<in> {53, 54, 1, 3, 6, 51} \<and> length (snd opt) < 256 \<and>
     (fst opt \<in> {1, 3, 6, 51} \<longrightarrow> 4 \<le> length (snd opt))"

lemma dhcp_store_at:
  assumes "known_option (ty, v)" "length pre = i"
  shows "dhcp_store_option (pre @ v @ r) ty i ni = Some (dhcp_apply (ty, v) ni)"
  using assms by (auto simp: dhcp_store_option_def known_option_def read_le_def Let_def)

lemma dhcp_options_step:
  assumes "length pre < 255"
  shows "dhcp_options (pre @ ty # sz # r) (length pre) ni = do {
    ni \<leftarrow> dhcp_store_option (pre @ ty # sz # r) ty (length pre + 2) ni;
    dhcp_options (pre @ ty # sz # r) (dhcp_option_index ty (length pre + 2) + unat sz) ni }"
proof -
  have "read_le (pre @ ty # sz # r) (length pre) 1 = Some ty" by (simp add: read_le_def)
  moreover have "read_le (pre @ ty # sz # r) (length pre + 1) 1 = Some sz" by (simp add: read_le_def)
  ultimately show ?thesis using assms by (subst dhcp_options.simps) (simp only: if_True bind.bind_lunit)
qed

lemma dhcp_options_end:
  "length pre \<le> 254 \<Longrightarrow> dhcp_options (pre @ 255 # sz # r) (length pre) ni = Some ni"
  by (subst dhcp_options_step)
     (simp_all add: dhcp_store_option_def dhcp_option_index_def dhcp_options.simps)

lemma dhcp_options_encoded:
  assumes "\<forall>opt\<in>set opts. known_option opt" "length (dhcp_encode opts) \<le> 254"
  shows "dhcp_options (dhcp_encode opts @ 255 # sz # rest) 0 ni = Some (fold dhcp_apply opts ni)"
proof -
  have "dhcp_options (pre @ dhcp_encode opts @ 255 # sz # rest) (length pre) ni = Some (fold dhcp_apply opts ni)"
    if "length pre + length (dhcp_encode opts) \<le> 254" for pre
    using that assms(1)
  proof (induction opts arbitrary: pre ni)
    case Nil
    then show ?case by (simp add: dhcp_options_end)
  next
    case (Cons opt opts)
    obtain ty v where opt: "opt = (ty, v)" by (cases opt)
    let ?pre = "pre @ ty # of_nat (length v) # v" and ?r = "dhcp_encode opts @ 255 # sz # rest"
    have k: "known_option (ty, v)" using Cons.prems by (simp add: opt)
    then have lv: "unat (of_nat (length v) :: u8) = length v"
      by (simp add: known_option_def unat_of_nat)
    have "dhcp_option_index ty (length pre + 2) = length pre + 2"
      using k by (auto simp: known_option_def dhcp_option_index_def)
    moreover have "dhcp_store_option (pre @ ty # of_nat (length v) # v @ ?r) ty (length pre + 2) ni
        = Some (dhcp_apply (ty, v) ni)"
      using dhcp_store_at [OF k, of "pre @ [ty, of_nat (length v)]" "length pre + 2" ?r] by simp
    moreover have "dhcp_options (?pre @ ?r) (length ?pre) (dhcp_apply (ty, v) ni)
        = Some (fold dhcp_apply opts (dhcp_apply (ty, v) ni))"
      using Cons.prems by (intro Cons.IH) (simp_all add: opt)
    ultimately show ?case
      using Cons.prems by (simp add: opt dhcp_options_step lv)
  qed
  from this [of "[]"] assms(2) show ?thesis by simp
qed

text \<open>Property C28: the option loop of the client reads back what a server wrote.
  For every list of options of the kinds the client knows, each with the length
  its kind needs, that ends within the loop's bound, the loop ends and has stored
  exactly the address mask, router, name server and lease time of the options, in
  their order, with their dotted forms.\<close>

theorem dhcp_options_roundtrip:
  assumes "\<forall>opt\<in>set opts. known_option opt" "length (dhcp_encode opts) \<le> 254"
  shows "dhcp_options (dhcp_encode opts @ 255 # sz # rest) 0 ni = Some (fold dhcp_apply opts ni)"
  using assms by (rule dhcp_options_encoded)

section \<open>The DHCP exchange\<close>

definition dhcp_shape :: "dhcp_packet \<Rightarrow> bool" where
  "dhcp_shape p \<longleftrightarrow> length (dp_chaddr p) = 16 \<and> length (dp_sname p) = 64 \<and> length (dp_file p) = 128"

lemma length_dhcp_bytes [simp]: "dhcp_shape p \<Longrightarrow> length (dhcp_bytes p) = 240"
  by (simp add: dhcp_bytes_def dhcp_shape_def)

lemma dhcp_shape_request [simp]: "dhcp_shape (dhcp_request_header si)"
  by (simp add: dhcp_shape_def dhcp_request_header_def)

lemma dhcp_fields:
  "read_le (dhcp_bytes p @ r) 0 (Suc 0) = Some (dp_op p)"
  "read_le (dhcp_bytes p @ r) 16 4 = Some (dp_yiaddr p)"
  "read_le (dhcp_bytes p @ r) 20 4 = Some (dp_siaddr p)"
  using read_le_at(2) [of "[dp_op p, dp_htype p, dp_hlen p, dp_hops p] @ bytes32 (dp_xid p)
     @ bytes16 (dp_secs p) @ bytes16 (dp_flags p) @ bytes32 (dp_ciaddr p)" 16 "dp_yiaddr p"]
    read_le_at(2) [of "[dp_op p, dp_htype p, dp_hlen p, dp_hops p] @ bytes32 (dp_xid p)
     @ bytes16 (dp_secs p) @ bytes16 (dp_flags p) @ bytes32 (dp_ciaddr p) @ bytes32 (dp_yiaddr p)" 20 "dp_siaddr p"]
  by (simp_all add: dhcp_bytes_def read_le_def)

text \<open>A reply as a server sends it: the kind is the first option.\<close>

definition dhcp_reply :: "dhcp_packet \<Rightarrow> u8 \<Rightarrow> (u8 \<times> u8 list) list \<Rightarrow> u8 list" where
  "dhcp_reply p kind opts = dhcp_bytes p @ dhcp_encode ((53, [kind]) # opts) @ [255, 0]"

definition reply_frame :: "net_state \<Rightarrow> u32 \<Rightarrow> u8 list \<Rightarrow> u8 list" where
  "reply_frame server dest reply = ipv4_frame server dest 17 (udp_datagram 68 67 reply)"

lemma process_reply_frame:
  "ethernet_process_packet (reply_frame server dest reply @ rest) n s = dhcp_process_packet (reply @ rest) s"
  by (simp add: reply_frame_def process_ipv4_frame process_udp_datagram)

lemma dhcp_process_reply:
  assumes "dhcp_shape p" "dp_op p = 2"
  shows "dhcp_process_packet (dhcp_reply p kind opts @ rest) s =
    (if kind = 2 then dhcp_handle_offer (dhcp_reply p kind opts @ rest) s
     else if kind = 5 then dhcp_handle_ack (dhcp_reply p kind opts @ rest)
       (dhcp_encode ((53, [kind]) # opts) @ 255 # 0 # rest) s else Some s)"
  using assms by (simp add: dhcp_process_packet_def dhcp_reply_def dhcp_fields Let_def)
    (simp add: read_le_def)

text \<open>An acknowledgement configures the machine. A frame with a
  DHCPACK, whoever sends it, sets the address to the one it assigns and then the
  mask, router, name server and lease to what its options say, and changes
  nothing else; the frame may be followed by other bytes in the buffer.\<close>

theorem dhcp_ack_configures:
  assumes "dhcp_shape p" "dp_op p = 2" "\<forall>opt\<in>set opts. known_option opt"
    and "length (dhcp_encode opts) \<le> 251"
  shows "ethernet_process_packet (reply_frame server dest (dhcp_reply p 5 opts) @ rest) n s =
    Some (s\<lparr>networking_info := fold dhcp_apply opts ((networking_info s)\<lparr>ni_ipv4_address := dp_yiaddr p,
       ni_ipv4_address_as_string := ip_nota (htonl (dp_yiaddr p))\<rparr>)\<rparr>)"
proof -
  have "known_option (53, [5])" by (simp add: known_option_def)
  with assms(3,4) have "dhcp_options (dhcp_encode ((53, [5]) # opts) @ 255 # 0 # rest) 0 ni
      = Some (fold dhcp_apply ((53, [5]) # opts) ni)" for ni
    by (intro dhcp_options_encoded) auto
  moreover have "read_le (dhcp_reply p 5 opts @ rest) 16 4 = Some (dp_yiaddr p)"
    by (simp add: dhcp_reply_def dhcp_fields)
  ultimately show ?thesis
    using assms(1,2) by (simp add: process_reply_frame dhcp_process_reply dhcp_handle_ack_def Let_def)
qed


lemma sent_updates [simp]:
  "sent (s\<lparr>networking_info := a\<rparr>) = sent s" "sent (s\<lparr>send_dhcp_request := b\<rparr>) = sent s"
  "sent (s\<lparr>dhcp_request_packet := c\<rparr>) = sent s" "sent (s\<lparr>test_connection := d\<rparr>) = sent s"
  by (simp_all add: sent_def)

lemma tx_init_simps [simp]:
  "sent (e1000_tx_init s) = []" "tx_index (e1000_tx_init s) = 0" "length (tx_ring (e1000_tx_init s)) = 64"
  "networking_info (e1000_tx_init s) = networking_info s"
  by (simp_all add: sent_def e1000_tx_init_def)

lemma ucast_and_ff: "(ucast (w AND 0xff :: u32) :: u8) = ucast w"
  by (rule bit_word_eqI) (auto simp: byte_masks32 bit_simps)

lemma address_bytes:
  "[ucast (y AND 0xff), ucast (drop_bit 8 y AND 0xff), ucast (drop_bit 16 y AND 0xff),
    ucast (drop_bit 24 y AND 0xff)] = bytes32 (y :: u32)"
  by (simp only: ucast_and_ff bytes32_def)

definition discover_payload :: "u8 list" where
  "discover_payload = dhcp_bytes (dhcp_request_header 0) @ [53, 1, 1, 55, 2, 3, 6, 255]"

definition request_payload :: "dhcp_packet \<Rightarrow> u8 list" where
  "request_payload p = dhcp_bytes (dhcp_request_header (dp_siaddr p)) @ [53, 1, 3, 50, 4]
     @ bytes32 (dp_yiaddr p) @ [55, 2, 3, 6, 255]"

definition broadcast_frame :: "net_state \<Rightarrow> u8 list \<Rightarrow> u8 list" where
  "broadcast_frame s payload = ipv4_frame s 0xFFFFFFFF 17 (udp_datagram 67 68 payload)"

lemma discover_sends:
  assumes "tx_index s < 64"
  shows "dhcp_discover s = Some (transmit (broadcast_frame s discover_payload) (s\<lparr>send_dhcp_request := False\<rparr>))"
proof -
  let ?s = "s\<lparr>send_dhcp_request := False\<rparr>"
  have "take 248 (dhcp_bytes (dhcp_request_header 0) @ [53, 1, 1, 55, 2, 3, 6, 255] @ replicate 24 0)
      = discover_payload" by (simp add: discover_payload_def)
  then show ?thesis
    using udp_send_frame_or_none [of 248 "dhcp_bytes (dhcp_request_header 0) @ [53, 1, 1, 55, 2, 3, 6, 255]
      @ replicate 24 0" "0xFFFFFFFF" 67 68 ?s] assms
    by (simp add: dhcp_discover_def broadcast_frame_def ipv4_frame_def)
qed

lemma request_sends:
  assumes "tx_index s < 64" "dhcp_request_packet s = dhcp_bytes p" "dhcp_shape p"
  shows "dhcp_handle_offer_stage_2 s = Some (transmit (broadcast_frame s (request_payload p)) s)"
proof -
  let ?d = "dhcp_bytes (dhcp_request_header (dp_siaddr p)) @ [53, 1, 3, 50, 4] @ bytes32 (dp_yiaddr p)
     @ [55, 2, 3, 6, 255] @ replicate 18 0"
  have "take 254 ?d = request_payload p" by (simp add: request_payload_def)
  moreover have "dhcp_handle_offer_stage_2 s = udp_send 0xFFFFFFFF 67 68 ?d 254 s"
    using dhcp_fields [of p "[]"] assms(2) address_bytes [of "dp_yiaddr p", symmetric]
    by (simp add: dhcp_handle_offer_stage_2_def)
  ultimately show ?thesis
    using udp_send_frame_or_none [of 254 ?d "0xFFFFFFFF" 67 68 s] assms(1)
    by (simp add: broadcast_frame_def)
qed

lemma dhcp_wait_quiet:
  "\<not> send_dhcp_request s \<Longrightarrow> dhcp_wait (replicate k [] @ arrivals) s = dhcp_wait arrivals s"
proof (induction k)
  case (Suc k)
  then show ?case by (subst dhcp_wait.simps) simp
qed simp

text \<open>Property C22: the DHCP exchange of enable_networking. While nothing arrives it
  waits; when an offer arrives, after any number of empty turns, it returns, and
  the two frames sent since the driver started are the DISCOVER and a REQUEST that
  asks for the address and names the server of the offer. Nothing is configured
  yet.\<close>

theorem dhcp_exchange:
  assumes "dhcp_shape p" "dp_op p = 2"
  shows "\<exists>s'. enable_networking
      (replicate k [] @ [(reply_frame server dest (dhcp_reply p 2 opts) @ rest, n)] # later) s = Some (True, s')
    \<and> sent s' = [broadcast_frame (s\<lparr>networking_info := net_info_zero\<rparr>) discover_payload,
                 broadcast_frame (s\<lparr>networking_info := net_info_zero\<rparr>) (request_payload p)]
    \<and> networking_info s' = net_info_zero"
proof -
  let ?s0 = "e1000_tx_init (s\<lparr>networking_info := net_info_zero\<rparr>)"
  let ?s1 = "transmit (broadcast_frame ?s0 discover_payload) (?s0\<lparr>send_dhcp_request := False\<rparr>)"
  let ?s2 = "?s1\<lparr>dhcp_request_packet := dhcp_bytes p, send_dhcp_request := True\<rparr>"
  let ?f = "reply_frame server dest (dhcp_reply p 2 opts) @ rest"
  have "dhcp_discover ?s0 = Some ?s1" by (rule discover_sends) (simp add: e1000_tx_init_def)
  moreover have "ethernet_process_packet ?f n ?s1 = Some ?s2"
    unfolding process_reply_frame dhcp_process_reply [OF assms]
    using assms by (simp add: dhcp_handle_offer_def dhcp_reply_def)
  then have "dhcp_wait (replicate k [] @ [(?f, n)] # later) ?s1 = Some (True, ?s2)"
    by (subst dhcp_wait_quiet) (simp_all add: dhcp_wait.simps [of _ ?s1] dhcp_wait.simps [of _ ?s2])
  moreover have "dhcp_handle_offer_stage_2 ?s2 = Some (transmit (broadcast_frame ?s2 (request_payload p)) ?s2)"
    using assms by (intro request_sends) (simp_all add: e1000_tx_init_def)
  ultimately have "enable_networking (replicate k [] @ [(?f, n)] # later) s =
      Some (True, transmit (broadcast_frame ?s2 (request_payload p)) ?s2)"
    by (simp add: enable_networking_def dhcp_start_def)
  moreover have "broadcast_frame ?s2 = broadcast_frame (s\<lparr>networking_info := net_info_zero\<rparr>)"
    "broadcast_frame ?s0 = broadcast_frame (s\<lparr>networking_info := net_info_zero\<rparr>)"
    by (auto simp: broadcast_frame_def ipv4_frame_def e1000_tx_init_def)
  moreover have "sent ?s2 = [broadcast_frame ?s0 discover_payload]"
    by simp
  ultimately show ?thesis by simp
qed


section \<open>TCP segments and their checksum\<close>

lemma tcp_words:
  "word16s (tcp_bytes h @ d) = [tcp_source_port h, tcp_destination_port h, low_half (tcp_seq_number h),
     high_half (tcp_seq_number h), low_half (tcp_ack_number h), high_half (tcp_ack_number h),
     tcp_flags h, tcp_window_size h, tcp_checksum h, tcp_urgent h] @ word16s d"
  by (simp add: tcp_bytes_def)

lemma length_tcp_check [simp]: "length (tcp_check_bytes p) = 12"
  by (simp add: tcp_check_bytes_def)

lemma padded_append: "even (length xs) \<Longrightarrow> padded_words (xs @ d) = word16s xs @ padded_words d"
  by (simp add: padded_words_def word16s_append)

lemma tcp_checksum_segment:
  assumes "tcp_checksum h = 0" "unat n \<le> length d"
  shows "\<exists>c. calculate_tcp_checksum p (tcp_bytes h) 0 d (ucast (n :: u16)) = Some c \<and>
    checksum_verifies (word16s (tcp_check_bytes p) @ padded_words (tcp_bytes (h\<lparr>tcp_checksum := htons c\<rparr>) @ take (unat n) d))"
proof -
  let ?pre = "word16s (tcp_check_bytes p) @ [tcp_source_port h, tcp_destination_port h,
     low_half (tcp_seq_number h), high_half (tcp_seq_number h), low_half (tcp_ack_number h),
     high_half (tcp_ack_number h), tcp_flags h, tcp_window_size h]"
  let ?post = "tcp_urgent h # padded_words (take (unat n) d)"
  obtain c where c: "calculate_tcp_checksum p (tcp_bytes h) 0 d (ucast n) = Some c"
    "unat c = 65535 - ones_sum (word_sum (take 6 (word16s (tcp_check_bytes p))
      @ take (10 + unat (0 :: u16) div 2) (word16s (tcp_bytes h)) @ padded_words (take (unat n) d)))"
    using tcp_checksum_rfc [of 0 "tcp_bytes h" "ucast n" d p] assms(2) unat_word_bounds(2) [of n] by auto
  have "take 6 (word16s (tcp_check_bytes p)) = word16s (tcp_check_bytes p)" by simp
  moreover have "word_sum (take (10 + unat (0 :: u16) div 2) (word16s (tcp_bytes h))) + word_sum (word16s (tcp_check_bytes p))
      + word_sum (padded_words (take (unat n) d)) = word_sum (?pre @ ?post)"
    using tcp_words [of h "[]"] assms(1) by simp
  ultimately have "unat c = 65535 - ones_sum (word_sum (?pre @ ?post))"
    using c(2) by (simp add: add.commute add.left_commute)
  from checksum_completes [OF this] c(1) show ?thesis
    by (simp add: padded_append tcp_words [of _ "[]", simplified])
qed

text \<open>Property C31: the segments of tcp.c are valid. The frame that sends data
  carries the header and the data, and with the pseudo header before them they
  pass the receiver's test of RFC 1071, for every length, odd ones too, that
  fits the frame.\<close>

theorem tcp_segment_verifies:
  assumes "tcp_checksum header = 0" "unat n \<le> length data" "unat n \<le> 1994" "tx_index s < 64"
  shows "\<exists>c. let seg = tcp_bytes (header\<lparr>tcp_checksum := c\<rparr>) @ take (unat n) data in
    tcp_send_header_and_data dest dest_port src_port header data n s
      = Some (transmit (ipv4_frame s dest 6 seg) s) \<and>
    checksum_verifies (word16s (tcp_check_bytes (tcp_check_for dest n s)) @ padded_words seg)"
proof -
  obtain c where c: "calculate_tcp_checksum (tcp_check_for dest n s) (tcp_bytes header) 0 data (ucast n) = Some c"
    "checksum_verifies (word16s (tcp_check_bytes (tcp_check_for dest n s))
      @ padded_words (tcp_bytes (header\<lparr>tcp_checksum := htons c\<rparr>) @ take (unat n) data))"
    using tcp_checksum_segment [OF assms(1,2)] by blast
  let ?h = "tcp_bytes (header\<lparr>tcp_checksum := htons c\<rparr>)"
  let ?p = "?h @ take (unat n) data @ replicate (2028 - unat n) 0"
  have front: "memcpy_to (replicate 2048 0) 0 ?h 20 = Some (?h @ replicate 2028 0)"
    using memcpy_front [of 20 ?h 2048] by simp
  have data: "memcpy_to (?h @ replicate 2028 0) 20 data (unat n) = Some ?p"
    using memcpy_behind [of "unat n" data 2028 ?h] assms by simp
  have sz: "unat (20 + n) = 20 + unat n" using assms(3) by (simp add: unat_word_ariths)
  have "ipv4_send dest 6 ?p (20 + n) s = Some (transmit (ipv4_frame s dest 6 (take (unat (20 + n)) ?p)) s)"
    using assms sz by (intro ipv4_send_frame) simp_all
  then have "tcp_send_header_and_data dest dest_port src_port header data n s
      = Some (transmit (ipv4_frame s dest 6 (?h @ take (unat n) data)) s)"
    using assms(2) by (simp add: tcp_send_header_and_data_def c(1) front data sz)
  with c(2) show ?thesis by (auto simp: Let_def)
qed


section \<open>The TCP handshake\<close>

lemma tcp_fields:
  "read_le (tcp_bytes h @ d) 4 4 = Some (tcp_seq_number h)"
  "read_le (tcp_bytes h @ d) 8 4 = Some (tcp_ack_number h)"
  "read_le (tcp_bytes h @ d) 12 2 = Some (tcp_flags h)"
  using read_le_at(2) [of "bytes16 (tcp_source_port h) @ bytes16 (tcp_destination_port h)" 4]
    read_le_at(2) [of "bytes16 (tcp_source_port h) @ bytes16 (tcp_destination_port h) @ bytes32 (tcp_seq_number h)" 8]
    read_le_at(1) [of "bytes16 (tcp_source_port h) @ bytes16 (tcp_destination_port h)
      @ bytes32 (tcp_seq_number h) @ bytes32 (tcp_ack_number h)" 12]
  by (simp_all add: tcp_bytes_def)

definition is_syn_ack :: "u16 \<Rightarrow> bool" where
  "is_syn_ack flags \<longleftrightarrow> htons flags AND 0x0FFF = 0x12"

lemma flag_values [simp]:
  "(push_bit (Suc 0) 1 OR push_bit 4 1 :: u16) = 0x12" "(push_bit 3 1 OR push_bit 4 1 :: u16) = 0x18"
  "(push_bit 4 1 :: u16) = 0x10"
  by simp_all

lemma handle_syn_ack:
  assumes "is_syn_ack (tcp_flags h)"
  shows "tcp_process_packet (tcp_bytes h @ d) n s = Some (s\<lparr>test_connection := (test_connection s)\<lparr>
     con_ack := htonl (tcp_seq_number h), con_seq := htonl (tcp_ack_number h), con_state := 2\<rparr>\<rparr>)"
  using assms by (simp add: tcp_process_packet_def tcp_connection_handle_recv_def tcp_fields is_syn_ack_def
      tcp_recv_flags_def tcp_show_data_def Let_def)

lemma tcp_connection_header_sends:
  assumes "tx_index s < 64" "tcp_checksum h = 0"
  shows "\<exists>c. tcp_connection_send_header con h s =
    Some (transmit (ipv4_frame s (con_dest_ip con) 6 (tcp_bytes (h\<lparr>tcp_checksum := c\<rparr>))) s)"
proof -
  obtain c where "calculate_tcp_checksum (tcp_check_for (con_dest_ip con) 0 s) (tcp_bytes h) 0 [] 0 = Some c"
    using tcp_checksum_segment [of h 0 "[]"] assms(2) by auto
  then show ?thesis
    using ipv4_send_frame [of 20 "tcp_bytes _" s] assms(1)
    by (auto simp: tcp_connection_send_header_def tcp_send_header_def)
qed

lemma syn_sends:
  fixes s :: net_state
  defines "con \<equiv> (test_connection s)\<lparr>con_connected := False, con_state := 0, con_seq := 159753100, con_ack := 0\<rparr>"
  assumes "tx_index s < 64"
  shows "\<exists>c. tcp_connect_syn s = Some (transmit (ipv4_frame s (con_dest_ip con) 6
      (tcp_bytes ((con_header con 0x8002)\<lparr>tcp_checksum := c\<rparr>) @ take 12 syn_options)) (s\<lparr>test_connection := con\<rparr>))"
proof -
  let ?p = "\<lparr>thp_header = con_header con 0x8002, thp_options = syn_options\<rparr>"
  let ?s = "s\<lparr>test_connection := con\<rparr>"
  have len: "length (tcp_header_payload_bytes p) = 20 + length (thp_options p)" for p
    by (simp add: tcp_header_payload_bytes_def)
  obtain c where c: "calculate_tcp_checksum (tcp_check_for (con_dest_ip con) 12 ?s) (tcp_header_payload_bytes ?p) 12 [] 0 = Some c"
    using tcp_checksum_rfc [of 12 "tcp_header_payload_bytes ?p" 0 "[]"] len [of ?p] by (auto simp: syn_options_def)
  have "(push_bit 1 1 OR push_bit 12 ((20 + 12) div 4) :: u16) = 0x8002" by simp
  then have "tcp_connect_syn s = ipv4_send (con_dest_ip con) 6
      (tcp_bytes ((con_header con 0x8002)\<lparr>tcp_checksum := htons c\<rparr>) @ syn_options) 32 ?s"
    using c by (simp add: tcp_connect_syn_def con_def [symmetric] tcp_connection_send_header_and_options_def
        tcp_send_header_and_options_def tcp_header_payload_bytes_def Let_def)
  also have "\<dots> = Some (transmit (ipv4_frame ?s (con_dest_ip con) 6
      (tcp_bytes ((con_header con 0x8002)\<lparr>tcp_checksum := htons c\<rparr>) @ take 12 syn_options)) ?s)"
    using ipv4_send_frame [of 32 "tcp_bytes ((con_header con 0x8002)\<lparr>tcp_checksum := htons c\<rparr>) @ syn_options" ?s]
      assms by (simp add: syn_options_def)
  finally show ?thesis by (auto simp: ipv4_frame_def)
qed

lemma tcp_connect_wait_quiet:
  assumes "\<not> con_connected (test_connection s)" "con_state (test_connection s) \<noteq> 2"
  shows "tcp_connect_wait (replicate k [] @ arrivals) s = tcp_connect_wait arrivals s"
proof (induction k)
  case (Suc k)
  then show ?case using assms by (subst tcp_connect_wait.simps) (simp add: tcp_connect_turn_def)
qed simp

lemma ipv4_frame_cong: "networking_info a = networking_info b \<Longrightarrow> ipv4_frame a = ipv4_frame b"
  by (intro ext) (simp add: ipv4_frame_def)

lemma tcp_connect_wait_done: "con_connected (test_connection s) \<Longrightarrow> tcp_connect_wait arrivals s = Some (True, s)"
  by (subst tcp_connect_wait.simps) simp

lemma tcp_connect_wait_turn:
  "\<not> con_connected (test_connection s) \<Longrightarrow> receive fs s = Some s1 \<Longrightarrow> tcp_connect_turn s1 = Some s2 \<Longrightarrow>
   tcp_connect_wait (fs # rest) s = tcp_connect_wait rest s2"
  by (subst tcp_connect_wait.simps) simp

lemma tcp_connects:
  fixes s :: net_state
  defines "con \<equiv> test_connection s"
  defines "syn \<equiv> con\<lparr>con_connected := False, con_state := 0, con_seq := 159753100, con_ack := 0\<rparr>"
  assumes "is_syn_ack (tcp_flags h)" "tx_index s < 63" "length (tx_ring s) = 64"
  shows "\<exists>s' c1 c2. tcp_connection_connect
      (replicate k [] @ [(ipv4_frame server dest 6 (tcp_bytes h @ opts) @ rest, n)] # later) s = Some (True, s')
    \<and> test_connection s' = con\<lparr>con_connected := True, con_state := 2,
        con_seq := htonl (tcp_ack_number h), con_ack := htonl (tcp_seq_number h) + 1\<rparr>
    \<and> sent s' = sent s
        @ [ipv4_frame s (con_dest_ip con) 6
             (tcp_bytes ((con_header syn 0x8002)\<lparr>tcp_checksum := c1\<rparr>) @ take 12 syn_options),
           ipv4_frame s (con_dest_ip con) 6
             (tcp_bytes ((con_header (test_connection s') 0x5010)\<lparr>tcp_checksum := c2\<rparr>))]"
proof -
  let ?f = "ipv4_frame server dest 6 (tcp_bytes h @ opts) @ rest"
  obtain c1 where syn: "tcp_connect_syn s = Some (transmit (ipv4_frame s (con_dest_ip con) 6
      (tcp_bytes ((con_header syn 0x8002)\<lparr>tcp_checksum := c1\<rparr>) @ take 12 syn_options)) (s\<lparr>test_connection := syn\<rparr>))"
    (is "_ = Some ?s1")
    using syn_sends [of s] assms(4) by (auto simp: syn_def con_def)
  let ?con2 = "syn\<lparr>con_ack := htonl (tcp_seq_number h), con_seq := htonl (tcp_ack_number h), con_state := 2\<rparr>"
  let ?con3 = "?con2\<lparr>con_ack := htonl (tcp_seq_number h) + 1\<rparr>"
  let ?s2 = "?s1\<lparr>test_connection := ?con2\<rparr>" and ?s3 = "?s1\<lparr>test_connection := ?con3\<rparr>"
  have recv: "ethernet_process_packet ?f n ?s1 = Some ?s2"
    using handle_syn_ack [OF assms(3)] by (simp add: process_ipv4_frame)
  obtain c2 where "tcp_connection_send_header ?con3 (con_header ?con3 0x5010) ?s3 =
      Some (transmit (ipv4_frame ?s3 (con_dest_ip ?con3) 6 (tcp_bytes ((con_header ?con3 0x5010)\<lparr>tcp_checksum := c2\<rparr>))) ?s3)"
    using tcp_connection_header_sends [of ?s3 "con_header ?con3 0x5010" ?con3] assms(4)
    by (auto simp: con_header_def)
  then have ack: "tcp_connection_send_ack ?s2 =
      Some (transmit (ipv4_frame ?s3 (con_dest_ip ?con3) 6 (tcp_bytes ((con_header ?con3 0x5010)\<lparr>tcp_checksum := c2\<rparr>))) ?s3)"
    by (simp add: tcp_connection_send_ack_def Let_def)
  define s4 where "s4 = transmit (ipv4_frame ?s3 (con_dest_ip ?con3) 6
      (tcp_bytes ((con_header ?con3 0x5010)\<lparr>tcp_checksum := c2\<rparr>))) ?s3"
  let ?s5 = "s4\<lparr>test_connection := ?con3\<lparr>con_connected := True\<rparr>\<rparr>"
  have t4: "test_connection s4 = ?con3" by (simp add: s4_def)
  have ack4: "tcp_connection_send_ack ?s2 = Some s4" using ack by (simp only: s4_def)
  have "tcp_connect_turn ?s2 = Some ?s5" by (simp add: tcp_connect_turn_def ack4 t4)
  moreover have fresh: "\<not> con_connected syn" "con_state syn \<noteq> 2" by (simp_all add: syn_def)
  moreover have "receive [(?f, n)] ?s1 = Some ?s2" using recv by simp
  ultimately have "tcp_connect_wait ([(?f, n)] # later) ?s1 = tcp_connect_wait later ?s5"
    by (intro tcp_connect_wait_turn) simp_all
  then have "tcp_connect_wait (replicate k [] @ [(?f, n)] # later) ?s1 = Some (True, ?s5)"
    using fresh by (simp add: tcp_connect_wait_quiet tcp_connect_wait_done)
  then have "tcp_connection_connect (replicate k [] @ [(?f, n)] # later) s = Some (True, ?s5)"
    by (simp add: tcp_connection_connect_def syn)
  moreover have "con_header (?con3\<lparr>con_connected := True\<rparr>) fl = con_header ?con3 fl" for fl
    by (simp add: con_header_def)
  moreover have "ipv4_frame ?s3 = ipv4_frame s" by (rule ipv4_frame_cong) simp
  moreover have "sent ?s5 = sent s @ [ipv4_frame s (con_dest_ip con) 6
      (tcp_bytes ((con_header syn 0x8002)\<lparr>tcp_checksum := c1\<rparr>) @ take 12 syn_options),
      ipv4_frame ?s3 (con_dest_ip con) 6 (tcp_bytes ((con_header ?con3 0x5010)\<lparr>tcp_checksum := c2\<rparr>))]"
    using assms(4,5) by (simp add: s4_def syn_def)
  ultimately show ?thesis
    by (intro exI [of _ ?s5] exI [of _ c1] exI [of _ c2]) (simp add: syn_def)
qed

text \<open>Property C21: the three-way handshake. When nothing arrives but, after any
  number of turns, a SYN/ACK, tcp_connection_connect returns with the connection
  established: its sequence number is what the peer acknowledged, its
  acknowledgement one past the peer's, and it has sent the SYN with its options and
  then the ACK with those numbers.\<close>

theorem tcp_handshake:
  fixes s :: net_state
  defines "con \<equiv> test_connection s"
  defines "syn \<equiv> con\<lparr>con_connected := False, con_state := 0, con_seq := 159753100, con_ack := 0\<rparr>"
  assumes "is_syn_ack (tcp_flags h)" "tx_index s < 63" "length (tx_ring s) = 64"
  shows "\<exists>s' c1 c2. tcp_connection_connect
      (replicate k [] @ [(ipv4_frame server dest 6 (tcp_bytes h @ opts) @ rest, n)] # later) s = Some (True, s')
    \<and> test_connection s' = con\<lparr>con_connected := True, con_state := 2,
        con_seq := htonl (tcp_ack_number h), con_ack := htonl (tcp_seq_number h) + 1\<rparr>
    \<and> sent s' = sent s
        @ [ipv4_frame s (con_dest_ip con) 6
             (tcp_bytes ((con_header syn 0x8002)\<lparr>tcp_checksum := c1\<rparr>) @ take 12 syn_options),
           ipv4_frame s (con_dest_ip con) 6
             (tcp_bytes ((con_header (test_connection s') 0x5010)\<lparr>tcp_checksum := c2\<rparr>))]"
  using assms(3-) unfolding con_def syn_def by (rule tcp_connects)

text \<open>What a frame must be for the connection to count as acknowledged.\<close>

definition syn_ack_frame :: "frame \<Rightarrow> bool" where
  "syn_ack_frame f \<longleftrightarrow> read_le (fst f) 12 2 = Some (htons 0x0800) \<and>
     read_le (drop 14 (fst f)) 9 (Suc 0) = Some (6 :: u8) \<and>
     (case read_le (drop 34 (fst f)) 12 2 of Some flags \<Rightarrow> is_syn_ack flags | None \<Rightarrow> False)"

lemma dhcp_keeps_connection:
  "dhcp_process_packet d s = Some s' \<Longrightarrow> test_connection s' = test_connection s"
  by (auto simp: dhcp_process_packet_def dhcp_handle_offer_def dhcp_handle_ack_def Let_def bind_Some_conv
      split: if_splits)

lemma handle_recv_state:
  assumes "tcp_connection_handle_recv d n s = Some s'"
  shows "con_connected (test_connection s') = con_connected (test_connection s) \<and>
    (con_state (test_connection s') = con_state (test_connection s) \<or>
     (\<exists>flags. read_le d 12 2 = Some flags \<and> is_syn_ack flags))"
proof -
  obtain sq an fl where r: "read_le d 12 2 = Some fl"
    and s': "s' = s\<lparr>test_connection := fst (tcp_recv_flags (htons fl AND 0x0FFF)
        ((test_connection s)\<lparr>con_ack := htonl sq, con_seq := htonl an\<rparr>) (if n > 20 then n - 20 else 0))\<rparr>"
  proof -
    from assms obtain sq an fl where r: "read_le d 12 2 = Some fl"
      and "(case tcp_recv_flags (htons fl AND 0x0FFF) ((test_connection s)\<lparr>con_ack := htonl sq,
          con_seq := htonl an\<rparr>) (if n > 20 then n - 20 else 0) of (con, payload_n) \<Rightarrow>
        do { _ \<leftarrow> tcp_show_data (drop 20 d) (unat payload_n); Some (s\<lparr>test_connection := con\<rparr>) }) = Some s'"
      unfolding tcp_connection_handle_recv_def Let_def bind_Some_conv by blast
    then show ?thesis
      by (intro that [OF r, of an sq]) (auto simp: bind_Some_conv split_beta)
  qed
  show ?thesis
  proof (cases "is_syn_ack fl")
    case False
    then show ?thesis using s' by (auto simp: tcp_recv_flags_def is_syn_ack_def)
  qed (use r s' in \<open>auto simp: tcp_recv_flags_def\<close>)
qed

lemma htons_flip: "htons t = v \<Longrightarrow> t = htons v"
  by auto

lemma frame_state:
  assumes "ethernet_process_packet d n s = Some s'" "\<not> syn_ack_frame (d, n)"
  shows "con_connected (test_connection s') = con_connected (test_connection s) \<and>
    con_state (test_connection s') = con_state (test_connection s)"
proof -
  obtain type :: u16 where type: "read_le d 12 2 = Some type"
    using assms(1) by (auto simp: ethernet_process_packet_def bind_Some_conv)
  consider "s' = s" | protocol where "htons type = 0x0800" "read_le (drop 14 d) 9 (Suc 0) = Some (protocol :: u8)"
      "(if protocol = 6 then tcp_process_packet (drop 34 d) (n - 34) s
        else if protocol = 17 then udp_process_packet (drop 34 d) s else Some s) = Some s'"
    using assms(1) type
    by (auto simp: ethernet_process_packet_def arp_process_packet_def ipv4_process_packet_def Let_def
        bind_Some_conv split: if_splits)
  then show ?thesis
  proof cases
    case 2
    show ?thesis
    proof (cases "protocol = 6")
      case True
      with 2 have "tcp_connection_handle_recv (drop 34 d) (n - 34) s = Some s'"
        by (simp add: tcp_process_packet_def)
      from handle_recv_state [OF this] assms(2) 2(2) True type htons_flip [OF 2(1)] show ?thesis
        by (auto simp: syn_ack_frame_def)
    next
      case False
      then have "test_connection s' = test_connection s"
        using 2(3) by (auto simp: udp_process_packet_def bind_Some_conv dest: dhcp_keeps_connection split: if_splits)
      then show ?thesis by simp
    qed
  qed simp
qed

lemma receive_state:
  "receive fs s = Some s' \<Longrightarrow> \<forall>f\<in>set fs. \<not> syn_ack_frame f \<Longrightarrow>
   con_connected (test_connection s') = con_connected (test_connection s) \<and>
   con_state (test_connection s') = con_state (test_connection s)"
proof (induction fs arbitrary: s)
  case (Cons f fs)
  then obtain s1 where "ethernet_process_packet (fst f) (snd f) s = Some s1" "receive fs s1 = Some s'"
    by (auto simp: bind_Some_conv)
  with Cons show ?case using frame_state [of "fst f" "snd f" s s1] by auto
qed simp

text \<open>Property C23: no connection without the peer. Whatever frames arrive while
  tcp_connection_connect waits, in any number and any grouping, it returns only if
  one of them was an IPv4 frame with a TCP segment whose flags are SYN and ACK;
  without one it waits for ever or a frame has overrun a buffer.\<close>

theorem connect_needs_syn_ack:
  assumes "tcp_connection_connect arrivals s = Some (True, s')"
  shows "\<exists>fs\<in>set arrivals. \<exists>f\<in>set fs. syn_ack_frame f"
proof (rule ccontr)
  assume none: "\<not> ?thesis"
  have wait: "\<forall>fs\<in>set arr. \<forall>f\<in>set fs. \<not> syn_ack_frame f \<Longrightarrow> \<not> con_connected (test_connection t) \<Longrightarrow>
      con_state (test_connection t) \<noteq> 2 \<Longrightarrow> tcp_connect_wait arr t \<noteq> Some (True, s')" for arr t
  proof (induction arr arbitrary: t)
    case (Cons fs arr)
    show ?case
    proof (cases "receive fs t")
      case (Some t1)
      then have "\<not> con_connected (test_connection t1)" "con_state (test_connection t1) \<noteq> 2"
        using receive_state [OF Some] Cons.prems by auto
      with Some Cons show ?thesis
        by (subst tcp_connect_wait.simps) (simp add: tcp_connect_turn_def)
    qed (use Cons.prems in \<open>subst tcp_connect_wait.simps, simp\<close>)
  qed (subst tcp_connect_wait.simps, simp)
  obtain t where "tcp_connect_syn s = Some t" "tcp_connect_wait arrivals t = Some (True, s')"
    using assms by (auto simp: tcp_connection_connect_def bind_Some_conv)
  moreover from this(1) have "\<not> con_connected (test_connection t)" "con_state (test_connection t) = 0"
    using ipv4_send_keeps by (force simp: tcp_connect_syn_def Let_def tcp_connection_send_header_and_options_def
        tcp_send_header_and_options_def bind_Some_conv)+
  ultimately show False using wait [of arrivals t] none by simp
qed


section \<open>The receive ring\<close>

text \<open>
  The frames ready at the index i of a ring, in ring order: the run of ready
  descriptors from i on, over the wrap. n bounds it by the size of the ring.
\<close>

primrec ready_run :: "(u8 \<times> frame) list \<Rightarrow> nat \<Rightarrow> nat \<Rightarrow> frame list" where
  "ready_run ring i 0 = []"
| "ready_run ring i (Suc n) = (if rx_ready (ring ! i)
     then snd (ring ! i) # ready_run ring ((i + 1) mod length ring) n else [])"


primrec released :: "(u8 \<times> frame) list \<Rightarrow> nat \<Rightarrow> nat \<Rightarrow> (u8 \<times> frame) list" where
  "released ring i 0 = ring"
| "released ring i (Suc n) = released (ring[i := (0, snd (ring ! i))]) ((i + 1) mod length ring) n"

lemma ready_run_cleared:
  assumes "i < length ring" "j < length ring" "(j + d) mod length ring = i" "d < length ring"
  shows "ready_run (ring[i := (0, v)]) j n = ready_run ring j (min n d)"
  using assms
proof (induction n arbitrary: j d)
  case (Suc n)
  show ?case
  proof (cases d)
    case 0
    then show ?thesis using Suc.prems by (simp add: rx_ready_def)
  next
    case (Suc e)
    have "j \<noteq> i"
    proof
      assume "j = i"
      then have "(j + d) mod length ring = j mod length ring" using Suc.prems by simp
      then have "length ring dvd d" using mod_eq_dvd_iff_nat [of j "j + d" "length ring"] by simp
      then show False using Suc.prems(4) \<open>d = Suc e\<close> by (auto dest: dvd_imp_le)
    qed
    have "(Suc j mod length ring + e) mod length ring = i"
      using Suc.prems(3) \<open>d = Suc e\<close> by (simp add: mod_add_left_eq)
    moreover have "Suc j mod length ring < length ring"
      using Suc.prems(2) by (intro mod_less_divisor) auto
    ultimately have "ready_run (ring[i := (0, v)]) (Suc j mod length ring) n = ready_run ring (Suc j mod length ring) (min n e)"
      using Suc.prems \<open>d = Suc e\<close> by (intro Suc.IH) auto
    with \<open>j \<noteq> i\<close> show ?thesis using \<open>d = Suc e\<close> by simp
  qed
qed simp

lemma ready_run_advance:
  assumes "length ring = 64" "i < 64" "rx_ready (ring ! i)"
  shows "ready_run ring i 64 = snd (ring ! i) # ready_run (ring[i := (0, v)]) ((i + 1) mod 64) 64"
proof -
  have "ready_run (ring[i := (0, v)]) ((i + 1) mod 64) 64 = ready_run ring ((i + 1) mod 64) (min 64 63)"
    using assms by (intro ready_run_cleared) (simp_all add: mod_add_left_eq)
  moreover have "ready_run ring i (Suc 63) = snd (ring ! i) # ready_run ring ((i + 1) mod 64) 63"
    by (simp only: ready_run.simps assms if_True)
  ultimately show ?thesis by simp
qed

lemma rx_loop_in_order:
  "rx_loop heads k head rx s = Some (rx', s') \<Longrightarrow> length (rx_ring rx) = 64 \<Longrightarrow> rx_index rx < 64 \<Longrightarrow>
   \<exists>n\<le>length (ready_run (rx_ring rx) (rx_index rx) 64).
     receive (take n (ready_run (rx_ring rx) (rx_index rx) 64)) s = Some s' \<and>
     rx' = rx\<lparr>rx_ring := released (rx_ring rx) (rx_index rx) n, rx_index := (rx_index rx + n) mod 64\<rparr>"
proof (induction heads k head rx s rule: rx_loop.induct)
  case (1 heads k head rx s)
  let ?i = "rx_index rx" and ?ring = "rx_ring rx"
  show ?case
  proof (cases "rx_ready (?ring ! ?i)")
    case False
    then show ?thesis using 1 by (intro exI [of _ 0]) (simp add: rx_loop.simps)
  next
    case ready: True
    let ?f = "snd (?ring ! ?i)" and ?rx1 = "rx_advance rx"
    have adv: "rx_ring ?rx1 = ?ring[?i := (0, ?f)]" "rx_index ?rx1 = (?i + 1) mod 64" "rx_index ?rx1 < 64"
      using "1.prems" by (auto simp: rx_advance_def Let_def mod_if)
    obtain s1 where s1: "ethernet_process_packet (fst ?f) (snd ?f) s = Some s1"
      using "1.prems" ready by (auto simp: rx_loop.simps [of heads k head rx s] bind_Some_conv Let_def)
    have run: "ready_run ?ring ?i 64 = ?f # ready_run (rx_ring ?rx1) (rx_index ?rx1) 64"
      unfolding adv using ready "1.prems" by (intro ready_run_advance) auto
    have step: ?thesis
      if n: "n \<le> length (ready_run (rx_ring ?rx1) (rx_index ?rx1) 64)"
        "receive (take n (ready_run (rx_ring ?rx1) (rx_index ?rx1) 64)) s1 = Some s'"
        "rx' = ?rx1\<lparr>rx_ring := released (rx_ring ?rx1) (rx_index ?rx1) n, rx_index := (rx_index ?rx1 + n) mod 64\<rparr>" for n
    proof (intro exI [of _ "Suc n"] conjI)
      have "((?i + 1) mod 64 + n) mod 64 = (?i + Suc n) mod 64" by (simp add: mod_add_left_eq)
      then show "rx' = rx\<lparr>rx_ring := released ?ring ?i (Suc n), rx_index := (?i + Suc n) mod 64\<rparr>"
        using n(3) adv "1.prems" by (simp add: rx_advance_def)
    qed (use n s1 run in simp_all)
    have "(if rx_index ?rx1 = head
        then if heads k = rx_index ?rx1 then Some (?rx1, s1) else rx_loop heads (k + 1) (heads k) ?rx1 s1
        else rx_loop heads k head ?rx1 s1) = Some (rx', s')"
      using "1.prems" ready s1 by (simp add: rx_loop.simps [of heads k head rx s] Let_def)
    then consider "rx' = ?rx1" "s' = s1" | "rx_index ?rx1 = head" "heads k \<noteq> rx_index ?rx1"
        "rx_loop heads (k + 1) (heads k) ?rx1 s1 = Some (rx', s')"
      | "rx_index ?rx1 \<noteq> head" "rx_loop heads k head ?rx1 s1 = Some (rx', s')"
      by (auto split: if_splits)
    then show ?thesis
    proof cases
      case 1
      then show ?thesis using step [of 0] adv by simp
    next
      case 2
      with "1.IH"(1) [OF _ _ refl s1 refl] ready "1.prems" adv step show ?thesis by auto
    next
      case 3
      with "1.IH"(2) [OF _ _ refl s1 refl] ready "1.prems" adv step show ?thesis by auto
    qed
  qed
qed

text \<open>The receive interrupt hands up ready frames in ring order.
  Whatever the head register shows while it runs, the handler takes a prefix of
  the run of ready descriptors that starts at its index, gives each frame of it to
  the stack once and in order, releases exactly these descriptors and leaves its
  index behind them, over the wrap of the ring.\<close>

theorem rx_in_order:
  assumes "e1000_interrupt_handler icr heads rx s = Some (rx', s')"
    and "length (rx_ring rx) = 64" "rx_index rx < 64"
  shows "\<exists>n\<le>length (ready_run (rx_ring rx) (rx_index rx) 64).
     receive (take n (ready_run (rx_ring rx) (rx_index rx) 64)) s = Some s' \<and>
     rx' = rx\<lparr>rx_ring := released (rx_ring rx) (rx_index rx) n, rx_index := (rx_index rx + n) mod 64\<rparr>"
proof (cases "icr AND NOT 3 = 0x80 \<and> heads 0 \<noteq> rx_index rx")
  case True
  with assms have "rx_loop heads 1 (heads 0) rx s = Some (rx', s')" by (simp add: e1000_interrupt_handler_def)
  from rx_loop_in_order [OF this assms(2,3)] show ?thesis .
next
  case False
  with assms(1) have "rx' = rx" "s' = s" by (auto simp: e1000_interrupt_handler_def split: if_splits)
  with assms(3) show ?thesis by (intro exI [of _ 0]) simp
qed



section \<open>Concrete runs\<close>

definition demo_net :: net_state where
  "demo_net = \<lparr>networking_info = net_info_zero\<lparr>ni_ipv4_address := htonl 0x0A00020F\<rparr>,
     packet_data = [], tx_ring = replicate 64 ([], 0), tx_index = 0, send_dhcp_request = False,
     dhcp_request_packet = replicate 240 0, test_connection = tcp_test_connection\<rparr>"

lemma demo_net_simps [simp]:
  "tx_index demo_net = 0" "length (tx_ring demo_net) = 64" "test_connection demo_net = tcp_test_connection"
  "sent demo_net = []"
  by (simp_all add: demo_net_def sent_def)

definition demo_offer :: dhcp_packet where
  "demo_offer = (dhcp_request_header 0)\<lparr>dp_op := 2, dp_yiaddr := htonl 0x0A00020F\<rparr>"

lemma demo_offer_simps [simp]: "dhcp_shape demo_offer" "dp_op demo_offer = 2"
  by (simp_all add: demo_offer_def dhcp_shape_def dhcp_request_header_def)

definition demo_options :: "(u8 \<times> u8 list) list" where
  "demo_options = [(54, [10, 0, 2, 2]), (1, [255, 255, 255, 0]), (3, [10, 0, 2, 2]), (6, [10, 0, 2, 3]), (51, [0, 1, 81, 128])]"

definition demo_syn_ack :: tcp_header where
  "demo_syn_ack = \<lparr>tcp_source_port = htons 2000, tcp_destination_port = htons 5894, tcp_seq_number = htonl 5000,
     tcp_ack_number = htonl 159753101, tcp_flags = htons 0x5012, tcp_window_size = 0, tcp_checksum = 0, tcp_urgent = 0\<rparr>"

text \<open>To 192.168.174.18 a datagram of 8 bytes has a header the receiver drops.\<close>

definition demo_header :: ipv4_packet where
  "demo_header = \<lparr>ip_version_ihl = 0x45, ip_dscp_ecn = 0, ip_length = htons 36, ip_ident = htons 1,
     ip_flags_fragment = 0, ip_ttl = 0x40, ip_protocol = 17, ip_checksum = 0,
     ip_source = htonl 0x0A00020F, ip_destination = htonl 0xC0A8AE12\<rparr>"

lemma ipv4_checksum_correct_iff_witness:
  "\<not> checksum_verifies (word16s (ipv4_bytes (demo_header\<lparr>ip_checksum := htons (calculate_ipv4_checksum demo_header)\<rparr>)))"
proof -
  have "word_sum (word16s (ipv4_bytes demo_header)) = 0x1FFFF"
    by (simp add: demo_header_def ipv4_words word_sum_def htons_def htonl_def low_half_def high_half_def)
  moreover have "ip_checksum demo_header = 0" by (simp add: demo_header_def)
  ultimately show ?thesis using ipv4_checksum_correct_iff [of demo_header] by simp
qed

lemma tcp_checksum_is_rfc1071_witness:
  "\<exists>c. calculate_tcp_checksum (tcp_check_for 0x0A000202 3 demo_net) (tcp_bytes demo_syn_ack) 0 [1, 2, 3] 3 = Some c \<and>
    unat c = 65535 - ones_sum (word_sum (take 6 (word16s (tcp_check_bytes (tcp_check_for 0x0A000202 3 demo_net)))
      @ take (10 + unat (0 :: u16) div 2) (word16s (tcp_bytes demo_syn_ack)) @ padded_words (take (unat (3 :: u32)) [1, 2, 3])))"
  by (rule tcp_checksum_is_rfc1071) simp_all

lemma udp_send_frame_witness:
  "udp_send 0x0A000202 67 68 [1, 2, 3] 2 demo_net
     = Some (transmit (ipv4_frame demo_net 0x0A000202 17 (udp_datagram 67 68 [1, 2])) demo_net)"
  using udp_send_frame [of 2 "[1, 2, 3]" "0x0A000202" 67 68 demo_net] by simp

lemma udp_frame_received_witness:
  "ethernet_process_packet (last (sent (the (udp_send 0x0A000202 68 67 [1, 2, 3] 2 demo_net))) @ [0]) 44 demo_net
     = dhcp_process_packet ([1, 2] @ [0]) demo_net"
proof -
  obtain s' where "udp_send 0x0A000202 68 67 [1, 2, 3] 2 demo_net = Some s'"
    using udp_send_frame_or_none [of 2 "[1, 2, 3]" "0x0A000202" 68 67 demo_net] by auto
  from udp_frame_received [OF this, of "[0]" 44 demo_net] this show ?thesis by simp
qed

lemma dhcp_options_roundtrip_witness:
  "dhcp_options (dhcp_encode demo_options @ 255 # 0 # [7]) 0 net_info_zero = Some (fold dhcp_apply demo_options net_info_zero)
   \<and> ni_ipv4_router_as_string (fold dhcp_apply demo_options net_info_zero) = ''10.0.2.2''"
proof
  show "dhcp_options (dhcp_encode demo_options @ 255 # 0 # [7]) 0 net_info_zero = Some (fold dhcp_apply demo_options net_info_zero)"
    by (rule dhcp_options_roundtrip) (simp_all add: demo_options_def known_option_def)
qed code_simp

lemma dhcp_ack_configures_witness:
  "ethernet_process_packet (reply_frame demo_net 0xFFFFFFFF (dhcp_reply demo_offer 5 demo_options) @ [0]) 340 demo_net =
    Some (demo_net\<lparr>networking_info := fold dhcp_apply demo_options ((networking_info demo_net)
       \<lparr>ni_ipv4_address := dp_yiaddr demo_offer, ni_ipv4_address_as_string := ip_nota (htonl (dp_yiaddr demo_offer))\<rparr>)\<rparr>)"
  by (rule dhcp_ack_configures) (simp_all add: demo_options_def known_option_def)

lemma dhcp_exchange_witness:
  "\<exists>s'. enable_networking
      (replicate 2 [] @ [(reply_frame demo_net 0xFFFFFFFF (dhcp_reply demo_offer 2 demo_options) @ [0], 340)] # []) demo_net = Some (True, s')
    \<and> sent s' = [broadcast_frame (demo_net\<lparr>networking_info := net_info_zero\<rparr>) discover_payload,
                 broadcast_frame (demo_net\<lparr>networking_info := net_info_zero\<rparr>) (request_payload demo_offer)]
    \<and> networking_info s' = net_info_zero"
  by (rule dhcp_exchange) simp_all

lemma tcp_segment_verifies_witness:
  "\<exists>c. let seg = tcp_bytes (demo_syn_ack\<lparr>tcp_checksum := c\<rparr>) @ take (unat (3 :: u16)) [1, 2, 3] in
    tcp_send_header_and_data 0x0A000202 2000 5894 demo_syn_ack [1, 2, 3] 3 demo_net
      = Some (transmit (ipv4_frame demo_net 0x0A000202 6 seg) demo_net) \<and>
    checksum_verifies (word16s (tcp_check_bytes (tcp_check_for 0x0A000202 3 demo_net)) @ padded_words seg)"
  by (rule tcp_segment_verifies) (simp_all add: demo_syn_ack_def)

lemma demo_syn_ack_flags: "is_syn_ack (tcp_flags demo_syn_ack)"
  by code_simp

lemma tcp_handshake_witness:
  "\<exists>s' c1 c2. tcp_connection_connect
      (replicate 1 [] @ [(ipv4_frame demo_net 0x0A00020F 6 (tcp_bytes demo_syn_ack @ []) @ [], 54)] # []) demo_net = Some (True, s')
    \<and> test_connection s' = tcp_test_connection\<lparr>con_connected := True, con_state := 2,
        con_seq := htonl (tcp_ack_number demo_syn_ack), con_ack := htonl (tcp_seq_number demo_syn_ack) + 1\<rparr>
    \<and> length (sent s') = 2"
proof -
  from tcp_handshake [of demo_syn_ack demo_net 1 demo_net "0x0A00020F" "[]" "[]" 54 "[]", OF demo_syn_ack_flags]
  obtain s' c1 c2 where s': "tcp_connection_connect
      (replicate 1 [] @ [(ipv4_frame demo_net 0x0A00020F 6 (tcp_bytes demo_syn_ack @ []) @ [], 54)] # []) demo_net = Some (True, s')"
    "test_connection s' = tcp_test_connection\<lparr>con_connected := True, con_state := 2,
        con_seq := htonl (tcp_ack_number demo_syn_ack), con_ack := htonl (tcp_seq_number demo_syn_ack) + 1\<rparr>"
    "length (sent s') = 2"
    by auto
  then show ?thesis by blast
qed

lemma connect_needs_syn_ack_witness:
  "\<exists>fs\<in>set (replicate 1 [] @ [(ipv4_frame demo_net 0x0A00020F 6 (tcp_bytes demo_syn_ack @ []) @ [], 54)] # []).
     \<exists>f\<in>set fs. syn_ack_frame f"
proof -
  from tcp_connects [of demo_syn_ack demo_net 1 demo_net "0x0A00020F" "[]" "[]" 54 "[]", OF demo_syn_ack_flags]
  obtain s' where "tcp_connection_connect
      (replicate 1 [] @ [(ipv4_frame demo_net 0x0A00020F 6 (tcp_bytes demo_syn_ack @ []) @ [], 54)] # []) demo_net = Some (True, s')"
    by auto
  then show ?thesis by (rule connect_needs_syn_ack)
qed

lemma rx_in_order_witness:
  "\<exists>n\<le>length (ready_run ((1, [0, 0, 0, 0, 0, 0, 0, 0, 0, 0, 0, 0, 0, 0], 14) # replicate 63 (0, [], 0)) 0 64).
     receive (take n (ready_run ((1, [0, 0, 0, 0, 0, 0, 0, 0, 0, 0, 0, 0, 0, 0], 14) # replicate 63 (0, [], 0)) 0 64)) demo_net = Some demo_net"
proof -
  let ?rx = "\<lparr>rx_ring = (1, [0, 0, 0, 0, 0, 0, 0, 0, 0, 0, 0, 0, 0, 0], 14) # replicate 63 (0, [], 0), rx_index = 0\<rparr>"
  have "\<exists>rx'. e1000_interrupt_handler 0x80 (\<lambda>_. 1) ?rx demo_net = Some (rx', demo_net)"
    by (simp add: e1000_interrupt_handler_def rx_loop.simps [of _ "Suc 0" "Suc 0" ?rx] rx_ready_def rx_advance_def
        ethernet_process_packet_def read_le_def Let_def htons_def)
  then obtain rx' where "e1000_interrupt_handler 0x80 (\<lambda>_. 1) ?rx demo_net = Some (rx', demo_net)" by blast
  from rx_in_order [OF this] show ?thesis by auto
qed

end
