(* ===== verification/AsvfsDisk.thy ===== *)
theory AsvfsDisk
  imports NetWire
begin

text \<open>
  The disk format of the kernel's own file system (kernel/include/asvfs.h): the
  drive as its bytes, the packed header, block records and directories with
  their images, and the accesses of kernel/fs/asvfs.c to them. The lemmas give
  the round trips and keep the header, the records and the blocks apart.
\<close>

section \<open>The drive\<close>

type_synonym disk = "nat \<Rightarrow> u8"

definition disk_read :: "nat \<Rightarrow> nat \<Rightarrow> disk \<Rightarrow> u8 list" where
  "disk_read off n d = map d [off ..< off + n]"

definition disk_write :: "nat \<Rightarrow> u8 list \<Rightarrow> disk \<Rightarrow> disk" where
  "disk_write off bs d = (\<lambda>i. if off \<le> i \<and> i < off + length bs then bs ! (i - off) else d i)"

named_theorems disk_simps \<open>reads behind writes of the drive\<close>

lemma length_disk_read [simp]: "length (disk_read off n d) = n"
  by (simp add: disk_read_def)

lemma disk_read_same [disk_simps]: "length bs = n \<Longrightarrow> disk_read off n (disk_write off bs d) = bs"
  by (rule nth_equalityI) (auto simp: disk_read_def disk_write_def)

lemma disk_read_other:
  "off + n \<le> at \<or> at + length bs \<le> off \<Longrightarrow> disk_read off n (disk_write at bs d) = disk_read off n d"
  by (auto simp: disk_read_def disk_write_def)


section \<open>The structures\<close>

record asvfs_header =
  h_magic :: "u8 list"
  h_version :: u8
  h_size :: u64
  h_block_size :: u32
  h_block_count :: u32
  h_root_directory :: u32
  h_next_free :: u32
  h_reserved :: "u8 list"

record asvfs_block_meta_data =
  m_id :: u32
  m_block_type :: u8
  m_name :: "u8 list"
  m_file_size :: u32
  m_starting_block :: u32
  m_num_blocks :: u32
  m_in_use :: u8
  m_permissions :: u16
  m_reserved :: "u8 list"

record asvfs_block_directory =
  d_type :: u32
  d_index :: "u32 list"
  d_next_index :: u32
  d_reserved :: "u8 list"

definition bytes64 :: "u64 \<Rightarrow> u8 list" where
  "bytes64 w = bytes32 (ucast w) @ bytes32 (ucast (drop_bit 32 w))"

definition header_bytes :: "asvfs_header \<Rightarrow> u8 list" where
  "header_bytes h = h_magic h @ [h_version h] @ bytes64 (h_size h) @ bytes32 (h_block_size h)
     @ bytes32 (h_block_count h) @ bytes32 (h_root_directory h) @ bytes32 (h_next_free h) @ h_reserved h"

definition header_of :: "u8 list \<Rightarrow> asvfs_header" where
  "header_of b = \<lparr>h_magic = take 4 b, h_version = b ! 4, h_size = le_word (take 8 (drop 5 b)),
     h_block_size = le_word (take 4 (drop 13 b)), h_block_count = le_word (take 4 (drop 17 b)),
     h_root_directory = le_word (take 4 (drop 21 b)), h_next_free = le_word (take 4 (drop 25 b)),
     h_reserved = take 32 (drop 29 b)\<rparr>"

definition meta_bytes :: "asvfs_block_meta_data \<Rightarrow> u8 list" where
  "meta_bytes m = bytes32 (m_id m) @ [m_block_type m] @ m_name m @ bytes32 (m_file_size m)
     @ bytes32 (m_starting_block m) @ bytes32 (m_num_blocks m) @ [m_in_use m]
     @ bytes16 (m_permissions m) @ m_reserved m"

definition meta_of :: "u8 list \<Rightarrow> asvfs_block_meta_data" where
  "meta_of b = \<lparr>m_id = le_word (take 4 b), m_block_type = b ! 4, m_name = take 50 (drop 5 b),
     m_file_size = le_word (take 4 (drop 55 b)), m_starting_block = le_word (take 4 (drop 59 b)),
     m_num_blocks = le_word (take 4 (drop 63 b)), m_in_use = b ! 67,
     m_permissions = le_word (take 2 (drop 68 b)), m_reserved = take 26 (drop 70 b)\<rparr>"

fun word32s :: "nat \<Rightarrow> u8 list \<Rightarrow> u32 list" where
  "word32s 0 b = []"
| "word32s (Suc n) b = le_word (take 4 b) # word32s n (drop 4 b)"

definition dir_bytes :: "asvfs_block_directory \<Rightarrow> u8 list" where
  "dir_bytes d = bytes32 (d_type d) @ concat (map bytes32 (d_index d)) @ bytes32 (d_next_index d) @ d_reserved d"

definition dir_of :: "u8 list \<Rightarrow> asvfs_block_directory" where
  "dir_of b = \<lparr>d_type = le_word (take 4 b), d_index = word32s 256 (drop 4 b),
     d_next_index = le_word (take 4 (drop 1028 b)), d_reserved = take 32 (drop 1032 b)\<rparr>"

text \<open>The arrays have their sizes.\<close>

definition header_ok :: "asvfs_header \<Rightarrow> bool" where
  "header_ok h \<longleftrightarrow> length (h_magic h) = 4 \<and> length (h_reserved h) = 32"

definition meta_ok :: "asvfs_block_meta_data \<Rightarrow> bool" where
  "meta_ok m \<longleftrightarrow> length (m_name m) = 50 \<and> length (m_reserved m) = 26"

definition dir_ok :: "asvfs_block_directory \<Rightarrow> bool" where
  "dir_ok d \<longleftrightarrow> length (d_index d) = 256 \<and> length (d_reserved d) = 32"

lemma length_bytes64 [simp]: "length (bytes64 w) = 8"
  by (simp add: bytes64_def)

lemma length_header_bytes [simp]: "header_ok h \<Longrightarrow> length (header_bytes h) = 61"
  by (simp add: header_bytes_def header_ok_def)

lemma length_meta_bytes [simp]: "meta_ok m \<Longrightarrow> length (meta_bytes m) = 96"
  by (simp add: meta_bytes_def meta_ok_def)

lemma length_concat_bytes32 [simp]: "length (concat (map bytes32 ws)) = 4 * length ws"
  by (induction ws) simp_all

lemma length_dir_bytes [simp]: "dir_ok d \<Longrightarrow> length (dir_bytes d) = 1064"
  by (simp add: dir_bytes_def dir_ok_def)

lemma le_word_bytes64 [simp]: "le_word (bytes64 w) = w"
proof (rule bit_word_eqI)
  fix n assume "n < LENGTH(64)"
  then have "n < 64" by simp
  have "bit (le_word (bytes64 w) :: u64) n \<longleftrightarrow> bit (bytes64 w ! (n div 8)) (n mod 8)"
    using \<open>n < 64\<close> by (simp add: bit_le_word)
  also have "\<dots> = bit w n"
  proof -
    have b32: "bit (bytes32 v ! k) j = bit v (8 * k + j)" if "k < 4" "j < 8" for k j and v :: u32
    proof -
      from \<open>k < 4\<close> consider "k = 0" | "k = 1" | "k = 2" | "k = 3" by linarith
      then show ?thesis using that(2) by cases (auto simp: bytes32_def bit_simps)
    qed
    have n: "8 * (n div 8) + n mod 8 = n" by simp
    show ?thesis
    proof (cases "n div 8 < 4")
      case True
      then have "n < 32" by linarith
      have "bytes64 w ! (n div 8) = bytes32 (ucast w) ! (n div 8)"
        by (simp only: bytes64_def nth_append length_bytes True if_True)
      then show ?thesis
        using b32 [OF True, of "n mod 8"] \<open>n < 32\<close> by (simp add: bit_simps)
    next
      case False
      define k where "k = n div 8 - 4"
      have k: "n div 8 = k + 4" "k < 4" using False \<open>n < 64\<close> unfolding k_def by linarith+
      have "32 + (8 * k + n mod 8) = n" using n k by linarith
      moreover from this have "8 * k + n mod 8 < 32" using \<open>n < 64\<close> by linarith
      ultimately show ?thesis using k by (simp add: bytes64_def nth_append b32 bit_simps)
    qed
  qed
  finally show "bit (le_word (bytes64 w) :: u64) n = bit w n" .
qed

lemma word32s_concat: "length ws = n \<Longrightarrow> word32s n (concat (map bytes32 ws) @ r) = ws"
  by (induction ws arbitrary: n) auto

lemma header_of_bytes [simp]: "header_ok h \<Longrightarrow> header_of (header_bytes h) = h"
  by (simp add: header_of_def header_bytes_def header_ok_def nth_append)

lemma meta_of_bytes [simp]: "meta_ok m \<Longrightarrow> meta_of (meta_bytes m) = m"
  by (simp add: meta_of_def meta_bytes_def meta_ok_def nth_append)

lemma dir_of_bytes [simp]: "dir_ok d \<Longrightarrow> dir_of (dir_bytes d) = d"
  by (simp add: dir_of_def dir_bytes_def dir_ok_def word32s_concat)

lemma length_word32s [simp]: "length (word32s n b) = n"
  by (induction n arbitrary: b) simp_all

lemma meta_of_ok [simp]: "96 \<le> length b \<Longrightarrow> meta_ok (meta_of b)"
  by (simp add: meta_of_def meta_ok_def)

lemma dir_of_ok [simp]: "1064 \<le> length b \<Longrightarrow> dir_ok (dir_of b)"
  by (simp add: dir_of_def dir_ok_def)

lemma header_of_ok [simp]: "61 \<le> length b \<Longrightarrow> header_ok (header_of b)"
  by (simp add: header_of_def header_ok_def)

end
