(* ===== verification/Asvfs.thy ===== *)
theory Asvfs
  imports AsvfsDisk
begin

text \<open>
  The operations of kernel/fs/asvfs.c over the drive of AsvfsDisk: lookup of a
  path, attributes, reading and writing, creation of files and directories,
  truncation, unlinking, change of mode and renaming. A path or name is the list
  of its characters before the terminating NUL. kmalloc succeeds; the drive does
  what its two operations promise (it reads its bytes, and a write returns the
  number written). An index outside an array, a name that does not fit its
  array and a name without NUL are None; what a local variable holds before it
  is set is an argument. The kernel's off_t has 32 bits.
\<close>

record asvfs =
  drive :: disk
  hdr :: asvfs_header

text \<open>The error codes.\<close>

abbreviation (input) ASVFS_ERROR_NONE :: int where "ASVFS_ERROR_NONE \<equiv> 0"
abbreviation (input) ASVFS_ERROR_PATH_NOT_FOUND :: int where "ASVFS_ERROR_PATH_NOT_FOUND \<equiv> - 3"
abbreviation (input) ASVFS_ERROR_NOT_A_DIRECTORY :: int where "ASVFS_ERROR_NOT_A_DIRECTORY \<equiv> - 5"
abbreviation (input) ASVFS_ERROR_FILE_NOT_FOUND :: int where "ASVFS_ERROR_FILE_NOT_FOUND \<equiv> - 8"

abbreviation (input) BLOCK_TYPE_FILE :: u8 where "BLOCK_TYPE_FILE \<equiv> 1"
abbreviation (input) BLOCK_TYPE_DIRECTORY :: u8 where "BLOCK_TYPE_DIRECTORY \<equiv> 2"

abbreviation (input) slash :: u8 where "slash \<equiv> 0x2F"

text \<open>The string in an array of characters, and strcpy of one into an array of n.\<close>

definition cstr_of :: "u8 list \<Rightarrow> u8 list option" where
  "cstr_of b = (if 0 \<in> set b then Some (takeWhile (\<lambda>c. c \<noteq> 0) b) else None)"

definition strcpy_into :: "u8 list \<Rightarrow> u8 list \<Rightarrow> u8 list option" where
  "strcpy_into buf s = (if length s < length buf then Some (s @ 0 # drop (Suc (length s)) buf) else None)"


section \<open>Access to the drive\<close>

definition asvfs_get_meta_data :: "u32 \<Rightarrow> asvfs \<Rightarrow> asvfs_block_meta_data" where
  "asvfs_get_meta_data block_id s = meta_of (disk_read (61 + 96 * unat block_id) 96 (drive s))"

definition asvfs_write_meta_data :: "u32 \<Rightarrow> asvfs_block_meta_data \<Rightarrow> asvfs \<Rightarrow> asvfs" where
  "asvfs_write_meta_data block_id meta s =
     s\<lparr>drive := disk_write (61 + 96 * unat block_id) (meta_bytes meta) (drive s)\<rparr>"

definition asvfs_write_header :: "asvfs \<Rightarrow> asvfs" where
  "asvfs_write_header s = s\<lparr>drive := disk_write 0 (header_bytes (hdr s)) (drive s)\<rparr>"

definition asvfs_read_block :: "u32 \<Rightarrow> nat \<Rightarrow> asvfs \<Rightarrow> u8 list" where
  "asvfs_read_block block_id n s = disk_read (unat (block_id * 4096)) n (drive s)"

definition asvfs_write_block :: "u32 \<Rightarrow> u8 list \<Rightarrow> asvfs \<Rightarrow> asvfs" where
  "asvfs_write_block block_id data s =
     s\<lparr>drive := disk_write (unat (block_id * h_block_size (hdr s))) data (drive s)\<rparr>"

definition read_directory :: "u32 \<Rightarrow> asvfs \<Rightarrow> asvfs_block_directory" where
  "read_directory block_id s = dir_of (asvfs_read_block block_id 1064 s)"

text \<open>asvfs_initalize: a wrong magic is only logged.\<close>

definition asvfs_initalize :: "disk \<Rightarrow> (int \<times> asvfs \<times> asvfs_block_directory \<times> u8 list)" where
  "asvfs_initalize d = (let
     h = header_of (disk_read 0 61 d);
     s = \<lparr>drive = d, hdr = h\<rparr>;
     root_dir = read_directory (h_root_directory h) s;
     length_of_block_meta = h_block_count h * 96
     in (ASVFS_ERROR_NONE, s, root_dir, disk_read 61 (unat length_of_block_meta) d))"


section \<open>Lookup\<close>

record asvfs_dir_t_entry =
  de_name :: "u8 list"
  de_type :: u8
  de_block_id :: u32

text \<open>The entry of a directory for one of its indexes.\<close>

definition dir_entry_of :: "asvfs \<Rightarrow> u32 \<Rightarrow> asvfs_dir_t_entry option" where
  "dir_entry_of s block_id = (let meta = asvfs_get_meta_data block_id s in do {
     name \<leftarrow> cstr_of (m_name meta);
     Some \<lparr>de_name = name,
           de_type = (if m_block_type meta = BLOCK_TYPE_DIRECTORY then BLOCK_TYPE_DIRECTORY else BLOCK_TYPE_FILE),
           de_block_id = m_id meta\<rparr> })"

primrec dir_entries_of :: "asvfs \<Rightarrow> u32 list \<Rightarrow> asvfs_dir_t_entry list option" where
  "dir_entries_of s [] = Some []"
| "dir_entries_of s (b # bs) = do { e \<leftarrow> dir_entry_of s b; es \<leftarrow> dir_entries_of s bs; Some (e # es) }"

text \<open>
  asvfs_readdir: the entries in use of the array of 100, with the two for the
  directory itself and its parent in front; they keep the block id 0 of the
  cleared array. The result of the function is always 0.
\<close>

definition dot_entries :: "asvfs_dir_t_entry list" where
  "dot_entries = [\<lparr>de_name = [0x2E], de_type = 2, de_block_id = 0\<rparr>,
                  \<lparr>de_name = [0x2E, 0x2E], de_type = 2, de_block_id = 0\<rparr>]"

definition asvfs_readdir :: "u32 \<Rightarrow> asvfs \<Rightarrow> asvfs_dir_t_entry list option" where
  "asvfs_readdir block_id s = (let dir = read_directory block_id s in
     if d_type dir \<noteq> 2 then Some []
     else if unat (d_next_index dir) > 98 then None
     else do {
       es \<leftarrow> dir_entries_of s (take (unat (d_next_index dir)) (d_index dir));
       Some (dot_entries @ es) })"

primrec find_entry :: "asvfs_dir_t_entry list \<Rightarrow> u8 list \<Rightarrow> u32" where
  "find_entry [] name = 0"
| "find_entry (e # es) name = (if de_name e = name then de_block_id e else find_entry es name)"

definition asvfs_get_block_meta_from_dir :: "u32 \<Rightarrow> u8 list \<Rightarrow> asvfs \<Rightarrow> u32 option" where
  "asvfs_get_block_meta_from_dir dir_block_id name s = do {
     entries \<leftarrow> asvfs_readdir dir_block_id s;
     Some (find_entry entries name) }"

text \<open>The loop over the characters of the path and its NUL; name is an array of 256.\<close>

fun lookup_loop :: "u8 list \<Rightarrow> u8 list \<Rightarrow> u32 \<Rightarrow> asvfs \<Rightarrow> u32 option" where
  "lookup_loop [] name current s = Some current"
| "lookup_loop (c # cs) name current s =
     (if c \<noteq> slash \<and> c \<noteq> 0
      then if length name < 256 then lookup_loop cs (name @ [c]) current s else None
      else if name = [] then lookup_loop cs name current s
      else if 256 \<le> length name then None
      else do {
        b \<leftarrow> asvfs_get_block_meta_from_dir current name s;
        if b \<noteq> 0 then lookup_loop cs [] b s else Some 0 })"

definition asvfs_get_block_id_from_pathname :: "u8 list \<Rightarrow> asvfs \<Rightarrow> u32 option" where
  "asvfs_get_block_id_from_pathname pathname s =
     (if pathname = [slash] then Some (h_root_directory (hdr s))
      else lookup_loop (pathname @ [0]) [] (h_root_directory (hdr s)) s)"


section \<open>Attributes, reading and writing\<close>

record stat =
  st_mode :: nat
  st_size :: nat
  st_blksize :: nat
  st_blocks :: nat
  st_ino :: u32
  st_nlink :: nat
  st_uid :: nat
  st_gid :: nat

definition asvfs_getattr :: "u8 list \<Rightarrow> asvfs \<Rightarrow> (int \<times> stat option) option" where
  "asvfs_getattr pathname s = do {
     block_id \<leftarrow> asvfs_get_block_id_from_pathname pathname s;
     if block_id = 0 then Some (- 2, None)
     else do {
       let meta = asvfs_get_meta_data block_id s;
       let is_dir = (m_block_type meta = BLOCK_TYPE_DIRECTORY);
       Some (ASVFS_ERROR_NONE, Some
         \<lparr>st_mode = (if is_dir then 0x1FD + 0x4000 else 0x1B6 + 0x8000),
          st_size = (if is_dir then 4096 else unat (m_file_size meta)), st_blksize = 4096,
          st_blocks = unat (m_num_blocks meta) * 4096 div 512, st_ino = block_id,
          st_nlink = (if is_dir then 2 else 1), st_uid = 1000, st_gid = 1000\<rparr>) } }"

definition asvfs_open :: "u8 list \<Rightarrow> asvfs \<Rightarrow> int option" where
  "asvfs_open pathname s = do {
     block_id \<leftarrow> asvfs_get_block_id_from_pathname pathname s;
     Some (if block_id = 0 then ASVFS_ERROR_FILE_NOT_FOUND else ASVFS_ERROR_NONE) }"

text \<open>The result of the drive and the bytes in the buffer.\<close>

definition asvfs_read :: "u8 list \<Rightarrow> u64 \<Rightarrow> u32 \<Rightarrow> asvfs \<Rightarrow> (int \<times> u8 list) option" where
  "asvfs_read pathname n offset s = do {
     block_id \<leftarrow> asvfs_get_block_id_from_pathname pathname s;
     if block_id = 0 then Some (- 1, [])
     else do {
       let drive_offset = block_id * h_block_size (hdr s) + offset;
       Some (0, disk_read (unat drive_offset) (unat n) (drive s)) } }"

definition asvfs_read_file_block_id :: "u32 \<Rightarrow> u32 \<Rightarrow> u64 \<Rightarrow> asvfs \<Rightarrow> int \<times> u8 list" where
  "asvfs_read_file_block_id block_id offset n s =
     (if block_id = 0 then (0, [])
      else (0, disk_read (unat (block_id * h_block_size (hdr s) + offset)) (unat n) (drive s)))"

text \<open>The blocks copied when a file outgrows its own, and the new size.\<close>

primrec copy_blocks :: "nat \<Rightarrow> u32 \<Rightarrow> u32 \<Rightarrow> asvfs \<Rightarrow> asvfs" where
  "copy_blocks 0 from to s = s"
| "copy_blocks (Suc n) from to s =
     copy_blocks n (from + 1) (to + 1) (asvfs_write_block to (asvfs_read_block from 4096 s) s)"

definition blocks_needed :: "u32 \<Rightarrow> u32" where
  "blocks_needed file_size = file_size div 4096 + (if file_size mod 4096 \<noteq> 0 then 1 else 0)"

definition asvfs_truncate_file_block_id :: "u32 \<Rightarrow> u32 \<Rightarrow> asvfs \<Rightarrow> int \<times> asvfs" where
  "asvfs_truncate_file_block_id block_id n s = (let
     meta = (asvfs_get_meta_data block_id s)\<lparr>m_file_size := n\<rparr>;
     needed = blocks_needed (m_file_size meta);
     (meta, s) =
       (if m_file_size meta > 4096 \<and> needed > m_num_blocks meta then let
          start = h_next_free (hdr s);
          s = copy_blocks (unat (m_num_blocks meta)) (m_starting_block meta) start s;
          s = asvfs_write_header (s\<lparr>hdr := (hdr s)\<lparr>h_next_free := h_next_free (hdr s) + needed\<rparr>\<rparr>);
          meta = meta\<lparr>m_starting_block := start, m_num_blocks := needed\<rparr>
          in (meta, asvfs_write_meta_data block_id meta s)
        else (meta, s))
     in (ASVFS_ERROR_NONE, asvfs_write_meta_data block_id meta s))"

definition asvfs_truncate :: "u8 list \<Rightarrow> u32 \<Rightarrow> asvfs \<Rightarrow> (int \<times> asvfs) option" where
  "asvfs_truncate pathname n s = do {
     block_id \<leftarrow> asvfs_get_block_id_from_pathname pathname s;
     Some (if block_id = 0 then (ASVFS_ERROR_PATH_NOT_FOUND, s) else asvfs_truncate_file_block_id block_id n s) }"

definition asvfs_write_file_block_id :: "u32 \<Rightarrow> u8 list \<Rightarrow> u32 \<Rightarrow> u64 \<Rightarrow> asvfs \<Rightarrow> (int \<times> asvfs) option" where
  "asvfs_write_file_block_id block_id buff offset n s = (if length buff < unat n then None else do {
     let drive_offset = block_id * h_block_size (hdr s) + offset;
     let m = asvfs_get_meta_data block_id s;
     let (res_trunc, s) = (if ucast (m_file_size m) < (ucast offset + n :: u64)
                           then asvfs_truncate_file_block_id block_id (ucast (ucast offset + n :: u64)) s else (0, s));
     if res_trunc \<noteq> ASVFS_ERROR_NONE then Some (res_trunc, s)
     else Some (sint (ucast n :: u32), s\<lparr>drive := disk_write (unat drive_offset) (take (unat n) buff) (drive s)\<rparr>) })"

definition asvfs_write :: "u8 list \<Rightarrow> u8 list \<Rightarrow> u32 \<Rightarrow> u64 \<Rightarrow> asvfs \<Rightarrow> (int \<times> asvfs) option" where
  "asvfs_write pathname buff offset n s = do {
     block_id \<leftarrow> asvfs_get_block_id_from_pathname pathname s;
     if block_id = 0 then Some (0, s) else asvfs_write_file_block_id block_id buff offset n s }"


section \<open>Paths\<close>

text \<open>
  asvfs_get_path_parts: the loop over the characters and the NUL, with the
  element built so far and the parent. The arrays hold 256 and 1024 characters.
\<close>

fun parts_loop :: "u8 list \<Rightarrow> u8 list \<Rightarrow> u8 list \<Rightarrow> (u8 list \<times> u8 list) option" where
  "parts_loop [] name parent_dir = Some (parent_dir, [])"
| "parts_loop (c # cs) name parent_dir =
     (if c = slash \<or> c = 0 then
        (if name = [] then
           parts_loop cs name (case parent_dir of [] \<Rightarrow> [slash] | _ # r \<Rightarrow> slash # r)
         else if 256 \<le> length name then None
         else if cs = [] then Some (parent_dir, name)
         else let p = (if parent_dir \<noteq> [slash] then parent_dir @ [slash] else parent_dir) @ name in
           if length p < 1024 then parts_loop cs [] p else None)
      else if length name < 256 then parts_loop cs (name @ [c]) parent_dir else None)"

definition asvfs_get_path_parts :: "u8 list \<Rightarrow> (u8 list \<times> u8 list) option" where
  "asvfs_get_path_parts pathname = parts_loop (pathname @ [0]) [] []"


section \<open>Creation\<close>

definition add_index :: "u32 \<Rightarrow> asvfs_block_directory \<Rightarrow> asvfs_block_directory option" where
  "add_index block_id d = (if unat (d_next_index d) < 256
     then Some (d\<lparr>d_index := (d_index d)[unat (d_next_index d) := block_id], d_next_index := d_next_index d + 1\<rparr>)
     else None)"

definition asvfs_mknod :: "u8 list \<Rightarrow> u16 \<Rightarrow> asvfs \<Rightarrow> (int \<times> asvfs) option" where
  "asvfs_mknod pathname mode s = do {
     (parent_dir, file_name) \<leftarrow> asvfs_get_path_parts pathname;
     parent_block_id \<leftarrow> asvfs_get_block_id_from_pathname parent_dir s;
     if parent_block_id = 0 then Some (ASVFS_ERROR_PATH_NOT_FOUND, s)
     else if m_block_type (asvfs_get_meta_data parent_block_id s) \<noteq> BLOCK_TYPE_DIRECTORY
     then Some (ASVFS_ERROR_NOT_A_DIRECTORY, s)
     else do {
       let new_file_block_id = h_next_free (hdr s);
       let nf_meta = asvfs_get_meta_data new_file_block_id s;
       let parent_block = read_directory parent_block_id s;
       let s = s\<lparr>hdr := (hdr s)\<lparr>h_next_free := h_next_free (hdr s) + 1\<rparr>\<rparr>;
       parent_block \<leftarrow> add_index new_file_block_id parent_block;
       name \<leftarrow> strcpy_into (m_name nf_meta) file_name;
       let nf_meta = nf_meta\<lparr>m_in_use := 1, m_name := name, m_block_type := BLOCK_TYPE_FILE, m_permissions := mode\<rparr>;
       let s = asvfs_write_block parent_block_id (dir_bytes parent_block) s;
       let s = asvfs_write_meta_data new_file_block_id nf_meta s;
       Some (ASVFS_ERROR_NONE, asvfs_write_header s) } }"

definition asvfs_create :: "u8 list \<Rightarrow> u16 \<Rightarrow> asvfs \<Rightarrow> (int \<times> asvfs) option" where
  "asvfs_create pathname mode s = asvfs_mknod pathname mode s"

text \<open>junk is what the local new_dir_block holds before its two fields are set.\<close>

definition asvfs_mkdir :: "asvfs_block_directory \<Rightarrow> u8 list \<Rightarrow> u16 \<Rightarrow> asvfs \<Rightarrow> (int \<times> asvfs) option" where
  "asvfs_mkdir junk pathname mode s = do {
     (parent_dir, new_dir_name) \<leftarrow> asvfs_get_path_parts pathname;
     parent_block_id \<leftarrow> asvfs_get_block_id_from_pathname parent_dir s;
     if parent_block_id = 0 then Some (ASVFS_ERROR_PATH_NOT_FOUND, s)
     else if m_block_type (asvfs_get_meta_data parent_block_id s) \<noteq> BLOCK_TYPE_DIRECTORY
     then Some (ASVFS_ERROR_NOT_A_DIRECTORY, s)
     else do {
       let new_dir_block_id = h_next_free (hdr s);
       let nd_meta = asvfs_get_meta_data new_dir_block_id s;
       let parent_block = read_directory parent_block_id s;
       let s = s\<lparr>hdr := (hdr s)\<lparr>h_next_free := h_next_free (hdr s) + 1\<rparr>\<rparr>;
       parent_block \<leftarrow> add_index new_dir_block_id parent_block;
       name \<leftarrow> strcpy_into (m_name nd_meta) new_dir_name;
       let nd_meta = nd_meta\<lparr>m_in_use := 1, m_name := name, m_block_type := BLOCK_TYPE_DIRECTORY, m_permissions := mode\<rparr>;
       let new_dir_block = junk\<lparr>d_next_index := 0, d_type := 2\<rparr>;
       let s = asvfs_write_block parent_block_id (dir_bytes parent_block) s;
       let s = asvfs_write_block new_dir_block_id (dir_bytes new_dir_block) s;
       let s = asvfs_write_meta_data new_dir_block_id nd_meta s;
       Some (ASVFS_ERROR_NONE, asvfs_write_header s) } }"


section \<open>Removal, mode and renaming\<close>

text \<open>The loop of asvfs_unlink from index i on, n steps to go; count is next_index.\<close>

primrec unlink_loop :: "nat \<Rightarrow> nat \<Rightarrow> nat \<Rightarrow> u32 \<Rightarrow> bool \<Rightarrow> u32 list \<Rightarrow> u32 list option" where
  "unlink_loop 0 i count child use_next index = Some index"
| "unlink_loop (Suc n) i count child use_next index = (if \<not> i < length index then None else let
     use_next = (use_next \<or> index ! i = child);
     index = (if use_next then
                index[i := (if i + 1 \<ge> 256 then 0 else if i = count - 1 then 0 else index ! (i + 1))]
              else index)
     in unlink_loop n (i + 1) count child use_next index)"

definition remove_index :: "u32 \<Rightarrow> asvfs_block_directory \<Rightarrow> asvfs_block_directory option" where
  "remove_index child d = do {
     index \<leftarrow> unlink_loop (unat (d_next_index d)) 0 (unat (d_next_index d)) child False (d_index d);
     Some (d\<lparr>d_index := index,
             d_next_index := (if d_next_index d \<noteq> 0 then d_next_index d - 1 else d_next_index d)\<rparr>) }"

definition asvfs_unlink :: "u8 list \<Rightarrow> asvfs \<Rightarrow> (int \<times> asvfs) option" where
  "asvfs_unlink pathname s = do {
     (parent_dir, child_name) \<leftarrow> asvfs_get_path_parts pathname;
     parent_block_id \<leftarrow> asvfs_get_block_id_from_pathname parent_dir s;
     if parent_block_id = 0 then Some (ASVFS_ERROR_PATH_NOT_FOUND, s)
     else do {
       let parent_block = read_directory parent_block_id s;
       child_block_id \<leftarrow> asvfs_get_block_id_from_pathname pathname s;
       if child_block_id = 0 then Some (ASVFS_ERROR_PATH_NOT_FOUND, s)
       else do {
         parent_block \<leftarrow> remove_index child_block_id parent_block;
         Some (ASVFS_ERROR_NONE, asvfs_write_block parent_block_id (dir_bytes parent_block) s) } } }"

definition asvfs_chmod :: "u8 list \<Rightarrow> u16 \<Rightarrow> asvfs \<Rightarrow> (int \<times> asvfs) option" where
  "asvfs_chmod pathname mode s = do {
     block_id \<leftarrow> asvfs_get_block_id_from_pathname pathname s;
     Some (if block_id = 0 then (ASVFS_ERROR_PATH_NOT_FOUND, s)
       else (ASVFS_ERROR_NONE,
         asvfs_write_meta_data block_id ((asvfs_get_meta_data block_id s)\<lparr>m_permissions := mode\<rparr>) s)) }"

definition set_name :: "u32 \<Rightarrow> u8 list \<Rightarrow> asvfs \<Rightarrow> asvfs option" where
  "set_name block_id file_name s = (let meta = asvfs_get_meta_data block_id s in do {
     name \<leftarrow> strcpy_into (m_name meta) file_name;
     Some (asvfs_write_meta_data block_id (meta\<lparr>m_name := name\<rparr>) s) })"

definition asvfs_rename :: "u8 list \<Rightarrow> u8 list \<Rightarrow> asvfs \<Rightarrow> (int \<times> asvfs) option" where
  "asvfs_rename from to s = do {
     (from_parent_name, from_child_name) \<leftarrow> asvfs_get_path_parts from;
     (to_parent_name, to_child_name) \<leftarrow> asvfs_get_path_parts to;
     from_path_block_id \<leftarrow> asvfs_get_block_id_from_pathname from_parent_name s;
     if from_path_block_id = 0 then Some (ASVFS_ERROR_PATH_NOT_FOUND, s) else do {
     to_path_block_id \<leftarrow> asvfs_get_block_id_from_pathname to_parent_name s;
     if to_path_block_id = 0 then Some (ASVFS_ERROR_PATH_NOT_FOUND, s) else do {
     from_pathname_block_id \<leftarrow> asvfs_get_block_id_from_pathname from s;
     if from_pathname_block_id = 0 then Some (ASVFS_ERROR_PATH_NOT_FOUND, s)
     else if from_path_block_id = to_path_block_id then do {
       s \<leftarrow> set_name from_pathname_block_id to_child_name s;
       Some (ASVFS_ERROR_NONE, s) }
     else do {
       (_, s) \<leftarrow> asvfs_unlink from s;
       new_parent_dir \<leftarrow> add_index from_pathname_block_id (read_directory to_path_block_id s);
       let s = asvfs_write_block to_path_block_id (dir_bytes new_parent_dir) s;
       s \<leftarrow> (if from_child_name \<noteq> to_child_name then set_name from_pathname_block_id to_child_name s else Some s);
       Some (ASVFS_ERROR_NONE, s) } } } }"

end
