(* ===== verification/Ksyms.thy ===== *)
theory Ksyms
  imports KPrelude
begin

text \<open>
  The symbol table of the kernel (kernel/support/ksymbols.c): the array of
  symbols with its fill level, insertion, and the lookups by name and by address.
  A name is the list of its characters before the NUL; a pointer into the array
  is the index of the symbol. An index outside the array is None.
\<close>

record symbol =
  sym_name :: "u8 list"
  sym_addr :: u64
  sym_size :: u64
  sym_count :: u64
  sym_start :: u64
  sym_time :: u64

record symbol_collection =
  top :: u64
  symbols :: "symbol list"

definition symbols_add :: "u8 list \<Rightarrow> u64 \<Rightarrow> u64 \<Rightarrow> symbol_collection \<Rightarrow> symbol_collection option" where
  "symbols_add name a sz syms = (let i = unat (top syms) in
     if i < length (symbols syms)
     then Some (syms\<lparr>symbols := (symbols syms)[i := (symbols syms ! i)\<lparr>sym_name := name, sym_addr := a, sym_size := sz\<rparr>],
                     top := top syms + 1\<rparr>)
     else None)"

text \<open>The loop over the symbols below top: the last match stays.\<close>

primrec get_symbol_loop :: "nat list \<Rightarrow> u8 list \<Rightarrow> symbol list \<Rightarrow> nat option \<Rightarrow> nat option option" where
  "get_symbol_loop [] name xs ret = Some ret"
| "get_symbol_loop (i # is) name xs ret =
     (if \<not> i < length xs then None
      else if sym_name (xs ! i) = [] then get_symbol_loop is name xs ret
      else if sym_name (xs ! i) = name then get_symbol_loop is name xs (Some i)
      else get_symbol_loop is name xs ret)"

definition symbols_get_symbol :: "u8 list \<Rightarrow> symbol_collection \<Rightarrow> nat option option" where
  "symbols_get_symbol name syms = get_symbol_loop [0..<unat (top syms)] name (symbols syms) None"

definition symbols_get_symbol_addr :: "u8 list \<Rightarrow> symbol_collection \<Rightarrow> u64 option" where
  "symbols_get_symbol_addr name syms = do {
     sym \<leftarrow> symbols_get_symbol name syms;
     Some (case sym of None \<Rightarrow> 0 | Some i \<Rightarrow> sym_addr (symbols syms ! i)) }"

text \<open>The name that contains an address; None is the text for no symbol.\<close>

primrec name_at_loop :: "symbol list \<Rightarrow> u64 \<Rightarrow> u8 list option \<Rightarrow> u8 list option" where
  "name_at_loop [] a ret = ret"
| "name_at_loop (x # xs) a ret =
     (if sym_size x = 0 then name_at_loop xs a ret
      else if a \<ge> sym_addr x \<and> a < sym_addr x + sym_size x then name_at_loop xs a (Some (sym_name x))
      else name_at_loop xs a ret)"

definition symbols_get_function_name_at :: "u64 \<Rightarrow> symbol_collection \<Rightarrow> u8 list option" where
  "symbols_get_function_name_at a syms = name_at_loop (symbols syms) a None"

text \<open>The three updates of the first symbol at an address.\<close>

primrec first_at :: "nat list \<Rightarrow> u64 \<Rightarrow> symbol list \<Rightarrow> nat option option" where
  "first_at [] a xs = Some None"
| "first_at (i # is) a xs = (if \<not> i < length xs then None
     else if sym_addr (xs ! i) = a then Some (Some i) else first_at is a xs)"

definition update_first_at :: "(symbol \<Rightarrow> symbol) \<Rightarrow> u64 \<Rightarrow> symbol_collection \<Rightarrow> symbol_collection option" where
  "update_first_at f a syms = do {
     r \<leftarrow> first_at [0..<unat (top syms)] a (symbols syms);
     Some (case r of None \<Rightarrow> syms | Some i \<Rightarrow> syms\<lparr>symbols := (symbols syms)[i := f (symbols syms ! i)]\<rparr>) }"

definition kernel_symbols_inc_count :: "u64 \<Rightarrow> symbol_collection \<Rightarrow> symbol_collection option" where
  "kernel_symbols_inc_count a = update_first_at (\<lambda>x. x\<lparr>sym_count := sym_count x + 1\<rparr>) a"

definition kernel_symbols_set_start :: "u64 \<Rightarrow> u64 \<Rightarrow> symbol_collection \<Rightarrow> symbol_collection option" where
  "kernel_symbols_set_start a n = update_first_at (\<lambda>x. x\<lparr>sym_start := n\<rparr>) a"

definition kernel_symbols_set_time :: "u64 \<Rightarrow> u64 \<Rightarrow> symbol_collection \<Rightarrow> symbol_collection option" where
  "kernel_symbols_set_time a n =
     update_first_at (\<lambda>x. x\<lparr>sym_time := sym_time x + (n - sym_start x), sym_start := 0\<rparr>) a"


section \<open>The table that a list of symbols fills\<close>

definition add_all :: "(u8 list \<times> u64 \<times> u64) list \<Rightarrow> symbol_collection \<Rightarrow> symbol_collection option" where
  "add_all xs syms = foldl (\<lambda>s (n, a, z). s \<bind> symbols_add n a z) (Some syms) xs"

lemma get_symbol_loop_append:
  "get_symbol_loop (is @ js) n xs r = get_symbol_loop is n xs r \<bind> get_symbol_loop js n xs"
  by (induction "is" arbitrary: r) auto

lemma get_symbol_loop_update:
  "i \<notin> set is \<Longrightarrow> get_symbol_loop is n (xs[i := v]) r = get_symbol_loop is n xs r"
  by (induction "is" arbitrary: r) auto

lemma get_symbol_loop_some:
  "\<forall>i\<in>set is. i < length xs \<Longrightarrow> \<exists>r'. get_symbol_loop is n xs r = Some r' \<and> (r' = r \<or> (\<exists>i\<in>set is. r' = Some i))"
proof (induction "is" arbitrary: r)
  case (Cons a "is")
  from Cons.IH [of r] Cons.IH [of "Some a"] Cons.prems show ?case by auto
qed simp

text \<open>The table as a map from names to the addresses of their last symbols.\<close>

definition name_map :: "symbol_collection \<Rightarrow> u8 list \<Rightarrow> u64 option" where
  "name_map syms n = (case symbols_get_symbol n syms of
     Some (Some i) \<Rightarrow> Some (sym_addr (symbols syms ! i)) | _ \<Rightarrow> None)"

definition syms_ok :: "symbol_collection \<Rightarrow> bool" where
  "syms_ok syms \<longleftrightarrow> unat (top syms) \<le> length (symbols syms) \<and> length (symbols syms) < 18446744073709551615"

lemma syms_ok_get: "syms_ok syms \<Longrightarrow> \<exists>r. symbols_get_symbol n syms = Some r \<and> (\<forall>i. r = Some i \<longrightarrow> i < unat (top syms))"
  using get_symbol_loop_some [of "[0..<unat (top syms)]" "symbols syms" n None]
  by (auto simp: symbols_get_symbol_def syms_ok_def)

lemma symbols_add_refines:
  assumes ok: "syms_ok syms" and room: "unat (top syms) < length (symbols syms)" and n: "n \<noteq> []"
  shows "\<exists>syms'. symbols_add n a z syms = Some syms' \<and> syms_ok syms' \<and> name_map syms' = (name_map syms)(n \<mapsto> a)
    \<and> unat (top syms') = Suc (unat (top syms)) \<and> length (symbols syms') = length (symbols syms)"
proof -
  let ?i = "unat (top syms)"
  let ?xs = "(symbols syms)[?i := (symbols syms ! ?i)\<lparr>sym_name := n, sym_addr := a, sym_size := z\<rparr>]"
  let ?syms' = "syms\<lparr>symbols := ?xs, top := top syms + 1\<rparr>"
  have t: "unat (top syms + 1) = Suc ?i"
    using ok room by (simp add: syms_ok_def unat_word_ariths)
  have get: "symbols_get_symbol m ?syms' = symbols_get_symbol m syms \<bind> (\<lambda>r. Some (if m = n then Some ?i else r))" for m
  proof -
    have "get_symbol_loop [0..<?i] m ?xs None = symbols_get_symbol m syms"
      by (simp add: get_symbol_loop_update symbols_get_symbol_def)
    then show ?thesis using room n
      by (cases "symbols_get_symbol m syms") (simp_all add: symbols_get_symbol_def t get_symbol_loop_append)
  qed
  have "name_map ?syms' m = ((name_map syms)(n \<mapsto> a)) m" for m
  proof -
    obtain r where r: "symbols_get_symbol m syms = Some r" "\<forall>i. r = Some i \<longrightarrow> i < ?i" using syms_ok_get [OF ok] by blast
    show ?thesis using r room by (cases "m = n"; cases r) (auto simp: name_map_def get)
  qed
  then show ?thesis using ok room t
    by (intro exI [of _ ?syms']) (auto simp: symbols_add_def syms_ok_def Let_def)
qed

lemma add_all_refines:
  assumes "syms_ok syms" "unat (top syms) + length xs \<le> length (symbols syms)" "\<forall>(n, a, z)\<in>set xs. n \<noteq> []"
  shows "\<exists>syms'. add_all xs syms = Some syms' \<and> syms_ok syms'
    \<and> name_map syms' = name_map syms ++ map_of (rev (map (\<lambda>(n, a, z). (n, a)) xs))"
  using assms
proof (induction xs arbitrary: syms)
  case Nil
  then show ?case by (simp add: add_all_def)
next
  case (Cons x xs)
  obtain n a z where x: "x = (n, a, z)" by (cases x)
  obtain s1 where s1: "symbols_add n a z syms = Some s1" "syms_ok s1" "name_map s1 = (name_map syms)(n \<mapsto> a)"
      "unat (top s1) = Suc (unat (top syms))" "length (symbols s1) = length (symbols syms)"
    using symbols_add_refines [of syms n a z] Cons.prems x by auto
  have "unat (top s1) + length xs \<le> length (symbols s1)" "\<forall>(n, a, z)\<in>set xs. n \<noteq> []"
    using Cons.prems s1 by auto
  from Cons.IH [OF s1(2) this] show ?case
    using s1 x by (auto simp: add_all_def map_add_assoc simp del: fun_upd_apply)
qed

end
