(* ===== verification/Vfs.thy ===== *)
theory Vfs
  imports Asvfs Ksyms
begin

text \<open>
  The virtual file system (kernel/fs/vfs.c, the part before the descriptors),
  the device list (kernel/devices/device.c) and the file system in memory
  (kernel/fs/rfs.c), with the boot order of kernel/fs/fs.c and
  kernel/fs/asvfs_vios.c. The lists hold what the AVS lists hold, in their
  order; a pointer to a registered file system is its position. A buffer is the
  list of its bytes. kmalloc succeeds; what fresh memory and local arrays hold
  before they are written is part of the state. A char array that is too short,
  a call through a pointer that was never set, and a dereference of NULL are
  None. Log messages are left out.
\<close>

text \<open>memcpy of bs to an offset in a buffer.\<close>

definition buf_write :: "nat \<Rightarrow> u8 list \<Rightarrow> u8 list \<Rightarrow> u8 list option" where
  "buf_write off bs buf = (if off + length bs \<le> length buf
     then Some (take off buf @ bs @ drop (off + length bs) buf) else None)"

text \<open>The value of a size returned as an int.\<close>

definition int_of_size :: "u64 \<Rightarrow> int" where
  "int_of_size n = sint (ucast n :: u32)"


section \<open>File systems, mount points and devices\<close>

record file_stats = stat +
  st_type :: u8

text \<open>
  The functions a file system registers, over the state 's of all of them. The
  third and fourth arguments of read and write have the types of the table,
  size_t and off_t, in the order of the registers they travel in. get_dir_list
  is never called through the table.
\<close>

record 's vfs_operations =
  op_create :: "u8 list \<Rightarrow> u32 \<Rightarrow> 's \<Rightarrow> (int \<times> 's) option"
  op_read :: "u8 list \<Rightarrow> u8 list \<Rightarrow> u64 \<Rightarrow> u32 \<Rightarrow> 's \<Rightarrow> (int \<times> u8 list) option"
  op_write :: "u8 list \<Rightarrow> u8 list \<Rightarrow> u64 \<Rightarrow> u32 \<Rightarrow> 's \<Rightarrow> (int \<times> 's) option"
  op_getattr :: "u8 list \<Rightarrow> file_stats \<Rightarrow> 's \<Rightarrow> (int \<times> file_stats) option"
  op_open :: "u8 list \<Rightarrow> 's \<Rightarrow> int option"

record 's vfs_filesystem =
  fs_name :: "u8 list"
  fs_type :: u8
  fs_drive_id :: int
  fs_op :: "'s vfs_operations"

record vfs_mount_point =
  mp_fs_type :: "u8 list"
  mp_root :: "u8 list"
  mp_drive_id :: int
  mp_fs :: "nat option"

record 's device =
  major_id :: "u8 list"
  minor_id :: "u8 list"
  dev_read :: "u64 \<Rightarrow> u8 list \<Rightarrow> u64 \<Rightarrow> u64 \<Rightarrow> 's \<Rightarrow> (int \<times> u8 list \<times> 's) option"
  dev_write :: "u64 \<Rightarrow> u8 list \<Rightarrow> u64 \<Rightarrow> u64 \<Rightarrow> 's \<Rightarrow> (int \<times> 's) option"

text \<open>device_data is what the local of this name holds before it is written.\<close>

record 's vfs =
  file_systems :: "'s vfs_filesystem list"
  mount_points :: "vfs_mount_point list"
  device_list :: "'s device list"
  device_data :: "u8 list"

definition vfs_initalize :: "'s vfs \<Rightarrow> int \<times> 's vfs" where
  "vfs_initalize v = (0, v\<lparr>file_systems := [], mount_points := []\<rparr>)"

definition vfs_register_fs ::
    "u8 list \<Rightarrow> 's vfs_operations \<Rightarrow> 's vfs_filesystem \<Rightarrow> 's vfs \<Rightarrow> (nat \<times> 's vfs) option" where
  "vfs_register_fs name ops fs v = (if length name < 50
     then Some (length (file_systems v), v\<lparr>file_systems := file_systems v @ [fs\<lparr>fs_name := name, fs_op := ops\<rparr>]\<rparr>)
     else None)"

primrec position :: "('a \<Rightarrow> bool) \<Rightarrow> 'a list \<Rightarrow> nat option" where
  "position P [] = None"
| "position P (x # xs) = (if P x then Some 0 else map_option Suc (position P xs))"

text \<open>A mount point of an unknown file system keeps the pointer kmalloc left in it: None.\<close>

definition vfs_mount :: "u8 list \<Rightarrow> u8 list \<Rightarrow> int \<Rightarrow> 's vfs \<Rightarrow> 's vfs option" where
  "vfs_mount fs_t mount_path drive_id v = (if length fs_t < 50 \<and> length mount_path < 255
     then Some (v\<lparr>mount_points := mount_points v @
       [\<lparr>mp_fs_type = fs_t, mp_root = mount_path, mp_drive_id = drive_id,
         mp_fs = position (\<lambda>f. fs_t = fs_name f) (file_systems v)\<rparr>]\<rparr>)
     else None)"

text \<open>
  The elements of a path, as the first loop of vfs_get_mount_point_from_path
  leaves them: first tells whether path_index is 0, name is the element so far.
\<close>

fun path_elements :: "bool \<Rightarrow> u8 list \<Rightarrow> u8 list \<Rightarrow> u8 list list" where
  "path_elements first name [] = [if first then [slash] else name]"
| "path_elements first name (c # cs) =
     (if c = slash then (if first then [slash] else name) # (if cs = [] then [] else path_elements False [] cs)
      else path_elements False (name @ [c]) cs)"

definition find_mount :: "vfs_mount_point list \<Rightarrow> u8 list \<Rightarrow> vfs_mount_point option" where
  "find_mount ms path = List.find (\<lambda>m. path = mp_root m) ms"

text \<open>The second loop; the result Some None is NULL.\<close>

fun mount_walk :: "vfs_mount_point list \<Rightarrow> bool \<Rightarrow> u8 list \<Rightarrow> u8 list list \<Rightarrow> vfs_mount_point option \<Rightarrow> vfs_mount_point option option" where
  "mount_walk ms first path rest far =
     (if 255 \<le> length path then None
      else if first \<and> take 1 path = [slash] \<and> find_mount ms [slash] = None then Some None
      else let far = (if first \<and> take 1 path = [slash] then find_mount ms [slash]
                      else case find_mount ms path of None \<Rightarrow> far | Some m \<Rightarrow> Some m) in
        case rest of [] \<Rightarrow> Some far
        | e # es \<Rightarrow> mount_walk ms False ((if first then path else path @ [slash]) @ e) es far)"

declare mount_walk.simps [simp del]

definition vfs_get_mount_point_from_path :: "u8 list \<Rightarrow> 's vfs \<Rightarrow> vfs_mount_point option option" where
  "vfs_get_mount_point_from_path pathname v = (let es = path_elements True [] pathname in
     if length es \<le> 25 \<and> (\<forall>e\<in>set es. length e < 256)
     then mount_walk (mount_points v) True (hd es) (tl es) None else None)"

definition fs_of :: "vfs_mount_point \<Rightarrow> 's vfs \<Rightarrow> 's vfs_filesystem option" where
  "fs_of mp v = (case mp_fs mp of None \<Rightarrow> None
     | Some i \<Rightarrow> if i < length (file_systems v) then Some (file_systems v ! i) else None)"


section \<open>Devices\<close>

definition device_register :: "'s device \<Rightarrow> 's vfs \<Rightarrow> 's vfs" where
  "device_register d v = v\<lparr>device_list := device_list v @ [d]\<rparr>"

text \<open>The list is not tested for being empty before its head is read; Some None is NULL.\<close>

definition device_get_major_minor_device :: "u8 list \<Rightarrow> u8 list \<Rightarrow> 's vfs \<Rightarrow> 's device option option" where
  "device_get_major_minor_device major minor v = (if device_list v = [] then None
     else Some (List.find (\<lambda>d. major_id d = major \<and> minor_id d = minor) (device_list v)))"


section \<open>Operations\<close>

definition vfs_create :: "u8 list \<Rightarrow> u32 \<Rightarrow> 's vfs \<Rightarrow> 's \<Rightarrow> (int \<times> 's) option" where
  "vfs_create pathname mode v s = do {
     mp \<leftarrow> vfs_get_mount_point_from_path pathname v;
     case mp of None \<Rightarrow> Some (-1, s)
     | Some mp \<Rightarrow> do { fs \<leftarrow> fs_of mp v; op_create (fs_op fs) pathname mode s } }"

definition zero_stats :: file_stats where
  "zero_stats = \<lparr>st_mode = 0, st_size = 0, st_blksize = 0, st_blocks = 0, st_ino = 0, st_nlink = 0,
     st_uid = 0, st_gid = 0, st_type = 0\<rparr>"

abbreviation (input) VFS_INODE_TYPE_FILE :: u32 where "VFS_INODE_TYPE_FILE \<equiv> 1"
abbreviation (input) VFS_INODE_TYPE_DIR :: u32 where "VFS_INODE_TYPE_DIR \<equiv> 2"
abbreviation (input) VFS_INODE_TYPE_DEVICE :: u32 where "VFS_INODE_TYPE_DEVICE \<equiv> 3"

text \<open>
  The hook of devices. The offset and the length travel to the file system in
  the registers of a size_t and an off_t.
\<close>

definition vfs_write :: "u8 list \<Rightarrow> u8 list \<Rightarrow> u32 \<Rightarrow> u64 \<Rightarrow> 's vfs \<Rightarrow> 's \<Rightarrow> (int \<times> 's) option" where
  "vfs_write pathname buff offset len v s = do {
     mp \<leftarrow> vfs_get_mount_point_from_path pathname v;
     case mp of None \<Rightarrow> Some (-1, s)
     | Some mp \<Rightarrow> do {
         fs \<leftarrow> fs_of mp v;
         (_, stats) \<leftarrow> op_getattr (fs_op fs) pathname zero_stats s;
         if st_type stats = 3 then do {
           (_, data) \<leftarrow> op_read (fs_op fs) pathname (device_data v) 0 50 s;
           major \<leftarrow> cstr_of data;
           minor \<leftarrow> cstr_of (drop 25 data);
           dev \<leftarrow> device_get_major_minor_device major minor v;
           d \<leftarrow> dev;
           dev_write d 0 buff len (ucast offset) s }
         else op_write (fs_op fs) pathname buff (ucast offset) (ucast len) s } }"

definition vfs_write_device_meta :: "u8 list \<Rightarrow> u8 list \<Rightarrow> u8 list \<Rightarrow> 's vfs \<Rightarrow> 's \<Rightarrow> (int \<times> 's) option" where
  "vfs_write_device_meta pathname major minor v s = do {
     mp \<leftarrow> vfs_get_mount_point_from_path pathname v;
     case mp of None \<Rightarrow> Some (-1, s)
     | Some mp \<Rightarrow> do {
         ma \<leftarrow> strcpy_into (take 25 (device_data v)) major;
         mi \<leftarrow> strcpy_into (drop 25 (device_data v)) minor;
         fs \<leftarrow> fs_of mp v;
         op_write (fs_op fs) pathname (ma @ mi) 0 50 s } }"

definition vfs_read :: "u8 list \<Rightarrow> u8 list \<Rightarrow> u64 \<Rightarrow> u32 \<Rightarrow> 's vfs \<Rightarrow> 's \<Rightarrow> (int \<times> u8 list) option" where
  "vfs_read pathname buff sz offset v s = do {
     mp \<leftarrow> vfs_get_mount_point_from_path pathname v;
     case mp of None \<Rightarrow> Some (-1, buff)
     | Some mp \<Rightarrow> do { fs \<leftarrow> fs_of mp v; op_read (fs_op fs) pathname buff sz offset s } }"


section \<open>Device files\<close>

text \<open>device_list_populate_for_each_callback: /dev/ and the two names, the second unless it begins with 0.\<close>

definition device_path :: "'s device \<Rightarrow> u8 list option" where
  "device_path d = (let name = major_id d @ (if take 1 (minor_id d) = [0x30] then [] else minor_id d) in
     if length (major_id d) < 50 \<and> length name < 50
     then Some ([slash, 0x64, 0x65, 0x76, slash] @ name) else None)"

definition device_populate :: "'s vfs \<Rightarrow> 's device \<Rightarrow> 's \<Rightarrow> 's option" where
  "device_populate v d s = do {
     pathname \<leftarrow> device_path d;
     (_, s) \<leftarrow> vfs_create pathname VFS_INODE_TYPE_DEVICE v s;
     (_, s) \<leftarrow> vfs_write_device_meta pathname (major_id d) (minor_id d) v s;
     Some s }"

primrec populate_all :: "'s vfs \<Rightarrow> 's device list \<Rightarrow> 's \<Rightarrow> 's option" where
  "populate_all v [] s = Some s"
| "populate_all v (d # ds) s = do { s \<leftarrow> device_populate v d s; populate_all v ds s }"

definition devices_populate_fs :: "'s vfs \<Rightarrow> 's \<Rightarrow> 's option" where
  "devices_populate_fs v s = populate_all v (device_list v) s"

text \<open>
  device_initalize: every function of the symbol table whose name begins with
  device_register_ is called; code is what the function at an address does.
\<close>

definition device_registerfunc_ident :: "u8 list" where
  "device_registerfunc_ident =
     [0x64, 0x65, 0x76, 0x69, 0x63, 0x65, 0x5F, 0x72, 0x65, 0x67, 0x69, 0x73, 0x74, 0x65, 0x72, 0x5F]"

primrec register_loop :: "nat list \<Rightarrow> symbol list \<Rightarrow> (u64 \<Rightarrow> 'x \<Rightarrow> 'x option) \<Rightarrow> 'x \<Rightarrow> 'x option" where
  "register_loop [] syms code x = Some x"
| "register_loop (i # is) syms code x =
     (if \<not> i < length syms then None
      else if take 16 (sym_name (syms ! i)) = device_registerfunc_ident
      then do { x \<leftarrow> code (sym_addr (syms ! i)) x; register_loop is syms code x }
      else register_loop is syms code x)"

definition device_initalize ::
    "symbol_collection \<Rightarrow> (u64 \<Rightarrow> 's vfs \<times> 's \<Rightarrow> ('s vfs \<times> 's) option) \<Rightarrow> 's vfs \<times> 's \<Rightarrow> ('s vfs \<times> 's) option" where
  "device_initalize ksyms code x = (case x of (v, s) \<Rightarrow>
     register_loop [0..<unat (top ksyms)] (symbols ksyms) code (v\<lparr>device_list := []\<rparr>, s))"

end
