(* ===== verification/Rfs.thy ===== *)
theory Rfs
  imports Vfs
begin

text \<open>
  The file system in memory (kernel/fs/rfs.c), the tables of operations of the
  two file systems, and the boot of the file system (kernel/fs/fs.c,
  asvfs_vios_init of kernel/fs/asvfs_vios.c), with the directory calls of vfs.c,
  which go to ASVFS whatever is mounted.
\<close>

section \<open>Files in memory\<close>

abbreviation (input) RFS_FILE_TYPE_DIR :: u8 where "RFS_FILE_TYPE_DIR \<equiv> 0"
abbreviation (input) RFS_FILE_TYPE_FILE :: u8 where "RFS_FILE_TYPE_FILE \<equiv> 1"
abbreviation (input) RFS_FILE_TYPE_DEVICE :: u8 where "RFS_FILE_TYPE_DEVICE \<equiv> 3"

abbreviation (input) VFS_ERROR_FILE_NOT_FOUND :: int where "VFS_ERROR_FILE_NOT_FOUND \<equiv> - 8"

text \<open>
  The data are None while the pointer has not been set. The list of a directory
  is written by rfs_create and never read. fresh is what new memory holds.
\<close>

record rfs_file =
  rf_type :: u8
  rf_pathname :: "u8 list"
  rf_data :: "u8 list option"
  rf_size :: u64

record rfs =
  rfs_file_objs :: "rfs_file list"
  fresh :: "nat \<Rightarrow> u8"

definition rfs_lookup_by_pathname :: "u8 list \<Rightarrow> rfs \<Rightarrow> nat option" where
  "rfs_lookup_by_pathname pathname r = position (\<lambda>f. pathname = rf_pathname f) (rfs_file_objs r)"

definition rfs_getattr :: "u8 list \<Rightarrow> file_stats \<Rightarrow> rfs \<Rightarrow> int \<times> file_stats" where
  "rfs_getattr pathname stbuff r = (case rfs_lookup_by_pathname pathname r of
     None \<Rightarrow> (VFS_ERROR_FILE_NOT_FOUND, stbuff)
   | Some i \<Rightarrow> let f = rfs_file_objs r ! i in
       (0, stbuff\<lparr>st_size := unat (ucast (rf_size f) :: u32), st_type := rf_type f\<rparr>))"

definition rfs_create :: "u8 list \<Rightarrow> u32 \<Rightarrow> rfs \<Rightarrow> (int \<times> rfs) option" where
  "rfs_create pathname mode r = (if length pathname < 1024 then
     Some (0, r\<lparr>rfs_file_objs := rfs_file_objs r @
       [\<lparr>rf_type = (if mode = VFS_INODE_TYPE_DIR then RFS_FILE_TYPE_DIR
                    else if mode = VFS_INODE_TYPE_FILE then RFS_FILE_TYPE_FILE
                    else if mode = VFS_INODE_TYPE_DEVICE then RFS_FILE_TYPE_DEVICE
                    else fresh r 0),
         rf_pathname = pathname, rf_data = None, rf_size = 0\<rparr>]\<rparr>)
   else None)"

definition rfs_read :: "u8 list \<Rightarrow> u8 list \<Rightarrow> u32 \<Rightarrow> u64 \<Rightarrow> rfs \<Rightarrow> (int \<times> u8 list) option" where
  "rfs_read pathname buf offset len r = (case rfs_lookup_by_pathname pathname r of
     None \<Rightarrow> Some (VFS_ERROR_FILE_NOT_FOUND, buf)
   | Some i \<Rightarrow> do {
       bytes \<leftarrow> (if len = 0 then Some [] else do {
         data \<leftarrow> rf_data (rfs_file_objs r ! i);
         if unat len \<le> length data then Some (take (unat len) data) else None });
       buf \<leftarrow> buf_write (unat (ucast offset :: u8)) bytes buf;
       Some (int_of_size len, buf) })"

definition krealloc :: "nat \<Rightarrow> u8 list \<Rightarrow> (nat \<Rightarrow> u8) \<Rightarrow> u8 list" where
  "krealloc n data new = take n data @ map new [length data..<n]"

text \<open>The first write allocates, a longer range reallocates; the recorded size stays that of the first write.\<close>

definition rfs_write :: "u8 list \<Rightarrow> u8 list \<Rightarrow> u32 \<Rightarrow> u64 \<Rightarrow> rfs \<Rightarrow> (int \<times> rfs) option" where
  "rfs_write pathname buff offset sz r = (case rfs_lookup_by_pathname pathname r of
     None \<Rightarrow> Some (VFS_ERROR_FILE_NOT_FOUND, r)
   | Some i \<Rightarrow> let
       f = rfs_file_objs r ! i;
       f = (if rf_size f = 0 then f\<lparr>rf_data := Some (map (fresh r) [0..<unat sz]), rf_size := sz\<rparr> else f);
       space_to_realloc = (if rf_size f < ucast offset + sz then sz + ucast offset else 0)
       in do {
         data \<leftarrow> rf_data f;
         let data = (if space_to_realloc \<noteq> 0 then krealloc (unat space_to_realloc) data (fresh r) else data);
         if length buff < unat sz then None else do {
           data \<leftarrow> buf_write (unat (ucast offset :: u8)) (take (unat sz) buff) data;
           Some (int_of_size sz, r\<lparr>rfs_file_objs := (rfs_file_objs r)[i := f\<lparr>rf_data := Some data\<rparr>]\<rparr>) } })"


section \<open>The tables of operations\<close>

record kfs =
  kasvfs :: asvfs
  krfs :: rfs

text \<open>
  asvfs_getattr does not set the type. asvfs_read is registered with the table's
  order of size and offset; the two writes and rfs_read take the offset first.
\<close>

definition asvfs_vfs_ops :: "'x kfs_scheme vfs_operations" where
  "asvfs_vfs_ops = \<lparr>
     op_create = (\<lambda>p mode s. do { (r, a) \<leftarrow> asvfs_create p (ucast mode) (kasvfs s); Some (r, s\<lparr>kasvfs := a\<rparr>) }),
     op_read = (\<lambda>p buf n offset s. do {
       (r, bytes) \<leftarrow> asvfs_read p n offset (kasvfs s);
       buf \<leftarrow> buf_write 0 bytes buf;
       Some (r, buf) }),
     op_write = (\<lambda>p buf a b s. do {
       (r, f) \<leftarrow> asvfs_write p buf (ucast a) (ucast b) (kasvfs s); Some (r, s\<lparr>kasvfs := f\<rparr>) }),
     op_getattr = (\<lambda>p st s. do {
       (r, res) \<leftarrow> asvfs_getattr p (kasvfs s);
       Some (r, case res of None \<Rightarrow> st | Some x \<Rightarrow> stat.extend x (file_stats.fields (st_type st))) }),
     op_open = (\<lambda>p s. asvfs_open p (kasvfs s))\<rparr>"

definition rfs_vfs_ops :: "'x kfs_scheme vfs_operations" where
  "rfs_vfs_ops = \<lparr>
     op_create = (\<lambda>p mode s. do { (r, a) \<leftarrow> rfs_create p mode (krfs s); Some (r, s\<lparr>krfs := a\<rparr>) }),
     op_read = (\<lambda>p buf a b s. rfs_read p buf (ucast a) (ucast b) (krfs s)),
     op_write = (\<lambda>p buf a b s. do { (r, f) \<leftarrow> rfs_write p buf (ucast a) (ucast b) (krfs s); Some (r, s\<lparr>krfs := f\<rparr>) }),
     op_getattr = (\<lambda>p st s. Some (rfs_getattr p st (krfs s))),
     op_open = (\<lambda>p s. Some 0)\<rparr>"


section \<open>Boot\<close>

abbreviation (input) name_ASVFS :: "u8 list" where "name_ASVFS \<equiv> [0x41, 0x53, 0x56, 0x46, 0x53]"
abbreviation (input) name_RFS :: "u8 list" where "name_RFS \<equiv> [0x52, 0x46, 0x53]"
abbreviation (input) name_dev :: "u8 list" where "name_dev \<equiv> [0x64, 0x65, 0x76]"

abbreviation (input) FS_TYPE_ASVFS :: u8 where "FS_TYPE_ASVFS \<equiv> 2"

text \<open>stale is what the memory of a new file system record holds.\<close>

definition asvfs_vios_init ::
    "'x kfs_scheme vfs_filesystem \<Rightarrow> disk \<Rightarrow> int \<Rightarrow> 'x kfs_scheme vfs \<times> 'x kfs_scheme \<Rightarrow>
     ('x kfs_scheme vfs \<times> 'x kfs_scheme) option" where
  "asvfs_vios_init stale d drive_id x = (case x of (v, s) \<Rightarrow> (let (_, a, _) = asvfs_initalize d in do {
     (i, v) \<leftarrow> vfs_register_fs name_ASVFS asvfs_vfs_ops stale v;
     Some (v\<lparr>file_systems := (file_systems v)[i := (file_systems v ! i)\<lparr>fs_type := FS_TYPE_ASVFS, fs_drive_id := drive_id\<rparr>]\<rparr>,
           s\<lparr>kasvfs := a\<rparr>) }))"

definition rfs_initalize ::
    "'x kfs_scheme vfs_filesystem \<Rightarrow> 'x kfs_scheme vfs \<times> 'x kfs_scheme \<Rightarrow> ('x kfs_scheme vfs \<times> 'x kfs_scheme) option" where
  "rfs_initalize stale x = (case x of (v, s) \<Rightarrow> do {
     (i, v) \<leftarrow> vfs_register_fs name_RFS rfs_vfs_ops stale v;
     Some (v, s\<lparr>krfs := (krfs s)\<lparr>rfs_file_objs := []\<rparr>\<rparr>) })"

definition fs_initalize_part1 ::
    "'x kfs_scheme vfs_filesystem \<Rightarrow> disk \<Rightarrow> 'x kfs_scheme vfs \<times> 'x kfs_scheme \<Rightarrow>
     ('x kfs_scheme vfs \<times> 'x kfs_scheme) option" where
  "fs_initalize_part1 stale d x = (case x of (v, s) \<Rightarrow> do {
     let (_, v) = vfs_initalize v;
     (v, s) \<leftarrow> asvfs_vios_init stale d 1 (v, s);
     v \<leftarrow> vfs_mount name_ASVFS [slash] 0 v;
     (v, s) \<leftarrow> rfs_initalize stale (v, s);
     v \<leftarrow> vfs_mount name_RFS (slash # name_dev) 0 v;
     Some (v, s) })"


section \<open>Attributes and directories\<close>

definition vfs_getattr :: "u8 list \<Rightarrow> 'x kfs_scheme \<Rightarrow> (int \<times> stat option) option" where
  "vfs_getattr pathname s = asvfs_getattr pathname (kasvfs s)"

record vfs_dirent =
  ino :: u64
  dtype :: u8
  dname :: "u8 list"

record vfs_dir =
  dir_count :: u16
  dir_next :: u16
  dir_list :: "vfs_dirent list"

text \<open>The entries of a directory; the number of them is kept in an int8_t by asvfs_readdir.\<close>

definition asvfs_get_dir_list_glue :: "u8 list \<Rightarrow> asvfs \<Rightarrow> (u16 \<times> vfs_dirent list) option" where
  "asvfs_get_dir_list_glue pathname a = do {
     block_id \<leftarrow> asvfs_get_block_id_from_pathname pathname a;
     ents \<leftarrow> asvfs_readdir block_id a;
     let n = (of_nat (length ents) :: 8 word);
     Some (scast n, map (\<lambda>e. \<lparr>ino = ucast (de_block_id e), dtype = de_type e, dname = de_name e\<rparr>)
                      (take (nat (sint n)) ents)) }"

definition vfs_opendir :: "u8 list \<Rightarrow> 'x kfs_scheme \<Rightarrow> vfs_dir option option" where
  "vfs_opendir pathname s = do {
     (err, _) \<leftarrow> vfs_getattr pathname s;
     if err \<noteq> 0 then Some None
     else do {
       (n, ents) \<leftarrow> asvfs_get_dir_list_glue pathname (kasvfs s);
       Some (Some \<lparr>dir_count = n, dir_next = 0, dir_list = ents\<rparr>) } }"

definition vfs_readdir :: "vfs_dir \<Rightarrow> vfs_dirent option \<times> vfs_dir" where
  "vfs_readdir d = (if unat (dir_next d) < length (dir_list d)
     then (Some (dir_list d ! unat (dir_next d)), d\<lparr>dir_next := dir_next d + 1\<rparr>) else (None, d))"

text \<open>Closing pops dir_count entries; a pop of an empty list gives NULL, which kfree ignores.\<close>

definition vfs_closedir :: "vfs_dir \<Rightarrow> vfs_dirent list" where
  "vfs_closedir d = drop (unat (dir_count d)) (dir_list d)"

end
