(* ===== verification/AsvfsProps.thy ===== *)
theory AsvfsProps
  imports Asvfs
begin

text \<open>
  The file system: a lookup is a walk over the elements of the path, a path
  splits into parent and name, creation and removal change one directory and
  keep the invariant of the drive, what is written into a block is read back.
\<close>

section \<open>Accesses that do not meet\<close>

text \<open>
  A block that may hold data lies behind the table of records and below 4 GiB,
  where the 32-bit products of the code do not wrap.
\<close>

definition data_block :: "asvfs \<Rightarrow> u32 \<Rightarrow> bool" where
  "data_block s b \<longleftrightarrow> unat b < unat (h_block_count (hdr s))
     \<and> 61 + 96 * unat (h_block_count (hdr s)) \<le> 4096 * unat b \<and> unat b < 1048576"

definition fs_format :: "asvfs \<Rightarrow> bool" where
  "fs_format s \<longleftrightarrow> header_ok (hdr s) \<and> h_block_size (hdr s) = 4096"

lemma block_address:
  assumes "unat b < 1048576" shows "unat (b * 4096 :: u32) = 4096 * unat b"
  using assms by (simp add: unat_word_ariths)

lemma same_hdr [simp]:
  "hdr (asvfs_write_meta_data b m s) = hdr s" "hdr (asvfs_write_block b x s) = hdr s"
  "hdr (asvfs_write_header s) = hdr s"
  by (simp_all add: asvfs_write_meta_data_def asvfs_write_block_def asvfs_write_header_def)

lemma data_block_hdr: "hdr s' = hdr s \<Longrightarrow> data_block s' b = data_block s b"
  by (simp add: data_block_def)

lemma get_meta_same [disk_simps]: "meta_ok m \<Longrightarrow> asvfs_get_meta_data b (asvfs_write_meta_data b m s) = m"
  by (simp add: asvfs_get_meta_data_def asvfs_write_meta_data_def disk_simps)

lemma get_meta_other [disk_simps]:
  assumes "b \<noteq> b'" "meta_ok m"
  shows "asvfs_get_meta_data b (asvfs_write_meta_data b' m s) = asvfs_get_meta_data b s"
proof -
  have "unat b \<noteq> unat b'" using assms(1) by (metis word_unat_eq_iff)
  then have "61 + 96 * unat b + 96 \<le> 61 + 96 * unat b' \<or> 61 + 96 * unat b' + 96 \<le> 61 + 96 * unat b"
    by linarith
  then show ?thesis
    using assms(2) by (simp add: asvfs_get_meta_data_def asvfs_write_meta_data_def disk_read_other)
qed

lemma get_meta_write_block [disk_simps]:
  assumes "fs_format s" "data_block s b" "unat i < unat (h_block_count (hdr s))"
  shows "asvfs_get_meta_data i (asvfs_write_block b x s) = asvfs_get_meta_data i s"
proof -
  have "61 + 96 * unat i + 96 \<le> 4096 * unat b" using assms(2,3) by (simp add: data_block_def)
  then show ?thesis using assms
    by (simp add: asvfs_get_meta_data_def asvfs_write_block_def disk_read_other fs_format_def
        block_address data_block_def)
qed

lemma get_meta_write_header [disk_simps]:
  "header_ok (hdr s) \<Longrightarrow> asvfs_get_meta_data i (asvfs_write_header s) = asvfs_get_meta_data i s"
  by (simp add: asvfs_get_meta_data_def asvfs_write_header_def disk_read_other)

lemma read_block_write_meta [disk_simps]:
  assumes "data_block s b" "unat i < unat (h_block_count (hdr s))" "meta_ok m"
  shows "asvfs_read_block b n (asvfs_write_meta_data i m s) = asvfs_read_block b n s"
proof -
  have "61 + 96 * unat i + 96 \<le> 4096 * unat b" using assms(1,2) by (simp add: data_block_def)
  then show ?thesis using assms
    by (simp add: asvfs_read_block_def asvfs_write_meta_data_def disk_read_other block_address data_block_def)
qed

lemma read_block_write_header [disk_simps]:
  assumes "data_block s b" "header_ok (hdr s)"
  shows "asvfs_read_block b n (asvfs_write_header s) = asvfs_read_block b n s"
proof -
  have "61 \<le> 4096 * unat b" using assms(1) by (simp add: data_block_def)
  then show ?thesis using assms
    by (simp add: asvfs_read_block_def asvfs_write_header_def disk_read_other block_address data_block_def)
qed

lemma read_block_same [disk_simps]:
  assumes "fs_format s" "data_block s b"
  shows "asvfs_read_block b (length x) (asvfs_write_block b x s) = x"
  using assms by (simp add: asvfs_read_block_def asvfs_write_block_def disk_read_same fs_format_def)

lemma read_block_other [disk_simps]:
  assumes "fs_format s" "data_block s b" "data_block s b'" "b \<noteq> b'" "n \<le> 4096" "length x \<le> 4096"
  shows "asvfs_read_block b n (asvfs_write_block b' x s) = asvfs_read_block b n s"
proof -
  have "unat b \<noteq> unat b'" using assms(4) by (metis word_unat_eq_iff)
  then have "4096 * unat b + n \<le> 4096 * unat b' \<or> 4096 * unat b' + length x \<le> 4096 * unat b"
    using assms(5,6) by linarith
  then show ?thesis using assms
    by (simp add: asvfs_read_block_def asvfs_write_block_def disk_read_other fs_format_def
        block_address data_block_def)
qed

lemma read_directory_same [disk_simps]:
  "fs_format s \<Longrightarrow> data_block s b \<Longrightarrow> dir_ok d \<Longrightarrow> read_directory b (asvfs_write_block b (dir_bytes d) s) = d"
  using read_block_same [of s b "dir_bytes d"] by (simp add: read_directory_def)

lemma read_directory_other [disk_simps]:
  "fs_format s \<Longrightarrow> data_block s b \<Longrightarrow> data_block s b' \<Longrightarrow> b \<noteq> b' \<Longrightarrow> length x \<le> 4096 \<Longrightarrow>
   read_directory b (asvfs_write_block b' x s) = read_directory b s"
  by (simp add: read_directory_def disk_simps)

lemma read_directory_write_meta [disk_simps]:
  "data_block s b \<Longrightarrow> unat i < unat (h_block_count (hdr s)) \<Longrightarrow> meta_ok m \<Longrightarrow>
   read_directory b (asvfs_write_meta_data i m s) = read_directory b s"
  by (simp add: read_directory_def disk_simps)

lemma read_directory_write_header [disk_simps]:
  "data_block s b \<Longrightarrow> header_ok (hdr s) \<Longrightarrow> read_directory b (asvfs_write_header s) = read_directory b s"
  by (simp add: read_directory_def disk_simps)

lemma accesses_hdr [simp]:
  "asvfs_get_meta_data b (s\<lparr>hdr := h\<rparr>) = asvfs_get_meta_data b s"
  "asvfs_read_block b n (s\<lparr>hdr := h\<rparr>) = asvfs_read_block b n s"
  "read_directory b (s\<lparr>hdr := h\<rparr>) = read_directory b s"
  by (simp_all add: asvfs_get_meta_data_def asvfs_read_block_def read_directory_def)

lemma read_directory_ok [simp]: "dir_ok (read_directory b s)" "meta_ok (asvfs_get_meta_data b s)"
  by (simp_all add: read_directory_def asvfs_read_block_def asvfs_get_meta_data_def)


section \<open>Paths and lookup\<close>

text \<open>The elements of a path, between its slashes.\<close>

function elements :: "u8 list \<Rightarrow> u8 list list" where
  "elements p = (let q = dropWhile (\<lambda>c. c = slash) p in
     if q = [] then [] else takeWhile (\<lambda>c. c \<noteq> slash) q # elements (dropWhile (\<lambda>c. c \<noteq> slash) q))"
  by pat_completeness auto
termination
proof (relation "measure length", simp)
  fix p q :: "u8 list"
  assume q: "q = dropWhile (\<lambda>c. c = slash) p" and "q \<noteq> []"
  then have "hd q \<noteq> slash" using hd_dropWhile [of "\<lambda>c. c = slash" p] by auto
  with \<open>q \<noteq> []\<close> have "length (dropWhile (\<lambda>c. c \<noteq> slash) q) < length q"
    by (cases q) (auto simp: less_Suc_eq_le length_dropWhile_le)
  also have "length q \<le> length p" unfolding q by (rule length_dropWhile_le)
  finally show "(dropWhile (\<lambda>c. c \<noteq> slash) q, p) \<in> measure length" by simp
qed

declare elements.simps [simp del]

primrec walk :: "u8 list list \<Rightarrow> u32 \<Rightarrow> asvfs \<Rightarrow> u32 option" where
  "walk [] b s = Some b"
| "walk (e # es) b s = do {
     b' \<leftarrow> asvfs_get_block_meta_from_dir b e s;
     if b' = 0 then Some 0 else walk es b' s }"

lemma lookup_slashes: "lookup_loop (cs @ r) [] b s = lookup_loop r [] b s" if "set cs \<subseteq> {slash}"
  using that by (induction cs) auto

lemma lookup_element:
  "slash \<notin> set e \<Longrightarrow> 0 \<notin> set e \<Longrightarrow> length (name @ e) < 257 \<Longrightarrow>
   lookup_loop (e @ r) name b s = lookup_loop r (name @ e) b s"
  by (induction e arbitrary: name) auto

lemma lookup_loop_walk:
  "0 \<notin> set p \<Longrightarrow> \<forall>e\<in>set (elements p). length e < 256 \<Longrightarrow> lookup_loop (p @ [0]) [] b s = walk (elements p) b s"
proof (induction p arbitrary: b rule: elements.induct)
  case (1 p)
  define q where "q = dropWhile (\<lambda>c. c = slash) p"
  define e where "e = takeWhile (\<lambda>c. c \<noteq> slash) q"
  define r where "r = dropWhile (\<lambda>c. c \<noteq> slash) q"
  have p: "p = takeWhile (\<lambda>c. c = slash) p @ q" by (simp add: q_def)
  have "set (takeWhile (\<lambda>c. c = slash) p) \<subseteq> {slash}" by (auto dest: set_takeWhileD)
  from lookup_slashes [OF this, of "q @ [0]"] p
  have start: "lookup_loop (p @ [0]) [] b s = lookup_loop (q @ [0]) [] b s" by (metis append.assoc)
  show ?case
  proof (cases "q = []")
    case True
    then show ?thesis unfolding start by (subst elements.simps) (simp add: q_def [symmetric])
  next
    case False
    have els: "elements p = e # elements r"
      using False by (subst elements.simps) (simp add: q_def [symmetric] e_def r_def Let_def)
    have q: "q = e @ r" by (simp add: e_def r_def)
    have "hd q \<noteq> slash" using hd_dropWhile [of "\<lambda>c. c = slash" p] False by (auto simp: q_def)
    then have "e \<noteq> []" using False by (cases q) (auto simp: e_def)
    have "set q \<subseteq> set p" unfolding q_def by (auto dest: set_dropWhileD)
    then have zero: "0 \<notin> set e" "0 \<notin> set r" using 1 unfolding q by auto
    have "slash \<notin> set e" by (auto simp: e_def dest: set_takeWhileD)
    then have l: "lookup_loop (q @ [0]) [] b s = lookup_loop (r @ [0]) e b s"
      using lookup_element [of e "[]" "r @ [0]"] zero 1(3) els unfolding q by simp
    have IH: "lookup_loop (r @ [0]) [] b' s = walk (elements r) b' s" for b'
      using 1(1) [OF q_def False] 1(3) zero els unfolding r_def [symmetric] by auto
    have "lookup_loop (r @ [0]) e b s = walk (e # elements r) b s"
    proof (cases r)
      case Nil
      then have "elements r = []" by (subst elements.simps) simp
      then show ?thesis using Nil \<open>e \<noteq> []\<close> 1(3) els
        by (cases "asvfs_get_block_meta_from_dir b e s") auto
    next
      case (Cons c cs)
      then have "c = slash" using hd_dropWhile [of "\<lambda>c. c \<noteq> slash" q] unfolding r_def by auto
      with Cons IH \<open>e \<noteq> []\<close> 1(3) els show ?thesis
        by (cases "asvfs_get_block_meta_from_dir b e s") auto
    qed
    then show ?thesis unfolding start l els .
  qed
qed

lemma lookup_walk:
  assumes "0 \<notin> set p" "\<forall>e\<in>set (elements p). length e < 256"
  shows "asvfs_get_block_id_from_pathname p s = walk (elements p) (h_root_directory (hdr s)) s"
proof (cases "p = [slash]")
  case True
  moreover have "elements [slash] = []" by (subst elements.simps) simp
  ultimately show ?thesis by (simp add: asvfs_get_block_id_from_pathname_def)
next
  case False
  then show ?thesis using lookup_loop_walk [OF assms] by (simp add: asvfs_get_block_id_from_pathname_def)
qed

text \<open>Property C25: a lookup walks the elements of the path. For every path whose
  elements fit the array of the code, whatever its number of slashes, the loop
  over the characters finds the block that the directories give element after
  element from the root, and 0 when one of them is missing.\<close>

theorem lookup_is_walk:
  assumes "0 \<notin> set p" "\<forall>e\<in>set (elements p). length e < 256"
  shows "asvfs_get_block_id_from_pathname p s = walk (elements p) (h_root_directory (hdr s)) s"
  using assms by (rule lookup_walk)

text \<open>The path that names a list of elements.\<close>

definition path_of :: "u8 list list \<Rightarrow> u8 list" where
  "path_of es = concat (map (\<lambda>e. slash # e) es)"

definition good_name :: "u8 list \<Rightarrow> bool" where
  "good_name e \<longleftrightarrow> e \<noteq> [] \<and> slash \<notin> set e \<and> 0 \<notin> set e \<and> length e < 256"

lemma path_of_simps [simp]:
  "path_of [] = []" "path_of (e # es) = slash # e @ path_of es" "path_of (es @ fs) = path_of es @ path_of fs"
  by (simp_all add: path_of_def)

lemma path_of_no_zero: "\<forall>e\<in>set es. good_name e \<Longrightarrow> 0 \<notin> set (path_of es)"
  by (induction es) (auto simp: good_name_def)

lemma elements_path_of: "\<forall>e\<in>set es. good_name e \<Longrightarrow> elements (path_of es) = es"
proof (induction es)
  case Nil
  show ?case by (subst elements.simps) simp
next
  case (Cons e es)
  have e: "e \<noteq> []" "slash \<notin> set e" using Cons.prems by (auto simp: good_name_def)
  have drop1: "dropWhile (\<lambda>c. c = slash) (path_of (e # es)) = e @ path_of es"
    using e by (cases e) auto
  have tk: "takeWhile (\<lambda>c. c \<noteq> slash) (e @ path_of es) = e"
    using e(2) by (subst takeWhile_append2) (auto, cases es, auto)
  have dr: "dropWhile (\<lambda>c. c \<noteq> slash) (e @ path_of es) = path_of es"
    using e(2) by (subst dropWhile_append2) (auto, cases es, auto)
  have "elements (path_of (e # es)) = e # elements (path_of es)"
    using e(1) by (subst elements.simps) (simp only: drop1 tk dr Let_def, simp)
  then show ?case using Cons by simp
qed

lemma lookup_path_of:
  "\<forall>e\<in>set es. good_name e \<Longrightarrow>
   asvfs_get_block_id_from_pathname (if es = [] then [slash] else path_of es) s = walk es (h_root_directory (hdr s)) s"
proof (cases "es = []")
  case True
  then show ?thesis by (simp add: asvfs_get_block_id_from_pathname_def)
next
  case False
  assume "\<forall>e\<in>set es. good_name e"
  then have "asvfs_get_block_id_from_pathname (path_of es) s = walk (elements (path_of es)) (h_root_directory (hdr s)) s"
    by (intro lookup_walk) (auto simp: path_of_no_zero elements_path_of good_name_def)
  then show ?thesis using False \<open>\<forall>e\<in>set es. good_name e\<close> by (simp add: elements_path_of)
qed

lemma parts_element:
  "slash \<notin> set e \<Longrightarrow> 0 \<notin> set e \<Longrightarrow> length (name @ e) < 257 \<Longrightarrow>
   parts_loop (e @ r) name par = parts_loop r (name @ e) par"
  by (induction e arbitrary: name) auto

lemma parts_loop_path:
  "\<forall>x\<in>set (e # es). good_name x \<Longrightarrow> length (path_of (done' @ butlast (e # es))) < 1024 \<Longrightarrow>
   par = (if done' = [] then [slash] else path_of done') \<Longrightarrow> done' = [] \<or> par \<noteq> [slash] \<Longrightarrow>
   parts_loop (e @ path_of es @ [0]) [] par =
     Some (if done' @ butlast (e # es) = [] then [slash] else path_of (done' @ butlast (e # es)), last (e # es))"
proof (induction es arbitrary: e done' par)
  case Nil
  then show ?case using parts_element [of e "[]" "[0]" par] by (auto simp: good_name_def)
next
  case (Cons x xs)
  have e: "slash \<notin> set e" "0 \<notin> set e" "length e < 256" "e \<noteq> []" using Cons.prems(1) by (auto simp: good_name_def)
  have read: "parts_loop (e @ path_of (x # xs) @ [0]) [] par = parts_loop (path_of (x # xs) @ [0]) e par"
    using parts_element [of e "[]"] e by simp
  let ?p = "(if par \<noteq> [slash] then par @ [slash] else par) @ e"
  have p: "?p = path_of (done' @ [e])" using Cons.prems(3,4) by auto
  have len: "length (path_of (done' @ [e])) < 1024" using Cons.prems(2) by (auto split: if_splits)
  have "parts_loop (path_of (x # xs) @ [0]) e par = parts_loop (x @ path_of xs @ [0]) [] ?p"
    using e len p by (simp add: Let_def)
  also have "\<dots> = Some (if (done' @ [e]) @ butlast (x # xs) = [] then [slash]
      else path_of ((done' @ [e]) @ butlast (x # xs)), last (x # xs))"
    unfolding p using Cons.prems e(4) by (intro Cons.IH) (auto, cases done', auto)
  finally show ?case unfolding read by simp
qed

lemma path_parts:
  assumes "\<forall>e\<in>set (es @ [c]). good_name e" "length (path_of es) < 1024"
  shows "asvfs_get_path_parts (path_of (es @ [c])) = Some (if es = [] then [slash] else path_of es, c)"
proof (cases es)
  case Nil
  then show ?thesis
    using parts_loop_path [of c "[]" "[]" "[slash]"] assms by (simp add: asvfs_get_path_parts_def)
next
  case (Cons e xs)
  then have "parts_loop (e @ path_of (xs @ [c]) @ [0]) [] [slash] = Some (path_of es, c)"
    using parts_loop_path [of e "xs @ [c]" "[]" "[slash]"] assms by simp
  then show ?thesis using Cons by (simp add: asvfs_get_path_parts_def)
qed

text \<open>A path splits into its parent and its name. The parts of the
  path of any list of valid elements are the path of all but the last, the root
  for a single one, and the last element.\<close>

theorem path_parts_split:
  assumes "\<forall>e\<in>set (es @ [c]). good_name e" "length (path_of es) < 1024"
  shows "asvfs_get_path_parts (path_of (es @ [c])) = Some (if es = [] then [slash] else path_of es, c)"
  using assms by (rule path_parts)


section \<open>The invariant of the drive\<close>

definition is_dir :: "asvfs \<Rightarrow> u32 \<Rightarrow> bool" where
  "is_dir s b \<longleftrightarrow> unat b < unat (h_next_free (hdr s)) \<and> m_block_type (asvfs_get_meta_data b s) = 2"

definition dir_used :: "asvfs \<Rightarrow> u32 \<Rightarrow> u32 list" where
  "dir_used s b = take (unat (d_next_index (read_directory b s))) (d_index (read_directory b s))"

definition dir_good :: "asvfs \<Rightarrow> u32 \<Rightarrow> bool" where
  "dir_good s b \<longleftrightarrow> data_block s b \<and> d_type (read_directory b s) = 2
     \<and> unat (d_next_index (read_directory b s)) \<le> 98
     \<and> (\<forall>i\<in>set (dir_used s b). data_block s i \<and> unat i < unat (h_next_free (hdr s))
          \<and> 0 \<in> set (m_name (asvfs_get_meta_data i s)))"

text \<open>
  The header in memory is the one on the drive, blocks are handed out behind the
  table of records, a record carries the number of its block, and every
  directory below the free blocks is well formed.
\<close>

definition fs_inv :: "asvfs \<Rightarrow> bool" where
  "fs_inv s \<longleftrightarrow> fs_format s \<and> header_of (disk_read 0 61 (drive s)) = hdr s
     \<and> 61 + 96 * unat (h_block_count (hdr s)) \<le> 4096 * unat (h_next_free (hdr s))
     \<and> unat (h_next_free (hdr s)) \<le> unat (h_block_count (hdr s))
     \<and> unat (h_block_count (hdr s)) \<le> 1048576
     \<and> (\<forall>i. unat i < unat (h_block_count (hdr s)) \<longrightarrow> m_id (asvfs_get_meta_data i s) = i)
     \<and> is_dir s (h_root_directory (hdr s)) \<and> (\<forall>b. is_dir s b \<longrightarrow> dir_good s b)"

text \<open>The directories a path leads through to its last element.\<close>

primrec dir_path :: "asvfs \<Rightarrow> u8 list list \<Rightarrow> u32 \<Rightarrow> u32 \<Rightarrow> bool" where
  "dir_path s [] b p \<longleftrightarrow> b = p"
| "dir_path s (e # es) b p \<longleftrightarrow> is_dir s b \<and>
     (\<exists>b'. asvfs_get_block_meta_from_dir b e s = Some b' \<and> b' \<noteq> 0 \<and> dir_path s es b' p)"

lemma walk_dir_path: "dir_path s es b p \<Longrightarrow> walk es b s = Some p"
  by (induction es arbitrary: b) auto

lemma walk_dir_path_append:
  "dir_path s es b p \<Longrightarrow> walk (es @ [c]) b s = asvfs_get_block_meta_from_dir p c s"
proof (induction es arbitrary: b)
  case Nil
  then show ?case by (cases "asvfs_get_block_meta_from_dir p c s") auto
qed auto

lemma strcpy_into_SomeD:
  assumes "strcpy_into buf s = Some r" "0 \<notin> set s"
  shows "length r = length buf" "0 \<in> set r" "cstr_of r = Some s"
proof -
  from assms(1) have r: "r = s @ 0 # drop (Suc (length s)) buf" "length s < length buf"
    by (auto simp: strcpy_into_def split: if_splits)
  then show "length r = length buf" "0 \<in> set r" by auto
  have "takeWhile (\<lambda>c. c \<noteq> 0) (s @ 0 # drop (Suc (length s)) buf) = s"
    using assms(2) by (subst takeWhile_append2) auto
  then show "cstr_of r = Some s" using r(1) by (simp add: cstr_of_def)
qed

lemma dir_entries_append:
  "dir_entries_of s (xs @ [x]) = do { es \<leftarrow> dir_entries_of s xs; e \<leftarrow> dir_entry_of s x; Some (es @ [e]) }"
proof (induction xs)
  case (Cons y ys)
  then show ?case by (cases "dir_entry_of s y"; cases "dir_entries_of s ys"; cases "dir_entry_of s x") simp_all
qed (cases "dir_entry_of s x", simp_all)

lemma dir_entries_cong:
  "(\<And>i. i \<in> set xs \<Longrightarrow> asvfs_get_meta_data i s' = asvfs_get_meta_data i s) \<Longrightarrow>
   dir_entries_of s' xs = dir_entries_of s xs"
  by (induction xs) (simp_all add: dir_entry_of_def)

lemma dir_entries_Some:
  "(\<And>i. i \<in> set xs \<Longrightarrow> 0 \<in> set (m_name (asvfs_get_meta_data i s))) \<Longrightarrow> \<exists>es. dir_entries_of s xs = Some es"
  by (induction xs) (auto simp: dir_entry_of_def cstr_of_def Let_def)

lemma find_entry_append:
  "find_entry (xs @ ys) c = (if c \<in> de_name ` set xs then find_entry xs c else find_entry ys c)"
  by (induction xs) auto

lemma find_entry_absent: "c \<notin> de_name ` set xs \<Longrightarrow> find_entry xs c = 0"
  by (induction xs) auto

lemma readdir_good:
  assumes "dir_good s b"
  shows "asvfs_readdir b s = map_option ((@) dot_entries) (dir_entries_of s (dir_used s b))"
    "\<exists>es. dir_entries_of s (dir_used s b) = Some es"
proof -
  show "\<exists>es. dir_entries_of s (dir_used s b) = Some es"
    using assms by (intro dir_entries_Some) (auto simp: dir_good_def)
  show "asvfs_readdir b s = map_option ((@) dot_entries) (dir_entries_of s (dir_used s b))"
    using assms by (cases "dir_entries_of s (dir_used s b)")
      (simp_all add: asvfs_readdir_def dir_good_def dir_used_def Let_def)
qed

lemma fs_inv_count:
  "fs_inv s \<Longrightarrow> is_dir s b \<Longrightarrow> unat b < unat (h_block_count (hdr s)) \<and> data_block s b \<and> b \<noteq> 0"
  by (auto simp: fs_inv_def dir_good_def data_block_def)


section \<open>Creating a file\<close>

text \<open>The drive after a new record nf has been entered into the directory p.\<close>

definition installed :: "u32 \<Rightarrow> asvfs_block_directory \<Rightarrow> asvfs_block_meta_data \<Rightarrow> asvfs \<Rightarrow> asvfs" where
  "installed p pb nf s = asvfs_write_header (asvfs_write_meta_data (h_next_free (hdr s)) nf
     (asvfs_write_block p (dir_bytes pb) (s\<lparr>hdr := (hdr s)\<lparr>h_next_free := h_next_free (hdr s) + 1\<rparr>\<rparr>)))"

lemma header_written: "header_ok (hdr s) \<Longrightarrow> header_of (disk_read 0 61 (drive (asvfs_write_header s))) = hdr s"
  by (simp add: asvfs_write_header_def disk_simps)

lemma installed_accesses:
  assumes "fs_inv s" "data_block s p" "data_block s (h_next_free (hdr s))" "dir_ok pb" "meta_ok nf"
  shows "hdr (installed p pb nf s) = (hdr s)\<lparr>h_next_free := h_next_free (hdr s) + 1\<rparr>"
    "header_of (disk_read 0 61 (drive (installed p pb nf s))) = hdr (installed p pb nf s)"
    "asvfs_get_meta_data (h_next_free (hdr s)) (installed p pb nf s) = nf"
    "i \<noteq> h_next_free (hdr s) \<Longrightarrow> unat i < unat (h_block_count (hdr s)) \<Longrightarrow>
       asvfs_get_meta_data i (installed p pb nf s) = asvfs_get_meta_data i s"
    "read_directory p (installed p pb nf s) = pb"
    "b \<noteq> p \<Longrightarrow> data_block s b \<Longrightarrow> read_directory b (installed p pb nf s) = read_directory b s"
    "unat (h_next_free (hdr (installed p pb nf s))) = Suc (unat (h_next_free (hdr s)))"
proof -
  let ?n = "h_next_free (hdr s)"
  let ?s1 = "s\<lparr>hdr := (hdr s)\<lparr>h_next_free := ?n + 1\<rparr>\<rparr>"
  let ?s2 = "asvfs_write_block p (dir_bytes pb) ?s1"
  let ?s3 = "asvfs_write_meta_data ?n nf ?s2"
  have h: "header_ok (hdr s)" "fs_format s" using assms(1) by (auto simp: fs_inv_def fs_format_def)
  have f1: "fs_format ?s1" and ok: "header_ok (hdr ?s1)"
    using h by (simp_all add: fs_format_def header_ok_def)
  have db1: "data_block ?s1 b = data_block s b" "data_block ?s2 b = data_block s b"
    "data_block ?s3 b = data_block s b" for b
    by (simp_all add: data_block_def)
  have n: "unat ?n < unat (h_block_count (hdr s))" "unat ?n < 1048576" using assms(3) by (auto simp: data_block_def)
  show "hdr (installed p pb nf s) = (hdr s)\<lparr>h_next_free := ?n + 1\<rparr>" by (simp add: installed_def)
  show "header_of (disk_read 0 61 (drive (installed p pb nf s))) = hdr (installed p pb nf s)"
    using ok by (simp add: installed_def header_written)
  show "asvfs_get_meta_data ?n (installed p pb nf s) = nf"
    using ok assms(5) by (simp add: installed_def disk_simps)
  show "asvfs_get_meta_data i (installed p pb nf s) = asvfs_get_meta_data i s"
    if "i \<noteq> ?n" "unat i < unat (h_block_count (hdr s))"
    using that ok f1 assms db1 by (simp add: installed_def disk_simps)
  show "read_directory p (installed p pb nf s) = pb"
    using ok f1 assms db1 n by (simp add: installed_def disk_simps)
  show "read_directory b (installed p pb nf s) = read_directory b s" if "b \<noteq> p" "data_block s b"
    using that ok f1 assms db1 n by (simp add: installed_def disk_simps)
  have "unat (?n + 1) = Suc (unat ?n)" using n(2) by (simp add: unat_word_ariths)
  then show "unat (h_next_free (hdr (installed p pb nf s))) = Suc (unat ?n)" by (simp add: installed_def)
qed


lemma add_index_SomeD:
  assumes "add_index n d = Some d'" "dir_ok d"
  shows "dir_ok d'" "d_type d' = d_type d" "unat (d_next_index d') = Suc (unat (d_next_index d))"
    "take (unat (d_next_index d')) (d_index d') = take (unat (d_next_index d)) (d_index d) @ [n]"
proof -
  have lt: "unat (d_next_index d) < 256"
    and d': "d' = d\<lparr>d_index := (d_index d)[unat (d_next_index d) := n], d_next_index := d_next_index d + 1\<rparr>"
    using assms(1) by (auto simp: add_index_def split: if_splits)
  show "dir_ok d'" "d_type d' = d_type d" using assms(2) by (simp_all add: d' dir_ok_def)
  show sz: "unat (d_next_index d') = Suc (unat (d_next_index d))" using lt by (simp add: d' unat_word_ariths)
  show "take (unat (d_next_index d')) (d_index d') = take (unat (d_next_index d)) (d_index d) @ [n]"
    using lt assms(2) unfolding sz by (simp add: d' dir_ok_def take_Suc_conv_app_nth)
qed

lemma installed_dirs:
  assumes "fs_inv s" "is_dir s p" "data_block s (h_next_free (hdr s))"
    and "add_index (h_next_free (hdr s)) (read_directory p s) = Some pb"
    and "meta_ok nf" "m_block_type nf = 1"
  shows "is_dir (installed p pb nf s) b \<longleftrightarrow> is_dir s b"
    "dir_used (installed p pb nf s) p = dir_used s p @ [h_next_free (hdr s)]"
    "b \<noteq> p \<Longrightarrow> data_block s b \<Longrightarrow> dir_used (installed p pb nf s) b = dir_used s b"
proof -
  let ?n = "h_next_free (hdr s)" and ?s = "installed p pb nf s"
  have p: "data_block s p" "unat p < unat (h_block_count (hdr s))" using fs_inv_count [OF assms(1,2)] by auto
  note acc = installed_accesses [OF assms(1) p(1) assms(3) add_index_SomeD(1) [OF assms(4) read_directory_ok(1)] assms(5)]
  have n: "unat ?n < unat (h_block_count (hdr s))" using assms(3) by (simp add: data_block_def)
  show "is_dir ?s b \<longleftrightarrow> is_dir s b"
  proof (cases "b = ?n")
    case True
    then show ?thesis using acc(3) assms(6) by (simp add: is_dir_def)
  next
    case False
    then have "unat b \<noteq> unat ?n" by (metis word_unat_eq_iff)
    moreover have "unat b < unat ?n \<Longrightarrow> asvfs_get_meta_data b ?s = asvfs_get_meta_data b s"
      using acc(4) [OF False] n by simp
    ultimately show ?thesis using acc(7) by (auto simp: is_dir_def less_Suc_eq)
  qed
  show "dir_used ?s p = dir_used s p @ [?n]"
    using add_index_SomeD(4) [OF assms(4)] acc(5) by (simp add: dir_used_def)
  show "dir_used ?s b = dir_used s b" if "b \<noteq> p" "data_block s b"
    using acc(6) [OF that] by (simp add: dir_used_def)
qed

lemma installed_inv:
  assumes "fs_inv s" "is_dir s p" "data_block s (h_next_free (hdr s))"
    and "add_index (h_next_free (hdr s)) (read_directory p s) = Some pb"
    and "meta_ok nf" "m_block_type nf = 1" "m_id nf = h_next_free (hdr s)" "0 \<in> set (m_name nf)"
    and "unat (d_next_index (read_directory p s)) < 98"
  shows "fs_inv (installed p pb nf s)"
proof -
  let ?n = "h_next_free (hdr s)" and ?s = "installed p pb nf s"
  have p: "data_block s p" using fs_inv_count [OF assms(1,2)] by auto
  note acc = installed_accesses [OF assms(1) p assms(3) add_index_SomeD(1) [OF assms(4) read_directory_ok(1)] assms(5)]
  note dirs = installed_dirs [OF assms(1-6)]
  have count: "h_block_count (hdr ?s) = h_block_count (hdr s)" "h_root_directory (hdr ?s) = h_root_directory (hdr s)"
    using acc(1) by simp_all
  have db: "data_block ?s b = data_block s b" for b using count by (simp add: data_block_def)
  have meta: "asvfs_get_meta_data i ?s = asvfs_get_meta_data i s"
    if "data_block s i" "unat i < unat ?n" for i
    using acc(4) [of i] that by (auto simp: data_block_def)
  have good: "dir_good ?s b" if "is_dir ?s b" for b
  proof -
    have b: "is_dir s b" using that dirs by simp
    then have g: "dir_good s b" using assms(1) by (simp add: fs_inv_def)
    have used: "\<forall>i\<in>set (dir_used s b). data_block ?s i \<and> unat i < unat (h_next_free (hdr ?s))
        \<and> 0 \<in> set (m_name (asvfs_get_meta_data i ?s))"
      using g acc(7) by (auto simp: dir_good_def db meta)
    show ?thesis
    proof (cases "b = p")
      case True
      have "0 \<in> set (m_name (asvfs_get_meta_data ?n ?s))" using acc(3) assms(8) by simp
      then show ?thesis
        using True g used dirs(2) acc(5,7) assms(3,9) add_index_SomeD(2,3) [OF assms(4)]
        by (auto simp: dir_good_def db)
    next
      case False
      have "data_block s b" using g by (simp add: dir_good_def)
      then show ?thesis using g used dirs(3) acc(6) False by (auto simp: dir_good_def db)
    qed
  qed
  have ids: "m_id (asvfs_get_meta_data i ?s) = i" if "unat i < unat (h_block_count (hdr ?s))" for i
    using that acc(3) acc(4) [of i] assms(1,7) count by (cases "i = ?n") (auto simp: fs_inv_def)
  have "fs_format ?s" "is_dir ?s (h_root_directory (hdr ?s))"
    using assms(1) acc(1) dirs(1) by (auto simp: fs_inv_def fs_format_def header_ok_def)
  moreover have "61 + 96 * unat (h_block_count (hdr ?s)) \<le> 4096 * unat (h_next_free (hdr ?s))"
    "unat (h_next_free (hdr ?s)) \<le> unat (h_block_count (hdr ?s))" "unat (h_block_count (hdr ?s)) \<le> 1048576"
    using assms(1,3) acc(7) count by (auto simp: fs_inv_def data_block_def)
  ultimately show ?thesis using acc(2) good ids unfolding fs_inv_def by blast
qed


lemma mknod_installs:
  assumes "asvfs_get_path_parts pathname = Some (parent, name)"
    and "asvfs_get_block_id_from_pathname parent s = Some p" "is_dir s p" "p \<noteq> 0"
    and "add_index (h_next_free (hdr s)) (read_directory p s) = Some pb"
    and "strcpy_into (m_name (asvfs_get_meta_data (h_next_free (hdr s)) s)) name = Some nm"
  shows "asvfs_mknod pathname mode s = Some (0, installed p pb ((asvfs_get_meta_data (h_next_free (hdr s)) s)
     \<lparr>m_in_use := 1, m_name := nm, m_block_type := 1, m_permissions := mode\<rparr>) s)"
  using assms by (simp add: asvfs_mknod_def Let_def is_dir_def installed_def)

lemma readdir_installed:
  assumes "fs_inv s" "is_dir s p" "data_block s (h_next_free (hdr s))"
    and "add_index (h_next_free (hdr s)) (read_directory p s) = Some pb"
    and "meta_ok nf" "m_block_type nf = 1" "m_id nf = h_next_free (hdr s)" "cstr_of (m_name nf) = Some c"
    and "unat (d_next_index (read_directory p s)) < 98" "is_dir s b"
  shows "asvfs_readdir b (installed p pb nf s) = (if b = p
    then map_option (\<lambda>es. es @ [\<lparr>de_name = c, de_type = 1, de_block_id = h_next_free (hdr s)\<rparr>]) (asvfs_readdir b s)
    else asvfs_readdir b s)"
proof -
  let ?n = "h_next_free (hdr s)" and ?s = "installed p pb nf s"
  have zero: "0 \<in> set (m_name nf)" using assms(8) by (auto simp: cstr_of_def split: if_splits)
  have p: "data_block s p" using fs_inv_count [OF assms(1,2)] by auto
  note acc = installed_accesses [OF assms(1) p assms(3) add_index_SomeD(1) [OF assms(4) read_directory_ok(1)] assms(5)]
  note dirs = installed_dirs [OF assms(1-6)]
  have "fs_inv ?s" by (rule installed_inv [OF assms(1-7) zero assms(9)])
  then have good: "dir_good s b" "dir_good ?s b" using assms(1,10) dirs(1) by (auto simp: fs_inv_def)
  have old: "dir_entries_of ?s (dir_used s b) = dir_entries_of s (dir_used s b)"
  proof (rule dir_entries_cong)
    fix i assume "i \<in> set (dir_used s b)"
    then have "data_block s i" "unat i < unat ?n" using good(1) by (auto simp: dir_good_def)
    then show "asvfs_get_meta_data i ?s = asvfs_get_meta_data i s"
      using acc(4) [of i] by (auto simp: data_block_def)
  qed
  have new: "dir_entry_of ?s ?n = Some \<lparr>de_name = c, de_type = 1, de_block_id = ?n\<rparr>"
    using acc(3) assms(6-8) by (simp add: dir_entry_of_def Let_def)
  have "data_block s b" using good(1) by (simp add: dir_good_def)
  then show ?thesis
    using readdir_good(1) [OF good(1)] readdir_good(1) [OF good(2)] old new dirs(2,3)
    by (cases "dir_entries_of s (dir_used s b)") (auto simp: dir_entries_append)
qed


lemma dir_path_is_dir: "dir_path s es b p \<Longrightarrow> is_dir s p \<Longrightarrow> is_dir s b"
  by (cases es) auto

lemma dir_path_grows:
  assumes "\<And>b. is_dir s b \<Longrightarrow> is_dir s' b"
    and "\<And>b. is_dir s b \<Longrightarrow> \<exists>more. asvfs_readdir b s' = map_option (\<lambda>es. es @ more) (asvfs_readdir b s)"
  shows "dir_path s es b p \<Longrightarrow> dir_path s' es b p"
proof (induction es arbitrary: b)
  case (Cons e es)
  then obtain b' where b: "is_dir s b" "asvfs_get_block_meta_from_dir b e s = Some b'" "b' \<noteq> 0" "dir_path s es b' p"
    by auto
  then obtain xs where xs: "asvfs_readdir b s = Some xs" "find_entry xs e = b'"
    by (auto simp: asvfs_get_block_meta_from_dir_def bind_Some_conv)
  obtain more where "asvfs_readdir b s' = Some (xs @ more)" using assms(2) [OF b(1)] xs by auto
  moreover have "e \<in> de_name ` set xs" using xs(2) b(3) find_entry_absent by metis
  ultimately have "asvfs_get_block_meta_from_dir b e s' = Some b'"
    using xs(2) by (simp add: asvfs_get_block_meta_from_dir_def find_entry_append)
  then show ?case using b Cons.IH assms(1) by auto
qed simp

lemma initalize_again:
  "fs_inv s \<Longrightarrow> fst (snd (asvfs_initalize (drive s))) = s"
  by (simp add: asvfs_initalize_def fs_inv_def Let_def)

lemma mknod_step:
  assumes inv: "fs_inv s" and names: "\<forall>e\<in>set (es @ [c]). good_name e" "length c < 50"
    and path: "length (path_of es) < 1024" "dir_path s es (h_root_directory (hdr s)) p" "is_dir s p"
    and room: "unat (d_next_index (read_directory p s)) < 98" "data_block s (h_next_free (hdr s))"
    and new: "asvfs_readdir p s = Some old" "c \<notin> de_name ` set old"
  shows "\<exists>s'. asvfs_mknod (path_of (es @ [c])) mode s = Some (0, s') \<and> fs_inv s'
    \<and> asvfs_get_block_id_from_pathname (path_of (es @ [c])) s' = Some (h_next_free (hdr s))
    \<and> asvfs_readdir p s' = Some (old @ [\<lparr>de_name = c, de_type = 1, de_block_id = h_next_free (hdr s)\<rparr>])
    \<and> (\<forall>b. is_dir s b \<longrightarrow> b \<noteq> p \<longrightarrow> asvfs_readdir b s' = asvfs_readdir b s)
    \<and> fst (snd (asvfs_initalize (drive s'))) = s'
    \<and> hdr s' = (hdr s)\<lparr>h_next_free := h_next_free (hdr s) + 1\<rparr>
    \<and> dir_used s' p = dir_used s p @ [h_next_free (hdr s)] \<and> (\<forall>b. is_dir s' b \<longleftrightarrow> is_dir s b)"
proof -
  let ?n = "h_next_free (hdr s)"
  let ?m = "asvfs_get_meta_data ?n s"
  have p: "data_block s p" "p \<noteq> 0" using fs_inv_count [OF inv path(3)] by auto
  obtain pb where pb: "add_index ?n (read_directory p s) = Some pb" using room(1) by (simp add: add_index_def)
  have "length (m_name ?m) = 50" using read_directory_ok(2) [of ?n s] by (simp add: meta_ok_def)
  then obtain nm where nm: "strcpy_into (m_name ?m) c = Some nm" using names(2) by (simp add: strcpy_into_def)
  have c: "0 \<notin> set c" using names(1) by (auto simp: good_name_def)
  let ?nf = "?m\<lparr>m_in_use := 1, m_name := nm, m_block_type := 1, m_permissions := mode\<rparr>"
  let ?s = "installed p pb ?nf s"
  note nmD = strcpy_into_SomeD [OF nm c]
  have nf: "meta_ok ?nf" "m_block_type ?nf = 1" "m_id ?nf = ?n" "cstr_of (m_name ?nf) = Some c" "0 \<in> set (m_name ?nf)"
    using nmD read_directory_ok(2) [of ?n s] inv room(2) by (auto simp: meta_ok_def fs_inv_def data_block_def)
  have dirs: "\<forall>e\<in>set es. good_name e" using names(1) by simp
  have "asvfs_get_path_parts (path_of (es @ [c])) = Some (if es = [] then [slash] else path_of es, c)"
    by (rule path_parts [OF names(1) path(1)])
  then have mk: "asvfs_mknod (path_of (es @ [c])) mode s = Some (0, ?s)"
    using walk_dir_path [OF path(2)] lookup_path_of [OF dirs, of s] path(3) p(2) pb nm
    by (intro mknod_installs) simp_all
  have inv': "fs_inv ?s" by (rule installed_inv [OF inv path(3) room(2) pb nf(1-3,5) room(1)])
  note rd = readdir_installed [OF inv path(3) room(2) pb nf(1-4) room(1)]
  have same: "is_dir ?s b \<longleftrightarrow> is_dir s b" for b
    by (rule installed_dirs [OF inv path(3) room(2) pb nf(1,2)])
  have here: "asvfs_readdir p ?s = Some (old @ [\<lparr>de_name = c, de_type = 1, de_block_id = ?n\<rparr>])"
    using rd [OF path(3)] new(1) by simp
  have grow: "\<exists>more. asvfs_readdir b ?s = map_option (\<lambda>es. es @ more) (asvfs_readdir b s)" if "is_dir s b" for b
  proof (cases "b = p")
    case True
    then show ?thesis using rd [OF that]
      by (intro exI [of _ "[\<lparr>de_name = c, de_type = 1, de_block_id = ?n\<rparr>]"]) simp
  next
    case False
    then show ?thesis using rd [OF that] by (intro exI [of _ "[]"]) (simp add: option.map_ident)
  qed
  have "dir_path ?s es (h_root_directory (hdr s)) p"
    by (rule dir_path_grows [OF _ grow path(2)]) (simp_all only: same)
  then have "walk (es @ [c]) (h_root_directory (hdr s)) ?s = asvfs_get_block_meta_from_dir p c ?s"
    by (rule walk_dir_path_append)
  also have "\<dots> = Some ?n"
    using here new(2) by (simp add: asvfs_get_block_meta_from_dir_def find_entry_append)
  finally have "asvfs_get_block_id_from_pathname (path_of (es @ [c])) ?s = Some ?n"
    using lookup_path_of [of "es @ [c]" ?s] names(1) by (simp add: installed_def)
  moreover have "\<forall>b. is_dir s b \<longrightarrow> b \<noteq> p \<longrightarrow> asvfs_readdir b ?s = asvfs_readdir b s"
    using rd by simp
  moreover have "hdr ?s = (hdr s)\<lparr>h_next_free := ?n + 1\<rparr>" by (simp add: installed_def)
  moreover have "dir_used ?s p = dir_used s p @ [?n]"
    by (rule installed_dirs [OF inv path(3) room(2) pb nf(1,2)])
  ultimately show ?thesis using mk inv' here same initalize_again [OF inv'] by blast
qed



section \<open>Removing a file\<close>

lemma unlink_loop_shift:
  "i \<le> n \<Longrightarrow> n \<le> length xs \<Longrightarrow> length xs = 256 \<Longrightarrow>
   unlink_loop (n - i) i n child True xs
     = Some (take i xs @ drop (Suc i) (take n xs) @ (if i < n then [0] else []) @ drop n xs)"
proof (induction "n - i" arbitrary: i xs)
  case 0
  then show ?case by simp
next
  case (Suc m)
  then have i: "i < n" "n - i = Suc m" "m = n - Suc i" by simp_all
  let ?v = "if i + 1 \<ge> 256 then 0 else if i = n - 1 then 0 else xs ! (i + 1)"
  let ?ys = "xs[i := ?v]"
  have "unlink_loop (n - i) i n child True xs = unlink_loop (n - Suc i) (Suc i) n child True ?ys"
  proof -
    have "n - i = Suc (n - Suc i)" using i(1) by simp
    then show ?thesis using i(1) Suc.prems by (simp add: Let_def)
  qed
  also have "\<dots> = Some (take (Suc i) ?ys @ drop (Suc (Suc i)) (take n ?ys)
      @ (if Suc i < n then [0] else []) @ drop n ?ys)"
    using Suc.prems i by (intro Suc.hyps(1)) simp_all
  also have "\<dots> = Some (take i xs @ drop (Suc i) (take n xs) @ (if i < n then [0] else []) @ drop n xs)"
  proof (cases "Suc i < n")
    case True
    then have "drop (Suc i) (take n xs) = xs ! Suc i # drop (Suc (Suc i)) (take n xs)"
      using Suc.prems by (simp add: Cons_nth_drop_Suc [symmetric])
    moreover have v: "?v = xs ! Suc i" using True Suc.prems by (auto simp del: One_nat_def simp flip: Suc_eq_plus1)
    have "take (Suc i) ?ys = take i xs @ [xs ! Suc i]"
      unfolding v using True Suc.prems by (simp add: take_Suc_conv_app_nth)
    ultimately show ?thesis using True Suc.prems unfolding v by (simp add: take_update_swap drop_update_cancel)
  next
    case False
    then have "Suc i = n" using i by simp
    then have v: "?v = 0" by auto
    have "take (Suc i) (xs[i := 0]) = take i xs @ [0]"
      using i Suc.prems by (simp add: take_Suc_conv_app_nth)
    then show ?thesis using \<open>Suc i = n\<close> Suc.prems i unfolding v by (auto simp: drop_update_cancel)
  qed
  finally show ?case .
qed

lemma unlink_loop_finds:
  assumes "take n xs = as @ child # bs" "child \<notin> set as" "n \<le> length xs" "length xs = 256"
  shows "\<exists>ys. unlink_loop n 0 n child False xs = Some ys \<and> length ys = 256 \<and> take (n - 1) ys = as @ bs"
proof -
  let ?k = "length as"
  have n: "n = ?k + Suc (length bs)" using arg_cong [OF assms(1), of length] assms(3) by simp
  have nth: "xs ! i = (as @ child # bs) ! i" if "i < n" for i
    using assms(1) that by (metis nth_take)
  have search: "unlink_loop (n - i) i n child False xs = unlink_loop (n - ?k) ?k n child True xs" if "i \<le> ?k" for i
    using that
  proof (induction "?k - i" arbitrary: i)
    case 0
    then have "i = ?k" by simp
    then show ?case using n nth [of ?k] assms(3) by (simp add: Let_def)
  next
    case (Suc m)
    then have "i < ?k" by simp
    then have "xs ! i \<noteq> child" using nth [of i] n assms(2) by (auto simp: nth_append)
    moreover have "n - i = Suc (n - Suc i)" using \<open>i < ?k\<close> n by simp
    ultimately have "unlink_loop (n - i) i n child False xs = unlink_loop (n - Suc i) (Suc i) n child False xs"
      using \<open>i < ?k\<close> n assms(3) by (simp add: Let_def)
    then show ?case using Suc by simp
  qed
  have "unlink_loop n 0 n child False xs
      = Some (take ?k xs @ drop (Suc ?k) (take n xs) @ (if ?k < n then [0] else []) @ drop n xs)"
    using search [of 0] unlink_loop_shift [of ?k n xs child] n assms by simp
  moreover have "take ?k xs = as" using arg_cong [OF assms(1), of "take ?k"] n by (simp add: min_def)
  moreover have "drop (Suc ?k) (take n xs) = bs" by (simp add: assms(1))
  ultimately show ?thesis using n assms(3,4) by auto
qed

lemma remove_index_SomeD:
  assumes "dir_ok d" "child \<in> set (take (unat (d_next_index d)) (d_index d))" "unat (d_next_index d) \<le> 256"
  shows "\<exists>d'. remove_index child d = Some d' \<and> dir_ok d' \<and> d_type d' = d_type d
    \<and> unat (d_next_index d') = unat (d_next_index d) - 1
    \<and> take (unat (d_next_index d')) (d_index d') = remove1 child (take (unat (d_next_index d)) (d_index d))"
proof -
  let ?n = "unat (d_next_index d)"
  obtain as bs where sp: "take ?n (d_index d) = as @ child # bs" "child \<notin> set as"
    using split_list_first [OF assms(2)] by blast
  obtain ys where ys: "unlink_loop ?n 0 ?n child False (d_index d) = Some ys" "length ys = 256"
      "take (?n - 1) ys = as @ bs"
    using unlink_loop_finds [OF sp] assms(1,3) by (auto simp: dir_ok_def)
  have "d_next_index d \<noteq> 0" using sp(1) by (intro notI) simp
  then have "unat (d_next_index d - 1) = ?n - 1" by (simp add: unat_minus_one)
  moreover have "remove1 child (as @ child # bs) = as @ bs" using sp(2) by (simp add: remove1_append)
  ultimately show ?thesis
    using ys assms(1) sp(1) \<open>d_next_index d \<noteq> 0\<close> by (auto simp: remove_index_def dir_ok_def)
qed


lemma header_write_block:
  assumes "fs_format s" "data_block s b"
  shows "disk_read 0 61 (drive (asvfs_write_block b x s)) = disk_read 0 61 (drive s)"
proof -
  have "61 \<le> 4096 * unat b" using assms(2) by (simp add: data_block_def)
  then show ?thesis using assms
    by (simp add: asvfs_write_block_def disk_read_other fs_format_def block_address data_block_def)
qed

text \<open>Rewriting one directory with some of its old indexes keeps the invariant.\<close>

lemma rewritten_inv:
  assumes "fs_inv s" "is_dir s p" "dir_ok d" "d_type d = 2" "unat (d_next_index d) \<le> 98"
    and "set (take (unat (d_next_index d)) (d_index d)) \<subseteq> set (dir_used s p)"
  shows "fs_inv (asvfs_write_block p (dir_bytes d) s)" "is_dir (asvfs_write_block p (dir_bytes d) s) b \<longleftrightarrow> is_dir s b"
    "is_dir s b \<Longrightarrow> asvfs_readdir b (asvfs_write_block p (dir_bytes d) s) = (if b = p
       then map_option ((@) dot_entries) (dir_entries_of s (take (unat (d_next_index d)) (d_index d)))
       else asvfs_readdir b s)"
proof -
  let ?s = "asvfs_write_block p (dir_bytes d) s"
  have p: "data_block s p" and f: "fs_format s" using fs_inv_count [OF assms(1,2)] assms(1) by (auto simp: fs_inv_def)
  have db: "data_block ?s b = data_block s b" for b by (simp add: data_block_def)
  have meta: "asvfs_get_meta_data i ?s = asvfs_get_meta_data i s" if "unat i < unat (h_block_count (hdr s))" for i
    using that f p by (simp add: disk_simps)
  have same: "is_dir ?s b \<longleftrightarrow> is_dir s b" for b
    using assms(1) meta [of b] by (cases "unat b < unat (h_next_free (hdr s))") (auto simp: is_dir_def fs_inv_def)
  then show "is_dir ?s b \<longleftrightarrow> is_dir s b" .
  have good: "dir_good ?s b" if "is_dir s b" for b
  proof -
    have g: "dir_good s b" "dir_good s p" using that assms(1,2) by (auto simp: fs_inv_def)
    then have used: "\<forall>i\<in>set (dir_used s b) \<union> set (dir_used s p). data_block ?s i \<and> unat i < unat (h_next_free (hdr ?s))
        \<and> 0 \<in> set (m_name (asvfs_get_meta_data i ?s))"
      by (auto simp: dir_good_def db meta data_block_def)
    show ?thesis
    proof (cases "b = p")
      case True
      then show ?thesis using used assms(3-6) f p by (auto simp: dir_good_def db dir_used_def disk_simps)
    next
      case False
      have "read_directory b ?s = read_directory b s"
        using g(1) False f p assms(3) by (simp add: disk_simps dir_good_def)
      then show ?thesis using used g(1) by (auto simp: dir_good_def db dir_used_def)
    qed
  qed
  show "fs_inv ?s"
    using assms(1) good same meta f header_write_block [OF f p] by (auto simp: fs_inv_def fs_format_def)
  show "asvfs_readdir b ?s = (if b = p
       then map_option ((@) dot_entries) (dir_entries_of s (take (unat (d_next_index d)) (d_index d)))
       else asvfs_readdir b s)" if b: "is_dir s b"
  proof -
    have g: "dir_good s b" "dir_good s p" using b assms(1,2) by (auto simp: fs_inv_def)
    have "dir_entries_of ?s xs = dir_entries_of s xs" if "set xs \<subseteq> set (dir_used s b) \<union> set (dir_used s p)" for xs
      using that g by (intro dir_entries_cong meta) (auto simp: dir_good_def data_block_def)
    moreover have "dir_used ?s p = take (unat (d_next_index d)) (d_index d)"
      using f p assms(3) by (simp add: dir_used_def disk_simps)
    moreover have "b \<noteq> p \<Longrightarrow> dir_used ?s b = dir_used s b"
      using f p g(1) assms(3) by (simp add: dir_used_def disk_simps dir_good_def)
    ultimately show ?thesis
      using readdir_good(1) [OF good [OF b]] readdir_good(1) [OF g(1)] assms(6) by auto
  qed
qed

lemma dir_entries_filter:
  "dir_entries_of s xs = Some es \<Longrightarrow> \<forall>i\<in>set xs. m_id (asvfs_get_meta_data i s) = i \<Longrightarrow>
   dir_entries_of s (filter (\<lambda>i. i \<noteq> x) xs) = Some (filter (\<lambda>e. de_block_id e \<noteq> x) es)"
  by (induction xs arbitrary: es) (auto simp: bind_Some_conv dir_entry_of_def Let_def)

lemma find_entry_member:
  "find_entry es c \<noteq> 0 \<Longrightarrow> find_entry es c \<in> de_block_id ` set es"
  by (induction es) auto

lemma entries_ids:
  "dir_entries_of s xs = Some es \<Longrightarrow> \<forall>i\<in>set xs. m_id (asvfs_get_meta_data i s) = i \<Longrightarrow> map de_block_id es = xs"
  by (induction xs arbitrary: es) (auto simp: bind_Some_conv dir_entry_of_def Let_def)



section \<open>Writing and reading\<close>

text \<open>A change of a block that is no directory, and of sizes in its record.\<close>

lemma content_write_keeps:
  assumes "fs_inv s" "hdr s' = hdr s" "disk_read 0 61 (drive s') = disk_read 0 61 (drive s)" "\<not> is_dir s b"
    and meta: "\<And>i. unat i < unat (h_block_count (hdr s)) \<Longrightarrow>
      m_id (asvfs_get_meta_data i s') = m_id (asvfs_get_meta_data i s) \<and>
      m_block_type (asvfs_get_meta_data i s') = m_block_type (asvfs_get_meta_data i s) \<and>
      m_name (asvfs_get_meta_data i s') = m_name (asvfs_get_meta_data i s)"
    and dirs: "\<And>d. data_block s d \<Longrightarrow> d \<noteq> b \<Longrightarrow> read_directory d s' = read_directory d s"
  shows "fs_inv s'" "is_dir s' d \<longleftrightarrow> is_dir s d" "is_dir s d \<Longrightarrow> asvfs_readdir d s' = asvfs_readdir d s"
proof -
  have db: "data_block s' b = data_block s b" for b using assms(2) by (simp add: data_block_def)
  have same: "is_dir s' b \<longleftrightarrow> is_dir s b" for b
    using assms(1,2) meta [of b] by (cases "unat b < unat (h_next_free (hdr s))") (auto simp: is_dir_def fs_inv_def)
  then show "is_dir s' d \<longleftrightarrow> is_dir s d" .
  have rd: "read_directory d s' = read_directory d s" if "is_dir s d" for d
    using that dirs [of d] fs_inv_count [OF assms(1) that] assms(4) by auto
  have good: "dir_good s' d" if "is_dir s d" for d
  proof -
    have "dir_good s d" using that assms(1) by (simp add: fs_inv_def)
    then show ?thesis
      using rd [OF that] meta by (auto simp: dir_good_def dir_used_def db assms(2) data_block_def)
  qed
  show "fs_inv s'"
    using assms(1-3) same good meta by (auto simp: fs_inv_def fs_format_def)
  show "asvfs_readdir d s' = asvfs_readdir d s" if "is_dir s d"
  proof -
    have g: "dir_good s d" using that assms(1) by (simp add: fs_inv_def)
    have "dir_entry_of s' i = dir_entry_of s i" if "i \<in> set (dir_used s d)" for i
      using meta [of i] that g by (auto simp: dir_entry_of_def Let_def dir_good_def data_block_def)
    then have "set xs \<subseteq> set (dir_used s d) \<Longrightarrow> dir_entries_of s' xs = dir_entries_of s xs" for xs
      by (induction xs) auto
    then show ?thesis
      using readdir_good(1) [OF g] readdir_good(1) [OF good [OF that]] rd [OF that] by (simp add: dir_used_def)
  qed
qed

definition put_bytes :: "u32 \<Rightarrow> nat \<Rightarrow> u8 list \<Rightarrow> asvfs \<Rightarrow> asvfs" where
  "put_bytes b off bs s = s\<lparr>drive := disk_write (4096 * unat b + off) bs (drive s)\<rparr>"

lemma put_bytes_accesses:
  assumes "data_block s b" "off + length bs \<le> 4096"
  shows "hdr (put_bytes b off bs s) = hdr s"
    "disk_read 0 61 (drive (put_bytes b off bs s)) = disk_read 0 61 (drive s)"
    "unat i < unat (h_block_count (hdr s)) \<Longrightarrow> asvfs_get_meta_data i (put_bytes b off bs s) = asvfs_get_meta_data i s"
    "data_block s d \<Longrightarrow> d \<noteq> b \<Longrightarrow> n \<le> 4096 \<Longrightarrow> asvfs_read_block d n (put_bytes b off bs s) = asvfs_read_block d n s"
    "data_block s d \<Longrightarrow> d \<noteq> b \<Longrightarrow> read_directory d (put_bytes b off bs s) = read_directory d s"
proof -
  have lo: "61 + 96 * unat (h_block_count (hdr s)) \<le> 4096 * unat b" using assms(1) by (simp add: data_block_def)
  show "hdr (put_bytes b off bs s) = hdr s" by (simp add: put_bytes_def)
  show "disk_read 0 61 (drive (put_bytes b off bs s)) = disk_read 0 61 (drive s)"
    using lo by (simp add: put_bytes_def disk_read_other)
  show "asvfs_get_meta_data i (put_bytes b off bs s) = asvfs_get_meta_data i s"
    if "unat i < unat (h_block_count (hdr s))"
    using lo that by (simp add: put_bytes_def asvfs_get_meta_data_def disk_read_other)
  have other: "asvfs_read_block d n (put_bytes b off bs s) = asvfs_read_block d n s"
    if "data_block s d" "d \<noteq> b" "n \<le> 4096" for n
  proof -
    have "unat d \<noteq> unat b" using that(2) by (metis word_unat_eq_iff)
    then have "4096 * unat d + n \<le> 4096 * unat b + off \<or> 4096 * unat b + off + length bs \<le> 4096 * unat d"
      using that(3) assms(2) by linarith
    moreover have "unat (d * 4096) = 4096 * unat d" using that(1) by (simp add: block_address data_block_def)
    ultimately show ?thesis by (simp add: put_bytes_def asvfs_read_block_def disk_read_other)
  qed
  then show "asvfs_read_block d n (put_bytes b off bs s) = asvfs_read_block d n s"
    if "data_block s d" "d \<noteq> b" "n \<le> 4096" using that by blast
  show "read_directory d (put_bytes b off bs s) = read_directory d s" if "data_block s d" "d \<noteq> b"
    using other [OF that] by (simp add: read_directory_def)
qed

lemma file_address:
  assumes "h_block_size (hdr s) = 4096" "unat b < 1048576" "unat offset \<le> 4096"
  shows "unat (b * h_block_size (hdr s) + offset) = (4096 * unat b + unat offset) mod 4294967296"
  using assms by (simp add: unat_word_ariths block_address mult.commute)

lemma file_write_address:
  assumes "h_block_size (hdr s) = 4096" "unat b < 1048576" "unat offset + length bs \<le> 4096"
  shows "disk_write (unat (b * h_block_size (hdr s) + offset)) bs d = disk_write (4096 * unat b + unat offset) bs d"
proof (cases "bs = []")
  case False
  then have "unat offset < 4096" using assms(3) by (cases bs) simp_all
  then show ?thesis using file_address [OF assms(1,2), of offset] assms(2) by simp
qed (auto simp: disk_write_def fun_eq_iff)

lemma unat_range:
  "unat (offset :: u32) + unat (n :: u64) < 18446744073709551616 \<Longrightarrow>
    unat (ucast offset + n :: u64) = unat offset + unat n"
  by (simp add: unat_word_ariths)

lemma unat_range_32:
  "unat (offset :: u32) + unat (n :: u64) < 4294967296 \<Longrightarrow>
    unat (ucast (ucast offset + n :: u64) :: u32) = unat offset + unat n"
  by (simp only: unsigned_ucast_eq unat_range) (simp add: take_bit_eq_mod unat_range)


lemma entry_data_block:
  assumes "fs_inv s" "is_dir s p" "asvfs_get_block_meta_from_dir p c s = Some b" "b \<noteq> 0"
  shows "data_block s b"
proof -
  have g: "dir_good s p" using assms(1,2) by (simp add: fs_inv_def)
  obtain xs where xs: "dir_entries_of s (dir_used s p) = Some xs" "asvfs_readdir p s = Some (dot_entries @ xs)"
    using readdir_good [OF g] by auto
  have ids: "\<forall>i\<in>set (dir_used s p). m_id (asvfs_get_meta_data i s) = i"
    using g assms(1) by (auto simp: dir_good_def fs_inv_def data_block_def)
  have "find_entry (dot_entries @ xs) c = b" using assms(3) xs(2) by (simp add: asvfs_get_block_meta_from_dir_def)
  then have "b \<in> de_block_id ` set (dot_entries @ xs)" using find_entry_member assms(4) by metis
  then have "b \<in> set (dir_used s p)"
    using arg_cong [OF entries_ids [OF xs(1) ids], of set] assms(4) by (auto simp: dot_entries_def)
  then show ?thesis using g by (simp add: dir_good_def)
qed

lemma sint_write_count: "unat n \<le> 4096 \<Longrightarrow> sint (ucast (n :: u64) :: u32) = int (unat n)"
proof -
  assume "unat n \<le> 4096"
  then have "unat (ucast n :: u32) = unat n" by (simp add: unsigned_ucast_eq take_bit_eq_mod)
  then have "uint (ucast n :: u32) = uint n" by (simp only: uint_nat)
  moreover have "uint n \<le> 4096" using \<open>unat n \<le> 4096\<close> by (simp only: uint_nat)
  moreover have "signed_take_bit 31 k = k" if "0 \<le> k" "k \<le> 4096" for k :: int
  proof -
    have "(2 :: int) ^ 31 = 2147483648" by simp
    with that show ?thesis by (intro signed_take_bit_int_eq_self) linarith+
  qed
  ultimately show ?thesis by (simp add: sint_uint)
qed

text \<open>The size is recorded, nothing moves, when the file stays within one block.\<close>

lemma truncate_within:
  assumes "unat n \<le> 4096"
  shows "asvfs_truncate_file_block_id b n s
    = (0, asvfs_write_meta_data b ((asvfs_get_meta_data b s)\<lparr>m_file_size := n\<rparr>) s)"
proof -
  have "\<not> 4096 < n" using assms by (simp add: word_less_nat_alt)
  then show ?thesis by (simp add: asvfs_truncate_file_block_id_def Let_def)
qed



text \<open>A file that outgrows its block destroys its neighbour. A write
  of a range that goes past the end of the file's block puts its rest over the
  block behind it, whoever owns that one: the blocks the truncation hands out
  to the file are never written.\<close>

theorem long_write_clobbers:
  assumes "fs_format s" "data_block s b" "data_block s (b + 1)" "b \<noteq> 0"
    and "unat offset \<le> 4096" "unat offset + unat n = 4096 + k" "k \<le> 4096" "unat n \<le> length buff"
  shows "\<exists>r s'. asvfs_write_file_block_id b buff offset n s = Some (r, s')
    \<and> asvfs_read_block (b + 1) k s' = drop (4096 - unat offset) (take (unat n) buff)"
proof -
  have bs: "h_block_size (hdr s) = 4096" using assms(1) by (simp add: fs_format_def)
  have bl: "unat b < 1048576" "unat (b + 1) < 1048576" using assms(2,3) by (auto simp: data_block_def)
  then have b1: "unat (b + 1) = unat b + 1" by (simp add: unat_word_ariths)
  obtain s1 where tr: "(if ucast (m_file_size (asvfs_get_meta_data b s)) < (ucast offset + n :: u64)
      then asvfs_truncate_file_block_id b (ucast (ucast offset + n :: u64)) s else (0, s)) = (0, s1)"
  proof -
    have "\<exists>t. asvfs_truncate_file_block_id b m s = (0, t)" for m
      by (simp add: asvfs_truncate_file_block_id_def split_beta Let_def)
    then show ?thesis using that by (cases "ucast (m_file_size (asvfs_get_meta_data b s)) < (ucast offset + n :: u64)") auto
  qed
  let ?at = "unat (b * h_block_size (hdr s) + offset)"
  let ?s' = "s1\<lparr>drive := disk_write ?at (take (unat n) buff) (drive s1)\<rparr>"
  have w: "asvfs_write_file_block_id b buff offset n s = Some (sint (ucast n :: u32), ?s')"
    using assms(8) tr by (simp add: asvfs_write_file_block_id_def)
  have at: "?at = 4096 * unat b + unat offset" using file_address [OF bs bl(1) assms(5)] bl(2) assms(5) unfolding b1 by simp
  have "asvfs_read_block (b + 1) k ?s' = drop (4096 - unat offset) (take (unat n) buff)"
  proof (rule nth_equalityI)
    show "length (asvfs_read_block (b + 1) k ?s') = length (drop (4096 - unat offset) (take (unat n) buff))"
      using assms(5-8) by (simp add: asvfs_read_block_def)
  next
    fix i assume "i < length (asvfs_read_block (b + 1) k ?s')"
    then have i: "i < k" by (simp add: asvfs_read_block_def)
    have "unat ((b + 1) * 4096) = 4096 * unat b + 4096" using block_address [OF bl(2)] unfolding b1 by simp
    then show "asvfs_read_block (b + 1) k ?s' ! i = drop (4096 - unat offset) (take (unat n) buff) ! i"
      using i assms(5-8) unfolding at
      by (simp add: asvfs_read_block_def disk_read_def disk_write_def)
  qed
  with w show ?thesis by blast
qed


section \<open>A small drive\<close>

definition demo_meta :: "u32 \<Rightarrow> u8 \<Rightarrow> asvfs_block_meta_data" where
  "demo_meta i ty = \<lparr>m_id = i, m_block_type = ty, m_name = replicate 50 0, m_file_size = 0,
     m_starting_block = i, m_num_blocks = 1, m_in_use = 0, m_permissions = 0, m_reserved = replicate 26 0\<rparr>"

definition demo_fs :: asvfs where
  "demo_fs = asvfs_write_header (asvfs_write_block 1
     (dir_bytes \<lparr>d_type = 2, d_index = replicate 256 0, d_next_index = 0, d_reserved = replicate 32 0\<rparr>)
     (asvfs_write_meta_data 3 (demo_meta 3 0) (asvfs_write_meta_data 2 (demo_meta 2 0)
       (asvfs_write_meta_data 1 (demo_meta 1 2) (asvfs_write_meta_data 0 (demo_meta 0 0)
         \<lparr>drive = (\<lambda>_. 0), hdr = \<lparr>h_magic = [0x41, 0x46, 0x53, 0x20], h_version = 2, h_size = 16384,
            h_block_size = 4096, h_block_count = 4, h_root_directory = 1, h_next_free = 2,
            h_reserved = replicate 32 0\<rparr>\<rparr>)))))"

lemma demo_meta_ok [simp]: "meta_ok (demo_meta i ty)"
  by (simp add: demo_meta_def meta_ok_def)

lemma demo_hdr [simp]:
  "h_block_size (hdr demo_fs) = 4096" "h_block_count (hdr demo_fs) = 4" "h_root_directory (hdr demo_fs) = 1"
  "h_next_free (hdr demo_fs) = 2" "header_ok (hdr demo_fs)"
  by (simp_all add: demo_fs_def header_ok_def)

lemma demo_metas:
  "asvfs_get_meta_data 0 demo_fs = demo_meta 0 0" "asvfs_get_meta_data 1 demo_fs = demo_meta 1 2"
  "asvfs_get_meta_data 2 demo_fs = demo_meta 2 0" "asvfs_get_meta_data 3 demo_fs = demo_meta 3 0"
  by (simp_all add: demo_fs_def disk_simps header_ok_def fs_format_def data_block_def)

lemma demo_root: "read_directory 1 demo_fs
    = \<lparr>d_type = 2, d_index = replicate 256 0, d_next_index = 0, d_reserved = replicate 32 0\<rparr>"
  by (simp add: demo_fs_def disk_simps header_ok_def fs_format_def data_block_def dir_ok_def)

lemma below_four: "unat (i :: u32) < 4 \<Longrightarrow> i \<in> {0, 1, 2, 3}"
proof -
  assume "unat i < 4"
  then have "unat i = 0 \<or> unat i = 1 \<or> unat i = 2 \<or> unat i = 3" by linarith
  moreover have "i = of_nat (unat i)" by simp
  ultimately have "i = of_nat 0 \<or> i = of_nat 1 \<or> i = of_nat 2 \<or> i = of_nat 3" by metis
  then show ?thesis by simp
qed

lemma demo_inv: "fs_inv demo_fs" and demo_is_dir: "is_dir demo_fs b \<longleftrightarrow> b = 1"
proof -
  have d: "is_dir demo_fs b \<longleftrightarrow> b = 1" for b
  proof
    assume "is_dir demo_fs b"
    then have "unat b < 2" "m_block_type (asvfs_get_meta_data b demo_fs) = 2" by (auto simp: is_dir_def)
    moreover from this below_four [of b] have "b \<in> {0, 1, 2, 3}" by simp
    ultimately show "b = 1" by (auto simp: demo_metas demo_meta_def)
  qed (simp add: is_dir_def demo_metas demo_meta_def)
  then show "is_dir demo_fs b \<longleftrightarrow> b = 1" .
  have "m_id (asvfs_get_meta_data i demo_fs) = i" if "unat i < 4" for i
    using below_four [OF that] by (auto simp: demo_metas demo_meta_def)
  moreover have "header_of (disk_read 0 61 (drive demo_fs)) = hdr demo_fs"
    unfolding demo_fs_def by (subst header_written) (simp_all add: header_ok_def)
  ultimately show "fs_inv demo_fs"
    using d by (auto simp: fs_inv_def fs_format_def dir_good_def data_block_def dir_used_def demo_root)
qed


lemma demo_names [simp]: "good_name [0x61]" "good_name [0x62]"
  by (simp_all add: good_name_def)

lemma demo_mknod:
  "\<exists>s'. asvfs_mknod [slash, 0x61] 6 demo_fs = Some (0, s') \<and> fs_inv s'
    \<and> asvfs_readdir 1 s' = Some (dot_entries @ [\<lparr>de_name = [0x61], de_type = 1, de_block_id = 2\<rparr>])
    \<and> hdr s' = (hdr demo_fs)\<lparr>h_next_free := 3\<rparr> \<and> dir_used s' 1 = [2] \<and> (\<forall>b. is_dir s' b \<longleftrightarrow> b = 1)"
proof -
  have "asvfs_readdir 1 demo_fs = Some dot_entries"
    by (simp add: asvfs_readdir_def demo_root)
  then show ?thesis
    using mknod_step [of demo_fs "[]" "[0x61]" 1 dot_entries 6] demo_inv
    by (auto simp: demo_is_dir demo_root data_block_def dot_entries_def dir_used_def)
qed




lemma long_write_clobbers_witness:
  "\<exists>r s'. asvfs_write_file_block_id 2 [7, 8, 9] 4094 3 demo_fs = Some (r, s') \<and> asvfs_read_block 3 1 s' = [9]"
  using long_write_clobbers [of demo_fs 2 4094 3 1 "[7, 8, 9]"]
  by (simp add: fs_format_def data_block_def)

lemma lookup_is_walk_witness:
  "asvfs_get_block_id_from_pathname [slash, slash, 0x61, slash] demo_fs = walk [[0x61]] 1 demo_fs"
proof -
  have "elements [slash, slash, 0x61, slash] = [[0x61]]"
    by (subst elements.simps, simp, subst elements.simps, simp)
  then show ?thesis using lookup_is_walk [of "[slash, slash, 0x61, slash]" demo_fs] by simp
qed

lemma path_parts_split_witness:
  "asvfs_get_path_parts (path_of ([[0x61]] @ [[0x62]])) = Some ([slash, 0x61], [0x62])"
  using path_parts_split [of "[[0x61]]" "[0x62]"] by simp

end
