(* ===== verification/VfsProps.thy ===== *)
theory VfsProps
  imports Rfs AsvfsProps
begin

text \<open>
  The virtual file system: the mount point of a path is the deepest one mounted
  at a prefix of its elements; at boot /dev belongs to RFS and everything else to
  ASVFS; a device file leads to its driver; a read of a file in memory through
  the table copies nothing; a directory is listed entry by entry.
\<close>

section \<open>The deepest mount point\<close>

definition path_str :: "u8 list list \<Rightarrow> u8 list" where
  "path_str es = (if es = [] then [slash] else path_of es)"

definition mounted_at :: "vfs_mount_point list \<Rightarrow> u8 list list \<Rightarrow> vfs_mount_point option" where
  "mounted_at ms es = find_mount ms (path_str es)"

lemma path_elements_name:
  "slash \<notin> set e \<Longrightarrow> path_elements first name (e @ cs) =
    (if e = [] then path_elements first name cs else path_elements False (name @ e) cs)"
proof (induction e arbitrary: first name)
  case (Cons c e)
  then show ?case by (cases "e = []") auto
qed simp

lemma path_elements_path_of:
  "\<forall>e\<in>set (e # es). good_name e \<Longrightarrow> path_elements False [] (e @ path_of es) = e # es"
proof (induction es arbitrary: e)
  case Nil
  then show ?case by (auto simp: path_elements_name [of _ _ _ "[]", simplified] good_name_def)
next
  case (Cons f es)
  then have e: "e \<noteq> []" "slash \<notin> set e" "f @ path_of es \<noteq> []" by (auto simp: good_name_def)
  then have "path_elements False [] (e @ path_of (f # es)) = e # path_elements False [] (f @ path_of es)"
    by (simp add: path_elements_name)
  then show ?case using Cons by simp
qed

lemma path_elements_str:
  assumes "\<forall>e\<in>set es. good_name e"
  shows "path_elements True [] (path_str es) = [slash] # es"
proof (cases es)
  case (Cons e fs)
  then have "e @ path_of fs \<noteq> []" using assms by (auto simp: good_name_def)
  then show ?thesis using path_elements_path_of [of e fs] assms Cons by (simp add: path_str_def)
qed (simp add: path_str_def)

text \<open>What the rest of the walk finds: r, or what was found before.\<close>

definition deepest_from :: "nat \<Rightarrow> vfs_mount_point list \<Rightarrow> u8 list list \<Rightarrow> vfs_mount_point \<Rightarrow> bool" where
  "deepest_from i ms es m \<longleftrightarrow> (\<exists>k. i \<le> k \<and> k \<le> length es \<and> mounted_at ms (take k es) = Some m
     \<and> (\<forall>j. k < j \<longrightarrow> j \<le> length es \<longrightarrow> mounted_at ms (take j es) = None))"

definition none_from :: "nat \<Rightarrow> vfs_mount_point list \<Rightarrow> u8 list list \<Rightarrow> bool" where
  "none_from i ms es \<longleftrightarrow> (\<forall>j. i \<le> j \<longrightarrow> j \<le> length es \<longrightarrow> mounted_at ms (take j es) = None)"

lemma deepest_from_later: "deepest_from (Suc i) ms es m \<Longrightarrow> deepest_from i ms es m"
  by (auto simp: deepest_from_def) (metis Suc_leD)

lemma none_from_step: "none_from (Suc i) ms es \<Longrightarrow> mounted_at ms (take i es) = None \<Longrightarrow> none_from i ms es"
  by (auto simp: none_from_def) (metis le_antisym not_less_eq_eq)

lemma deepest_from_here:
  "none_from (Suc i) ms es \<Longrightarrow> mounted_at ms (take i es) = Some m \<Longrightarrow> i \<le> length es \<Longrightarrow> deepest_from i ms es m"
  unfolding deepest_from_def none_from_def by (intro exI [of _ i]) auto

lemma mount_walk_rest:
  "ds \<noteq> [] \<Longrightarrow> length (path_of (ds @ rest)) < 255 \<Longrightarrow>
    \<exists>r. mount_walk ms False (path_of ds) rest far = Some r
      \<and> (r = far \<and> none_from (length ds) ms (ds @ rest) \<or> (\<exists>m. r = Some m \<and> deepest_from (length ds) ms (ds @ rest) m))"
proof (induction rest arbitrary: ds far)
  case Nil
  have here: "take (length ds) ds = ds" and none: "none_from (Suc (length ds)) ms ds" by (simp_all add: none_from_def)
  have "mount_walk ms False (path_of ds) [] far = Some (case mounted_at ms ds of None \<Rightarrow> far | Some m \<Rightarrow> Some m)"
    using Nil by (subst mount_walk.simps) (simp add: mounted_at_def path_str_def)
  then show ?case
    using none_from_step [OF none] deepest_from_here [OF none] here by (cases "mounted_at ms ds") auto
next
  case (Cons e rest)
  define far' where "far' = (case mounted_at ms ds of None \<Rightarrow> far | Some m \<Rightarrow> Some m)"
  have "mount_walk ms False (path_of ds) (e # rest) far = mount_walk ms False (path_of (ds @ [e])) rest far'"
    using Cons.prems by (subst mount_walk.simps) (simp add: far'_def mounted_at_def path_str_def Let_def)
  then obtain r where r: "mount_walk ms False (path_of ds) (e # rest) far = Some r"
      "r = far' \<and> none_from (Suc (length ds)) ms (ds @ e # rest)
        \<or> (\<exists>m. r = Some m \<and> deepest_from (Suc (length ds)) ms (ds @ e # rest) m)"
    using Cons.IH [of "ds @ [e]" far'] Cons.prems by auto
  have here: "take (length ds) (ds @ e # rest) = ds" by simp
  show ?case
  proof (cases "mounted_at ms ds")
    case None
    then have "far' = far" by (simp add: far'_def)
    with r None show ?thesis
      by (metis deepest_from_later here none_from_step)
  next
    case (Some m)
    then have "far' = Some m" by (simp add: far'_def)
    moreover have "none_from (Suc (length ds)) ms (ds @ e # rest) \<Longrightarrow> deepest_from (length ds) ms (ds @ e # rest) m"
      by (rule deepest_from_here) (simp_all add: here Some)
    ultimately show ?thesis using r deepest_from_later by metis
  qed
qed

lemma mount_lookup:
  assumes names: "\<forall>e\<in>set es. good_name e" and "length es < 25" "length (path_of es) < 255"
  shows "if mounted_at (mount_points v) [] = None then vfs_get_mount_point_from_path (path_str es) v = Some None
    else \<exists>m. vfs_get_mount_point_from_path (path_str es) v = Some (Some m) \<and> deepest_from 0 (mount_points v) es m"
proof -
  let ?ms = "mount_points v"
  have els: "path_elements True [] (path_str es) = [slash] # es" by (rule path_elements_str [OF names])
  have fit: "length ([slash] # es) \<le> 25" "\<forall>e\<in>set ([slash] # es). length e < 256"
    using assms by (auto simp: good_name_def)
  have get: "vfs_get_mount_point_from_path (path_str es) v = mount_walk ?ms True [slash] es None"
    using fit by (simp add: vfs_get_mount_point_from_path_def els Let_def)
  show ?thesis
  proof (cases "mounted_at ?ms []")
    case None
    then show ?thesis unfolding get by (subst mount_walk.simps) (simp add: mounted_at_def path_str_def)
  next
    case (Some m)
    then have root: "find_mount ?ms [slash] = Some m" by (simp add: mounted_at_def path_str_def)
    show ?thesis
    proof (cases es)
      case Nil
      then show ?thesis unfolding get using Some root
        by (subst mount_walk.simps) (auto simp: deepest_from_def)
    next
      case (Cons e fs)
      have "mount_walk ?ms True [slash] es None = mount_walk ?ms False (path_of [e]) fs (Some m)"
        using root Cons by (subst mount_walk.simps) simp
      then obtain r where r: "mount_walk ?ms True [slash] es None = Some r"
          "r = Some m \<and> none_from (Suc 0) ?ms es \<or> (\<exists>m. r = Some m \<and> deepest_from (Suc 0) ?ms es m)"
        using mount_walk_rest [of "[e]" fs ?ms "Some m"] assms(3) Cons by auto
      then show ?thesis unfolding get using Some deepest_from_here [of 0 ?ms es m] deepest_from_later
        by auto
    qed
  qed
qed

lemma deepest_unique: "deepest_from i ms es m \<Longrightarrow> deepest_from i ms es m' \<Longrightarrow> m = m'"
  unfolding deepest_from_def by (metis linorder_neqE_nat option.distinct(1) option.inject)

text \<open>Property C7: the mount point of a path. For a path of the elements es within
  the bounds of the arrays, the code finds the file system mounted at the
  longest prefix of the elements at which one is mounted, whole elements only, so
  that /device is not below /dev; without a root it finds none.\<close>

theorem mount_point_is_deepest:
  assumes "\<forall>e\<in>set es. good_name e" "length es < 25" "length (path_of es) < 255"
  shows "if mounted_at (mount_points v) [] = None then vfs_get_mount_point_from_path (path_str es) v = Some None
    else \<exists>m k. vfs_get_mount_point_from_path (path_str es) v = Some (Some m) \<and> k \<le> length es
      \<and> mounted_at (mount_points v) (take k es) = Some m
      \<and> (\<forall>j. k < j \<longrightarrow> j \<le> length es \<longrightarrow> mounted_at (mount_points v) (take j es) = None)"
  using mount_lookup [OF assms, of v] unfolding deepest_from_def by (auto split: if_splits)


section \<open>The mounts of the boot\<close>

definition root_mount :: vfs_mount_point where
  "root_mount = \<lparr>mp_fs_type = name_ASVFS, mp_root = [slash], mp_drive_id = 0, mp_fs = Some 0\<rparr>"

definition dev_mount :: vfs_mount_point where
  "dev_mount = \<lparr>mp_fs_type = name_RFS, mp_root = slash # name_dev, mp_drive_id = 0, mp_fs = Some 1\<rparr>"

lemma boot_result:
  "fs_initalize_part1 stale d (v, s) = Some
    (v\<lparr>file_systems := [stale\<lparr>fs_name := name_ASVFS, fs_op := asvfs_vfs_ops, fs_type := FS_TYPE_ASVFS, fs_drive_id := 1\<rparr>,
                        stale\<lparr>fs_name := name_RFS, fs_op := rfs_vfs_ops\<rparr>],
       mount_points := [root_mount, dev_mount]\<rparr>,
     s\<lparr>kasvfs := fst (snd (asvfs_initalize d)), krfs := (krfs s)\<lparr>rfs_file_objs := []\<rparr>\<rparr>)"
  by (simp add: fs_initalize_part1_def vfs_initalize_def asvfs_vios_init_def rfs_initalize_def vfs_mount_def
      vfs_register_fs_def asvfs_initalize_def root_mount_def dev_mount_def Let_def)

definition booted :: "'x kfs_scheme vfs \<Rightarrow> bool" where
  "booted v \<longleftrightarrow> mount_points v = [root_mount, dev_mount] \<and>
     map fs_op (file_systems v) = [asvfs_vfs_ops, rfs_vfs_ops]"

lemma boot_booted: "fs_initalize_part1 stale d (v, s) = Some (v', s') \<Longrightarrow> booted v'"
  by (auto simp: boot_result booted_def)

lemma path_str_inj:
  assumes "\<forall>e\<in>set xs. good_name e" "\<forall>e\<in>set ys. good_name e"
  shows "path_str xs = path_str ys \<longleftrightarrow> xs = ys"
proof
  assume "path_str xs = path_str ys"
  then have "path_elements True [] (path_str xs) = path_elements True [] (path_str ys)" by simp
  then show "xs = ys" by (simp add: path_elements_str assms)
qed simp

lemma good_dev: "good_name name_dev"
  by (simp add: good_name_def)

lemma boot_mounted_at:
  "\<forall>e\<in>set es. good_name e \<Longrightarrow>
    mounted_at [root_mount, dev_mount] es
      = (if es = [] then Some root_mount else if es = [name_dev] then Some dev_mount else None)"
  using path_str_inj [of es "[]"] path_str_inj [of es "[name_dev]"] good_dev
  by (cases "es = []") (auto simp: mounted_at_def find_mount_def root_mount_def dev_mount_def path_str_def)

abbreviation (input) is_dev_path :: "u8 list list \<Rightarrow> bool" where
  "is_dev_path es \<equiv> es \<noteq> [] \<and> hd es = name_dev"

lemma boot_mount:
  assumes v: "booted v" and es: "\<forall>e\<in>set es. good_name e" "length es < 25" "length (path_of es) < 255"
  shows "vfs_get_mount_point_from_path (path_str es) v = Some (Some (if is_dev_path es then dev_mount else root_mount))"
proof -
  have ms: "mount_points v = [root_mount, dev_mount]" using v by (simp add: booted_def)
  have at: "mounted_at (mount_points v) (take j es)
      = (if take j es = [] then Some root_mount else if take j es = [name_dev] then Some dev_mount else None)" for j
    unfolding ms by (rule boot_mounted_at) (use es(1) in \<open>auto dest: in_set_takeD\<close>)
  have "mounted_at (mount_points v) [] = Some root_mount" using at [of 0] by simp
  then obtain m where m: "vfs_get_mount_point_from_path (path_str es) v = Some (Some m)"
      "deepest_from 0 (mount_points v) es m"
    using mount_lookup [OF es, of v] by auto
  have "deepest_from 0 (mount_points v) es (if is_dev_path es then dev_mount else root_mount)"
  proof (cases "is_dev_path es")
    case True
    then obtain fs where fs: "es = name_dev # fs" by (cases es) auto
    have "mounted_at (mount_points v) (take j es) = None" if "1 < j" "j \<le> length es" for j
      using that fs at [of j] by (cases j; cases fs; cases "j - 1") auto
    moreover have "mounted_at (mount_points v) (take 1 es) = Some dev_mount" using at [of 1] fs by simp
    ultimately show ?thesis using True fs unfolding deepest_from_def by (intro exI [of _ 1]) auto
  next
    case False
    have "mounted_at (mount_points v) (take j es) = None" if "0 < j" "j \<le> length es" for j
    proof -
      have "take j es \<noteq> []" "take j es \<noteq> [name_dev]" using that False by (cases es; cases j; auto)+
      then show ?thesis using at [of j] by simp
    qed
    then show ?thesis using False at [of 0] unfolding deepest_from_def by (intro exI [of _ 0]) auto
  qed
  then show ?thesis using m deepest_unique by metis
qed

lemma boot_fs_of:
  "booted v \<Longrightarrow> \<exists>f. fs_of root_mount v = Some f \<and> fs_op f = asvfs_vfs_ops"
  "booted v \<Longrightarrow> \<exists>f. fs_of dev_mount v = Some f \<and> fs_op f = rfs_vfs_ops"
  by (auto simp: booted_def fs_of_def root_mount_def dev_mount_def length_Suc_conv)

text \<open>The table of operations a path leads to after the boot.\<close>

definition ops_for :: "u8 list list \<Rightarrow> 'x kfs_scheme vfs_operations" where
  "ops_for es = (if is_dev_path es then rfs_vfs_ops else asvfs_vfs_ops)"

lemma boot_fs:
  assumes "booted v" "\<forall>e\<in>set es. good_name e" "length es < 25" "length (path_of es) < 255"
  shows "\<exists>mp f. vfs_get_mount_point_from_path (path_str es) v = Some (Some mp) \<and> fs_of mp v = Some f \<and> fs_op f = ops_for es"
  using boot_mount [OF assms] boot_fs_of [OF assms(1)] by (auto simp: ops_for_def)

text \<open>What the boot sets up. After fs_initalize_part1, whatever was there
  before, creating, reading and writing at a path goes to RFS when its first
  element is dev and to ASVFS otherwise, with the arguments in the order in
  which the table passes them.\<close>

theorem boot_dispatch:
  assumes "fs_initalize_part1 stale d (v0, s0) = Some (v, s1)"
    and "\<forall>e\<in>set es. good_name e" "length es < 25" "length (path_of es) < 255"
  shows "vfs_create (path_str es) mode v s = op_create (ops_for es) (path_str es) mode s
    \<and> vfs_read (path_str es) buff n offset v s = op_read (ops_for es) (path_str es) buff n offset s
    \<and> (\<forall>r st. op_getattr (ops_for es) (path_str es) zero_stats s = Some (r, st) \<longrightarrow> st_type st \<noteq> 3 \<longrightarrow>
      vfs_write (path_str es) buff offset n v s = op_write (ops_for es) (path_str es) buff (ucast offset) (ucast n) s)"
proof (intro conjI allI impI)
  note f = boot_fs [OF boot_booted [OF assms(1)] assms(2-4)]
  show "vfs_create (path_str es) mode v s = op_create (ops_for es) (path_str es) mode s"
    using f by (auto simp: vfs_create_def)
  show "vfs_read (path_str es) buff n offset v s = op_read (ops_for es) (path_str es) buff n offset s"
    using f by (auto simp: vfs_read_def)
  fix r st
  assume "op_getattr (ops_for es) (path_str es) zero_stats s = Some (r, st)" "st_type st \<noteq> 3"
  then show "vfs_write (path_str es) buff offset n v s = op_write (ops_for es) (path_str es) buff (ucast offset) (ucast n) s"
    using f by (auto simp: vfs_write_def)
qed


section \<open>Reading a file in memory\<close>

text \<open>Reading a file in memory through the table copies nothing. The
  table passes the size first and the offset second, rfs_read takes them the
  other way round: a read from the start of any file below /dev that exists
  leaves the buffer as it was and reports 0 bytes, whatever the file holds.\<close>

theorem memory_file_reads_nothing:
  assumes "fs_initalize_part1 stale d (v0, s0) = Some (v, s1)"
    and "\<forall>e\<in>set es. good_name e" "length es < 24" "length (path_of (name_dev # es)) < 255"
    and "rfs_lookup_by_pathname (path_of (name_dev # es)) (krfs s) = Some i"
    and "unat n mod 256 \<le> length buff"
  shows "vfs_read (path_of (name_dev # es)) buff n 0 v s = Some (0, buff)"
proof -
  let ?es = "name_dev # es"
  obtain mp f where f: "vfs_get_mount_point_from_path (path_of ?es) v = Some (Some mp)" "fs_of mp v = Some f"
      "fs_op f = rfs_vfs_ops"
    using boot_fs [OF boot_booted [OF assms(1)], of ?es] assms(2-4) good_dev
    by (auto simp: path_str_def ops_for_def)
  have "unat (ucast n :: u32) = unat n mod 4294967296" by (simp add: unsigned_ucast_eq take_bit_eq_mod)
  then have "unat (ucast (ucast n :: u32) :: u8) = unat n mod 4294967296 mod 256"
    by (subst unsigned_ucast_eq) (simp add: take_bit_eq_mod)
  also have "\<dots> = unat n mod 256" by (rule mod_mod_cancel) simp
  finally have "unat (ucast (ucast n :: u32) :: u8) = unat n mod 256" .
  then show ?thesis using f assms(5,6)
    by (simp add: vfs_read_def rfs_vfs_ops_def rfs_read_def buf_write_def int_of_size_def)
qed


section \<open>Device files\<close>

definition dev_name :: "'s device \<Rightarrow> u8 list" where
  "dev_name d = major_id d @ (if take 1 (minor_id d) = [0x30] then [] else minor_id d)"

definition dev_ok :: "'s device \<Rightarrow> bool" where
  "dev_ok d \<longleftrightarrow> good_name (major_id d) \<and> slash \<notin> set (minor_id d) \<and> 0 \<notin> set (minor_id d)
     \<and> length (major_id d) < 25 \<and> length (minor_id d) < 25"

lemma dev_name_good: "dev_ok d \<Longrightarrow> good_name (dev_name d) \<and> length (dev_name d) < 50"
  by (auto simp: dev_ok_def dev_name_def good_name_def)

lemma device_path_eq: "dev_ok d \<Longrightarrow> device_path d = Some (path_of [name_dev, dev_name d])"
  using dev_name_good [of d] by (simp add: device_path_def dev_name_def dev_ok_def Let_def)

definition meta_bytes_of :: "u8 list \<Rightarrow> 's device \<Rightarrow> u8 list" where
  "meta_bytes_of dd d = (major_id d @ 0 # drop (Suc (length (major_id d))) (take 25 dd))
     @ (minor_id d @ 0 # drop (Suc (length (minor_id d))) (drop 25 dd))"

definition dev_file :: "u8 list \<Rightarrow> 's device \<Rightarrow> rfs_file" where
  "dev_file dd d = \<lparr>rf_type = RFS_FILE_TYPE_DEVICE, rf_pathname = path_of [name_dev, dev_name d],
     rf_data = Some (meta_bytes_of dd d), rf_size = 50\<rparr>"

lemma cstr_of_append: "0 \<notin> set xs \<Longrightarrow> cstr_of (xs @ 0 # ys) = Some xs"
  by (subst cstr_of_def, subst takeWhile_append2) auto

lemma meta_bytes_of:
  assumes "dev_ok d" "length dd = 50"
  shows "length (meta_bytes_of dd d) = 50" "cstr_of (meta_bytes_of dd d) = Some (major_id d)"
    "cstr_of (drop 25 (meta_bytes_of dd d)) = Some (minor_id d)"
    "strcpy_into (take 25 dd) (major_id d) \<bind> (\<lambda>ma. strcpy_into (drop 25 dd) (minor_id d) \<bind> (\<lambda>mi. Some (ma @ mi)))
      = Some (meta_bytes_of dd d)"
proof -
  let ?ma = "major_id d @ 0 # drop (Suc (length (major_id d))) (take 25 dd)"
  have ma: "length ?ma = 25" using assms by (simp add: dev_ok_def)
  show "length (meta_bytes_of dd d) = 50" using assms by (simp add: meta_bytes_of_def dev_ok_def)
  show "cstr_of (meta_bytes_of dd d) = Some (major_id d)"
    using assms(1) cstr_of_append by (simp add: meta_bytes_of_def dev_ok_def good_name_def)
  have "drop 25 (meta_bytes_of dd d) = minor_id d @ 0 # drop (Suc (length (minor_id d))) (drop 25 dd)"
    using ma unfolding meta_bytes_of_def by (metis append_eq_conv_conj)
  then show "cstr_of (drop 25 (meta_bytes_of dd d)) = Some (minor_id d)"
    using assms(1) cstr_of_append by (simp add: dev_ok_def)
  show "strcpy_into (take 25 dd) (major_id d) \<bind> (\<lambda>ma. strcpy_into (drop 25 dd) (minor_id d) \<bind> (\<lambda>mi. Some (ma @ mi)))
      = Some (meta_bytes_of dd d)"
    using assms by (simp add: strcpy_into_def dev_ok_def meta_bytes_of_def)
qed

lemma position_append_new:
  "\<forall>x\<in>set xs. \<not> P x \<Longrightarrow> P y \<Longrightarrow> position P (xs @ y # ys) = Some (length xs)"
  by (induction xs) auto

text \<open>A first write of all the bytes into a file just created.\<close>

lemma rfs_create_then_write:
  assumes "length p < 1024" "\<forall>f\<in>set (rfs_file_objs r). rf_pathname f \<noteq> p" "length bs = 50"
  shows "\<exists>r'. rfs_create p VFS_INODE_TYPE_DEVICE r = Some (0, r')
    \<and> rfs_write p bs 0 50 r' = Some (50, r\<lparr>rfs_file_objs := rfs_file_objs r @
        [\<lparr>rf_type = RFS_FILE_TYPE_DEVICE, rf_pathname = p, rf_data = Some bs, rf_size = 50\<rparr>]\<rparr>)"
proof -
  let ?f = "\<lparr>rf_type = RFS_FILE_TYPE_DEVICE, rf_pathname = p, rf_data = None, rf_size = 0\<rparr>"
  let ?r = "r\<lparr>rfs_file_objs := rfs_file_objs r @ [?f]\<rparr>"
  have look: "rfs_lookup_by_pathname p ?r = Some (length (rfs_file_objs r))"
    unfolding rfs_lookup_by_pathname_def
    using position_append_new [of "rfs_file_objs r" "\<lambda>f. p = rf_pathname f" ?f "[]"] assms(2) by auto
  have "sint (50 :: u32) = 50" by simp
  then have "rfs_write p bs 0 50 ?r = Some (50, r\<lparr>rfs_file_objs := rfs_file_objs r @
        [\<lparr>rf_type = RFS_FILE_TYPE_DEVICE, rf_pathname = p, rf_data = Some bs, rf_size = 50\<rparr>]\<rparr>)"
    using assms(3) by (simp add: rfs_write_def look buf_write_def int_of_size_def Let_def list_update_append)
  then show ?thesis using assms(1) by (intro exI [of _ ?r]) (simp add: rfs_create_def)
qed

lemma dev_paths:
  assumes "booted v" "dev_ok d"
  shows "\<exists>f. vfs_get_mount_point_from_path (path_of [name_dev, dev_name d]) v = Some (Some dev_mount)
    \<and> fs_of dev_mount v = Some f \<and> fs_op f = rfs_vfs_ops"
  using boot_mount [OF assms(1), of "[name_dev, dev_name d]"] boot_fs_of(2) [OF assms(1)] dev_name_good [OF assms(2)] good_dev
  by (auto simp: path_str_def)

lemma device_populate_step:
  assumes v: "booted v" "length (device_data v) = 50" and d: "dev_ok d"
    and new: "\<forall>f\<in>set (rfs_file_objs (krfs s)). rf_pathname f \<noteq> path_of [name_dev, dev_name d]"
  shows "device_populate v d s =
    Some (s\<lparr>krfs := (krfs s)\<lparr>rfs_file_objs := rfs_file_objs (krfs s) @ [dev_file (device_data v) d]\<rparr>\<rparr>)"
proof -
  let ?p = "path_of [name_dev, dev_name d]"
  obtain f where f: "vfs_get_mount_point_from_path ?p v = Some (Some dev_mount)" "fs_of dev_mount v = Some f"
      "fs_op f = rfs_vfs_ops"
    using dev_paths [OF v(1) d] by blast
  have "length ?p < 1024" using dev_name_good [OF d] by simp
  from rfs_create_then_write [OF this new meta_bytes_of(1) [OF d v(2)]] obtain r' where
    r': "rfs_create ?p VFS_INODE_TYPE_DEVICE (krfs s) = Some (0, r')"
      "rfs_write ?p (meta_bytes_of (device_data v) d) 0 50 r' =
        Some (50, (krfs s)\<lparr>rfs_file_objs := rfs_file_objs (krfs s) @ [dev_file (device_data v) d]\<rparr>)"
    by (auto simp: dev_file_def)
  obtain ma mi where ma: "strcpy_into (take 25 (device_data v)) (major_id d) = Some ma"
      "strcpy_into (drop 25 (device_data v)) (minor_id d) = Some mi" "ma @ mi = meta_bytes_of (device_data v) d"
    using meta_bytes_of(4) [OF d v(2)] by (auto simp: bind_Some_conv)
  have "vfs_create ?p VFS_INODE_TYPE_DEVICE v s = Some (0, s\<lparr>krfs := r'\<rparr>)"
    using f r'(1) by (simp add: vfs_create_def rfs_vfs_ops_def)
  moreover have "vfs_write_device_meta ?p (major_id d) (minor_id d) v (s\<lparr>krfs := r'\<rparr>) =
      Some (50, s\<lparr>krfs := (krfs s)\<lparr>rfs_file_objs := rfs_file_objs (krfs s) @ [dev_file (device_data v) d]\<rparr>\<rparr>)"
    using f r'(2) ma by (simp add: vfs_write_device_meta_def rfs_vfs_ops_def)
  ultimately show ?thesis by (simp add: device_populate_def device_path_eq [OF d] del: path_of_simps)
qed

lemma populate_all_files:
  assumes "booted v" "length (device_data v) = 50" "\<forall>d\<in>set ds. dev_ok d"
    and "distinct (map dev_name ds)"
    and "\<forall>d\<in>set ds. \<forall>f\<in>set (rfs_file_objs (krfs s)). rf_pathname f \<noteq> path_of [name_dev, dev_name d]"
  shows "populate_all v ds s =
    Some (s\<lparr>krfs := (krfs s)\<lparr>rfs_file_objs := rfs_file_objs (krfs s) @ map (dev_file (device_data v)) ds\<rparr>\<rparr>)"
  using assms(3-)
proof (induction ds arbitrary: s)
  case (Cons d ds)
  have "device_populate v d s =
      Some (s\<lparr>krfs := (krfs s)\<lparr>rfs_file_objs := rfs_file_objs (krfs s) @ [dev_file (device_data v) d]\<rparr>\<rparr>)"
    (is "_ = Some ?s")
    using Cons.prems by (intro device_populate_step assms(1,2)) auto
  moreover have "\<forall>x\<in>set ds. \<forall>f\<in>set (rfs_file_objs (krfs ?s)). rf_pathname f \<noteq> path_of [name_dev, dev_name x]"
    using Cons.prems by (auto simp: dev_file_def)
  ultimately show ?case using Cons.IH [of ?s] Cons.prems by simp
qed simp

lemma position_distinct:
  "distinct (map g xs) \<Longrightarrow> i < length xs \<Longrightarrow> position (\<lambda>x. g (xs ! i) = g x) xs = Some i"
proof (induction xs arbitrary: i)
  case (Cons a xs)
  show ?case
  proof (cases i)
    case (Suc j)
    then have j: "j < length xs" using Cons.prems by simp
    have "g (xs ! j) \<in> g ` set xs" "g a \<notin> g ` set xs" using j Cons.prems(1) by simp_all
    then have "g (xs ! j) \<noteq> g a" by metis
    then show ?thesis using Cons.IH [OF _ j] Cons.prems(1) Suc by simp
  qed simp
qed simp

lemma find_distinct:
  "distinct (map g xs) \<Longrightarrow> x \<in> set xs \<Longrightarrow> (\<And>y. P y \<Longrightarrow> g y = g x) \<Longrightarrow> P x \<Longrightarrow> List.find P xs = Some x"
proof (induction xs)
  case (Cons a xs)
  show ?case
  proof (cases "P a")
    case True
    then have "g a = g x" by (rule Cons.prems(3))
    then have "a = x" using Cons.prems(1,2) by (auto simp: image_iff)
    then show ?thesis using True by simp
  next
    case False
    then have "x \<in> set xs" using Cons.prems(2,4) by auto
    then show ?thesis using False Cons.IH [OF _ _ Cons.prems(3,4)] Cons.prems(1) by simp
  qed
qed simp

text \<open>Property C6: a device file leads to its driver. After the boot, the
  registration of devices with distinct file names and the population of /dev,
  a write to the file of any of the devices, through the choice of the mount
  point, the attributes and the contents of its file in memory and the search of
  the device list, is a call of that device's write function.\<close>

theorem device_file_reaches_driver:
  assumes boot: "fs_initalize_part1 stale dk (v0, s0) = Some (v1, s1)" "length (device_data v0) = 50"
    and v: "v = fold device_register ds (v1\<lparr>device_list := []\<rparr>)"
    and ds: "\<forall>d\<in>set ds. dev_ok d" "distinct (map dev_name ds)"
  shows "\<exists>s. devices_populate_fs v s1 = Some s \<and> kasvfs s = kasvfs s1 \<and>
    (\<forall>d\<in>set ds. \<forall>buff offset n.
      vfs_write (path_of [name_dev, dev_name d]) buff offset n v s = dev_write d 0 buff n (ucast offset) s)"
proof -
  have reg: "fold device_register ds w = w\<lparr>device_list := device_list w @ ds\<rparr>" for w :: "'a kfs_scheme vfs"
    by (induction ds arbitrary: w) (simp_all add: device_register_def)
  have bv: "booted v" "length (device_data v) = 50" "device_list v = ds" "rfs_file_objs (krfs s1) = []"
    using boot boot_booted [OF boot(1)] by (auto simp: v reg booted_def boot_result)
  let ?dd = "device_data v"
  let ?s = "s1\<lparr>krfs := (krfs s1)\<lparr>rfs_file_objs := map (dev_file ?dd) ds\<rparr>\<rparr>"
  have "devices_populate_fs v s1 = Some ?s"
    using populate_all_files [OF bv(1,2) ds, of s1] bv(3,4) by (simp add: devices_populate_fs_def)
  moreover have "vfs_write (path_of [name_dev, dev_name d]) buff offset n v ?s = dev_write d 0 buff n (ucast offset) ?s"
    if d: "d \<in> set ds" for d buff offset n
  proof -
    have ok: "dev_ok d" using d ds(1) by blast
    let ?p = "path_of [name_dev, dev_name d]"
    obtain f where f: "vfs_get_mount_point_from_path ?p v = Some (Some dev_mount)" "fs_of dev_mount v = Some f"
        "fs_op f = rfs_vfs_ops"
      using dev_paths [OF bv(1) ok] by blast
    obtain i where i: "i < length ds" "d = ds ! i" using d by (auto simp: in_set_conv_nth)
    have "distinct (map rf_pathname (map (dev_file ?dd) ds))"
      using ds(2) by (simp add: dev_file_def comp_def distinct_map inj_on_def)
    from position_distinct [OF this, of i]
    have look: "rfs_lookup_by_pathname ?p (krfs ?s) = Some i"
      using i by (simp add: rfs_lookup_by_pathname_def dev_file_def)
    have at: "rfs_file_objs (krfs ?s) ! i = dev_file ?dd d" using i by simp
    have "op_getattr (fs_op f) ?p zero_stats ?s = Some (0, zero_stats\<lparr>st_size := 50, st_type := 3\<rparr>)"
      using f look at by (simp add: rfs_vfs_ops_def rfs_getattr_def dev_file_def Let_def)
    moreover have "op_read (fs_op f) ?p ?dd 0 50 ?s = Some (50, meta_bytes_of ?dd d)"
      using f look at meta_bytes_of(1) [OF ok bv(2)] bv(2)
      by (simp add: rfs_vfs_ops_def rfs_read_def dev_file_def buf_write_def int_of_size_def)
    moreover have "device_get_major_minor_device (major_id d) (minor_id d) v = Some (Some d)"
    proof -
      have "List.find (\<lambda>x. major_id x = major_id d \<and> minor_id x = minor_id d) ds = Some d"
        by (rule find_distinct [OF ds(2) d]) (auto simp: dev_name_def)
      then show ?thesis using d bv(3) by (auto simp: device_get_major_minor_device_def)
    qed
    ultimately show ?thesis
      using f meta_bytes_of(2,3) [OF ok bv(2)] by (simp add: vfs_write_def del: path_of_simps)
  qed
  ultimately show ?thesis by (intro exI [of _ ?s]) (simp del: path_of_simps)
qed


section \<open>Directories\<close>

primrec readdirs :: "nat \<Rightarrow> vfs_dir \<Rightarrow> vfs_dirent option list" where
  "readdirs 0 d = []"
| "readdirs (Suc n) d = fst (vfs_readdir d) # readdirs n (snd (vfs_readdir d))"

definition dirent_of :: "asvfs_dir_t_entry \<Rightarrow> vfs_dirent" where
  "dirent_of e = \<lparr>ino = ucast (de_block_id e), dtype = de_type e, dname = de_name e\<rparr>"

lemma dir_entries_of_length: "dir_entries_of s bs = Some es \<Longrightarrow> length es = length bs"
  by (induction bs arbitrary: es) (auto simp: bind_Some_conv)

lemma readdir_count: "asvfs_readdir b s = Some es \<Longrightarrow> length es \<le> 100"
  by (auto simp: asvfs_readdir_def Let_def bind_Some_conv dot_entries_def split: if_splits dest!: dir_entries_of_length)

lemma readdirs_from:
  assumes "unat (dir_next d) + m = length (dir_list d)" "length (dir_list d) < 65536"
  shows "readdirs (m + k) d = map Some (drop (unat (dir_next d)) (dir_list d)) @ replicate k None"
  using assms
proof (induction m arbitrary: d)
  case 0
  then have "readdirs k d = replicate k None" by (induction k) (simp_all add: vfs_readdir_def)
  then show ?case using 0 by simp
next
  case (Suc m)
  then have lt: "unat (dir_next d) < length (dir_list d)" by simp
  then have "unat (dir_next d + 1) = Suc (unat (dir_next d))" using Suc.prems by (simp add: unat_word_ariths)
  then show ?case using lt Suc.IH [of "d\<lparr>dir_next := dir_next d + 1\<rparr>"] Suc.prems
    by (simp add: vfs_readdir_def Cons_nth_drop_Suc [symmetric])
qed

text \<open>A directory is listed entry by entry. Opening the path of a
  directory and reading it again and again gives its entries, . and .. in front,
  each once and in the order of the directory, then NULL for ever; closing
  releases every entry, however far the reading has come.\<close>

theorem directory_listing:
  assumes "asvfs_get_block_id_from_pathname p (kasvfs s) = Some b" "b \<noteq> 0"
    and "asvfs_readdir b (kasvfs s) = Some ents"
  shows "\<exists>d. vfs_opendir p s = Some (Some d) \<and> unat (dir_count d) = length ents
    \<and> readdirs (length ents + k) d = map (\<lambda>e. Some (dirent_of e)) ents @ replicate k None
    \<and> vfs_closedir (((\<lambda>d. snd (vfs_readdir d)) ^^ j) d) = []"
proof -
  have n: "length ents \<le> 100" by (rule readdir_count [OF assms(3)])
  then have sn: "sint (of_nat (length ents) :: 8 word) = int (length ents)"
  proof -
    have "uint (of_nat (length ents) :: 8 word) = int (length ents)" using n by (simp add: unsigned_of_nat take_bit_nat_eq_self)
    moreover have "signed_take_bit 7 (int (length ents)) = int (length ents)"
      using n by (intro signed_take_bit_int_eq_self) simp_all
    ultimately show ?thesis by (simp add: sint_uint)
  qed
  have un: "unat (scast (of_nat (length ents) :: 8 word) :: u16) = length ents"
  proof -
    have "scast (of_nat (length ents) :: 8 word) = (of_int (sint (of_nat (length ents) :: 8 word)) :: u16)" by simp
    then have "scast (of_nat (length ents) :: 8 word) = (of_nat (length ents) :: u16)" unfolding sn by simp
    then show ?thesis using n by (simp add: unat_of_nat)
  qed
  let ?d = "\<lparr>dir_count = scast (of_nat (length ents) :: 8 word), dir_next = 0, dir_list = map dirent_of ents\<rparr>"
  have op: "vfs_opendir p s = Some (Some ?d)"
    using assms sn
    by (simp add: vfs_opendir_def vfs_getattr_def asvfs_getattr_def asvfs_get_dir_list_glue_def Let_def dirent_of_def)
  have rd: "readdirs (length ents + k) ?d = map (\<lambda>e. Some (dirent_of e)) ents @ replicate k None"
    using readdirs_from [of ?d "length ents" k] n by simp
  have frame: "dir_count (((\<lambda>d. snd (vfs_readdir d)) ^^ j) d) = dir_count d \<and>
      dir_list (((\<lambda>d. snd (vfs_readdir d)) ^^ j) d) = dir_list d" for d
    by (induction j) (simp_all add: vfs_readdir_def)
  have "vfs_closedir (((\<lambda>d. snd (vfs_readdir d)) ^^ j) ?d) = []"
    using frame [of ?d] un by (simp add: vfs_closedir_def)
  then show ?thesis using op rd un by (intro exI [of _ ?d]) simp
qed


section \<open>A small system\<close>

definition demo_vfs :: "kfs vfs" where
  "demo_vfs = \<lparr>file_systems = [], mount_points = [], device_list = [], device_data = replicate 50 7\<rparr>"

definition demo_kfs :: kfs where
  "demo_kfs = \<lparr>kasvfs = demo_fs, krfs = \<lparr>rfs_file_objs = [], fresh = (\<lambda>_. 0)\<rparr>\<rparr>"

definition demo_stale :: "kfs vfs_filesystem" where
  "demo_stale = \<lparr>fs_name = [], fs_type = 0, fs_drive_id = 0, fs_op = rfs_vfs_ops\<rparr>"

definition demo_device :: "u8 list \<Rightarrow> u8 list \<Rightarrow> kfs device" where
  "demo_device major minor = \<lparr>major_id = major, minor_id = minor,
     dev_read = (\<lambda>i b n off s. Some (0, b, s)),
     dev_write = (\<lambda>i b n off s. Some (int_of_size n + int (length major), s))\<rparr>"

lemma mount_point_is_deepest_witness:
  "\<exists>m k. vfs_get_mount_point_from_path (path_str [name_dev, [0x61]])
      (demo_vfs\<lparr>mount_points := [root_mount, dev_mount]\<rparr>) = Some (Some m) \<and> k \<le> length [name_dev, [0x61]]
    \<and> mounted_at [root_mount, dev_mount] (take k [name_dev, [0x61]]) = Some m"
proof -
  have es: "\<forall>e\<in>set [name_dev, [0x61]]. good_name e" "length [name_dev, [0x61]] < 25"
      "length (path_of [name_dev, [0x61]]) < 255"
    by (simp_all add: good_name_def)
  obtain v where v: "v = demo_vfs\<lparr>mount_points := [root_mount, dev_mount]\<rparr>" by blast
  then have ms: "mount_points v = [root_mount, dev_mount]" by simp
  have "mounted_at [root_mount, dev_mount] [] \<noteq> None" by (simp add: boot_mounted_at)
  then show ?thesis
    using mount_point_is_deepest [OF es, of v] unfolding ms v [symmetric] by (simp only: if_False) blast
qed

lemma demo_boot: "\<exists>v s. fs_initalize_part1 demo_stale (drive demo_fs) (demo_vfs, demo_kfs) = Some (v, s)"
  by (simp add: boot_result)

lemma boot_dispatch_witness:
  "\<exists>v s. fs_initalize_part1 demo_stale (drive demo_fs) (demo_vfs, demo_kfs) = Some (v, s)
    \<and> vfs_create (path_str [[0x61]]) 6 v demo_kfs = op_create asvfs_vfs_ops (path_str [[0x61]]) 6 demo_kfs
    \<and> vfs_create (path_str [name_dev, [0x61]]) 6 v demo_kfs = op_create rfs_vfs_ops (path_str [name_dev, [0x61]]) 6 demo_kfs"
proof -
  obtain v s where b: "fs_initalize_part1 demo_stale (drive demo_fs) (demo_vfs, demo_kfs) = Some (v, s)"
    using demo_boot by blast
  have "vfs_create (path_str es) 6 v demo_kfs = op_create (ops_for es) (path_str es) 6 demo_kfs"
    if "es = [[0x61]] \<or> es = [name_dev, [0x61]]" for es
    using boot_dispatch [OF b, of es 6 demo_kfs "[]" 0 0] that by (auto simp: good_name_def)
  from this [of "[[0x61]]"] this [of "[name_dev, [0x61]]"] b show ?thesis by (auto simp: ops_for_def)
qed

definition demo_file :: rfs_file where
  "demo_file = \<lparr>rf_type = 1, rf_pathname = path_of [name_dev, [0x61]], rf_data = Some [1, 2, 3], rf_size = 3\<rparr>"

lemma memory_file_reads_nothing_witness:
  "\<exists>v s. fs_initalize_part1 demo_stale (drive demo_fs) (demo_vfs, demo_kfs) = Some (v, s)
    \<and> vfs_read (path_of [name_dev, [0x61]]) [9, 9, 9] 3 0 v (demo_kfs\<lparr>krfs := \<lparr>rfs_file_objs = [demo_file], fresh = (\<lambda>_. 0)\<rparr>\<rparr>)
      = Some (0, [9, 9, 9])"
proof -
  obtain v s where b: "fs_initalize_part1 demo_stale (drive demo_fs) (demo_vfs, demo_kfs) = Some (v, s)"
    using demo_boot by blast
  have "rfs_lookup_by_pathname (path_of (name_dev # [[0x61]])) \<lparr>rfs_file_objs = [demo_file], fresh = (\<lambda>_. 0)\<rparr> = Some 0"
    by (simp add: rfs_lookup_by_pathname_def demo_file_def)
  then show ?thesis
    using b memory_file_reads_nothing [OF b, of "[[0x61]]"
        "demo_kfs\<lparr>krfs := \<lparr>rfs_file_objs = [demo_file], fresh = (\<lambda>_. 0)\<rparr>\<rparr>" 0 3 "[9, 9, 9]"]
    by (auto simp: good_name_def)
qed

definition demo_devices :: "kfs device list" where
  "demo_devices = [demo_device [0x73] [0x33], demo_device [0x74, 0x74] [0x30]]"

lemma device_file_reaches_driver_witness:
  "\<exists>v s1 s. fs_initalize_part1 demo_stale (drive demo_fs) (demo_vfs, demo_kfs) = Some (v, s1)
    \<and> devices_populate_fs (fold device_register demo_devices (v\<lparr>device_list := []\<rparr>)) s1 = Some s
    \<and> vfs_write (path_of [name_dev, [0x74, 0x74]]) [1, 2] 0 2
        (fold device_register demo_devices (v\<lparr>device_list := []\<rparr>)) s = Some (4, s)"
proof -
  let ?d = "demo_device [0x74, 0x74] [0x30]"
  obtain v s1 where b: "fs_initalize_part1 demo_stale (drive demo_fs) (demo_vfs, demo_kfs) = Some (v, s1)"
    using demo_boot by blast
  have n: "dev_name ?d = [0x74, 0x74]" by (simp add: dev_name_def demo_device_def)
  have ok: "\<forall>d\<in>set demo_devices. dev_ok d"
    by (simp add: demo_devices_def dev_ok_def demo_device_def good_name_def)
  have dist: "distinct (map dev_name demo_devices)"
    by (simp add: demo_devices_def dev_name_def demo_device_def)
  have len: "length (device_data demo_vfs) = 50" by (simp add: demo_vfs_def)
  have d: "?d \<in> set demo_devices" by (simp add: demo_devices_def)
  obtain s where s: "devices_populate_fs (fold device_register demo_devices (v\<lparr>device_list := []\<rparr>)) s1 = Some s"
      "\<forall>d\<in>set demo_devices. \<forall>buff offset n. vfs_write (path_of [name_dev, dev_name d]) buff offset n
        (fold device_register demo_devices (v\<lparr>device_list := []\<rparr>)) s = dev_write d 0 buff n (ucast offset) s"
    using device_file_reaches_driver [OF b len refl ok dist] by blast
  have "vfs_write (path_of [name_dev, dev_name ?d]) [1, 2] 0 2
        (fold device_register demo_devices (v\<lparr>device_list := []\<rparr>)) s = dev_write ?d 0 [1, 2] 2 (ucast (0 :: u32)) s"
    using s(2) d by blast
  moreover have "dev_write ?d 0 [1, 2] 2 (ucast (0 :: u32)) s = Some (4, s)"
    by (simp add: demo_device_def int_of_size_def)
  ultimately show ?thesis using b s(1) unfolding n by metis
qed

lemma directory_listing_witness:
  "\<exists>d. vfs_opendir [slash] demo_kfs = Some (Some d)
    \<and> readdirs 3 d = [Some (dirent_of (dot_entries ! 0)), Some (dirent_of (dot_entries ! 1)), None]"
proof -
  have "asvfs_readdir 1 demo_fs = Some dot_entries" by (simp add: asvfs_readdir_def demo_root)
  moreover have "asvfs_get_block_id_from_pathname [slash] demo_fs = Some 1"
    by (simp add: asvfs_get_block_id_from_pathname_def)
  ultimately show ?thesis
    using directory_listing [of "[slash]" demo_kfs 1 dot_entries 1 0]
    by (auto simp: demo_kfs_def dot_entries_def numeral_3_eq_3)
qed

end
