(* ===== verification/Tty.thy ===== *)
theory Tty
  imports Process
begin

text \<open>
  Console input and output: the wait queues (kernel/task/wait_queue.c), the
  serial ports as devices (kernel/devices/character/serial.c), the PS/2 keyboard
  and mouse (kernel/devices/character/ps2.c, keyboard_scancode_to_char of
  kernel/devices/arch/x86_64/keyboard.c) and the standard streams
  (kernel/devices/virtual). An AVS list is the HOL list of its data from head to
  tail. The bytes an interrupt handler reads from a port are its arguments, what
  is written to a port or to the console is appended to a list. The memory
  behind the buffers of the readers is a function of the address. Opening and
  closing have empty bodies; the set-up of the ports is register accesses.
\<close>

section \<open>Wait queues\<close>

record wq_data =
  wqd_fd :: int
  wqd_buff :: u64
  wqd_count :: u64

record wait_queue =
  wq_name :: "u8 list"
  wq_is_ready :: bool
  wq_queue :: "(u32 \<times> wq_data) list"

text \<open>stale is what kmalloc left in is_ready, which wq_new does not set.\<close>

definition wq_new :: "bool \<Rightarrow> u8 list \<Rightarrow> wait_queue" where
  "wq_new stale name = \<lparr>wq_name = take 50 (name @ replicate 50 0), wq_is_ready = stale, wq_queue = []\<rparr>"

definition wq_add :: "wait_queue \<Rightarrow> u32 \<Rightarrow> wq_data \<Rightarrow> kernel_proc_data \<Rightarrow> (wait_queue \<times> kernel_proc_data) option" where
  "wq_add wq n d k = do {
     p \<leftarrow> process_get_data_from_pid n k;
     k \<leftarrow> wr_proc p (\<lambda>p. p\<lparr>status := PROCESS_STATUS_WAITING\<rparr>) k;
     Some (wq\<lparr>wq_queue := (n, d) # wq_queue wq\<rparr>, k) }"

definition wq_make_ready :: "wait_queue \<Rightarrow> wait_queue" where
  "wq_make_ready wq = wq\<lparr>wq_is_ready := True\<rparr>"

text \<open>The entry that is dequeued, the one at the tail, and the queue without it.\<close>

definition wq_next :: "wait_queue \<Rightarrow> ((u32 \<times> wq_data) \<times> wait_queue) option" where
  "wq_next wq = (if length (wq_queue wq) > 0
     then Some (last (wq_queue wq), wq\<lparr>wq_queue := butlast (wq_queue wq)\<rparr>) else None)"


section \<open>State\<close>

datatype tty_device = PS2_keyboard | Serial3 | Serial4

record tty =
  kern :: kernel_proc_data
  umem :: "u64 \<Rightarrow> u8"
  serial3_buffer :: "u8 list"
  serial3_buffer_w_index :: nat
  serial3_buffer_r_index :: nat
  wq_serial3 :: wait_queue
  scancode_queue :: "u8 list"
  wq_ps2_keyboard :: wait_queue
  d_use_as_stdin :: "tty_device option"
  d_use_as_stdout :: "tty_device option"
  com3_out :: "u8 list"
  com4_out :: "u8 list"
  console_out :: "u8 list"

definition current_pid :: "tty \<Rightarrow> u32 option" where
  "current_pid t = map_option pid (rd_proc (current_process (kern t)) (kern t))"

text \<open>The end of the two ready functions: the character goes to the reader, which can run again.\<close>

definition deliver :: "u32 \<Rightarrow> wq_data \<Rightarrow> u8 \<Rightarrow> tty \<Rightarrow> tty option" where
  "deliver n d c t = do {
     p \<leftarrow> process_get_data_from_pid n (kern t);
     k \<leftarrow> wr_proc p (\<lambda>p. p\<lparr>status := PROCESS_STATUS_INACTIVE\<rparr>) (kern t);
     Some (t\<lparr>kern := k, umem := (umem t)(wqd_buff d := c)\<rparr>) }"


section \<open>The serial ports\<close>

definition next_index :: "nat \<Rightarrow> nat" where
  "next_index i = (if i + 1 = 50 then 0 else i + 1)"

definition serial3_read :: "u64 \<Rightarrow> u64 \<Rightarrow> u64 \<Rightarrow> u64 \<Rightarrow> tty \<Rightarrow> (u8 \<times> tty) option" where
  "serial3_read inode buff count offset t =
     (if serial3_buffer_r_index t < serial3_buffer_w_index t then do {
        c \<leftarrow> nth_elem (serial3_buffer t) (serial3_buffer_r_index t);
        Some (c, t\<lparr>serial3_buffer_r_index := next_index (serial3_buffer_r_index t)\<rparr>) }
      else do {
        n \<leftarrow> current_pid t;
        (wq, k) \<leftarrow> wq_add (wq_serial3 t) n \<lparr>wqd_fd = sint (ucast inode :: u32), wqd_buff = buff, wqd_count = count\<rparr> (kern t);
        Some (0, t\<lparr>wq_serial3 := wq, kern := k\<rparr>) })"

definition serial3_wq_ready :: "u32 \<Rightarrow> wq_data \<Rightarrow> tty \<Rightarrow> tty option" where
  "serial3_wq_ready n d t = do {
     c \<leftarrow> nth_elem (serial3_buffer t) (serial3_buffer_r_index t);
     deliver n d c (t\<lparr>serial3_buffer_r_index := next_index (serial3_buffer_r_index t)\<rparr>) }"

text \<open>c is the byte read from the port.\<close>

definition serial3_interrupt_handler :: "u8 \<Rightarrow> tty \<Rightarrow> tty option" where
  "serial3_interrupt_handler c t = do {
     _ \<leftarrow> nth_elem (serial3_buffer t) (serial3_buffer_w_index t);
     let t = t\<lparr>serial3_buffer := (serial3_buffer t)[serial3_buffer_w_index t := c],
              serial3_buffer_w_index := next_index (serial3_buffer_w_index t)\<rparr>;
     let t = t\<lparr>wq_serial3 := wq_make_ready (wq_serial3 t)\<rparr>;
     case wq_next (wq_serial3 t) of
       None \<Rightarrow> Some t
     | Some ((n, d), wq) \<Rightarrow> serial3_wq_ready n d (t\<lparr>wq_serial3 := wq\<rparr>) }"

definition user_bytes :: "u64 \<Rightarrow> u64 \<Rightarrow> tty \<Rightarrow> u8 list" where
  "user_bytes buff count t = map (\<lambda>i. umem t (buff + of_nat i)) [0..<unat count]"

definition serial3_write :: "u64 \<Rightarrow> u64 \<Rightarrow> u64 \<Rightarrow> u64 \<Rightarrow> tty \<Rightarrow> tty" where
  "serial3_write inode buff count offset t = t\<lparr>com3_out := com3_out t @ user_bytes buff count t\<rparr>"

definition serial4_read :: "u64 \<Rightarrow> u64 \<Rightarrow> u64 \<Rightarrow> u64 \<Rightarrow> tty \<Rightarrow> (u8 \<times> tty) option" where
  "serial4_read inode buff count offset t = Some (0, t)"

definition serial4_write :: "u64 \<Rightarrow> u64 \<Rightarrow> u64 \<Rightarrow> u64 \<Rightarrow> tty \<Rightarrow> tty" where
  "serial4_write inode buff count offset t = t\<lparr>com4_out := com4_out t @ user_bytes buff count t\<rparr>"


section \<open>The keyboard\<close>

definition keyboard_map :: "u8 list" where
  "keyboard_map =
    [0, 0, 0x31, 0x32, 0x33, 0x34, 0x35, 0x36, 0x37, 0x38, 0x39, 0x30, 0x2D, 0x3D, 0x08, 0x09, 0x71, 0x77, 0x65, 0x72,
     0x74, 0x79, 0x75, 0x69, 0x6F, 0x70, 0x5B, 0x5D, 0x0A, 0, 0x61, 0x73, 0x64, 0x66, 0x67, 0x68, 0x6A, 0x6B, 0x6C, 0x3B,
     0x27, 0x60, 0, 0x5C, 0x7A, 0x78, 0x63, 0x76, 0x62, 0x6E, 0x6D, 0x2C, 0x2E, 0x2F, 0, 0x2A, 0, 0x20, 0, 0,
     0, 0, 0, 0, 0, 0, 0, 0, 0, 0, 0, 0, 0, 0, 0x2D, 0, 0, 0, 0x2B, 0,
     0, 0, 0, 0, 0, 0, 0, 0, 0, 0]
    @ replicate 38 0"

text \<open>The test lets the index 0x80 through, one behind the end of the table.\<close>

definition keyboard_scancode_to_char :: "u8 \<Rightarrow> u8 option" where
  "keyboard_scancode_to_char scancode =
     (if scancode < 0x81 then nth_elem keyboard_map (unat scancode) else Some 0)"

definition ps2_keyboard_read :: "u64 \<Rightarrow> u64 \<Rightarrow> u64 \<Rightarrow> u64 \<Rightarrow> tty \<Rightarrow> (u8 \<times> tty) option" where
  "ps2_keyboard_read inode buff count offset t =
     (if length (scancode_queue t) = 0 then do {
        n \<leftarrow> current_pid t;
        (wq, k) \<leftarrow> wq_add (wq_ps2_keyboard t) n \<lparr>wqd_fd = sint (ucast inode :: u32), wqd_buff = buff, wqd_count = count\<rparr> (kern t);
        Some (0, t\<lparr>wq_ps2_keyboard := wq, kern := k\<rparr>) }
      else do {
        c \<leftarrow> keyboard_scancode_to_char (last (scancode_queue t));
        Some (c, t\<lparr>scancode_queue := butlast (scancode_queue t)\<rparr>) })"

definition ps2_keyboard_wq_ready :: "u32 \<Rightarrow> wq_data \<Rightarrow> tty \<Rightarrow> tty option" where
  "ps2_keyboard_wq_ready n d t = (if scancode_queue t = [] then None else do {
     c \<leftarrow> keyboard_scancode_to_char (last (scancode_queue t));
     deliver n d c (t\<lparr>scancode_queue := butlast (scancode_queue t)\<rparr>) })"

text \<open>kstatus and code are the bytes read from the ports 0x64 and 0x60.\<close>

definition ps2_keyboard_interrupt_handler :: "u8 \<Rightarrow> u8 \<Rightarrow> tty \<Rightarrow> tty option" where
  "ps2_keyboard_interrupt_handler kstatus code t =
     (if kstatus AND 1 \<noteq> 0 then
        let t = t\<lparr>scancode_queue := code # scancode_queue t, wq_ps2_keyboard := wq_make_ready (wq_ps2_keyboard t)\<rparr> in
        (case wq_next (wq_ps2_keyboard t) of
           None \<Rightarrow> Some t
         | Some ((n, d), wq) \<Rightarrow> ps2_keyboard_wq_ready n d (t\<lparr>wq_ps2_keyboard := wq\<rparr>))
      else Some t)"


section \<open>The mouse\<close>

record mouse =
  mouse_cycle :: nat
  mouse_byte :: "u8 list"
  left_button :: bool
  middle_button :: bool
  right_button :: bool

text \<open>The result is the argument of vui_handle_mouse_move, once a packet is complete.\<close>

definition ps2_mouse_interrupt_handler :: "u8 \<Rightarrow> mouse \<Rightarrow> ((int \<times> int) option \<times> mouse) option" where
  "ps2_mouse_interrupt_handler in_byte s =
     (if mouse_cycle s = 0 \<and> \<not> bit in_byte 3 then Some (None, s)
      else do {
        _ \<leftarrow> nth_elem (mouse_byte s) (mouse_cycle s);
        let b = (mouse_byte s)[mouse_cycle s := in_byte];
        let s = s\<lparr>mouse_byte := b, mouse_cycle := mouse_cycle s + 1\<rparr>;
        if mouse_cycle s = 3 then
          let move_x = int (unat (b ! 1)) - (if bit (b ! 0) 4 then 0x100 else 0);
              move_y = int (unat (b ! 2)) - (if bit (b ! 0) 5 then 0x100 else 0);
              (move_x, move_y) = (if bit (b ! 0) 6 \<or> bit (b ! 0) 7 then (0, 0) else (move_x, move_y))
          in Some (Some (move_x, move_y * - 1),
                   s\<lparr>mouse_cycle := 0, middle_button := bit (b ! 0) 2, right_button := bit (b ! 0) 1,
                     left_button := bit (b ! 0) 0\<rparr>)
        else Some (None, s) })"


section \<open>The standard streams\<close>

definition tty_read :: "tty_device \<Rightarrow> u64 \<Rightarrow> u64 \<Rightarrow> u64 \<Rightarrow> u64 \<Rightarrow> tty \<Rightarrow> (u8 \<times> tty) option" where
  "tty_read dev = (case dev of PS2_keyboard \<Rightarrow> ps2_keyboard_read | Serial3 \<Rightarrow> serial3_read | Serial4 \<Rightarrow> serial4_read)"

definition stdin_read :: "u64 \<Rightarrow> u64 \<Rightarrow> u64 \<Rightarrow> u64 \<Rightarrow> tty \<Rightarrow> (u8 \<times> tty) option" where
  "stdin_read inode buff count offset t = do {
     dev \<leftarrow> d_use_as_stdin t;
     (c, t) \<leftarrow> tty_read dev inode buff count offset t;
     Some (c, t\<lparr>umem := (umem t)(buff := c)\<rparr>) }"

definition stdin_set_redirect :: "tty_device \<Rightarrow> tty \<Rightarrow> tty" where
  "stdin_set_redirect dev t = t\<lparr>d_use_as_stdin := Some dev\<rparr>"

definition stdout_set_redirect :: "tty_device \<Rightarrow> tty \<Rightarrow> tty" where
  "stdout_set_redirect dev t = t\<lparr>d_use_as_stdout := Some dev\<rparr>"

text \<open>Without a redirection the loop prints the character at buff count times; the index is an int.\<close>

definition stdout_write :: "u64 \<Rightarrow> u64 \<Rightarrow> u64 \<Rightarrow> u64 \<Rightarrow> tty \<Rightarrow> tty" where
  "stdout_write inode buff count offset t = (case d_use_as_stdout t of
     None \<Rightarrow> t\<lparr>console_out := console_out t @ replicate (unat count) (umem t buff)\<rparr>
   | Some PS2_keyboard \<Rightarrow> t
   | Some Serial3 \<Rightarrow> serial3_write inode buff count offset t
   | Some Serial4 \<Rightarrow> serial4_write inode buff count offset t)"

definition stderr_write :: "u64 \<Rightarrow> u64 \<Rightarrow> u64 \<Rightarrow> u64 \<Rightarrow> tty \<Rightarrow> tty" where
  "stderr_write inode buff count offset t = serial4_write inode buff count offset t"

end
