(* ===== verification/TtyProps.thy ===== *)
theory TtyProps
  imports Tty ProcInv
begin

text \<open>
  Blocking input. The contract of a device that wakes its readers one by one is
  the locale blocking_input: whatever the order of interrupts and reads, the
  k-th read gets the k-th byte. The serial port keeps it while its buffer does
  not wrap, the keyboard always. Then what happens when the buffer wraps, the
  packets of the mouse, and the standard output.
\<close>

section \<open>The contract\<close>

datatype ('b, 'w) tty_event = Receive 'b | Read 'w

fun received :: "('b, 'w) tty_event list \<Rightarrow> 'b list" where
  "received [] = []"
| "received (Receive b # es) = b # received es"
| "received (Read w # es) = received es"

fun reads :: "('b, 'w) tty_event list \<Rightarrow> 'w list" where
  "reads [] = []"
| "reads (Receive b # es) = reads es"
| "reads (Read w # es) = w # reads es"

text \<open>A run of events, with what each of them delivers to whom.\<close>

primrec tty_run :: "('b \<Rightarrow> 't \<Rightarrow> ('d list \<times> 't) option) \<Rightarrow> ('w \<Rightarrow> 't \<Rightarrow> ('d list \<times> 't) option) \<Rightarrow>
    ('b, 'w) tty_event list \<Rightarrow> 't \<Rightarrow> ('d list \<times> 't) option" where
  "tty_run rx rd [] t = Some ([], t)"
| "tty_run rx rd (e # es) t = do {
     (ds, t) \<leftarrow> (case e of Receive b \<Rightarrow> rx b t | Read w \<Rightarrow> rd w t);
     (ds', t) \<leftarrow> tty_run rx rd es t;
     Some (ds @ ds', t) }"

lemma tty_run_append:
  "tty_run rx rd xs t = Some (ds, t1) \<Longrightarrow> tty_run rx rd ys t1 = Some (ds', t2) \<Longrightarrow>
    tty_run rx rd (xs @ ys) t = Some (ds @ ds', t2)"
  by (induction xs arbitrary: t ds) (auto simp: bind_Some_conv split_beta)

locale blocking_input =
  fixes ok :: "nat \<Rightarrow> 't \<Rightarrow> bool"
    and pending :: "'t \<Rightarrow> 'c list"
    and waiting :: "'t \<Rightarrow> 'w list"
    and readers :: "'w set"
    and good :: "'b set"
    and dec :: "'b \<Rightarrow> 'c"
    and rx :: "'b \<Rightarrow> 't \<Rightarrow> (('w \<times> 'c) list \<times> 't) option"
    and rd :: "'w \<Rightarrow> 't \<Rightarrow> (('w \<times> 'c) list \<times> 't) option"
  assumes rx_idle: "ok (Suc n) t \<Longrightarrow> b \<in> good \<Longrightarrow> waiting t = [] \<Longrightarrow>
      \<exists>t'. rx b t = Some ([], t') \<and> ok n t' \<and> pending t' = pending t @ [dec b] \<and> waiting t' = []"
    and rx_wake: "ok (Suc n) t \<Longrightarrow> b \<in> good \<Longrightarrow> waiting t = w # ws \<Longrightarrow> pending t = [] \<Longrightarrow>
      \<exists>t'. rx b t = Some ([(w, dec b)], t') \<and> ok n t' \<and> pending t' = [] \<and> waiting t' = ws"
    and rd_ready: "ok n t \<Longrightarrow> w \<in> readers \<Longrightarrow> pending t = c # xs \<Longrightarrow>
      \<exists>t'. rd w t = Some ([(w, c)], t') \<and> ok n t' \<and> pending t' = xs \<and> waiting t' = waiting t"
    and rd_block: "ok n t \<Longrightarrow> w \<in> readers \<Longrightarrow> pending t = [] \<Longrightarrow>
      \<exists>t'. rd w t = Some ([], t') \<and> ok n t' \<and> pending t' = [] \<and> waiting t' = waiting t @ [w]"
begin

lemma run_in_order:
  "ok (length (received es)) t \<Longrightarrow> set (received es) \<subseteq> good \<Longrightarrow> set (reads es) \<subseteq> readers \<Longrightarrow>
   pending t = [] \<or> waiting t = [] \<Longrightarrow>
   \<exists>t'. tty_run rx rd es t = Some (zip (waiting t @ reads es) (pending t @ map dec (received es)), t')"
proof (induction es arbitrary: t)
  case Nil
  then show ?case by auto
next
  case (Cons e es)
  show ?case
  proof (cases e)
    case (Receive b)
    then have o: "ok (Suc (length (received es))) t" and b: "b \<in> good" using Cons.prems by simp_all
    have rest: "set (received es) \<subseteq> good" "set (reads es) \<subseteq> readers" using Cons.prems Receive by simp_all
    show ?thesis
    proof (cases "waiting t")
      case Nil
      obtain t1 where t1: "rx b t = Some ([], t1)" "ok (length (received es)) t1"
          "pending t1 = pending t @ [dec b]" "waiting t1 = []"
        using rx_idle [OF o b Nil] by blast
      from Cons.IH [OF t1(2) rest] t1(3,4) obtain t2 where
        "tty_run rx rd es t1 = Some (zip (reads es) (pending t @ dec b # map dec (received es)), t2)" by auto
      then show ?thesis using t1(1) Nil Receive by simp
    next
      case (Cons w ws)
      have p: "pending t = []" using Cons.prems(4) Cons by simp
      obtain t1 where t1: "rx b t = Some ([(w, dec b)], t1)" "ok (length (received es)) t1"
          "pending t1 = []" "waiting t1 = ws"
        using rx_wake [OF o b Cons p] by blast
      from Cons.IH [OF t1(2) rest] t1(3,4) obtain t2 where
        "tty_run rx rd es t1 = Some (zip (ws @ reads es) (map dec (received es)), t2)" by auto
      then show ?thesis using t1(1) Cons p Receive by simp
    qed
  next
    case (Read w)
    then have o: "ok (length (received es)) t" and w: "w \<in> readers" using Cons.prems by simp_all
    have rest: "set (received es) \<subseteq> good" "set (reads es) \<subseteq> readers" using Cons.prems Read by simp_all
    show ?thesis
    proof (cases "pending t")
      case Nil
      obtain t1 where t1: "rd w t = Some ([], t1)" "ok (length (received es)) t1"
          "pending t1 = []" "waiting t1 = waiting t @ [w]"
        using rd_block [OF o w Nil] by blast
      from Cons.IH [OF t1(2) rest] t1(3,4) obtain t2 where
        "tty_run rx rd es t1 = Some (zip (waiting t @ w # reads es) (map dec (received es)), t2)" by auto
      then show ?thesis using t1(1) Nil Read by simp
    next
      case (Cons c xs)
      have p: "waiting t = []" using Cons.prems(4) Cons by simp
      obtain t1 where t1: "rd w t = Some ([(w, c)], t1)" "ok (length (received es)) t1"
          "pending t1 = xs" "waiting t1 = []"
        using rd_ready [OF o w Cons] p by auto
      from Cons.IH [OF t1(2) rest] t1(3,4) obtain t2 where
        "tty_run rx rd es t1 = Some (zip (reads es) (xs @ map dec (received es)), t2)" by auto
      then show ?thesis using t1(1) Cons p Read by simp
    qed
  qed
qed

end


section \<open>Processes that read\<close>

text \<open>The process table holds the processes of P.\<close>

definition kern_ok :: "u32 set \<Rightarrow> kernel_proc_data \<Rightarrow> bool" where
  "kern_ok P k \<longleftrightarrow> (\<exists>ns. proc_rep k ns \<and> (\<forall>n\<in>P. \<exists>a\<in>ads ns. pid (pr k a) = n))"

lemma kern_lookup:
  assumes "kern_ok P k" "n \<in> P"
  shows "\<exists>a p. process_get_data_from_pid n k = Some a \<and> cells (procs k) a = Some p \<and> pid p = n"
proof -
  obtain ns b where ns: "proc_rep k ns" "b \<in> ads ns" "pid (pr k b) = n" using assms by (auto simp: kern_ok_def)
  let ?P = "\<lambda>a. \<exists>p. cells (procs k) a = Some p \<and> pid p = n"
  have "?P b" "b \<in> set (map snd ns)" using ns by (auto simp: proc_rep_def ads_def pr_def)
  then have "List.find ?P (map snd ns) \<noteq> None" by (auto simp: find_None_iff)
  then obtain a where "List.find ?P (map snd ns) = Some a" by blast
  moreover from this have "?P a" by (auto simp: find_Some_iff)
  ultimately show ?thesis using lookup_pid [OF ns(1), of n] by auto
qed

lemma kern_status:
  assumes "kern_ok P k" "cells (procs k) a = Some p"
  shows "\<exists>k'. wr_proc a (\<lambda>p. p\<lparr>status := st\<rparr>) k = Some k' \<and> kern_ok P k'"
proof -
  obtain ns where ns: "proc_rep k ns" "\<forall>n\<in>P. \<exists>a\<in>ads ns. pid (pr k a) = n" using assms(1) by (auto simp: kern_ok_def)
  obtain k' where w: "wr_proc a (\<lambda>p. p\<lparr>status := st\<rparr>) k = Some k'" using assms(2) by (simp add: store_simps)
  have "pid (pr k' b) = pid (pr k b)" for b using wr_proc_pr(1) [OF w, of b] by simp
  then have "kern_ok P k'" using ns wr_proc_pr(5) [OF w ns(1)] by (auto simp: kern_ok_def)
  with w show ?thesis by blast
qed

lemma kern_current: "kern_ok P (k\<lparr>current_process := a\<rparr>) = kern_ok P k"
  by (simp add: kern_ok_def proc_rep_def pr_def)

text \<open>The process with the id n runs.\<close>

definition run_as :: "u32 \<Rightarrow> tty \<Rightarrow> tty option" where
  "run_as n t = do {
     p \<leftarrow> process_get_data_from_pid n (kern t);
     Some (t\<lparr>kern := (kern t)\<lparr>current_process := p\<rparr>\<rparr>) }"

lemma run_as_ok:
  assumes "kern_ok P (kern t)" "n \<in> P"
  shows "\<exists>k. run_as n t = Some (t\<lparr>kern := k\<rparr>) \<and> kern_ok P k \<and> current_pid (t\<lparr>kern := k\<rparr>) = Some n"
proof -
  obtain a p where a: "process_get_data_from_pid n (kern t) = Some a" "cells (procs (kern t)) a = Some p" "pid p = n"
    using kern_lookup [OF assms] by blast
  then show ?thesis using assms(1)
    by (intro exI [of _ "(kern t)\<lparr>current_process := a\<rparr>"])
      (simp add: run_as_def kern_current current_pid_def store_simps)
qed

lemma wq_add_ok:
  assumes "kern_ok P k" "n \<in> P"
  shows "\<exists>k'. wq_add wq n d k = Some (wq\<lparr>wq_queue := (n, d) # wq_queue wq\<rparr>, k') \<and> kern_ok P k'"
proof -
  obtain a p where a: "process_get_data_from_pid n k = Some a" "cells (procs k) a = Some p" using kern_lookup [OF assms] by blast
  then show ?thesis using kern_status [OF assms(1) a(2), of PROCESS_STATUS_WAITING] by (auto simp: wq_add_def)
qed

lemma deliver_ok:
  assumes "kern_ok P (kern t)" "n \<in> P"
  shows "\<exists>k. deliver n d c t = Some (t\<lparr>kern := k, umem := (umem t)(wqd_buff d := c)\<rparr>) \<and> kern_ok P k"
proof -
  obtain a p where a: "process_get_data_from_pid n (kern t) = Some a" "cells (procs (kern t)) a = Some p"
    using kern_lookup [OF assms] by blast
  then show ?thesis using kern_status [OF assms(1) a(2), of PROCESS_STATUS_INACTIVE] by (auto simp: deliver_def)
qed

text \<open>Those who wait, the longest first.\<close>

definition queue_view :: "wait_queue \<Rightarrow> (u32 \<times> u64) list" where
  "queue_view wq = map (\<lambda>(n, d). (n, wqd_buff d)) (rev (wq_queue wq))"

lemma queue_view_next:
  "queue_view wq = [] \<Longrightarrow> wq_next wq = None"
  "queue_view wq = (n, b) # ws \<Longrightarrow> \<exists>d wq'. wq_next wq = Some ((n, d), wq') \<and> wqd_buff d = b \<and> queue_view wq' = ws
    \<and> (n, d) \<in> set (wq_queue wq) \<and> set (wq_queue wq') \<subseteq> set (wq_queue wq)"
proof -
  show "queue_view wq = [] \<Longrightarrow> wq_next wq = None" by (simp add: queue_view_def wq_next_def)
  assume v: "queue_view wq = (n, b) # ws"
  then have q: "wq_queue wq \<noteq> []" by (auto simp: queue_view_def)
  obtain m d where l: "last (wq_queue wq) = (m, d)" by (cases "last (wq_queue wq)")
  have "wq_queue wq = butlast (wq_queue wq) @ [(m, d)]" using q l by (metis append_butlast_last_id)
  then have "rev (wq_queue wq) = (m, d) # rev (butlast (wq_queue wq))" by (metis rev.simps(2) rev_rev_ident rev_swap)
  then show "\<exists>d wq'. wq_next wq = Some ((n, d), wq') \<and> wqd_buff d = b \<and> queue_view wq' = ws
    \<and> (n, d) \<in> set (wq_queue wq) \<and> set (wq_queue wq') \<subseteq> set (wq_queue wq)"
    using v q l last_in_set [OF q] by (auto simp: queue_view_def wq_next_def dest: in_set_butlastD)
qed

lemma queue_view_simps [simp]:
  "queue_view (wq\<lparr>wq_queue := (n, d) # q\<rparr>) = queue_view (wq\<lparr>wq_queue := q\<rparr>) @ [(n, wqd_buff d)]"
  "queue_view (wq_make_ready wq) = queue_view wq"
  "wq_queue (wq_make_ready wq) = wq_queue wq"
  by (simp_all add: queue_view_def wq_make_ready_def)


section \<open>The serial port\<close>

text \<open>An interrupt and what it delivers: the byte in the buffer of the reader it wakes.\<close>

definition serial_rx :: "u8 \<Rightarrow> tty \<Rightarrow> (((u32 \<times> u64) \<times> u8) list \<times> tty) option" where
  "serial_rx b t = do {
     t' \<leftarrow> serial3_interrupt_handler b t;
     Some (case wq_next (wq_serial3 t) of None \<Rightarrow> []
           | Some ((n, d), _) \<Rightarrow> [((n, wqd_buff d), umem t' (wqd_buff d))], t') }"

text \<open>The process n reads into a buffer; nothing is delivered when it has to wait.\<close>

definition serial_rd :: "u32 \<times> u64 \<Rightarrow> tty \<Rightarrow> (((u32 \<times> u64) \<times> u8) list \<times> tty) option" where
  "serial_rd w t = (case w of (n, buff) \<Rightarrow> do {
     t \<leftarrow> run_as n t;
     (c, t') \<leftarrow> serial3_read 0 buff 1 0 t;
     Some (if length (wq_queue (wq_serial3 t')) = length (wq_queue (wq_serial3 t)) then [(w, c)] else [], t') })"

definition serial_ok :: "u32 set \<Rightarrow> nat \<Rightarrow> tty \<Rightarrow> bool" where
  "serial_ok P n t \<longleftrightarrow> kern_ok P (kern t) \<and> length (serial3_buffer t) = 50
     \<and> serial3_buffer_r_index t \<le> serial3_buffer_w_index t \<and> serial3_buffer_w_index t + n < 50
     \<and> fst ` set (wq_queue (wq_serial3 t)) \<subseteq> P"

definition serial_pending :: "tty \<Rightarrow> u8 list" where
  "serial_pending t = map ((!) (serial3_buffer t)) [serial3_buffer_r_index t..<serial3_buffer_w_index t]"

lemma serial_pending_empty: "serial_pending t = [] \<longleftrightarrow> serial3_buffer_w_index t \<le> serial3_buffer_r_index t"
  by (auto simp: serial_pending_def)

interpretation serial: blocking_input "serial_ok P" serial_pending "\<lambda>t. queue_view (wq_serial3 t)"
  "P \<times> UNIV" UNIV "\<lambda>b. b" serial_rx serial_rd
  for P :: "u32 set"
proof unfold_locales
  fix n t and b :: u8
  assume ok: "serial_ok P (Suc n) t"
  let ?w = "serial3_buffer_w_index t" and ?r = "serial3_buffer_r_index t"
  let ?buf = "(serial3_buffer t)[?w := b]"
  let ?t = "t\<lparr>serial3_buffer := ?buf, serial3_buffer_w_index := Suc ?w, wq_serial3 := wq_make_ready (wq_serial3 t)\<rparr>"
  have ix: "nth_elem (serial3_buffer t) ?w = Some (serial3_buffer t ! ?w)" "next_index ?w = Suc ?w"
    using ok by (simp_all add: serial_ok_def nth_elem_def next_index_def)
  have pend: "map ((!) ?buf) [?r..<Suc ?w] = serial_pending t @ [b]"
    using ok by (auto simp: serial_ok_def serial_pending_def)
  { assume "queue_view (wq_serial3 t) = []"
    then have "wq_next (wq_make_ready (wq_serial3 t)) = None" "wq_next (wq_serial3 t) = None"
      by (simp_all add: queue_view_next)
    then have "serial_rx b t = Some ([], ?t)" using ix by (simp add: serial_rx_def serial3_interrupt_handler_def)
    moreover have "serial_ok P n ?t" using ok by (simp add: serial_ok_def)
    moreover have "serial_pending ?t = serial_pending t @ [b]" using pend by (simp add: serial_pending_def)
    ultimately show "\<exists>t'. serial_rx b t = Some ([], t') \<and> serial_ok P n t' \<and> serial_pending t' = serial_pending t @ [b]
        \<and> queue_view (wq_serial3 t') = []"
      using \<open>queue_view (wq_serial3 t) = []\<close> by (intro exI [of _ ?t]) simp }
  { fix w ws assume v: "queue_view (wq_serial3 t) = w # ws" and p: "serial_pending t = []"
    obtain m bf where w: "w = (m, bf)" by (cases w)
    from v w obtain d wq where d: "wq_next (wq_make_ready (wq_serial3 t)) = Some ((m, d), wq)" "wqd_buff d = bf"
        "queue_view wq = ws" "(m, d) \<in> set (wq_queue (wq_serial3 t))" "set (wq_queue wq) \<subseteq> set (wq_queue (wq_serial3 t))"
      using queue_view_next(2) [of "wq_make_ready (wq_serial3 t)" m bf ws] by auto
    have d0: "\<exists>wq0. wq_next (wq_serial3 t) = Some ((m, d), wq0)"
      using d(1) by (auto simp: wq_next_def wq_make_ready_def split: if_splits)
    have r: "?r = ?w" using p ok by (simp add: serial_pending_empty serial_ok_def)
    have m: "m \<in> P" using d(4) ok by (auto simp: serial_ok_def)
    have wl: "?w < 50" "Suc ?w < 50" using ok by (simp_all add: serial_ok_def)
    let ?t1 = "?t\<lparr>wq_serial3 := wq, serial3_buffer_r_index := Suc ?w\<rparr>"
    have "kern_ok P (kern ?t1)" using ok by (simp add: serial_ok_def)
    from deliver_ok [OF this m] obtain k where
      k: "deliver m d b ?t1 = Some (?t1\<lparr>kern := k, umem := (umem ?t1)(wqd_buff d := b)\<rparr>)" "kern_ok P k" by blast
    let ?t2 = "?t1\<lparr>kern := k, umem := (umem ?t1)(wqd_buff d := b)\<rparr>"
    have "serial3_wq_ready m d (?t\<lparr>wq_serial3 := wq\<rparr>) = Some ?t2"
      using k(1) ok r ix(2) wl by (simp add: serial3_wq_ready_def nth_elem_def serial_ok_def)
    then have "serial_rx b t = Some ([(w, b)], ?t2)"
      using ix d(1,2) d0 w by (auto simp: serial_rx_def serial3_interrupt_handler_def)
    moreover have "serial_ok P n ?t2" using ok k(2) d(5) by (auto simp: serial_ok_def)
    moreover have "serial_pending ?t2 = []" by (simp add: serial_pending_def)
    ultimately show "\<exists>t'. serial_rx b t = Some ([(w, b)], t') \<and> serial_ok P n t' \<and> serial_pending t' = []
        \<and> queue_view (wq_serial3 t') = ws"
      using d(3) by (intro exI [of _ ?t2]) simp }
next
  fix n t w assume ok: "serial_ok P n t" and w: "w \<in> P \<times> (UNIV :: u64 set)"
  obtain m bf where wm: "w = (m, bf)" "m \<in> P" using w by auto
  let ?w = "serial3_buffer_w_index t" and ?r = "serial3_buffer_r_index t"
  obtain k where k: "run_as m t = Some (t\<lparr>kern := k\<rparr>)" "kern_ok P k" "current_pid (t\<lparr>kern := k\<rparr>) = Some m"
    using run_as_ok [of P t m] ok wm(2) by (auto simp: serial_ok_def)
  { fix c xs assume p: "serial_pending t = c # xs"
    then have lt: "?r < ?w" using serial_pending_empty [of t] by auto
    have c: "c = serial3_buffer t ! ?r" "xs = map ((!) (serial3_buffer t)) [Suc ?r..<?w]"
      using p lt by (auto simp: serial_pending_def upt_conv_Cons)
    let ?t = "t\<lparr>kern := k, serial3_buffer_r_index := Suc ?r\<rparr>"
    have "?r < 50" "Suc ?r < 50" using lt ok by (auto simp: serial_ok_def)
    then have "serial_rd w t = Some ([(w, c)], ?t)"
      using k wm lt c ok by (simp add: serial_rd_def serial3_read_def nth_elem_def next_index_def serial_ok_def)
    moreover have "serial_ok P n ?t" using ok k(2) lt by (auto simp: serial_ok_def)
    ultimately show "\<exists>t'. serial_rd w t = Some ([(w, c)], t') \<and> serial_ok P n t' \<and> serial_pending t' = xs
        \<and> queue_view (wq_serial3 t') = queue_view (wq_serial3 t)"
      using c by (intro exI [of _ ?t]) (simp add: serial_pending_def) }
  { assume p: "serial_pending t = []"
    let ?d = "\<lparr>wqd_fd = 0, wqd_buff = bf, wqd_count = 1\<rparr>"
    obtain k' where k': "wq_add (wq_serial3 t) m ?d k
        = Some ((wq_serial3 t)\<lparr>wq_queue := (m, ?d) # wq_queue (wq_serial3 t)\<rparr>, k')" "kern_ok P k'"
      using wq_add_ok [OF k(2) wm(2)] by blast
    let ?t = "t\<lparr>wq_serial3 := (wq_serial3 t)\<lparr>wq_queue := (m, ?d) # wq_queue (wq_serial3 t)\<rparr>, kern := k'\<rparr>"
    have "serial_rd w t = Some ([], ?t)"
      using k k' wm p by (simp add: serial_rd_def serial3_read_def serial_pending_empty)
    moreover have "serial_ok P n ?t" using ok k'(2) wm(2) by (simp add: serial_ok_def)
    moreover have "serial_pending ?t = []" using p by (simp add: serial_pending_def)
    ultimately show "\<exists>t'. serial_rd w t = Some ([], t') \<and> serial_ok P n t' \<and> serial_pending t' = []
        \<and> queue_view (wq_serial3 t') = queue_view (wq_serial3 t) @ [w]"
      using wm(1) by (intro exI [of _ ?t]) simp }
qed


section \<open>The keyboard\<close>

definition keyboard_rx :: "u8 \<Rightarrow> tty \<Rightarrow> (((u32 \<times> u64) \<times> u8) list \<times> tty) option" where
  "keyboard_rx b t = do {
     t' \<leftarrow> ps2_keyboard_interrupt_handler 1 b t;
     Some (case wq_next (wq_ps2_keyboard t) of None \<Rightarrow> []
           | Some ((n, d), _) \<Rightarrow> [((n, wqd_buff d), umem t' (wqd_buff d))], t') }"

definition keyboard_rd :: "u32 \<times> u64 \<Rightarrow> tty \<Rightarrow> (((u32 \<times> u64) \<times> u8) list \<times> tty) option" where
  "keyboard_rd w t = (case w of (n, buff) \<Rightarrow> do {
     t \<leftarrow> run_as n t;
     (c, t') \<leftarrow> ps2_keyboard_read 0 buff 1 0 t;
     Some (if length (wq_queue (wq_ps2_keyboard t')) = length (wq_queue (wq_ps2_keyboard t)) then [(w, c)] else [], t') })"

definition key_char :: "u8 \<Rightarrow> u8" where
  "key_char c = (if c < 0x80 then keyboard_map ! unat c else 0)"

lemma scancode_char: "c \<noteq> 0x80 \<Longrightarrow> keyboard_scancode_to_char c = Some (key_char c)"
proof -
  assume c: "c \<noteq> 0x80"
  have len: "length keyboard_map = 128" by (simp add: keyboard_map_def)
  show ?thesis
  proof (cases "c < 0x80")
    case True
    then have "c < 0x81" "unat c < 128" by (simp_all add: word_less_nat_alt)
    then show ?thesis using True len by (simp add: keyboard_scancode_to_char_def key_char_def nth_elem_def)
  next
    case False
    then have "128 \<le> unat c" by (simp add: word_less_nat_alt)
    moreover have "unat c \<noteq> 128" using c word_unat_eq_of_natI [of c 128] by auto
    ultimately have "129 \<le> unat c" by linarith
    then have "\<not> c < 0x81" by (simp add: word_less_nat_alt)
    then show ?thesis using False by (simp add: keyboard_scancode_to_char_def key_char_def)
  qed
qed

definition keyboard_ok :: "u32 set \<Rightarrow> nat \<Rightarrow> tty \<Rightarrow> bool" where
  "keyboard_ok P n t \<longleftrightarrow> kern_ok P (kern t) \<and> 0x80 \<notin> set (scancode_queue t) \<and> fst ` set (wq_queue (wq_ps2_keyboard t)) \<subseteq> P"

definition keyboard_pending :: "tty \<Rightarrow> u8 list" where
  "keyboard_pending t = map key_char (rev (scancode_queue t))"

interpretation keyboard: blocking_input "keyboard_ok P" keyboard_pending "\<lambda>t. queue_view (wq_ps2_keyboard t)"
  "P \<times> UNIV" "- {0x80}" key_char keyboard_rx keyboard_rd
  for P :: "u32 set"
proof unfold_locales
  fix n t and b :: u8
  assume ok: "keyboard_ok P (Suc n) t" and b: "b \<in> - {0x80}"
  let ?t = "t\<lparr>scancode_queue := b # scancode_queue t, wq_ps2_keyboard := wq_make_ready (wq_ps2_keyboard t)\<rparr>"
  { assume v: "queue_view (wq_ps2_keyboard t) = []"
    then have "wq_next (wq_make_ready (wq_ps2_keyboard t)) = None" "wq_next (wq_ps2_keyboard t) = None"
      by (simp_all add: queue_view_next)
    then have "keyboard_rx b t = Some ([], ?t)" by (simp add: keyboard_rx_def ps2_keyboard_interrupt_handler_def)
    moreover have "keyboard_ok P n ?t" using ok b by (simp add: keyboard_ok_def)
    ultimately show "\<exists>t'. keyboard_rx b t = Some ([], t') \<and> keyboard_ok P n t'
        \<and> keyboard_pending t' = keyboard_pending t @ [key_char b] \<and> queue_view (wq_ps2_keyboard t') = []"
      using v by (intro exI [of _ ?t]) (simp add: keyboard_pending_def) }
  { fix w ws assume v: "queue_view (wq_ps2_keyboard t) = w # ws" and p: "keyboard_pending t = []"
    obtain m bf where w: "w = (m, bf)" by (cases w)
    from v w obtain d wq where d: "wq_next (wq_make_ready (wq_ps2_keyboard t)) = Some ((m, d), wq)" "wqd_buff d = bf"
        "queue_view wq = ws" "(m, d) \<in> set (wq_queue (wq_ps2_keyboard t))"
        "set (wq_queue wq) \<subseteq> set (wq_queue (wq_ps2_keyboard t))"
      using queue_view_next(2) [of "wq_make_ready (wq_ps2_keyboard t)" m bf ws] by auto
    have d0: "\<exists>wq0. wq_next (wq_ps2_keyboard t) = Some ((m, d), wq0)"
      using d(1) by (auto simp: wq_next_def wq_make_ready_def split: if_splits)
    have e: "scancode_queue t = []" using p by (simp add: keyboard_pending_def)
    have m: "m \<in> P" using d(4) ok by (auto simp: keyboard_ok_def)
    let ?t1 = "?t\<lparr>wq_ps2_keyboard := wq, scancode_queue := []\<rparr>"
    have "kern_ok P (kern ?t1)" using ok by (simp add: keyboard_ok_def)
    from deliver_ok [OF this m] obtain k where
      k: "deliver m d (key_char b) ?t1 = Some (?t1\<lparr>kern := k, umem := (umem ?t1)(wqd_buff d := key_char b)\<rparr>)" "kern_ok P k"
      by blast
    let ?t2 = "?t1\<lparr>kern := k, umem := (umem ?t1)(wqd_buff d := key_char b)\<rparr>"
    have "ps2_keyboard_wq_ready m d (?t\<lparr>wq_ps2_keyboard := wq\<rparr>) = Some ?t2"
      using k(1) e b by (simp add: ps2_keyboard_wq_ready_def scancode_char)
    then have "keyboard_rx b t = Some ([(w, key_char b)], ?t2)"
      using d(1,2) d0 w by (auto simp: keyboard_rx_def ps2_keyboard_interrupt_handler_def)
    moreover have "keyboard_ok P n ?t2" using ok k(2) d(5) by (auto simp: keyboard_ok_def)
    ultimately show "\<exists>t'. keyboard_rx b t = Some ([(w, key_char b)], t') \<and> keyboard_ok P n t'
        \<and> keyboard_pending t' = [] \<and> queue_view (wq_ps2_keyboard t') = ws"
      using d(3) by (intro exI [of _ ?t2]) (simp add: keyboard_pending_def) }
next
  fix n t w assume ok: "keyboard_ok P n t" and w: "w \<in> P \<times> (UNIV :: u64 set)"
  obtain m bf where wm: "w = (m, bf)" "m \<in> P" using w by auto
  obtain k where k: "run_as m t = Some (t\<lparr>kern := k\<rparr>)" "kern_ok P k" "current_pid (t\<lparr>kern := k\<rparr>) = Some m"
    using run_as_ok [of P t m] ok wm(2) by (auto simp: keyboard_ok_def)
  { fix c xs assume p: "keyboard_pending t = c # xs"
    then have q: "scancode_queue t \<noteq> []" by (auto simp: keyboard_pending_def)
    then have s: "scancode_queue t = butlast (scancode_queue t) @ [last (scancode_queue t)]" by simp
    have "keyboard_pending t = map key_char (rev (butlast (scancode_queue t) @ [last (scancode_queue t)]))"
      using s by (simp add: keyboard_pending_def)
    then have c: "c = key_char (last (scancode_queue t))" "xs = map key_char (rev (butlast (scancode_queue t)))"
      using p by simp_all
    let ?t = "t\<lparr>kern := k, scancode_queue := butlast (scancode_queue t)\<rparr>"
    have "last (scancode_queue t) \<noteq> 0x80" using ok last_in_set [OF q] by (auto simp: keyboard_ok_def)
    then have "keyboard_rd w t = Some ([(w, c)], ?t)"
      using k wm q c by (simp add: keyboard_rd_def ps2_keyboard_read_def scancode_char)
    moreover have "keyboard_ok P n ?t" using ok k(2) by (auto simp: keyboard_ok_def dest: in_set_butlastD)
    ultimately show "\<exists>t'. keyboard_rd w t = Some ([(w, c)], t') \<and> keyboard_ok P n t' \<and> keyboard_pending t' = xs
        \<and> queue_view (wq_ps2_keyboard t') = queue_view (wq_ps2_keyboard t)"
      using c by (intro exI [of _ ?t]) (simp add: keyboard_pending_def) }
  { assume p: "keyboard_pending t = []"
    then have e: "scancode_queue t = []" by (simp add: keyboard_pending_def)
    let ?d = "\<lparr>wqd_fd = 0, wqd_buff = bf, wqd_count = 1\<rparr>"
    obtain k' where k': "wq_add (wq_ps2_keyboard t) m ?d k
        = Some ((wq_ps2_keyboard t)\<lparr>wq_queue := (m, ?d) # wq_queue (wq_ps2_keyboard t)\<rparr>, k')" "kern_ok P k'"
      using wq_add_ok [OF k(2) wm(2)] by blast
    let ?t = "t\<lparr>wq_ps2_keyboard := (wq_ps2_keyboard t)\<lparr>wq_queue := (m, ?d) # wq_queue (wq_ps2_keyboard t)\<rparr>, kern := k'\<rparr>"
    have "keyboard_rd w t = Some ([], ?t)"
      using k k' wm e by (simp add: keyboard_rd_def ps2_keyboard_read_def)
    moreover have "keyboard_ok P n ?t" using ok k'(2) wm(2) by (simp add: keyboard_ok_def)
    ultimately show "\<exists>t'. keyboard_rd w t = Some ([], t') \<and> keyboard_ok P n t' \<and> keyboard_pending t' = []
        \<and> queue_view (wq_ps2_keyboard t') = queue_view (wq_ps2_keyboard t) @ [w]"
      using wm(1) p by (intro exI [of _ ?t]) (simp add: keyboard_pending_def) }
qed


section \<open>Order of input\<close>

lemma no_waiters [simp]: "wq_queue wq = [] \<Longrightarrow> queue_view wq = []"
  by (simp add: queue_view_def)



lemma serial_fill:
  assumes "serial_ok P (length bs) t" "wq_queue (wq_serial3 t) = []"
  shows "\<exists>t'. tty_run serial_rx serial_rd (map Receive bs) t = Some ([], t') \<and> serial_ok P 0 t'
    \<and> wq_queue (wq_serial3 t') = [] \<and> serial3_buffer_r_index t' = serial3_buffer_r_index t
    \<and> serial3_buffer_w_index t' = serial3_buffer_w_index t + length bs
    \<and> take (serial3_buffer_w_index t + length bs) (serial3_buffer t') = take (serial3_buffer_w_index t) (serial3_buffer t) @ bs"
  using assms
proof (induction bs arbitrary: t)
  case (Cons b bs)
  let ?w = "serial3_buffer_w_index t"
  let ?t = "t\<lparr>serial3_buffer := (serial3_buffer t)[?w := b], serial3_buffer_w_index := Suc ?w,
    wq_serial3 := wq_make_ready (wq_serial3 t)\<rparr>"
  have w: "Suc ?w < 50" "length (serial3_buffer t) = 50" using Cons.prems(1) by (simp_all add: serial_ok_def)
  then have rx: "serial_rx b t = Some ([], ?t)"
    using Cons.prems(2)
    by (simp add: serial_rx_def serial3_interrupt_handler_def nth_elem_def next_index_def wq_next_def)
  have "serial_ok P (length bs) ?t" "wq_queue (wq_serial3 ?t) = []" using Cons.prems by (simp_all add: serial_ok_def)
  moreover have "take (Suc ?w) ((serial3_buffer t)[?w := b]) = take ?w (serial3_buffer t) @ [b]"
    using w by (simp add: take_Suc_conv_app_nth take_update_cancel)
  ultimately show ?case using Cons.IH [of ?t] rx by auto
qed (simp add: serial_ok_def)

text \<open>A full serial buffer reads as empty. After 50 bytes that nobody
  has read the write index is back at the start: the next reader is put to sleep
  although all 50 bytes stand in the buffer.\<close>

theorem serial_wrap_hides_input:
  assumes "kern_ok P (kern t)" "n \<in> P" "length bs = 50"
    and "length (serial3_buffer t) = 50" "serial3_buffer_r_index t = 0" "serial3_buffer_w_index t = 0"
    and "wq_queue (wq_serial3 t) = []"
  shows "\<exists>t'. tty_run serial_rx serial_rd (map Receive bs @ [Read (n, buff)]) t = Some ([], t')
    \<and> serial3_buffer t' = bs \<and> serial3_buffer_r_index t' = 0
    \<and> queue_view (wq_serial3 t') = [(n, buff)]"
proof -
  obtain cs' c where bs: "bs = cs' @ [c]" "length cs' = 49"
    using assms(3) by (cases bs rule: rev_cases) auto
  have "serial_ok P (length cs') t" using assms bs by (simp add: serial_ok_def)
  from serial_fill [OF this assms(7)] obtain t1 where
    t1: "tty_run serial_rx serial_rd (map Receive cs') t = Some ([], t1)" "serial_ok P 0 t1" "wq_queue (wq_serial3 t1) = []"
      "serial3_buffer_r_index t1 = 0" "serial3_buffer_w_index t1 = 49" "take 49 (serial3_buffer t1) = cs'"
    using assms(5,6) bs(2) by auto
  let ?t2 = "t1\<lparr>serial3_buffer := (serial3_buffer t1)[49 := c], serial3_buffer_w_index := 0,
    wq_serial3 := wq_make_ready (wq_serial3 t1)\<rparr>"
  have len: "length (serial3_buffer t1) = 50" and k1: "kern_ok P (kern t1)" using t1(2) by (simp_all add: serial_ok_def)
  then have rx: "serial_rx c t1 = Some ([], ?t2)"
    using t1(3,5) by (simp add: serial_rx_def serial3_interrupt_handler_def nth_elem_def next_index_def wq_next_def)
  have buf: "(serial3_buffer t1)[49 := c] = bs"
  proof -
    have "(serial3_buffer t1)[49 := c] = take 49 (serial3_buffer t1) @ c # drop (Suc 49) (serial3_buffer t1)"
      using len by (intro upd_conv_take_nth_drop) simp
    then show ?thesis using len t1(6) bs(1) by simp
  qed
  obtain k where k: "run_as n ?t2 = Some (?t2\<lparr>kern := k\<rparr>)" "kern_ok P k" "current_pid (?t2\<lparr>kern := k\<rparr>) = Some n"
    using run_as_ok [of P ?t2 n] k1 assms(2) by auto
  let ?d = "\<lparr>wqd_fd = 0, wqd_buff = buff, wqd_count = 1\<rparr>"
  obtain k' where k': "wq_add (wq_make_ready (wq_serial3 t1)) n ?d k
      = Some ((wq_make_ready (wq_serial3 t1))\<lparr>wq_queue := [(n, ?d)]\<rparr>, k')"
    using wq_add_ok [OF k(2) assms(2), of "wq_make_ready (wq_serial3 t1)" ?d] t1(3) by auto
  have rd: "serial_rd (n, buff) ?t2 = Some ([], ?t2\<lparr>wq_serial3 := (wq_make_ready (wq_serial3 t1))\<lparr>wq_queue := [(n, ?d)]\<rparr>, kern := k'\<rparr>)"
    using k k' t1(3) by (simp add: serial_rd_def serial3_read_def)
  have "tty_run serial_rx serial_rd [Receive c, Read (n, buff)] t1 = Some ([],
      ?t2\<lparr>wq_serial3 := (wq_make_ready (wq_serial3 t1))\<lparr>wq_queue := [(n, ?d)]\<rparr>, kern := k'\<rparr>)"
    using rx rd by simp
  from tty_run_append [OF t1(1) this]
  show ?thesis using t1(4) buf bs(1) by (simp add: queue_view_def)
qed


section \<open>The mouse\<close>

primrec mouse_run :: "u8 list \<Rightarrow> mouse \<Rightarrow> ((int \<times> int) list \<times> mouse) option" where
  "mouse_run [] s = Some ([], s)"
| "mouse_run (b # bs) s = do {
     (r, s) \<leftarrow> ps2_mouse_interrupt_handler b s;
     (rs, s) \<leftarrow> mouse_run bs s;
     Some ((case r of None \<Rightarrow> [] | Some m \<Rightarrow> [m]) @ rs, s) }"

lemma mouse_run_append:
  "mouse_run xs s = Some (r, s1) \<Longrightarrow> mouse_run ys s1 = Some (r', s2) \<Longrightarrow> mouse_run (xs @ ys) s = Some (r @ r', s2)"
  by (induction xs arbitrary: s r) (auto simp: bind_Some_conv split_beta)

text \<open>The three bytes in which a mouse reports a movement and its buttons.\<close>

record mouse_report =
  dx :: int
  dy :: int
  left :: bool
  middle :: bool
  right :: bool

definition mouse_flags :: "mouse_report \<Rightarrow> u8" where
  "mouse_flags m = (if left m then 1 else 0) OR (if right m then 2 else 0) OR (if middle m then 4 else 0) OR 8
     OR (if dx m < 0 then 16 else 0) OR (if dy m < 0 then 32 else 0)"

definition mouse_packet :: "mouse_report \<Rightarrow> u8 list" where
  "mouse_packet m = [mouse_flags m, word_of_int (dx m), word_of_int (dy m)]"

lemma mouse_flags_bits:
  "bit (mouse_flags m) 0 = left m" "bit (mouse_flags m) 1 = right m" "bit (mouse_flags m) (Suc 0) = right m"
  "bit (mouse_flags m) 2 = middle m" "bit (mouse_flags m) (Suc (Suc 0)) = middle m" "bit (mouse_flags m) 3" "bit (mouse_flags m) 4 = (dx m < 0)"
  "bit (mouse_flags m) 5 = (dy m < 0)" "\<not> bit (mouse_flags m) 6" "\<not> bit (mouse_flags m) 7"
  by (cases "left m"; cases "right m"; cases "middle m"; cases "dx m < 0"; cases "dy m < 0"; simp add: mouse_flags_def)+

lemma nine_bits: "- 256 \<le> d \<Longrightarrow> d < 256 \<Longrightarrow> int (unat (word_of_int d :: u8)) - (if d < 0 then 0x100 else 0) = d"
proof -
  assume d: "- 256 \<le> d" "d < 256"
  have "int (unat (word_of_int d :: u8)) = d mod 256" by (simp add: unsigned_of_int take_bit_eq_mod)
  moreover have "d mod 256 = (if d < 0 then d + 256 else d)"
    using d by presburger
  ultimately show ?thesis by simp
qed

lemma mouse_one:
  assumes "mouse_cycle s = 0" "length (mouse_byte s) = 3"
    and "- 256 \<le> dx m" "dx m < 256" "- 256 \<le> dy m" "dy m < 256"
  shows "\<exists>s'. mouse_run (mouse_packet m) s = Some ([(dx m, - dy m)], s') \<and> mouse_cycle s' = 0 \<and> length (mouse_byte s') = 3
    \<and> left_button s' = left m \<and> middle_button s' = middle m \<and> right_button s' = right m"
proof -
  obtain a b c where "mouse_byte s = [a, b, c]" using assms(2) by (auto simp: length_Suc_conv numeral_3_eq_3)
  then show ?thesis
    using assms(1) nine_bits [OF assms(3,4)] nine_bits [OF assms(5,6)]
    by (simp add: mouse_packet_def ps2_mouse_interrupt_handler_def nth_elem_def mouse_flags_bits Let_def numeral_2_eq_2)
qed

text \<open>Property C30: the packets of the mouse. Bytes that are the packets of a list of
  reports with movements of nine bits, after bytes that cannot begin a packet,
  give exactly these movements, with y turned upside down, and leave the buttons
  of the last report.\<close>

theorem mouse_packets_decoded:
  assumes "mouse_cycle s = 0" "length (mouse_byte s) = 3" "\<forall>b\<in>set junk. \<not> bit b 3"
    and "\<forall>m\<in>set ms. - 256 \<le> dx m \<and> dx m < 256 \<and> - 256 \<le> dy m \<and> dy m < 256"
  shows "\<exists>s'. mouse_run (junk @ concat (map mouse_packet ms)) s = Some (map (\<lambda>m. (dx m, - dy m)) ms, s')
    \<and> mouse_cycle s' = 0 \<and> (ms \<noteq> [] \<longrightarrow> left_button s' = left (last ms) \<and> middle_button s' = middle (last ms)
        \<and> right_button s' = right (last ms))"
proof -
  have junk: "mouse_run junk s = Some ([], s)"
    using assms(1,3) by (induction junk) (simp_all add: ps2_mouse_interrupt_handler_def)
  have "\<exists>s'. mouse_run (concat (map mouse_packet ms)) s = Some (map (\<lambda>m. (dx m, - dy m)) ms, s')
    \<and> mouse_cycle s' = 0 \<and> (ms \<noteq> [] \<longrightarrow> left_button s' = left (last ms) \<and> middle_button s' = middle (last ms)
        \<and> right_button s' = right (last ms))"
    using assms(1,2,4)
  proof (induction ms arbitrary: s)
    case (Cons m ms)
    obtain s1 where s1: "mouse_run (mouse_packet m) s = Some ([(dx m, - dy m)], s1)" "mouse_cycle s1 = 0"
        "length (mouse_byte s1) = 3"
        "left_button s1 = left m" "middle_button s1 = middle m" "right_button s1 = right m"
      using mouse_one [OF Cons.prems(1,2), of m] Cons.prems(3) by auto
    from Cons.IH [OF s1(2,3)] Cons.prems(3) obtain s2 where
      s2: "mouse_run (concat (map mouse_packet ms)) s1 = Some (map (\<lambda>m. (dx m, - dy m)) ms, s2)" "mouse_cycle s2 = 0"
        "ms \<noteq> [] \<longrightarrow> left_button s2 = left (last ms) \<and> middle_button s2 = middle (last ms) \<and> right_button s2 = right (last ms)"
      by auto
    have "ms = [] \<Longrightarrow> s2 = s1" using s2(1) by simp
    then show ?case using mouse_run_append [OF s1(1) s2(1)] s1 s2 by (intro exI [of _ s2]) auto
  qed simp
  then show ?thesis using mouse_run_append [OF junk] by fastforce
qed


section \<open>A small console\<close>

definition demo_tty :: tty where
  "demo_tty = \<lparr>kern = demo_kernel, umem = (\<lambda>_. 0), serial3_buffer = replicate 50 0, serial3_buffer_w_index = 0,
     serial3_buffer_r_index = 0, wq_serial3 = wq_new False [0x73], scancode_queue = [], wq_ps2_keyboard = wq_new False [0x70],
     d_use_as_stdin = Some Serial3, d_use_as_stdout = None, com3_out = [], com4_out = [], console_out = []\<rparr>"

lemma demo_tty_sel:
  "kern demo_tty = demo_kernel" "length (serial3_buffer demo_tty) = 50" "serial3_buffer_w_index demo_tty = 0"
  "serial3_buffer_r_index demo_tty = 0" "wq_queue (wq_serial3 demo_tty) = []" "scancode_queue demo_tty = []"
  "wq_queue (wq_ps2_keyboard demo_tty) = []"
  by (simp_all add: demo_tty_def wq_new_def)

lemma demo_kern_ok: "kern_ok {1, 2} (kern demo_tty)"
  unfolding kern_ok_def
  by (intro exI [of _ demo_ns]) (simp add: demo_proc_rep demo_tty_sel ads_def pr_def demo_cells demo_proc_sel)



lemma serial_wrap_hides_input_witness:
  "\<exists>t'. tty_run serial_rx serial_rd (map Receive (replicate 50 65) @ [Read (1, 8)]) demo_tty = Some ([], t')
    \<and> serial3_buffer t' = replicate 50 65"
  using serial_wrap_hides_input [OF demo_kern_ok, of 1 "replicate 50 65" 8] by (auto simp: demo_tty_sel)

lemma mouse_packets_decoded_witness:
  "\<exists>s'. mouse_run ([0x10] @ concat (map mouse_packet [\<lparr>dx = - 3, dy = 5, left = True, middle = False, right = False\<rparr>]))
      \<lparr>mouse_cycle = 0, mouse_byte = [0, 0, 0], left_button = False, middle_button = False, right_button = False\<rparr>
      = Some ([(- 3, - 5)], s') \<and> left_button s'"
  using mouse_packets_decoded [of
      "\<lparr>mouse_cycle = 0, mouse_byte = [0, 0, 0], left_button = False, middle_button = False, right_button = False\<rparr>" "[0x10]"
      "[\<lparr>dx = - 3, dy = 5, left = True, middle = False, right = False\<rparr>]"]
  by auto

end
