(* ===== verification/Elf.thy ===== *)
theory Elf
  imports Asvfs Ksyms
begin

text \<open>
  ELF files as the loader of shared libraries reads them (include/elf.h,
  kernel/fs/elf2.c). A file is the list of its bytes; a pointer into it is the
  offset, and a read outside it is None. kmalloc succeeds and gives the structure
  of the file cleared, as lib_register does.
\<close>

section \<open>The records of a file\<close>

record Elf64_Ehdr =
  e_type :: u16
  e_machine :: u16
  e_version :: u32
  e_entry :: u64
  e_phoff :: u64
  e_shoff :: u64
  e_flags :: u32
  e_ehsize :: u16
  e_phentsize :: u16
  e_phnum :: u16
  e_shentsize :: u16
  e_shnum :: u16
  e_shstrndx :: u16

record Elf64_Phdr =
  p_type :: u32
  p_flags :: u32
  p_offset :: u64
  p_vaddr :: u64
  p_paddr :: u64
  p_filesz :: u64
  p_memsz :: u64
  p_align :: u64

record Elf64_Shdr =
  sh_name :: u32
  sh_type :: u32
  sh_flags :: u64
  sh_addr :: u64
  sh_offset :: u64
  sh_size :: u64
  sh_link :: u32
  sh_info :: u32
  sh_addralign :: u64
  sh_entsize :: u64

record Elf64_Sym =
  st_name :: u32
  st_info :: u8
  st_other :: u8
  st_shndx :: u16
  st_value :: u64
  st_symsize :: u64

record Elf64_Rela =
  r_offset :: u64
  r_info :: u64
  r_addend :: u64

definition ehdr_at :: "u8 list \<Rightarrow> nat \<Rightarrow> Elf64_Ehdr option" where
  "ehdr_at data i = do {
     ty \<leftarrow> read_le data (i + 16) 2; mach \<leftarrow> read_le data (i + 18) 2; ver \<leftarrow> read_le data (i + 20) 4;
     ent \<leftarrow> read_le data (i + 24) 8; ph \<leftarrow> read_le data (i + 32) 8; sh \<leftarrow> read_le data (i + 40) 8;
     fl \<leftarrow> read_le data (i + 48) 4; eh \<leftarrow> read_le data (i + 52) 2;
     phs \<leftarrow> read_le data (i + 54) 2; phn \<leftarrow> read_le data (i + 56) 2;
     shs \<leftarrow> read_le data (i + 58) 2; shn \<leftarrow> read_le data (i + 60) 2; shx \<leftarrow> read_le data (i + 62) 2;
     Some \<lparr>e_type = ty, e_machine = mach, e_version = ver, e_entry = ent, e_phoff = ph, e_shoff = sh, e_flags = fl,
       e_ehsize = eh, e_phentsize = phs, e_phnum = phn, e_shentsize = shs, e_shnum = shn, e_shstrndx = shx\<rparr> }"

definition phdr_at :: "u8 list \<Rightarrow> nat \<Rightarrow> Elf64_Phdr option" where
  "phdr_at data i = do {
     ty \<leftarrow> read_le data i 4; fl \<leftarrow> read_le data (i + 4) 4; off \<leftarrow> read_le data (i + 8) 8;
     va \<leftarrow> read_le data (i + 16) 8; pa \<leftarrow> read_le data (i + 24) 8; fs \<leftarrow> read_le data (i + 32) 8;
     ms \<leftarrow> read_le data (i + 40) 8; al \<leftarrow> read_le data (i + 48) 8;
     Some \<lparr>p_type = ty, p_flags = fl, p_offset = off, p_vaddr = va, p_paddr = pa, p_filesz = fs, p_memsz = ms, p_align = al\<rparr> }"

definition shdr_at :: "u8 list \<Rightarrow> nat \<Rightarrow> Elf64_Shdr option" where
  "shdr_at data i = do {
     nm \<leftarrow> read_le data i 4; ty \<leftarrow> read_le data (i + 4) 4; fl \<leftarrow> read_le data (i + 8) 8;
     ad \<leftarrow> read_le data (i + 16) 8; off \<leftarrow> read_le data (i + 24) 8; sz \<leftarrow> read_le data (i + 32) 8;
     li \<leftarrow> read_le data (i + 40) 4; inf \<leftarrow> read_le data (i + 44) 4; al \<leftarrow> read_le data (i + 48) 8; es \<leftarrow> read_le data (i + 56) 8;
     Some \<lparr>sh_name = nm, sh_type = ty, sh_flags = fl, sh_addr = ad, sh_offset = off, sh_size = sz, sh_link = li,
       sh_info = inf, sh_addralign = al, sh_entsize = es\<rparr> }"

definition sym_at :: "u8 list \<Rightarrow> nat \<Rightarrow> Elf64_Sym option" where
  "sym_at data i = do {
     nm \<leftarrow> read_le data i 4; inf \<leftarrow> read_le data (i + 4) 1; oth \<leftarrow> read_le data (i + 5) 1; sx \<leftarrow> read_le data (i + 6) 2;
     v \<leftarrow> read_le data (i + 8) 8; sz \<leftarrow> read_le data (i + 16) 8;
     Some \<lparr>st_name = nm, st_info = inf, st_other = oth, st_shndx = sx, st_value = v, st_symsize = sz\<rparr> }"

definition rela_at :: "u8 list \<Rightarrow> nat \<Rightarrow> Elf64_Rela option" where
  "rela_at data i = do {
     off \<leftarrow> read_le data i 8; inf \<leftarrow> read_le data (i + 8) 8; add \<leftarrow> read_le data (i + 16) 8;
     Some \<lparr>r_offset = off, r_info = inf, r_addend = add\<rparr> }"

text \<open>The string at an offset.\<close>

definition str_at :: "u8 list \<Rightarrow> nat \<Rightarrow> u8 list option" where
  "str_at data i = cstr_of (drop i data)"

definition ELF64_R_SYM :: "u64 \<Rightarrow> u64" where
  "ELF64_R_SYM i = drop_bit 32 i"

definition ELF64_R_TYPE :: "u64 \<Rightarrow> u64" where
  "ELF64_R_TYPE i = i AND 0xFFFFFFFF"


section \<open>The structure of a file\<close>

abbreviation (input) PT_LOAD :: u32 where "PT_LOAD \<equiv> 1"

record elf2_symbol =
  es_name :: nat
  es_addr :: u64
  es_size :: u64
  es_sh_index :: u32
  es_type :: u32
  es_binding :: u8

record elf2_program_header =
  ph_type :: u32
  phys_addr :: u64
  phys_offset :: u64
  virt_addr :: u64
  phys_size :: u64
  virt_size :: u64
  ph_read :: bool
  ph_write :: bool
  ph_execute :: bool

record elf2_file =
  file_base :: "u8 list"
  header :: Elf64_Ehdr
  section_headers :: nat
  str_tbl_section_names :: nat
  has_program_headers :: bool
  program_headers_num_loads :: nat
  program_headers :: "elf2_program_header list"
  has_dynsym :: bool
  dynsym_str_tbl :: nat
  dynsym_ents :: "elf2_symbol list"
  num_symbols :: nat

text \<open>The index is a uint8_t; index - 1 is computed as an int.\<close>

definition elf2_new_get_section_header_by_index :: "u8 \<Rightarrow> elf2_file \<Rightarrow> Elf64_Shdr option" where
  "elf2_new_get_section_header_by_index index f =
     (let i = int (section_headers f) + int (unat (e_shentsize (header f))) * (int (unat index) - 1) in
      if i < 0 then None else shdr_at (file_base f) (nat i))"

definition elf2_new_get_program_header_by_index :: "u8 \<Rightarrow> elf2_file \<Rightarrow> Elf64_Phdr option" where
  "elf2_new_get_program_header_by_index index f =
     phdr_at (file_base f) (unat (e_phoff (header f)) + unat (e_phentsize (header f)) * unat index)"

definition elf2_new_get_symbol_entry :: "u64 \<Rightarrow> u8 \<Rightarrow> elf2_file \<Rightarrow> Elf64_Sym option" where
  "elf2_new_get_symbol_entry s_offset index f = sym_at (file_base f) (unat s_offset + 24 * unat index)"

text \<open>The loop over the sections i, i + 1, ...; the result Some None is NULL.\<close>

primrec section_by_name :: "nat list \<Rightarrow> u8 list \<Rightarrow> elf2_file \<Rightarrow> Elf64_Shdr option option" where
  "section_by_name [] name f = Some None"
| "section_by_name (i # is) name f = do {
     sect \<leftarrow> shdr_at (file_base f) (section_headers f + unat (e_shentsize (header f)) * i);
     section_name \<leftarrow> str_at (file_base f) (str_tbl_section_names f + unat (sh_name sect));
     if name = section_name then Some (Some sect) else section_by_name is name f }"

definition elf2_new_get_section_header_by_name :: "u8 list \<Rightarrow> elf2_file \<Rightarrow> Elf64_Shdr option option" where
  "elf2_new_get_section_header_by_name name f = section_by_name [0..<unat (e_shnum (header f))] name f"

primrec load_phdrs :: "nat list \<Rightarrow> elf2_file \<Rightarrow> elf2_program_header list option" where
  "load_phdrs [] f = Some []"
| "load_phdrs (i # is) f = do {
     phdr \<leftarrow> elf2_new_get_program_header_by_index (of_nat i) f;
     rest \<leftarrow> load_phdrs is f;
     Some (\<lparr>ph_type = p_type phdr, phys_addr = p_paddr phdr, phys_offset = p_offset phdr, virt_addr = p_vaddr phdr,
            phys_size = p_filesz phdr, virt_size = p_memsz phdr, ph_read = (p_flags phdr AND 4 \<noteq> 0),
            ph_write = (p_flags phdr AND 2 \<noteq> 0), ph_execute = (p_flags phdr AND 1 \<noteq> 0)\<rparr> # rest) }"

primrec load_dynsyms :: "nat list \<Rightarrow> u64 \<Rightarrow> elf2_file \<Rightarrow> elf2_symbol list option" where
  "load_dynsyms [] off f = Some []"
| "load_dynsyms (i # is) off f = do {
     s_dyn \<leftarrow> elf2_new_get_symbol_entry off (of_nat i) f;
     rest \<leftarrow> load_dynsyms is off f;
     Some (\<lparr>es_name = dynsym_str_tbl f + unat (st_name s_dyn), es_addr = st_value s_dyn, es_size = st_symsize s_dyn,
            es_sh_index = ucast (st_shndx s_dyn), es_type = ucast (st_info s_dyn AND 0xF),
            es_binding = drop_bit 4 (st_info s_dyn)\<rparr> # rest) }"

abbreviation (input) name_dynsym :: "u8 list" where "name_dynsym \<equiv> [0x2E, 0x64, 0x79, 0x6E, 0x73, 0x79, 0x6D]"
abbreviation (input) name_dynstr :: "u8 list" where "name_dynstr \<equiv> [0x2E, 0x64, 0x79, 0x6E, 0x73, 0x74, 0x72]"
abbreviation (input) name_rela_dyn :: "u8 list" where
  "name_rela_dyn \<equiv> [0x2E, 0x72, 0x65, 0x6C, 0x61, 0x2E, 0x64, 0x79, 0x6E]"
abbreviation (input) name_rela_plt :: "u8 list" where
  "name_rela_plt \<equiv> [0x2E, 0x72, 0x65, 0x6C, 0x61, 0x2E, 0x70, 0x6C, 0x74]"

text \<open>The number of entries of a table, an int: of 2 ^ 31 or more nothing is loaded.\<close>

definition int_count :: "u64 \<Rightarrow> nat" where
  "int_count n = nat (sint (ucast n :: u32))"

definition load_dynamic :: "elf2_file \<Rightarrow> elf2_file option" where
  "load_dynamic f = do {
     sh_dyn \<leftarrow> elf2_new_get_section_header_by_name name_dynsym f;
     case sh_dyn of None \<Rightarrow> Some f
     | Some d \<Rightarrow> if sh_entsize d = 0 then None else do {
         let n = int_count (sh_size d div sh_entsize d);
         sh_dyn_str \<leftarrow> elf2_new_get_section_header_by_name name_dynstr f;
         case sh_dyn_str of None \<Rightarrow> Some (f\<lparr>has_dynsym := False\<rparr>)
         | Some str \<Rightarrow> do {
             let f = f\<lparr>has_dynsym := True, dynsym_str_tbl := unat (sh_offset str)\<rparr>;
             es \<leftarrow> load_dynsyms [0..<n] (sh_offset d) f;
             Some (f\<lparr>dynsym_ents := es, num_symbols := length (filter (\<lambda>e. es_sh_index e \<noteq> 0) es)\<rparr>) } } }"

definition elf2_new_initalize_file :: "u8 list \<Rightarrow> elf2_file option" where
  "elf2_new_initalize_file data = do {
     h \<leftarrow> ehdr_at data 0;
     let f = \<lparr>file_base = data, header = h, section_headers = unat (e_shoff h), str_tbl_section_names = 0,
              has_program_headers = False, program_headers_num_loads = 0, program_headers = [],
              has_dynsym = False, dynsym_str_tbl = 0, dynsym_ents = [], num_symbols = 0\<rparr>;
     tbl \<leftarrow> elf2_new_get_section_header_by_index (ucast (e_shstrndx h + 1)) f;
     let f = f\<lparr>str_tbl_section_names := unat (sh_offset tbl)\<rparr>;
     f \<leftarrow> (if e_phnum h > 0 then do {
            phs \<leftarrow> load_phdrs [0..<unat (e_phnum h)] f;
            Some (f\<lparr>has_program_headers := True, program_headers := phs,
                    program_headers_num_loads := length (filter (\<lambda>p. ph_type p = PT_LOAD) phs)\<rparr>) }
          else Some f);
     load_dynamic f }"

text \<open>A record read in a file is read in its bytes.\<close>

lemma read_le_piece:
  assumes "take m (drop i data) = p" "length p = m" "0 < m" "k + n \<le> m"
  shows "read_le data (i + k) n = read_le p k n"
proof -
  have "i + m \<le> length data" using assms(1-3) by (cases "i \<le> length data") (auto simp: min_def split: if_splits)
  then show ?thesis using assms by (auto simp: read_le_def drop_take min_def add.commute)
qed

lemma read_le_piece_0:
  "take m (drop i data) = p \<Longrightarrow> length p = m \<Longrightarrow> 0 < m \<Longrightarrow> n \<le> m \<Longrightarrow> read_le data i n = read_le p 0 n"
  using read_le_piece [of m i data p 0 n] by simp

lemma records_in_piece:
  "take 64 (drop i data) = p \<Longrightarrow> length p = 64 \<Longrightarrow> ehdr_at data i = ehdr_at p 0"
  "take 56 (drop i data) = p \<Longrightarrow> length p = 56 \<Longrightarrow> phdr_at data i = phdr_at p 0"
  "take 64 (drop i data) = p \<Longrightarrow> length p = 64 \<Longrightarrow> shdr_at data i = shdr_at p 0"
  "take 24 (drop i data) = p \<Longrightarrow> length p = 24 \<Longrightarrow> sym_at data i = sym_at p 0"
  "take 24 (drop i data) = p \<Longrightarrow> length p = 24 \<Longrightarrow> rela_at data i = rela_at p 0"
  by (simp_all add: ehdr_at_def phdr_at_def shdr_at_def sym_at_def rela_at_def read_le_piece read_le_piece_0)

end
