(* ===== verification/Library.thy ===== *)
theory Library
  imports Elf Process
begin

text \<open>
  Shared libraries (kernel/support/libraries.c) and the dynamic linker of the
  programs (elf_loader_get_ksym_addr and elf_loader_dynamic_linker of
  kernel/task/elf_loader.c). The memory of a library is the list of its bytes
  from its base address on, which is an argument; a write outside of it is
  None. lib_dynamic_linker has no return statement after its loop: where no
  library has the symbol its result is None.
\<close>

record lib_symbol =
  ls_name :: "u8 list"
  ls_addr :: u64

record lib_shared =
  f_elf :: elf2_file
  lib_symbols :: "lib_symbol list"
  total_pages :: nat
  lib_base :: u64
  lib_mem :: "u8 list"

text \<open>memcpy of bs to an offset from the base.\<close>

definition mem_put :: "nat \<Rightarrow> u8 list \<Rightarrow> u8 list \<Rightarrow> u8 list option" where
  "mem_put off bs m = (if off + length bs \<le> length m then Some (take off m @ bs @ drop (off + length bs) m) else None)"

definition le_bytes :: "u64 \<Rightarrow> u8 list" where
  "le_bytes w = map (\<lambda>i. ucast (drop_bit (8 * i) w)) [0..<8]"


section \<open>Segments\<close>

text \<open>The int virt_mem_max is compared, sign extended, with the 64-bit end of the segment.\<close>

primrec virt_mem_max_loop :: "elf2_program_header list \<Rightarrow> u32 \<Rightarrow> u32" where
  "virt_mem_max_loop [] m = m"
| "virt_mem_max_loop (p # ps) m = (let ent_end_addr = virt_addr p + virt_size p in
     virt_mem_max_loop ps (if ph_type p = PT_LOAD \<and> ent_end_addr > scast m then ucast ent_end_addr else m))"

primrec copy_segments :: "elf2_program_header list \<Rightarrow> u8 list \<Rightarrow> u8 list \<Rightarrow> u8 list option" where
  "copy_segments [] data m = Some m"
| "copy_segments (p # ps) data m =
     (if ph_type p \<noteq> PT_LOAD then copy_segments ps data m
      else if length data < unat (phys_offset p) + unat (phys_size p) then None
      else do {
        m \<leftarrow> mem_put (unat (virt_addr p)) (take (unat (phys_size p)) (drop (unat (phys_offset p)) data)) m;
        copy_segments ps data m })"

text \<open>base is what page_allocate_kernel returns for the pages.\<close>

definition lib_load_program_headers :: "u64 \<Rightarrow> u8 list \<Rightarrow> lib_shared \<Rightarrow> lib_shared option" where
  "lib_load_program_headers base lib_data lib =
     (if \<not> has_program_headers (f_elf lib) then Some lib
      else do {
        let virt_mem_max = virt_mem_max_loop (program_headers (f_elf lib)) 0;
        let pages = sint virt_mem_max div 4096 + 1;
        if sint virt_mem_max < 0 then None else do {
          m \<leftarrow> copy_segments (program_headers (f_elf lib)) lib_data (replicate (nat pages * 4096) 0);
          Some (lib\<lparr>total_pages := nat pages, lib_base := base, lib_mem := m\<rparr>) } })"


section \<open>Symbols\<close>

primrec load_symbols :: "elf2_symbol list \<Rightarrow> lib_shared \<Rightarrow> lib_symbol list option" where
  "load_symbols [] lib = Some []"
| "load_symbols (e # es) lib =
     (if es_sh_index e = 0 then load_symbols es lib
      else do {
        name \<leftarrow> str_at (file_base (f_elf lib)) (es_name e);
        if 50 \<le> length name then None else do {
          rest \<leftarrow> load_symbols es lib;
          Some (\<lparr>ls_name = name, ls_addr = lib_base lib + es_addr e\<rparr> # rest) } })"

definition lib_load_symbols :: "lib_shared \<Rightarrow> lib_shared option" where
  "lib_load_symbols lib = (if \<not> has_dynsym (f_elf lib) then Some lib else do {
     xs \<leftarrow> load_symbols (dynsym_ents (f_elf lib)) lib;
     Some (lib\<lparr>lib_symbols := xs\<rparr>) })"


section \<open>Relocations\<close>

abbreviation (input) R_X86_64_GLOB_DAT :: u64 where "R_X86_64_GLOB_DAT \<equiv> 6"
abbreviation (input) R_X86_64_JUMP_SLOT :: u64 where "R_X86_64_JUMP_SLOT \<equiv> 7"

definition elf_loader_get_ksym_addr :: "u8 list \<Rightarrow> symbol_collection \<Rightarrow> u64 option" where
  "elf_loader_get_ksym_addr name ksyms = symbols_get_symbol_addr name ksyms"

definition dynsym_of :: "lib_shared \<Rightarrow> u64 \<Rightarrow> elf2_symbol option" where
  "dynsym_of lib info = nth_elem (dynsym_ents (f_elf lib)) (unat (ELF64_R_SYM info))"

primrec relocate_dyn :: "nat list \<Rightarrow> nat \<Rightarrow> lib_shared \<Rightarrow> lib_shared option" where
  "relocate_dyn [] off lib = Some lib"
| "relocate_dyn (i # is) off lib = do {
     r \<leftarrow> rela_at (file_base (f_elf lib)) (off + 24 * i);
     if ELF64_R_TYPE (r_info r) = R_X86_64_GLOB_DAT then do {
       s \<leftarrow> dynsym_of lib (r_info r);
       m \<leftarrow> mem_put (unat (r_offset r)) (le_bytes (lib_base lib + es_addr s)) (lib_mem lib);
       relocate_dyn is off (lib\<lparr>lib_mem := m\<rparr>) }
     else relocate_dyn is off lib }"

text \<open>A symbol the kernel does not have is logged and its slot left as it is.\<close>

primrec relocate_plt :: "nat list \<Rightarrow> nat \<Rightarrow> symbol_collection \<Rightarrow> lib_shared \<Rightarrow> lib_shared option" where
  "relocate_plt [] off ksyms lib = Some lib"
| "relocate_plt (i # is) off ksyms lib = do {
     r \<leftarrow> rela_at (file_base (f_elf lib)) (off + 24 * i);
     if ELF64_R_TYPE (r_info r) = R_X86_64_JUMP_SLOT then do {
       s \<leftarrow> dynsym_of lib (r_info r);
       name \<leftarrow> str_at (file_base (f_elf lib)) (es_name s);
       a \<leftarrow> elf_loader_get_ksym_addr name ksyms;
       if a = 0 then relocate_plt is off ksyms lib
       else do {
         m \<leftarrow> mem_put (unat (r_offset r)) (le_bytes a) (lib_mem lib);
         relocate_plt is off ksyms (lib\<lparr>lib_mem := m\<rparr>) } }
     else relocate_plt is off ksyms lib }"

definition rela_count :: "Elf64_Shdr \<Rightarrow> nat" where
  "rela_count sect = int_count (sh_size sect div 24)"

definition lib_load_relocation_tables :: "symbol_collection \<Rightarrow> lib_shared \<Rightarrow> lib_shared option" where
  "lib_load_relocation_tables ksyms lib = do {
     sh_dyn \<leftarrow> elf2_new_get_section_header_by_name name_rela_dyn (f_elf lib);
     lib \<leftarrow> (case sh_dyn of None \<Rightarrow> Some lib
             | Some d \<Rightarrow> relocate_dyn [0..<rela_count d] (unat (sh_offset d)) lib);
     sh_plt \<leftarrow> elf2_new_get_section_header_by_name name_rela_plt (f_elf lib);
     case sh_plt of None \<Rightarrow> Some lib
     | Some d \<Rightarrow> relocate_plt [0..<rela_count d] (unat (sh_offset d)) ksyms lib }"


section \<open>Registration and lookup\<close>

abbreviation (input) KERR_UNKNOWN :: int where "KERR_UNKNOWN \<equiv> - 1"

text \<open>
  attr_err and read_err are the results of vfs_getattr and vfs_read, lib_data
  the bytes read.
\<close>

definition lib_register ::
    "int \<Rightarrow> int \<Rightarrow> u8 list \<Rightarrow> u64 \<Rightarrow> symbol_collection \<Rightarrow> lib_shared list \<Rightarrow> (int \<times> lib_shared list) option" where
  "lib_register attr_err read_err lib_data base ksyms registry =
     (if attr_err \<noteq> 0 then Some (KERR_UNKNOWN, registry)
      else if read_err \<noteq> 0 then Some (KERR_UNKNOWN, registry)
      else do {
        f \<leftarrow> elf2_new_initalize_file lib_data;
        let lib = \<lparr>f_elf = f, lib_symbols = [], total_pages = 0, lib_base = 0, lib_mem = []\<rparr>;
        lib \<leftarrow> lib_load_program_headers base lib_data lib;
        lib \<leftarrow> lib_load_symbols lib;
        lib \<leftarrow> lib_load_relocation_tables ksyms lib;
        Some (0, registry @ [lib]) })"

primrec symbol_in :: "u8 list \<Rightarrow> lib_symbol list \<Rightarrow> u64 option" where
  "symbol_in name [] = None"
| "symbol_in name (x # xs) = (if ls_name x = name then Some (ls_addr x) else symbol_in name xs)"

primrec lib_dynamic_linker :: "u8 list \<Rightarrow> lib_shared list \<Rightarrow> u64 option" where
  "lib_dynamic_linker name [] = None"
| "lib_dynamic_linker name (lib # libs) =
     (case symbol_in name (lib_symbols lib) of Some a \<Rightarrow> Some a | None \<Rightarrow> lib_dynamic_linker name libs)"

text \<open>The symbols of a program: the names of its relocations, and its own dynamic symbols with their values.\<close>

record symbol_index =
  si_name :: "u8 list"
  si_value :: u64

primrec own_symbol :: "u8 list \<Rightarrow> symbol_index list \<Rightarrow> u64" where
  "own_symbol name [] = 0"
| "own_symbol name (x # xs) = (if name = si_name x then si_value x else own_symbol name xs)"

definition elf_loader_dynamic_linker ::
    "u8 \<Rightarrow> symbol_index list \<Rightarrow> symbol_index list \<Rightarrow> symbol_collection \<Rightarrow> lib_shared list \<Rightarrow> u64 option" where
  "elf_loader_dynamic_linker got_index rela_syms dyn_syms ksyms registry = do {
     r \<leftarrow> nth_elem rela_syms (unat got_index);
     function_addr \<leftarrow> symbols_get_symbol_addr (si_name r) ksyms;
     let function_addr = (if function_addr = 0 then own_symbol (si_name r) dyn_syms else function_addr);
     if function_addr = 0 then lib_dynamic_linker (si_name r) registry else Some function_addr }"

end
