(* ===== verification/LibraryProps.thy ===== *)
theory LibraryProps
  imports Library
begin

text \<open>
  The shared libraries: the memory image of a registered library, its
  relocated slots, its exported symbols, and how a call of a program is resolved.
\<close>

section \<open>Writes into a memory\<close>

text \<open>A write is an offset with the bytes put there.\<close>

type_synonym mem_write = "nat \<times> u8 list"

primrec put_all :: "mem_write list \<Rightarrow> u8 list \<Rightarrow> u8 list option" where
  "put_all [] m = Some m"
| "put_all (w # ws) m = mem_put (fst w) (snd w) m \<bind> put_all ws"

definition within :: "nat \<Rightarrow> mem_write \<Rightarrow> bool" where
  "within a w \<longleftrightarrow> fst w \<le> a \<and> a < fst w + length (snd w)"

definition apart :: "mem_write \<Rightarrow> mem_write \<Rightarrow> bool" where
  "apart w v \<longleftrightarrow> fst w + length (snd w) \<le> fst v \<or> fst v + length (snd v) \<le> fst w"

definition separate :: "mem_write list \<Rightarrow> bool" where
  "separate ws = sorted_wrt apart ws"

lemma mem_put_SomeD:
  "mem_put off bs m = Some m' \<Longrightarrow> off + length bs \<le> length m \<and> length m' = length m
     \<and> m' = take off m @ bs @ drop (off + length bs) m"
  by (auto simp: mem_put_def split: if_splits)

lemma mem_put_nth:
  assumes "mem_put off bs m = Some m'" "a < length m"
  shows "m' ! a = (if within a (off, bs) then bs ! (a - off) else m ! a)"
  using mem_put_SomeD [OF assms(1)] assms(2) by (auto simp: within_def nth_append)

lemma put_all_length: "put_all ws m = Some m' \<Longrightarrow> length m' = length m"
proof (induction ws arbitrary: m)
  case (Cons w ws)
  then obtain m1 where m1: "mem_put (fst w) (snd w) m = Some m1" "put_all ws m1 = Some m'" by (auto split: bind_splits)
  from Cons.IH [OF m1(2)] mem_put_SomeD [OF m1(1)] show ?case by simp
qed simp

lemma put_all_append: "put_all (ws @ vs) m = put_all ws m \<bind> put_all vs"
  by (induction ws arbitrary: m) (auto split: bind_splits)

lemma put_all_untouched:
  "put_all ws m = Some m' \<Longrightarrow> a < length m \<Longrightarrow> \<forall>w\<in>set ws. \<not> within a w \<Longrightarrow> m' ! a = m ! a"
proof (induction ws arbitrary: m)
  case (Cons w ws)
  then obtain m1 where m1: "mem_put (fst w) (snd w) m = Some m1" "put_all ws m1 = Some m'" by (auto split: bind_splits)
  have "m' ! a = m1 ! a" using Cons.IH [OF m1(2)] Cons.prems mem_put_SomeD [OF m1(1)] by simp
  then show ?case using mem_put_nth [OF m1(1)] Cons.prems by simp
qed simp

lemma apart_within: "apart w v \<Longrightarrow> within a w \<Longrightarrow> \<not> within a v"
  by (auto simp: apart_def within_def)

lemma put_all_written:
  "put_all ws m = Some m' \<Longrightarrow> separate ws \<Longrightarrow> w \<in> set ws \<Longrightarrow> within a w \<Longrightarrow>
   a < length m \<and> m' ! a = snd w ! (a - fst w)"
proof (induction ws arbitrary: m)
  case (Cons v ws)
  then obtain m1 where m1: "mem_put (fst v) (snd v) m = Some m1" "put_all ws m1 = Some m'" by (auto split: bind_splits)
  have len: "length m1 = length m" using mem_put_SomeD [OF m1(1)] by simp
  have sep: "separate ws" "\<forall>u\<in>set ws. apart v u" using Cons.prems(2) by (auto simp: separate_def)
  show ?case
  proof (cases "w \<in> set ws")
    case True
    then show ?thesis using Cons.IH [OF m1(2) sep(1)] Cons.prems(4) len by simp
  next
    case False
    then have v: "w = v" using Cons.prems(3) by simp
    then have a: "a < length m" using Cons.prems(4) mem_put_SomeD [OF m1(1)] by (auto simp: within_def)
    have "\<forall>u\<in>set ws. \<not> within a u" using sep(2) apart_within Cons.prems(4) v by blast
    then have "m' ! a = m1 ! a" using put_all_untouched [OF m1(2)] a len by simp
    then show ?thesis using mem_put_nth [OF m1(1) a] Cons.prems(4) v a by simp
  qed
qed simp

lemma put_all_chunk:
  assumes "put_all ws m = Some m'" "separate ws" "w \<in> set ws"
  shows "take (length (snd w)) (drop (fst w) m') = snd w"
proof (rule nth_equalityI)
  have at: "a < length m \<and> m' ! a = snd w ! (a - fst w)" if "within a w" for a
    using put_all_written [OF assms that] .
  have fits: "fst w + length (snd w) \<le> length m'" if "snd w \<noteq> []"
    using at [of "fst w + length (snd w) - 1"] that put_all_length [OF assms(1)]
    by (cases "snd w") (auto simp: within_def)
  then show "length (take (length (snd w)) (drop (fst w) m')) = length (snd w)"
    by (cases "snd w = []") auto
  fix i assume "i < length (take (length (snd w)) (drop (fst w) m'))"
  then have i: "i < length (snd w)" by simp
  then have "snd w \<noteq> []" by auto
  then show "take (length (snd w)) (drop (fst w) m') ! i = snd w ! i"
    using at [of "fst w + i"] i fits by (simp add: within_def)
qed


section \<open>The segments and the relocations of a library as writes\<close>

primrec segment_writes :: "elf2_program_header list \<Rightarrow> u8 list \<Rightarrow> mem_write list" where
  "segment_writes [] data = []"
| "segment_writes (p # ps) data =
     (if ph_type p = PT_LOAD
      then (unat (virt_addr p), take (unat (phys_size p)) (drop (unat (phys_offset p)) data)) # segment_writes ps data
      else segment_writes ps data)"

lemma copy_segments_writes:
  "copy_segments ps data m = Some m' \<Longrightarrow> put_all (segment_writes ps data) m = Some m'"
  by (induction ps arbitrary: m) (auto split: if_splits bind_splits)

text \<open>What the entry i of a relocation table asks for: a slot and its value.\<close>

definition glob_dat :: "nat \<Rightarrow> lib_shared \<Rightarrow> nat \<Rightarrow> (nat \<times> u64) option" where
  "glob_dat off lib i = (case rela_at (file_base (f_elf lib)) (off + 24 * i) of
     Some r \<Rightarrow> if ELF64_R_TYPE (r_info r) = R_X86_64_GLOB_DAT
       then map_option (\<lambda>s. (unat (r_offset r), lib_base lib + es_addr s)) (dynsym_of lib (r_info r)) else None
   | None \<Rightarrow> None)"

definition jump_slot :: "nat \<Rightarrow> symbol_collection \<Rightarrow> lib_shared \<Rightarrow> nat \<Rightarrow> (nat \<times> u64) option" where
  "jump_slot off ksyms lib i = (case rela_at (file_base (f_elf lib)) (off + 24 * i) of
     Some r \<Rightarrow> if ELF64_R_TYPE (r_info r) = R_X86_64_JUMP_SLOT
       then do { s \<leftarrow> dynsym_of lib (r_info r); name \<leftarrow> str_at (file_base (f_elf lib)) (es_name s);
                 a \<leftarrow> elf_loader_get_ksym_addr name ksyms; if a = 0 then None else Some (unat (r_offset r), a) } else None
   | None \<Rightarrow> None)"

definition dyn_table :: "lib_shared \<Rightarrow> Elf64_Shdr option option \<Rightarrow> (nat \<times> u64) list" where
  "dyn_table lib sect = (case sect of Some (Some d) \<Rightarrow> List.map_filter (glob_dat (unat (sh_offset d)) lib) [0..<rela_count d] | _ \<Rightarrow> [])"

definition plt_table :: "symbol_collection \<Rightarrow> lib_shared \<Rightarrow> Elf64_Shdr option option \<Rightarrow> (nat \<times> u64) list" where
  "plt_table ksyms lib sect =
     (case sect of Some (Some d) \<Rightarrow> List.map_filter (jump_slot (unat (sh_offset d)) ksyms lib) [0..<rela_count d] | _ \<Rightarrow> [])"

definition slots :: "symbol_collection \<Rightarrow> lib_shared \<Rightarrow> (nat \<times> u64) list" where
  "slots ksyms lib = dyn_table lib (elf2_new_get_section_header_by_name name_rela_dyn (f_elf lib))
     @ plt_table ksyms lib (elf2_new_get_section_header_by_name name_rela_plt (f_elf lib))"

abbreviation slot_write :: "nat \<times> u64 \<Rightarrow> mem_write" where
  "slot_write x \<equiv> (fst x, le_bytes (snd x))"

lemma glob_dat_mem [simp]: "glob_dat off (lib\<lparr>lib_mem := m\<rparr>) = glob_dat off lib"
  by (rule ext) (simp add: glob_dat_def dynsym_of_def split: option.splits)

lemma jump_slot_mem [simp]: "jump_slot off ksyms (lib\<lparr>lib_mem := m\<rparr>) = jump_slot off ksyms lib"
  by (rule ext) (simp add: jump_slot_def dynsym_of_def split: option.splits)

lemma relocate_dyn_writes:
  "relocate_dyn is off lib = Some lib' \<Longrightarrow>
   \<exists>m. lib' = lib\<lparr>lib_mem := m\<rparr> \<and> put_all (map slot_write (List.map_filter (glob_dat off lib) is)) (lib_mem lib) = Some m"
proof (induction "is" arbitrary: lib)
  case Nil
  then show ?case by (auto simp: List.map_filter_simps intro!: exI [of _ "lib_mem lib'"])
next
  case (Cons i "is")
  obtain r where r: "rela_at (file_base (f_elf lib)) (off + 24 * i) = Some r"
    using Cons.prems by (auto split: bind_splits)
  show ?case
  proof (cases "ELF64_R_TYPE (r_info r) = R_X86_64_GLOB_DAT")
    case True
    then obtain s m where s: "dynsym_of lib (r_info r) = Some s"
      and m: "mem_put (unat (r_offset r)) (le_bytes (lib_base lib + es_addr s)) (lib_mem lib) = Some m"
      and rest: "relocate_dyn is off (lib\<lparr>lib_mem := m\<rparr>) = Some lib'"
      using Cons.prems r by (auto split: bind_splits)
    have "glob_dat off lib i = Some (unat (r_offset r), lib_base lib + es_addr s)"
      using r True s by (simp add: glob_dat_def)
    then show ?thesis using Cons.IH [OF rest] m by (auto simp: List.map_filter_simps)
  next
    case False
    then have "relocate_dyn is off lib = Some lib'" "glob_dat off lib i = None"
      using Cons.prems r by (simp_all add: glob_dat_def)
    then show ?thesis using Cons.IH by (simp add: List.map_filter_simps)
  qed
qed

lemma relocate_plt_writes:
  "relocate_plt is off ksyms lib = Some lib' \<Longrightarrow>
   \<exists>m. lib' = lib\<lparr>lib_mem := m\<rparr> \<and> put_all (map slot_write (List.map_filter (jump_slot off ksyms lib) is)) (lib_mem lib) = Some m"
proof (induction "is" arbitrary: lib)
  case Nil
  then show ?case by (auto simp: List.map_filter_simps intro!: exI [of _ "lib_mem lib'"])
next
  case (Cons i "is")
  obtain r where r: "rela_at (file_base (f_elf lib)) (off + 24 * i) = Some r"
    using Cons.prems by (auto split: bind_splits)
  show ?case
  proof (cases "ELF64_R_TYPE (r_info r) = R_X86_64_JUMP_SLOT")
    case True
    then obtain s name a where s: "dynsym_of lib (r_info r) = Some s" "str_at (file_base (f_elf lib)) (es_name s) = Some name"
        "elf_loader_get_ksym_addr name ksyms = Some a"
      using Cons.prems r by (auto split: bind_splits)
    have j: "jump_slot off ksyms lib i = (if a = 0 then None else Some (unat (r_offset r), a))"
      using r True s by (simp add: jump_slot_def)
    show ?thesis
    proof (cases "a = 0")
      case True
      then have "relocate_plt is off ksyms lib = Some lib'" using Cons.prems r \<open>ELF64_R_TYPE _ = _\<close> s by simp
      then show ?thesis using Cons.IH j True by (simp add: List.map_filter_simps)
    next
      case False
      then obtain m where m: "mem_put (unat (r_offset r)) (le_bytes a) (lib_mem lib) = Some m"
        and rest: "relocate_plt is off ksyms (lib\<lparr>lib_mem := m\<rparr>) = Some lib'"
        using Cons.prems r \<open>ELF64_R_TYPE _ = _\<close> s by (auto split: bind_splits)
      show ?thesis using Cons.IH [OF rest] m j False by (auto simp: List.map_filter_simps)
    qed
  next
    case False
    then have "relocate_plt is off ksyms lib = Some lib'" "jump_slot off ksyms lib i = None"
      using Cons.prems r by (simp_all add: jump_slot_def)
    then show ?thesis using Cons.IH by (simp add: List.map_filter_simps)
  qed
qed


section \<open>What a registration leaves\<close>

lemma load_dynsyms_nil: "\<exists>n off h. load_dynsyms [0..<n] off h = Some []"
  by (intro exI [of _ 0]) simp

lemma load_dynamic_SomeD:
  "load_dynamic f = Some g \<Longrightarrow> dynsym_ents f = [] \<Longrightarrow>
   file_base g = file_base f \<and> (has_dynsym g \<or> dynsym_ents g = []) \<and> has_program_headers g = has_program_headers f
   \<and> (\<exists>n off h. load_dynsyms [0..<n] off h = Some (dynsym_ents g))"
  by (auto simp: load_dynamic_def Let_def split: bind_splits option.splits if_splits
      intro: exI [of _ 0] load_dynsyms_nil)
     blast

lemma initalize_file_SomeD:
  assumes "elf2_new_initalize_file data = Some f"
  shows "file_base f = data" "has_dynsym f \<or> dynsym_ents f = []" "\<exists>n off h. load_dynsyms [0..<n] off h = Some (dynsym_ents f)"
  using assms load_dynamic_SomeD
  by (fastforce simp: elf2_new_initalize_file_def Let_def split: bind_splits if_splits)+

definition exported :: "u8 list \<Rightarrow> elf2_file \<Rightarrow> u64 option" where
  "exported name f = map_option es_addr
     (List.find (\<lambda>e. es_sh_index e \<noteq> 0 \<and> str_at (file_base f) (es_name e) = Some name) (dynsym_ents f))"

lemma load_symbols_found:
  "load_symbols es lib = Some xs \<Longrightarrow> symbol_in n xs = map_option (\<lambda>e. lib_base lib + es_addr e)
     (List.find (\<lambda>e. es_sh_index e \<noteq> 0 \<and> str_at (file_base (f_elf lib)) (es_name e) = Some n) es)"
  by (induction es arbitrary: xs) (auto split: if_splits bind_splits)

lemma relocation_tables_SomeD:
  assumes "lib_load_relocation_tables ksyms lib = Some lib'"
  shows "\<exists>m. lib' = lib\<lparr>lib_mem := m\<rparr> \<and> put_all (map slot_write (slots ksyms lib)) (lib_mem lib) = Some m"
proof -
  let ?d = "elf2_new_get_section_header_by_name name_rela_dyn (f_elf lib)"
  let ?p = "elf2_new_get_section_header_by_name name_rela_plt (f_elf lib)"
  obtain l1 where l1: "(case ?d of Some (Some d) \<Rightarrow> relocate_dyn [0..<rela_count d] (unat (sh_offset d)) lib
      | Some None \<Rightarrow> Some lib | None \<Rightarrow> None) = Some l1"
    and l2: "(case elf2_new_get_section_header_by_name name_rela_plt (f_elf l1) of
        Some (Some d) \<Rightarrow> relocate_plt [0..<rela_count d] (unat (sh_offset d)) ksyms l1
      | Some None \<Rightarrow> Some l1 | None \<Rightarrow> None) = Some lib'"
    using assms by (auto simp: lib_load_relocation_tables_def split: bind_splits option.splits)
  obtain m where m: "l1 = lib\<lparr>lib_mem := m\<rparr>" "put_all (map slot_write (dyn_table lib ?d)) (lib_mem lib) = Some m"
    using l1 relocate_dyn_writes
    by (fastforce simp: dyn_table_def split: option.splits intro: exI [of _ "lib_mem lib"])
  obtain m' where m': "lib' = l1\<lparr>lib_mem := m'\<rparr>" "put_all (map slot_write (plt_table ksyms lib ?p)) m = Some m'"
  proof (cases ?p)
    case None
    then show thesis using l2 m(1) by simp
  next
    case (Some s)
    show thesis
    proof (cases s)
      case None
      then show thesis using l2 m(1) \<open>?p = Some s\<close> None by (intro that [of m]) (auto simp: plt_table_def)
    next
      case (Some d)
      have "relocate_plt [0..<rela_count d] (unat (sh_offset d)) ksyms l1 = Some lib'"
        using l2 m(1) \<open>?p = Some s\<close> Some by simp
      from relocate_plt_writes [OF this] show thesis
        using that m(1) \<open>?p = Some s\<close> Some by (auto simp: plt_table_def)
    qed
  qed
  show ?thesis using m m' by (auto simp: slots_def put_all_append)
qed

definition image_size :: "elf2_file \<Rightarrow> nat" where
  "image_size f = nat (sint (virt_mem_max_loop (program_headers f) 0) div 4096 + 1) * 4096"

lemma slots_fields:
  "f_elf l = f_elf l' \<Longrightarrow> lib_base l = lib_base l' \<Longrightarrow> slots ksyms l = slots ksyms l'"
proof -
  assume a: "f_elf l = f_elf l'" "lib_base l = lib_base l'"
  then have "glob_dat off l = glob_dat off l'" "jump_slot off ksyms l = jump_slot off ksyms l'" for off
    by (simp_all only: fun_eq_iff glob_dat_def jump_slot_def dynsym_of_def a simp_thms)
  with a show ?thesis by (simp add: slots_def dyn_table_def plt_table_def split: option.split)
qed

lemma lib_register_SomeD:
  assumes r: "lib_register 0 0 data base ksyms reg = Some (e, reg')" and f: "elf2_new_initalize_file data = Some f"
    and ph: "has_program_headers f"
  obtains lib m where "reg' = reg @ [lib]" "f_elf lib = f" "lib_base lib = base"
    "\<forall>n. symbol_in n (lib_symbols lib) = map_option ((+) base) (exported n f)"
    "put_all (segment_writes (program_headers f) data) (replicate (image_size f) 0) = Some m"
    "put_all (map slot_write (slots ksyms lib)) m = Some (lib_mem lib)"
proof -
  obtain l1 l2 l3 where l1: "lib_load_program_headers base data
        \<lparr>f_elf = f, lib_symbols = [], total_pages = 0, lib_base = 0, lib_mem = []\<rparr> = Some l1"
    and l2: "lib_load_symbols l1 = Some l2" and l3: "lib_load_relocation_tables ksyms l2 = Some l3"
    and reg: "reg' = reg @ [l3]"
    using r f by (auto simp: lib_register_def Let_def split: bind_splits)
  have 1: "f_elf l1 = f" "lib_base l1 = base" "lib_symbols l1 = []"
    "put_all (segment_writes (program_headers f) data) (replicate (image_size f) 0) = Some (lib_mem l1)"
    using l1 ph copy_segments_writes
    by (auto simp: lib_load_program_headers_def image_size_def Let_def split: bind_splits if_splits)
  have 2: "f_elf l2 = f" "lib_base l2 = base" "lib_mem l2 = lib_mem l1"
    "\<And>n. symbol_in n (lib_symbols l2) = map_option ((+) base) (exported n f)"
    using l2 1 load_symbols_found initalize_file_SomeD [OF f]
    by (auto simp: lib_load_symbols_def exported_def option.map_comp comp_def split: bind_splits if_splits)
  obtain m where m: "l3 = l2\<lparr>lib_mem := m\<rparr>" "put_all (map slot_write (slots ksyms l2)) (lib_mem l2) = Some m"
    using relocation_tables_SomeD [OF l3] by blast
  have "slots ksyms l3 = slots ksyms l2" using m(1) by (intro slots_fields) auto
  then show thesis using that [of l3 "lib_mem l1"] reg 1 2 m by simp
qed

lemma linker_append:
  "lib_dynamic_linker n (reg @ libs) = (case lib_dynamic_linker n reg of Some a \<Rightarrow> Some a | None \<Rightarrow> lib_dynamic_linker n libs)"
  by (induction reg) (auto split: option.splits)


lemma load_dynsyms_nth:
  "load_dynsyms is off f = Some es \<Longrightarrow> length es = length is \<and>
     (\<forall>k<length is. Some (es ! k) = map_option (\<lambda>s. \<lparr>es_name = dynsym_str_tbl f + unat (st_name s), es_addr = st_value s,
        es_size = st_symsize s, es_sh_index = ucast (st_shndx s), es_type = ucast (st_info s AND 0xF),
        es_binding = drop_bit 4 (st_info s)\<rparr>) (elf2_new_get_symbol_entry off (of_nat (is ! k)) f))"
proof (induction "is" arbitrary: es)
  case (Cons i "is")
  then show ?case by (auto simp: nth_Cons less_Suc_eq_0_disj split: bind_splits)
qed simp

text \<open>The address of a function that the kernel does not have.\<close>

definition after_kernel :: "elf2_file \<Rightarrow> u64 \<Rightarrow> u8 list \<Rightarrow> symbol_index list \<Rightarrow> lib_shared list \<Rightarrow> u64 option" where
  "after_kernel f base n dyn reg =
     (if own_symbol n dyn \<noteq> 0 then Some (own_symbol n dyn)
      else case lib_dynamic_linker n reg of Some a \<Rightarrow> Some a | None \<Rightarrow> map_option ((+) base) (exported n f))"


section \<open>A concrete library\<close>

definition so_ehdr :: "u8 list" where
  "so_ehdr =
    [127, 69, 76, 70, 2, 1, 1, 0, 0, 0, 0, 0, 0, 0, 0, 0, 3, 0, 62, 0, 1, 0, 0, 0, 0, 0, 0, 0, 0, 0,
     0, 0, 64, 0, 0, 0, 0, 0, 0, 0, 120, 0, 0, 0, 0, 0, 0, 0, 0, 0, 0, 0, 64, 0, 56, 0, 1, 0, 64, 0,
     5, 0, 4, 0]"

definition so_phdr :: "u8 list" where
  "so_phdr =
    [1, 0, 0, 0, 5, 0, 0, 0, 100, 2, 0, 0, 0, 0, 0, 0, 16, 0, 0, 0, 0, 0, 0, 0, 16, 0, 0, 0, 0, 0,
     0, 0, 8, 0, 0, 0, 0, 0, 0, 0, 48, 0, 0, 0, 0, 0, 0, 0, 0, 16, 0, 0, 0, 0, 0, 0]"

definition so_sh_dynsym :: "u8 list" where
  "so_sh_dynsym =
    [1, 0, 0, 0, 11, 0, 0, 0, 0, 0, 0, 0, 0, 0, 0, 0, 0, 0, 0, 0, 0, 0, 0, 0, 184, 1, 0, 0, 0, 0,
     0, 0, 72, 0, 0, 0, 0, 0, 0, 0, 0, 0, 0, 0, 0, 0, 0, 0, 8, 0, 0, 0, 0, 0, 0, 0, 24, 0, 0, 0,
     0, 0, 0, 0]"

definition so_sh_dynstr :: "u8 list" where
  "so_sh_dynstr =
    [9, 0, 0, 0, 3, 0, 0, 0, 0, 0, 0, 0, 0, 0, 0, 0, 0, 0, 0, 0, 0, 0, 0, 0, 0, 2, 0, 0, 0, 0,
     0, 0, 5, 0, 0, 0, 0, 0, 0, 0, 0, 0, 0, 0, 0, 0, 0, 0, 8, 0, 0, 0, 0, 0, 0, 0, 0, 0, 0, 0,
     0, 0, 0, 0]"

definition so_sh_rela_dyn :: "u8 list" where
  "so_sh_rela_dyn =
    [17, 0, 0, 0, 4, 0, 0, 0, 0, 0, 0, 0, 0, 0, 0, 0, 0, 0, 0, 0, 0, 0, 0, 0, 5, 2, 0, 0, 0, 0,
     0, 0, 24, 0, 0, 0, 0, 0, 0, 0, 0, 0, 0, 0, 0, 0, 0, 0, 8, 0, 0, 0, 0, 0, 0, 0, 24, 0, 0, 0,
     0, 0, 0, 0]"

definition so_sh_rela_plt :: "u8 list" where
  "so_sh_rela_plt =
    [27, 0, 0, 0, 4, 0, 0, 0, 0, 0, 0, 0, 0, 0, 0, 0, 0, 0, 0, 0, 0, 0, 0, 0, 29, 2, 0, 0, 0, 0,
     0, 0, 24, 0, 0, 0, 0, 0, 0, 0, 0, 0, 0, 0, 0, 0, 0, 0, 8, 0, 0, 0, 0, 0, 0, 0, 24, 0, 0, 0,
     0, 0, 0, 0]"

definition so_sh_shstrtab :: "u8 list" where
  "so_sh_shstrtab =
    [37, 0, 0, 0, 3, 0, 0, 0, 0, 0, 0, 0, 0, 0, 0, 0, 0, 0, 0, 0, 0, 0, 0, 0, 53, 2, 0, 0, 0, 0,
     0, 0, 47, 0, 0, 0, 0, 0, 0, 0, 0, 0, 0, 0, 0, 0, 0, 0, 8, 0, 0, 0, 0, 0, 0, 0, 0, 0, 0, 0,
     0, 0, 0, 0]"

definition so_sym0 :: "u8 list" where
  "so_sym0 =
    [0, 0, 0, 0, 0, 0, 0, 0, 0, 0, 0, 0, 0, 0, 0, 0, 0, 0, 0, 0, 0, 0, 0, 0]"

definition so_sym1 :: "u8 list" where
  "so_sym1 =
    [1, 0, 0, 0, 18, 0, 1, 0, 16, 0, 0, 0, 0, 0, 0, 0, 8, 0, 0, 0, 0, 0, 0, 0]"

definition so_sym2 :: "u8 list" where
  "so_sym2 =
    [3, 0, 0, 0, 18, 0, 0, 0, 0, 0, 0, 0, 0, 0, 0, 0, 0, 0, 0, 0, 0, 0, 0, 0]"

definition so_dynstr :: "u8 list" where
  "so_dynstr =
    [0, 102, 0, 107, 0]"

definition so_rela_dyn :: "u8 list" where
  "so_rela_dyn =
    [32, 0, 0, 0, 0, 0, 0, 0, 6, 0, 0, 0, 1, 0, 0, 0, 0, 0, 0, 0, 0, 0, 0, 0]"

definition so_rela_plt :: "u8 list" where
  "so_rela_plt =
    [40, 0, 0, 0, 0, 0, 0, 0, 7, 0, 0, 0, 2, 0, 0, 0, 0, 0, 0, 0, 0, 0, 0, 0]"

definition so_shstrtab :: "u8 list" where
  "so_shstrtab =
    [0, 46, 100, 121, 110, 115, 121, 109, 0, 46, 100, 121, 110, 115, 116, 114, 0, 46, 114, 101, 108, 97, 46, 100, 121, 110, 0, 46, 114, 101,
     108, 97, 46, 112, 108, 116, 0, 46, 115, 104, 115, 116, 114, 116, 97, 98, 0]"

definition so_text :: "u8 list" where
  "so_text =
    [144, 145, 146, 147, 148, 149, 150, 151]"

definition so_elf :: "u8 list" where
  "so_elf = so_ehdr @ so_phdr @ so_sh_dynsym @ so_sh_dynstr @ so_sh_rela_dyn @ so_sh_rela_plt @ so_sh_shstrtab @ so_sym0
     @ so_sym1 @ so_sym2 @ so_dynstr @ so_rela_dyn @ so_rela_plt @ so_shstrtab @ so_text"

lemma so_lengths [simp]:
  "length so_ehdr = 64" "length so_phdr = 56" "length so_sh_dynsym = 64" "length so_sh_dynstr = 64"
  "length so_sh_rela_dyn = 64" "length so_sh_rela_plt = 64" "length so_sh_shstrtab = 64" "length so_sym0 = 24"
  "length so_sym1 = 24" "length so_sym2 = 24" "length so_dynstr = 5" "length so_rela_dyn = 24"
  "length so_rela_plt = 24" "length so_shstrtab = 47" "length so_text = 8"
  by (simp_all add: so_ehdr_def so_phdr_def so_sh_dynsym_def so_sh_dynstr_def so_sh_rela_dyn_def so_sh_rela_plt_def so_sh_shstrtab_def so_sym0_def so_sym1_def so_sym2_def so_dynstr_def so_rela_dyn_def so_rela_plt_def so_shstrtab_def so_text_def)

lemma so_length [simp]: "length so_elf = 620"
  by (simp add: so_elf_def)

lemma so_records:
  "ehdr_at so_ehdr 0 = Some \<lparr>e_type = 3, e_machine = 62, e_version = 1, e_entry = 0, e_phoff = 64, e_shoff = 120, e_flags = 0,
      e_ehsize = 64, e_phentsize = 56, e_phnum = 1, e_shentsize = 64, e_shnum = 5, e_shstrndx = 4\<rparr>"
  "phdr_at so_phdr 0 = Some \<lparr>p_type = 1, p_flags = 5, p_offset = 612, p_vaddr = 16, p_paddr = 16,
      p_filesz = 8, p_memsz = 48, p_align = 4096\<rparr>"
  "shdr_at so_sh_dynsym 0 = Some \<lparr>sh_name = 1, sh_type = 11, sh_flags = 0, sh_addr = 0, sh_offset = 440, sh_size = 72,
      sh_link = 0, sh_info = 0, sh_addralign = 8, sh_entsize = 24\<rparr>"
  "shdr_at so_sh_dynstr 0 = Some \<lparr>sh_name = 9, sh_type = 3, sh_flags = 0, sh_addr = 0, sh_offset = 512, sh_size = 5,
      sh_link = 0, sh_info = 0, sh_addralign = 8, sh_entsize = 0\<rparr>"
  "shdr_at so_sh_rela_dyn 0 = Some \<lparr>sh_name = 17, sh_type = 4, sh_flags = 0, sh_addr = 0, sh_offset = 517, sh_size = 24,
      sh_link = 0, sh_info = 0, sh_addralign = 8, sh_entsize = 24\<rparr>"
  "shdr_at so_sh_rela_plt 0 = Some \<lparr>sh_name = 27, sh_type = 4, sh_flags = 0, sh_addr = 0, sh_offset = 541, sh_size = 24,
      sh_link = 0, sh_info = 0, sh_addralign = 8, sh_entsize = 24\<rparr>"
  "shdr_at so_sh_shstrtab 0 = Some \<lparr>sh_name = 37, sh_type = 3, sh_flags = 0, sh_addr = 0, sh_offset = 565, sh_size = 47,
      sh_link = 0, sh_info = 0, sh_addralign = 8, sh_entsize = 0\<rparr>"
  "sym_at so_sym0 0 = Some \<lparr>st_name = 0, st_info = 0, st_other = 0, st_shndx = 0, st_value = 0, st_symsize = 0\<rparr>"
  "sym_at so_sym1 0 = Some \<lparr>st_name = 1, st_info = 18, st_other = 0, st_shndx = 1, st_value = 16, st_symsize = 8\<rparr>"
  "sym_at so_sym2 0 = Some \<lparr>st_name = 3, st_info = 18, st_other = 0, st_shndx = 0, st_value = 0, st_symsize = 0\<rparr>"
  "rela_at so_rela_dyn 0 = Some \<lparr>r_offset = 32, r_info = 4294967302, r_addend = 0\<rparr>"
  "rela_at so_rela_plt 0 = Some \<lparr>r_offset = 40, r_info = 8589934599, r_addend = 0\<rparr>"
  by code_simp+

lemma so_pieces:
  "take 64 (drop 0 so_elf) = so_ehdr" "take 56 (drop 64 so_elf) = so_phdr" "take 64 (drop 120 so_elf) = so_sh_dynsym"
  "take 64 (drop 184 so_elf) = so_sh_dynstr" "take 64 (drop 248 so_elf) = so_sh_rela_dyn"
  "take 64 (drop 312 so_elf) = so_sh_rela_plt" "take 64 (drop 376 so_elf) = so_sh_shstrtab"
  "take 24 (drop 440 so_elf) = so_sym0" "take 24 (drop 464 so_elf) = so_sym1" "take 24 (drop 488 so_elf) = so_sym2"
  "take 24 (drop 517 so_elf) = so_rela_dyn" "take 24 (drop 541 so_elf) = so_rela_plt"
  "take 8 (drop 612 so_elf) = so_text"
  by (simp_all add: so_elf_def)

lemmas so_reads [simp] =
  records_in_piece(1) [OF so_pieces(1) so_lengths(1)]
  records_in_piece(2) [OF so_pieces(2) so_lengths(2)]
  records_in_piece(3) [OF so_pieces(3) so_lengths(3)]
  records_in_piece(3) [OF so_pieces(4) so_lengths(4)]
  records_in_piece(3) [OF so_pieces(5) so_lengths(5)]
  records_in_piece(3) [OF so_pieces(6) so_lengths(6)]
  records_in_piece(3) [OF so_pieces(7) so_lengths(7)]
  records_in_piece(4) [OF so_pieces(8) so_lengths(8)]
  records_in_piece(4) [OF so_pieces(9) so_lengths(9)]
  records_in_piece(4) [OF so_pieces(10) so_lengths(10)]
  records_in_piece(5) [OF so_pieces(11) so_lengths(12)]
  records_in_piece(5) [OF so_pieces(12) so_lengths(13)]

lemma so_strings [simp]:
  "str_at so_elf 513 = Some [0x66]" "str_at so_elf 515 = Some [0x6B]" "str_at so_elf 566 = Some name_dynsym"
  "str_at so_elf 574 = Some name_dynstr" "str_at so_elf 582 = Some name_rela_dyn" "str_at so_elf 592 = Some name_rela_plt"
  by (simp_all add: str_at_def so_elf_def cstr_of_def so_dynstr_def so_shstrtab_def)

definition so_file :: elf2_file where
  "so_file = \<lparr>file_base = so_elf,
     header = \<lparr>e_type = 3, e_machine = 62, e_version = 1, e_entry = 0, e_phoff = 64, e_shoff = 120, e_flags = 0,
       e_ehsize = 64, e_phentsize = 56, e_phnum = 1, e_shentsize = 64, e_shnum = 5, e_shstrndx = 4\<rparr>,
     section_headers = 120, str_tbl_section_names = 565, has_program_headers = True, program_headers_num_loads = 1,
     program_headers = [\<lparr>ph_type = 1, phys_addr = 16, phys_offset = 612, virt_addr = 16, phys_size = 8, virt_size = 48,
       ph_read = True, ph_write = False, ph_execute = True\<rparr>],
     has_dynsym = True, dynsym_str_tbl = 512,
     dynsym_ents = [\<lparr>es_name = 512, es_addr = 0, es_size = 0, es_sh_index = 0, es_type = 0, es_binding = 0\<rparr>,
       \<lparr>es_name = 513, es_addr = 16, es_size = 8, es_sh_index = 1, es_type = 2, es_binding = 1\<rparr>,
       \<lparr>es_name = 515, es_addr = 0, es_size = 0, es_sh_index = 0, es_type = 2, es_binding = 1\<rparr>],
     num_symbols = 1\<rparr>"

lemma so_initalize: "elf2_new_initalize_file so_elf = Some so_file"
  apply (simp add: elf2_new_initalize_file_def so_records elf2_new_get_section_header_by_index_def
      elf2_new_get_program_header_by_index_def load_dynamic_def elf2_new_get_section_header_by_name_def
      elf2_new_get_symbol_entry_def int_count_def so_file_def upt_conv_Cons Let_def)
  done

definition so_ksyms :: symbol_collection where
  "so_ksyms = \<lparr>top = 1, symbols = [\<lparr>sym_name = [0x6B], sym_addr = 0x1000, sym_size = 1, sym_count = 0, sym_start = 0, sym_time = 0\<rparr>]\<rparr>"

lemma so_sections [simp]:
  "elf2_new_get_section_header_by_name name_rela_dyn so_file = shdr_at so_sh_rela_dyn 0 \<bind> (\<lambda>d. Some (Some d))"
  "elf2_new_get_section_header_by_name name_rela_plt so_file = shdr_at so_sh_rela_plt 0 \<bind> (\<lambda>d. Some (Some d))"
  by (simp_all add: elf2_new_get_section_header_by_name_def so_file_def upt_conv_Cons so_records)

lemma so_fields [simp]:
  "file_base so_file = so_elf" "nth_elem (dynsym_ents so_file) (Suc 0) = Some \<lparr>es_name = 513, es_addr = 16, es_size = 8, es_sh_index = 1, es_type = 2, es_binding = 1\<rparr>"
  "nth_elem (dynsym_ents so_file) 2 = Some \<lparr>es_name = 515, es_addr = 0, es_size = 0, es_sh_index = 0, es_type = 2, es_binding = 1\<rparr>"
  by (simp_all add: so_file_def nth_elem_def)

lemma so_kernel_symbol [simp]: "elf_loader_get_ksym_addr [0x6B] so_ksyms = Some 0x1000"
  by (simp add: elf_loader_get_ksym_addr_def symbols_get_symbol_addr_def symbols_get_symbol_def so_ksyms_def)

lemmas so_relocation = so_records rela_count_def int_count_def ELF64_R_TYPE_def ELF64_R_SYM_def dynsym_of_def

lemma mem_put_fits: "off + length bs \<le> length m \<Longrightarrow> \<exists>m'. mem_put off bs m = Some m' \<and> length m' = length m"
  by (simp add: mem_put_def)

lemma le_bytes_length [simp]: "length (le_bytes w) = 8"
  by (simp add: le_bytes_def)

lemma so_register:
  "\<exists>lib. lib_register 0 0 so_elf 0x100000 so_ksyms [] = Some (0, [lib]) \<and> f_elf lib = so_file \<and> lib_base lib = 0x100000"
proof -
  let ?lib = "\<lparr>f_elf = so_file, lib_symbols = [], total_pages = 0, lib_base = 0, lib_mem = []\<rparr>"
  obtain m1 where m1: "mem_put 16 so_text (replicate 4096 0) = Some m1" "length m1 = 4096"
    using mem_put_fits [of 16 so_text "replicate 4096 0"] by auto
  obtain m2 where m2: "mem_put 32 (le_bytes 0x100010) m1 = Some m2" "length m2 = 4096"
    using mem_put_fits [of 32 "le_bytes 0x100010" m1] m1 by auto
  obtain m3 where m3: "mem_put 40 (le_bytes 0x1000) m2 = Some m3" "length m3 = 4096"
    using mem_put_fits [of 40 "le_bytes 0x1000" m2] m2 by auto
  have "lib_load_program_headers 0x100000 so_elf ?lib = Some (?lib\<lparr>total_pages := 1, lib_base := 0x100000, lib_mem := m1\<rparr>)"
    using m1 so_pieces by (simp add: lib_load_program_headers_def so_file_def)
  moreover have "lib_load_symbols (?lib\<lparr>total_pages := 1, lib_base := 0x100000, lib_mem := m1\<rparr>) =
      Some (?lib\<lparr>total_pages := 1, lib_base := 0x100000, lib_mem := m1, lib_symbols := [\<lparr>ls_name = [0x66], ls_addr = 0x100010\<rparr>]\<rparr>)"
    by (simp add: lib_load_symbols_def so_file_def)
  moreover have "lib_load_relocation_tables so_ksyms
      (?lib\<lparr>total_pages := 1, lib_base := 0x100000, lib_mem := m1, lib_symbols := [\<lparr>ls_name = [0x66], ls_addr = 0x100010\<rparr>]\<rparr>) =
      Some (?lib\<lparr>total_pages := 1, lib_base := 0x100000, lib_mem := m3, lib_symbols := [\<lparr>ls_name = [0x66], ls_addr = 0x100010\<rparr>]\<rparr>)"
    using m2 m3
    by (simp add: lib_load_relocation_tables_def so_relocation)
  ultimately show ?thesis by (simp add: lib_register_def so_initalize)
qed


section \<open>A library with 257 symbols\<close>

definition wide_ehdr :: "u8 list" where
  "wide_ehdr =
    [127, 69, 76, 70, 2, 1, 1, 0, 0, 0, 0, 0, 0, 0, 0, 0, 3, 0, 62, 0, 1, 0, 0, 0, 0, 0, 0, 0, 0, 0,
     0, 0, 0, 0, 0, 0, 0, 0, 0, 0, 64, 0, 0, 0, 0, 0, 0, 0, 0, 0, 0, 0, 64, 0, 56, 0, 0, 0, 64, 0,
     3, 0, 2, 0]"

definition wide_dynsym :: "u8 list" where
  "wide_dynsym =
    [1, 0, 0, 0, 11, 0, 0, 0, 0, 0, 0, 0, 0, 0, 0, 0, 0, 0, 0, 0, 0, 0, 0, 0, 0, 0, 0, 0, 0, 0,
     0, 0, 24, 24, 0, 0, 0, 0, 0, 0, 0, 0, 0, 0, 0, 0, 0, 0, 8, 0, 0, 0, 0, 0, 0, 0, 24, 0, 0, 0,
     0, 0, 0, 0]"

definition wide_dynstr :: "u8 list" where
  "wide_dynstr =
    [9, 0, 0, 0, 3, 0, 0, 0, 0, 0, 0, 0, 0, 0, 0, 0, 0, 0, 0, 0, 0, 0, 0, 0, 0, 0, 0, 0, 0, 0,
     0, 0, 1, 0, 0, 0, 0, 0, 0, 0, 0, 0, 0, 0, 0, 0, 0, 0, 8, 0, 0, 0, 0, 0, 0, 0, 0, 0, 0, 0,
     0, 0, 0, 0]"

definition wide_shstrtab :: "u8 list" where
  "wide_shstrtab =
    [17, 0, 0, 0, 3, 0, 0, 0, 0, 0, 0, 0, 0, 0, 0, 0, 0, 0, 0, 0, 0, 0, 0, 0, 0, 1, 0, 0, 0, 0,
     0, 0, 27, 0, 0, 0, 0, 0, 0, 0, 0, 0, 0, 0, 0, 0, 0, 0, 8, 0, 0, 0, 0, 0, 0, 0, 0, 0, 0, 0,
     0, 0, 0, 0]"

definition wide_names :: "u8 list" where
  "wide_names =
    [0, 46, 100, 121, 110, 115, 121, 109, 0, 46, 100, 121, 110, 115, 116, 114, 0, 46, 115, 104, 115, 116, 114, 116, 97, 98, 0]"

definition wide_elf :: "u8 list" where
  "wide_elf = wide_ehdr @ wide_dynsym @ wide_dynstr @ wide_shstrtab @ wide_names @ replicate 6168 0"

lemma wide_lengths [simp]:
  "length wide_ehdr = 64" "length wide_dynsym = 64" "length wide_dynstr = 64" "length wide_shstrtab = 64" "length wide_names = 27"
  by (simp_all add: wide_ehdr_def wide_dynsym_def wide_dynstr_def wide_shstrtab_def wide_names_def)

lemma wide_pieces:
  "take 64 (drop 0 wide_elf) = wide_ehdr" "take 64 (drop 64 wide_elf) = wide_dynsym"
  "take 64 (drop 128 wide_elf) = wide_dynstr" "take 64 (drop 192 wide_elf) = wide_shstrtab"
  by (simp_all add: wide_elf_def)

lemmas wide_reads [simp] =
  records_in_piece(1) [OF wide_pieces(1) wide_lengths(1)]
  records_in_piece(3) [OF wide_pieces(2) wide_lengths(2)]
  records_in_piece(3) [OF wide_pieces(3) wide_lengths(3)]
  records_in_piece(3) [OF wide_pieces(4) wide_lengths(4)]

lemma wide_records:
  "ehdr_at wide_ehdr 0 = Some \<lparr>e_type = 3, e_machine = 62, e_version = 1, e_entry = 0, e_phoff = 0, e_shoff = 64, e_flags = 0,
     e_ehsize = 64, e_phentsize = 56, e_phnum = 0, e_shentsize = 64, e_shnum = 3, e_shstrndx = 2\<rparr>"
  "shdr_at wide_dynsym 0 = Some \<lparr>sh_name = 1, sh_type = 11, sh_flags = 0, sh_addr = 0, sh_offset = 0, sh_size = 6168,
     sh_link = 0, sh_info = 0, sh_addralign = 8, sh_entsize = 24\<rparr>"
  "shdr_at wide_dynstr 0 = Some \<lparr>sh_name = 9, sh_type = 3, sh_flags = 0, sh_addr = 0, sh_offset = 0, sh_size = 1,
     sh_link = 0, sh_info = 0, sh_addralign = 8, sh_entsize = 0\<rparr>"
  "shdr_at wide_shstrtab 0 = Some \<lparr>sh_name = 17, sh_type = 3, sh_flags = 0, sh_addr = 0, sh_offset = 256, sh_size = 27,
     sh_link = 0, sh_info = 0, sh_addralign = 8, sh_entsize = 0\<rparr>"
  by code_simp+

lemma wide_strings [simp]: "str_at wide_elf 257 = Some name_dynsym" "str_at wide_elf 265 = Some name_dynstr"
  by (simp_all add: str_at_def wide_elf_def cstr_of_def wide_names_def)

lemma load_dynsyms_fits:
  "unat off + 6144 \<le> length (file_base f) \<Longrightarrow> \<exists>es. load_dynsyms is off f = Some es \<and> length es = length is"
proof (induction "is")
  case (Cons i "is")
  have "unat (of_nat i :: u8) \<le> 255" by (simp add: unat_of_nat)
  then have "unat off + 24 * unat (of_nat i :: u8) + 24 \<le> length (file_base f)" using Cons.prems by linarith
  then show ?case using Cons by (auto simp: elf2_new_get_symbol_entry_def sym_at_def read_le_def)
qed simp

lemma wide_initalize: "\<exists>f. elf2_new_initalize_file wide_elf = Some f \<and> length (dynsym_ents f) = int_count 257"
proof -
  have len: "length wide_elf = 6451" by (simp add: wide_elf_def)
  have "\<exists>es. load_dynsyms [0..<int_count 257] 0 f = Some es \<and> length es = int_count 257" if "file_base f = wide_elf" for f
    using load_dynsyms_fits [of 0 f "[0..<int_count 257]"] len that by simp
  then have ld: "\<exists>g. (load_dynsyms [0..<int_count 257] 0 f \<bind> (\<lambda>es. Some (h es))) = Some g \<and> length (dynsym_ents g) = int_count 257"
    if "file_base f = wide_elf" "\<And>es. dynsym_ents (h es) = es" for f h
    using that by fastforce
  show ?thesis
    by (simp add: elf2_new_initalize_file_def wide_records elf2_new_get_section_header_by_index_def
        load_dynamic_def elf2_new_get_section_header_by_name_def upt_conv_Cons Let_def ld)
qed


section \<open>Properties\<close>

text \<open>Property C9: the memory of a registered library. With segments that do not
  overlap and relocated slots that do not overlap, every slot of .rela.dyn and
  .rela.plt holds its value (the base plus the value of the symbol, or the
  address of the kernel's symbol), every other byte of a segment is the byte
  of the file, and the rest of the pages is zero.
\<close>

theorem library_image:
  assumes "lib_register 0 0 data base ksyms reg = Some (e, reg')"
    and "elf2_new_initalize_file data = Some f" "has_program_headers f"
    and "separate (segment_writes (program_headers f) data)"
    and "separate (map slot_write (slots ksyms (last reg')))"
  shows "length (lib_mem (last reg')) = image_size f
    \<and> (\<forall>(off, v)\<in>set (slots ksyms (last reg')). take 8 (drop off (lib_mem (last reg'))) = le_bytes v)
    \<and> (\<forall>a<image_size f. (\<forall>x\<in>set (slots ksyms (last reg')). \<not> within a (slot_write x)) \<longrightarrow>
        (\<forall>w\<in>set (segment_writes (program_headers f) data). within a w \<longrightarrow> lib_mem (last reg') ! a = snd w ! (a - fst w))
        \<and> ((\<forall>w\<in>set (segment_writes (program_headers f) data). \<not> within a w) \<longrightarrow> lib_mem (last reg') ! a = 0))"
proof -
  from assms(1-3) obtain lib m where l: "reg' = reg @ [lib]"
    "put_all (segment_writes (program_headers f) data) (replicate (image_size f) 0) = Some m"
    "put_all (map slot_write (slots ksyms lib)) m = Some (lib_mem lib)"
    by (rule lib_register_SomeD)
  have last: "last reg' = lib" using l(1) by simp
  have len: "length m = image_size f" using put_all_length [OF l(2)] by simp
  have "take 8 (drop off (lib_mem lib)) = le_bytes v" if "(off, v) \<in> set (slots ksyms lib)" for off v
    using put_all_chunk [OF l(3), of "slot_write (off, v)"] assms(5) that last by (force simp: le_bytes_def)
  moreover have keep: "lib_mem lib ! a = m ! a"
    if "a < image_size f" "\<forall>x\<in>set (slots ksyms lib). \<not> within a (slot_write x)" for a
    using put_all_untouched [OF l(3)] that len by simp
  moreover have "m ! a = snd w ! (a - fst w)" if "w \<in> set (segment_writes (program_headers f) data)" "within a w" for a w
    using put_all_written [OF l(2) assms(4) that] by simp
  moreover have "m ! a = 0" if "a < image_size f" "\<forall>w\<in>set (segment_writes (program_headers f) data). \<not> within a w" for a
    using put_all_untouched [OF l(2), of a] that by simp
  ultimately show ?thesis using last put_all_length [OF l(3)] len by auto
qed

text \<open>Property C8: a call of a program to a function that it imports. With the
  library just registered the linker gives the kernel's symbol of that name, else
  the program's own, else that of the libraries in the order of their
  registration, and for the new library that is its base plus the value of its
  first defined symbol of the name.
\<close>

theorem program_call_resolved:
  assumes "lib_register 0 0 data base ksyms reg = Some (e, reg')"
    and "elf2_new_initalize_file data = Some f" "has_program_headers f"
    and "syms_ok ksyms" and "unat i < length rela" and "n = si_name (rela ! unat i)"
  shows "elf_loader_dynamic_linker i rela dyn ksyms reg' =
    (case name_map ksyms n of Some a \<Rightarrow> if a \<noteq> 0 then Some a else after_kernel f base n dyn reg
     | None \<Rightarrow> after_kernel f base n dyn reg)"
proof -
  from assms(1-3) obtain lib m where l: "reg' = reg @ [lib]" "f_elf lib = f" "lib_base lib = base"
    "\<forall>n. symbol_in n (lib_symbols lib) = map_option ((+) base) (exported n f)"
    "put_all (segment_writes (program_headers f) data) (replicate (image_size f) 0) = Some m"
    "put_all (map slot_write (slots ksyms lib)) m = Some (lib_mem lib)"
    by (rule lib_register_SomeD)
  obtain r where "symbols_get_symbol n ksyms = Some r" using syms_ok_get [OF assms(4)] by blast
  then have "symbols_get_symbol_addr n ksyms = Some (case name_map ksyms n of Some a \<Rightarrow> a | None \<Rightarrow> 0)"
    by (simp add: symbols_get_symbol_addr_def name_map_def split: option.splits)
  then show ?thesis using assms(5,6) l
    by (auto simp: elf_loader_dynamic_linker_def nth_elem_def after_kernel_def linker_append Let_def split: option.splits)
qed

text \<open>The number of a dynamic symbol is passed to
  elf2_new_get_symbol_entry as a uint8_t. In a library with more than 256
  symbols the entry i is a copy of the entry i mod 256.
\<close>

theorem symbol_index_wraps:
  assumes "elf2_new_initalize_file data = Some f" "i < length (dynsym_ents f)"
  shows "dynsym_ents f ! i = dynsym_ents f ! (i mod 256)"
proof -
  obtain n off h where h: "load_dynsyms [0..<n] off h = Some (dynsym_ents f)"
    using initalize_file_SomeD(3) [OF assms(1)] by blast
  note es = load_dynsyms_nth [OF h]
  have "i mod 256 < n" using es(1) assms(2) by (metis length_upt diff_zero le_less_trans mod_less_eq_dividend)
  moreover have "(of_nat (i mod 256) :: u8) = of_nat i" by (simp add: word_unat_eq_iff unat_of_nat)
  ultimately have "Some (dynsym_ents f ! i) = Some (dynsym_ents f ! (i mod 256))" using es assms(2) by simp
  then show ?thesis by simp
qed


section \<open>The properties at the concrete libraries\<close>

lemma so_slots:
  "f_elf lib = so_file \<Longrightarrow> lib_base lib = 0x100000 \<Longrightarrow> slots so_ksyms lib = [(32, 0x100010), (40, 0x1000)]"
  by (simp add: slots_def dyn_table_def plt_table_def glob_dat_def jump_slot_def so_relocation List.map_filter_simps)

lemma library_image_witness:
  "\<exists>lib. lib_register 0 0 so_elf 0x100000 so_ksyms [] = Some (0, [lib])
     \<and> take 8 (drop 32 (lib_mem lib)) = le_bytes 0x100010 \<and> take 8 (drop 40 (lib_mem lib)) = le_bytes 0x1000
     \<and> lib_mem lib ! 17 = 0x91 \<and> lib_mem lib ! 100 = 0"
proof -
  obtain lib where l: "lib_register 0 0 so_elf 0x100000 so_ksyms [] = Some (0, [lib])" "f_elf lib = so_file"
      "lib_base lib = 0x100000"
    using so_register by blast
  have seg: "segment_writes (program_headers so_file) so_elf = [(16, so_text)]"
    using so_pieces(13) by (simp add: so_file_def)
  have size: "image_size so_file = 4096" by (simp add: image_size_def so_file_def)
  have ph: "has_program_headers so_file" by (simp add: so_file_def)
  have "separate (map slot_write (slots so_ksyms (last [lib])))"
    using so_slots [OF l(2,3)] by (simp add: separate_def apart_def)
  from library_image [OF l(1) so_initalize ph _ this] show ?thesis
    using l(1) so_slots [OF l(2,3)] seg size
    by (auto simp: separate_def within_def so_text_def)
qed

lemma program_call_resolved_witness:
  "\<exists>lib. lib_register 0 0 so_elf 0x100000 so_ksyms [] = Some (0, [lib])
     \<and> elf_loader_dynamic_linker 0 [\<lparr>si_name = [0x66], si_value = 0\<rparr>] [] so_ksyms [lib] = Some 0x100010"
proof -
  obtain lib where l: "lib_register 0 0 so_elf 0x100000 so_ksyms [] = Some (0, [lib])"
    using so_register by blast
  have ph: "has_program_headers so_file" by (simp add: so_file_def)
  have ok: "syms_ok so_ksyms" by (simp add: syms_ok_def so_ksyms_def)
  have "name_map so_ksyms [0x66] = None"
    by (simp add: name_map_def symbols_get_symbol_def so_ksyms_def)
  moreover have "exported [0x66] so_file = Some 16"
    by (simp add: exported_def) (simp add: so_file_def)
  ultimately show ?thesis
    using l program_call_resolved [OF l so_initalize ph ok, of 0 "[\<lparr>si_name = [0x66], si_value = 0\<rparr>]" "[0x66]" "[]"]
    by (simp add: after_kernel_def)
qed

lemma symbol_index_wraps_witness:
  "\<exists>f. elf2_new_initalize_file wide_elf = Some f \<and> 256 < length (dynsym_ents f) \<and> dynsym_ents f ! 256 = dynsym_ents f ! 0"
proof -
  obtain f where f: "elf2_new_initalize_file wide_elf = Some f" "length (dynsym_ents f) = int_count 257"
    using wide_initalize by blast
  moreover have "int_count 257 = 257" by (simp add: int_count_def)
  ultimately show ?thesis using symbol_index_wraps [OF f(1), of 256] by auto
qed

end
