(* ===== verification/Vui.thy ===== *)
theory Vui
  imports KPrelude
begin

text \<open>
  The state of the user interface (kernel/vui/vui.c, event.c, layout.c and the
  functions that create the elements in window.c, button.c, desktop.c, label.c,
  menubar.c, menu.c and console.c): handles, the list of dispatchers, events, the grid
  layout and the mouse pointer. A chain of vui_handle_list nodes is the list of its
  handles, from the first node, which is part of its owner and holds 0 when the chain is
  empty. The data of a handle is the structure itself, None for NULL; every access in
  the code goes through the handle. A name is the list of its characters before the NUL.
  Colours, fonts and the drawing of elements are left out; a function of an application
  that is called is recorded with its event. An index outside an array is None.
\<close>

section \<open>Elements\<close>

abbreviation (input) VUI_HANDLES_MAX :: nat where "VUI_HANDLES_MAX \<equiv> 512"
abbreviation (input) VUI_HANDLE_TYPE_WINDOW :: u16 where "VUI_HANDLE_TYPE_WINDOW \<equiv> 1"
abbreviation (input) VUI_HANDLE_TYPE_LABEL :: u16 where "VUI_HANDLE_TYPE_LABEL \<equiv> 2"
abbreviation (input) VUI_HANDLE_TYPE_BUTTON :: u16 where "VUI_HANDLE_TYPE_BUTTON \<equiv> 3"
abbreviation (input) VUI_HANDLE_TYPE_DESKTOP :: u16 where "VUI_HANDLE_TYPE_DESKTOP \<equiv> 4"
abbreviation (input) VUI_HANDLE_TYPE_CONSOLE :: u16 where "VUI_HANDLE_TYPE_CONSOLE \<equiv> 5"
abbreviation (input) VUI_HANDLE_TYPE_MENUBAR :: u16 where "VUI_HANDLE_TYPE_MENUBAR \<equiv> 6"
abbreviation (input) VUI_HANDLE_TYPE_MENU :: u16 where "VUI_HANDLE_TYPE_MENU \<equiv> 7"

text \<open>The functions an element can point to: those of the button and those of applications.\<close>

datatype vui_handler = Button_down | Button_up | Button_enter | Button_exit | Button_move | App nat

record vui_operations =
  event_handler :: "vui_handler option"
  default_on_mouse_down :: "vui_handler option"
  default_on_mouse_enter :: "vui_handler option"
  default_on_mouse_exit :: "vui_handler option"
  default_on_mouse_move :: "vui_handler option"
  default_on_mouse_up :: "vui_handler option"
  on_mouse_down :: "vui_handler option"
  on_mouse_enter :: "vui_handler option"
  on_mouse_exit :: "vui_handler option"
  on_mouse_up :: "vui_handler option"

text \<open>The fields all elements share; is_active is a field of the button.\<close>

record vui_common =
  elem_type :: u16
  elem_handle :: u32
  elem_name :: "u8 list"
  elem_parent :: u32
  children :: "u32 list"
  priority :: u32
  ops :: vui_operations
  pos_x :: u16
  pos_y :: u16
  width :: u16
  height :: u16
  absolute_x :: u16
  absolute_y :: u16
  inner_x :: u16
  inner_y :: u16
  inner_width :: u16
  inner_height :: u16
  is_hover :: bool
  is_active :: bool

record vui_handles =
  vh_H :: u32
  vh_type :: u16
  vh_data :: "vui_common option"

record vui_event =
  ev_H :: u32
  ev_type :: u8
  ev_flags :: u32
  ev_name :: "u8 list"
  ev_x :: u16
  ev_y :: u16

record vui_core =
  fb :: "u32 list"
  mousebg :: "u32 list"
  vui_width :: u16
  vui_height :: u16
  vui_pitch :: u16
  handle_table :: "vui_handles list"
  dispatchers :: "u32 list"
  handle_next :: u32
  last_hover :: u32
  mouse_x :: u16
  mouse_y :: u16
  app_calls :: "(nat \<times> vui_event) list"

definition zero_operations :: vui_operations where
  "zero_operations = \<lparr>event_handler = None, default_on_mouse_down = None, default_on_mouse_enter = None,
     default_on_mouse_exit = None, default_on_mouse_move = None, default_on_mouse_up = None,
     on_mouse_down = None, on_mouse_enter = None, on_mouse_exit = None, on_mouse_up = None\<rparr>"

definition zero_element :: vui_common where
  "zero_element = \<lparr>elem_type = 0, elem_handle = 0, elem_name = [], elem_parent = 0, children = [0], priority = 0,
     ops = zero_operations, pos_x = 0, pos_y = 0, width = 0, height = 0, absolute_x = 0, absolute_y = 0,
     inner_x = 0, inner_y = 0, inner_width = 0, inner_height = 0, is_hover = False, is_active = False\<rparr>"

text \<open>vui_init on the cleared global; the frame buffer is the memory it points at.\<close>

definition vui_init :: "u32 list \<Rightarrow> u16 \<Rightarrow> u16 \<Rightarrow> vui_core" where
  "vui_init fb_mem w h = \<lparr>fb = fb_mem, mousebg = replicate 200 0, vui_width = w, vui_height = h, vui_pitch = w * 4,
     handle_table = replicate VUI_HANDLES_MAX \<lparr>vh_H = 0, vh_type = 0, vh_data = None\<rparr>,
     dispatchers = [0], handle_next = 1, last_hover = 0, mouse_x = 0, mouse_y = 0, app_calls = []\<rparr>"


section \<open>Handles\<close>

definition vui_get_handle_data :: "u32 \<Rightarrow> vui_core \<Rightarrow> vui_common option option" where
  "vui_get_handle_data H s =
     (if unat H < length (handle_table s) then Some (vh_data (handle_table s ! unat H)) else None)"

text \<open>Reading through the pointer, and writing through it.\<close>

definition rd_elem :: "u32 \<Rightarrow> vui_core \<Rightarrow> vui_common option" where
  "rd_elem H s = do { d \<leftarrow> vui_get_handle_data H s; d }"

definition vui_set_handle_data :: "u32 \<Rightarrow> vui_common \<Rightarrow> vui_core \<Rightarrow> vui_core option" where
  "vui_set_handle_data H d s =
     (if unat H < length (handle_table s)
      then Some (s\<lparr>handle_table := (handle_table s)[unat H := (handle_table s ! unat H)\<lparr>vh_data := Some d\<rparr>]\<rparr>) else None)"

definition wr_elem :: "u32 \<Rightarrow> (vui_common \<Rightarrow> vui_common) \<Rightarrow> vui_core \<Rightarrow> vui_core option" where
  "wr_elem H f s = do { d \<leftarrow> rd_elem H s; vui_set_handle_data H (f d) s }"

definition vui_is_dispatcher :: "u16 \<Rightarrow> bool" where
  "vui_is_dispatcher ty \<longleftrightarrow>
     ty = VUI_HANDLE_TYPE_DESKTOP \<or> ty = VUI_HANDLE_TYPE_WINDOW \<or> ty = VUI_HANDLE_TYPE_MENUBAR"

text \<open>The end of the chain takes the handle if it is free, else a new node does.\<close>

fun vui_handle_list_add :: "u32 \<Rightarrow> u32 list \<Rightarrow> u32 list" where
  "vui_handle_list_add x [] = []"
| "vui_handle_list_add x [h] = (if h = 0 then [x] else [h, x])"
| "vui_handle_list_add x (h # k # hs) = h # vui_handle_list_add x (k # hs)"

definition vui_allocate_handle :: "u16 \<Rightarrow> vui_core \<Rightarrow> (u32 \<times> vui_core) option" where
  "vui_allocate_handle ty s = (let n = handle_next s in
     if unat n \<ge> VUI_HANDLES_MAX then Some (0, s)
     else if \<not> unat n < length (handle_table s) then None
     else let s = s\<lparr>handle_table := (handle_table s)[unat n := \<lparr>vh_H = n, vh_type = ty, vh_data = None\<rparr>]\<rparr>;
              s = (if vui_is_dispatcher ty then s\<lparr>dispatchers := vui_handle_list_add n (dispatchers s)\<rparr> else s)
          in Some (n, s\<lparr>handle_next := n + 1\<rparr>))"

definition vui_get_type_from_master_list :: "u32 \<Rightarrow> vui_core \<Rightarrow> u16 option" where
  "vui_get_type_from_master_list H s =
     (if unat H < length (handle_table s) then Some (vh_type (handle_table s ! unat H)) else None)"

definition vui_handle_set_name :: "u32 \<Rightarrow> u8 list \<Rightarrow> vui_core \<Rightarrow> vui_core option" where
  "vui_handle_set_name H name s = (if 50 \<le> length name then None else wr_elem H (\<lambda>e. e\<lparr>elem_name := name\<rparr>) s)"

definition vui_handle_get_name :: "u32 \<Rightarrow> vui_core \<Rightarrow> u8 list option" where
  "vui_handle_get_name H s = map_option elem_name (rd_elem H s)"

definition vui_add_to_parent :: "u32 \<Rightarrow> u32 \<Rightarrow> vui_core \<Rightarrow> vui_core option" where
  "vui_add_to_parent parent child s = do {
     parent_st \<leftarrow> vui_get_handle_data parent s;
     child_st \<leftarrow> vui_get_handle_data child s;
     case (parent_st, child_st) of
       (Some p, Some c) \<Rightarrow> do {
         s \<leftarrow> wr_elem parent (\<lambda>p. p\<lparr>children := vui_handle_list_add (elem_handle c) (children p)\<rparr>) s;
         wr_elem child (\<lambda>c. c\<lparr>elem_parent := elem_handle p\<rparr>) s }
     | _ \<Rightarrow> Some s }"

text \<open>One pass of the sort: whether it exchanged anything, and the list.\<close>

fun sort_pass :: "(u32 \<Rightarrow> u32 option) \<Rightarrow> u32 list \<Rightarrow> (bool \<times> u32 list) option" where
  "sort_pass prio (h # current # hs) = do {
     top_st \<leftarrow> prio h;
     current_st \<leftarrow> prio current;
     if current_st < top_st
     then do { (did_sort, r) \<leftarrow> sort_pass prio (h # hs); Some (True, current # r) }
     else do { (did_sort, r) \<leftarrow> sort_pass prio (current # hs); Some (did_sort, h # r) } }"
| "sort_pass prio hs = Some (False, hs)"

partial_function (option) sort_passes :: "(u32 \<Rightarrow> u32 option) \<Rightarrow> u32 list \<Rightarrow> u32 list option" where
  "sort_passes prio hs = do {
     (did_sort, r) \<leftarrow> sort_pass prio hs;
     if did_sort then sort_passes prio r else Some r }"

definition vui_sort_list_by_priority :: "u32 list \<Rightarrow> vui_core \<Rightarrow> u32 list option" where
  "vui_sort_list_by_priority hs s =
     (case hs of
        h # k # r \<Rightarrow> if h = 0 then Some hs else sort_passes (\<lambda>H. map_option priority (rd_elem H s)) hs
      | _ \<Rightarrow> Some hs)"

definition vui_create_cleanup :: "u32 \<Rightarrow> vui_core \<Rightarrow> vui_core option" where
  "vui_create_cleanup H s = do {
     d \<leftarrow> vui_get_handle_data H s;
     case d of None \<Rightarrow> Some s
     | Some vc \<Rightarrow> do {
         s \<leftarrow> wr_elem H (\<lambda>e. e\<lparr>children := [0]\<rparr>) s;
         if vui_is_dispatcher (elem_type vc) then do {
           ds \<leftarrow> vui_sort_list_by_priority (dispatchers s) s;
           Some (s\<lparr>dispatchers := ds\<rparr>) }
         else Some s } }"


section \<open>Creation of the elements\<close>

abbreviation (input) VUI_WINDOW_FLAG_NO_BORDER :: u32 where "VUI_WINDOW_FLAG_NO_BORDER \<equiv> 1"
abbreviation (input) VUI_WINDOW_FLAG_NO_TITLE_BAR :: u32 where "VUI_WINDOW_FLAG_NO_TITLE_BAR \<equiv> 2"

definition vui_window_create :: "u16 \<Rightarrow> u16 \<Rightarrow> u16 \<Rightarrow> u16 \<Rightarrow> u32 \<Rightarrow> vui_core \<Rightarrow> (u32 \<times> vui_core) option" where
  "vui_window_create x y w h flags s = do {
     (H, s) \<leftarrow> vui_allocate_handle VUI_HANDLE_TYPE_WINDOW s;
     let win = zero_element\<lparr>elem_handle := H, elem_type := VUI_HANDLE_TYPE_WINDOW, width := w, height := h,
           pos_x := x, absolute_x := x, pos_y := y, absolute_y := y,
           inner_width := w, inner_height := h, inner_x := x, inner_y := y\<rparr>;
     let win = (if flags AND VUI_WINDOW_FLAG_NO_BORDER = 0
           then win\<lparr>width := w + 2, height := h + 2, inner_x := inner_x win + 1, inner_y := inner_y win + 1\<rparr> else win);
     let win = (if flags AND VUI_WINDOW_FLAG_NO_TITLE_BAR = 0
           then win\<lparr>height := height win + 20, inner_y := inner_y win + 20\<rparr> else win);
     s \<leftarrow> vui_set_handle_data H win s;
     s \<leftarrow> vui_create_cleanup H s;
     Some (H, s) }"

definition button_operations :: vui_operations where
  "button_operations = zero_operations\<lparr>default_on_mouse_down := Some Button_down, default_on_mouse_up := Some Button_up,
     default_on_mouse_enter := Some Button_enter, default_on_mouse_exit := Some Button_exit,
     default_on_mouse_move := Some Button_move\<rparr>"

text \<open>The text has to fit the array of 25 characters.\<close>

definition vui_button_create :: "u8 list \<Rightarrow> u16 \<Rightarrow> u16 \<Rightarrow> u16 \<Rightarrow> u16 \<Rightarrow> u32 \<Rightarrow> vui_core \<Rightarrow> (u32 \<times> vui_core) option" where
  "vui_button_create txt x y w h parent s = do {
     (H, s) \<leftarrow> vui_allocate_handle VUI_HANDLE_TYPE_BUTTON s;
     s \<leftarrow> vui_set_handle_data H (zero_element\<lparr>elem_handle := H, elem_type := VUI_HANDLE_TYPE_BUTTON,
           pos_x := x, absolute_x := x, pos_y := y, absolute_y := y, inner_width := w, inner_height := h,
           width := w + 2, height := h + 2, inner_x := x + 1, inner_y := y + 1, ops := button_operations\<rparr>) s;
     if 25 \<le> length txt then None else do {
       s \<leftarrow> vui_add_to_parent parent H s;
       s \<leftarrow> vui_create_cleanup H s;
       Some (H, s) } }"

definition vui_desktop_create :: "u16 \<Rightarrow> u16 \<Rightarrow> u16 \<Rightarrow> u16 \<Rightarrow> vui_core \<Rightarrow> (u32 \<times> vui_core) option" where
  "vui_desktop_create x y w h s = do {
     (H, s) \<leftarrow> vui_allocate_handle VUI_HANDLE_TYPE_DESKTOP s;
     s \<leftarrow> vui_set_handle_data H (zero_element\<lparr>elem_type := VUI_HANDLE_TYPE_DESKTOP, elem_handle := H,
           priority := 0xFFFFFFFF, pos_x := x, pos_y := y, width := w, height := h\<rparr>) s;
     s \<leftarrow> vui_create_cleanup H s;
     Some (H, s) }"

definition vui_label_create :: "u16 \<Rightarrow> u16 \<Rightarrow> u32 \<Rightarrow> vui_core \<Rightarrow> (u32 \<times> vui_core) option" where
  "vui_label_create x y parent s = do {
     (H, s) \<leftarrow> vui_allocate_handle VUI_HANDLE_TYPE_LABEL s;
     s \<leftarrow> vui_set_handle_data H (zero_element\<lparr>elem_handle := H, elem_type := VUI_HANDLE_TYPE_LABEL,
           pos_x := x, pos_y := y\<rparr>) s;
     s \<leftarrow> vui_add_to_parent parent H s;
     s \<leftarrow> vui_create_cleanup H s;
     Some (H, s) }"

definition vui_menubar_create :: "vui_core \<Rightarrow> (u32 \<times> vui_core) option" where
  "vui_menubar_create s = do {
     (H, s) \<leftarrow> vui_allocate_handle VUI_HANDLE_TYPE_MENUBAR s;
     s \<leftarrow> vui_set_handle_data H (zero_element\<lparr>elem_type := VUI_HANDLE_TYPE_MENUBAR, elem_handle := H,
           priority := 0xFFFFFFFE, width := vui_width s, height := 25\<rparr>) s;
     s \<leftarrow> vui_create_cleanup H s;
     Some (H, s) }"

definition vui_menu_create :: "u8 list \<Rightarrow> vui_core \<Rightarrow> (u32 \<times> vui_core) option" where
  "vui_menu_create name s = do {
     (H, s) \<leftarrow> vui_allocate_handle VUI_HANDLE_TYPE_MENU s;
     if 50 \<le> length name then None else do {
       s \<leftarrow> vui_set_handle_data H (zero_element\<lparr>elem_type := VUI_HANDLE_TYPE_MENU, elem_handle := H,
             priority := 1, elem_name := name\<rparr>) s;
       s \<leftarrow> vui_create_cleanup H s;
       Some (H, s) } }"

text \<open>The memory of the console is not cleared: stale is what it held.\<close>

definition vui_console_create :: "vui_common \<Rightarrow> u32 \<Rightarrow> vui_core \<Rightarrow> (u32 \<times> vui_core) option" where
  "vui_console_create stale parent s = do {
     (H, s) \<leftarrow> vui_allocate_handle VUI_HANDLE_TYPE_CONSOLE s;
     s \<leftarrow> vui_set_handle_data H (stale\<lparr>elem_handle := H, elem_type := VUI_HANDLE_TYPE_CONSOLE,
           children := [0], elem_parent := 0\<rparr>) s;
     s \<leftarrow> vui_add_to_parent parent H s;
     s \<leftarrow> vui_create_cleanup H s;
     Some (H, s) }"


section \<open>Events\<close>

abbreviation (input) VUI_EVENT_MOUSE_DOWN :: u8 where "VUI_EVENT_MOUSE_DOWN \<equiv> 1"
abbreviation (input) VUI_EVENT_MOUSE_UP :: u8 where "VUI_EVENT_MOUSE_UP \<equiv> 2"
abbreviation (input) VUI_EVENT_MOUSE_MOVE :: u8 where "VUI_EVENT_MOUSE_MOVE \<equiv> 5"
abbreviation (input) VUI_EVENT_MOUSE_ENTER :: u8 where "VUI_EVENT_MOUSE_ENTER \<equiv> 6"
abbreviation (input) VUI_EVENT_MOUSE_EXIT :: u8 where "VUI_EVENT_MOUSE_EXIT \<equiv> 7"
abbreviation (input) VUI_EVENT_ALL :: u8 where "VUI_EVENT_ALL \<equiv> 255"

definition hit :: "vui_event \<Rightarrow> vui_common \<Rightarrow> bool" where
  "hit e el \<longleftrightarrow> unat (ev_x e) \<ge> unat (absolute_x el) \<and> unat (ev_x e) \<le> unat (absolute_x el) + unat (width el)
     \<and> unat (ev_y e) \<ge> unat (absolute_y el) \<and> unat (ev_y e) \<le> unat (absolute_y el) + unat (height el)"

primrec vui_find_handler_for_event :: "u32 list \<Rightarrow> vui_event \<Rightarrow> vui_core \<Rightarrow> u32 option" where
  "vui_find_handler_for_event [] e s = Some 0"
| "vui_find_handler_for_event (h # hs) e s =
     (if h = 0 then Some 0
      else do {
        element \<leftarrow> rd_elem h s;
        if hit e element then Some (elem_handle element) else vui_find_handler_for_event hs e s })"

text \<open>The functions that handlers point to; the code of an application is not part of the model.\<close>

definition call_app :: "vui_handler option \<Rightarrow> vui_event \<Rightarrow> vui_core \<Rightarrow> vui_core" where
  "call_app h e s = (case h of Some (App n) \<Rightarrow> s\<lparr>app_calls := app_calls s @ [(n, e)]\<rparr> | _ \<Rightarrow> s)"

definition vui_button_on_mouse_enter :: "vui_event \<Rightarrow> vui_core \<Rightarrow> vui_core option" where
  "vui_button_on_mouse_enter e s = wr_elem (ev_H e) (\<lambda>b. b\<lparr>is_hover := True\<rparr>) s"

definition vui_button_on_mouse_exit :: "vui_event \<Rightarrow> vui_core \<Rightarrow> vui_core option" where
  "vui_button_on_mouse_exit e s = wr_elem (ev_H e) (\<lambda>b. b\<lparr>is_hover := False, is_active := False\<rparr>) s"

definition vui_button_on_mouse_down :: "vui_event \<Rightarrow> vui_core \<Rightarrow> vui_core option" where
  "vui_button_on_mouse_down e s = do {
     s \<leftarrow> wr_elem (ev_H e) (\<lambda>b. b\<lparr>is_active := True\<rparr>) s;
     b \<leftarrow> rd_elem (ev_H e) s;
     Some (call_app (on_mouse_down (ops b)) e s) }"

definition vui_button_on_mouse_up :: "vui_event \<Rightarrow> vui_core \<Rightarrow> vui_core option" where
  "vui_button_on_mouse_up e s = do {
     s \<leftarrow> wr_elem (ev_H e) (\<lambda>b. b\<lparr>is_active := False\<rparr>) s;
     b \<leftarrow> rd_elem (ev_H e) s;
     Some (call_app (on_mouse_up (ops b)) e s) }"

definition call_handler :: "vui_handler option \<Rightarrow> vui_event \<Rightarrow> vui_core \<Rightarrow> vui_core option" where
  "call_handler h e s = (case h of
       Some Button_enter \<Rightarrow> vui_button_on_mouse_enter e s
     | Some Button_exit \<Rightarrow> vui_button_on_mouse_exit e s
     | Some Button_down \<Rightarrow> vui_button_on_mouse_down e s
     | Some Button_up \<Rightarrow> vui_button_on_mouse_up e s
     | _ \<Rightarrow> Some (call_app h e s))"

definition default_handler :: "u8 \<Rightarrow> vui_common option \<Rightarrow> vui_handler option option" where
  "default_handler ty element =
     (if ty = VUI_EVENT_MOUSE_MOVE then map_option (\<lambda>el. default_on_mouse_move (ops el)) element
      else if ty = VUI_EVENT_MOUSE_EXIT then map_option (\<lambda>el. default_on_mouse_exit (ops el)) element
      else if ty = VUI_EVENT_MOUSE_ENTER then map_option (\<lambda>el. default_on_mouse_enter (ops el)) element
      else if ty = VUI_EVENT_MOUSE_DOWN then map_option (\<lambda>el. default_on_mouse_down (ops el)) element
      else if ty = VUI_EVENT_MOUSE_UP then map_option (\<lambda>el. default_on_mouse_up (ops el)) element
      else Some None)"

definition vui_send_event :: "u32 \<Rightarrow> vui_event \<Rightarrow> vui_core \<Rightarrow> (vui_event \<times> vui_core) option" where
  "vui_send_event H e s = do {
     element \<leftarrow> vui_get_handle_data H s;
     (element, e, s) \<leftarrow>
       (if ev_type e = VUI_EVENT_MOUSE_MOVE then
          if last_hover s \<noteq> 0 then
            if last_hover s \<noteq> ev_H e then do {
              let e = e\<lparr>ev_H := last_hover s, ev_type := VUI_EVENT_MOUSE_EXIT\<rparr>;
              el \<leftarrow> rd_elem (ev_H e) s;
              Some (Some el, e\<lparr>ev_name := elem_name el\<rparr>, s\<lparr>last_hover := 0\<rparr>) }
            else Some (element, e, s)
          else Some (element, e\<lparr>ev_type := VUI_EVENT_MOUSE_ENTER\<rparr>, s\<lparr>last_hover := ev_H e\<rparr>)
        else Some (element, e, s));
     handler_to_call \<leftarrow> default_handler (ev_type e) element;
     s \<leftarrow> call_handler handler_to_call e s;
     Some (e, s) }"

definition vui_set_event_handler :: "u32 \<Rightarrow> u8 \<Rightarrow> vui_handler option \<Rightarrow> vui_core \<Rightarrow> vui_core option" where
  "vui_set_event_handler H ty handler s = do {
     element \<leftarrow> vui_get_handle_data H s;
     case element of None \<Rightarrow> Some s
     | Some el \<Rightarrow>
         if ty = VUI_EVENT_ALL then wr_elem H (\<lambda>el. el\<lparr>ops := (ops el)\<lparr>event_handler := handler\<rparr>\<rparr>) s
         else if ty = VUI_EVENT_MOUSE_DOWN then wr_elem H (\<lambda>el. el\<lparr>ops := (ops el)\<lparr>on_mouse_down := handler\<rparr>\<rparr>) s
         else if ty = VUI_EVENT_MOUSE_UP then wr_elem H (\<lambda>el. el\<lparr>ops := (ops el)\<lparr>on_mouse_up := handler\<rparr>\<rparr>) s
         else Some s }"

definition vui_external_event_handler :: "u8 \<Rightarrow> u16 \<Rightarrow> u16 \<Rightarrow> bool \<Rightarrow> bool \<Rightarrow> vui_core \<Rightarrow> vui_core option" where
  "vui_external_event_handler ty x y lmb rmb s = do {
     let e = \<lparr>ev_H = 0, ev_type = ty, ev_flags = (if lmb then 1 else 0) OR (if rmb then 2 else 0),
              ev_name = [], ev_x = x, ev_y = y\<rparr>;
     dispatcher \<leftarrow> vui_find_handler_for_event (dispatchers s) e s;
     if dispatcher = 0 then Some s
     else do {
       vc_dispatcher \<leftarrow> rd_elem dispatcher s;
       handler \<leftarrow> vui_find_handler_for_event (children vc_dispatcher) e s;
       let target = (if handler \<noteq> 0 then handler else dispatcher);
       name \<leftarrow> vui_handle_get_name target s;
       (e, s) \<leftarrow> vui_send_event target (e\<lparr>ev_H := target, ev_name := name\<rparr>) s;
       vc_dispatcher \<leftarrow> rd_elem dispatcher s;
       call_handler (event_handler (ops vc_dispatcher)) e s } }"


section \<open>Layout\<close>

abbreviation (input) VUI_LAYOUT_PADDING :: u16 where "VUI_LAYOUT_PADDING \<equiv> 10"
abbreviation (input) VUI_LAYOUT_TOP :: u8 where "VUI_LAYOUT_TOP \<equiv> 3"
abbreviation (input) VUI_LAYOUT_BOTTOM :: u8 where "VUI_LAYOUT_BOTTOM \<equiv> 4"

record vui_layout_cell =
  cell_H :: u32
  cell_x :: u16
  cell_y :: u16
  cell_width :: u16
  cell_height :: u16
  vert_position :: u8
  cell_parent :: u32

text \<open>The size of a cell: the division of ints truncates towards zero.\<close>

definition cell_size :: "u16 \<Rightarrow> u16" where
  "cell_size w = (let n = int (unat w) - 40 in word_of_int (if n \<ge> 0 then n div 3 else - ((- n) div 3)))"

primrec layout_cols :: "nat \<Rightarrow> u16 \<Rightarrow> vui_layout_cell \<Rightarrow> vui_layout_cell list" where
  "layout_cols 0 x c = []"
| "layout_cols (Suc n) x c = c\<lparr>cell_x := x\<rparr> # layout_cols n (x + VUI_LAYOUT_PADDING + cell_width c) c"

primrec layout_rows :: "nat \<Rightarrow> u16 \<Rightarrow> u16 \<Rightarrow> vui_layout_cell \<Rightarrow> vui_layout_cell list list" where
  "layout_rows 0 x y c = []"
| "layout_rows (Suc n) x y c =
     layout_cols 3 x (c\<lparr>cell_y := y\<rparr>) # layout_rows n x (y + VUI_LAYOUT_PADDING + cell_height c) c"

text \<open>Every type gives the grid of three rows and three columns; the layout is its rows.\<close>

definition vui_layout_init :: "u32 \<Rightarrow> vui_core \<Rightarrow> vui_layout_cell list list option" where
  "vui_layout_init parent s = do {
     p \<leftarrow> rd_elem parent s;
     Some (layout_rows 3 (inner_x p + VUI_LAYOUT_PADDING) (inner_y p + VUI_LAYOUT_PADDING)
       \<lparr>cell_H = 0, cell_x = 0, cell_y = 0, cell_width = cell_size (inner_width p),
        cell_height = cell_size (inner_height p), vert_position = 0, cell_parent = parent\<rparr>) }"

definition vui_layout_get_next_free :: "vui_layout_cell list list \<Rightarrow> vui_layout_cell option" where
  "vui_layout_get_next_free rows = List.find (\<lambda>c. cell_H c = 0) (concat rows)"

definition vui_layout_add_button ::
    "vui_layout_cell \<Rightarrow> u8 list \<Rightarrow> u8 list \<Rightarrow> vui_core \<Rightarrow> (vui_layout_cell \<times> vui_core) option" where
  "vui_layout_add_button c name txt s =
     (if cell_H c \<noteq> 0 then Some (c, s)
      else do {
        let y_pos = (if vert_position c = VUI_LAYOUT_TOP then cell_y c
              else if vert_position c = VUI_LAYOUT_BOTTOM then cell_y c + cell_height c - 35
              else cell_y c + cell_height c div 2 - 17);
        (H, s) \<leftarrow> vui_button_create txt (cell_x c) y_pos (cell_width c) 35 (cell_parent c) s;
        s \<leftarrow> vui_handle_set_name H name s;
        Some (c\<lparr>cell_H := H\<rparr>, s) })"


section \<open>The mouse pointer\<close>

text \<open>A loop over the positions (i, j) of the pointer, in the order of the code.\<close>

primrec each_pixel :: "(nat \<Rightarrow> nat \<Rightarrow> vui_core \<Rightarrow> vui_core option) \<Rightarrow> (nat \<times> nat) list \<Rightarrow> vui_core \<Rightarrow> vui_core option" where
  "each_pixel f [] s = Some s"
| "each_pixel f (p # ps) s = do { s \<leftarrow> f (fst p) (snd p) s; each_pixel f ps s }"

definition fb_index :: "u16 \<Rightarrow> u16 \<Rightarrow> nat \<Rightarrow> nat \<Rightarrow> vui_core \<Rightarrow> nat" where
  "fb_index x y i j s = unat y * unat (vui_pitch s) div 4 + i * (unat (vui_pitch s) div 4) + unat x + j"

definition save_pixel :: "u16 \<Rightarrow> u16 \<Rightarrow> nat \<Rightarrow> nat \<Rightarrow> vui_core \<Rightarrow> vui_core option" where
  "save_pixel x y i j s =
     (if fb_index x y i j s < length (fb s) \<and> i * 10 + j < length (mousebg s)
      then Some (s\<lparr>mousebg := (mousebg s)[i * 10 + j := fb s ! fb_index x y i j s]\<rparr>) else None)"

definition restore_pixel :: "u16 \<Rightarrow> u16 \<Rightarrow> nat \<Rightarrow> nat \<Rightarrow> vui_core \<Rightarrow> vui_core option" where
  "restore_pixel x y i j s =
     (if fb_index x y i j s < length (fb s) \<and> i * 10 + j < length (mousebg s)
      then Some (s\<lparr>fb := (fb s)[fb_index x y i j s := mousebg s ! (i * 10 + j)]\<rparr>) else None)"

definition pixels :: "nat list \<Rightarrow> (nat \<times> nat) list" where
  "pixels js = concat (map (\<lambda>i. map (\<lambda>j. (i, j)) js) [0..<7])"

definition vui_mouse_save_area :: "u16 \<Rightarrow> u16 \<Rightarrow> vui_core \<Rightarrow> vui_core option" where
  "vui_mouse_save_area x y = each_pixel (save_pixel x y) (pixels [0..<14])"

definition vui_draw_mouse_save_buffer :: "u16 \<Rightarrow> u16 \<Rightarrow> vui_core \<Rightarrow> vui_core option" where
  "vui_draw_mouse_save_buffer x y = each_pixel (restore_pixel x y) (pixels [0..<14])"

text \<open>The statement that would draw the pointer is commented out; the loop saves the area once more.\<close>

definition vui_draw_mouse_at :: "u16 \<Rightarrow> u16 \<Rightarrow> vui_core \<Rightarrow> vui_core option" where
  "vui_draw_mouse_at x y = each_pixel (save_pixel x y) (pixels (rev [0..<15]))"

definition clamp :: "int \<Rightarrow> u16 \<Rightarrow> int" where
  "clamp v limit = (let v = (if v > int (unat limit) then int (unat limit) else v) in if v < 0 then 0 else v)"

definition vui_handle_mouse_move :: "int \<Rightarrow> int \<Rightarrow> vui_core \<Rightarrow> vui_core option" where
  "vui_handle_mouse_move x_displacement y_displacement s = do {
     let nx = word_of_int (clamp (int (unat (mouse_x s)) + x_displacement) (vui_width s));
     let ny = word_of_int (clamp (int (unat (mouse_y s)) + y_displacement) (vui_height s));
     s \<leftarrow> vui_draw_mouse_save_buffer (mouse_x s) (mouse_y s) s;
     s \<leftarrow> vui_mouse_save_area nx ny s;
     s \<leftarrow> vui_draw_mouse_at nx ny s;
     Some (s\<lparr>mouse_x := nx, mouse_y := ny\<rparr>) }"

end
