(* ===== verification/VuiProps.thy ===== *)
theory VuiProps
  imports Vui "HOL-Library.Multiset"
begin

text \<open>
  The user interface: the sort of the dispatchers is the stable sort by priority, an
  event goes to the front-most element at its position, every reachable state of the
  interface handles every event, at most one element is highlighted, and the cells of a
  layout do not overlap.
\<close>

section \<open>The sort by priority\<close>

text \<open>The pairs in the wrong order.\<close>

primrec inversions :: "('a \<Rightarrow> 'b :: linorder) \<Rightarrow> 'a list \<Rightarrow> nat" where
  "inversions p [] = 0"
| "inversions p (x # xs) = length (filter (\<lambda>y. p y < p x) xs) + inversions p xs"

lemma mset_filter_length: "mset xs = mset ys \<Longrightarrow> length (filter P xs) = length (filter P ys)"
  by (metis mset_filter size_mset)

lemma sort_pass_spec:
  assumes "\<forall>h\<in>set hs. prio h = Some (p h)"
  shows "\<exists>d r. sort_pass prio hs = Some (d, r) \<and> mset r = mset hs \<and> (\<forall>k. filter (\<lambda>h. p h = k) r = filter (\<lambda>h. p h = k) hs)
    \<and> inversions p r \<le> inversions p hs \<and> (if d then inversions p r < inversions p hs else r = hs \<and> sorted (map p hs))"
  using assms
proof (induction prio hs rule: sort_pass.induct)
  case (1 prio h c hs)
  show ?case
  proof (cases "p c < p h")
    case True
    from 1(1) [OF _ _ True] 1(3) obtain d r where r: "sort_pass prio (h # hs) = Some (d, r)" "mset r = mset (h # hs)"
        "\<forall>k. filter (\<lambda>h. p h = k) r = filter (\<lambda>h. p h = k) (h # hs)" "inversions p r \<le> inversions p (h # hs)"
      by auto
    have "length (filter (\<lambda>y. p y < p c) r) = length (filter (\<lambda>y. p y < p c) hs)"
      using mset_filter_length [OF r(2), of "\<lambda>y. p y < p c"] True by simp
    then have "inversions p (c # r) < inversions p (h # c # hs)" using r(4) True by simp
    moreover have "sort_pass prio (h # c # hs) = Some (True, c # r)" using 1(3) r(1) True by simp
    moreover have "\<forall>k. filter (\<lambda>h. p h = k) (c # r) = filter (\<lambda>h. p h = k) (h # c # hs)" using r(3) True by auto
    ultimately show ?thesis using r(2) by auto
  next
    case False
    from 1(2) [OF _ _ False] 1(3) obtain d r where r: "sort_pass prio (c # hs) = Some (d, r)" "mset r = mset (c # hs)"
        "\<forall>k. filter (\<lambda>h. p h = k) r = filter (\<lambda>h. p h = k) (c # hs)" "inversions p r \<le> inversions p (c # hs)"
        "if d then inversions p r < inversions p (c # hs) else r = c # hs \<and> sorted (map p (c # hs))"
      by auto
    have "length (filter (\<lambda>y. p y < p h) r) = length (filter (\<lambda>y. p y < p h) (c # hs))"
      by (rule mset_filter_length [OF r(2)])
    then have inv: "inversions p (h # r) = length (filter (\<lambda>y. p y < p h) (c # hs)) + inversions p r" by simp
    have pass: "sort_pass prio (h # c # hs) = Some (d, h # r)" using 1(3) r(1) False by simp
    have "if d then inversions p (h # r) < inversions p (h # c # hs) else h # r = h # c # hs \<and> sorted (map p (h # c # hs))"
      using r(5) inv False by (cases d) auto
    moreover have "inversions p (h # r) \<le> inversions p (h # c # hs)" using r(4) inv by simp
    ultimately show ?thesis using pass r(2,3) by auto
  qed
qed auto

lemma sort_passes_sorts:
  assumes "\<forall>h\<in>set hs. prio h = Some (p h)"
  shows "sort_passes prio hs = Some (sort_key p hs)"
  using assms
proof (induction "inversions p hs" arbitrary: hs rule: less_induct)
  case less
  obtain d r where r: "sort_pass prio hs = Some (d, r)" "mset r = mset hs"
      "\<forall>k. filter (\<lambda>h. p h = k) r = filter (\<lambda>h. p h = k) hs"
      "if d then inversions p r < inversions p hs else r = hs \<and> sorted (map p hs)"
    using sort_pass_spec [OF less.prems] by blast
  have set: "set r = set hs" by (rule mset_eq_setD [OF r(2)])
  show ?case
  proof (cases d)
    case True
    then have "sort_passes prio r = Some (sort_key p r)"
      using less.hyps [of r] r(4) less.prems set by simp
    moreover have "sort_key p hs = sort_key p r"
    proof (rule properties_for_sort_key)
      show "mset (sort_key p r) = mset hs" using r(2) by simp
      show "filter (\<lambda>x. p k = p x) (sort_key p r) = filter (\<lambda>x. p k = p x) hs" for k
      proof -
        have "(\<lambda>x. p k = p x) = (\<lambda>x. p x = p k)" by auto
        then show ?thesis using r(3) by (simp add: sort_key_stable)
      qed
    qed simp
    ultimately show ?thesis using r(1) True by (subst sort_passes.simps) simp
  next
    case False
    then have "sort_key p hs = hs" using r(4) by (simp add: sort_key_id_if_sorted)
    then show ?thesis using r(1,4) False by (subst sort_passes.simps) simp
  qed
qed


section \<open>The invariant of the interface\<close>

definition allocated :: "vui_core \<Rightarrow> u32 \<Rightarrow> bool" where
  "allocated s H \<longleftrightarrow> H \<noteq> 0 \<and> unat H < unat (handle_next s)"

definition chain_ok :: "vui_core \<Rightarrow> u32 list \<Rightarrow> bool" where
  "chain_ok s hs \<longleftrightarrow> hs \<noteq> [] \<and> (\<forall>h\<in>set hs. h = 0 \<or> allocated s h)"

definition ui_tables :: "vui_core \<Rightarrow> bool" where
  "ui_tables s \<longleftrightarrow> length (handle_table s) = 512 \<and> 1 \<le> unat (handle_next s) \<and> unat (handle_next s) \<le> 512
     \<and> (\<forall>H. allocated s H \<longrightarrow> rd_elem H s \<noteq> None)
     \<and> (\<forall>H el. rd_elem H s = Some el \<longrightarrow> (H = 0 \<or> allocated s H) \<and> elem_handle el = H \<and> chain_ok s (children el))
     \<and> (dispatchers s = [0] \<or> dispatchers s \<noteq> [] \<and> 0 \<notin> set (dispatchers s))
     \<and> set (dispatchers s) - {0} = {H. allocated s H \<and> (\<exists>el. rd_elem H s = Some el \<and> vui_is_dispatcher (elem_type el))}
     \<and> (last_hover s = 0 \<or> allocated s (last_hover s))"

definition prio_of :: "vui_core \<Rightarrow> u32 \<Rightarrow> u32" where
  "prio_of s H = (case rd_elem H s of Some el \<Rightarrow> priority el | None \<Rightarrow> 0)"

definition by_priority :: "vui_core \<Rightarrow> bool" where
  "by_priority s \<longleftrightarrow> sorted (map (prio_of s) (dispatchers s))"

definition ui_inv :: "vui_core \<Rightarrow> bool" where
  "ui_inv s \<longleftrightarrow> ui_tables s \<and> by_priority s"

lemma set_data_SomeD:
  assumes "vui_set_handle_data H d s = Some s'"
  shows "rd_elem K s' = (if K = H then Some d else rd_elem K s)" "dispatchers s' = dispatchers s"
    "handle_next s' = handle_next s" "last_hover s' = last_hover s" "length (handle_table s') = length (handle_table s)"
  using assms
  by (auto simp: vui_set_handle_data_def rd_elem_def vui_get_handle_data_def nth_list_update word_unat_eq_iff split: if_splits)

lemma wr_elem_SomeD:
  assumes "wr_elem H f s = Some s'"
  obtains d where "rd_elem H s = Some d" "\<And>K. rd_elem K s' = (if K = H then Some (f d) else rd_elem K s)"
    "dispatchers s' = dispatchers s" "handle_next s' = handle_next s" "last_hover s' = last_hover s"
    "length (handle_table s') = length (handle_table s)"
  using assms set_data_SomeD by (auto simp: wr_elem_def split: bind_splits)

lemma wr_elem_total: "rd_elem H s = Some d \<Longrightarrow> \<exists>s'. wr_elem H f s = Some s'"
  by (auto simp: wr_elem_def rd_elem_def vui_get_handle_data_def vui_set_handle_data_def split: if_splits bind_splits)

lemma allocated_cong: "handle_next s' = handle_next s \<Longrightarrow> allocated s' = allocated s"
  by (simp add: fun_eq_iff allocated_def)

lemma chain_ok_cong: "handle_next s' = handle_next s \<Longrightarrow> chain_ok s' = chain_ok s"
  by (simp add: fun_eq_iff chain_ok_def allocated_def)

text \<open>A write that keeps handle and type and leaves a proper chain of children.\<close>

lemma tables_wr:
  assumes "ui_tables s" "wr_elem H f s = Some s'"
    and "\<And>el. rd_elem H s = Some el \<Longrightarrow> elem_handle (f el) = elem_handle el \<and> elem_type (f el) = elem_type el \<and> chain_ok s (children (f el))"
  shows "ui_tables s'"
proof -
  obtain d where d: "rd_elem H s = Some d" "\<And>K. rd_elem K s' = (if K = H then Some (f d) else rd_elem K s)"
    "dispatchers s' = dispatchers s" "handle_next s' = handle_next s" "last_hover s' = last_hover s"
    "length (handle_table s') = length (handle_table s)"
    using wr_elem_SomeD [OF assms(2)] by metis
  note a = allocated_cong [OF d(4)] chain_ok_cong [OF d(4)]
  have ty: "(\<exists>el. rd_elem K s' = Some el \<and> vui_is_dispatcher (elem_type el)) \<longleftrightarrow>
      (\<exists>el. rd_elem K s = Some el \<and> vui_is_dispatcher (elem_type el))" for K
    using d(1,2) assms(3) by auto
  show ?thesis
    using assms(1) assms(3) [OF d(1)] d(1,2) unfolding ui_tables_def a ty d(3-6) by auto
qed

lemma priority_wr:
  assumes "by_priority s" "wr_elem H f s = Some s'" "\<And>el. rd_elem H s = Some el \<Longrightarrow> priority (f el) = priority el"
  shows "by_priority s'"
proof -
  obtain d where d: "rd_elem H s = Some d" "\<And>K. rd_elem K s' = (if K = H then Some (f d) else rd_elem K s)"
    "dispatchers s' = dispatchers s"
    using wr_elem_SomeD [OF assms(2)] by metis
  have "prio_of s' = prio_of s" using d assms(3) by (auto simp: prio_of_def fun_eq_iff)
  then show ?thesis using assms(1) d(3) by (simp add: by_priority_def)
qed

lemma list_add_set: "hs \<noteq> [] \<Longrightarrow> set (vui_handle_list_add x hs) - {0} = set hs \<union> {x} - {0}" "hs \<noteq> [] \<Longrightarrow> vui_handle_list_add x hs \<noteq> []"
  by (induction x hs rule: vui_handle_list_add.induct) auto

lemma list_add_nonzero: "hs \<noteq> [] \<Longrightarrow> 0 \<notin> set hs \<Longrightarrow> vui_handle_list_add x hs = hs @ [x]"
  by (induction x hs rule: vui_handle_list_add.induct) auto

lemma list_add_chain: "chain_ok s hs \<Longrightarrow> x = 0 \<or> allocated s x \<Longrightarrow> chain_ok s (vui_handle_list_add x hs)"
  using list_add_set [of hs x] by (fastforce simp: chain_ok_def)

text \<open>A new element: the handle, and its structure installed.\<close>

lemma new_element:
  assumes inv: "ui_inv s" and a: "vui_allocate_handle ty s = Some (H, s1)" and d: "vui_set_handle_data H el s1 = Some s2"
    and el: "elem_handle el = H" "elem_type el = ty" "children el = [0]"
  shows "ui_tables s2" "\<not> vui_is_dispatcher ty \<Longrightarrow> by_priority s2" "rd_elem H s2 = Some el"
    "H = 0 \<or> allocated s2 H" "unat H < 512" "\<And>K. rd_elem K s2 = (if K = H then Some el else rd_elem K s)" "last_hover s2 = last_hover s"
proof -
  have t: "ui_tables s" and p: "by_priority s" using inv by (simp_all add: ui_inv_def)
  note D = set_data_SomeD [OF d]
  show rd: "rd_elem H s2 = Some el" using D(1) by simp
  have "ui_tables s2 \<and> (\<not> vui_is_dispatcher ty \<longrightarrow> by_priority s2) \<and> (H = 0 \<or> allocated s2 H) \<and> unat H < 512 \<and>
      (\<forall>K. rd_elem K s2 = (if K = H then Some el else rd_elem K s)) \<and> last_hover s2 = last_hover s"
  proof (cases "unat (handle_next s) \<ge> 512")
    case True
    then have s1: "H = 0" "s1 = s" using a by (auto simp: vui_allocate_handle_def Let_def)
    have al: "allocated s2 = allocated s" "chain_ok s2 = chain_ok s" 
      using allocated_cong [of s2 s] chain_ok_cong [of s2 s] D(3) s1 by simp_all
    have r: "rd_elem K s2 = (if K = 0 then Some el else rd_elem K s)" for K using D(1) s1 by simp
    have ty: "(allocated s K \<and> (\<exists>el. rd_elem K s2 = Some el \<and> vui_is_dispatcher (elem_type el))) \<longleftrightarrow>
      (allocated s K \<and> (\<exists>el. rd_elem K s = Some el \<and> vui_is_dispatcher (elem_type el)))" for K
      using r by (auto simp: allocated_def)
    have "ui_tables s2"
      using t s1 el r unfolding ui_tables_def al ty D(2-5) by (auto simp: chain_ok_def)
    moreover have "by_priority s2"
    proof (cases "dispatchers s = [0]")
      case True
      then show ?thesis using D(2) s1 by (simp add: by_priority_def)
    next
      case False
      then have "0 \<notin> set (dispatchers s)" using t by (auto simp: ui_tables_def)
      then have m: "map (prio_of s2) (dispatchers s) = map (prio_of s) (dispatchers s)"
        by (intro map_cong refl) (auto simp: prio_of_def r)
      show ?thesis using p unfolding by_priority_def D(2) s1(2) m .
    qed
    ultimately show ?thesis using s1 r D(4) by simp
  next
    case False
    then have n: "unat (handle_next s) < 512" by simp
    have H: "H = handle_next s" using a n by (auto simp: vui_allocate_handle_def Let_def split: if_splits)
    have len: "length (handle_table s) = 512" "1 \<le> unat (handle_next s)" using t by (simp_all add: ui_tables_def)
    then have H0: "H \<noteq> 0" using H by auto
    have n1: "unat (handle_next s + 1) = Suc (unat (handle_next s))" using n by (simp add: unat_word_ariths)
    have s1: "handle_next s1 = handle_next s + 1" "last_hover s1 = last_hover s" "length (handle_table s1) = 512"
      "dispatchers s1 = (if vui_is_dispatcher ty then vui_handle_list_add H (dispatchers s) else dispatchers s)"
      and r1: "K \<noteq> H \<Longrightarrow> rd_elem K s1 = rd_elem K s" for K
      using a n len unfolding H by (auto simp: vui_allocate_handle_def Let_def rd_elem_def vui_get_handle_data_def
          nth_list_update word_unat_eq_iff split: if_splits)
    have r: "rd_elem K s2 = (if K = H then Some el else rd_elem K s)" for K using D(1) r1 by simp
    have al: "allocated s2 K \<longleftrightarrow> allocated s K \<or> K = H" for K
      using D(3) s1(1) n1 H H0 by (auto simp: allocated_def word_unat_eq_iff less_Suc_eq)
    have notal: "\<not> allocated s H" using H by (simp add: allocated_def)
    have ch: "chain_ok s hs \<Longrightarrow> chain_ok s2 hs" for hs by (auto simp: chain_ok_def al)
    have ds: "dispatchers s2 = (if vui_is_dispatcher ty then vui_handle_list_add H (dispatchers s) else dispatchers s)"
      using D(2) s1(4) by simp
    have ne: "dispatchers s \<noteq> []" using t by (auto simp: ui_tables_def)
    have dset: "set (dispatchers s2) - {0} = (if vui_is_dispatcher ty then set (dispatchers s) \<union> {H} - {0} else set (dispatchers s) - {0})"
      using ds list_add_set [OF ne] by simp
    have ty: "set (dispatchers s2) - {0} = {H. allocated s2 H \<and> (\<exists>el. rd_elem H s2 = Some el \<and> vui_is_dispatcher (elem_type el))}"
    proof -
      have old: "set (dispatchers s) - {0} = {H. allocated s H \<and> (\<exists>el. rd_elem H s = Some el \<and> vui_is_dispatcher (elem_type el))}"
        using t by (simp add: ui_tables_def)
      have "{K. allocated s2 K \<and> (\<exists>el. rd_elem K s2 = Some el \<and> vui_is_dispatcher (elem_type el))} =
          {K. allocated s K \<and> (\<exists>el. rd_elem K s = Some el \<and> vui_is_dispatcher (elem_type el))} \<union> (if vui_is_dispatcher ty then {H} else {})"
        using r al notal el(2) by (auto split: if_splits)
      then show ?thesis using old dset H0 by auto
    qed
    have d0: "dispatchers s2 = [0] \<or> dispatchers s2 \<noteq> [] \<and> 0 \<notin> set (dispatchers s2)"
      using t ds H0 list_add_nonzero [of "dispatchers s" H] by (auto simp: ui_tables_def)
    have "ui_tables s2" unfolding ui_tables_def
    proof (intro conjI)
      show "length (handle_table s2) = 512" "1 \<le> unat (handle_next s2)" "unat (handle_next s2) \<le> 512"
        using D(3,5) s1 n1 n by auto
      show "\<forall>H. allocated s2 H \<longrightarrow> rd_elem H s2 \<noteq> None" using t al r by (auto simp: ui_tables_def)
      show "\<forall>H el. rd_elem H s2 = Some el \<longrightarrow> (H = 0 \<or> allocated s2 H) \<and> elem_handle el = H \<and> chain_ok s2 (children el)"
      proof (intro allI impI)
        fix K e assume "rd_elem K s2 = Some e"
        then have "K = H \<and> e = el \<or> rd_elem K s = Some e" using r by (simp split: if_splits)
        moreover have "rd_elem K s = Some e \<Longrightarrow> (K = 0 \<or> allocated s K) \<and> elem_handle e = K \<and> chain_ok s (children e)"
          using t by (simp add: ui_tables_def)
        moreover have "chain_ok s2 [0]" by (simp add: chain_ok_def)
        ultimately show "(K = 0 \<or> allocated s2 K) \<and> elem_handle e = K \<and> chain_ok s2 (children e)"
          using el ch al by auto
      qed
      show "last_hover s2 = 0 \<or> allocated s2 (last_hover s2)" using t D(4) s1(2) al by (auto simp: ui_tables_def)
    qed (use ty d0 in auto)
    moreover have "by_priority s2" if "\<not> vui_is_dispatcher ty"
    proof -
      have m: "map (prio_of s2) (dispatchers s) = map (prio_of s) (dispatchers s)"
      proof (rule map_cong [OF refl])
        fix K assume "K \<in> set (dispatchers s)"
        then have "K = 0 \<or> allocated s K" using t by (auto simp: ui_tables_def)
        then have "K \<noteq> H" using notal H0 by auto
        then show "prio_of s2 K = prio_of s K" by (simp add: prio_of_def r)
      qed
      have "dispatchers s2 = dispatchers s" using ds that by simp
      then show ?thesis using p m unfolding by_priority_def by (simp only:)
    qed
    ultimately show ?thesis using r al n H D(4) s1(2) by auto
  qed
  then show "ui_tables s2" "\<not> vui_is_dispatcher ty \<Longrightarrow> by_priority s2" "H = 0 \<or> allocated s2 H" "unat H < 512"
    "\<And>K. rd_elem K s2 = (if K = H then Some el else rd_elem K s)" "last_hover s2 = last_hover s" by blast+
qed

lemma wr_inv:
  assumes "ui_inv s" "wr_elem H f s = Some s'"
    and "\<And>el. elem_handle (f el) = elem_handle el \<and> elem_type (f el) = elem_type el \<and> children (f el) = children el \<and> priority (f el) = priority el"
  shows "ui_inv s'"
proof -
  have t: "ui_tables s" using assms(1) by (simp add: ui_inv_def)
  have "chain_ok s (children el)" if "rd_elem H s = Some el" for el using t that by (simp add: ui_tables_def)
  then show ?thesis using tables_wr [OF t assms(2)] priority_wr [OF _ assms(2)] assms(1,3) by (auto simp: ui_inv_def)
qed

lemma wr_last_hover: "wr_elem H f s = Some s' \<Longrightarrow> last_hover s' = last_hover s"
  by (erule wr_elem_SomeD) simp

lemma add_to_parent_keeps:
  assumes t: "ui_tables s" and a: "vui_add_to_parent parent child s = Some s'"
  shows "ui_tables s'" "by_priority s \<Longrightarrow> by_priority s'"
    "rd_elem K s = Some el \<Longrightarrow> \<exists>e. rd_elem K s' = Some e \<and> elem_type e = elem_type el \<and> ops e = ops el \<and> is_hover e = is_hover el"
    "rd_elem K s = None \<Longrightarrow> rd_elem K s' = None" "last_hover s' = last_hover s"
proof -
  have "ui_tables s' \<and> (by_priority s \<longrightarrow> by_priority s') \<and> last_hover s' = last_hover s \<and>
    (\<forall>el. rd_elem K s = Some el \<longrightarrow> (\<exists>e. rd_elem K s' = Some e \<and> elem_type e = elem_type el \<and> ops e = ops el \<and> is_hover e = is_hover el))
    \<and> (rd_elem K s = None \<longrightarrow> rd_elem K s' = None)"
  proof (cases "s' = s")
    case False
    then obtain p c s1 where p: "rd_elem parent s = Some p" "rd_elem child s = Some c"
      and s1: "wr_elem parent (\<lambda>p. p\<lparr>children := vui_handle_list_add (elem_handle c) (children p)\<rparr>) s = Some s1"
      and s2: "wr_elem child (\<lambda>c. c\<lparr>elem_parent := elem_handle p\<rparr>) s1 = Some s'"
      using a by (auto simp: vui_add_to_parent_def rd_elem_def split: bind_splits option.splits)
    have c: "elem_handle c = 0 \<or> allocated s (elem_handle c)"
      using p(2) t by (auto simp: ui_tables_def)
    obtain d1 where r1: "rd_elem parent s = Some d1"
      "\<And>K. rd_elem K s1 = (if K = parent then Some (d1\<lparr>children := vui_handle_list_add (elem_handle c) (children d1)\<rparr>) else rd_elem K s)"
      "last_hover s1 = last_hover s"
      using wr_elem_SomeD [OF s1] by metis
    obtain d2 where r2: "rd_elem child s1 = Some d2"
      "\<And>K. rd_elem K s' = (if K = child then Some (d2\<lparr>elem_parent := elem_handle p\<rparr>) else rd_elem K s1)"
      "last_hover s' = last_hover s1"
      using wr_elem_SomeD [OF s2] by metis
    have "ui_tables s1" using t c by (intro tables_wr [OF t s1]) (auto simp: ui_tables_def intro: list_add_chain)
    then have "ui_tables s'" by (rule tables_wr [OF _ s2]) (use \<open>ui_tables s1\<close> in \<open>auto simp: ui_tables_def\<close>)
    moreover have "by_priority s \<longrightarrow> by_priority s'" using priority_wr [OF _ s1] priority_wr [OF _ s2] by simp
    ultimately show ?thesis using r1 r2 by auto
  qed (use t in auto)
  then show "ui_tables s'" "by_priority s \<Longrightarrow> by_priority s'"
    "rd_elem K s = Some el \<Longrightarrow> \<exists>e. rd_elem K s' = Some e \<and> elem_type e = elem_type el \<and> ops e = ops el \<and> is_hover e = is_hover el"
    "rd_elem K s = None \<Longrightarrow> rd_elem K s' = None" "last_hover s' = last_hover s" by blast+
qed

lemma cleanup_keeps:
  assumes t: "ui_tables s" and d: "rd_elem H s = Some el" and p: "vui_is_dispatcher (elem_type el) \<or> by_priority s"
    and c: "vui_create_cleanup H s = Some s'"
  shows "ui_inv s'" "\<And>K. map_option ops (rd_elem K s') = map_option ops (rd_elem K s)"
    "\<And>K. map_option is_hover (rd_elem K s') = map_option is_hover (rd_elem K s)" "last_hover s' = last_hover s"
proof -
  obtain s1 where s1: "wr_elem H (\<lambda>e. e\<lparr>children := [0]\<rparr>) s = Some s1"
    and s': "(if vui_is_dispatcher (elem_type el) then do {
           ds \<leftarrow> vui_sort_list_by_priority (dispatchers s1) s1; Some (s1\<lparr>dispatchers := ds\<rparr>) } else Some s1) = Some s'"
    using c d by (auto simp: vui_create_cleanup_def rd_elem_def split: bind_splits option.splits)
  have t1: "ui_tables s1" by (rule tables_wr [OF t s1]) (simp add: chain_ok_def)
  obtain d1 where r1: "rd_elem H s = Some d1" "\<And>K. rd_elem K s1 = (if K = H then Some (d1\<lparr>children := [0]\<rparr>) else rd_elem K s)"
      "last_hover s1 = last_hover s"
    using wr_elem_SomeD [OF s1] by metis
  have "ui_inv s' \<and> (\<forall>K. rd_elem K s' = rd_elem K s1) \<and> last_hover s' = last_hover s1"
  proof (cases "vui_is_dispatcher (elem_type el)")
    case False
    then have "by_priority s1" using p priority_wr [OF _ s1] by simp
    then show ?thesis using False s' t1 by (auto simp: ui_inv_def)
  next
    case True
    obtain ds where ds: "vui_sort_list_by_priority (dispatchers s1) s1 = Some ds" "s' = s1\<lparr>dispatchers := ds\<rparr>"
      using True s' by (auto split: bind_splits)
    have same: "rd_elem K s' = rd_elem K s1" "allocated s' = allocated s1" "chain_ok s' = chain_ok s1" "prio_of s' = prio_of s1" for K
      using ds(2) by (simp_all add: rd_elem_def vui_get_handle_data_def allocated_def chain_ok_def prio_of_def fun_eq_iff)
    have "ds = sort_key (prio_of s1) (dispatchers s1)"
    proof (cases "dispatchers s1 = [0] \<or> length (dispatchers s1) = 1")
      case True
      then show ?thesis using ds(1) by (cases "dispatchers s1"; cases "tl (dispatchers s1)") (auto simp: vui_sort_list_by_priority_def)
    next
      case False
      then have "0 \<notin> set (dispatchers s1)" "\<forall>h\<in>set (dispatchers s1). map_option priority (rd_elem h s1) = Some (prio_of s1 h)"
        using t1 by (auto simp: ui_tables_def prio_of_def)
      then show ?thesis using sort_passes_sorts [of "dispatchers s1" "\<lambda>H. map_option priority (rd_elem H s1)" "prio_of s1"] ds(1)
        by (auto simp: vui_sort_list_by_priority_def split: list.splits)
    qed
    then have e: "dispatchers s' = sort_key (prio_of s1) (dispatchers s1)" using ds(2) by simp
    have "dispatchers s' = [0] \<or> dispatchers s' \<noteq> [] \<and> 0 \<notin> set (dispatchers s')"
    proof (cases "dispatchers s1 = [0]")
      case False
      then have "dispatchers s1 \<noteq> []" "0 \<notin> set (dispatchers s1)" using t1 by (auto simp: ui_tables_def)
      then show ?thesis unfolding e by (metis set_empty set_sort)
    qed (simp add: e)
    moreover have "set (dispatchers s') = set (dispatchers s1)" by (simp add: e)
    ultimately have "ui_tables s'"
      using t1 ds(2) unfolding ui_tables_def same(1-3) by auto
    moreover have "by_priority s'" by (simp add: by_priority_def e same(4))
    ultimately show ?thesis using same ds(2) by (simp add: ui_inv_def)
  qed
  then show "ui_inv s'" "\<And>K. map_option ops (rd_elem K s') = map_option ops (rd_elem K s)"
    "\<And>K. map_option is_hover (rd_elem K s') = map_option is_hover (rd_elem K s)" "last_hover s' = last_hover s"
    using r1 by auto
qed


section \<open>Highlighting\<close>

definition app_only :: "vui_handler option \<Rightarrow> bool" where
  "app_only h \<longleftrightarrow> (case h of None \<Rightarrow> True | Some (App n) \<Rightarrow> True | _ \<Rightarrow> False)"

text \<open>The default handlers of an element are those of a button, or absent; the others belong to applications.\<close>

definition ops_ok :: "vui_operations \<Rightarrow> bool" where
  "ops_ok o' \<longleftrightarrow> (default_on_mouse_enter o' = None \<and> default_on_mouse_exit o' = None \<and> default_on_mouse_down o' = None
        \<and> default_on_mouse_up o' = None \<and> default_on_mouse_move o' = None
      \<or> default_on_mouse_enter o' = Some Button_enter \<and> default_on_mouse_exit o' = Some Button_exit
        \<and> default_on_mouse_down o' = Some Button_down \<and> default_on_mouse_up o' = Some Button_up
        \<and> default_on_mouse_move o' = Some Button_move)
     \<and> app_only (event_handler o') \<and> app_only (on_mouse_down o') \<and> app_only (on_mouse_up o')"

definition hover_of :: "vui_core \<Rightarrow> u32 \<Rightarrow> bool" where
  "hover_of s H = (case rd_elem H s of Some el \<Rightarrow> is_hover el | None \<Rightarrow> False)"

definition ops_of :: "vui_core \<Rightarrow> u32 \<Rightarrow> vui_operations option" where
  "ops_of s H = map_option ops (rd_elem H s)"

text \<open>An element is highlighted only while it is the last one the mouse entered, and it is a button.\<close>

definition hover_inv :: "vui_core \<Rightarrow> bool" where
  "hover_inv s \<longleftrightarrow> (\<forall>H o'. ops_of s H = Some o' \<longrightarrow> ops_ok o')
     \<and> (\<forall>H. hover_of s H \<longrightarrow> H = last_hover s \<and> H \<noteq> 0 \<and> (\<exists>o'. ops_of s H = Some o' \<and> default_on_mouse_exit o' = Some Button_exit))"

lemma hover_inv_cong:
  "ops_of s' = ops_of s \<Longrightarrow> hover_of s' = hover_of s \<Longrightarrow> last_hover s' = last_hover s \<Longrightarrow> hover_inv s' = hover_inv s"
  by (simp add: hover_inv_def)

lemma wr_hover:
  assumes "wr_elem H f s = Some s'" "\<And>el. is_hover (f el) = is_hover el" "\<And>el. ops (f el) = ops el"
  shows "hover_of s' = hover_of s" "ops_of s' = ops_of s" "last_hover s' = last_hover s"
proof -
  obtain d where d: "rd_elem H s = Some d" "\<And>K. rd_elem K s' = (if K = H then Some (f d) else rd_elem K s)"
    "last_hover s' = last_hover s"
    using wr_elem_SomeD [OF assms(1)] by metis
  then show "hover_of s' = hover_of s" "ops_of s' = ops_of s" "last_hover s' = last_hover s"
    using assms(2,3) by (auto simp: hover_of_def ops_of_def fun_eq_iff)
qed

lemma create_keeps:
  assumes inv: "ui_inv s" "hover_inv s"
    and a: "vui_allocate_handle ty s = Some (H, s1)" and d: "vui_set_handle_data H el s1 = Some s2"
    and el: "elem_handle el = H" "elem_type el = ty" "children el = [0]" "ops_ok (ops el)" "\<not> is_hover el"
    and p: "s3 = s2 \<or> \<not> vui_is_dispatcher ty \<and> vui_add_to_parent parent H s2 = Some s3"
    and c: "vui_create_cleanup H s3 = Some s'"
  shows "ui_inv s' \<and> hover_inv s'"
proof -
  note N = new_element [OF inv(1) a d el(1-3)]
  have s3: "ui_tables s3" "by_priority s2 \<Longrightarrow> by_priority s3" "last_hover s3 = last_hover s2"
    "hover_of s3 = hover_of s2" "ops_of s3 = ops_of s2" "\<exists>e. rd_elem H s3 = Some e \<and> elem_type e = ty"
  proof -
    have same: "map_option (\<lambda>e. (elem_type e, ops e, is_hover e)) (rd_elem K s3)
        = map_option (\<lambda>e. (elem_type e, ops e, is_hover e)) (rd_elem K s2)" for K
    proof (cases "s3 = s2")
      case False
      then have "vui_add_to_parent parent H s2 = Some s3" using p by simp
      then show ?thesis using add_to_parent_keeps(3,4) [OF N(1)] by (cases "rd_elem K s2") fastforce+
    qed simp
    show "hover_of s3 = hover_of s2" "ops_of s3 = ops_of s2"
    proof -
      have "hover_of s3 K = hover_of s2 K \<and> ops_of s3 K = ops_of s2 K" for K
        using same [of K] by (cases "rd_elem K s3"; cases "rd_elem K s2") (simp_all add: hover_of_def ops_of_def)
      then show "hover_of s3 = hover_of s2" "ops_of s3 = ops_of s2" by auto
    qed
    show "\<exists>e. rd_elem H s3 = Some e \<and> elem_type e = ty"
      using same [of H] N(3) el(2) by auto
  qed (use p add_to_parent_keeps(1,2,5) [OF N(1)] N(1) in auto)
  obtain e where e: "rd_elem H s3 = Some e" "elem_type e = ty" using s3(6) by blast
  have bp: "vui_is_dispatcher (elem_type e) \<or> by_priority s3" using e(2) N(2) s3(2) by auto
  note C = cleanup_keeps [OF s3(1) e(1) bp c]
  have hov: "hover_of s' K = (if K = H then False else hover_of s K)" for K
  proof -
    have "hover_of s' K = hover_of s3 K"
      using C(3) [of K] by (cases "rd_elem K s'"; cases "rd_elem K s3") (auto simp: hover_of_def)
    then show ?thesis using s3(4) N(6) el(5) by (simp add: hover_of_def)
  qed
  have op: "ops_of s' K = (if K = H then Some (ops el) else ops_of s K)" for K
    using C(2) [of K] s3(5) N(6) by (simp add: ops_of_def fun_eq_iff)
  have "hover_of s H \<Longrightarrow> H \<noteq> 0 \<and> allocated s H"
    using inv by (auto simp: hover_inv_def ui_inv_def ui_tables_def)
  then have "hover_inv s'"
    using inv(2) el(4) hov op C(4) s3(3) N(7) by (auto simp: hover_inv_def split: if_splits)
  then show ?thesis using C(1) by simp
qed


section \<open>The machine of the interface\<close>

text \<open>
  The functions that change the interface; the memory of a console is assumed
  cleared, and the mouse reports presses, releases and movements.
\<close>

inductive ui_step :: "vui_core \<Rightarrow> vui_core \<Rightarrow> bool" where
  window: "vui_window_create x y w h flags s = Some (H, s') \<Longrightarrow> ui_step s s'"
| desktop: "vui_desktop_create x y w h s = Some (H, s') \<Longrightarrow> ui_step s s'"
| menubar: "vui_menubar_create s = Some (H, s') \<Longrightarrow> ui_step s s'"
| menu: "vui_menu_create name s = Some (H, s') \<Longrightarrow> ui_step s s'"
| label: "vui_label_create x y parent s = Some (H, s') \<Longrightarrow> ui_step s s'"
| button: "vui_button_create txt x y w h parent s = Some (H, s') \<Longrightarrow> ui_step s s'"
| console: "vui_console_create zero_element parent s = Some (H, s') \<Longrightarrow> ui_step s s'"
| name: "vui_handle_set_name H name s = Some s' \<Longrightarrow> ui_step s s'"
| handler: "app_only h \<Longrightarrow> vui_set_event_handler H ty h s = Some s' \<Longrightarrow> ui_step s s'"
| event: "ty \<notin> {VUI_EVENT_MOUSE_ENTER, VUI_EVENT_MOUSE_EXIT} \<Longrightarrow> vui_external_event_handler ty x y lmb rmb s = Some s'
    \<Longrightarrow> ui_step s s'"

inductive ui_reachable :: "vui_core \<Rightarrow> bool" where
  init: "ui_reachable (vui_init fb_mem w h)"
| step: "ui_reachable s \<Longrightarrow> ui_step s s' \<Longrightarrow> ui_reachable s'"

lemma zero_ops_ok [simp]: "ops_ok zero_operations" "ops_ok button_operations"
  by (simp_all add: ops_ok_def zero_operations_def button_operations_def app_only_def)

lemma zero_element_fields [simp]: "\<not> is_hover zero_element" "ops zero_element = zero_operations" "children zero_element = [0]"
  by (simp_all add: zero_element_def)

definition ui_ok :: "vui_core \<Rightarrow> bool" where
  "ui_ok s \<longleftrightarrow> ui_inv s \<and> hover_inv s"

lemma create_direct:
  "vui_allocate_handle ty s = Some (H, s1) \<Longrightarrow> vui_set_handle_data H el s1 = Some s2 \<Longrightarrow> vui_create_cleanup H s2 = Some s' \<Longrightarrow>
   ui_ok s \<Longrightarrow> elem_handle el = H \<Longrightarrow> elem_type el = ty \<Longrightarrow> children el = [0] \<Longrightarrow> ops_ok (ops el) \<Longrightarrow> \<not> is_hover el \<Longrightarrow> ui_ok s'"
  using create_keeps [of s ty H s1 el s2 s2] by (simp add: ui_ok_def)

lemma create_child:
  "vui_allocate_handle ty s = Some (H, s1) \<Longrightarrow> vui_set_handle_data H el s1 = Some s2 \<Longrightarrow> vui_add_to_parent parent H s2 = Some s3 \<Longrightarrow>
   vui_create_cleanup H s3 = Some s' \<Longrightarrow> ui_ok s \<Longrightarrow> elem_handle el = H \<Longrightarrow> elem_type el = ty \<Longrightarrow> children el = [0] \<Longrightarrow>
   ops_ok (ops el) \<Longrightarrow> \<not> is_hover el \<Longrightarrow> \<not> vui_is_dispatcher ty \<Longrightarrow> ui_ok s'"
  using create_keeps [of s ty H s1 el s2 s3 parent s'] by (simp add: ui_ok_def)

lemma creations_keep:
  assumes "ui_ok s"
  shows "vui_window_create x y w h flags s = Some (H, s') \<Longrightarrow> ui_ok s'"
    "vui_desktop_create x y w h s = Some (H, s') \<Longrightarrow> ui_ok s'"
    "vui_menubar_create s = Some (H, s') \<Longrightarrow> ui_ok s'"
    "vui_menu_create name s = Some (H, s') \<Longrightarrow> ui_ok s'"
    "vui_label_create x y parent s = Some (H, s') \<Longrightarrow> ui_ok s'"
    "vui_button_create txt x y w h parent s = Some (H, s') \<Longrightarrow> ui_ok s'"
    "vui_console_create zero_element parent s = Some (H, s') \<Longrightarrow> ui_ok s'"
proof -
  show "vui_window_create x y w h flags s = Some (H, s') \<Longrightarrow> ui_ok s'"
    by (clarsimp simp: vui_window_create_def Let_def split: bind_splits prod.splits)
      (erule (2) create_direct; simp add: assms)
  show "vui_desktop_create x y w h s = Some (H, s') \<Longrightarrow> ui_ok s'"
    by (clarsimp simp: vui_desktop_create_def split: bind_splits prod.splits)
      (erule (2) create_direct; simp add: assms)
  show "vui_menubar_create s = Some (H, s') \<Longrightarrow> ui_ok s'"
    by (clarsimp simp: vui_menubar_create_def split: bind_splits prod.splits)
      (erule (2) create_direct; simp add: assms)
  show "vui_menu_create name s = Some (H, s') \<Longrightarrow> ui_ok s'"
    by (clarsimp simp: vui_menu_create_def split: bind_splits prod.splits if_splits)
      (erule (2) create_direct; simp add: assms)
  show "vui_label_create x y parent s = Some (H, s') \<Longrightarrow> ui_ok s'"
    by (clarsimp simp: vui_label_create_def split: bind_splits prod.splits)
      (erule (3) create_child; simp add: assms vui_is_dispatcher_def)
  show "vui_button_create txt x y w h parent s = Some (H, s') \<Longrightarrow> ui_ok s'"
    by (clarsimp simp: vui_button_create_def split: bind_splits prod.splits if_splits)
      (erule (3) create_child; simp add: assms vui_is_dispatcher_def)
  show "vui_console_create zero_element parent s = Some (H, s') \<Longrightarrow> ui_ok s'"
    by (clarsimp simp: vui_console_create_def split: bind_splits prod.splits)
      (erule (3) create_child; simp add: assms vui_is_dispatcher_def)
qed


section \<open>Events\<close>

lemma rd_elem_update [simp]:
  "rd_elem H (s\<lparr>app_calls := c\<rparr>) = rd_elem H s" "rd_elem H (s\<lparr>last_hover := h\<rparr>) = rd_elem H s"
  by (simp_all add: rd_elem_def vui_get_handle_data_def)

lemma ui_inv_update:
  "ui_inv (s\<lparr>app_calls := c\<rparr>) = ui_inv s"
  "ui_inv s \<Longrightarrow> h = 0 \<or> allocated s h \<Longrightarrow> ui_inv (s\<lparr>last_hover := h\<rparr>)"
proof -
  have a: "allocated (s\<lparr>app_calls := c\<rparr>) = allocated s" "allocated (s\<lparr>last_hover := h\<rparr>) = allocated s"
    by (simp_all add: allocated_def fun_eq_iff)
  have b: "chain_ok (s\<lparr>app_calls := c\<rparr>) = chain_ok s" "chain_ok (s\<lparr>last_hover := h\<rparr>) = chain_ok s"
    by (simp_all add: chain_ok_def a fun_eq_iff)
  have c: "prio_of (s\<lparr>app_calls := c\<rparr>) = prio_of s" "prio_of (s\<lparr>last_hover := h\<rparr>) = prio_of s"
    by (simp_all add: prio_of_def fun_eq_iff)
  show "ui_inv (s\<lparr>app_calls := c\<rparr>) = ui_inv s"
    unfolding ui_inv_def ui_tables_def by_priority_def a b c by simp
  assume "ui_inv s" "h = 0 \<or> allocated s h"
  then show "ui_inv (s\<lparr>last_hover := h\<rparr>)"
    unfolding ui_inv_def ui_tables_def by_priority_def a b c by simp
qed

definition same_ui :: "vui_core \<Rightarrow> vui_core \<Rightarrow> bool" where
  "same_ui s s' \<longleftrightarrow> ui_inv s' \<and> ops_of s' = ops_of s \<and> last_hover s' = last_hover s"

lemma same_ui_call: "same_ui s s' \<Longrightarrow> same_ui s (call_app h e s') \<and> hover_of (call_app h e s') = hover_of s'"
  by (simp add: same_ui_def call_app_def ui_inv_update ops_of_def hover_of_def fun_eq_iff split: option.split vui_handler.split)

lemma wr_same_ui:
  assumes "ui_inv s" "rd_elem H s \<noteq> None"
    and f: "\<And>el. elem_handle (f el) = elem_handle el \<and> elem_type (f el) = elem_type el \<and> children (f el) = children el
      \<and> priority (f el) = priority el \<and> ops (f el) = ops el"
  shows "\<exists>s'. wr_elem H f s = Some s' \<and> same_ui s s'
    \<and> hover_of s' = (\<lambda>K. if K = H then is_hover (f (the (rd_elem H s))) else hover_of s K) \<and> rd_elem H s' \<noteq> None"
proof -
  obtain d where d: "rd_elem H s = Some d" using assms(2) by auto
  obtain s' where s': "wr_elem H f s = Some s'" using wr_elem_total [OF d] by blast
  obtain "\<And>K. rd_elem K s' = (if K = H then Some (f d) else rd_elem K s)" "last_hover s' = last_hover s"
    using wr_elem_SomeD [OF s'] d by (metis option.inject)
  moreover have "ui_inv s'" by (rule wr_inv [OF assms(1) s']) (simp add: f)
  ultimately show ?thesis using s' d f by (auto simp: same_ui_def ops_of_def hover_of_def fun_eq_iff)
qed

lemma call_keeps:
  assumes "ui_inv s" "rd_elem (ev_H e) s = Some el"
  shows "\<exists>s'. call_handler h e s = Some s' \<and> same_ui s s' \<and> hover_of s' = (\<lambda>K. if K = ev_H e \<and> h = Some Button_enter then True
     else if K = ev_H e \<and> h = Some Button_exit then False else hover_of s K)"
proof -
  have hov: "hover_of s (ev_H e) = is_hover el" using assms(2) by (simp add: hover_of_def)
  have app: "same_ui s (call_app h e s) \<and> hover_of (call_app h e s) = hover_of s"
    using same_ui_call [of s s h e] assms(1) by (simp add: same_ui_def)
  note w = wr_same_ui [OF assms(1), of "ev_H e"]
  show ?thesis
  proof (cases h)
    case (Some f)
    show ?thesis
    proof (cases f)
      case Button_down
      obtain s' where s': "wr_elem (ev_H e) (\<lambda>b. b\<lparr>is_active := True\<rparr>) s = Some s'" "same_ui s s'"
          "hover_of s' = (\<lambda>K. if K = ev_H e then is_hover el else hover_of s K)" "rd_elem (ev_H e) s' \<noteq> None"
        using w [of "\<lambda>b. b\<lparr>is_active := True\<rparr>"] assms(2) by auto
      then show ?thesis using Some Button_down same_ui_call [OF s'(2)] hov
        by (auto simp: call_handler_def vui_button_on_mouse_down_def)
    next
      case Button_up
      obtain s' where s': "wr_elem (ev_H e) (\<lambda>b. b\<lparr>is_active := False\<rparr>) s = Some s'" "same_ui s s'"
          "hover_of s' = (\<lambda>K. if K = ev_H e then is_hover el else hover_of s K)" "rd_elem (ev_H e) s' \<noteq> None"
        using w [of "\<lambda>b. b\<lparr>is_active := False\<rparr>"] assms(2) by auto
      then show ?thesis using Some Button_up same_ui_call [OF s'(2)] hov
        by (auto simp: call_handler_def vui_button_on_mouse_up_def)
    next
      case Button_enter
      obtain s' where "wr_elem (ev_H e) (\<lambda>b. b\<lparr>is_hover := True\<rparr>) s = Some s'" "same_ui s s'"
          "hover_of s' = (\<lambda>K. if K = ev_H e then True else hover_of s K)"
        using w [of "\<lambda>b. b\<lparr>is_hover := True\<rparr>"] assms(2) by auto
      then show ?thesis using Some Button_enter by (simp add: call_handler_def vui_button_on_mouse_enter_def)
    next
      case Button_exit
      obtain s' where "wr_elem (ev_H e) (\<lambda>b. b\<lparr>is_hover := False, is_active := False\<rparr>) s = Some s'" "same_ui s s'"
          "hover_of s' = (\<lambda>K. if K = ev_H e then False else hover_of s K)"
        using w [of "\<lambda>b. b\<lparr>is_hover := False, is_active := False\<rparr>"] assms(2) by auto
      then show ?thesis using Some Button_exit by (simp add: call_handler_def vui_button_on_mouse_exit_def)
    qed (use Some app in \<open>simp_all add: call_handler_def\<close>)
  qed (use app in \<open>simp add: call_handler_def\<close>)
qed

text \<open>The search finds the first element of the chain at the position.\<close>

lemma find_first:
  assumes "\<forall>h\<in>set hs. h = 0 \<or> (\<exists>el. rd_elem h s = Some el \<and> elem_handle el = h)"
  shows "\<exists>H. vui_find_handler_for_event hs e s = Some H \<and>
    (if H = 0 then 0 \<notin> set hs \<longrightarrow> (\<forall>h\<in>set hs. \<not> hit e (the (rd_elem h s)))
     else \<exists>as bs. hs = as @ H # bs \<and> hit e (the (rd_elem H s)) \<and> (\<forall>a\<in>set as. \<not> hit e (the (rd_elem a s))))"
  using assms
proof (induction hs)
  case (Cons h hs)
  show ?case
  proof (cases "h = 0")
    case False
    obtain el where el: "rd_elem h s = Some el" "elem_handle el = h" using Cons.prems False by auto
    obtain H where H: "vui_find_handler_for_event hs e s = Some H"
      "if H = 0 then 0 \<notin> set hs \<longrightarrow> (\<forall>h\<in>set hs. \<not> hit e (the (rd_elem h s)))
       else \<exists>as bs. hs = as @ H # bs \<and> hit e (the (rd_elem H s)) \<and> (\<forall>a\<in>set as. \<not> hit e (the (rd_elem a s)))"
      using Cons by auto
    show ?thesis
    proof (cases "hit e el")
      case True
      have "\<exists>as bs. h # hs = as @ h # bs \<and> hit e (the (rd_elem h s)) \<and> (\<forall>a\<in>set as. \<not> hit e (the (rd_elem a s)))"
        by (rule exI [of _ "[]"]) (simp add: el(1) True)
      then show ?thesis using el False True by simp
    next
      case miss: False
      show ?thesis
      proof (cases "H = 0")
        case True
        then show ?thesis using H el False miss by auto
      next
        case nz: False
        then obtain as bs where "hs = as @ H # bs" "hit e (the (rd_elem H s))" "\<forall>a\<in>set as. \<not> hit e (the (rd_elem a s))"
          using H(2) by auto
        then have "\<exists>as bs. h # hs = as @ H # bs \<and> hit e (the (rd_elem H s)) \<and> (\<forall>a\<in>set as. \<not> hit e (the (rd_elem a s)))"
          using el(1) miss by (intro exI [of _ "h # as"] exI [of _ bs]) auto
        then show ?thesis using H(1) el False miss nz by simp
      qed
    qed
  qed simp
qed simp

lemma ui_invD:
  assumes "ui_inv s"
  shows "allocated s H \<Longrightarrow> \<exists>el. rd_elem H s = Some el \<and> elem_handle el = H \<and> chain_ok s (children el)"
    "\<forall>h\<in>set (dispatchers s). h = 0 \<or> allocated s h" "last_hover s = 0 \<or> allocated s (last_hover s)"
    "H \<noteq> 0 \<Longrightarrow> H \<in> set (dispatchers s) \<longleftrightarrow> allocated s H \<and> (\<exists>el. rd_elem H s = Some el \<and> vui_is_dispatcher (elem_type el))"
  using assms by (fastforce simp: ui_inv_def ui_tables_def)+

lemma find_allocated:
  assumes "ui_inv s" "\<forall>h\<in>set hs. h = 0 \<or> allocated s h"
  shows "\<exists>H. vui_find_handler_for_event hs e s = Some H \<and> (H = 0 \<or> allocated s H)"
proof -
  have "\<forall>h\<in>set hs. h = 0 \<or> (\<exists>el. rd_elem h s = Some el \<and> elem_handle el = h)"
    using assms(2) ui_invD(1) [OF assms(1)] by blast
  from find_first [OF this, of e] show ?thesis using assms(2) by (auto split: if_splits)
qed

lemma send_event_keeps:
  assumes ok: "ui_ok s" and e: "allocated s (ev_H e)" "ev_type e \<noteq> VUI_EVENT_MOUSE_ENTER" "ev_type e \<noteq> VUI_EVENT_MOUSE_EXIT"
  shows "\<exists>e' s'. vui_send_event (ev_H e) e s = Some (e', s') \<and> ui_ok s' \<and> ops_of s' = ops_of s \<and> (\<exists>el. rd_elem (ev_H e') s' = Some el)"
proof -
  have inv: "ui_inv s" and hov: "hover_inv s" using ok by (simp_all add: ui_ok_def)
  obtain el where el: "rd_elem (ev_H e) s = Some el" using ui_invD(1) [OF inv e(1)] by blast
  then have get: "vui_get_handle_data (ev_H e) s = Some (Some el)" by (auto simp: rd_elem_def split: bind_splits)
  have ok_ops: "ops_ok (ops x)" if "rd_elem K s = Some x" for K x using hov that by (auto simp: hover_inv_def ops_of_def)
  have kept: "\<exists>x. rd_elem K s' = Some x" if "ops_of s' = ops_of s" "rd_elem K s = Some y" for K s' y
    using fun_cong [OF that(1), of K] that(2) by (auto simp: ops_of_def)
  consider (quiet) "ev_type e \<noteq> VUI_EVENT_MOUSE_MOVE \<or> last_hover s = ev_H e" | (enter) "ev_type e = VUI_EVENT_MOUSE_MOVE" "last_hover s = 0"
    | (leave) "ev_type e = VUI_EVENT_MOUSE_MOVE" "last_hover s \<noteq> 0" "last_hover s \<noteq> ev_H e"
    by blast
  then show ?thesis
  proof cases
    case quiet
    have "default_handler (ev_type e) (Some el) \<notin> {None, Some (Some Button_enter), Some (Some Button_exit)}"
      using ok_ops [OF el] e(2,3) by (auto simp: default_handler_def ops_ok_def split: if_splits)
    then obtain h where h: "default_handler (ev_type e) (Some el) = Some h" "h \<noteq> Some Button_enter" "h \<noteq> Some Button_exit"
      by auto
    obtain s' where s': "call_handler h e s = Some s'" "same_ui s s'" "hover_of s' = hover_of s"
      using call_keeps [OF inv el, of h] h by auto
    have nz: "ev_H e \<noteq> 0" using e(1) by (simp add: allocated_def)
    have "vui_send_event (ev_H e) e s = Some (e, s')"
      using quiet get h s'(1) nz by (auto simp: vui_send_event_def)
    moreover have "ui_ok s'" using s' hov hover_inv_cong [of s' s] by (auto simp: ui_ok_def same_ui_def)
    ultimately show ?thesis using s'(2) kept [of s' "ev_H e"] el by (auto simp: same_ui_def)
  next
    case enter
    let ?s = "s\<lparr>last_hover := ev_H e\<rparr>" and ?e = "e\<lparr>ev_type := VUI_EVENT_MOUSE_ENTER\<rparr>" and ?h = "default_on_mouse_enter (ops el)"
    have none: "\<not> hover_of s K" for K using hov enter(2) by (auto simp: hover_inv_def)
    have inv1: "ui_inv ?s" using ui_inv_update(2) [OF inv] e(1) by simp
    obtain s' where s': "call_handler ?h ?e ?s = Some s'" "same_ui ?s s'"
        "hover_of s' = (\<lambda>K. if K = ev_H e \<and> ?h = Some Button_enter then True else if K = ev_H e \<and> ?h = Some Button_exit then False else hover_of ?s K)"
      using call_keeps [OF inv1, of ?e el ?h] el by auto
    have ops: "ops_of s' = ops_of s" using s'(2) by (simp add: same_ui_def ops_of_def fun_eq_iff)
    have "hover_of ?s K = hover_of s K" for K by (simp add: hover_of_def)
    then have "hover_of s' K \<Longrightarrow> K = ev_H e \<and> ?h = Some Button_enter" for K using s'(3) none by (auto split: if_splits)
    moreover have "last_hover s' = ev_H e" using s'(2) by (simp add: same_ui_def)
    moreover have "?h = Some Button_enter \<Longrightarrow> default_on_mouse_exit (ops el) = Some Button_exit"
      using ok_ops [OF el] by (auto simp: ops_ok_def)
    moreover have "ev_H e \<noteq> 0" using e(1) by (simp add: allocated_def)
    ultimately have "hover_inv s'" using hov ops el by (auto simp: hover_inv_def ops_of_def)
    moreover have "vui_send_event (ev_H e) e s = Some (?e, s')"
      using enter get s'(1) by (simp add: vui_send_event_def default_handler_def)
    ultimately show ?thesis using s'(2) ops kept [OF ops el] by (auto simp: ui_ok_def same_ui_def)
  next
    case leave
    let ?H = "last_hover s"
    have "allocated s ?H" using ui_invD(3) [OF inv] leave(2) by simp
    then obtain x where x: "rd_elem ?H s = Some x" using ui_invD(1) [OF inv] by blast
    let ?s = "s\<lparr>last_hover := 0\<rparr>" and ?h = "default_on_mouse_exit (ops x)"
      and ?e = "e\<lparr>ev_H := ?H, ev_type := VUI_EVENT_MOUSE_EXIT, ev_name := elem_name x\<rparr>"
    have inv1: "ui_inv ?s" using ui_inv_update(2) [OF inv] by simp
    obtain s' where s': "call_handler ?h ?e ?s = Some s'" "same_ui ?s s'"
        "hover_of s' = (\<lambda>K. if K = ?H \<and> ?h = Some Button_enter then True else if K = ?H \<and> ?h = Some Button_exit then False else hover_of ?s K)"
      using call_keeps [OF inv1, of ?e x ?h] x by auto
    have ops: "ops_of s' = ops_of s" using s'(2) by (simp add: same_ui_def ops_of_def fun_eq_iff)
    have "hover_of ?s K = hover_of s K" for K by (simp add: hover_of_def)
    moreover have "?h \<noteq> Some Button_enter" using ok_ops [OF x] by (auto simp: ops_ok_def)
    moreover have "hover_of s K \<Longrightarrow> K = ?H \<and> ?h = Some Button_exit" for K using hov x by (auto simp: hover_inv_def ops_of_def)
    ultimately have "\<not> hover_of s' K" for K using s'(3) by (auto split: if_splits)
    then have "hover_inv s'" using hov ops by (auto simp: hover_inv_def)
    moreover have "vui_send_event (ev_H e) e s = Some (?e, s')"
      using leave get x s'(1) by (simp add: vui_send_event_def default_handler_def)
    ultimately show ?thesis using s'(2) ops kept [OF ops x] by (auto simp: ui_ok_def same_ui_def)
  qed
qed

lemma event_keeps:
  assumes ok: "ui_ok s" and ty: "ty \<noteq> VUI_EVENT_MOUSE_ENTER" "ty \<noteq> VUI_EVENT_MOUSE_EXIT"
  shows "\<exists>s'. vui_external_event_handler ty x y lmb rmb s = Some s' \<and> ui_ok s'"
proof -
  have inv: "ui_inv s" using ok by (simp add: ui_ok_def)
  define e0 where "e0 = \<lparr>ev_H = 0, ev_type = ty, ev_flags = (if lmb then 1 else 0) OR (if rmb then 2 else 0),
     ev_name = [], ev_x = x, ev_y = y\<rparr>"
  have e0: "ev_type e0 = ty" by (simp add: e0_def)
  obtain D where D: "vui_find_handler_for_event (dispatchers s) e0 s = Some D" "D = 0 \<or> allocated s D"
    using find_allocated [OF inv ui_invD(2) [OF inv]] by blast
  show ?thesis
  proof (cases "D = 0")
    case True
    then show ?thesis using D ok unfolding vui_external_event_handler_def e0_def [symmetric] Let_def by simp
  next
    case False
    then obtain d where d: "rd_elem D s = Some d" "chain_ok s (children d)" using ui_invD(1) [OF inv] D(2) by blast
    obtain C where C: "vui_find_handler_for_event (children d) e0 s = Some C" "C = 0 \<or> allocated s C"
      using find_allocated [OF inv, of "children d"] d(2) by (auto simp: chain_ok_def)
    define T where "T = (if C \<noteq> 0 then C else D)"
    have T: "allocated s T" using C D False by (auto simp: T_def)
    obtain t where t: "rd_elem T s = Some t" using ui_invD(1) [OF inv T] by blast
    obtain e' s' where e': "vui_send_event T (e0\<lparr>ev_H := T, ev_name := elem_name t\<rparr>) s = Some (e', s')" "ui_ok s'"
        "ops_of s' = ops_of s" "\<exists>el. rd_elem (ev_H e') s' = Some el"
      using send_event_keeps [OF ok, of "e0\<lparr>ev_H := T, ev_name := elem_name t\<rparr>"] T ty e0 by auto
    obtain d' where d': "rd_elem D s' = Some d'" using fun_cong [OF e'(3), of D] d(1) by (auto simp: ops_of_def)
    have "app_only (event_handler (ops d'))" using e'(2) d' by (auto simp: ui_ok_def hover_inv_def ops_of_def ops_ok_def)
    then have "call_handler (event_handler (ops d')) e' s' = Some (call_app (event_handler (ops d')) e' s')"
      by (auto simp: app_only_def call_handler_def split: option.splits vui_handler.splits)
    moreover have "ui_ok (call_app (event_handler (ops d')) e' s')"
      using same_ui_call [of s' s' "event_handler (ops d')" e'] e'(2)
        hover_inv_cong [of "call_app (event_handler (ops d')) e' s'" s']
      by (simp add: ui_ok_def same_ui_def)
    ultimately have "(vui_handle_get_name T s \<bind> (\<lambda>name. vui_send_event T (e0\<lparr>ev_H := T, ev_name := name\<rparr>) s \<bind>
        (\<lambda>(e, s). rd_elem D s \<bind> (\<lambda>vc. call_handler (event_handler (ops vc)) e s)))) = Some (call_app (event_handler (ops d')) e' s')"
      and "ui_ok (call_app (event_handler (ops d')) e' s')"
      using t e'(1) d' by (simp_all add: vui_handle_get_name_def)
    then show ?thesis using D(1) False d(1) C(1)
      unfolding vui_external_event_handler_def e0_def [symmetric] Let_def T_def by simp
  qed
qed

lemma init_ok: "ui_ok (vui_init fb_mem w h)"
proof -
  have "rd_elem H (vui_init fb_mem w h) = None" for H
    by (simp add: rd_elem_def vui_get_handle_data_def vui_init_def)
  then show ?thesis
    by (auto simp: ui_ok_def ui_inv_def ui_tables_def by_priority_def hover_inv_def hover_of_def ops_of_def allocated_def)
      (auto simp: vui_init_def unat_eq_zero)
qed

lemma ui_step_ok:
  assumes "ui_step s s'" "ui_ok s"
  shows "ui_ok s'"
  using assms(1)
proof cases
  case (name H nm)
  then obtain f where f: "wr_elem H (\<lambda>e. e\<lparr>elem_name := nm\<rparr>) s = Some s'" by (auto simp: vui_handle_set_name_def split: if_splits)
  show ?thesis using wr_inv [OF _ f] wr_hover [OF f] hover_inv_cong [of s' s] assms(2) by (simp add: ui_ok_def)
next
  case (handler h H ty)
  have "s' = s \<or> (\<exists>f\<in>{event_handler_update (\<lambda>_. h), on_mouse_down_update (\<lambda>_. h), on_mouse_up_update (\<lambda>_. h)}.
      wr_elem H (\<lambda>el. el\<lparr>ops := f (ops el)\<rparr>) s = Some s')"
    using handler(2) by (auto simp: vui_set_event_handler_def split: bind_splits option.splits if_splits)
  then consider "s' = s" | f where "f \<in> {event_handler_update (\<lambda>_. h), on_mouse_down_update (\<lambda>_. h), on_mouse_up_update (\<lambda>_. h)}"
      "wr_elem H (\<lambda>el. el\<lparr>ops := f (ops el)\<rparr>) s = Some s'"
    by auto
  then show ?thesis
  proof cases
    case (2 f)
    have f: "ops_ok o' \<Longrightarrow> ops_ok (f o')" "default_on_mouse_exit (f o') = default_on_mouse_exit o'" for o'
      using handler(1) 2(1) by (auto simp: ops_ok_def)
    note w = 2(2)
    obtain d where d: "rd_elem H s = Some d" "\<And>K. rd_elem K s' = (if K = H then Some (d\<lparr>ops := f (ops d)\<rparr>) else rd_elem K s)"
        "last_hover s' = last_hover s"
      using wr_elem_SomeD [OF w] by metis
    have "hover_of s' = hover_of s" "ops_of s' = (\<lambda>K. if K = H then Some (f (ops d)) else ops_of s K)"
      using d by (auto simp: hover_of_def ops_of_def fun_eq_iff)
    moreover have "ops_of s H = Some (ops d)" using d(1) by (simp add: ops_of_def)
    ultimately have "hover_inv s'"
      using assms(2) f d(3) by (auto simp: ui_ok_def hover_inv_def split: if_splits)
    then show ?thesis using wr_inv [OF _ w] assms(2) by (simp add: ui_ok_def)
  qed (use assms(2) in simp)
next
  case (event ty x y lmb rmb)
  then show ?thesis using event_keeps [OF assms(2), of ty x y lmb rmb] by auto
next
  case window then show ?thesis by (rule creations_keep(1) [OF assms(2)])
next
  case desktop then show ?thesis by (rule creations_keep(2) [OF assms(2)])
next
  case menubar then show ?thesis by (rule creations_keep(3) [OF assms(2)])
next
  case menu then show ?thesis by (rule creations_keep(4) [OF assms(2)])
next
  case label then show ?thesis by (rule creations_keep(5) [OF assms(2)])
next
  case button then show ?thesis by (rule creations_keep(6) [OF assms(2)])
next
  case console then show ?thesis by (rule creations_keep(7) [OF assms(2)])
qed

lemma ui_reachable_ok: "ui_reachable s \<Longrightarrow> ui_ok s"
  by (induction rule: ui_reachable.induct) (auto intro: init_ok ui_step_ok)


section \<open>The cells of a layout\<close>

lemma unat_cell_size: "40 \<le> unat w \<Longrightarrow> unat (cell_size w) = (unat w - 40) div 3"
proof -
  assume w: "40 \<le> unat w"
  have b: "unat w < 65536" using unsigned_less [of w] by simp
  have "40 \<le> int (unat w)" using w by linarith
  then have "cell_size w = word_of_int (int ((unat w - 40) div 3))"
    using w by (simp add: cell_size_def Let_def of_nat_diff zdiv_int)
  also have "\<dots> = word_of_nat ((unat w - 40) div 3)" by simp
  finally show ?thesis using b by (simp add: unat_of_nat)
qed

definition inside :: "vui_common \<Rightarrow> vui_layout_cell \<Rightarrow> bool" where
  "inside p c \<longleftrightarrow> unat (inner_x p) + 10 \<le> unat (cell_x c) \<and> unat (cell_x c) + unat (cell_width c) + 10 \<le> unat (inner_x p) + unat (inner_width p)
     \<and> unat (inner_y p) + 10 \<le> unat (cell_y c) \<and> unat (cell_y c) + unat (cell_height c) + 10 \<le> unat (inner_y p) + unat (inner_height p)"

definition cells_apart :: "vui_layout_cell \<Rightarrow> vui_layout_cell \<Rightarrow> bool" where
  "cells_apart c d \<longleftrightarrow> unat (cell_x c) + unat (cell_width c) + 10 \<le> unat (cell_x d) \<or> unat (cell_x d) + unat (cell_width d) + 10 \<le> unat (cell_x c)
     \<or> unat (cell_y c) + unat (cell_height c) + 10 \<le> unat (cell_y d) \<or> unat (cell_y d) + unat (cell_height d) + 10 \<le> unat (cell_y c)"

lemma unat_plus_small: "unat x + unat y < 65536 \<Longrightarrow> unat (x + y :: u16) = unat x + unat y"
  by (simp add: unat_word_ariths)

text \<open>The three positions along one axis.\<close>

lemma axis_positions:
  assumes "40 \<le> unat w" "unat x + unat w < 65536"
  defines "n \<equiv> (unat w - 40) div 3" and "d \<equiv> cell_size w"
  shows "unat (x + 10) = unat x + 10" "unat (x + 10 + 10 + d) = unat x + 20 + n" "unat (x + 10 + 10 + d + 10 + d) = unat x + 30 + 2 * n"
    "unat d = n" "3 * n + 40 \<le> unat w"
proof -
  show d: "unat d = n" using unat_cell_size [OF assms(1)] by (simp add: d_def n_def)
  show n: "3 * n + 40 \<le> unat w" using assms(1) by (simp add: n_def)
  have ten: "unat (10 :: u16) = 10" by simp
  show 1: "unat (x + 10) = unat x + 10" using unat_plus_small [of x 10] n assms(2) ten by simp
  have 2: "unat (x + 10 + 10) = unat x + 20" using unat_plus_small [of "x + 10" 10] 1 n assms(2) ten by simp
  show 3: "unat (x + 10 + 10 + d) = unat x + 20 + n" using unat_plus_small [of "x + 10 + 10" d] 2 d n assms(2) by simp
  have 4: "unat (x + 10 + 10 + d + 10) = unat x + 30 + n" using unat_plus_small [of "x + 10 + 10 + d" 10] 3 n assms(2) ten by simp
  show "unat (x + 10 + 10 + d + 10 + d) = unat x + 30 + 2 * n"
    using unat_plus_small [of "x + 10 + 10 + d + 10" d] 4 d n assms(2) by simp
qed


section \<open>Properties\<close>

text \<open>Property C37: the sort of the elements by their priority always ends and gives
  the stable sort: the elements in ascending order of priority, those of one priority in
  the order they had.\<close>

theorem elements_sorted:
  assumes "hs \<noteq> []" "\<forall>h\<in>set hs. h \<noteq> 0 \<and> rd_elem h s \<noteq> None"
  shows "vui_sort_list_by_priority hs s = Some (sort_key (prio_of s) hs)"
proof -
  have "\<forall>h\<in>set hs. map_option priority (rd_elem h s) = Some (prio_of s h)"
    using assms(2) by (auto simp: prio_of_def)
  from sort_passes_sorts [OF this] show ?thesis
    using assms by (auto simp: vui_sort_list_by_priority_def split: list.split)
qed



text \<open>Property C38: the nine cells of a layout lie inside the inner area of its parent, ten pixels from its
  border, and at least ten pixels from each other, provided the area is at least 40 pixels
  wide and high and ends below 65536.\<close>

theorem layout_cells_apart:
  assumes "rd_elem parent s = Some p" "40 \<le> unat (inner_width p)" "40 \<le> unat (inner_height p)"
    and "unat (inner_x p) + unat (inner_width p) < 65536" "unat (inner_y p) + unat (inner_height p) < 65536"
  shows "\<exists>rows. vui_layout_init parent s = Some rows \<and> map length rows = [3, 3, 3]
    \<and> list_all (\<lambda>c. inside p c \<and> cell_H c = 0 \<and> cell_parent c = parent) (concat rows) \<and> sorted_wrt cells_apart (concat rows)"
proof -
  define x1 x2 x3 where x: "x1 = inner_x p + 10" "x2 = x1 + 10 + cell_size (inner_width p)" "x3 = x2 + 10 + cell_size (inner_width p)"
  define y1 y2 y3 where y: "y1 = inner_y p + 10" "y2 = y1 + 10 + cell_size (inner_height p)" "y3 = y2 + 10 + cell_size (inner_height p)"
  define c where "c = (\<lambda>x y. \<lparr>cell_H = 0, cell_x = x, cell_y = y, cell_width = cell_size (inner_width p),
        cell_height = cell_size (inner_height p), vert_position = 0, cell_parent = parent\<rparr>)"
  have "vui_layout_init parent s = Some [[c x1 y1, c x2 y1, c x3 y1], [c x1 y2, c x2 y2, c x3 y2], [c x1 y3, c x2 y3, c x3 y3]]"
    by (simp add: vui_layout_init_def assms(1) numeral_3_eq_3 x y c_def)
  moreover define nx ny where n: "nx = (unat (inner_width p) - 40) div 3" "ny = (unat (inner_height p) - 40) div 3"
  have X: "unat x1 = unat (inner_x p) + 10" "unat x2 = unat (inner_x p) + 20 + nx" "unat x3 = unat (inner_x p) + 30 + 2 * nx"
      "unat (cell_size (inner_width p)) = nx" "3 * nx + 40 \<le> unat (inner_width p)"
    unfolding x n by (rule axis_positions [OF assms(2,4)])+
  have Y: "unat y1 = unat (inner_y p) + 10" "unat y2 = unat (inner_y p) + 20 + ny" "unat y3 = unat (inner_y p) + 30 + 2 * ny"
      "unat (cell_size (inner_height p)) = ny" "3 * ny + 40 \<le> unat (inner_height p)"
    unfolding y n by (rule axis_positions [OF assms(3,5)])+
  have bx: "unat (inner_x p) + 10 \<le> unat u \<and> unat u + nx + 10 \<le> unat (inner_x p) + unat (inner_width p)" if "u = x1 \<or> u = x2 \<or> u = x3" for u
    using that X(1-3,5) by (elim disjE) simp_all
  have byy: "unat (inner_y p) + 10 \<le> unat u \<and> unat u + ny + 10 \<le> unat (inner_y p) + unat (inner_height p)" if "u = y1 \<or> u = y2 \<or> u = y3" for u
    using that Y(1-3,5) by (elim disjE) simp_all
  have ins: "inside p (c u v)" if "u = x1 \<or> u = x2 \<or> u = x3" "v = y1 \<or> v = y2 \<or> v = y3" for u v
    using bx [OF that(1)] byy [OF that(2)] X(4) Y(4) unfolding inside_def c_def by simp
  have apx: "cells_apart (c u v) (c u' v') \<and> cells_apart (c u' v) (c u v')"
    if "u = x1 \<and> u' = x2 \<or> u = x1 \<and> u' = x3 \<or> u = x2 \<and> u' = x3" for u v u' v'
    using that X(1-4) unfolding cells_apart_def c_def by (elim disjE conjE) simp_all
  have apy: "cells_apart (c u v) (c u' v')" if "v = y1 \<and> v' = y2 \<or> v = y1 \<and> v' = y3 \<or> v = y2 \<and> v' = y3" for u v u' v'
    using that Y(1-4) unfolding cells_apart_def c_def by (elim disjE conjE) simp_all
  have "cell_H (c u v) = 0 \<and> cell_parent (c u v) = parent" for u v by (simp add: c_def)
  ultimately show ?thesis using ins apx apy by simp
qed


section \<open>The properties at concrete states\<close>

text \<open>A window of 100 by 100 pixels at (10, 10), without border and title.\<close>

definition demo_window :: vui_common where
  "demo_window = zero_element\<lparr>elem_handle := 1, elem_type := 1, width := 100, height := 100, pos_x := 10, absolute_x := 10,
     pos_y := 10, absolute_y := 10, inner_width := 100, inner_height := 100, inner_x := 10, inner_y := 10\<rparr>"

definition demo_ui :: vui_core where
  "demo_ui = (vui_init [] 1024 768)\<lparr>dispatchers := [1], handle_next := 2,
     handle_table := (replicate 512 \<lparr>vh_H = 0, vh_type = 0, vh_data = None\<rparr>)[1 := \<lparr>vh_H = 1, vh_type = 1, vh_data = Some demo_window\<rparr>]\<rparr>"

lemma demo_rd [simp]: "rd_elem 1 demo_ui = Some demo_window"
  by (simp add: demo_ui_def rd_elem_def vui_get_handle_data_def vui_init_def)

lemma demo_created: "vui_window_create 10 10 100 100 3 (vui_init [] 1024 768) = Some (1, demo_ui)"
  by (simp add: vui_window_create_def vui_allocate_handle_def vui_init_def vui_is_dispatcher_def vui_set_handle_data_def
      vui_create_cleanup_def vui_get_handle_data_def wr_elem_def rd_elem_def vui_sort_list_by_priority_def demo_ui_def
      demo_window_def zero_element_def)

lemma demo_reachable: "ui_reachable demo_ui"
  by (rule ui_reachable.step [OF ui_reachable.init], rule ui_step.window [OF demo_created])

definition demo_event :: vui_event where
  "demo_event = \<lparr>ev_H = 0, ev_type = 5, ev_flags = 0, ev_name = [], ev_x = 20, ev_y = 30\<rparr>"

lemma demo_hit: "hit demo_event demo_window"
  by (simp add: hit_def demo_event_def demo_window_def)



lemma layout_cells_apart_witness:
  "\<exists>rows. vui_layout_init 1 demo_ui = Some rows \<and> length (concat rows) = 9 \<and> sorted_wrt cells_apart (concat rows)"
proof -
  obtain rows where "vui_layout_init 1 demo_ui = Some rows" "map length rows = [3, 3, 3]" "sorted_wrt cells_apart (concat rows)"
    using layout_cells_apart [OF demo_rd] by (auto simp: demo_window_def)
  then show ?thesis by (auto simp: length_concat)
qed

definition demo_elem :: "u32 \<Rightarrow> vui_handles" where
  "demo_elem p = \<lparr>vh_H = 0, vh_type = 1, vh_data = Some (zero_element\<lparr>priority := p\<rparr>)\<rparr>"

lemma elements_sorted_witness:
  "vui_sort_list_by_priority [1, 2, 3] ((vui_init [] 0 0)\<lparr>handle_table := map demo_elem [0, 7, 3, 7]\<rparr>) = Some [2, 1, 3]"
proof -
  let ?s = "(vui_init [] 0 0)\<lparr>handle_table := map demo_elem [0, 7, 3, 7]\<rparr>"
  have rd: "rd_elem 1 ?s = Some (zero_element\<lparr>priority := 7\<rparr>)" "rd_elem 2 ?s = Some (zero_element\<lparr>priority := 3\<rparr>)"
    "rd_elem 3 ?s = Some (zero_element\<lparr>priority := 7\<rparr>)"
    by (simp_all add: rd_elem_def vui_get_handle_data_def demo_elem_def)
  then have "\<forall>h\<in>set [1, 2, 3]. h \<noteq> 0 \<and> rd_elem h ?s \<noteq> None" by simp
  from elements_sorted [OF _ this] show ?thesis
    using rd by (simp add: prio_of_def sort_key_def)
qed

end
