(* ===== verification/Console.thy ===== *)
theory Console
  imports KPrelude
begin

text \<open>
  The text console (kernel/vui/console.c): its rows of characters and colours, the cursor,
  tabs, scrolling, and the escape sequences that set the colours. The drawing functions
  the console calls are recorded with their arguments, in order (a char is signed when it
  is drawn again). A string is the list of
  its bytes before the NUL. An index outside an array and a division by zero are None.
  atoi is the function of the C library.
\<close>

section \<open>The console\<close>

datatype draw_call =
    Draw_char u16 u16 u16 u32 u32
  | Draw_rect u16 u16 u16 u16 u32
  | Move_rect "u32 list"
  | Refresh_rect u16 u16 u16 u16

record console_row =
  buff :: "u8 list"
  color_set_fg :: "u8 list"
  color_set_bg :: "u8 list"
  color_fg :: "u32 list"
  color_bg :: "u32 list"
  dirty :: bool

record vui_console =
  pixel_x :: u16
  pixel_y :: u16
  pixel_width :: u16
  pixel_height :: u16
  text_area_x :: u16
  text_area_y :: u16
  text_area_width :: u16
  text_area_height :: u16
  char_width :: u16
  char_height :: u16
  num_cols :: u16
  num_rows :: u16
  current_row :: u16
  current_col :: u16
  current_pixel_x :: u16
  current_pixel_y :: u16
  fg_color :: u32
  bg_color :: u32
  override_fg :: u32
  override_bg :: u32
  tab_size :: u32
  capturing_escape_code :: bool
  capture_num :: nat
  captured_escape :: "u8 list"
  use_color_override_fg :: bool
  use_color_override_bg :: bool
  show_cursor :: bool
  blink_hidden :: bool
  redraw_window :: bool
  con_rows :: "console_row list"
  drawn :: "draw_call list"

definition draw :: "draw_call \<Rightarrow> vui_console \<Rightarrow> vui_console" where
  "draw d con = con\<lparr>drawn := drawn con @ [d]\<rparr>"

definition empty_row :: "nat \<Rightarrow> console_row" where
  "empty_row n = \<lparr>buff = replicate n 0, color_set_fg = replicate n 0, color_set_bg = replicate n 0,
     color_fg = replicate n 0, color_bg = replicate n 0, dirty = False\<rparr>"

text \<open>
  The text of vui_console_create. The memory of the structure is not cleared: stale is
  what it held. cw and ch are the width and the height of the font.
\<close>

definition console_setup :: "u16 \<Rightarrow> u16 \<Rightarrow> u16 \<Rightarrow> u16 \<Rightarrow> u16 \<Rightarrow> u16 \<Rightarrow> vui_console \<Rightarrow> vui_console option" where
  "console_setup x y w h cw ch stale =
     (if cw = 0 \<or> ch = 0 then None
      else let con = stale\<lparr>pixel_x := x, pixel_y := y, pixel_width := w, pixel_height := h,
             text_area_x := x + 5, text_area_y := y + 5, text_area_width := w - 10, text_area_height := h - 10,
             current_pixel_x := x + 5, current_pixel_y := y + 5, char_width := cw, char_height := ch,
             num_cols := (w - 10) div cw, num_rows := (h - 10) div ch, fg_color := 0x00eaeaea, bg_color := 0x00232323\<rparr>
        in Some (con\<lparr>con_rows := replicate (unat (num_rows con)) (empty_row (unat (num_cols con))),
             current_row := 1, current_col := 1, tab_size := 4, show_cursor := False, blink_hidden := False,
             capturing_escape_code := False, capture_num := 0, use_color_override_bg := False,
             use_color_override_fg := False, captured_escape := replicate 25 0\<rparr>))"


section \<open>Drawing the rows\<close>

definition shown_fg :: "vui_console \<Rightarrow> console_row \<Rightarrow> nat \<Rightarrow> u32" where
  "shown_fg con r j = (if color_set_fg r ! j \<noteq> 0 then color_fg r ! j else fg_color con)"

definition shown_bg :: "vui_console \<Rightarrow> console_row \<Rightarrow> nat \<Rightarrow> u32" where
  "shown_bg con r j = (if color_set_bg r ! j \<noteq> 0 then color_bg r ! j else bg_color con)"

definition draw_row :: "vui_console \<Rightarrow> nat \<Rightarrow> console_row \<Rightarrow> draw_call list" where
  "draw_row con i r = (let y = text_area_y con + char_height con * of_nat i in
     Draw_rect (text_area_x con) y (text_area_width con) (char_height con) (bg_color con)
     # map (\<lambda>j. Draw_char (if buff r ! j = 0 then 0x20 else scast (buff r ! j))
             (text_area_x con + of_nat j * char_width con) y (shown_fg con r j) (shown_bg con r j)) [0..<unat (num_cols con)])"

definition vui_console_draw_from_struct :: "vui_console \<Rightarrow> vui_console" where
  "vui_console_draw_from_struct con =
     (let redraw = (\<lambda>r. dirty r \<or> redraw_window con);
          ds = (if redraw_window con
             then [Draw_rect (pixel_x con) (pixel_y con) (pixel_width con) (pixel_height con) (bg_color con)] else [])
           @ concat (map (\<lambda>(i, r). if redraw r then draw_row con i r else []) (List.enumerate 0 (con_rows con)))
           @ [Refresh_rect (pixel_x con) (pixel_y con) (pixel_width con) (pixel_height con)]
      in con\<lparr>con_rows := map (\<lambda>r. if redraw r then r\<lparr>dirty := False\<rparr> else r) (con_rows con),
             redraw_window := False, drawn := drawn con @ ds\<rparr>)"

definition vui_console_update_cursor :: "vui_console \<Rightarrow> vui_console" where
  "vui_console_update_cursor con =
     (if show_cursor con then
        draw (Refresh_rect (current_pixel_x con) (current_pixel_y con) (char_width con) (char_height con))
          (draw (Draw_char 0xDB (current_pixel_x con) (current_pixel_y con) (fg_color con) (bg_color con)) con)
      else con)"

definition vui_console_blink_cursor :: "vui_console \<Rightarrow> vui_console" where
  "vui_console_blink_cursor con =
     (if show_cursor con then
        let c = (if blink_hidden con then 0xDB else 0x20 :: u16);
            con = con\<lparr>blink_hidden := \<not> blink_hidden con\<rparr>
        in draw (Refresh_rect (current_pixel_x con) (current_pixel_y con) (char_width con) (char_height con))
             (draw (Draw_char c (current_pixel_x con) (current_pixel_y con) (fg_color con) (bg_color con)) con)
      else con)"


section \<open>Lines\<close>

text \<open>The rows after the first move up; the last one is cleared, but its dirty flag stays.\<close>

definition scroll_rows :: "nat \<Rightarrow> console_row list \<Rightarrow> console_row list option" where
  "scroll_rows n rs =
     (if rs = [] then None
      else Some (map (\<lambda>r. r\<lparr>dirty := False\<rparr>) (tl rs) @ [(empty_row n)\<lparr>dirty := dirty (last rs)\<rparr>]))"

definition vui_console_scroll_up :: "bool \<Rightarrow> vui_console \<Rightarrow> vui_console option" where
  "vui_console_scroll_up set_current_row_col con = do {
     rs \<leftarrow> scroll_rows (unat (num_cols con)) (con_rows con);
     let con = con\<lparr>con_rows := rs\<rparr>;
     let con = draw (Move_rect [ucast (text_area_x con), ucast (text_area_y con), ucast (text_area_width con),
             ucast (text_area_height con) - ucast (char_height con), ucast (text_area_x con),
             ucast (text_area_y con) + ucast (char_height con), ucast (text_area_width con),
             ucast (text_area_height con) - ucast (char_height con)]) con;
     let con = draw (Draw_rect (text_area_x con) (text_area_y con + (num_rows con - 1) * char_height con)
             (text_area_width con) (char_height con) (bg_color con)) con;
     let con = (if set_current_row_col
        then con\<lparr>current_pixel_x := text_area_x con,
               current_pixel_y := text_area_y con + (num_rows con - 1) * char_height con,
               current_col := 1, current_row := num_rows con\<rparr>
        else con);
     Some (vui_console_draw_from_struct con) }"

definition vui_console_do_new_line :: "vui_console \<Rightarrow> vui_console option" where
  "vui_console_do_new_line con = do {
     let con = con\<lparr>current_col := 1\<rparr>;
     con \<leftarrow> (if current_row con = num_rows con then vui_console_scroll_up True con
            else Some (con\<lparr>current_row := current_row con + 1, current_pixel_y := current_pixel_y con + char_height con\<rparr>));
     Some (con\<lparr>current_pixel_x := text_area_x con\<rparr>) }"

definition vui_console_do_backspace :: "vui_console \<Rightarrow> vui_console" where
  "vui_console_do_backspace con =
     (let cursor_visibility = show_cursor con;
          con = con\<lparr>show_cursor := False, current_col := current_col con - 1,
                    current_pixel_x := current_pixel_x con - char_width con\<rparr>;
          blank = (\<lambda>con. draw (Refresh_rect (current_pixel_x con) (current_pixel_y con) (char_width con) (char_height con))
             (draw (Draw_char 0x20 (current_pixel_x con) (current_pixel_y con) (fg_color con) (bg_color con)) con));
          con = blank con;
          con = (if cursor_visibility then blank con else con)
      in con\<lparr>show_cursor := cursor_visibility\<rparr>)"


section \<open>Escape sequences\<close>

text \<open>atoi: white space, a sign, and the digits up to the first other character.\<close>

primrec digits_from :: "int \<Rightarrow> u8 list \<Rightarrow> int option" where
  "digits_from n [] = None"
| "digits_from n (c # cs) = (if 0x30 \<le> c \<and> c \<le> 0x39 then digits_from (n * 10 + int (unat c - 0x30)) cs else Some n)"

definition atoi :: "u8 list \<Rightarrow> int option" where
  "atoi s = (case dropWhile (\<lambda>c. c = 0x20 \<or> 9 \<le> c \<and> c \<le> 13) s of
       [] \<Rightarrow> None
     | c # cs \<Rightarrow> if c = 0x2D then map_option uminus (digits_from 0 cs)
                 else if c = 0x2B then digits_from 0 cs else digits_from 0 (c # cs))"

text \<open>
  The parts of the captured sequence: sets holds the arrays set_1, set_2 and set_3 of four
  characters, k is set_number.
\<close>

primrec split_escape :: "u8 list \<Rightarrow> nat \<Rightarrow> nat \<Rightarrow> u8 list list \<Rightarrow> u8 list list option" where
  "split_escape [] k n sets = Some sets"
| "split_escape (c # cs) k n sets =
     (if c = 0x5B then split_escape cs 1 n sets
      else if c = 0x3B then split_escape cs (k + 1) 0 sets
      else if k = 1 \<or> k = 2 \<or> k = 3 then
        if n < 4 then split_escape cs k (n + 1) (sets[k - 1 := (sets ! (k - 1))[n := c]]) else None
      else split_escape cs k n sets)"

definition foreground_of :: "int \<Rightarrow> u32" where
  "foreground_of n = (case map_of [(30, 0x001E1E1E), (31, 0x00CC0000), (32, 0x0000CC00), (33, 0x00AA5500),
       (34, 0x000000CC), (35, 0x00AA00AA), (36, 0x0000CCCC), (37, 0x00AAAAAA), (90, 0x00555555), (91, 0x00FF5555),
       (92, 0x0055FF55), (93, 0x00FFFF55), (94, 0x005555FF), (95, 0x00FF55FF), (96, 0x0055FFFF), (97, 0x00FFFFFF)] n of
     Some c \<Rightarrow> c | None \<Rightarrow> 0)"

text \<open>The second switch: the codes from 100 on set the foreground.\<close>

definition background_of :: "int \<Rightarrow> u32 \<Rightarrow> u32 \<times> u32" where
  "background_of n new_fg =
     (case map_of [(40, 0x001E1E1E), (41, 0x00CC0000), (42, 0x0000CC00), (43, 0x00AA5500),
         (44, 0x000000CC), (45, 0x00AA00AA), (46, 0x0000CCCC), (47, 0x00FFFFFF)] n of
       Some c \<Rightarrow> (new_fg, c)
     | None \<Rightarrow> (case map_of [(100, 0x00555555), (101, 0x00FF5555), (102, 0x0055FF55), (103, 0x00FFFF55),
         (104, 0x005555FF), (105, 0x00FF55FF), (106, 0x0055FFFF), (107, 0x00FFFFFF)] n of
       Some c \<Rightarrow> (c, 0)
     | None \<Rightarrow> (new_fg, 0)))"

definition vui_console_process_escape :: "u8 \<Rightarrow> vui_console \<Rightarrow> vui_console option" where
  "vui_console_process_escape c con =
     (if \<not> capture_num con < 25 then None
      else if c = 0x6D then do {
        let con = con\<lparr>captured_escape := (captured_escape con)[capture_num con := 0], capturing_escape_code := False\<rparr>;
        sets \<leftarrow> split_escape (take (capture_num con) (captured_escape con)) 0 0 (replicate 3 (replicate 4 0));
        captured_fg \<leftarrow> atoi (sets ! 1);
        captured_bg \<leftarrow> atoi (sets ! 2);
        let (new_fg, new_bg) = background_of captured_bg (foreground_of captured_fg);
        Some (con\<lparr>override_fg := new_fg, override_bg := new_bg,
                  use_color_override_fg := new_fg \<noteq> 0, use_color_override_bg := new_bg \<noteq> 0, capture_num := 0\<rparr>) }
      else Some (con\<lparr>captured_escape := (captured_escape con)[capture_num con := c], capture_num := capture_num con + 1\<rparr>))"


section \<open>Characters\<close>

text \<open>What vui_console_put_char_at does around its switch.\<close>

definition around_cursor :: "u8 \<Rightarrow> (vui_console \<Rightarrow> vui_console option) \<Rightarrow> vui_console \<Rightarrow> vui_console option" where
  "around_cursor c body con = do {
     let cursor_visibility = show_cursor con;
     con \<leftarrow> body (con\<lparr>show_cursor := False\<rparr>);
     let con = con\<lparr>show_cursor := cursor_visibility\<rparr>;
     Some (if show_cursor con then
        vui_console_update_cursor
          (if c = 0x0A then draw (Draw_char 0x20 (current_pixel_x con) (current_pixel_y con) (fg_color con) (bg_color con)) con
           else con)
      else con) }"

text \<open>The characters that the function puts itself: a new line, and a space.\<close>

definition put_new_line :: "vui_console \<Rightarrow> vui_console option" where
  "put_new_line = around_cursor 0x0A vui_console_do_new_line"

definition put_row :: "u8 \<Rightarrow> nat \<Rightarrow> u32 \<Rightarrow> u32 \<Rightarrow> vui_console \<Rightarrow> console_row \<Rightarrow> console_row" where
  "put_row c j fg bg con r = r\<lparr>buff := (buff r)[j := c], color_fg := (color_fg r)[j := fg], color_bg := (color_bg r)[j := bg],
     color_set_fg := (color_set_fg r)[j := if use_color_override_fg con then 1 else 0],
     color_set_bg := (color_set_bg r)[j := if use_color_override_bg con then 1 else 0], dirty := True\<rparr>"

definition put_default :: "u8 \<Rightarrow> u16 \<Rightarrow> u16 \<Rightarrow> vui_console \<Rightarrow> vui_console option" where
  "put_default c row col con =
     (if capturing_escape_code con then vui_console_process_escape c con
      else do {
        con \<leftarrow> (if unat (current_col con) = unat (num_cols con) + 1 then put_new_line con else Some con);
        let fg = (if use_color_override_fg con then override_fg con else fg_color con);
        let bg = (if use_color_override_bg con then override_bg con else bg_color con);
        if row = 0 \<or> col = 0 \<or> length (con_rows con) < unat row \<or> unat (num_cols con) < unat col then None
        else do {
          let i = unat row - 1;
          let con = con\<lparr>con_rows := (con_rows con)[i := put_row c (unat col - 1) fg bg con (con_rows con ! i)]\<rparr>;
          let con = draw (Draw_char (ucast c) (current_pixel_x con) (current_pixel_y con) fg bg) con;
          Some (con\<lparr>current_col := current_col con + 1, current_pixel_x := current_pixel_x con + char_width con\<rparr>) } })"

definition put_space :: "vui_console \<Rightarrow> vui_console option" where
  "put_space con = around_cursor 0x20 (put_default 0x20 (current_row con) (current_col con)) con"

primrec put_spaces :: "nat \<Rightarrow> vui_console \<Rightarrow> vui_console option" where
  "put_spaces 0 con = Some con"
| "put_spaces (Suc n) con = do { con \<leftarrow> put_space con; put_spaces n con }"

definition vui_console_do_tab :: "vui_console \<Rightarrow> vui_console option" where
  "vui_console_do_tab con =
     (if ucast (current_col con) + tab_size con < ucast (num_cols con) then
        if current_col con = 1 then put_spaces (unat (tab_size con)) con
        else if tab_size con = 0 then None
        else let num_spaces = (ucast (current_col con) - 1) mod tab_size con;
                 num_spaces = (if num_spaces = 0 then tab_size con else num_spaces)
             in put_spaces (unat num_spaces) con
      else Some con)"

definition vui_console_put_char_at :: "u8 \<Rightarrow> u16 \<Rightarrow> u16 \<Rightarrow> vui_console \<Rightarrow> vui_console option" where
  "vui_console_put_char_at c row col = around_cursor c (\<lambda>con.
     if c = 0x1B then Some (con\<lparr>capturing_escape_code := True, capture_num := 0\<rparr>)
     else if c = 0x09 then vui_console_do_tab con
     else if c = 0x0A then vui_console_do_new_line con
     else if c = 0x08 then Some (vui_console_do_backspace con)
     else put_default c row col con)"

definition vui_console_put_char :: "u8 \<Rightarrow> vui_console \<Rightarrow> vui_console option" where
  "vui_console_put_char c con = vui_console_put_char_at c (current_row con) (current_col con) con"

text \<open>The arguments row and col are not used.\<close>

primrec vui_console_put_string_at :: "u8 list \<Rightarrow> u16 \<Rightarrow> u16 \<Rightarrow> vui_console \<Rightarrow> vui_console option" where
  "vui_console_put_string_at [] row col con = Some con"
| "vui_console_put_string_at (c # cs) row col con = do {
     con \<leftarrow> vui_console_put_char_at c (current_row con) (current_col con) con;
     vui_console_put_string_at cs row col con }"

definition vui_console_put_string :: "u8 list \<Rightarrow> vui_console \<Rightarrow> vui_console option" where
  "vui_console_put_string s con = vui_console_put_string_at s (current_row con) (current_col con) con"

definition vui_console_set_color :: "u32 \<Rightarrow> u32 \<Rightarrow> vui_console \<Rightarrow> vui_console" where
  "vui_console_set_color foreground background con = con\<lparr>fg_color := foreground, bg_color := background\<rparr>"

text \<open>The two characters are those that the function would put.\<close>

lemma put_new_line_is_put_char: "put_new_line con = vui_console_put_char 0x0A con"
  by (simp add: put_new_line_def vui_console_put_char_def vui_console_put_char_at_def)

lemma put_space_is_put_char: "put_space con = vui_console_put_char 0x20 con"
  by (simp add: put_space_def vui_console_put_char_def vui_console_put_char_at_def)


end
