(* ===== verification/ConsoleProps.thy ===== *)
theory ConsoleProps
  imports Console
begin

text \<open>
  The console shows a text: the terminal of lines and colours that the rows of the console
  represent, and the properties of text, new lines and colour sequences.
\<close>

section \<open>The terminal\<close>

text \<open>A cell: the character, the two colours, and whether they were set.\<close>

type_synonym cell = "u8 \<times> u32 \<times> u32 \<times> u8 \<times> u8"

definition row_cells :: "console_row \<Rightarrow> cell list" where
  "row_cells r = zip (buff r) (zip (color_fg r) (zip (color_bg r) (zip (color_set_fg r) (color_set_bg r))))"

record terminal =
  t_done :: "cell list list"
  t_line :: "cell list"
  t_fg :: u32
  t_bg :: u32

definition t_lines :: "terminal \<Rightarrow> cell list list" where
  "t_lines t = t_done t @ [t_line t]"

datatype item = Chr u8 | Newline | Colours "u8 list" "u8 list" "u8 list"

primrec item_bytes :: "item \<Rightarrow> u8 list" where
  "item_bytes (Chr c) = [c]"
| "item_bytes Newline = [0x0A]"
| "item_bytes (Colours d1 d2 d3) = 0x1B # 0x5B # d1 @ 0x3B # d2 @ 0x3B # d3 @ [0x6D]"

definition digits_ok :: "u8 list \<Rightarrow> bool" where
  "digits_ok d \<longleftrightarrow> length d \<le> 3 \<and> list_all (\<lambda>c. 0x30 \<le> c \<and> c \<le> 0x39) d"

primrec item_ok :: "item \<Rightarrow> bool" where
  "item_ok (Chr c) = (c \<notin> {0, 0x08, 0x09, 0x0A, 0x1B})"
| "item_ok Newline = True"
| "item_ok (Colours d1 d2 d3) = (digits_ok d1 \<and> digits_ok d2 \<and> digits_ok d3)"

definition decimal :: "u8 list \<Rightarrow> int" where
  "decimal d = foldl (\<lambda>n c. n * 10 + int (unat c - 0x30)) 0 d"

definition new_cell :: "u32 \<Rightarrow> u32 \<Rightarrow> terminal \<Rightarrow> u8 \<Rightarrow> cell" where
  "new_cell fg bg t c = (c, if t_fg t \<noteq> 0 then t_fg t else fg, if t_bg t \<noteq> 0 then t_bg t else bg,
     of_bool (t_fg t \<noteq> 0), of_bool (t_bg t \<noteq> 0))"

primrec item_step :: "u32 \<Rightarrow> u32 \<Rightarrow> item \<Rightarrow> terminal \<Rightarrow> terminal" where
  "item_step fg bg (Chr c) t = t\<lparr>t_line := t_line t @ [new_cell fg bg t c]\<rparr>"
| "item_step fg bg Newline t = t\<lparr>t_done := t_done t @ [t_line t], t_line := []\<rparr>"
| "item_step fg bg (Colours d1 d2 d3) t =
     (let (f, b) = background_of (decimal d3) (foreground_of (decimal d2)) in t\<lparr>t_fg := f, t_bg := b\<rparr>)"

definition start_terminal :: terminal where
  "start_terminal = \<lparr>t_done = [], t_line = [], t_fg = 0, t_bg = 0\<rparr>"

text \<open>The last lines of a text on a screen of R rows and C columns.\<close>

definition pad_line :: "nat \<Rightarrow> cell list \<Rightarrow> cell list" where
  "pad_line C l = l @ replicate (C - length l) (0, 0, 0, 0, 0)"

definition screen :: "nat \<Rightarrow> nat \<Rightarrow> cell list list \<Rightarrow> cell list list" where
  "screen R C ls = map (pad_line C) (drop (length ls - R) ls @ replicate (R - length ls) [])"

definition fits :: "nat \<Rightarrow> terminal \<Rightarrow> bool" where
  "fits C t \<longleftrightarrow> list_all (\<lambda>l. length l \<le> C) (t_lines t)"


section \<open>What the rows represent\<close>

text \<open>The fields that text does not change, as in the console con0.\<close>

definition same_frame :: "vui_console \<Rightarrow> vui_console \<Rightarrow> bool" where
  "same_frame con0 con \<longleftrightarrow> num_cols con = num_cols con0 \<and> num_rows con = num_rows con0
     \<and> fg_color con = fg_color con0 \<and> bg_color con = bg_color con0 \<and> length (captured_escape con) = 25"

definition row_ok :: "nat \<Rightarrow> console_row \<Rightarrow> bool" where
  "row_ok C r \<longleftrightarrow> length (buff r) = C \<and> length (color_fg r) = C \<and> length (color_bg r) = C
     \<and> length (color_set_fg r) = C \<and> length (color_set_bg r) = C"

definition displays :: "vui_console \<Rightarrow> vui_console \<Rightarrow> terminal \<Rightarrow> bool" where
  "displays con0 con t \<longleftrightarrow> same_frame con0 con
     \<and> list_all (row_ok (unat (num_cols con0))) (con_rows con)
     \<and> map row_cells (con_rows con) = screen (unat (num_rows con0)) (unat (num_cols con0)) (t_lines t)
     \<and> fits (unat (num_cols con0)) t
     \<and> unat (current_row con) = min (length (t_lines t)) (unat (num_rows con0))
     \<and> unat (current_col con) = length (t_line t) + 1
     \<and> use_color_override_fg con = (t_fg t \<noteq> 0) \<and> (t_fg t \<noteq> 0 \<longrightarrow> override_fg con = t_fg t)
     \<and> use_color_override_bg con = (t_bg t \<noteq> 0) \<and> (t_bg t \<noteq> 0 \<longrightarrow> override_bg con = t_bg t)"

text \<open>Drawing and the cursor are not part of it.\<close>

lemma shows_indep [simp]:
  "displays con0 (con\<lparr>drawn := d\<rparr>) t = displays con0 con t" "displays con0 (con\<lparr>show_cursor := b\<rparr>) t = displays con0 con t"
  "displays con0 (con\<lparr>current_pixel_x := px\<rparr>) t = displays con0 con t"
  "displays con0 (con\<lparr>current_pixel_y := px\<rparr>) t = displays con0 con t"
  "displays con0 (con\<lparr>capturing_escape_code := b\<rparr>) t = displays con0 con t"
  "displays con0 (con\<lparr>capture_num := n\<rparr>) t = displays con0 con t"
  by (simp_all add: displays_def same_frame_def)

lemma shows_cursor [simp]: "displays con0 (vui_console_update_cursor con) t = displays con0 con t"
  by (simp add: vui_console_update_cursor_def draw_def)

definition modes :: "vui_console \<Rightarrow> bool \<times> nat \<times> u8 list" where
  "modes con = (capturing_escape_code con, capture_num con, captured_escape con)"

lemma modes_indep [simp]:
  "modes (con\<lparr>drawn := d\<rparr>) = modes con" "modes (con\<lparr>show_cursor := b\<rparr>) = modes con"
  "modes (vui_console_update_cursor con) = modes con"
  by (simp_all add: modes_def vui_console_update_cursor_def draw_def)

lemma around_cursor_displays:
  assumes "body (con\<lparr>show_cursor := False\<rparr>) = Some con1" "displays con0 con1 t"
  shows "\<exists>con'. around_cursor c body con = Some con' \<and> displays con0 con' t \<and> modes con' = modes con1"
  using assms by (auto simp: around_cursor_def Let_def draw_def)

lemma around_cursor_None: "body (con\<lparr>show_cursor := False\<rparr>) = None \<Longrightarrow> around_cursor c body con = None"
  by (simp add: around_cursor_def Let_def)


section \<open>New lines\<close>

lemma row_cells_empty: "row_cells (empty_row C) = pad_line C []"
  by (simp add: row_cells_def empty_row_def pad_line_def zip_replicate)

lemma row_ok_empty: "row_ok C (empty_row C)"
  by (simp add: row_ok_def empty_row_def)

lemma row_dirty [simp]: "row_cells (r\<lparr>dirty := b\<rparr>) = row_cells r" "row_ok C (r\<lparr>dirty := b\<rparr>) = row_ok C r"
  by (simp_all add: row_cells_def row_ok_def)

lemma displays_rows:
  assumes "map row_cells rs = map row_cells (con_rows con)" "\<And>C. list_all (row_ok C) rs = list_all (row_ok C) (con_rows con)"
  shows "displays con0 (con\<lparr>con_rows := rs\<rparr>) t = displays con0 con t"
  using assms by (simp add: displays_def same_frame_def)

lemma redraw_displays: "displays con0 (vui_console_draw_from_struct con) t = displays con0 con t"
proof -
  let ?rs = "map (\<lambda>r. if dirty r \<or> redraw_window con then r\<lparr>dirty := False\<rparr> else r) (con_rows con)"
  have "displays con0 (con\<lparr>con_rows := ?rs\<rparr>) t = displays con0 con t"
    by (rule displays_rows) (simp_all add: list.pred_map o_def if_distrib cong: if_cong)
  then show ?thesis
    by (simp add: vui_console_draw_from_struct_def Let_def displays_def same_frame_def)
qed

lemma redraw_modes: "modes (vui_console_draw_from_struct con) = modes con"
  by (simp add: modes_def vui_console_draw_from_struct_def Let_def)

lemma screen_scroll:
  assumes "0 < R" "R \<le> length ls"
  shows "screen R C (ls @ [[]]) = tl (screen R C ls) @ [pad_line C []]"
proof -
  have "drop (Suc (length ls) - R) ls = tl (drop (length ls - R) ls)"
    using assms by (simp add: Suc_diff_le drop_Suc tl_drop)
  moreover have "drop (length ls - R) ls \<noteq> []" using assms by simp
  ultimately show ?thesis using assms by (simp add: screen_def map_tl)
qed

lemma screen_next: "length ls < R \<Longrightarrow> screen R C (ls @ [[]]) = screen R C ls"
  by (simp add: screen_def flip: replicate_Suc)

lemma scroll_up_displays:
  assumes "scroll_rows (unat (num_cols con)) (con_rows con) = Some rs"
  shows "\<exists>con'. vui_console_scroll_up True con = Some con' \<and> modes con' = modes con
    \<and> displays con0 con' t = displays con0 (con\<lparr>con_rows := rs, current_col := 1, current_row := num_rows con\<rparr>) t"
  unfolding vui_console_scroll_up_def assms bind.bind_lunit Let_def if_True
  by (rule exI, rule conjI, rule refl, rule conjI, simp only: redraw_modes, simp add: modes_def draw_def)
    (simp only: redraw_displays, simp add: draw_def displays_def same_frame_def)

lemma new_line_displays:
  assumes s: "displays con0 con t" and R: "0 < unat (num_rows con0)"
  shows "\<exists>con'. vui_console_do_new_line con = Some con' \<and> displays con0 con' (item_step fg bg Newline t) \<and> modes con' = modes con"
proof -
  let ?R = "unat (num_rows con0)" and ?C = "unat (num_cols con0)" 
  define t' where "t' = item_step fg bg Newline t"
  have frame: "num_rows con = num_rows con0" "num_cols con = num_cols con0" using s by (simp_all add: displays_def same_frame_def)
  have lines: "t_lines t' = t_lines t @ [[]]" "t_line t' = []" "t_fg t' = t_fg t" "t_bg t' = t_bg t" by (simp_all add: t'_def t_lines_def)
  have fit: "fits ?C t'" using s unfolding displays_def fits_def lines by simp
  have row: "unat (current_row con) = min (length (t_lines t)) ?R" using s by (simp add: displays_def)
  show ?thesis
  proof (cases "current_row con = num_rows con")
    case True
    then have le: "?R \<le> length (t_lines t)" using row frame by simp
    have cells: "map row_cells (con_rows con) = screen ?R ?C (t_lines t)" using s by (simp add: displays_def)
    have len: "length (con_rows con) = ?R" using arg_cong [OF cells, of length] le by (simp add: screen_def)
    then obtain r rs where rs: "con_rows con = r # rs" using R by (cases "con_rows con") auto
    obtain rows where rows: "scroll_rows (unat (num_cols con)) (con_rows con) = Some rows"
      "map row_cells rows = screen ?R ?C (t_lines t')" "list_all (row_ok ?C) rows"
    proof -
      have "map row_cells (map (\<lambda>r. r\<lparr>dirty := False\<rparr>) rs) = tl (screen ?R ?C (t_lines t))"
        using arg_cong [OF cells, of tl] rs by (simp add: o_def)
      moreover have "list_all (row_ok ?C) rs" using s rs by (simp add: displays_def)
      ultimately show ?thesis
        using screen_scroll [OF R le, of ?C] frame
        by (intro that [of "map (\<lambda>r. r\<lparr>dirty := False\<rparr>) rs @ [(empty_row ?C)\<lparr>dirty := dirty (last (con_rows con))\<rparr>]"])
          (simp_all add: scroll_rows_def rs row_cells_empty row_ok_empty lines list.pred_map o_def)
    qed
    let ?con = "con\<lparr>current_col := 1\<rparr>"
    have "displays con0 (?con\<lparr>con_rows := rows, current_col := 1, current_row := num_rows ?con\<rparr>) t'"
      using s rows(2,3) fit frame le by (simp add: displays_def same_frame_def lines)
    moreover obtain con' where "vui_console_scroll_up True ?con = Some con'" "modes con' = modes ?con"
      "displays con0 con' t' = displays con0 (?con\<lparr>con_rows := rows, current_col := 1, current_row := num_rows ?con\<rparr>) t'"
      using scroll_up_displays [of ?con rows con0 t'] rows(1) by auto
    ultimately show ?thesis using True by (simp add: vui_console_do_new_line_def Let_def modes_def del: item_step.simps flip: t'_def)
  next
    case False
    then have "unat (current_row con) \<noteq> ?R" using frame by (simp add: word_unat_eq_iff)
    then have lt: "length (t_lines t) < ?R" using row by simp
    let ?con = "con\<lparr>current_col := 1, current_row := current_row con + 1\<rparr>"
    have "unat (current_row con) < 65535" using row lt unat_word_bounds(2) [of "num_rows con0"] by simp
    then have "unat (current_row con + 1) = unat (current_row con) + 1" by (simp add: unat_plus_if')
    then have "displays con0 ?con t'"
      using s fit lt row by (simp add: displays_def same_frame_def lines screen_next)
    then show ?thesis using False by (simp add: vui_console_do_new_line_def Let_def modes_def del: item_step.simps flip: t'_def)
  qed
qed


section \<open>Characters\<close>

lemma put_new_line_displays:
  assumes "displays con0 con t" "0 < unat (num_rows con0)"
  shows "\<exists>con'. put_new_line con = Some con' \<and> displays con0 con' (item_step fg bg Newline t) \<and> modes con' = modes con"
proof -
  obtain con1 where con1: "vui_console_do_new_line (con\<lparr>show_cursor := False\<rparr>) = Some con1"
    "displays con0 con1 (item_step fg bg Newline t)" "modes con1 = modes (con\<lparr>show_cursor := False\<rparr>)"
    using new_line_displays [of con0 "con\<lparr>show_cursor := False\<rparr>" t fg bg] assms by (auto simp del: item_step.simps)
  from around_cursor_displays [of vui_console_do_new_line con con1 con0 "item_step fg bg Newline t" "0x0A", OF con1(1,2)] con1(3)
  show ?thesis by (simp add: put_new_line_def)
qed

lemma zip_list_update: "zip (xs[i := x]) (ys[i := y]) = (zip xs ys)[i := (x, y)]"
  by (simp add: update_zip)

lemma put_row_cells:
  "row_cells (put_row c j fg bg con r) = (row_cells r)[j := (c, fg, bg, of_bool (use_color_override_fg con), of_bool (use_color_override_bg con))]"
  by (simp add: row_cells_def put_row_def zip_list_update of_bool_def)

lemma put_row_ok: "row_ok C (put_row c j fg bg con r) = row_ok C r"
  by (simp add: row_ok_def put_row_def)

lemma pad_line_update: "length l < C \<Longrightarrow> (pad_line C l)[length l := x] = pad_line C (l @ [x])"
  by (cases "C - length l") (simp_all add: pad_line_def list_update_append)

text \<open>The current line is the row of the cursor.\<close>

lemma screen_update:
  assumes "0 < R" "length l < C"
  shows "(screen R C (ls @ [l]))[min (Suc (length ls)) R - 1 := pad_line C (l @ [x])] = screen R C (ls @ [l @ [x]])"
    "screen R C (ls @ [l]) ! (min (Suc (length ls)) R - 1) = pad_line C l"
    "min (Suc (length ls)) R - 1 < length (screen R C (ls @ [l]))"
proof -
  let ?d = "drop (Suc (length ls) - R) ls"
  have sc: "screen R C (ls @ [m]) = map (pad_line C) ?d @ pad_line C m # map (pad_line C) (replicate (R - Suc (length ls)) [])" for m
    using assms by (simp add: screen_def)
  have len: "length (map (pad_line C) ?d) = min (Suc (length ls)) R - 1" using assms by simp
  show "(screen R C (ls @ [l]))[min (Suc (length ls)) R - 1 := pad_line C (l @ [x])] = screen R C (ls @ [l @ [x]])"
    "screen R C (ls @ [l]) ! (min (Suc (length ls)) R - 1) = pad_line C l"
    "min (Suc (length ls)) R - 1 < length (screen R C (ls @ [l]))"
    unfolding sc len [symmetric] by (simp_all only: list_update_length nth_append_length) simp
qed

lemma put_default_plain:
  assumes "\<not> capturing_escape_code con" "unat (current_col con) \<noteq> unat (num_cols con) + 1" "row \<noteq> 0" "col \<noteq> 0"
    and "unat row \<le> length (con_rows con)" "unat col \<le> unat (num_cols con)" "i = unat row - 1" "j = unat col - 1"
    and "fg = (if use_color_override_fg con then override_fg con else fg_color con)"
    and "bg = (if use_color_override_bg con then override_bg con else bg_color con)"
  shows "put_default c row col con = Some (con\<lparr>con_rows := (con_rows con)[i := put_row c j fg bg con (con_rows con ! i)],
     drawn := drawn con @ [Draw_char (ucast c) (current_pixel_x con) (current_pixel_y con) fg bg],
     current_col := current_col con + 1, current_pixel_x := current_pixel_x con + char_width con\<rparr>)"
  using assms by (simp add: put_default_def Let_def draw_def)

lemma list_all_update: "list_all P xs \<Longrightarrow> P x \<Longrightarrow> list_all P (xs[i := x])"
  by (auto simp: list_all_iff dest: subsetD [OF set_update_subset_insert])

lemma put_default_displays:
  assumes s: "displays con0 con t" and R: "0 < unat (num_rows con0)" and C: "unat (num_cols con0) < 65535"
    and e: "\<not> capturing_escape_code con" and lt: "length (t_line t) < unat (num_cols con0)"
  shows "\<exists>con'. put_default c (current_row con) (current_col con) con = Some con'
    \<and> displays con0 con' (item_step (fg_color con0) (bg_color con0) (Chr c) t) \<and> modes con' = modes con"
proof -
  let ?R = "unat (num_rows con0)" and ?C = "unat (num_cols con0)" and ?rs = "con_rows con"
  define t' where "t' = item_step (fg_color con0) (bg_color con0) (Chr c) t"
  define i where "i = unat (current_row con) - 1"
  define x where "x = new_cell (fg_color con0) (bg_color con0) t c"
  have t': "t_line t' = t_line t @ [x]" "t_done t' = t_done t" "t_fg t' = t_fg t" "t_bg t' = t_bg t"
    by (simp_all add: t'_def x_def)
  have frame: "num_rows con = num_rows con0" "num_cols con = num_cols con0" "fg_color con = fg_color con0" "bg_color con = bg_color con0"
    using s by (simp_all add: displays_def same_frame_def)
  have row: "unat (current_row con) = min (Suc (length (t_done t))) ?R" and col: "unat (current_col con) = Suc (length (t_line t))"
    and cells: "map row_cells ?rs = screen ?R ?C (t_done t @ [t_line t])"
    using s by (simp_all add: displays_def t_lines_def)
  note upd = screen_update [OF R lt, of "t_done t", folded row, folded i_def]
  have i: "i < length ?rs" using upd(3) arg_cong [OF cells, of length] by simp
  have cell: "row_cells (?rs ! i) = pad_line ?C (t_line t)"
    using arg_cong [OF cells, of "\<lambda>xs. xs ! i"] i upd(2) by simp
  define fg where "fg = (if use_color_override_fg con then override_fg con else fg_color con)"
  define bg where "bg = (if use_color_override_bg con then override_bg con else bg_color con)"
  let ?row = "put_row c (length (t_line t)) fg bg con (?rs ! i)"
  have x: "x = (c, fg, bg, of_bool (use_color_override_fg con), of_bool (use_color_override_bg con))"
    using s by (simp add: x_def new_cell_def displays_def frame fg_def bg_def)
  have "map row_cells (?rs[i := ?row]) = (map row_cells ?rs)[i := row_cells ?row]" by (simp add: map_update)
  also have "row_cells ?row = pad_line ?C (t_line t @ [x])"
    unfolding put_row_cells cell x [symmetric] by (rule pad_line_update [OF lt])
  finally have new: "map row_cells (?rs[i := ?row]) = screen ?R ?C (t_done t @ [t_line t @ [x]])"
    by (simp only: cells upd(1))
  have ok: "list_all (row_ok ?C) (?rs[i := ?row])"
  proof -
    have "list_all (row_ok ?C) ?rs" using s by (simp add: displays_def)
    moreover from this i have "row_ok ?C ?row" by (simp add: put_row_ok list_all_length)
    ultimately show ?thesis by (rule list_all_update)
  qed
  have "unat (current_col con + 1) = Suc (Suc (length (t_line t)))"
    using col lt C by (simp add: unat_plus_if')
  then have "displays con0 (con\<lparr>con_rows := ?rs[i := ?row], current_col := current_col con + 1\<rparr>) t'"
    using s new ok lt by (simp add: displays_def same_frame_def t_lines_def t' fits_def)
  then have "displays con0 (con\<lparr>con_rows := ?rs[i := ?row], drawn := ds, current_col := current_col con + 1, current_pixel_x := px\<rparr>) t'" for ds px
    by (simp add: displays_def same_frame_def)
  moreover have "current_row con \<noteq> 0" "current_col con \<noteq> 0" using row col R by (auto simp flip: unat_eq_0)
  moreover have "unat (current_col con) \<noteq> unat (num_cols con) + 1" "unat (current_col con) \<le> unat (num_cols con)"
    using col lt frame by simp_all
  moreover have "unat (current_row con) \<le> length ?rs" "length (t_line t) = unat (current_col con) - 1"
    using i col by (simp_all add: i_def)
  ultimately show ?thesis
    using put_default_plain [OF e _ _ _ _ _ i_def _ fg_def bg_def, of "current_col con" "length (t_line t)" c]
    by (simp add: modes_def flip: t'_def del: item_step.simps)
qed

lemma put_default_behind:
  assumes s: "displays con0 con t" and R: "0 < unat (num_rows con0)"
    and e: "\<not> capturing_escape_code con" and len: "length (t_line t) = unat (num_cols con0)"
  shows "put_default c (current_row con) (current_col con) con = None"
proof -
  have frame: "num_cols con = num_cols con0" and col: "unat (current_col con) = Suc (unat (num_cols con0))"
    using s len by (simp_all add: displays_def same_frame_def)
  obtain con1 where con1: "put_new_line con = Some con1" "displays con0 con1 (item_step 0 0 Newline t)"
    using put_new_line_displays [OF s R, of 0 0] by auto
  have "num_cols con1 = num_cols con0" using con1(2) by (simp add: displays_def same_frame_def)
  then show ?thesis using e frame col con1(1) by (simp add: put_default_def)
qed

text \<open>Text and new lines, outside an escape sequence.\<close>

lemma put_chr_displays:
  assumes s: "displays con0 con t" and R: "0 < unat (num_rows con0)" and C: "unat (num_cols con0) < 65535"
    and e: "\<not> capturing_escape_code con" and c: "c \<notin> {0x08, 0x09, 0x0A, 0x1B}"
  shows "length (t_line t) < unat (num_cols con0) \<Longrightarrow> \<exists>con'. vui_console_put_char c con = Some con'
      \<and> displays con0 con' (item_step (fg_color con0) (bg_color con0) (Chr c) t) \<and> modes con' = modes con"
    and "length (t_line t) = unat (num_cols con0) \<Longrightarrow> vui_console_put_char c con = None"
proof -
  let ?con = "con\<lparr>show_cursor := False\<rparr>"
  let ?body = "put_default c (current_row con) (current_col con)"
  have put: "vui_console_put_char c con = around_cursor c ?body con"
    using c by (simp add: vui_console_put_char_def vui_console_put_char_at_def)
  have s': "displays con0 ?con t" and e': "\<not> capturing_escape_code ?con" using s e by simp_all
  show "\<exists>con'. vui_console_put_char c con = Some con'
      \<and> displays con0 con' (item_step (fg_color con0) (bg_color con0) (Chr c) t) \<and> modes con' = modes con"
    if lt: "length (t_line t) < unat (num_cols con0)"
  proof -
    obtain con1 where con1: "?body ?con = Some con1"
      "displays con0 con1 (item_step (fg_color con0) (bg_color con0) (Chr c) t)" "modes con1 = modes ?con"
      using put_default_displays [OF s' R C e' lt, of c] by auto
    from around_cursor_displays [of ?body, OF con1(1,2), of c] con1(3) show ?thesis by (simp add: put)
  qed
  show "vui_console_put_char c con = None" if "length (t_line t) = unat (num_cols con0)"
    using put_default_behind [OF s' R e' that, of c] by (simp add: put around_cursor_None)
qed

lemma modes_capturing: "modes con' = modes con \<Longrightarrow> capturing_escape_code con' = capturing_escape_code con"
  by (simp add: modes_def)


section \<open>Colour sequences\<close>

text \<open>The console has captured w behind an escape character.\<close>

definition captured :: "u8 list \<Rightarrow> vui_console \<Rightarrow> bool" where
  "captured w con \<longleftrightarrow> capturing_escape_code con \<and> capture_num con = length w
     \<and> length (captured_escape con) = 25 \<and> take (length w) (captured_escape con) = w"

lemma captured_modes: "modes con' = modes con \<Longrightarrow> captured w con' = captured w con"
  by (simp add: captured_def modes_def)

lemma around_cursor_captured:
  assumes "body (con\<lparr>show_cursor := False\<rparr>) = Some con1" "displays con0 con1 t" "captured w con1" "p = around_cursor c body con"
  shows "\<exists>con'. p = Some con' \<and> displays con0 con' t \<and> captured w con'"
proof -
  obtain con' where c: "around_cursor c body con = Some con'" "displays con0 con' t" "modes con' = modes con1"
    using around_cursor_displays [of body con con1 con0 t c] assms(1,2) by blast
  then show ?thesis using assms(3,4) captured_modes [OF c(3)] by simp
qed

lemma escape_begins:
  assumes "displays con0 con t"
  shows "\<exists>con'. vui_console_put_char 0x1B con = Some con' \<and> displays con0 con' t \<and> captured [] con'"
proof -
  let ?con = "con\<lparr>show_cursor := False, capturing_escape_code := True, capture_num := 0\<rparr>"
  have "displays con0 ?con t" "captured [] ?con" using assms by (simp_all add: captured_def displays_def same_frame_def)
  moreover have "vui_console_put_char 0x1B con = around_cursor 0x1B (\<lambda>con. Some (con\<lparr>capturing_escape_code := True, capture_num := 0\<rparr>)) con"
    by (simp add: vui_console_put_char_def vui_console_put_char_at_def)
  ultimately show ?thesis
    by (intro around_cursor_captured [of "\<lambda>con. Some (con\<lparr>capturing_escape_code := True, capture_num := 0\<rparr>)" con ?con]) simp_all
qed

lemma escape_captures:
  assumes "displays con0 con t" "captured w con" "length w < 25" "c \<notin> {0x08, 0x09, 0x0A, 0x1B, 0x6D}"
  shows "\<exists>con'. vui_console_put_char c con = Some con' \<and> displays con0 con' t \<and> captured (w @ [c]) con'"
proof -
  let ?con = "con\<lparr>show_cursor := False, captured_escape := (captured_escape con)[length w := c], capture_num := length w + 1\<rparr>"
  have "displays con0 ?con t" using assms(1) by (simp add: displays_def same_frame_def)
  moreover have "captured (w @ [c]) ?con"
    using assms(2,3) by (simp add: captured_def take_Suc_conv_app_nth take_update_swap)
  moreover have "put_default c (current_row con) (current_col con) (con\<lparr>show_cursor := False\<rparr>) = Some ?con"
    using assms(2-4) by (simp add: put_default_def vui_console_process_escape_def captured_def)
  moreover have "vui_console_put_char c con = around_cursor c (put_default c (current_row con) (current_col con)) con"
    using assms(4) by (simp add: vui_console_put_char_def vui_console_put_char_at_def)
  ultimately show ?thesis
    by - (rule around_cursor_captured [of "put_default c (current_row con) (current_col con)" con ?con], assumption+)
qed

lemma put_string_Cons:
  "vui_console_put_string_at (c # cs) row col con = do { con \<leftarrow> vui_console_put_char c con; vui_console_put_string_at cs row col con }"
  by (simp add: vui_console_put_char_def)

lemma put_string_append:
  "vui_console_put_string_at (a @ b) row col con = do { con \<leftarrow> vui_console_put_string_at a row col con; vui_console_put_string_at b row col con }"
  by (induction a arbitrary: con) auto

lemma escape_captures_all:
  assumes "displays con0 con t" "captured w con" "length w + length u \<le> 25" "list_all (\<lambda>c. c \<notin> {0x08, 0x09, 0x0A, 0x1B, 0x6D}) u"
  shows "\<exists>con'. vui_console_put_string_at u row col con = Some con' \<and> displays con0 con' t \<and> captured (w @ u) con'"
  using assms
proof (induction u arbitrary: w con)
  case (Cons c u)
  obtain con1 where con1: "vui_console_put_char c con = Some con1" "displays con0 con1 t" "captured (w @ [c]) con1"
    using escape_captures [OF Cons.prems(1,2), of c] Cons.prems(3,4) by auto
  show ?case using Cons.IH [OF con1(2,3)] Cons.prems(3,4) con1(1) unfolding put_string_Cons by simp
qed simp

lemma split_digits:
  assumes "k = 1 \<or> k = 2 \<or> k = 3" "k - 1 < length sets" "sets ! (k - 1) = a @ replicate m 0"
    and "length a + m = 4" "length d \<le> m" "list_all (\<lambda>c. c \<noteq> 0x5B \<and> c \<noteq> 0x3B) d"
  shows "split_escape (d @ cs) k (length a) sets = split_escape cs k (length a + length d) (sets[k - 1 := a @ d @ replicate (m - length d) 0])"
  using assms
proof (induction d arbitrary: a m sets)
  case Nil
  have "sets[k - 1 := a @ replicate m 0] = sets" using list_update_id [of sets "k - 1", unfolded Nil(3)] by simp
  then show ?case by simp
next
  case (Cons c d)
  obtain m' where m: "m = Suc m'" using Cons.prems(5) by (cases m) auto
  let ?sets = "sets[k - 1 := (a @ [c]) @ replicate m' 0]"
  have "(sets ! (k - 1))[length a := c] = (a @ [c]) @ replicate m' 0" using Cons.prems(3) m by (simp add: list_update_append)
  then have "split_escape ((c # d) @ cs) k (length a) sets = split_escape (d @ cs) k (length (a @ [c])) ?sets"
    using Cons.prems(1,4,6) m by auto
  also have "\<dots> = split_escape cs k (length (a @ [c]) + length d) (?sets[k - 1 := (a @ [c]) @ d @ replicate (m' - length d) 0])"
    using Cons.prems m by (intro Cons.IH) auto
  finally show ?case using m by simp
qed

lemma digits_ok_chars: "digits_ok d \<Longrightarrow> list_all (\<lambda>c. c \<notin> {0x08, 0x09, 0x0A, 0x1B, 0x6D}) d" "digits_ok d \<Longrightarrow> list_all (\<lambda>c. c \<noteq> 0x5B \<and> c \<noteq> 0x3B) d"
  by (auto simp: digits_ok_def list_all_iff)

definition pad4 :: "u8 list \<Rightarrow> u8 list" where
  "pad4 d = d @ replicate (4 - length d) 0"

lemma split_part:
  "m = k + 1 \<Longrightarrow> split_escape (0x3B # cs) k n sets = split_escape cs m 0 sets"
  "split_escape (0x5B # cs) k n sets = split_escape cs 1 n sets"
  by simp_all

lemma split_semicolon:
  "split_escape (0x3B # cs) 1 n sets = split_escape cs 2 0 sets" "split_escape (0x3B # cs) 2 n sets = split_escape cs 3 0 sets"
  by (rule split_part(1), simp)+

lemma split_sequence:
  assumes "digits_ok d1" "digits_ok d2" "digits_ok d3"
  shows "split_escape (0x5B # d1 @ 0x3B # d2 @ 0x3B # d3) 0 0 (replicate 3 (replicate 4 0)) = Some [pad4 d1, pad4 d2, pad4 d3]"
proof -
  have len: "length d1 \<le> 3" "length d2 \<le> 3" "length d3 \<le> 3" using assms by (simp_all add: digits_ok_def)
  let ?z = "replicate 4 (0 :: u8)"
  have "split_escape (d1 @ 0x3B # d2 @ 0x3B # d3) 1 0 [?z, ?z, ?z] = split_escape (0x3B # d2 @ 0x3B # d3) 1 (length d1) [pad4 d1, ?z, ?z]"
    using split_digits [of 1 "[?z, ?z, ?z]" "[]" 4 d1 "0x3B # d2 @ 0x3B # d3"] len digits_ok_chars(2) [OF assms(1)] by (simp add: pad4_def)
  moreover have "split_escape (d2 @ 0x3B # d3) 2 0 [pad4 d1, ?z, ?z] = split_escape (0x3B # d3) 2 (length d2) [pad4 d1, pad4 d2, ?z]"
    using split_digits [of 2 "[pad4 d1, ?z, ?z]" "[]" 4 d2 "0x3B # d3"] len digits_ok_chars(2) [OF assms(2)] by (simp add: pad4_def [of d2])
  moreover have "split_escape d3 3 0 [pad4 d1, pad4 d2, ?z] = Some [pad4 d1, pad4 d2, pad4 d3]"
    using split_digits [of 3 "[pad4 d1, pad4 d2, ?z]" "[]" 4 d3 "[]"] len digits_ok_chars(2) [OF assms(3)]
    by (simp add: pad4_def [of d3] numeral_2_eq_2)
  moreover have "replicate 3 ?z = [?z, ?z, ?z]" by (simp add: numeral_3_eq_3)
  ultimately show ?thesis by (simp only: split_semicolon split_part(2))
qed

lemma digits_from_padded:
  "list_all (\<lambda>c. 0x30 \<le> c \<and> c \<le> 0x39) d \<Longrightarrow> digits_from n (d @ 0 # z) = Some (foldl (\<lambda>n c. n * 10 + int (unat c - 0x30)) n d)"
  by (induction d arbitrary: n) simp_all

lemma digit_char:
  assumes "0x30 \<le> (c :: u8)"
  shows "c \<noteq> 0x20" "\<not> c \<le> 13" "c \<noteq> 0x2D" "c \<noteq> 0x2B"
  using assms order_trans [of "0x30" c 13] by auto

lemma atoi_padded:
  assumes "digits_ok d"
  shows "atoi (pad4 d) = Some (decimal d)"
proof -
  obtain z where z: "pad4 d = d @ 0 # z" using assms by (cases "4 - length d") (auto simp: pad4_def digits_ok_def)
  have "dropWhile (\<lambda>c. c = 0x20 \<or> 9 \<le> c \<and> c \<le> 13) (d @ 0 # z) = d @ 0 # z"
    using assms by (cases d) (auto simp: digits_ok_def digit_char)
  moreover have "d @ 0 # z = c # cs \<Longrightarrow> c \<noteq> 0x2D \<and> c \<noteq> 0x2B" for c cs
    using assms by (cases d) (auto simp: digits_ok_def)
  moreover have "digits_from 0 (d @ 0 # z) = Some (decimal d)"
    using digits_from_padded [of d 0 z] assms by (simp add: digits_ok_def decimal_def)
  ultimately show ?thesis by (auto simp: atoi_def z split: list.split)
qed

lemma escape_ends:
  assumes s: "displays con0 con t" and d: "digits_ok d1" "digits_ok d2" "digits_ok d3"
    and w: "captured (0x5B # d1 @ 0x3B # d2 @ 0x3B # d3) con"
  shows "\<exists>con'. vui_console_put_char 0x6D con = Some con' \<and> displays con0 con' (item_step fg bg (Colours d1 d2 d3) t)
    \<and> \<not> capturing_escape_code con'"
proof -
  define u where "u = 0x5B # d1 @ 0x3B # d2 @ 0x3B # d3"
  obtain f b where fb: "background_of (decimal d3) (foreground_of (decimal d2)) = (f, b)" by fastforce
  let ?con = "con\<lparr>show_cursor := False, captured_escape := (captured_escape con)[length u := 0], capturing_escape_code := False,
      override_fg := f, override_bg := b, use_color_override_fg := f \<noteq> 0, use_color_override_bg := b \<noteq> 0, capture_num := 0\<rparr>"
  have len: "length u < 25" using d by (simp add: u_def digits_ok_def)
  have w': "capturing_escape_code con" "capture_num con = length u" "take (length u) (captured_escape con) = u"
    using w by (simp_all add: captured_def u_def)
  have "vui_console_process_escape 0x6D (con\<lparr>show_cursor := False\<rparr>) = Some ?con"
    using len w' split_sequence [OF d] atoi_padded [OF d(2)] atoi_padded [OF d(3)] fb
    by (simp add: vui_console_process_escape_def Let_def flip: u_def)
  then have "put_default 0x6D (current_row con) (current_col con) (con\<lparr>show_cursor := False\<rparr>) = Some ?con"
    using w' by (simp add: put_default_def)
  moreover have "displays con0 ?con (item_step fg bg (Colours d1 d2 d3) t)"
    using s fb by (simp add: displays_def same_frame_def t_lines_def fits_def)
  moreover have "vui_console_put_char 0x6D con = around_cursor 0x6D (put_default 0x6D (current_row con) (current_col con)) con"
    by (simp add: vui_console_put_char_def vui_console_put_char_at_def)
  ultimately obtain con' where "vui_console_put_char 0x6D con = Some con'"
    "displays con0 con' (item_step fg bg (Colours d1 d2 d3) t)" "modes con' = modes ?con"
    using around_cursor_displays [of "put_default 0x6D (current_row con) (current_col con)" con ?con con0 _ "0x6D"] by metis
  then show ?thesis by (auto simp: modes_def)
qed

lemma colours_displayed:
  assumes s: "displays con0 con t" and d: "digits_ok d1" "digits_ok d2" "digits_ok d3"
  shows "\<exists>con'. vui_console_put_string_at (item_bytes (Colours d1 d2 d3)) row col con = Some con'
    \<and> displays con0 con' (item_step fg bg (Colours d1 d2 d3) t) \<and> \<not> capturing_escape_code con'"
proof -
  define u where "u = 0x5B # d1 @ 0x3B # d2 @ 0x3B # d3"
  have bytes: "item_bytes (Colours d1 d2 d3) = 0x1B # u @ [0x6D]" by (simp add: u_def)
  obtain con1 where con1: "vui_console_put_char 0x1B con = Some con1" "displays con0 con1 t" "captured [] con1"
    using escape_begins [OF s] by blast
  have "length u \<le> 25" "list_all (\<lambda>c. c \<notin> {0x08, 0x09, 0x0A, 0x1B, 0x6D}) u"
    using d digits_ok_chars(1) by (simp_all add: u_def digits_ok_def)
  then obtain con2 where con2: "vui_console_put_string_at u row col con1 = Some con2" "displays con0 con2 t" "captured u con2"
    using escape_captures_all [OF con1(2,3), of u row col] by (auto simp del: vui_console_put_string_at.simps)
  obtain con3 where con3: "vui_console_put_char 0x6D con2 = Some con3" "displays con0 con3 (item_step fg bg (Colours d1 d2 d3) t)"
    "\<not> capturing_escape_code con3"
    using escape_ends [OF con2(2) d con2(3) [unfolded u_def]] by blast
  show ?thesis
    unfolding bytes put_string_Cons put_string_append con1(1) bind.bind_lunit con2(1) using con3
    by (simp add: put_string_Cons del: vui_console_put_string_at.simps(2) item_step.simps)
qed

section \<open>Texts\<close>

lemma fits_step: "\<not> fits C t \<Longrightarrow> \<not> fits C (item_step fg bg i t)"
  by (cases i) (auto simp: fits_def t_lines_def split: prod.split)

lemma fits_fold: "\<not> fits C t \<Longrightarrow> \<not> fits C (fold (item_step fg bg) is t)"
  by (induction "is" arbitrary: t) (simp_all add: fits_step)

lemma fits_full: "length (t_line t) = C \<Longrightarrow> \<not> fits C (item_step fg bg (Chr c) t)"
  by (simp add: fits_def t_lines_def)

lemma item_displayed:
  assumes s: "displays con0 con t" and R: "0 < unat (num_rows con0)" and C: "unat (num_cols con0) < 65535"
    and e: "\<not> capturing_escape_code con" and i: "item_ok i"
  defines "t' \<equiv> item_step (fg_color con0) (bg_color con0) i t"
  shows "case vui_console_put_string_at (item_bytes i) row col con of
      Some con' \<Rightarrow> displays con0 con' t' \<and> \<not> capturing_escape_code con' | None \<Rightarrow> \<not> fits (unat (num_cols con0)) t'"
proof (cases i)
  case (Chr c)
  have c: "c \<notin> {0x08, 0x09, 0x0A, 0x1B}" using i Chr by simp
  have "length (t_line t) \<le> unat (num_cols con0)" using s by (simp add: displays_def fits_def t_lines_def)
  then consider "length (t_line t) < unat (num_cols con0)" | "length (t_line t) = unat (num_cols con0)" by linarith
  then show ?thesis
  proof cases
    case 1
    from put_chr_displays(1) [OF s R C e c 1] obtain con' where "vui_console_put_char c con = Some con'"
      "displays con0 con' t'" "modes con' = modes con" by (auto simp: t'_def Chr simp del: item_step.simps)
    then show ?thesis using modes_capturing [of con' con] e by (simp add: Chr put_string_Cons del: vui_console_put_string_at.simps(2))
  next
    case 2
    then show ?thesis
      using put_chr_displays(2) [OF s R C e c 2] fits_full [OF 2, of "fg_color con0" "bg_color con0" c]
      by (simp add: t'_def Chr put_string_Cons del: vui_console_put_string_at.simps(2) item_step.simps)
  qed
next
  case Newline
  have put: "vui_console_put_char 0x0A con = put_new_line con" by (simp add: put_new_line_is_put_char)
  from put_new_line_displays [OF s R, of "fg_color con0" "bg_color con0"] obtain con' where
    "put_new_line con = Some con'" "displays con0 con' t'" "modes con' = modes con" by (auto simp: t'_def Newline simp del: item_step.simps)
  then show ?thesis using modes_capturing [of con' con] e by (simp add: Newline put_string_Cons put del: vui_console_put_string_at.simps(2))
next
  case (Colours d1 d2 d3)
  have "digits_ok d1" "digits_ok d2" "digits_ok d3" using i Colours by simp_all
  from colours_displayed [OF s this, of row col "fg_color con0" "bg_color con0"]
  show ?thesis unfolding Colours t'_def by (auto simp del: item_step.simps item_bytes.simps)
qed

lemma items_displayed:
  assumes "displays con0 con t" "0 < unat (num_rows con0)" "unat (num_cols con0) < 65535"
    and "\<not> capturing_escape_code con" "list_all item_ok is"
  shows "case vui_console_put_string_at (concat (map item_bytes is)) row col con of
      Some con' \<Rightarrow> displays con0 con' (fold (item_step (fg_color con0) (bg_color con0)) is t)
    | None \<Rightarrow> \<not> fits (unat (num_cols con0)) (fold (item_step (fg_color con0) (bg_color con0)) is t)"
  using assms
proof (induction "is" arbitrary: con t)
  case (Cons i "is")
  let ?t' = "item_step (fg_color con0) (bg_color con0) i t"
  have fold: "fold (item_step (fg_color con0) (bg_color con0)) (i # is) t = fold (item_step (fg_color con0) (bg_color con0)) is ?t'"
    by simp
  note step = item_displayed [OF Cons.prems(1-4), of i row col]
  show ?case
  proof (cases "vui_console_put_string_at (item_bytes i) row col con")
    case None
    then have "\<not> fits (unat (num_cols con0)) ?t'" using step Cons.prems(5) by (simp del: item_step.simps)
    from fits_fold [OF this] None show ?thesis
      unfolding fold by (simp add: put_string_append del: item_step.simps)
  next
    case (Some con')
    then have "displays con0 con' ?t'" "\<not> capturing_escape_code con'" using step Cons.prems(5) by (simp_all del: item_step.simps)
    from Cons.IH [OF this(1) Cons.prems(2,3) this(2)] Some Cons.prems(5) show ?thesis
      unfolding fold by (simp add: put_string_append del: item_step.simps)
  qed
qed simp

lemma setup_displays:
  assumes "console_setup x y w h cw ch stale = Some con" "num_rows con \<noteq> 0"
  shows "displays con con start_terminal" "\<not> capturing_escape_code con"
proof -
  have cells: "con_rows con = replicate (unat (num_rows con)) (empty_row (unat (num_cols con)))"
    "current_row con = 1" "current_col con = 1" "length (captured_escape con) = 25" "\<not> use_color_override_fg con"
    "\<not> use_color_override_bg con"
    using assms(1) by (auto simp: console_setup_def Let_def split: if_splits)
  obtain R where R: "unat (num_rows con) = Suc R" using assms(2) by (metis not0_implies_Suc unat_eq_zero)
  have "map row_cells (con_rows con) = screen (unat (num_rows con)) (unat (num_cols con)) [[]]"
    by (simp add: cells(1) row_cells_empty screen_def R map_replicate_const)
  then show "displays con con start_terminal"
    using cells R by (simp add: displays_def same_frame_def t_lines_def start_terminal_def fits_def row_ok_empty list_all_iff)
  show "\<not> capturing_escape_code con" using assms(1) by (auto simp: console_setup_def Let_def split: if_splits)
qed


section \<open>Properties\<close>

text \<open>Property C10: the console shows a text. Putting a text of characters, new lines and colour sequences on a new console succeeds exactly when no line is longer than the console is wide; then its rows hold the last lines of the text, each character with the colours set before it, the rows below and the columns behind are blank, and the cursor is behind the last character. With a longer line the call writes behind the end of a row.\<close>

theorem console_shows_text:
  assumes "console_setup x y w h cw ch stale = Some con" "num_rows con \<noteq> 0" "unat (num_cols con) < 65535"
    and "list_all item_ok is" "t = fold (item_step (fg_color con) (bg_color con)) is start_terminal"
  shows "case vui_console_put_string (concat (map item_bytes is)) con of
      Some con' \<Rightarrow> list_all (\<lambda>l. length l \<le> unat (num_cols con)) (t_lines t)
        \<and> map row_cells (con_rows con') = screen (unat (num_rows con)) (unat (num_cols con)) (t_lines t)
        \<and> unat (current_row con') = min (length (t_lines t)) (unat (num_rows con))
        \<and> unat (current_col con') = length (t_line t) + 1
    | None \<Rightarrow> list_ex (\<lambda>l. unat (num_cols con) < length l) (t_lines t)"
proof -
  have "0 < unat (num_rows con)" using assms(2) by (simp add: unat_gt_0)
  from items_displayed [OF setup_displays(1) [OF assms(1,2)] this assms(3) setup_displays(2) [OF assms(1,2)] assms(4),
      of "current_row con" "current_col con", folded assms(5)]
  show ?thesis
    by (auto simp: vui_console_put_string_def displays_def fits_def list_ex_iff list_all_iff not_le split: option.splits)
qed

definition blank_memory :: vui_console where
  "blank_memory = \<lparr>pixel_x = 0, pixel_y = 0, pixel_width = 0, pixel_height = 0, text_area_x = 0, text_area_y = 0,
     text_area_width = 0, text_area_height = 0, char_width = 0, char_height = 0, num_cols = 0, num_rows = 0,
     current_row = 0, current_col = 0, current_pixel_x = 0, current_pixel_y = 0, fg_color = 0, bg_color = 0,
     override_fg = 0, override_bg = 0, tab_size = 0, capturing_escape_code = False, capture_num = 0, captured_escape = [],
     use_color_override_fg = False, use_color_override_bg = False, show_cursor = False, blink_hidden = False,
     redraw_window = False, con_rows = [], drawn = []\<rparr>"

text \<open>A console of three columns and two rows, three lines, the second in red.\<close>

theorem console_shows_text_witness:
  "\<exists>con con'. console_setup 0 0 34 26 8 8 blank_memory = Some con
    \<and> vui_console_put_string (concat (map item_bytes [Chr 65, Newline, Colours [] [51, 49] [], Chr 66, Newline, Chr 67])) con = Some con'
    \<and> map row_cells (con_rows con') =
        [[(66, 0x00CC0000, 0x00232323, 1, 0), (0, 0, 0, 0, 0), (0, 0, 0, 0, 0)],
         [(67, 0x00CC0000, 0x00232323, 1, 0), (0, 0, 0, 0, 0), (0, 0, 0, 0, 0)]]"
proof -
  let ?is = "[Chr 65, Newline, Colours [] [51, 49] [], Chr 66, Newline, Chr 67]"
  obtain con where con: "console_setup 0 0 34 26 8 8 blank_memory = Some con"
    by (simp add: console_setup_def Let_def)
  then have f: "num_rows con = 2" "num_cols con = 3" "fg_color con = 0x00eaeaea" "bg_color con = 0x00232323"
    by (auto simp: console_setup_def Let_def)
  define t where "t = fold (item_step (fg_color con) (bg_color con)) ?is start_terminal"
  have "background_of (decimal []) (foreground_of (decimal [51, 49])) = (0x00CC0000, 0)"
    by (simp add: background_of_def foreground_of_def decimal_def)
  then have lines: "t_lines t = [[(65, 0x00eaeaea, 0x00232323, 0, 0)], [(66, 0x00CC0000, 0x00232323, 1, 0)], [(67, 0x00CC0000, 0x00232323, 1, 0)]]"
    by (simp add: t_def t_lines_def start_terminal_def new_cell_def f)
  have "list_all item_ok ?is" by (simp add: digits_ok_def)
  moreover have c: "unat (num_cols con) = 3" "unat (num_rows con) = 2" and "num_rows con \<noteq> 0" by (simp_all add: f)
  moreover have "screen 2 3 (t_lines t) =
      [[(66, 0x00CC0000, 0x00232323, 1, 0), (0, 0, 0, 0, 0), (0, 0, 0, 0, 0)],
       [(67, 0x00CC0000, 0x00232323, 1, 0), (0, 0, 0, 0, 0), (0, 0, 0, 0, 0)]]"
    by (simp add: lines screen_def pad_line_def numeral_2_eq_2)
  moreover have "\<not> list_ex (\<lambda>l. 3 < length l) (t_lines t)" by (simp add: lines)
  ultimately show ?thesis
    using console_shows_text [OF con _ _ _ t_def] con
    by (cases "vui_console_put_string (concat (map item_bytes ?is)) con") (simp_all del: item_bytes.simps)
qed

end
