(* ===== verification/DevApi.thy ===== *)
theory DevApi
  imports KPrelude
begin

text \<open>
  The client of the development server on the second serial port
  (kernel/net/avs_dev_api.c): requests as lines of JSON, replies up to a newline, files in
  base64. The bytes that arrive at the port are an argument, in their order; a read that
  none is left for never returns and is None. srclen is not negative (the caller passes a
  count of bytes). A read behind the source and a request that does not fit api_call
  are None.
\<close>

section \<open>The alphabets\<close>

datatype base64_variant = BASE64_STD | BASE64_URLSAFE | BASE64_IMAP

text \<open>The last two characters of the alphabet of a variant.\<close>

primrec ch_62_63 :: "base64_variant \<Rightarrow> u8 \<times> u8" where
  "ch_62_63 BASE64_STD = (0x2B, 0x2F)"
| "ch_62_63 BASE64_URLSAFE = (0x2D, 0x5F)"
| "ch_62_63 BASE64_IMAP = (0x2B, 0x2C)"

text \<open>The table of the values of characters.\<close>

definition base64_rev_maps :: "base64_variant \<Rightarrow> u8 \<Rightarrow> int" where
  "base64_rev_maps v c =
     (if c < 0x20 \<or> c \<ge> 0x80 then -1
      else if c \<ge> 0x41 \<and> c \<le> 0x5A then uint c - 0x41
      else if c \<ge> 0x61 \<and> c \<le> 0x7A then uint c - 0x61 + 26
      else if c \<ge> 0x30 \<and> c \<le> 0x39 then uint c - 0x30 + 52
      else if c = fst (ch_62_63 v) then 62
      else if c = snd (ch_62_63 v) then 63 else -1)"

text \<open>The table of the characters of values.\<close>

definition base64_tables :: "base64_variant \<Rightarrow> u8 list" where
  "base64_tables v = map word_of_nat ([65..<91] @ [97..<123] @ [48..<58]) @ [fst (ch_62_63 v), snd (ch_62_63 v)]"

abbreviation (input) pad_char :: u8 where "pad_char \<equiv> 0x3D"


section \<open>Decoding\<close>

definition group_val :: "int \<Rightarrow> int \<Rightarrow> int \<Rightarrow> int \<Rightarrow> int" where
  "group_val a b c d = ((push_bit 18 a OR push_bit 12 b) OR push_bit 6 c) OR d"

text \<open>
  The loop over groups of four characters. out is what has been stored; the second
  component of the result is None where -1 is returned, else what padding, srclen and
  the source pointer are behind the loop.
\<close>

fun decode_loop :: "base64_variant \<Rightarrow> nat \<Rightarrow> u8 list \<Rightarrow> bool \<Rightarrow> u8 list \<Rightarrow> (u8 list \<times> (bool \<times> nat \<times> u8 list) option) option" where
  "decode_loop v (Suc (Suc (Suc (Suc srclen)))) s padding out = (case s of
      a # b # c # d # r \<Rightarrow>
        let m = base64_rev_maps v; val = group_val (m a) (m b) (m c) (m d) in
        if val < 0 then
          if \<not> padding \<or> srclen \<noteq> 0 \<or> d \<noteq> pad_char then Some (out, None)
          else Some (out, Some (False, if c = pad_char then 2 else 3, s))
        else decode_loop v srclen r padding
               (out @ [word_of_int (drop_bit 16 val), word_of_int (drop_bit 8 val), word_of_int val])
    | _ \<Rightarrow> None)"
| "decode_loop v srclen s padding out = Some (out, Some (padding, srclen, s))"

text \<open>What follows the loop: the result and the bytes stored at dst.\<close>

definition decode_tail :: "base64_variant \<Rightarrow> u8 list \<times> (bool \<times> nat \<times> u8 list) option \<Rightarrow> (int \<times> u8 list) option" where
  "decode_tail v x = (let out = fst x in
     case snd x of None \<Rightarrow> Some (-1, out)
     | Some (padding, n, s) \<Rightarrow>
         if n = 0 then Some (int (length out), out)
         else if padding \<or> n = 1 then Some (-1, out)
         else if length s < 2 then None
         else
           let val = push_bit 12 (base64_rev_maps v (s ! 0)) OR push_bit 6 (base64_rev_maps v (s ! 1));
               out = out @ [word_of_int (drop_bit 10 val)]
           in if n = 2 then
                if val AND 0x800003FF \<noteq> 0 then Some (-1, out) else Some (int (length out), out)
              else if length s < 3 then None
              else
                let val = val OR base64_rev_maps v (s ! 2) in
                if val AND 0x80000003 \<noteq> 0 then Some (-1, out)
                else Some (int (length out) + 1, out @ [word_of_int (drop_bit 2 val)]))"

definition base64_decode :: "u8 list \<Rightarrow> nat \<Rightarrow> bool \<Rightarrow> base64_variant \<Rightarrow> (int \<times> u8 list) option" where
  "base64_decode src srclen padding v = decode_loop v srclen src padding [] \<bind> decode_tail v"


section \<open>Requests and replies\<close>

text \<open>What of the bytes that arrive is the reply, and what is left.\<close>

primrec wait_loop :: "nat \<Rightarrow> u8 list \<Rightarrow> u8 list \<Rightarrow> (u8 list \<times> u8 list) option" where
  "wait_loop max_size [] reply = None"
| "wait_loop max_size (c # cs) reply =
     (if c = 0x0A then Some (reply, cs)
      else let reply = reply @ [c] in
        if length reply < max_size then wait_loop max_size cs reply else Some (reply, cs))"

definition avs_dev_api_wait_for_reply :: "nat \<Rightarrow> u8 list \<Rightarrow> (u8 list \<times> u8 list) option" where
  "avs_dev_api_wait_for_reply max_size input = wait_loop max_size input []"

definition bytes_of :: "string \<Rightarrow> u8 list" where
  "bytes_of = map of_char"

definition json_size_start :: "u8 list" where "json_size_start = bytes_of ''{ \"cmd\": \"size\", \"file\": \"''"
definition json_load_start :: "u8 list" where "json_load_start = bytes_of ''{ \"cmd\": \"load\", \"file\": \"''"
definition json_end :: "u8 list" where "json_end = bytes_of ''.exec\" }'' @ [0x0A]"

text \<open>The request in api_call, which is also what is sent.\<close>

definition api_request :: "u8 list \<Rightarrow> u8 list \<Rightarrow> u8 list option" where
  "api_request start path = (let call = start @ path @ json_end in if length call < 255 then Some call else None)"

text \<open>strtol is the function of the C library.\<close>

definition avs_dev_api_get_file_size :: "(u8 list \<Rightarrow> int) \<Rightarrow> u8 list \<Rightarrow> u8 list \<Rightarrow> (u64 \<times> u8 list \<times> u8 list) option" where
  "avs_dev_api_get_file_size strtol path input = do {
     call \<leftarrow> api_request json_size_start path;
     (reply, rest) \<leftarrow> avs_dev_api_wait_for_reply 255 input;
     if length reply = 255 then None
     else Some (word_of_int (strtol reply), call, rest) }"

text \<open>The size, the bytes stored, the request sent, and the input left.\<close>

definition avs_dev_api_load_file :: "u8 list \<Rightarrow> u8 list \<Rightarrow> (u64 \<times> u8 list \<times> u8 list \<times> u8 list) option" where
  "avs_dev_api_load_file path input = do {
     call \<leftarrow> api_request json_load_start path;
     (b64_data, rest) \<leftarrow> avs_dev_api_wait_for_reply (1024 * 1024) input;
     (n, data) \<leftarrow> base64_decode b64_data (length b64_data) False BASE64_STD;
     Some (word_of_int n, data, call, rest) }"


section \<open>The reference encoding\<close>

definition char64 :: "base64_variant \<Rightarrow> nat \<Rightarrow> u8" where
  "char64 v i = base64_tables v ! i"

fun base64_encode :: "base64_variant \<Rightarrow> bool \<Rightarrow> u8 list \<Rightarrow> u8 list" where
  "base64_encode v padding (a # b # c # r) = (let n = unat a * 65536 + unat b * 256 + unat c in
     map (char64 v) [n div 262144, n div 4096 mod 64, n div 64 mod 64, n mod 64] @ base64_encode v padding r)"
| "base64_encode v padding [a, b] = (let n = unat a * 1024 + unat b * 4 in
     map (char64 v) [n div 4096, n div 64 mod 64, n mod 64] @ (if padding then [pad_char] else []))"
| "base64_encode v padding [a] = (let n = unat a * 16 in
     map (char64 v) [n div 64, n mod 64] @ (if padding then [pad_char, pad_char] else []))"
| "base64_encode v padding [] = []"

lemma rev_char64 [simp]: "i < 64 \<Longrightarrow> base64_rev_maps v (char64 v i) = int i"
proof -
  have "list_all (\<lambda>i. base64_rev_maps BASE64_STD (char64 BASE64_STD i) = int i) [0..<64]"
    "list_all (\<lambda>i. base64_rev_maps BASE64_URLSAFE (char64 BASE64_URLSAFE i) = int i) [0..<64]"
    "list_all (\<lambda>i. base64_rev_maps BASE64_IMAP (char64 BASE64_IMAP i) = int i) [0..<64]"
    by code_simp+
  then show "i < 64 \<Longrightarrow> base64_rev_maps v (char64 v i) = int i" by (cases v) (simp_all add: list_all_iff)
qed

lemma rev_pad [simp]: "base64_rev_maps v pad_char = -1"
  by (cases v) (simp_all add: base64_rev_maps_def)

lemma push_or: "0 \<le> y \<Longrightarrow> y < 2 ^ k \<Longrightarrow> push_bit k x OR y = x * 2 ^ k + (y :: int)"
proof -
  assume "0 \<le> y" "y < 2 ^ k"
  then have "take_bit k y = y" by (simp add: take_bit_int_eq_self)
  then show ?thesis using concat_bit_eq [of k y x] by (simp add: concat_bit_def or.commute push_bit_eq_mult)
qed

lemma char64_not_pad: "i < 64 \<Longrightarrow> char64 v i \<noteq> pad_char"
  using rev_char64 [of i v] rev_pad [of v] by (metis of_nat_0_le_iff not_le zero_less_one neg_less_0_iff_less)

lemma group_val_nat:
  assumes "i < 64" "j < 64" "k < 64" "l < 64"
  shows "group_val (int i) (int j) (int k) (int l) = int (i * 262144 + j * 4096 + k * 64 + l)"
proof -
  have "push_bit 6 (int k) OR int l = int k * 2 ^ 6 + int l" using assms by (intro push_or) auto
  moreover have "push_bit 12 (int j) OR (int k * 2 ^ 6 + int l) = int j * 2 ^ 12 + (int k * 2 ^ 6 + int l)"
    using assms by (intro push_or) auto
  moreover have "push_bit 18 (int i) OR (int j * 2 ^ 12 + (int k * 2 ^ 6 + int l)) = int i * 2 ^ 18 + (int j * 2 ^ 12 + (int k * 2 ^ 6 + int l))"
    using assms by (intro push_or) auto
  ultimately show ?thesis by (simp add: group_val_def or.assoc)
qed

lemma group_val_invalid: "group_val a b c (- 1) = - 1"
  by (simp add: group_val_def)

lemma unat_u8: "unat (a :: u8) < 256"
  using unsigned_less [of a] by simp

lemma byte_of_int: "m mod 256 = unat (a :: u8) \<Longrightarrow> word_of_int (int m) = a"
  by (simp add: word_unat_eq_iff unat_of_nat)

lemma word_of_drop: "m div 2 ^ k mod 256 = unat (a :: u8) \<Longrightarrow> word_of_int (drop_bit k (int m)) = a"
proof -
  assume a: "m div 2 ^ k mod 256 = unat a"
  have "drop_bit k (int m) = int (m div 2 ^ k)" by (simp add: drop_bit_eq_div zdiv_int)
  then show ?thesis using byte_of_int [OF a] by (simp only:)
qed

text \<open>The masks that test the unused bits of the last group.\<close>

lemma and_tail_mask:
  assumes "m < 2 ^ 31" "m mod 2 ^ k = 0"
  shows "int m AND (push_bit 31 1 OR mask k) = 0"
proof -
  have "\<not> bit (int m) 31" using assms(1) by (simp add: bit_iff_odd)
  then have "int m AND push_bit 31 1 = 0"
    by (intro bit_eqI) (auto simp: bit_and_iff bit_push_bit_iff bit_1_iff simp del: push_bit_of_1)
  moreover have "int m AND mask k = 0"
  proof -
    have "int m mod 2 ^ k = int (m mod 2 ^ k)" by (simp only: of_nat_mod of_nat_power of_nat_numeral)
    then show ?thesis using assms(2) by (simp add: take_bit_eq_mod flip: take_bit_eq_mask)
  qed
  ultimately show ?thesis by (simp add: bit.conj_disj_distrib)
qed

lemma tail_masks: "push_bit 31 1 OR mask 2 = (0x80000003 :: int)" "push_bit 31 1 OR mask 10 = (0x800003FF :: int)"
  by (simp_all add: mask_eq_exp_minus_1 push_bit_eq_mult)

text \<open>The digits to the base 64.\<close>

lemma digits64:
  fixes n :: nat
  shows "n = n div 64 * 64 + n mod 64" "n div 64 = n div 4096 * 64 + n div 64 mod 64" "n div 4096 = n div 262144 * 64 + n div 4096 mod 64"
proof -
  have "n div 4096 = n div 64 div 64" "n div 262144 = n div 4096 div 64"
    using div_mult2_eq [of n 64 64] div_mult2_eq [of n 4096 64] by simp_all
  then show "n = n div 64 * 64 + n mod 64" "n div 64 = n div 4096 * 64 + n div 64 mod 64"
    "n div 4096 = n div 262144 * 64 + n div 4096 mod 64"
    by simp_all
qed

lemma decode_full_group:
  fixes a b c :: u8
  defines "n \<equiv> unat a * 65536 + unat b * 256 + unat c"
  shows "decode_loop v (Suc (Suc (Suc (Suc m)))) (map (char64 v) [n div 262144, n div 4096 mod 64, n div 64 mod 64, n mod 64] @ r) p out
     = decode_loop v m r p (out @ [a, b, c])"
proof -
  have lt: "unat a < 256" "unat b < 256" "unat c < 256" by (rule unat_u8)+
  have "n div 262144 < 64" using lt by (simp add: n_def)
  moreover have "n div 262144 * 262144 + n div 4096 mod 64 * 4096 + n div 64 mod 64 * 64 + n mod 64 = n"
    using digits64 [of n] by linarith
  ultimately have val: "group_val (int (n div 262144)) (int (n div 4096 mod 64)) (int (n div 64 mod 64)) (int (n mod 64)) = int n"
    using group_val_nat [of "n div 262144" "n div 4096 mod 64" "n div 64 mod 64" "n mod 64"] by simp
  have "word_of_int (drop_bit 16 (int n)) = a" using lt by (intro word_of_drop) (simp add: n_def)
  moreover have "word_of_int (drop_bit 8 (int n)) = b"
  proof (rule word_of_drop)
    have "n = (unat a * 256 + unat b) * 256 + unat c" by (simp add: n_def)
    then have "n div 256 = unat a * 256 + unat b" using lt by simp
    then show "n div 2 ^ 8 mod 256 = unat b" using lt by simp
  qed
  moreover have "word_of_int (int n) = c"
  proof (rule byte_of_int)
    have "n = unat c + (unat a * 256 + unat b) * 256" by (simp add: n_def)
    then show "n mod 256 = unat c" using lt by (simp only: mod_mult_self1 mod_less)
  qed
  ultimately show ?thesis using val \<open>n div 262144 < 64\<close> by (simp add: Let_def)
qed

lemma decode_last_two:
  fixes a b :: u8
  defines "n \<equiv> unat a * 1024 + unat b * 4"
  shows "decode_tail v (out, Some (False, 3, map (char64 v) [n div 4096, n div 64 mod 64, n mod 64] @ r)) = Some (int (length out) + 2, out @ [a, b])"
proof -
  have lt: "unat a < 256" "unat b < 256" by (rule unat_u8)+
  have i: "n div 4096 < 64" using lt by (simp add: n_def)
  define m where "m = n div 4096 * 4096 + n div 64 mod 64 * 64"
  have m: "m = n div 64 * 64" using digits64(2) [of n] unfolding m_def by linarith
  then have n: "m + n mod 64 = n" by simp
  have v1: "push_bit 12 (int (n div 4096)) OR push_bit 6 (int (n div 64 mod 64)) = int m"
    using push_or [of "int (n div 64 mod 64) * 64" 12 "int (n div 4096)"] by (simp add: m_def push_bit_eq_mult)
  have v2: "int m OR int (n mod 64) = int n"
  proof -
    have "int m = push_bit 6 (int (n div 64))"
      by (simp add: m push_bit_eq_mult)
    moreover have "int (n div 64) * 64 + int (n mod 64) = int n"
      using digits64(1) [of n] by (metis of_nat_add of_nat_mult of_nat_numeral)
    ultimately show ?thesis using push_or [of "int (n mod 64)" 6 "int (n div 64)"] by simp
  qed
  have "m div 1024 = unat a"
  proof -
    have "n = unat b * 4 + unat a * 16 * 64" by (simp add: n_def)
    then have "n mod 64 = unat b * 4 mod 64" by (simp only: mod_mult_self1)
    then have "n mod 64 \<le> unat b * 4" by (metis mod_less_eq_dividend)
    then have "unat a * 1024 \<le> m" "m < unat a * 1024 + 1024" using n lt unfolding n_def by linarith+
    then show ?thesis by (intro div_nat_eqI) simp_all
  qed
  then have "word_of_int (drop_bit 10 (int m)) = a" using lt by (intro word_of_drop) simp
  moreover have "word_of_int (drop_bit 2 (int n)) = b" using lt by (intro word_of_drop) (simp add: n_def)
  moreover have "int n AND 0x80000003 = 0"
    using and_tail_mask [of n 2] lt tail_masks by (simp add: n_def)
  ultimately show ?thesis using i v1 v2 by (simp add: decode_tail_def Let_def)
qed

lemma decode_last_one:
  fixes a :: u8
  defines "n \<equiv> unat a * 16"
  shows "decode_tail v (out, Some (False, 2, map (char64 v) [n div 64, n mod 64] @ r)) = Some (int (length out) + 1, out @ [a])"
proof -
  have lt: "unat a < 256" by (rule unat_u8)
  have i: "n div 64 < 64" using lt by (simp add: n_def)
  have v1: "push_bit 12 (int (n div 64)) OR push_bit 6 (int (n mod 64)) = int (n * 64)"
  proof -
    have "n * 64 = n div 64 * 4096 + n mod 64 * 64" using digits64(1) [of n] by linarith
    then have "int (n * 64) = int (n div 64) * 4096 + int (n mod 64) * 64" by (metis of_nat_add of_nat_mult of_nat_numeral)
    then show ?thesis using push_or [of "int (n mod 64) * 64" 12 "int (n div 64)"] by (simp add: push_bit_eq_mult)
  qed
  have "word_of_int (drop_bit 10 (int (n * 64))) = a" using lt by (intro word_of_drop) (simp add: n_def)
  moreover have "int (n * 64) AND 0x800003FF = 0"
    using and_tail_mask [of "n * 64" 10] lt tail_masks by (simp add: n_def)
  ultimately show ?thesis using i v1 by (simp add: decode_tail_def Let_def)
qed

lemma decode_encode_acc:
  "decode_loop v (length (base64_encode v p bs)) (base64_encode v p bs) p out \<bind> decode_tail v
     = Some (int (length out + length bs), out @ bs)"
proof (induction v p bs arbitrary: out rule: base64_encode.induct)
  case (1 v p a b c r)
  show ?case
    using 1 [OF refl, of "out @ [a, b, c]"] decode_full_group [of v "length (base64_encode v p r)" a b c "base64_encode v p r" p out]
    by (simp add: Let_def)
next
  case (2 v p a b)
  let ?n = "unat a * 1024 + unat b * 4"
  have lt: "?n div 4096 < 64" using unat_u8 [of a] unat_u8 [of b] by simp
  let ?s = "map (char64 v) [?n div 4096, ?n div 64 mod 64, ?n mod 64]"
  have "decode_loop v (Suc (Suc (Suc (Suc 0)))) (?s @ [pad_char]) True out = Some (out, Some (False, 3, ?s @ [pad_char]))"
    using char64_not_pad [of "?n mod 64" v] by (simp add: Let_def group_val_invalid)
  then show ?case using decode_last_two [of v out a b "[]"] decode_last_two [of v out a b "[pad_char]"]
    by (cases p) (simp_all add: Let_def numeral_3_eq_3)
next
  case (3 v p a)
  let ?n = "unat a * 16"
  let ?s = "map (char64 v) [?n div 64, ?n mod 64]"
  have "decode_loop v (Suc (Suc (Suc (Suc 0)))) (?s @ [pad_char, pad_char]) True out = Some (out, Some (False, 2, ?s @ [pad_char, pad_char]))"
    by (simp add: Let_def group_val_invalid)
  then show ?case using decode_last_one [of v out a "[]"] decode_last_one [of v out a "[pad_char, pad_char]"]
    by (cases p) (simp_all add: Let_def numeral_2_eq_2)
next
  case (4 v p)
  show ?case by (simp add: decode_tail_def)
qed


lemma decode_encode:
  "base64_decode (base64_encode v p bs) (length (base64_encode v p bs)) p v = Some (int (length bs), bs)"
  using decode_encode_acc [of v p bs "[]"] by (simp add: base64_decode_def)

text \<open>Every character of an encoded file is one of the alphabet.\<close>

lemma char64_not_newline: "i < 64 \<Longrightarrow> char64 v i \<noteq> 0x0A"
proof
  assume "i < 64" "char64 v i = 0x0A"
  then have "int i = base64_rev_maps v 0x0A" using rev_char64 [of i v] by simp
  also have "\<dots> = -1" by (simp add: base64_rev_maps_def)
  finally show False by simp
qed

lemma encode_no_newline: "0x0A \<notin> set (base64_encode v p bs)"
proof (induction v p bs rule: base64_encode.induct)
  case (1 v p a b c r)
  have "(unat a * 65536 + unat b * 256 + unat c) div 262144 < 64" using unat_u8 [of a] unat_u8 [of b] unat_u8 [of c] by simp
  then show ?case using 1 [OF refl] by (simp add: Let_def char64_not_newline not_sym [OF char64_not_newline])
next
  case (2 v p a b)
  have "(unat a * 1024 + unat b * 4) div 4096 < 64" using unat_u8 [of a] unat_u8 [of b] by simp
  then show ?case by (simp add: Let_def not_sym [OF char64_not_newline])
next
  case (3 v p a)
  have "unat a * 16 div 64 < 64" using unat_u8 [of a] by simp
  then show ?case by (simp add: Let_def not_sym [OF char64_not_newline])
qed simp

text \<open>A line that fits is the reply.\<close>

lemma wait_loop_line:
  "0x0A \<notin> set l \<Longrightarrow> length acc + length l < max_size \<Longrightarrow> wait_loop max_size (l @ 0x0A # rest) acc = Some (acc @ l, rest)"
  by (induction l arbitrary: acc) (auto simp: Let_def)

lemma length_encode_unpadded: "length (base64_encode v False bs) = (4 * length bs + 2) div 3"
  by (induction v "False" bs rule: base64_encode.induct) (simp_all add: Let_def)

text \<open>The last group of a padded file.\<close>

lemma decode_padded_rejected:
  "length bs mod 3 \<noteq> 0 \<Longrightarrow>
   decode_loop v (length (base64_encode v True bs)) (base64_encode v True bs) False out
     = Some (out @ take (length bs div 3 * 3) bs, None)"
proof (induction v "True" bs arbitrary: out rule: base64_encode.induct)
  case (1 v a b c r)
  have "length r mod 3 \<noteq> 0" using 1(2) by (simp add: mod_Suc split: if_splits)
  moreover have "length (a # b # c # r) div 3 * 3 = Suc (Suc (Suc (length r div 3 * 3)))"
    by (simp only: list.size add.right_neutral add_Suc_right) presburger
  ultimately show ?case
    using 1(1) [OF refl, of "out @ [a, b, c]"] decode_full_group [of v "length (base64_encode v True r)" a b c "base64_encode v True r" False out]
    by (simp add: Let_def)
next
  case (2 v a b)
  then show ?case by (simp add: Let_def group_val_invalid)
next
  case (3 v a)
  then show ?case by (simp add: Let_def group_val_invalid)
qed simp


section \<open>Properties\<close>

text \<open>Property C39: base64_decode inverts the encoding. For every variant of the alphabet, with and without padding, decoding the encoding of any bytes stores exactly these bytes at dst and returns their number.\<close>

theorem decode_inverts_encode:
  "base64_decode (base64_encode v p bs) (length (base64_encode v p bs)) p v = Some (int (length bs), bs)"
  by (rule decode_encode)

text \<open>Property C40: loading a file from the development server. When the path fits the request and the server answers with a line that holds the file in unpadded base64, short enough for the buffer, avs_dev_api_load_file sends the request and returns the length of the file with exactly its bytes stored, and leaves what follows the line in the port. When the server pads the file, as the usual encoders do, and its length is not a multiple of three, the call returns -1, because it decodes with padding false.\<close>

theorem load_file_from_server:
  assumes "length path < 217"
  shows "(4 * length file < 3 * 1024 * 1024 - 3 \<longrightarrow>
      avs_dev_api_load_file path (base64_encode BASE64_STD False file @ 0x0A # rest)
        = Some (word_of_nat (length file), file, json_load_start @ path @ json_end, rest)) \<and>
    (length file mod 3 \<noteq> 0 \<and> length (base64_encode BASE64_STD True file) < 1024 * 1024 \<longrightarrow>
      avs_dev_api_load_file path (base64_encode BASE64_STD True file @ 0x0A # rest)
        = Some (- 1, take (length file div 3 * 3) file, json_load_start @ path @ json_end, rest))"
proof (intro conjI impI)
  have req: "api_request json_load_start path = Some (json_load_start @ path @ json_end)"
    using assms by (simp add: api_request_def json_load_start_def json_end_def bytes_of_def Let_def)
  show "avs_dev_api_load_file path (base64_encode BASE64_STD False file @ 0x0A # rest)
        = Some (word_of_nat (length file), file, json_load_start @ path @ json_end, rest)"
    if "4 * length file < 3 * 1024 * 1024 - 3"
  proof -
    have "length (base64_encode BASE64_STD False file) < 1048576" using that by (simp add: length_encode_unpadded)
    then show ?thesis
      using wait_loop_line [of "base64_encode BASE64_STD False file" "[]" 1048576 rest] decode_encode [of BASE64_STD False "file"]
      by (simp add: avs_dev_api_load_file_def req avs_dev_api_wait_for_reply_def encode_no_newline)
  qed
  show "avs_dev_api_load_file path (base64_encode BASE64_STD True file @ 0x0A # rest)
        = Some (- 1, take (length file div 3 * 3) file, json_load_start @ path @ json_end, rest)"
    if "length file mod 3 \<noteq> 0 \<and> length (base64_encode BASE64_STD True file) < 1024 * 1024"
    using wait_loop_line [of "base64_encode BASE64_STD True file" "[]" 1048576 rest] decode_padded_rejected [of "file" BASE64_STD "[]"] that
    by (simp add: avs_dev_api_load_file_def req avs_dev_api_wait_for_reply_def encode_no_newline base64_decode_def decode_tail_def)
qed

theorem load_file_from_server_witness:
  "avs_dev_api_load_file (bytes_of ''ls'') (base64_encode BASE64_STD False [127, 69, 76, 70] @ 0x0A # [7])
        = Some (4, [127, 69, 76, 70], json_load_start @ bytes_of ''ls'' @ json_end, [7]) \<and>
   avs_dev_api_load_file (bytes_of ''ls'') (base64_encode BASE64_STD True [127, 69, 76, 70] @ 0x0A # [7])
        = Some (- 1, [127, 69, 76], json_load_start @ bytes_of ''ls'' @ json_end, [7])"
proof -
  have l: "length (bytes_of ''ls'') < 217" by (simp add: bytes_of_def)
  have "length (base64_encode BASE64_STD True [127, 69, 76, 70]) < 1024 * 1024" by (simp add: Let_def)
  then show ?thesis
    using load_file_from_server [OF l, of "[127, 69, 76, 70]" "[7]"]
    by simp
qed

end
