(* ===== verification/Loader.thy ===== *)
theory Loader
  imports Library Syscalls
begin

text \<open>
  The execution of programs: the reader of their ELF files (kernel/fs/elf.c), the program
  loader (elf_loader_load and elf_loader_load_binary of kernel/task/elf_loader.c)
  and the handlers of execve and execm (kernel/syscalls/execve.c). A file is the list
  of its bytes, with offsets for pointers into it; NULL and an offset outside are None. A
  store through a kernel address goes to the frame behind it. kmalloc succeeds, and its blocks
  are larger than requested by at least the NUL that a copied argument needs. Log
  messages are left out.
\<close>

section \<open>Bytes of physical memory\<close>

text \<open>table_frame is linear in each of its windows, so it also gives the physical address of a byte.\<close>

definition set_byte :: "nat \<Rightarrow> u8 \<Rightarrow> u64 \<Rightarrow> u64" where
  "set_byte j b w = (w AND NOT (push_bit (8 * j) 0xFF)) OR push_bit (8 * j) (ucast b)"

definition write_phys :: "u64 \<Rightarrow> u8 \<Rightarrow> paging \<Rightarrow> paging option" where
  "write_phys pa b s = do {
     t \<leftarrow> frames s (pa AND PAGE_ADDR_MASK);
     let o' = unat (pa AND 0xFFF);
     let i = o' div 8;
     if i < length t
     then Some (s\<lparr>frames := (frames s)(pa AND PAGE_ADDR_MASK \<mapsto> t[i := set_byte (o' mod 8) b (t ! i)])\<rparr>) else None }"

definition write_kern :: "u64 \<Rightarrow> u8 \<Rightarrow> paging \<Rightarrow> paging option" where
  "write_kern v b s = write_phys (table_frame s v) b s"

text \<open>memcpy to a kernel address.\<close>

primrec copy_kern :: "u64 \<Rightarrow> u8 list \<Rightarrow> paging \<Rightarrow> paging option" where
  "copy_kern v [] s = Some s"
| "copy_kern v (b # bs) s = do { s \<leftarrow> write_kern v b s; copy_kern (v + 1) bs s }"


section \<open>The structure of a file\<close>

record elf_file =
  el_file_base :: "u8 list"
  el_header :: Elf64_Ehdr
  el_section_headers :: nat
  el_string_table :: nat
  el_string_table_section_names :: nat
  el_symbol_table :: nat
  el_num_symbols :: u64
  el_num_program_headers :: u8
  el_symbols :: symbol_collection

abbreviation (input) SHT_SYMTAB :: u32 where "SHT_SYMTAB \<equiv> 2"

definition elf_get_section_header_by_index :: "u8 \<Rightarrow> elf_file \<Rightarrow> Elf64_Shdr option" where
  "elf_get_section_header_by_index index f =
     (let i = int (el_section_headers f) + int (unat (e_shentsize (el_header f))) * (int (unat index) - 1) in
      if i < 0 then None else shdr_at (el_file_base f) (nat i))"

text \<open>The loops over the sections i, i + 1, ...; the result Some None is NULL.\<close>

primrec elf_section_by_type :: "nat list \<Rightarrow> u32 \<Rightarrow> elf_file \<Rightarrow> Elf64_Shdr option option" where
  "elf_section_by_type [] ty f = Some None"
| "elf_section_by_type (i # is) ty f = do {
     sect \<leftarrow> shdr_at (el_file_base f) (el_section_headers f + unat (e_shentsize (el_header f)) * i);
     if sh_type sect = ty then Some (Some sect) else elf_section_by_type is ty f }"

definition elf_get_section_header_by_type :: "u32 \<Rightarrow> elf_file \<Rightarrow> Elf64_Shdr option option" where
  "elf_get_section_header_by_type ty f = elf_section_by_type [0..<unat (e_shnum (el_header f))] ty f"

primrec elf_section_by_name :: "nat list \<Rightarrow> u8 list \<Rightarrow> elf_file \<Rightarrow> Elf64_Shdr option option" where
  "elf_section_by_name [] name f = Some None"
| "elf_section_by_name (i # is) name f = do {
     sect \<leftarrow> shdr_at (el_file_base f) (el_section_headers f + unat (e_shentsize (el_header f)) * i);
     section_name \<leftarrow> str_at (el_file_base f) (el_string_table_section_names f + unat (sh_name sect));
     if name = section_name then Some (Some sect) else elf_section_by_name is name f }"

definition elf_get_section_header_by_name :: "u8 list \<Rightarrow> elf_file \<Rightarrow> Elf64_Shdr option option" where
  "elf_get_section_header_by_name name f = elf_section_by_name [0..<unat (e_shnum (el_header f))] name f"

text \<open>The table behind the one e_shstrndx names by the one-based index is taken for the section names.\<close>

definition elf_file_initalize :: "u8 list \<Rightarrow> elf_file \<Rightarrow> elf_file option" where
  "elf_file_initalize file_start f = do {
     hdr \<leftarrow> ehdr_at file_start 0;
     let f = f\<lparr>el_file_base := file_start, el_header := hdr, el_section_headers := unat (e_shoff hdr)\<rparr>;
     string_table_header \<leftarrow> elf_get_section_header_by_index (ucast (e_shstrndx hdr)) f;
     section_name_table_header \<leftarrow> elf_get_section_header_by_index (ucast (e_shstrndx hdr + 1)) f;
     symbol_table_header \<leftarrow> elf_get_section_header_by_type SHT_SYMTAB f;
     symtab \<leftarrow> symbol_table_header;
     Some (f\<lparr>el_string_table := unat (sh_offset string_table_header),
             el_string_table_section_names := unat (sh_offset section_name_table_header),
             el_symbol_table := unat (sh_offset symtab), el_num_symbols := sh_size symtab div 24,
             el_num_program_headers := ucast (e_phnum hdr)\<rparr>) }"

definition get_program_header_by_index :: "u8 \<Rightarrow> elf_file \<Rightarrow> Elf64_Phdr option" where
  "get_program_header_by_index index f =
     phdr_at (el_file_base f) (unat (e_phoff (el_header f)) + unat index * unat (e_phentsize (el_header f)))"

definition elf_get_symbol_name_from_symbol_index :: "u32 \<Rightarrow> elf_file \<Rightarrow> u8 list option" where
  "elf_get_symbol_name_from_symbol_index index f = do {
     r \<leftarrow> elf_get_section_header_by_name name_dynsym f;
     q \<leftarrow> elf_get_section_header_by_name name_dynstr f;
     sect_dynsym \<leftarrow> r;
     sym \<leftarrow> sym_at (el_file_base f) (unat (sh_offset sect_dynsym) + 24 * unat index);
     sect_dynstr \<leftarrow> q;
     str_at (el_file_base f) (unat (sh_offset sect_dynstr) + unat (st_name sym)) }"

definition elf_get_symbol_addr_from_symbol_name :: "u8 list \<Rightarrow> elf_file \<Rightarrow> u64 option" where
  "elf_get_symbol_addr_from_symbol_name name f =
     (if unat (el_num_symbols f) \<le> length (symbols (el_symbols f))
      then Some (foldl (\<lambda>a x. if name = sym_name x then sym_addr x else a) 0
                   (take (unat (el_num_symbols f)) (symbols (el_symbols f))))
      else None)"

primrec add_symbols :: "nat list \<Rightarrow> elf_file \<Rightarrow> symbol_collection \<Rightarrow> symbol_collection option" where
  "add_symbols [] f syms = Some syms"
| "add_symbols (i # is) f syms = do {
     sym \<leftarrow> sym_at (el_file_base f) (el_symbol_table f + 24 * i);
     name \<leftarrow> str_at (el_file_base f) (el_string_table f + unat (st_name sym));
     syms \<leftarrow> symbols_add name (st_value sym) (st_symsize sym) syms;
     add_symbols is f syms }"

text \<open>The collection comes from kmalloc and is not cleared: stale is what the memory held, its fill level included.\<close>

definition elf_load_symbols :: "symbol_collection \<Rightarrow> elf_file \<Rightarrow> elf_file option" where
  "elf_load_symbols stale f = do {
     syms \<leftarrow> add_symbols [0..<unat (el_num_symbols f)] f stale;
     Some (f\<lparr>el_symbols := syms\<rparr>) }"


section \<open>Segments\<close>

abbreviation (input) PF_X :: u32 where "PF_X \<equiv> 1"
abbreviation (input) PF_R :: u32 where "PF_R \<equiv> 4"

text \<open>The loop over the pages of a segment.\<close>

primrec section_pages :: "nat \<Rightarrow> u64 \<Rightarrow> paging \<Rightarrow> (process_exec_section list \<times> paging) option" where
  "section_pages 0 virt s = Some ([], s)"
| "section_pages (Suc n) virt s = do {
     (kv, s) \<leftarrow> page_allocate_kernel 1 s;
     ph \<leftarrow> paging_virtual_to_physical kv s;
     (r, s) \<leftarrow> section_pages n (virt + PAGE_SIZE) s;
     Some (\<lparr>sec_phys = ph, sec_virt = virt, sec_kern_virt = kv\<rparr> # r, s) }"

definition segment_pages :: "Elf64_Phdr \<Rightarrow> u32" where
  "segment_pages ph = ucast (p_memsz ph div PAGE_SIZE) + (if p_memsz ph mod PAGE_SIZE \<noteq> 0 then 1 else 0)"

definition segment_start :: "Elf64_Phdr \<Rightarrow> u64" where
  "segment_start ph = (if p_vaddr ph \<noteq> 0 then p_vaddr ph div 4096 * 4096 else 0)"

definition segment_offset :: "Elf64_Phdr \<Rightarrow> u64" where
  "segment_offset ph = (if p_vaddr ph \<noteq> 0 then p_vaddr ph - segment_start ph else 0)"

text \<open>
  The process behind the sections of the segment, and data_section_ava, which only the
  loader uses; None when pages stays NULL.
\<close>

definition place_segment ::
    "Elf64_Phdr \<Rightarrow> process_exec_section list \<Rightarrow> process_data \<times> u64 \<Rightarrow> (process_data \<times> u64) option" where
  "place_segment ph pages x =
     (if p_flags ph AND PF_X \<noteq> 0 then
        Some ((fst x)\<lparr>text_sections := pages, text_section_count := ucast (segment_pages ph),
                      text_secton_virt_start := p_vaddr ph\<rparr>, snd x)
      else if p_flags ph AND PF_R \<noteq> 0 then
        Some ((fst x)\<lparr>data_sections := pages, data_section_count := ucast (segment_pages ph),
                      data_section_virt_start := p_vaddr ph\<rparr>, segment_start ph)
      else None)"

text \<open>The result of the loop over the program headers; True when it was left with -1.\<close>

primrec load_segments :: "nat list \<Rightarrow> elf_file \<Rightarrow> u8 list \<Rightarrow> process_data \<times> u64 \<Rightarrow> paging \<Rightarrow>
    (bool \<times> (process_data \<times> u64) \<times> paging) option" where
  "load_segments [] f data x s = Some (False, x, s)"
| "load_segments (i # is) f data x s = do {
     ph \<leftarrow> get_program_header_by_index (of_nat i) f;
     if p_type ph \<noteq> PT_LOAD then load_segments is f data x s
     else if p_flags ph AND PF_X = 0 \<and> p_flags ph AND PF_R = 0 then Some (True, x, s)
     else do {
       (pages, s) \<leftarrow> section_pages (unat (segment_pages ph)) (segment_start ph) s;
       x \<leftarrow> place_segment ph pages x;
       first \<leftarrow> nth_elem pages 0;
       if length data < unat (p_offset ph) + unat (p_filesz ph) then None
       else do {
         s \<leftarrow> copy_kern (sec_kern_virt first + segment_offset ph)
                (take (unat (p_filesz ph)) (drop (unat (p_offset ph)) data)) s;
         load_segments is f data x s } } }"


section \<open>Dynamic symbols\<close>

abbreviation (input) name_got_plt :: "u8 list" where
  "name_got_plt \<equiv> [0x2E, 0x67, 0x6F, 0x74, 0x2E, 0x70, 0x6C, 0x74]"

text \<open>The names have to fit the arrays of 255 characters.\<close>

primrec dyn_symbols :: "nat list \<Rightarrow> nat \<Rightarrow> nat \<Rightarrow> elf_file \<Rightarrow> symbol_index list option" where
  "dyn_symbols [] symoff stroff f = Some []"
| "dyn_symbols (i # is) symoff stroff f = do {
     sym \<leftarrow> sym_at (el_file_base f) (symoff + 24 * i);
     name \<leftarrow> str_at (el_file_base f) (stroff + unat (st_name sym));
     if 255 \<le> length name then None
     else do {
       rest \<leftarrow> dyn_symbols is symoff stroff f;
       Some (\<lparr>si_name = name, si_value = st_value sym\<rparr> # rest) } }"

text \<open>The relocation i is at i times sh_entsize; of a relocation the name is what the linker uses.\<close>

primrec rela_symbols :: "nat list \<Rightarrow> Elf64_Shdr \<Rightarrow> symbol_collection \<Rightarrow> elf_file \<Rightarrow> symbol_index list option" where
  "rela_symbols [] plt ksyms f = Some []"
| "rela_symbols (i # is) plt ksyms f = do {
     info \<leftarrow> read_le (el_file_base f) (unat (sh_offset plt) + i * unat (sh_entsize plt) + 8) 8;
     name \<leftarrow> elf_get_symbol_name_from_symbol_index (ucast (ELF64_R_SYM info)) f;
     sym \<leftarrow> symbols_get_symbol name ksyms;
     if 255 \<le> length name then None
     else do {
       rest \<leftarrow> rela_symbols is plt ksyms f;
       Some (\<lparr>si_name = name, si_value = 0\<rparr> # rest) } }"

text \<open>
  The process, the page tables and the two symbol tables of the program. preamble is the
  address of elf_dynamic_linker_preamble. Without a section .got.plt the machine is shut down.
\<close>

type_synonym loaded = "process_data \<times> paging \<times> symbol_index list \<times> symbol_index list"

definition load_plt :: "u64 \<Rightarrow> symbol_collection \<Rightarrow> Elf64_Shdr \<Rightarrow> elf_file \<Rightarrow> process_data \<times> u64 \<Rightarrow> paging \<Rightarrow> loaded option" where
  "load_plt preamble ksyms plt f x s = do {
     let p = fst x;
     r \<leftarrow> elf_get_section_header_by_name name_dynsym f;
     q \<leftarrow> elf_get_section_header_by_name name_dynstr f;
     sect_dynsym \<leftarrow> r;
     if sh_entsize sect_dynsym = 0 then None
     else do {
       let n = (ucast (sh_size sect_dynsym div sh_entsize sect_dynsym) :: u16);
       dyn \<leftarrow> (if n = 0 then Some [] else do {
                 sect_dynstr \<leftarrow> q;
                 dyn_symbols [0..<unat n] (unat (sh_offset sect_dynsym)) (unat (sh_offset sect_dynstr)) f });
       g \<leftarrow> elf_get_section_header_by_name name_got_plt f;
       got \<leftarrow> g;
       d0 \<leftarrow> nth_elem (data_sections p) 0;
       t0 \<leftarrow> nth_elem (text_sections p) 0;
       let got_data = sec_kern_virt d0 + sh_addr got - snd x;
       s \<leftarrow> copy_kern (got_data + 8) (le_bytes (sec_virt t0 + sh_offset plt)) s;
       s \<leftarrow> copy_kern (got_data + 0x10) (le_bytes preamble) s;
       rela \<leftarrow> rela_symbols [0..<int_count (sh_size plt div 24)] plt ksyms f;
       Some (p\<lparr>num_dyn_syms := n\<rparr>, s, dyn, rela) } }"

text \<open>What follows the loop is left out when it was left early, or without a section .rela.plt.\<close>

definition elf_loader_load_binary ::
    "u64 \<Rightarrow> symbol_collection \<Rightarrow> elf_file \<Rightarrow> u8 list \<Rightarrow> u64 \<Rightarrow> loaded \<Rightarrow> loaded option" where
  "elf_loader_load_binary preamble ksyms f data ava l = (case l of (p, s, dyn, rela) \<Rightarrow> do {
     (aborted, x, s) \<leftarrow> load_segments [0..<unat (el_num_program_headers f)] f data (p, ava) s;
     if aborted then Some (fst x, s, dyn, rela)
     else do {
       rel_plt \<leftarrow> elf_get_section_header_by_name name_rela_plt f;
       case rel_plt of None \<Rightarrow> Some (fst x, s, dyn, rela)
       | Some plt \<Rightarrow> load_plt preamble ksyms plt f x s } })"

abbreviation (input) KERR_ELF_INAVLID :: int where "KERR_ELF_INAVLID \<equiv> - 4"

text \<open>
  What the loader uses of the rest of the kernel and of memory that is not cleared:
  result is the value that elf_load_symbols, which has no return statement, leaves behind.
\<close>

record loader_env =
  le_result :: bool
  le_stale :: symbol_collection
  le_ksyms :: symbol_collection
  le_preamble :: u64
  le_ava :: u64
  le_new_elf :: elf_file

definition elf_loader_load :: "loader_env \<Rightarrow> u8 list \<Rightarrow> loaded \<Rightarrow> (int \<times> loaded) option" where
  "elf_loader_load env data l = do {
     c \<leftarrow> nth_elem data 0;
     if c \<noteq> 0x7F then Some (0, l)
     else if length data < 4 then None
     else if take 3 (drop 1 data) \<noteq> [0x45, 0x4C, 0x46] then Some (0, l)
     else do {
       f \<leftarrow> elf_file_initalize data (le_new_elf env);
       f \<leftarrow> elf_load_symbols (le_stale env) f;
       if \<not> le_result env then Some (KERR_ELF_INAVLID, l)
       else do {
         (p, s, dyn, rela) \<leftarrow> elf_loader_load_binary (le_preamble env) (le_ksyms env) f data (le_ava env) l;
         Some (0, p\<lparr>entry := e_entry (el_header f)\<rparr>, s, dyn, rela) } } }"


section \<open>The system calls\<close>

text \<open>The fields set before the file is loaded.\<close>

definition exec_setup :: "u32 \<Rightarrow> string \<Rightarrow> string \<Rightarrow> u64 \<Rightarrow> process_data \<Rightarrow> process_data" where
  "exec_setup sz path name args p = p\<lparr>status := PROCESS_STATUS_IN_SETUP, exec_size := sz, ppath := path, pname := name,
     argv := args, argc := 1, working_dir := ''/'', has_own_addr_space := True\<rparr>"

definition exec_stack :: "process_data \<Rightarrow> paging \<Rightarrow> (process_data \<times> paging) option" where
  "exec_stack p s = do {
     (kv, s) \<leftarrow> page_allocate_kernel (of_nat PROCESS_DEFAULT_STACK_PAGES) s;
     ph \<leftarrow> paging_virtual_to_physical kv s;
     let p = p\<lparr>proc_stack_virt := 0xA0000000, proc_stack_kvirt := kv, proc_stack_phys := ph,
               stack_size := PROCESS_DEFAULT_STACK_SIZE\<rparr>;
     (v, s) \<leftarrow> page_map (proc_stack_virt p) (proc_stack_phys p) s;
     s \<leftarrow> map_sections (unat (text_section_count p)) (text_sections p) s;
     s \<leftarrow> map_sections (unat (data_section_count p)) (data_sections p) s;
     s \<leftarrow> map_stack PROCESS_DEFAULT_STACK_PAGES (proc_stack_virt p) (proc_stack_phys p) s;
     Some (p, s) }"

definition exec_context :: "process_data \<Rightarrow> registers" where
  "exec_context p = zero_registers\<lparr>rip := entry p, rsp := proc_stack_virt p + ucast (stack_size p),
     cs := 0x28, rflags := 0x200, ss := 0x30\<rparr>"

text \<open>
  The number of arguments, and the copy of their array. av, the argument argv, is None for NULL; the
  pointers to the copies are not part of the model, args_new is the address of the new array.
\<close>

definition count_args :: "u8 list list option \<Rightarrow> nat" where
  "count_args av = (case av of None \<Rightarrow> 0 | Some xs \<Rightarrow> if length xs = 20 then 0 else length xs)"

definition copy_args :: "u8 list list option \<Rightarrow> u8 list list" where
  "copy_args av = (case av of None \<Rightarrow> [] | Some xs \<Rightarrow> take (count_args av) xs)"

text \<open>
  attr is the result of vfs_getattr with the size of the file, buff the memory behind
  vfs_read. The result: what becomes of the registers, the arguments of the program, and
  the kernel.
\<close>

definition execve_handler ::
    "loader_env \<Rightarrow> int \<times> u32 \<Rightarrow> u8 list \<Rightarrow> u64 \<Rightarrow> string \<Rightarrow> u64 \<Rightarrow> u8 list list option \<Rightarrow>
     symbol_index list \<times> symbol_index list \<Rightarrow> registers \<Rightarrow> kernel_proc_data \<Rightarrow>
     (registers \<times> u8 list list \<times> (symbol_index list \<times> symbol_index list) \<times> kernel_proc_data) option" where
  "execve_handler env attr buff args_new path args av syms ctx k =
     (if fst attr \<noteq> 0 then Some (ctx, [], syms, k)
      else do {
        p \<leftarrow> rd_proc (current_process k) k;
        name \<leftarrow> copy_str 256 path;
        let p = exec_setup (snd attr) path name args p;
        (err, p, s, syms) \<leftarrow> elf_loader_load env buff (p, pg k, syms);
        (p, s) \<leftarrow> exec_stack p s;
        let p = p\<lparr>pcontext := (exec_context p)\<lparr>rdi := of_nat (count_args av), rsi := args_new\<rparr>,
                  status := PROCESS_STATUS_ACTIVE\<rparr>;
        k \<leftarrow> wr_proc (current_process k) (\<lambda>_. p) (k\<lparr>pg := s\<rparr>);
        Some (pcontext p, copy_args av, syms, k) })"

text \<open>execm does not look at its arguments.\<close>

definition execm_handler ::
    "loader_env \<Rightarrow> u8 list \<Rightarrow> u64 \<Rightarrow> symbol_index list \<times> symbol_index list \<Rightarrow> registers \<Rightarrow> kernel_proc_data \<Rightarrow>
     (registers \<times> (symbol_index list \<times> symbol_index list) \<times> kernel_proc_data) option" where
  "execm_handler env exec_data args syms ctx k = do {
     p \<leftarrow> rd_proc (current_process k) k;
     let p = exec_setup 0 ''mem'' ''mem_exec'' args p;
     (err, p, s, syms) \<leftarrow> elf_loader_load env exec_data (p, pg k, syms);
     (p, s) \<leftarrow> exec_stack p s;
     let p = p\<lparr>pcontext := exec_context p, status := PROCESS_STATUS_ACTIVE\<rparr>;
     k \<leftarrow> wr_proc (current_process k) (\<lambda>_. p) (k\<lparr>pg := s\<rparr>);
     Some (pcontext p, syms, k) }"

end
