(* ===== verification/LoaderMem.thy ===== *)
theory LoaderMem
  imports Loader AddrSpace
begin

text \<open>
  The memory under the program loader: the bytes of a frame.
\<close>

section \<open>Bytes of a frame\<close>

definition byte_at :: "u64 list \<Rightarrow> nat \<Rightarrow> u8" where
  "byte_at t i = ucast (drop_bit (8 * (i mod 8)) (t ! (i div 8)))"

lemma get_set_byte:
  assumes "j < 8" "i < 8"
  shows "(ucast (drop_bit (8 * i) (set_byte j b w)) :: u8) = (if i = j then b else ucast (drop_bit (8 * i) w))"
proof (rule bit_word_eqI)
  fix n assume "n < LENGTH(8)"
  then have n: "n < 8" by simp
  have mask: "bit (0xFF :: u64) m \<longleftrightarrow> m < 8" for m
  proof -
    have "(0xFF :: u64) = mask 8" by (simp add: mask_eq_exp_minus_1)
    then show ?thesis using bit_mask_iff [where 'a = u64, of 8 m] by auto
  qed
  have s: "8 * i + n < 64" using assms n by simp
  show "bit (ucast (drop_bit (8 * i) (set_byte j b w)) :: u8) n
      = bit (if i = j then b else ucast (drop_bit (8 * i) w)) n"
  proof (cases "i = j")
    case True
    then show ?thesis using n s mask [of n]
      by (simp add: set_byte_def bit_ucast_iff bit_drop_bit_eq bit_or_iff bit_and_iff bit_not_iff bit_push_bit_iff mask)
  next
    case False
    then consider "Suc i \<le> j" | "Suc j \<le> i" by linarith
    then consider "8 * i + n < 8 * j" | "8 * j + 8 \<le> 8 * i + n" by cases (use n in linarith)+
    then show ?thesis
    proof cases
      case 1
      then show ?thesis using n s False
        by (simp add: set_byte_def bit_ucast_iff bit_drop_bit_eq bit_or_iff bit_and_iff bit_not_iff bit_push_bit_iff)
    next
      case 2
      then have "\<not> bit b (8 * i + n - 8 * j)" by (intro word_bit_beyond) simp
      moreover have "\<not> 8 * i + n - 8 * j < 8" using 2 by linarith
      ultimately show ?thesis using n s False 2 mask [of "8 * i + n - 8 * j"]
        by (simp add: set_byte_def bit_ucast_iff bit_drop_bit_eq bit_or_iff bit_and_iff bit_not_iff bit_push_bit_iff mask)
    qed
  qed
qed

lemma byte_at_set:
  assumes "i div 8 < length t"
  shows "byte_at (t[i div 8 := set_byte (i mod 8) b (t ! (i div 8))]) k = (if k = i then b else byte_at t k)"
proof (cases "k div 8 = i div 8")
  case True
  then have "k = i \<longleftrightarrow> k mod 8 = i mod 8" by (metis div_mod_decomp)
  then show ?thesis using True assms by (auto simp: byte_at_def get_set_byte)
qed (auto simp: byte_at_def)

lemma byte_at_zero: "i div 8 < n \<Longrightarrow> byte_at (replicate n 0) i = 0"
  by (simp add: byte_at_def)

end
