(* ===== verification/LoaderSeg.thy ===== *)
theory LoaderSeg
  imports LoaderMem
begin

text \<open>
  The segments of a program: what section_pages and the copy of the file's bytes leave in the
  frames taken for a segment.
\<close>

section \<open>Copies into fresh frames\<close>

text \<open>Byte i of the n pages from the frame F on.\<close>

definition frame_byte :: "paging \<Rightarrow> u64 \<Rightarrow> nat \<Rightarrow> u8" where
  "frame_byte s F i = byte_at (the (frames s (page_of F (i div 4096)))) (i mod 4096)"

definition area :: "(u64 \<Rightarrow> nat) \<Rightarrow> paging \<Rightarrow> u64 \<Rightarrow> nat \<Rightarrow> bool" where
  "area lev s F n \<longleftrightarrow> n * 4096 < 2 ^ 64 \<and> (\<forall>j<n. plain_frame s (page_of F j) \<and> lev (page_of F j) = 1)"

definition area_frames :: "u64 \<Rightarrow> nat \<Rightarrow> u64 set" where
  "area_frames F n = page_of F ` {..<n}"

lemma area_wrote: "area lev s F n \<Longrightarrow> wrote lev D s s' \<Longrightarrow> area lev s' F n"
  using keeps_plain [of D s s'] by (simp add: area_def wrote_def)

lemma page_of_eq:
  assumes "i * 4096 < 2 ^ 64" "j * 4096 < 2 ^ 64"
  shows "page_of F i = page_of F j \<longleftrightarrow> i = j"
proof
  assume "page_of F i = page_of F j"
  then have "(of_nat (i * 4096) :: u64) = of_nat (j * 4096)" by (simp add: page_of_def)
  then have "unat (of_nat (i * 4096) :: u64) = unat (of_nat (j * 4096) :: u64)" by (rule arg_cong)
  then show "i = j" using unat_of_nat_u64 [of "i * 4096"] unat_of_nat_u64 [of "j * 4096"] assms by simp
qed simp

lemma write_area:
  assumes ok: "paging_ok lev s" and a: "area lev s F n" and i: "i < 4096 * n"
  shows "\<exists>s'. write_phys (F + of_nat i) b s = Some s' \<and> wrote lev (area_frames F n) s s'
     \<and> (\<forall>k < 4096 * n. frame_byte s' F k = (if k = i then b else frame_byte s F k))"
proof -
  define j where "j = i div 4096"
  define m where "m = i mod 4096"
  let ?q = "page_of F j"
  have j: "j < n" and m: "m < 4096" using i by (simp_all add: j_def m_def)
  have p: "plain_frame s ?q" "lev ?q = 1" using a j by (simp_all add: area_def)
  then obtain t where t: "frames s ?q = Some t" by (auto simp: plain_frame_def)
  have len: "length t = 512" using tree_okD(1) [of lev "frames s"] ok t by (auto simp: paging_ok_def)
  have "?q AND PAGE_ADDR_MASK = ?q" using ok t by (simp add: paging_ok_def addr_ok_def)
  note parts = page_parts [OF this m]
  have "i = j * 4096 + m" by (simp add: j_def m_def)
  then have pa: "F + of_nat i = ?q + of_nat m" by (simp add: page_of_def)
  let ?s = "s\<lparr>frames := (frames s)(?q \<mapsto> t[m div 8 := set_byte (m mod 8) b (t ! (m div 8))])\<rparr>"
  have w: "write_phys (F + of_nat i) b s = Some ?s"
    using t len m unfolding write_phys_def pa parts by (simp add: Let_def)
  have wr: "wrote lev (area_frames F n) s ?s" using plain_write [OF ok p t] j by (simp add: area_frames_def)
  have "frame_byte ?s F k = (if k = i then b else frame_byte s F k)" if k: "k < 4096 * n" for k
  proof (cases "k div 4096 = j")
    case True
    then have "k = i \<longleftrightarrow> k mod 4096 = m" unfolding j_def m_def by (metis div_mod_decomp)
    then show ?thesis using byte_at_set [of m t b "k mod 4096"] True t len m by (simp add: frame_byte_def)
  next
    case False
    have "k div 4096 < n" using k by linarith
    then have "k div 4096 * 4096 < 2 ^ 64" "j * 4096 < 2 ^ 64" using a j by (auto simp: area_def)
    then have "page_of F (k div 4096) \<noteq> ?q" using False page_of_eq by blast
    moreover have "k \<noteq> i" using False by (auto simp: j_def)
    ultimately show ?thesis by (simp add: frame_byte_def)
  qed
  then show ?thesis using w wr by blast
qed

lemma copy_area:
  assumes "paging_ok lev s" "area lev s F n" "o' + length bs \<le> 4096 * n"
    "\<forall>k < 4096 * n. table_frame s (V + of_nat k) = F + of_nat k"
  shows "\<exists>s'. copy_kern (V + of_nat o') bs s = Some s' \<and> wrote lev (area_frames F n) s s'
     \<and> (\<forall>k < 4096 * n. frame_byte s' F k = (if o' \<le> k \<and> k < o' + length bs then bs ! (k - o') else frame_byte s F k))"
  using assms
proof (induction bs arbitrary: s o')
  case Nil
  then show ?case by (auto simp: wrote_refl)
next
  case (Cons b bs)
  have o': "o' < 4096 * n" using Cons.prems(3) by simp
  obtain s1 where s1: "write_phys (F + of_nat o') b s = Some s1" "wrote lev (area_frames F n) s s1"
    "\<forall>k < 4096 * n. frame_byte s1 F k = (if k = o' then b else frame_byte s F k)"
    using write_area [OF Cons.prems(1,2) o'] by blast
  have tf: "table_frame s1 v = table_frame s v" for v using s1(2) by (simp add: wrote_def keeps_def)
  have "paging_ok lev s1" using s1(2) by (simp add: wrote_def)
  from Cons.IH [OF this area_wrote [OF Cons.prems(2) s1(2)], of "Suc o'"] obtain s2 where
    s2: "copy_kern (V + of_nat (Suc o')) bs s1 = Some s2" "wrote lev (area_frames F n) s1 s2"
    "\<forall>k < 4096 * n. frame_byte s2 F k = (if Suc o' \<le> k \<and> k < Suc o' + length bs then bs ! (k - Suc o') else frame_byte s1 F k)"
    using Cons.prems(3,4) tf by auto
  have "copy_kern (V + of_nat o') (b # bs) s = Some s2"
    using s1(1) s2(1) Cons.prems(4) o' by (simp add: write_kern_def algebra_simps)
  moreover have "frame_byte s2 F k = (if o' \<le> k \<and> k < o' + length (b # bs) then (b # bs) ! (k - o') else frame_byte s F k)"
    if "k < 4096 * n" for k
    using s1(3) s2(3) that by (auto simp: nth_Cons diff_Suc split: nat.split)
  ultimately show ?case using wrote_trans [OF s1(2) s2(2)] by blast
qed

section \<open>The pages of a segment\<close>

definition sections_at :: "u64 \<Rightarrow> u64 \<Rightarrow> u64 \<Rightarrow> nat \<Rightarrow> process_exec_section list" where
  "sections_at F virt V n =
     map (\<lambda>j. \<lparr>sec_phys = page_of F j, sec_virt = page_of virt j, sec_kern_virt = page_of V j\<rparr>) [0..<n]"

lemma sections_at_Suc: "sections_at F virt V (Suc n) = \<lparr>sec_phys = F, sec_virt = virt, sec_kern_virt = V\<rparr>
    # sections_at (page_of F 1) (virt + PAGE_SIZE) (page_of V 1) n"
  by (simp add: sections_at_def map_upt_Suc page_of_page page_of_Suc del: upt_Suc)

lemma section_pages_ok:
  assumes "paging_ok lev s" "room lev (n + m) s" "window s"
  shows "\<exists>s' lev'. section_pages n virt s =
      Some (sections_at (kernel_physical_memory_next s) virt (kernel_virtual_memory_next s) n, s')
     \<and> taken lev s n lev' s' \<and> room lev' m s'"
  using assms
proof (induction n arbitrary: lev s virt)
  case 0
  then show ?case by (auto simp: taken_def keeps_refl sections_at_def)
next
  case (Suc n)
  let ?F = "kernel_physical_memory_next s" and ?V = "kernel_virtual_memory_next s"
  obtain s1 l1 where
    1: "page_allocate_kernel 1 s = Some (?V, s1)" "taken lev s 1 l1 s1" "room l1 (n + m) s1"
    using kernel_pages [of lev s 1 "n + m"] Suc.prems by auto
  have "room lev 1 s" using room_mono [OF Suc.prems(2)] by simp
  from taken_translates [OF 1(2) Suc.prems(1,3) this, of 0]
  have tr: "paging_virtual_to_physical ?V s1 = Some ?F" by simp
  have s1: "paging_ok l1 s1" "window s1" "kernel_physical_memory_next s1 = page_of ?F 1"
    "kernel_virtual_memory_next s1 = page_of ?V 1" using 1(2) by (simp_all add: taken_def)
  from Suc.IH [OF s1(1) 1(3) s1(2), of "virt + PAGE_SIZE"] obtain s2 l2 where
    2: "section_pages n (virt + PAGE_SIZE) s1 = Some (sections_at (page_of ?F 1) (virt + PAGE_SIZE) (page_of ?V 1) n, s2)"
       "taken l1 s1 n l2 s2" "room l2 m s2" by (auto simp: s1(3,4))
  then show ?case using 1(1) tr taken_add [OF 1(2) 2(2)] by (simp add: sections_at_Suc) blast
qed

lemma keeps_fresh:
  assumes k: "keeps {} s s1" "keeps D s1 s2" and D: "\<forall>q \<in> D. frames s q = None"
  shows "keeps {} s s2"
proof -
  have "q \<notin> D" if "plain_frame s q" for q using D that by (auto simp: plain_frame_def)
  then show ?thesis using keeps_trans [OF k] by (simp add: keeps_def)
qed

text \<open>What the memory of a segment has to hold: the bytes of the file, and zeros around them.\<close>

definition seg_image :: "Elf64_Phdr \<Rightarrow> u8 list \<Rightarrow> nat \<Rightarrow> u8" where
  "seg_image ph data k =
     (if unat (segment_offset ph) \<le> k \<and> k < unat (segment_offset ph) + unat (p_filesz ph)
      then data ! (unat (p_offset ph) + (k - unat (segment_offset ph))) else 0)"

definition seg_len :: "Elf64_Phdr \<Rightarrow> nat" where
  "seg_len ph = unat (segment_pages ph)"

definition seg_fits :: "Elf64_Phdr \<Rightarrow> u8 list \<Rightarrow> bool" where
  "seg_fits ph data \<longleftrightarrow> unat (p_offset ph) + unat (p_filesz ph) \<le> length data \<and> seg_len ph \<noteq> 0
     \<and> unat (segment_offset ph) + unat (p_filesz ph) \<le> 4096 * seg_len ph
     \<and> \<not> (p_flags ph AND PF_X = 0 \<and> p_flags ph AND PF_R = 0)"

definition image_at :: "paging \<Rightarrow> u64 \<Rightarrow> Elf64_Phdr \<Rightarrow> u8 list \<Rightarrow> bool" where
  "image_at s F ph data \<longleftrightarrow> (\<forall>j < seg_len ph. plain_frame s (page_of F j))
     \<and> (\<forall>k < 4096 * seg_len ph. frame_byte s F k = seg_image ph data k)"

lemma image_at_keeps:
  assumes "image_at s F ph data" "keeps {} s s'"
  shows "image_at s' F ph data"
proof -
  have "frame_byte s' F k = frame_byte s F k" if "k < 4096 * seg_len ph" for k
  proof -
    have "k div 4096 < seg_len ph" using that by linarith
    then show ?thesis using assms by (simp add: image_at_def keeps_def frame_byte_def)
  qed
  then show ?thesis using assms keeps_plain [OF assms(2)] by (simp add: image_at_def)
qed

text \<open>n pages have been taken and filled.\<close>

definition filled :: "(u64 \<Rightarrow> nat) \<Rightarrow> paging \<Rightarrow> nat \<Rightarrow> (u64 \<Rightarrow> nat) \<Rightarrow> paging \<Rightarrow> bool" where
  "filled lev s n lev' s' \<longleftrightarrow> paging_ok lev' s' \<and> window s' \<and> keeps {} s s'
     \<and> kernel_virtual_memory_next s' = page_of (kernel_virtual_memory_next s) n
     \<and> kernel_physical_memory_next s' = page_of (kernel_physical_memory_next s) n"

lemma filled_trans: "filled lev s n l1 s1 \<Longrightarrow> filled l1 s1 m l2 s2 \<Longrightarrow> filled lev s (n + m) l2 s2"
  using keeps_trans [of "{}" s s1 "{}" s2] by (simp add: filled_def page_of_page)

lemma taken_filled: "taken lev s n lev' s' \<Longrightarrow> filled lev s n lev' s'"
  by (simp add: taken_def filled_def)

lemma taken_zero:
  assumes "taken lev s n lev' s'" "k < 4096 * n"
  shows "frame_byte s' (kernel_physical_memory_next s) k = 0"
proof -
  have "k div 4096 < n" using assms(2) by linarith
  then have "frames s' (page_of (kernel_physical_memory_next s) (k div 4096)) = Some (replicate 512 0)"
    using assms(1) by (simp add: taken_def)
  moreover have "k mod 4096 div 8 < 512" by (simp add: div_less_iff_less_mult)
  ultimately show ?thesis by (simp add: frame_byte_def byte_at_zero)
qed

lemma taken_area:
  assumes "taken lev s n lev' s'" "room lev n s"
  shows "area lev' s' (kernel_physical_memory_next s) n" "\<forall>q \<in> area_frames (kernel_physical_memory_next s) n. frames s q = None"
  using assms by (auto simp: taken_def area_def area_frames_def room_def)

lemma one_segment:
  assumes ok: "paging_ok lev s" and r: "room lev (seg_len ph + m) s" and w: "window s" and fits: "seg_fits ph data"
  defines "F \<equiv> kernel_physical_memory_next s" and "V \<equiv> kernel_virtual_memory_next s"
  shows "\<exists>s1 s2 lev'. section_pages (seg_len ph) (segment_start ph) s = Some (sections_at F (segment_start ph) V (seg_len ph), s1)
     \<and> copy_kern (V + segment_offset ph) (take (unat (p_filesz ph)) (drop (unat (p_offset ph)) data)) s1 = Some s2
     \<and> filled lev s (seg_len ph) lev' s2 \<and> room lev' m s2 \<and> image_at s2 F ph data"
proof -
  let ?n = "seg_len ph" and ?bs = "take (unat (p_filesz ph)) (drop (unat (p_offset ph)) data)"
  obtain s1 lev' where 1: "section_pages ?n (segment_start ph) s = Some (sections_at F (segment_start ph) V ?n, s1)"
    "taken lev s ?n lev' s1" "room lev' m s1" using section_pages_ok [OF ok r w] unfolding F_def V_def by blast
  have rn: "room lev ?n s" using room_mono [OF r] by simp
  note ar = taken_area [OF 1(2) rn, folded F_def]
  have "unat (p_offset ph) + unat (p_filesz ph) \<le> length data" using fits by (simp add: seg_fits_def)
  then have lb: "length ?bs = unat (p_filesz ph)" unfolding length_take length_drop by linarith
  have k1: "keeps {} s s1" "paging_ok lev' s1" using 1(2) by (simp_all add: taken_def)
  have "\<forall>k < 4096 * ?n. table_frame s1 (V + of_nat k) = F + of_nat k"
    using window_linear [OF rn] k1(1) by (simp add: keeps_def F_def V_def)
  from copy_area [OF k1(2) ar(1) _ this, of "unat (segment_offset ph)" ?bs] obtain s2 where
    2: "copy_kern (V + segment_offset ph) ?bs s1 = Some s2" "wrote lev' (area_frames F ?n) s1 s2"
    "\<forall>k < 4096 * ?n. frame_byte s2 F k = (if unat (segment_offset ph) \<le> k \<and> k < unat (segment_offset ph) + length ?bs
        then ?bs ! (k - unat (segment_offset ph)) else frame_byte s1 F k)"
    using fits lb by (auto simp: seg_fits_def)
  have "keeps {} s s2" using keeps_fresh [OF k1(1) _ ar(2)] 2(2) by (simp add: wrote_def)
  moreover have "kernel_virtual_memory_next s2 = kernel_virtual_memory_next s1"
    "kernel_physical_memory_next s2 = kernel_physical_memory_next s1"
    using 2(2) unfolding wrote_def by (metis paging.select_convs paging.surjective paging.update_convs(1))+
  ultimately have "filled lev s ?n lev' s2" using 1(2) 2(2) by (simp add: filled_def taken_def wrote_def)
  moreover have "image_at s2 F ph data"
    using area_wrote [OF ar(1) 2(2)] 2(3) taken_zero [OF 1(2)] lb fits
    by (auto simp: image_at_def area_def seg_image_def F_def seg_fits_def add.commute)
  moreover have "room lev' m s2" using 2(2) 1(3) by (simp add: wrote_def)
  ultimately show ?thesis using 1(1) 2(1) by blast
qed

end
