(* ===== verification/LoaderDemo.thy ===== *)
theory LoaderDemo
  imports LoaderSeg
begin

text \<open>
  A small program for the theorems about the loader: the bytes of an ELF file with a code and a data
  segment, and what the kernel reads in it.
\<close>

definition px_ehdr :: "u8 list" where
  "px_ehdr =
    [127, 69, 76, 70, 2, 1, 1, 0, 0, 0, 0, 0, 0, 0, 0, 0, 2, 0, 62, 0, 1, 0, 0, 0, 16, 0, 0, 64, 0, 0,
     0, 0, 64, 0, 0, 0, 0, 0, 0, 0, 232, 0, 0, 0, 0, 0, 0, 0, 0, 0, 0, 0, 64, 0, 56, 0, 3, 0, 64, 0,
     3, 0, 2, 0]"

definition px_ph_code :: "u8 list" where
  "px_ph_code =
    [1, 0, 0, 0, 5, 0, 0, 0, 222, 1, 0, 0, 0, 0, 0, 0, 16, 0, 0, 64, 0, 0, 0, 0, 16, 0, 0, 64, 0, 0,
     0, 0, 8, 0, 0, 0, 0, 0, 0, 0, 8, 0, 0, 0, 0, 0, 0, 0, 0, 16, 0, 0, 0, 0, 0, 0]"

definition px_ph_note :: "u8 list" where
  "px_ph_note =
    [81, 229, 116, 100, 6, 0, 0, 0, 0, 0, 0, 0, 0, 0, 0, 0, 0, 0, 0, 0, 0, 0, 0, 0, 0, 0, 0, 0, 0, 0,
     0, 0, 0, 0, 0, 0, 0, 0, 0, 0, 0, 0, 0, 0, 0, 0, 0, 0, 16, 0, 0, 0, 0, 0, 0, 0]"

definition px_ph_data :: "u8 list" where
  "px_ph_data =
    [1, 0, 0, 0, 6, 0, 0, 0, 230, 1, 0, 0, 0, 0, 0, 0, 32, 16, 0, 64, 0, 0, 0, 0, 32, 16, 0, 64, 0, 0,
     0, 0, 8, 0, 0, 0, 0, 0, 0, 0, 32, 0, 0, 0, 0, 0, 0, 0, 0, 16, 0, 0, 0, 0, 0, 0]"

definition px_sh_symtab :: "u8 list" where
  "px_sh_symtab =
    [1, 0, 0, 0, 2, 0, 0, 0, 0, 0, 0, 0, 0, 0, 0, 0, 0, 0, 0, 0, 0, 0, 0, 0, 168, 1, 0, 0, 0, 0,
     0, 0, 24, 0, 0, 0, 0, 0, 0, 0, 1, 0, 0, 0, 1, 0, 0, 0, 8, 0, 0, 0, 0, 0, 0, 0, 24, 0, 0, 0,
     0, 0, 0, 0]"

definition px_sh_strtab :: "u8 list" where
  "px_sh_strtab =
    [9, 0, 0, 0, 3, 0, 0, 0, 0, 0, 0, 0, 0, 0, 0, 0, 0, 0, 0, 0, 0, 0, 0, 0, 192, 1, 0, 0, 0, 0,
     0, 0, 3, 0, 0, 0, 0, 0, 0, 0, 0, 0, 0, 0, 0, 0, 0, 0, 1, 0, 0, 0, 0, 0, 0, 0, 0, 0, 0, 0,
     0, 0, 0, 0]"

definition px_sh_shstrtab :: "u8 list" where
  "px_sh_shstrtab =
    [17, 0, 0, 0, 3, 0, 0, 0, 0, 0, 0, 0, 0, 0, 0, 0, 0, 0, 0, 0, 0, 0, 0, 0, 195, 1, 0, 0, 0, 0,
     0, 0, 27, 0, 0, 0, 0, 0, 0, 0, 0, 0, 0, 0, 0, 0, 0, 0, 1, 0, 0, 0, 0, 0, 0, 0, 0, 0, 0, 0,
     0, 0, 0, 0]"

definition px_sym :: "u8 list" where
  "px_sym =
    [1, 0, 0, 0, 18, 0, 1, 0, 16, 0, 0, 64, 0, 0, 0, 0, 8, 0, 0, 0, 0, 0, 0, 0]"

definition px_strtab :: "u8 list" where
  "px_strtab =
    [0, 109, 0]"

definition px_shstrtab :: "u8 list" where
  "px_shstrtab =
    [0, 46, 115, 121, 109, 116, 97, 98, 0, 46, 115, 116, 114, 116, 97, 98, 0, 46, 115, 104, 115, 116, 114, 116, 97, 98, 0]"

definition px_code :: "u8 list" where
  "px_code =
    [144, 145, 146, 147, 148, 149, 150, 151]"

definition px_bytes :: "u8 list" where
  "px_bytes =
    [65, 66, 67, 68, 69, 70, 71, 72]"

definition px_elf :: "u8 list" where
  "px_elf = px_ehdr @ px_ph_code @ px_ph_note @ px_ph_data @ px_sh_symtab @ px_sh_strtab @ px_sh_shstrtab @ px_sym @ px_strtab @ px_shstrtab @ px_code @ px_bytes"

lemma px_lengths [simp]:
  "length px_ehdr = 64"
  "length px_ph_code = 56"
  "length px_ph_note = 56"
  "length px_ph_data = 56"
  "length px_sh_symtab = 64"
  "length px_sh_strtab = 64"
  "length px_sh_shstrtab = 64"
  "length px_sym = 24"
  "length px_strtab = 3"
  "length px_shstrtab = 27"
  "length px_code = 8"
  "length px_bytes = 8"
  by (simp_all add: px_ehdr_def px_ph_code_def px_ph_note_def px_ph_data_def px_sh_symtab_def px_sh_strtab_def px_sh_shstrtab_def px_sym_def px_strtab_def px_shstrtab_def px_code_def px_bytes_def)

lemma px_length [simp]: "length px_elf = 494"
  by (simp add: px_elf_def)

lemma px_pieces:
  "take 64 (drop 0 px_elf) = px_ehdr"
  "take 56 (drop 64 px_elf) = px_ph_code"
  "take 56 (drop 120 px_elf) = px_ph_note"
  "take 56 (drop 176 px_elf) = px_ph_data"
  "take 64 (drop 232 px_elf) = px_sh_symtab"
  "take 64 (drop 296 px_elf) = px_sh_strtab"
  "take 64 (drop 360 px_elf) = px_sh_shstrtab"
  "take 24 (drop 424 px_elf) = px_sym"
  "take 8 (drop 478 px_elf) = px_code"
  "take 8 (drop 486 px_elf) = px_bytes"
  by (simp_all add: px_elf_def)

definition px_header :: Elf64_Ehdr where
  "px_header = \<lparr>e_type = 2, e_machine = 62, e_version = 1, e_entry = 0x40000010, e_phoff = 64, e_shoff = 232, e_flags = 0,
     e_ehsize = 64, e_phentsize = 56, e_phnum = 3, e_shentsize = 64, e_shnum = 3, e_shstrndx = 2\<rparr>"

definition px_code_seg :: Elf64_Phdr where
  "px_code_seg = \<lparr>p_type = 1, p_flags = 5, p_offset = 478, p_vaddr = 0x40000010, p_paddr = 0x40000010,
     p_filesz = 8, p_memsz = 8, p_align = 0x1000\<rparr>"

definition px_note_seg :: Elf64_Phdr where
  "px_note_seg = \<lparr>p_type = 0x6474E551, p_flags = 6, p_offset = 0, p_vaddr = 0, p_paddr = 0, p_filesz = 0, p_memsz = 0, p_align = 16\<rparr>"

definition px_data_seg :: Elf64_Phdr where
  "px_data_seg = \<lparr>p_type = 1, p_flags = 6, p_offset = 486, p_vaddr = 0x40001020, p_paddr = 0x40001020,
     p_filesz = 8, p_memsz = 0x20, p_align = 0x1000\<rparr>"

lemma px_records:
  "ehdr_at px_ehdr 0 = Some px_header"
  "phdr_at px_ph_code 0 = Some px_code_seg" "phdr_at px_ph_note 0 = Some px_note_seg" "phdr_at px_ph_data 0 = Some px_data_seg"
  "shdr_at px_sh_symtab 0 = Some \<lparr>sh_name = 1, sh_type = 2, sh_flags = 0, sh_addr = 0, sh_offset = 424, sh_size = 24,
     sh_link = 1, sh_info = 1, sh_addralign = 8, sh_entsize = 24\<rparr>"
  "shdr_at px_sh_strtab 0 = Some \<lparr>sh_name = 9, sh_type = 3, sh_flags = 0, sh_addr = 0, sh_offset = 448, sh_size = 3,
     sh_link = 0, sh_info = 0, sh_addralign = 1, sh_entsize = 0\<rparr>"
  "shdr_at px_sh_shstrtab 0 = Some \<lparr>sh_name = 17, sh_type = 3, sh_flags = 0, sh_addr = 0, sh_offset = 451, sh_size = 27,
     sh_link = 0, sh_info = 0, sh_addralign = 1, sh_entsize = 0\<rparr>"
  "sym_at px_sym 0 = Some \<lparr>st_name = 1, st_info = 0x12, st_other = 0, st_shndx = 1, st_value = 0x40000010, st_symsize = 8\<rparr>"
  by code_simp+

lemmas px_reads [simp] =
  records_in_piece(1) [OF px_pieces(1) px_lengths(1)]
  records_in_piece(2) [OF px_pieces(2) px_lengths(2)]
  records_in_piece(2) [OF px_pieces(3) px_lengths(3)]
  records_in_piece(2) [OF px_pieces(4) px_lengths(4)]
  records_in_piece(3) [OF px_pieces(5) px_lengths(5)]
  records_in_piece(3) [OF px_pieces(6) px_lengths(6)]
  records_in_piece(3) [OF px_pieces(7) px_lengths(7)]
  records_in_piece(4) [OF px_pieces(8) px_lengths(8)]

lemma px_strings [simp]:
  "str_at px_elf 449 = Some [0x6D]" "str_at px_elf 452 = Some [0x2E, 0x73, 0x79, 0x6D, 0x74, 0x61, 0x62]"
  "str_at px_elf 460 = Some [0x2E, 0x73, 0x74, 0x72, 0x74, 0x61, 0x62]"
  "str_at px_elf 468 = Some [0x2E, 0x73, 0x68, 0x73, 0x74, 0x72, 0x74, 0x61, 0x62]"
  by (simp_all add: str_at_def px_elf_def cstr_of_def px_strtab_def px_shstrtab_def)

text \<open>The file structure, with the memory of two symbols behind it.\<close>

definition no_symbol :: symbol where
  "no_symbol = \<lparr>sym_name = [], sym_addr = 0, sym_size = 0, sym_count = 0, sym_start = 0, sym_time = 0\<rparr>"

definition px_env :: loader_env where
  "px_env = \<lparr>le_result = True, le_stale = \<lparr>top = 0, symbols = [no_symbol, no_symbol]\<rparr>,
     le_ksyms = \<lparr>top = 0, symbols = []\<rparr>, le_preamble = 0, le_ava = 0,
     le_new_elf = \<lparr>el_file_base = [], el_header = px_header\<lparr>e_shnum := 0\<rparr>, el_section_headers = 0, el_string_table = 0,
       el_string_table_section_names = 0, el_symbol_table = 0, el_num_symbols = 0, el_num_program_headers = 0,
       el_symbols = \<lparr>top = 0, symbols = []\<rparr>\<rparr>\<rparr>"

definition px_file :: elf_file where
  "px_file = \<lparr>el_file_base = px_elf, el_header = px_header, el_section_headers = 232, el_string_table = 448,
     el_string_table_section_names = 451, el_symbol_table = 424, el_num_symbols = 1, el_num_program_headers = 3,
     el_symbols = \<lparr>top = 1, symbols = [no_symbol\<lparr>sym_name := [0x6D], sym_addr := 0x40000010, sym_size := 8\<rparr>, no_symbol]\<rparr>\<rparr>"

lemma px_load: "elf_file_initalize px_elf (le_new_elf px_env) \<bind> elf_load_symbols (le_stale px_env) = Some px_file"
  by (simp add: elf_file_initalize_def px_records px_header_def elf_get_section_header_by_index_def
      elf_get_section_header_by_type_def elf_load_symbols_def symbols_add_def px_file_def px_env_def no_symbol_def upt_conv_Cons Let_def)

lemma px_static: "elf_get_section_header_by_name name_rela_plt px_file = Some None"
  by (simp add: elf_get_section_header_by_name_def px_file_def px_header_def px_records upt_conv_Cons)

lemma px_segments: "get_program_header_by_index 0 px_file = Some px_code_seg"
  "get_program_header_by_index 1 px_file = Some px_note_seg" "get_program_header_by_index 2 px_file = Some px_data_seg"
  by (simp_all add: get_program_header_by_index_def px_file_def px_header_def px_records)

end
