(* ===== verification/LoaderProps.thy ===== *)
theory LoaderProps
  imports LoaderDemo
begin

text \<open>
  The program that execm starts: the loop over the segments, the stack, and the memory and
  registers the new program finds.
\<close>

section \<open>All segments\<close>

definition seg_total :: "Elf64_Phdr list \<Rightarrow> nat" where
  "seg_total phs = sum_list (map seg_len (filter (\<lambda>ph. p_type ph = PT_LOAD) phs))"

text \<open>The frames and the kernel addresses of the segments, one behind the other.\<close>

primrec placements :: "Elf64_Phdr list \<Rightarrow> u64 \<Rightarrow> u64 \<Rightarrow> (Elf64_Phdr \<times> u64 \<times> u64) list" where
  "placements [] F V = []"
| "placements (ph # phs) F V =
     (if p_type ph = PT_LOAD then (ph, F, V) # placements phs (page_of F (seg_len ph)) (page_of V (seg_len ph))
      else placements phs F V)"

definition place_at :: "Elf64_Phdr \<times> u64 \<times> u64 \<Rightarrow> process_data \<times> u64 \<Rightarrow> process_data \<times> u64" where
  "place_at = (\<lambda>(ph, F, V) x. the (place_segment ph (sections_at F (segment_start ph) V (seg_len ph)) x))"

lemma place_at_segment: "seg_fits ph data \<Longrightarrow>
    place_segment ph (sections_at F (segment_start ph) V (seg_len ph)) x = Some (place_at (ph, F, V) x)"
  by (simp add: place_at_def place_segment_def seg_fits_def)

lemma load_segments_ok:
  assumes "list_all2 (\<lambda>i ph. get_program_header_by_index (of_nat i) f = Some ph) is phs"
    and "\<forall>ph \<in> set phs. p_type ph = PT_LOAD \<longrightarrow> seg_fits ph data"
    and "paging_ok lev s" "window s" "room lev (seg_total phs + m) s"
  shows "\<exists>s' lev'. load_segments is f data x s =
       Some (False, fold place_at (placements phs (kernel_physical_memory_next s) (kernel_virtual_memory_next s)) x, s')
     \<and> filled lev s (seg_total phs) lev' s' \<and> room lev' m s'
     \<and> (\<forall>(ph, F, V) \<in> set (placements phs (kernel_physical_memory_next s) (kernel_virtual_memory_next s)).
          image_at s' F ph data)"
  using assms
proof (induction "is" phs arbitrary: s lev x rule: list_all2_induct)
  case Nil
  then show ?case by (auto simp: seg_total_def filled_def keeps_refl)
next
  case (Cons i "is" ph phs)
  show ?case
  proof (cases "p_type ph = PT_LOAD")
    case False
    then show ?thesis using Cons by (simp add: seg_total_def)
  next
    case True
    let ?F = "kernel_physical_memory_next s" and ?V = "kernel_virtual_memory_next s"
    have fits: "seg_fits ph data" using Cons.prems(1) True by simp
    have tot: "seg_total (ph # phs) = seg_len ph + seg_total phs" using True by (simp add: seg_total_def)
    have "room lev (seg_len ph + (seg_total phs + m)) s" using Cons.prems(4) by (simp add: tot add.assoc)
    from one_segment [OF Cons.prems(2) this Cons.prems(3) fits] obtain s1 s2 l1 where
      1: "section_pages (seg_len ph) (segment_start ph) s = Some (sections_at ?F (segment_start ph) ?V (seg_len ph), s1)"
         "copy_kern (?V + segment_offset ph) (take (unat (p_filesz ph)) (drop (unat (p_offset ph)) data)) s1 = Some s2"
         "filled lev s (seg_len ph) l1 s2" "room l1 (seg_total phs + m) s2" "image_at s2 ?F ph data"
      by blast
    have s2: "paging_ok l1 s2" "window s2" "kernel_physical_memory_next s2 = page_of ?F (seg_len ph)"
      "kernel_virtual_memory_next s2 = page_of ?V (seg_len ph)" using 1(3) by (simp_all add: filled_def)
    have "\<forall>ph \<in> set phs. p_type ph = PT_LOAD \<longrightarrow> seg_fits ph data" using Cons.prems(1) by simp
    from Cons.IH [OF this s2(1,2) 1(4), of "place_at (ph, ?F, ?V) x"] obtain s3 l2 where
      3: "load_segments is f data (place_at (ph, ?F, ?V) x) s2 =
          Some (False, fold place_at (placements phs (page_of ?F (seg_len ph)) (page_of ?V (seg_len ph))) (place_at (ph, ?F, ?V) x), s3)"
         "filled l1 s2 (seg_total phs) l2 s3" "room l2 m s3"
         "\<forall>(ph, F, V) \<in> set (placements phs (page_of ?F (seg_len ph)) (page_of ?V (seg_len ph))). image_at s3 F ph data"
      unfolding s2(3,4) by blast
    have fl: "\<not> (p_flags ph AND PF_X = 0 \<and> p_flags ph AND PF_R = 0)" "\<not> length data < unat (p_offset ph) + unat (p_filesz ph)"
      "seg_len ph \<noteq> 0" using fits by (simp_all add: seg_fits_def)
    then have first: "nth_elem (sections_at ?F (segment_start ph) ?V (seg_len ph)) 0 =
        Some \<lparr>sec_phys = ?F, sec_virt = segment_start ph, sec_kern_virt = ?V\<rparr>"
      by (cases "seg_len ph") (simp_all add: sections_at_Suc nth_elem_def)
    have "load_segments (i # is) f data x s = load_segments is f data (place_at (ph, ?F, ?V) x) s2"
      using Cons.hyps(1) True fl(1,2) 1(1,2) place_at_segment [OF fits] first
      by (cases "p_flags ph AND PF_X = 0") (simp_all add: seg_len_def)
    moreover have "image_at s3 ?F ph data" using image_at_keeps [OF 1(5)] 3(2) by (simp add: filled_def)
    ultimately show ?thesis using 3 filled_trans [OF 1(3) 3(2)] True by (simp add: tot) blast
  qed
qed

lemma placements_filter: "placements phs F V = placements (filter (\<lambda>ph. p_type ph = PT_LOAD) phs) F V"
  by (induction phs arbitrary: F V) auto


section \<open>User memory\<close>

text \<open>The byte a program reads at a user address, in a page of 4 KiB the processor translates it to.\<close>

definition user_byte :: "paging \<Rightarrow> u64 \<Rightarrow> u8 option" where
  "user_byte s v = (case mmu_translate v s of
       Some (Page q 0) \<Rightarrow> map_option (\<lambda>t. byte_at t (unat (v AND 0xFFF))) (frames s q)
     | _ \<Rightarrow> None)"

lemma page_low:
  assumes q: "take_bit 12 q = 0" and i: "i < 4096"
  shows "va_path (q + of_nat i) = va_path q" "unat ((q + of_nat i) AND 0xFFF) = i"
proof -
  have m: "(0xFFF :: u64) = mask 12" by (simp add: mask_eq_exp_minus_1)
  have bq: "bit q n \<Longrightarrow> 12 \<le> n" for n using q by (metis bit_take_bit_iff bit_0_eq bot_apply bot_bool_def not_le)
  have "take_bit 12 (of_nat i :: u64) = of_nat i"
    using i by (simp add: take_bit_of_nat take_bit_nat_eq_self)
  then have bi: "bit (of_nat i :: u64) n \<Longrightarrow> n < 12" for n by (metis bit_take_bit_iff)
  have sum: "q + of_nat i = q OR of_nat i"
    by (rule disjunctive_add_eq_or, rule bit_word_eqI) (use bq bi in \<open>auto simp: bit_and_iff dest: leD\<close>)
  have "drop_bit n (q + of_nat i) = drop_bit n q" if "12 \<le> n" for n
  proof (rule bit_word_eqI)
    fix l
    have "\<not> bit (of_nat i :: u64) (n + l)" using bi [of "n + l"] that by auto
    then show "bit (drop_bit n (q + of_nat i)) l = bit (drop_bit n q) l"
      unfolding sum by (simp add: bit_drop_bit_eq bit_or_iff)
  qed
  then show "va_path (q + of_nat i) = va_path q" by (simp add: va_path_def)
  have "(q + of_nat i) AND 0xFFF = of_nat i"
    unfolding sum by (rule bit_word_eqI) (use bq bi in \<open>auto simp: m bit_and_iff bit_or_iff bit_mask_iff dest: leD\<close>)
  then show "unat ((q + of_nat i) AND 0xFFF) = i" using i by (simp add: unat_of_nat_u64)
qed

lemma page_of_low: "take_bit 12 W = 0 \<Longrightarrow> take_bit 12 (page_of W j) = 0"
proof -
  assume W: "take_bit 12 W = 0"
  have "W = push_bit 12 (drop_bit 12 W)" using bits_ident [of 12 W] W by simp
  then have "W = drop_bit 12 W * 4096" by (simp add: push_bit_eq_mult)
  then have "page_of W j = (drop_bit 12 W + of_nat j) * 4096" unfolding page_of_def by (simp add: distrib_right)
  then have "page_of W j = push_bit 12 (drop_bit 12 W + of_nat j)" by (simp add: push_bit_eq_mult)
  then show ?thesis by (simp add: take_bit_push_bit)
qed

lemma segment_start_low: "take_bit 12 (segment_start ph) = 0"
proof -
  have "p_vaddr ph div 4096 * 4096 = push_bit 12 (p_vaddr ph div 4096)" by (simp add: push_bit_eq_mult)
  then show ?thesis by (simp add: segment_start_def take_bit_push_bit)
qed

text \<open>Mapped pages show the bytes of their frames.\<close>

lemma user_byte_mapped:
  assumes W: "take_bit 12 W = 0" and k: "k < 4096 * n"
    and m: "\<forall>j<n. mmu_translate (page_of W j) s = Some (Page (page_of F j) 0) \<and> frames s (page_of F j) \<noteq> None"
  shows "user_byte s (W + of_nat k) = Some (frame_byte s F k)"
proof -
  have j: "k div 4096 < n" using k by linarith
  have "of_nat k = (of_nat (k div 4096 * 4096 + k mod 4096) :: u64)" by simp
  then have v: "W + of_nat k = page_of W (k div 4096) + of_nat (k mod 4096)"
    unfolding page_of_def by (simp only: of_nat_add of_nat_mult of_nat_numeral add.assoc)
  note low = page_low [OF page_of_low [OF W], of "k mod 4096"]
  have "mmu_translate (W + of_nat k) s = Some (Page (page_of F (k div 4096)) 0)"
  proof -
    have "mmu_translate (page_of W (k div 4096) + of_nat (k mod 4096)) s = mmu_translate (page_of W (k div 4096)) s"
      by (simp only: mmu_translate_def low(1))
    then show ?thesis using m j unfolding v by simp
  qed
  moreover obtain t where "frames s (page_of F (k div 4096)) = Some t" using m j by auto
  ultimately show ?thesis using low(2) v by (simp add: user_byte_def frame_byte_def)
qed

lemma last_mapping_distinct:
  assumes "distinct (map (\<lambda>x. va_path (fst x)) vs)" "(v, p) \<in> set vs"
  shows "last_mapping vs v = Some p"
proof -
  have "distinct (map fst (rev (map (\<lambda>x. (va_path (fst x), snd x)) vs)))"
    using assms(1) by (simp add: rev_map [symmetric] comp_def)
  moreover have "(va_path v, p) \<in> set (rev (map (\<lambda>x. (va_path (fst x), snd x)) vs))" using assms(2) by force
  ultimately show ?thesis by (simp add: last_mapping_def map_of_eq_Some_iff)
qed

lemma last_mapping_Cons: "last_mapping vs v = Some p \<Longrightarrow> last_mapping (x # vs) v = Some p"
  by (simp add: last_mapping_def map_add_def)

section \<open>The new address space\<close>

definition pages_from :: "u64 \<Rightarrow> nat \<Rightarrow> u64 list" where
  "pages_from W n = map (page_of W) [0..<n]"

definition user_pages :: "Elf64_Phdr \<Rightarrow> Elf64_Phdr \<Rightarrow> u64 list" where
  "user_pages tx da = pages_from (segment_start tx) (seg_len tx) @ pages_from (segment_start da) (seg_len da)
     @ pages_from 0xA0000000 16"

lemma section_pairs_at: "section_pairs (sections_at F W V n) = map (\<lambda>j. (page_of W j, page_of F j)) [0..<n]"
  by (simp add: section_pairs_def sections_at_def)

lemma stack_pairs_at: "stack_pairs n W F = map (\<lambda>j. (page_of W j, page_of F j)) [0..<n]"
  by (simp add: stack_pairs_def page_of_def)

definition exec_pairs :: "Elf64_Phdr \<Rightarrow> u64 \<Rightarrow> Elf64_Phdr \<Rightarrow> u64 \<Rightarrow> u64 \<Rightarrow> (u64 \<times> u64) list" where
  "exec_pairs tx Ft da Fd Fs = map (\<lambda>j. (page_of (segment_start tx) j, page_of Ft j)) [0..<seg_len tx]
     @ map (\<lambda>j. (page_of (segment_start da) j, page_of Fd j)) [0..<seg_len da]
     @ map (\<lambda>j. (page_of 0xA0000000 j, page_of Fs j)) [0..<16]"

lemma exec_pairs_fst: "map (\<lambda>x. va_path (fst x)) (exec_pairs tx Ft da Fd Fs) = map va_path (user_pages tx da)"
  by (simp add: exec_pairs_def user_pages_def pages_from_def del: upt_Suc)

lemma exec_pairs_mem:
  "j < seg_len tx \<Longrightarrow> (page_of (segment_start tx) j, page_of Ft j) \<in> set (exec_pairs tx Ft da Fd Fs)"
  "j < seg_len da \<Longrightarrow> (page_of (segment_start da) j, page_of Fd j) \<in> set (exec_pairs tx Ft da Fd Fs)"
  "j < 16 \<Longrightarrow> (page_of 0xA0000000 j, page_of Fs j) \<in> set (exec_pairs tx Ft da Fd Fs)"
  "fst ` set (exec_pairs tx Ft da Fd Fs) = set (user_pages tx da)"
  by (auto simp: exec_pairs_def user_pages_def pages_from_def image_image image_Un simp del: upt_Suc)

definition stacked :: "u64 \<Rightarrow> u64 \<Rightarrow> process_data \<Rightarrow> process_data" where
  "stacked V F p = p\<lparr>proc_stack_virt := 0xA0000000, proc_stack_kvirt := V, proc_stack_phys := F,
     stack_size := PROCESS_DEFAULT_STACK_SIZE\<rparr>"

text \<open>exec_stack maps the pages of both segments and sixteen cleared pages of stack.\<close>

lemma exec_stack_ok:
  assumes ok: "paging_ok lev s" and w: "window s"
    and r: "room lev (16 + 3 * (1 + seg_len tx + seg_len da + 16)) s"
    and tx: "text_sections p = sections_at Ft (segment_start tx) Vt (seg_len tx)" "unat (text_section_count p) = seg_len tx"
    and da: "data_sections p = sections_at Fd (segment_start da) Vd (seg_len da)" "unat (data_section_count p) = seg_len da"
    and dist: "distinct (map va_path (user_pages tx da))"
    and user: "\<forall>v \<in> set (user_pages tx da). user_page v s"
  defines "F \<equiv> kernel_physical_memory_next s"
  shows "\<exists>s' lev'. exec_stack p s = Some (stacked (kernel_virtual_memory_next s) F p, s') \<and> paging_ok lev' s'
     \<and> (\<forall>(v, q) \<in> set (exec_pairs tx Ft da Fd F). mmu_translate v s' = Some (Page (q AND PAGE_ADDR_MASK) 0))
     \<and> (\<forall>q. plain_frame s q \<longrightarrow> frames s' q = frames s q)
     \<and> (\<forall>j < 16. frames s' (page_of F j) = Some (replicate 512 0))"
proof -
  let ?V = "kernel_virtual_memory_next s" and ?m = "3 * (1 + seg_len tx + seg_len da + 16)"
  obtain s1 l1 where 1: "page_allocate_kernel 16 s = Some (?V, s1)" "taken lev s 16 l1 s1" "room l1 ?m s1"
    using kernel_pages [of lev s 16 ?m] ok w r by auto
  have "room lev 16 s" using room_mono [OF r] by simp
  from taken_translates [OF 1(2) ok w this, of 0] have tr: "paging_virtual_to_physical ?V s1 = Some F" by (simp add: F_def)
  have s1: "paging_ok l1 s1" "keeps {} s s1" using 1(2) by (simp_all add: taken_def)
  let ?ps = "(0xA0000000, F) # exec_pairs tx Ft da Fd F"
  have "length ?ps = 1 + seg_len tx + seg_len da + 16" by (simp add: exec_pairs_def)
  then have "room l1 (0 + 3 * length ?ps) s1" using 1(3) by simp
  moreover have K: "frames s (cur_pt s) \<noteq> None" using r by (simp add: room_def)
  have u1: "user_page v s1" if "v \<in> set (user_pages tx da)" for v
    using user that s1(2) K butlast_path_len [of v] by (simp add: user_page_def keeps_def)
  have "0xA0000000 \<in> set (user_pages tx da)"
    by (simp add: user_pages_def pages_from_def) (metis atLeastLessThan_iff image_eqI le0 page_of_0 zero_less_numeral)
  then have "\<forall>x \<in> set ?ps. small_page (fst x) s1" using u1 exec_pairs_mem(4) [of tx Ft da Fd F] by (auto simp: user_page_def)
  ultimately obtain s2 l2 where
    2: "map_pairs ?ps s1 = Some s2" "paging_ok l2 s2" "same_walks s1 s2" "enters ?ps s1 s2"
    using map_pairs_ok [OF s1(1), of 0 ?ps] by blast
  have mt: "map_sections (unat (text_section_count p)) (text_sections p) s' =
      map_pairs (map (\<lambda>j. (page_of (segment_start tx) j, page_of Ft j)) [0..<seg_len tx]) s'" for s'
    using map_sections_pairs [of "seg_len tx" "text_sections p"] tx section_pairs_at [of Ft "segment_start tx" Vt "seg_len tx"]
    by (simp add: sections_at_def)
  have md: "map_sections (unat (data_section_count p)) (data_sections p) s' =
      map_pairs (map (\<lambda>j. (page_of (segment_start da) j, page_of Fd j)) [0..<seg_len da]) s'" for s'
    using map_sections_pairs [of "seg_len da" "data_sections p"] da section_pairs_at [of Fd "segment_start da" Vd "seg_len da"]
    by (simp add: sections_at_def)
  have "exec_stack p s = Some (stacked ?V F p, s2)"
  proof (cases "page_map 0xA0000000 F s1")
    case None
    then show ?thesis using 2(1) by simp
  next
    case (Some x)
    obtain v sa where x: "x = (v, sa)" by force
    have m: "map_pairs (exec_pairs tx Ft da Fd F) sa = Some s2" using 2(1) Some x by simp
    show ?thesis
      using 1(1) tr Some x m
      by (auto simp: exec_stack_def Let_def stacked_def exec_pairs_def map_pairs_append mt md map_stack_pairs stack_pairs_at
          simp del: upt_Suc split: Option.bind_splits)
  qed
  moreover have "mmu_translate v s2 = Some (Page (q AND PAGE_ADDR_MASK) 0)"
    if vq: "(v, q) \<in> set (exec_pairs tx Ft da Fd F)" for v q
  proof -
    have "v \<in> set (user_pages tx da)" using vq exec_pairs_mem(4) by force
    then have "\<not> window_page s1 s2 v" using u1 by (simp add: user_page_def window_page_def allotted_def)
    then show ?thesis
      using 2(4) last_mapping_Cons [OF last_mapping_distinct [OF _ vq]] dist by (simp add: exec_pairs_fst enters_def)
  qed
  moreover have "frames s2 q = frames s q" if "plain_frame s q" for q
    using that s1(2) keeps_plain [OF s1(2) that] 2(3) by (simp add: keeps_def same_walks_def)
  moreover have "frames s2 (page_of F j) = Some (replicate 512 0)" if "j < 16" for j
    using that 1(2) 2(3) by (simp add: taken_def same_walks_def F_def)
  ultimately show ?thesis using 2(2) by blast
qed

section \<open>Loading and starting a program\<close>

text \<open>A static program: an ELF file that the kernel can read, with two segments that fit their pages, code and data.\<close>

definition static_program :: "loader_env \<Rightarrow> u8 list \<Rightarrow> elf_file \<Rightarrow> Elf64_Phdr \<Rightarrow> Elf64_Phdr \<Rightarrow> bool" where
  "static_program env data f tx da \<longleftrightarrow> take 4 data = [0x7F, 0x45, 0x4C, 0x46] \<and> le_result env
     \<and> elf_file_initalize data (le_new_elf env) \<bind> elf_load_symbols (le_stale env) = Some f
     \<and> elf_get_section_header_by_name name_rela_plt f = Some None
     \<and> (\<exists>phs. list_all2 (\<lambda>i ph. get_program_header_by_index (of_nat i) f = Some ph) [0..<unat (el_num_program_headers f)] phs
          \<and> filter (\<lambda>ph. p_type ph = PT_LOAD) phs = [tx, da])
     \<and> seg_fits tx data \<and> seg_fits da data \<and> p_flags tx AND PF_X \<noteq> 0 \<and> p_flags da AND PF_X = 0"

text \<open>The process with its sections.\<close>

definition loaded_proc :: "u64 \<Rightarrow> Elf64_Phdr \<Rightarrow> u64 \<Rightarrow> u64 \<Rightarrow> Elf64_Phdr \<Rightarrow> u64 \<Rightarrow> u64 \<Rightarrow> process_data \<Rightarrow> process_data" where
  "loaded_proc ent tx Ft Vt da Fd Vd p = p\<lparr>
     text_sections := sections_at Ft (segment_start tx) Vt (seg_len tx), text_section_count := ucast (segment_pages tx),
     text_secton_virt_start := p_vaddr tx,
     data_sections := sections_at Fd (segment_start da) Vd (seg_len da), data_section_count := ucast (segment_pages da),
     data_section_virt_start := p_vaddr da, entry := ent\<rparr>"

lemma filter_total: "filter (\<lambda>ph. p_type ph = PT_LOAD) phs = [tx, da] \<Longrightarrow> seg_total phs = seg_len tx + seg_len da"
  by (simp add: seg_total_def)

lemma load_ok:
  assumes pr: "static_program env data f tx da"
    and ok: "paging_ok lev s" and w: "window s" and r: "room lev (seg_len tx + seg_len da + m) s"
  defines "F \<equiv> kernel_physical_memory_next s" and "V \<equiv> kernel_virtual_memory_next s"
  shows "\<exists>s' lev'. elf_loader_load env data (p, s, syms) =
      Some (0, loaded_proc (e_entry (el_header f)) tx F V da (page_of F (seg_len tx)) (page_of V (seg_len tx)) p, s', syms)
    \<and> filled lev s (seg_len tx + seg_len da) lev' s' \<and> room lev' m s'
    \<and> image_at s' F tx data \<and> image_at s' (page_of F (seg_len tx)) da data"
proof -
  obtain phs where phs: "list_all2 (\<lambda>i ph. get_program_header_by_index (of_nat i) f = Some ph) [0..<unat (el_num_program_headers f)] phs"
    "filter (\<lambda>ph. p_type ph = PT_LOAD) phs = [tx, da]" using pr by (auto simp: static_program_def)
  have mem: "ph \<in> set phs \<Longrightarrow> p_type ph = PT_LOAD \<Longrightarrow> ph = tx \<or> ph = da" for ph
    using arg_cong [OF phs(2), of set] by auto
  then have fits: "\<forall>ph \<in> set phs. p_type ph = PT_LOAD \<longrightarrow> seg_fits ph data"
    using pr by (auto simp: static_program_def)
  have load: "p_type tx = PT_LOAD" "p_type da = PT_LOAD" using arg_cong [OF phs(2), of set] by auto
  have pl: "placements phs F V = [(tx, F, V), (da, page_of F (seg_len tx), page_of V (seg_len tx))]"
    by (subst placements_filter) (simp add: phs(2) load)
  have tot: "seg_total phs = seg_len tx + seg_len da" by (rule filter_total [OF phs(2)])
  have "room lev (seg_total phs + m) s" using r by (simp add: tot)
  from load_segments_ok [OF phs(1) fits ok w this, of "(p, le_ava env)"] obtain s' lev' where
    l: "load_segments [0..<unat (el_num_program_headers f)] f data (p, le_ava env) s =
        Some (False, fold place_at (placements phs F V) (p, le_ava env), s')"
       "filled lev s (seg_len tx + seg_len da) lev' s'" "room lev' m s'"
       "image_at s' F tx data" "image_at s' (page_of F (seg_len tx)) da data"
    unfolding F_def [symmetric] V_def [symmetric] by (auto simp: tot pl)
  obtain f0 where f0: "elf_file_initalize data (le_new_elf env) = Some f0" "elf_load_symbols (le_stale env) f0 = Some f"
    using pr by (auto simp: static_program_def bind_eq_Some_conv)
  obtain c ds where data: "data = c # ds" "c = 0x7F" "take 3 ds = [0x45, 0x4C, 0x46]" "3 \<le> length ds"
  proof -
    have t: "take 4 data = [0x7F, 0x45, 0x4C, 0x46]" using pr by (simp add: static_program_def)
    then have "length (take 4 data) = 4" by simp
    then have "4 \<le> length data" unfolding length_take by linarith
    then show ?thesis using that t by (cases data) (auto simp: take_Suc_conv_app_nth numeral_eq_Suc)
  qed
  have n3: "\<not> length ds < 3" using data(4) by simp
  have fl: "p_flags tx AND PF_X \<noteq> 0" "p_flags da AND PF_X = 0" "p_flags da AND PF_R \<noteq> 0" "le_result env"
    "elf_get_section_header_by_name name_rela_plt f = Some None"
    using pr by (auto simp: static_program_def seg_fits_def)
  have "elf_loader_load env data (p, s, syms) = Some (0, loaded_proc (e_entry (el_header f)) tx F V da (page_of F (seg_len tx)) (page_of V (seg_len tx)) p, s', syms)"
    using l(1) f0 fl n3
    by (cases syms) (simp add: elf_loader_load_def data nth_elem_def elf_loader_load_binary_def pl place_at_def
        place_segment_def loaded_proc_def Let_def)
  then show ?thesis using l(2-5) by blast
qed

lemma seg_len_u16: "seg_len ph < 65536 \<Longrightarrow> unat (ucast (segment_pages ph) :: u16) = seg_len ph"
  by (simp add: seg_len_def unsigned_ucast_eq take_bit_eq_mod)

text \<open>A segment whose pages are mapped shows its bytes.\<close>

lemma image_mapped:
  assumes "paging_ok lev s'" "image_at s F ph data" "\<forall>q. plain_frame s q \<longrightarrow> frames s' q = frames s q"
    and "\<forall>j < seg_len ph. mmu_translate (page_of (segment_start ph) j) s' = Some (Page (page_of F j AND PAGE_ADDR_MASK) 0)"
    and i: "i < 4096 * seg_len ph"
  shows "user_byte s' (segment_start ph + of_nat i) = Some (seg_image ph data i)"
proof -
  have fr: "frames s' (page_of F j) = frames s (page_of F j)" "frames s' (page_of F j) \<noteq> None" if "j < seg_len ph" for j
    using assms(2,3) that by (auto simp: image_at_def plain_frame_def)
  then have "page_of F j AND PAGE_ADDR_MASK = page_of F j" if "j < seg_len ph" for j
    using assms(1) that by (simp add: paging_ok_def addr_ok_def)
  then have "user_byte s' (segment_start ph + of_nat i) = Some (frame_byte s' F i)"
    using user_byte_mapped [OF segment_start_low i] assms(4) fr(2) by simp
  moreover have "i div 4096 < seg_len ph" using i by linarith
  ultimately show ?thesis using assms(2) fr(1) i by (simp add: image_at_def frame_byte_def)
qed

lemma room_small: "room lev (n + m) s \<Longrightarrow> n < 512"
  by (simp add: room_def)

lemma exec_loads:
  assumes pr: "static_program env data f tx da"
    and ok: "paging_ok lev s" and w: "window s"
    and r: "room lev (seg_len tx + seg_len da + (16 + 3 * (1 + seg_len tx + seg_len da + 16))) s"
    and dist: "distinct (map va_path (user_pages tx da))"
    and user: "\<forall>v \<in> set (user_pages tx da). user_page v s"
  shows "\<exists>p1 s1 p2 s2. elf_loader_load env data (p, s, syms) = Some (0, p1, s1, syms) \<and> exec_stack p1 s1 = Some (p2, s2)
     \<and> (\<forall>ph \<in> {tx, da}. \<forall>i < 4096 * seg_len ph. user_byte s2 (segment_start ph + of_nat i) = Some (seg_image ph data i))
     \<and> (\<forall>i < 65536. user_byte s2 (0xA0000000 + of_nat i) = Some 0)
     \<and> exec_context p2 = zero_registers\<lparr>rip := e_entry (el_header f), rsp := 0xA0010000, cs := 0x28, rflags := 0x200, ss := 0x30\<rparr>"
proof -
  let ?F = "kernel_physical_memory_next s" and ?V = "kernel_virtual_memory_next s"
  let ?p = "loaded_proc (e_entry (el_header f)) tx ?F ?V da (page_of ?F (seg_len tx)) (page_of ?V (seg_len tx)) p"
  obtain s1 l1 where 1: "elf_loader_load env data (p, s, syms) = Some (0, ?p, s1, syms)"
      "filled lev s (seg_len tx + seg_len da) l1 s1" "room l1 (16 + 3 * (1 + seg_len tx + seg_len da + 16)) s1"
      "image_at s1 ?F tx data" "image_at s1 (page_of ?F (seg_len tx)) da data"
    using load_ok [OF pr ok w r] by blast
  have small: "seg_len tx < 65536" "seg_len da < 65536" using room_small [OF r] by simp_all
  have s1: "paging_ok l1 s1" "window s1" "keeps {} s s1" using 1(2) by (simp_all add: filled_def)
  have "frames s (cur_pt s) \<noteq> None" using r by (simp add: room_def)
  then have user1: "\<forall>v \<in> set (user_pages tx da). user_page v s1"
    using user s1(3) butlast_path_len unfolding keeps_def user_page_def by simp
  have "text_sections ?p = sections_at ?F (segment_start tx) ?V (seg_len tx)" "unat (text_section_count ?p) = seg_len tx"
    "data_sections ?p = sections_at (page_of ?F (seg_len tx)) (segment_start da) (page_of ?V (seg_len tx)) (seg_len da)"
    "unat (data_section_count ?p) = seg_len da"
    using small by (simp_all add: loaded_proc_def seg_len_u16)
  from exec_stack_ok [OF s1(1,2) 1(3) this dist user1] obtain s2 l2 where
    2: "exec_stack ?p s1 = Some (stacked (kernel_virtual_memory_next s1) (kernel_physical_memory_next s1) ?p, s2)" "paging_ok l2 s2"
       "\<forall>(v, q) \<in> set (exec_pairs tx ?F da (page_of ?F (seg_len tx)) (kernel_physical_memory_next s1)).
          mmu_translate v s2 = Some (Page (q AND PAGE_ADDR_MASK) 0)"
       "\<forall>q. plain_frame s1 q \<longrightarrow> frames s2 q = frames s1 q"
       "\<forall>j < 16. frames s2 (page_of (kernel_physical_memory_next s1) j) = Some (replicate 512 0)"
    by blast
  have t: "user_byte s2 (segment_start tx + of_nat i) = Some (seg_image tx data i)" if "i < 4096 * seg_len tx" for i
    using image_mapped [OF 2(2) 1(4) 2(4) _ that] 2(3) exec_pairs_mem(1) by blast
  have d: "user_byte s2 (segment_start da + of_nat i) = Some (seg_image da data i)" if "i < 4096 * seg_len da" for i
    using image_mapped [OF 2(2) 1(5) 2(4) _ that] 2(3) exec_pairs_mem(2) by blast
  let ?S = "kernel_physical_memory_next s1"
  have "page_of ?S j AND PAGE_ADDR_MASK = page_of ?S j" if "j < 16" for j
    using 2(2,5) that by (simp add: paging_ok_def addr_ok_def)
  then have st: "\<forall>j < 16. mmu_translate (page_of 0xA0000000 j) s2 = Some (Page (page_of ?S j) 0) \<and> frames s2 (page_of ?S j) \<noteq> None"
    using 2(3,5) exec_pairs_mem(3) by fastforce
  have z: "user_byte s2 (0xA0000000 + of_nat i) = Some 0" if "i < 65536" for i
  proof -
    have "i < 4096 * 16" "i div 4096 < 16" "i mod 4096 div 8 < 512" using that by (simp_all add: div_less_iff_less_mult)
    then show ?thesis using user_byte_mapped [OF _ _ st, of i] 2(5) by (simp add: frame_byte_def byte_at_zero)
  qed
  have "exec_context (stacked (kernel_virtual_memory_next s1) ?S ?p) =
      zero_registers\<lparr>rip := e_entry (el_header f), rsp := 0xA0010000, cs := 0x28, rflags := 0x200, ss := 0x30\<rparr>"
    by (simp add: exec_context_def stacked_def loaded_proc_def)
  then show ?thesis using 1(1) 2(1) t d z
    by (intro exI [of _ ?p] exI [of _ s1] exI [of _ "stacked (kernel_virtual_memory_next s1) ?S ?p"] exI [of _ s2] conjI) auto
qed


text \<open>The small program, started by the process with the identifier 2 of the booted kernel.\<close>

lemma px_seg:
  "seg_len px_code_seg = 1" "segment_start px_code_seg = 0x40000000" "segment_offset px_code_seg = 0x10"
  "seg_len px_data_seg = 1" "segment_start px_data_seg = 0x40001000" "segment_offset px_data_seg = 0x20"
  "p_filesz px_code_seg = 8" "p_offset px_code_seg = 478" "p_filesz px_data_seg = 8" "p_offset px_data_seg = 486"
  by (simp_all add: seg_len_def segment_pages_def segment_start_def segment_offset_def px_code_seg_def px_data_seg_def)

lemma px_program: "static_program px_env px_elf px_file px_code_seg px_data_seg"
proof -
  have "list_all2 (\<lambda>i ph. get_program_header_by_index (of_nat i) px_file = Some ph)
      [0..<unat (el_num_program_headers px_file)] [px_code_seg, px_note_seg, px_data_seg]"
    using px_segments by (simp add: px_file_def upt_conv_Cons)
  moreover have "filter (\<lambda>ph. p_type ph = PT_LOAD) [px_code_seg, px_note_seg, px_data_seg] = [px_code_seg, px_data_seg]"
    by (simp add: px_code_seg_def px_note_seg_def px_data_seg_def)
  moreover have "take 4 px_elf = [0x7F, 0x45, 0x4C, 0x46]" by (simp add: px_elf_def px_ehdr_def)
  moreover have "seg_fits px_code_seg px_elf" "seg_fits px_data_seg px_elf"
    by (simp_all add: seg_fits_def px_seg) (simp_all add: px_code_seg_def px_data_seg_def)
  ultimately show ?thesis
    using px_load px_static unfolding static_program_def
    by (simp add: px_env_def) (auto simp: px_code_seg_def px_data_seg_def)
qed

lemma px_user_pages: "user_pages px_code_seg px_data_seg = [0x40000000, 0x40001000] @ pages_from 0xA0000000 16"
  by (simp add: user_pages_def px_seg pages_from_def)

lemma px_paths: "map va_path (user_pages px_code_seg px_data_seg) =
    [[0, 1, 0, 0], [0, 1, 0, 1]] @ map (\<lambda>j. [0, 2, 256, j]) [0..<16]"
  by (simp add: px_user_pages pages_from_def page_of_def va_path_def upt_conv_Cons)

lemma px_user_free: "\<forall>v \<in> set (user_pages px_code_seg px_data_seg). user_page v demo_paging"
proof
  fix v assume "v \<in> set (user_pages px_code_seg px_data_seg)"
  then have "va_path v \<in> set (map va_path (user_pages px_code_seg px_data_seg))" by simp
  then have "hd (va_path v) = 0" unfolding px_paths by auto
  then show "user_page v demo_paging" by (intro demo_user_page) (auto simp: va_path_def)
qed


end
