(* ===== verification/Spec2Isabelle.thy ===== *)
theory Spec2Isabelle
  imports AvsList PageGroup CString Dictionary Boot ProcProps FileCalls NetProps VfsProps TtyProps LibraryProps VuiProps ConsoleProps DevApi LoaderProps
begin

text \<open>
  AVSOS ("versionsix") is a kernel for x86-64 written in C (src/kernel). This library
  models its own code, component by component, and proves what makes each component
  correct, or shows exactly where it is not.

  The parts of the program and how they interact. The kernel boots (main.c), builds page
  tables, starts the object allocator, registers two file systems (RFS for /dev, ASVFS
  on a disk) and the devices, fills its table of symbols, creates the process structures
  and loads a first program. Programs enter the kernel through one interrupt, whose
  handler dispatches system calls on the saved registers; a call that blocks yields to
  another process, which replaces the saved registers and the mapped pages. Device files
  lead from the file calls to drivers; the drivers of the serial port and of the keyboard
  put a reader to sleep in a wait queue and wake it from their interrupts. Received
  Ethernet frames go from the driver's ring up through IP to UDP, TCP and DHCP. Calls of
  programs to library functions are resolved on first use by the dynamic linker, from
  the kernel's symbols, the program's own, and the registered shared libraries.

  Conventions. A pointer to memory of kmalloc is an address of an object store (KPrelude),
  a machine integer is a word of its width, and what C leaves undefined (NULL, an index
  outside an array, memory that is not allocated) is the result None: a theorem with
  Some on the left also says that none of it happens. Log messages and console output
  have no effect on a state and are left out. Hardware is an argument: the
  bytes an interrupt reads from a port, the frames that arrive, the drive as a function
  from addresses to bytes.

  The theories, in the order of the code:

  KPrelude: types, collections of rules, the object store of kmalloc and kfree, reads
  of little-endian integers.

  AvsList (lib/list.c, node.h): every list operation as the pointer writes of the code. The
  predicate lrep says which list a header represents; every operation refines the one
  on HOL lists and leaves other lists alone, and enqueue and dequeue are a FIFO queue.
  The processes use the list through this refinement.

  Bitmap and PageGroup (lib/bitmap.c, mem/pagegroup.c): the allocator of physical pages; no
  page is handed out twice, the lowest free one is taken, and the operations that do
  not work are shown to fail.

  CString (arch/x86_64/bootstrap.c): the string routines on a byte memory. Murmur
  (lib/hash.c): both hashes word for word, with the injectivity of their mixing steps.
  Dictionary (lib/dictionary.c): the map from hashes to values that additions refine,
  and the pointers that removal leaves dangling.

  Paging, PageWalk, PageTake, Boot (arch/x86_64/page.c): the four levels of tables in
  memory. Translation is the processor's walk (mmu_translate), which ends at the entries of
  large pages; on small pages the code's own walk agrees with it. tables_ok says that the
  tables are a radix tree, with the level of a frame as ghost state; the entries of large
  pages are leaves of it. Mapping a page makes it translate; every other page, those of the
  identity map included, translates as before, but for the pages of the kernel's own window
  that the allocator takes for missing tables. PageTake says what taking a kernel page does.
  Boot models the construction of the tables from the loader's, with the identity map of
  eight 1-GiB pages, and proves that they are in the state these theorems start from.

  Process (task/process.c, the descriptors of fs/vfs.c), Sched, AddrSpace, Syscalls
  (syscalls/*.c), ProcLife, ProcInv, ProcProps, FileCalls: the process records, the
  scheduler's two loops, the mapping of a process's sections at a switch, the handlers and
  their dispatcher. ProcInv makes the process table a state machine whose steps
  are system calls (the inductive step relation), with an invariant and what a step may
  do to dead and waiting processes; ProcProps states what every run keeps, and
  that a wait for a process that has already exited never ends.

  NetWire, NetStack, NetProps (net/*.c, the queues of devices/arch/x86_64/e1000.c): frames
  byte for byte, both checksums against RFC 1071, the DHCP exchange and the TCP
  handshake with their busy waits, the receive ring, and the sizes at which an array is
  overrun.

  AsvfsDisk, Asvfs, AsvfsProps (fs/asvfs.c): the disk format, the operations on it, and
  the invariant of the drive: a lookup is a walk in the tree of directories, creation and
  removal change one directory, what is written into a block is read back.

  Ksyms (support/ksymbols.c): the table of symbols as a map from names to addresses.

  Vfs, Rfs, VfsProps (fs/vfs.c, devices/device.c, fs/rfs.c, fs/fs.c, fs/asvfs_vios.c): mount
  points, the tables of operations, the devices and their files. The mount point of a
  path is the deepest one; a write to a device file is a call of its driver.

  Tty, TtyProps (task/wait_queue.c, devices/character, devices/virtual): blocking input. The
  locale blocking_input states the contract of a device that wakes its readers one by
  one, and proves once that the k-th read gets the k-th byte whatever the order of
  interrupts and reads; it is interpreted on the serial port and on the keyboard.

  Elf, Library, LibraryProps (fs/elf2.c, support/libraries.c, task/elf_loader.c): the
  parsing of shared objects, their image in memory with its relocations, and the
  resolution of a call.

  Loader, LoaderMem, LoaderSeg, LoaderDemo, LoaderProps (fs/elf.c, task/elf_loader.c,
  syscalls/execve.c): the start of a program. LoaderMem reads the user memory through the page
  tables; LoaderSeg adds the copy
  of a segment's bytes into them. After execve a program with a code and a data segment
  finds the bytes of its file at its own addresses, through the page tables of PageWalk, and
  a cleared stack. The theorem is for programs without a procedure linkage table; the
  branch with one (load_plt) is modelled, and what its calls resolve to is in Library.
  LoaderDemo is a small ELF file with page tables to start it in.

  Vui, VuiProps (vui/vui.c, event.c, layout.c and the creation of the elements): handles, the
  dispatchers in the order of their priorities, the way of an event to an element and its
  handlers, the grid layout. What a program and the mouse can do are the steps
  of ui_step; the invariant of the tables holds in every state they reach.

  Console, ConsoleProps (vui/console.c): the rows of the console as a terminal; they are the
  last lines of the text put on it, with the colours of its escape sequences, as long as no
  line is longer than the console is wide.

  DevApi (net/avs_dev_api.c): requests to the development server and its replies; base64
  decoding inverts the encoding.

  Loops, bounds and fuel. A loop over an array or a list is structural recursion. The
  loops that may not end (strings without NUL, the round robin without a runnable
  process, list walks over a memory that need not be a list, the search for the next page
  table) are partial functions whose result None means that they do not return; each
  theorem that uses one shows that it returns under its hypotheses. The busy waits
  (DHCP, TCP connect) recurse over the frames that arrive, and end when the awaited frame
  is among them. The other bounds are those of the code: 25 descriptors of a process and
  255 of the system, 50 bytes in the serial buffer (the theorem on its order needs
  fewer than 50 interrupts, and another shows why), 64 frames in the transmit
  ring, 2 ^ 31 as the first count that an int makes negative.

  Not modelled. Vendored code (the Zydis disassembler, miniz, libspng, libschrift,
  printf, liballoc, the debugger stub); the drawing of the elements, fonts and
  colours (vui); boot code, descriptor tables, assembly and the
  set-up of devices (register accesses); ACPI, the test drivers and the interactive bug
  reporter (diagnostic output); the programs and libraries of user space. Interrupts
  arrive between the operations modelled, not inside them, except in the waits, where
  the arrivals are explicit.
\<close>

end
